(* ===== verification/LM_Prelude.thy ===== *)
theory LM_Prelude
  imports Main "HOL-Library.AList" "HOL-Library.Multiset" "HOL-Library.Word"
begin

text \<open>
  Shared vocabulary of the development: the Python exceptions that the modelled code raises
  or catches, results that may be exceptions, insertion-ordered dictionaries as association
  lists, half-open address ranges, and the list and arithmetic lemmas that the component
  theories use.

  A Python \<^verbatim>\<open>dict\<close> or \<^verbatim>\<open>OrderedDict\<close> keeps insertion order, so it is an association list
  with distinct keys: assignment is \<^term>\<open>AList.update\<close> (an existing key keeps its place, a new
  one goes to the end), \<^verbatim>\<open>del\<close> and \<^verbatim>\<open>pop\<close> are \<^term>\<open>AList.delete\<close>, and lookup is
  \<^term>\<open>map_of\<close>.
\<close>

unbundle bit_operations_syntax

named_theorems lm_defs \<open>definitions that the component proofs unfold\<close>

section \<open>Exceptions as values\<close>

datatype py_error =
    RuntimeError
  | KeyError
  | ValueError
  | IndexError
  | AssertionError
  | NotImplementedError
  | AttributeError
  | TypeError
  | ZeroDivisionError
  | OverflowError
  | TimeoutError
  | StructError
  | UnicodeDecodeError

type_synonym 'a result = "py_error + 'a"

definition bind_result :: "'a result \<Rightarrow> ('a \<Rightarrow> 'b result) \<Rightarrow> 'b result" where
  "bind_result r f = (case r of Inl e \<Rightarrow> Inl e | Inr a \<Rightarrow> f a)"

lemma bind_result_simps [simp]:
  "bind_result (Inl e) f = Inl e"
  "bind_result (Inr a) f = f a"
  by (simp_all add: bind_result_def)

lemma bind_result_Inr [simp]:
  "bind_result r f = Inr b \<longleftrightarrow> (\<exists>a. r = Inr a \<and> f a = Inr b)"
  by (cases r) simp_all

text \<open>Indexing a Python sequence: negative indices count from the end.\<close>

definition py_nth :: "'a list \<Rightarrow> int \<Rightarrow> 'a result" where
  "py_nth xs i =
     (if 0 \<le> i \<and> i < int (length xs) then Inr (xs ! nat i)
      else if - int (length xs) \<le> i \<and> i < 0 then Inr (xs ! nat (int (length xs) + i))
      else Inl IndexError)"

lemma py_nth_nat [simp]: "i < length xs \<Longrightarrow> py_nth xs (int i) = Inr (xs ! i)"
  by (simp add: py_nth_def)

lemma py_nth_numeral [simp]:
  "py_nth (x # xs) 0 = Inr x"
  "py_nth [] i = Inl IndexError"
  by (simp_all add: py_nth_def)

text \<open>A loop whose body may raise, over the elements of a list.\<close>

fun fold_result :: "('a \<Rightarrow> 's \<Rightarrow> 's result) \<Rightarrow> 'a list \<Rightarrow> 's \<Rightarrow> 's result" where
  "fold_result f [] s = Inr s"
| "fold_result f (x # xs) s = bind_result (f x s) (fold_result f xs)"

lemma fold_result_invariant:
  assumes "fold_result f xs s = Inr t" and "P s"
    and "\<And>x s s'. x \<in> set xs \<Longrightarrow> P s \<Longrightarrow> f x s = Inr s' \<Longrightarrow> P s'"
  shows "P t"
  using assms
proof (induction xs arbitrary: s)
  case (Cons x xs)
  from Cons.prems(1) obtain s' where s': "f x s = Inr s'" "fold_result f xs s' = Inr t" by auto
  have "P s'" by (rule Cons.prems(3) [OF _ Cons.prems(2) s'(1)]) simp
  with s'(2) show ?case using Cons.prems(3) by (intro Cons.IH [of s']) auto
qed simp

section \<open>Insertion-ordered dictionaries\<close>

type_synonym ('k, 'v) pydict = "('k \<times> 'v) list"

abbreviation dict_keys :: "('k, 'v) pydict \<Rightarrow> 'k list" where
  "dict_keys d \<equiv> map fst d"

abbreviation dict_values :: "('k, 'v) pydict \<Rightarrow> 'v list" where
  "dict_values d \<equiv> map snd d"

abbreviation dict_has :: "('k, 'v) pydict \<Rightarrow> 'k \<Rightarrow> bool" where
  "dict_has d k \<equiv> map_of d k \<noteq> None"

abbreviation dict_ok :: "('k, 'v) pydict \<Rightarrow> bool" where
  "dict_ok d \<equiv> distinct (dict_keys d)"

text \<open>\<^verbatim>\<open>OrderedDict.move_to_end\<close> raises \<^verbatim>\<open>KeyError\<close> on a missing key.\<close>

definition move_to_end :: "'k \<Rightarrow> ('k, 'v) pydict \<Rightarrow> ('k, 'v) pydict result" where
  "move_to_end k d =
     (case map_of d k of
        None \<Rightarrow> Inl KeyError
      | Some v \<Rightarrow> Inr (AList.delete k d @ [(k, v)]))"

lemma dict_has_iff [simp]: "(\<exists>v. map_of d k = Some v) \<longleftrightarrow> k \<in> fst ` set d"
  by (metis domIff dom_map_of_conv_image_fst not_None_eq)

lemma map_of_Some_key: "map_of d k = Some v \<Longrightarrow> k \<in> fst ` set d"
  by (metis dict_has_iff)

lemma dict_ok_update [simp]: "dict_ok d \<Longrightarrow> dict_ok (AList.update k v d)"
  by (rule AList.distinct_update)

lemma dict_ok_delete [simp]: "dict_ok d \<Longrightarrow> dict_ok (AList.delete k d)"
  by (rule AList.distinct_delete)

lemma keys_delete [simp]: "fst ` set (AList.delete k d) = fst ` set d - {k}"
  by (auto simp: AList.delete_eq)

lemma set_delete: "set (AList.delete k d) = {p \<in> set d. fst p \<noteq> k}"
  by (auto simp: AList.delete_eq)

lemma move_to_end_ok:
  assumes "dict_ok d" and "move_to_end k d = Inr d'"
  shows "dict_ok d'" and "map_of d' = map_of d" and "fst ` set d' = fst ` set d"
proof -
  from assms(2) obtain v where v: "map_of d k = Some v" and d': "d' = AList.delete k d @ [(k, v)]"
    by (auto simp: move_to_end_def split: option.splits)
  show "dict_ok d'"
    using assms(1) by (auto simp: d' AList.delete_keys removeAll_filter_not_eq)
  show "map_of d' = map_of d"
    using v by (auto simp: d' fun_eq_iff map_add_def AList.delete_conv' split: option.splits)
  show "fst ` set d' = fst ` set d"
    using map_of_Some_key [OF v] by (auto simp: d')
qed

section \<open>Alignment to a power of two\<close>

lemma and_not_mask_int: "(x :: int) AND NOT (2 ^ k - 1) = x div 2 ^ k * 2 ^ k"
proof -
  have "x AND NOT (2 ^ k - 1) = push_bit k (drop_bit k x)"
    by (rule bit_eqI) (auto simp: bit_simps simp flip: mask_eq_exp_minus_1)
  then show ?thesis by (simp add: push_bit_eq_mult drop_bit_eq_div)
qed

lemma align_up_bounds:
  fixes x :: int and k :: nat
  defines "a \<equiv> (x + 2 ^ k - 1) div 2 ^ k * 2 ^ k"
  shows "x \<le> a" and "a < x + 2 ^ k" and "2 ^ k dvd a"
proof -
  have m: "(x + 2 ^ k - 1) div 2 ^ k * 2 ^ k + (x + 2 ^ k - 1) mod 2 ^ k = x + 2 ^ k - 1"
    by (rule div_mult_mod_eq)
  have "0 \<le> (x + 2 ^ k - 1) mod 2 ^ k" "(x + 2 ^ k - 1) mod 2 ^ k < 2 ^ k"
    by simp_all
  with m show "x \<le> a" and "a < x + 2 ^ k" unfolding a_def by linarith+
  show "2 ^ k dvd a" by (simp add: a_def)
qed

section \<open>Address ranges\<close>

definition addr_range :: "int \<Rightarrow> int \<Rightarrow> int set" where
  "addr_range a n = {a..<a + n}"

lemma addr_range_empty [simp]: "addr_range a n = {} \<longleftrightarrow> n \<le> 0"
  by (simp add: addr_range_def not_less)

lemma addr_range_nonpos [simp]: "n \<le> 0 \<Longrightarrow> addr_range a n = {}"
  by simp

lemma finite_addr_range [simp]: "finite (addr_range a n)"
  by (simp add: addr_range_def)

lemma card_addr_range [simp]: "int (card (addr_range a n)) = max 0 n"
  by (simp add: addr_range_def)

lemma addr_range_split: "0 \<le> m \<Longrightarrow> 0 \<le> n \<Longrightarrow> addr_range a (m + n) = addr_range a m \<union> addr_range (a + m) n"
  by (auto simp: addr_range_def)

section \<open>Lists\<close>

lemma exI3: "P x y z \<Longrightarrow> \<exists>x y z. P x y z"
  by blast

lemma find_SomeD:
  assumes "find P xs = Some x"
  obtains ps qs where "xs = ps @ x # qs" and "\<forall>y \<in> set ps. \<not> P y" and "P x"
  using assms
proof (induction xs arbitrary: thesis)
  case Nil
  then show ?case by simp
next
  case (Cons y ys)
  show ?case
  proof (cases "P y")
    case True
    with Cons.prems(2) have "x = y" by simp
    with True Cons.prems(1) [of "[]" ys] show ?thesis by simp
  next
    case False
    with Cons.prems(2) have "find P ys = Some x" by simp
    then obtain ps qs where "ys = ps @ x # qs" "\<forall>y \<in> set ps. \<not> P y" "P x"
      using Cons.IH by blast
    with False Cons.prems(1) [of "y # ps" qs] show ?thesis by simp
  qed
qed

lemma takeWhile_dropWhile_split:
  obtains ps qs where "xs = ps @ qs" and "ps = takeWhile P xs" and "qs = dropWhile P xs"
    and "\<forall>x \<in> set ps. P x" and "qs \<noteq> [] \<longrightarrow> \<not> P (hd qs)"
  by (metis hd_dropWhile set_takeWhileD takeWhile_dropWhile_id)

end
