(* ===== verification/Address_Space.thy ===== *)
theory Address_Space
  imports LM_Prelude
begin

text \<open>
  The interface between an allocator of addresses and the code that holds the ranges it
  hands out: the bookkeeping of live blocks, the contract \<open>address_space\<close>, and what follows
  from the contract for every history of requests. \<^verbatim>\<open>AddressManager\<close> is its provider.
\<close>

section \<open>The interface: an address space that hands out ranges\<close>

text \<open>
  The blocks \<open>live\<close> that clients hold, each an address and a size, are pairwise disjoint and,
  together with the free addresses, make up the whole space.
\<close>

abbreviation rng :: "int \<times> int \<Rightarrow> int set" where
  "rng b \<equiv> addr_range (fst b) (snd b)"

definition blocks_ok :: "(int \<times> int) list \<Rightarrow> int set \<Rightarrow> int \<Rightarrow> bool" where
  "blocks_ok live free span \<longleftrightarrow>
     sorted_wrt (\<lambda>b c. rng b \<inter> rng c = {}) live \<and> (\<forall>b \<in> set live. 0 < snd b) \<and>
     (\<Union>b \<in> set live. rng b) \<inter> free = {} \<and> (\<Union>b \<in> set live. rng b) \<union> free = addr_range 0 span"

definition remove_nth :: "nat \<Rightarrow> 'a list \<Rightarrow> 'a list" where
  "remove_nth i xs = take i xs @ drop (Suc i) xs"

lemma remove_nth_split:
  assumes "i < length xs"
  obtains ps qs where "xs = ps @ (xs ! i) # qs" and "remove_nth i xs = ps @ qs"
  using assms id_take_nth_drop remove_nth_def by metis

lemma blocks_ok_nil [simp]: "blocks_ok [] free span \<longleftrightarrow> free = addr_range 0 span"
  by (simp add: blocks_ok_def)

lemma disjoint_list_insert:
  "sorted_wrt (\<lambda>x y. f x \<inter> f y = {}) (ps @ b # qs) \<longleftrightarrow>
     sorted_wrt (\<lambda>x y. f x \<inter> f y = {}) (ps @ qs) \<and> f b \<inter> (\<Union>c \<in> set (ps @ qs). f c) = {}"
  unfolding sorted_wrt_append by simp blast

lemma blocks_ok_insert:
  "blocks_ok (ps @ b # qs) free span \<longleftrightarrow>
     0 < snd b \<and> rng b \<inter> free = {} \<and> blocks_ok (ps @ qs) (free \<union> rng b) span"
proof -
  have swap: "(\<Union>c \<in> set (ps @ b # qs). rng c) = rng b \<union> (\<Union>c \<in> set (ps @ qs). rng c)"
    by auto
  have pos: "(\<forall>c \<in> set (ps @ b # qs). 0 < snd c) \<longleftrightarrow> 0 < snd b \<and> (\<forall>c \<in> set (ps @ qs). 0 < snd c)"
    by auto
  have regroup: "(s \<and> B \<inter> U = {}) \<and> (p \<and> q) \<and> (B \<union> U) \<inter> F = {} \<and> B \<union> U \<union> F = R \<longleftrightarrow>
      p \<and> B \<inter> F = {} \<and> s \<and> q \<and> U \<inter> (F \<union> B) = {} \<and> U \<union> (F \<union> B) = R"
    for s p q :: bool and B U F R :: "int set"
    by blast
  show ?thesis
    unfolding blocks_ok_def swap pos disjoint_list_insert by (rule regroup)
qed

lemma blocks_ok_perm:
  assumes "mset xs = mset ys"
  shows "blocks_ok xs free span = blocks_ok ys free span"
  using assms
proof (induction xs arbitrary: ys free)
  case (Cons b xs)
  then have "b \<in> set ys" by (metis list.set_intros(1) mset_eq_setD)
  then obtain ps qs where ys: "ys = ps @ b # qs" by (meson split_list)
  with Cons.prems have "mset xs = mset (ps @ qs)" by simp
  from Cons.IH [OF this] show ?case
    using blocks_ok_insert [of "[]" b xs free span] by (simp add: ys blocks_ok_insert)
qed simp

lemma blocks_ok_split:
  assumes "0 < n" and "0 < m"
  shows "blocks_ok ((a, n) # (a + n, m) # bs) free span = blocks_ok ((a, n + m) # bs) free span"
proof -
  have "addr_range a (n + m) = addr_range a n \<union> addr_range (a + n) m"
    using assms by (intro addr_range_split) simp_all
  moreover have "addr_range a n \<inter> addr_range (a + n) m = {}"
    by (auto simp: addr_range_def)
  ultimately show ?thesis
    using assms blocks_ok_insert [of "[]" "(a, n)" "(a + n, m) # bs" free span]
      blocks_ok_insert [of "[]" "(a + n, m)" bs "free \<union> addr_range a n" span]
      blocks_ok_insert [of "[]" "(a, n + m)" bs free span]
    by (auto simp: Un_assoc Int_Un_distrib Int_Un_distrib2 Int_commute)
qed

lemma blocks_ok_take:
  assumes "blocks_ok live free span" and "0 < n" and "addr_range a n \<subseteq> free"
  shows "blocks_ok ((a, n) # live) (free - addr_range a n) span"
proof -
  have "free - addr_range a n \<union> addr_range a n = free" using assms(3) by blast
  with assms show ?thesis
    using blocks_ok_insert [of "[]" "(a, n)" live "free - addr_range a n" span] by simp
qed

lemma blocks_ok_give:
  assumes ok: "blocks_ok live free span" and i: "i < length live"
  shows "blocks_ok (remove_nth i live) (free \<union> rng (live ! i)) span"
    and "rng (live ! i) \<inter> free = {}" and "rng (live ! i) \<subseteq> addr_range 0 span" and "0 < snd (live ! i)"
proof -
  obtain ps qs where sp: "live = ps @ (live ! i) # qs" "remove_nth i live = ps @ qs"
    using i by (rule remove_nth_split)
  have "blocks_ok (ps @ (live ! i) # qs) free span" using ok sp(1) by simp
  then show "blocks_ok (remove_nth i live) (free \<union> rng (live ! i)) span"
    and "rng (live ! i) \<inter> free = {}" and "0 < snd (live ! i)"
    unfolding blocks_ok_insert sp(2) by blast+
  then show "rng (live ! i) \<subseteq> addr_range 0 span" unfolding blocks_ok_def by blast
qed

lemma blocks_ok_grow:
  assumes "blocks_ok live free span" and "0 \<le> span" and "0 \<le> n"
  shows "blocks_ok live (free \<union> addr_range span n) (span + n)"
proof -
  have "(\<Union>b \<in> set live. rng b) \<inter> addr_range span n = {}"
  proof -
    have "(\<Union>b \<in> set live. rng b) \<subseteq> addr_range 0 span"
      using assms(1) unfolding blocks_ok_def by blast
    moreover have "addr_range 0 span \<inter> addr_range span n = {}"
      by (auto simp: addr_range_def)
    ultimately show ?thesis by blast
  qed
  with assms show ?thesis
    using addr_range_split [of span n 0] unfolding blocks_ok_def
    by (simp add: Int_Un_distrib) (simp add: Un_assoc [symmetric])
qed

text \<open>
  What a user of an address space relies on: a successful allocation takes a range of at
  least the requested size out of the free addresses, a failed one has no way to take any;
  giving back a range that is not free makes exactly its addresses free again.
\<close>

locale address_space =
  fixes inv :: "'s \<Rightarrow> bool"
    and free_set :: "'s \<Rightarrow> int set"
    and span :: "'s \<Rightarrow> int"
    and aligned :: "'s \<Rightarrow> int \<Rightarrow> bool"
    and alloc :: "'s \<Rightarrow> int \<Rightarrow> ('s \<times> int \<times> int) result"
    and release :: "'s \<Rightarrow> int \<Rightarrow> int \<Rightarrow> 's"
  assumes alloc_law: "inv s \<Longrightarrow> 0 < m \<Longrightarrow> alloc s m = Inr (s', a, n) \<Longrightarrow>
      inv s' \<and> m \<le> n \<and> addr_range a n \<subseteq> free_set s \<and> free_set s' = free_set s - addr_range a n \<and>
      span s' = span s \<and> aligned s a \<and> aligned s' = aligned s"
    and release_law: "inv s \<Longrightarrow> 0 < n \<Longrightarrow> aligned s a \<Longrightarrow>
      addr_range a n \<subseteq> addr_range 0 (span s) \<Longrightarrow> addr_range a n \<inter> free_set s = {} \<Longrightarrow>
      inv (release s a n) \<and> free_set (release s a n) = free_set s \<union> addr_range a n \<and>
      span (release s a n) = span s \<and> aligned (release s a n) = aligned s"
begin

lemma alloc_live:
  assumes "inv s" and "0 < m" and "alloc s m = Inr (s', a, n)"
    and "blocks_ok live (free_set s) (span s)" and "\<forall>b \<in> set live. aligned s (fst b)"
  shows "inv s'" and "blocks_ok ((a, n) # live) (free_set s') (span s')"
    and "\<forall>b \<in> set ((a, n) # live). aligned s' (fst b)"
  using alloc_law [OF assms(1-3)] assms blocks_ok_take [of live "free_set s" "span s" n a] by auto

lemma release_live:
  assumes "inv s" and "i < length live"
    and "blocks_ok live (free_set s) (span s)" and "\<forall>b \<in> set live. aligned s (fst b)"
  defines "t \<equiv> release s (fst (live ! i)) (snd (live ! i))"
  shows "inv t" and "blocks_ok (remove_nth i live) (free_set t) (span t)"
    and "\<forall>b \<in> set (remove_nth i live). aligned t (fst b)"
proof -
  note g = blocks_ok_give [OF assms(3,2)]
  have "aligned s (fst (live ! i))" using assms(2,4) by simp
  from release_law [OF assms(1) g(4) this g(3,2)]
  have t: "inv t" "free_set t = free_set s \<union> rng (live ! i)" "span t = span s" "aligned t = aligned s"
    by (simp_all add: t_def)
  show "inv t" by (fact t)
  show "blocks_ok (remove_nth i live) (free_set t) (span t)" using g(1) by (simp add: t)
  have "set (remove_nth i live) \<subseteq> set live"
    by (auto simp: remove_nth_def dest: in_set_takeD in_set_dropD)
  with assms(4) t show "\<forall>b \<in> set (remove_nth i live). aligned t (fst b)" by auto
qed

end

end
