(* ===== verification/Address_Manager.thy ===== *)
theory Address_Manager
  imports Address_Space
begin

text \<open>
  The class \<^verbatim>\<open>AddressManager\<close> of \<^verbatim>\<open>lmcache/v1/memory_management.py\<close>: a first-fit allocator of a
  virtual address space that keeps its free blocks in a list ordered by start address and
  merges neighbours when a block comes back.

  The list is a \<^verbatim>\<open>SortedList\<close> of the package \<^verbatim>\<open>sortedcontainers\<close>, which is not part of the
  repository. Its three methods that the class calls are a parameter \<open>S\<close> of the model, and
  \<open>SortedList_documented S\<close> states what the package documents of them.

  Shown here: the well-formedness invariant (ordered, disjoint, fully coalesced, accounted
  for) and that every operation keeps it; what \<^verbatim>\<open>allocate\<close>, \<^verbatim>\<open>free\<close> and \<^verbatim>\<open>sbrk\<close> do to the set of
  free addresses; and, through the interface \<open>address_space\<close>, that live allocations never
  overlap.
\<close>

section \<open>Free blocks and the sorted container\<close>

record FreeBlock =
  fb_start :: int
  fb_size :: int

definition can_be_coalesced :: "FreeBlock \<Rightarrow> FreeBlock \<Rightarrow> bool" where
  "can_be_coalesced b succ \<longleftrightarrow> fb_start b + fb_size b = fb_start succ"

record SortedList_ops =
  sl_add :: "FreeBlock \<Rightarrow> FreeBlock list \<Rightarrow> FreeBlock list"
  sl_remove :: "FreeBlock \<Rightarrow> FreeBlock list \<Rightarrow> FreeBlock list"
  sl_bisect_left :: "FreeBlock \<Rightarrow> FreeBlock list \<Rightarrow> nat"

text \<open>
  A \<^verbatim>\<open>SortedList(key=...)\<close> is represented by the list of its values in iteration order. The
  documentation says: \<^verbatim>\<open>add\<close> keeps the values in key order, \<^verbatim>\<open>remove\<close> deletes the first value
  equal to its argument, \<^verbatim>\<open>bisect_left\<close> returns the number of values with a smaller key.
\<close>

definition SortedList_documented :: "SortedList_ops \<Rightarrow> bool" where
  "SortedList_documented S \<longleftrightarrow>
     (\<forall>b xs. sorted (map fb_start xs) \<longrightarrow>
        sorted (map fb_start (sl_add S b xs)) \<and> mset (sl_add S b xs) = add_mset b (mset xs)) \<and>
     (\<forall>b xs. sorted (map fb_start xs) \<longrightarrow> b \<in> set xs \<longrightarrow> sl_remove S b xs = remove1 b xs) \<and>
     (\<forall>b xs. sorted (map fb_start xs) \<longrightarrow>
        sl_bisect_left S b xs = length (takeWhile (\<lambda>c. fb_start c < fb_start b) xs))"

section \<open>State and operations\<close>

record AddressManager =
  am_size :: int
  am_align :: int
  am_explicit_list :: "FreeBlock list"
  am_total_allocated_size :: int

definition AddressManager_init :: "SortedList_ops \<Rightarrow> int \<Rightarrow> int \<Rightarrow> AddressManager" where
  "AddressManager_init S sz align_bytes =
     \<lparr>am_size = sz, am_align = align_bytes,
      am_explicit_list = sl_add S \<lparr>fb_start = 0, fb_size = sz\<rparr> [],
      am_total_allocated_size = 0\<rparr>"

definition compute_aligned_size :: "AddressManager \<Rightarrow> int \<Rightarrow> int" where
  "compute_aligned_size am raw_size = (raw_size + am_align am - 1) AND NOT (am_align am - 1)"

definition can_merge_with_prev :: "FreeBlock \<Rightarrow> FreeBlock \<Rightarrow> bool" where
  "can_merge_with_prev curr_block prev_block = can_be_coalesced prev_block curr_block"

definition can_merge_with_succ :: "FreeBlock \<Rightarrow> FreeBlock \<Rightarrow> bool" where
  "can_merge_with_succ curr_block succ_block = can_be_coalesced curr_block succ_block"

text \<open>
  The neighbours of a block are objects of the list, which the method updates in place, so
  they are given by their positions. The result says whether the block was merged.
\<close>

definition AddressManager_coalesce ::
  "SortedList_ops \<Rightarrow> AddressManager \<Rightarrow> FreeBlock \<Rightarrow> nat option \<Rightarrow> nat option \<Rightarrow> AddressManager \<times> bool"
where
  "AddressManager_coalesce S am curr_block prev_block succ_block =
     (let xs = am_explicit_list am;
          merge_prev = (case prev_block of None \<Rightarrow> False
                        | Some i \<Rightarrow> can_merge_with_prev curr_block (xs ! i));
          merge_succ = (case succ_block of None \<Rightarrow> False
                        | Some j \<Rightarrow> can_merge_with_succ curr_block (xs ! j));
          p = xs ! the prev_block;
          s = xs ! the succ_block;
          xs' =
            (if merge_prev \<and> merge_succ then
               sl_remove S s
                 (xs[the prev_block := p\<lparr>fb_size := fb_size p + (fb_size curr_block + fb_size s)\<rparr>])
             else if merge_prev then
               xs[the prev_block := p\<lparr>fb_size := fb_size p + fb_size curr_block\<rparr>]
             else if merge_succ then
               sl_add S
                 (s\<lparr>fb_start := fb_start s - fb_size curr_block,
                    fb_size := fb_size s + fb_size curr_block\<rparr>)
                 (sl_remove S s xs)
             else xs)
      in (am\<lparr>am_explicit_list := xs'\<rparr>, merge_prev \<or> merge_succ))"

definition AddressManager_allocate ::
  "SortedList_ops \<Rightarrow> AddressManager \<Rightarrow> int \<Rightarrow> (AddressManager \<times> int \<times> int) result"
where
  "AddressManager_allocate S am sz =
     (let aligned_size = compute_aligned_size am sz in
      case find (\<lambda>block. fb_size block \<ge> aligned_size) (am_explicit_list am) of
        None \<Rightarrow> Inl RuntimeError
      | Some block \<Rightarrow>
          (let xs = sl_remove S block (am_explicit_list am);
               xs' = (if fb_size block > aligned_size
                      then sl_add S \<lparr>fb_start = fb_start block + aligned_size,
                                     fb_size = fb_size block - aligned_size\<rparr> xs
                      else xs)
           in Inr (am\<lparr>am_explicit_list := xs',
                      am_total_allocated_size := am_total_allocated_size am + aligned_size\<rparr>,
                   fb_start block, aligned_size)))"

definition AddressManager_free ::
  "SortedList_ops \<Rightarrow> AddressManager \<Rightarrow> int \<Rightarrow> int \<Rightarrow> AddressManager"
where
  "AddressManager_free S am address sz =
     (let new_free_block = \<lparr>fb_start = address, fb_size = sz\<rparr>;
          index = sl_bisect_left S new_free_block (am_explicit_list am);
          prev_block = (if index > 0 then Some (index - 1) else None);
          succ_block = (if index < length (am_explicit_list am) then Some index else None);
          (am', coalesced) = AddressManager_coalesce S am new_free_block prev_block succ_block;
          am'' = (if \<not> coalesced
                  then am'\<lparr>am_explicit_list := sl_add S new_free_block (am_explicit_list am')\<rparr>
                  else am')
      in am''\<lparr>am_total_allocated_size := am_total_allocated_size am'' - sz\<rparr>)"

definition AddressManager_sbrk :: "SortedList_ops \<Rightarrow> AddressManager \<Rightarrow> int \<Rightarrow> AddressManager" where
  "AddressManager_sbrk S am raw_size =
     (let sz = compute_aligned_size am raw_size;
          new_block = \<lparr>fb_start = am_size am, fb_size = sz\<rparr>;
          prev_block = (if length (am_explicit_list am) > 0
                        then Some (length (am_explicit_list am) - 1) else None);
          (am', coalesced) = AddressManager_coalesce S am new_block prev_block None;
          am'' = (if \<not> coalesced
                  then am'\<lparr>am_explicit_list := sl_add S new_block (am_explicit_list am')\<rparr>
                  else am')
      in am''\<lparr>am_size := am_size am'' + sz\<rparr>)"

definition get_heap_size :: "AddressManager \<Rightarrow> int" where
  "get_heap_size am = am_size am"

definition get_free_size :: "AddressManager \<Rightarrow> int" where
  "get_free_size am = am_size am - am_total_allocated_size am"

definition check_consistency :: "AddressManager \<Rightarrow> bool" where
  "check_consistency am =
     (if \<exists>(prev, succ) \<in> set (zip (butlast (am_explicit_list am)) (tl (am_explicit_list am))).
           can_be_coalesced prev succ
      then False
      else sum_list (map fb_size (am_explicit_list am)) + am_total_allocated_size am = am_size am)"

section \<open>The invariant\<close>

definition blk_range :: "FreeBlock \<Rightarrow> int set" where
  "blk_range b = addr_range (fb_start b) (fb_size b)"

definition free_addrs :: "AddressManager \<Rightarrow> int set" where
  "free_addrs am = (\<Union>b \<in> set (am_explicit_list am). blk_range b)"

text \<open>
  Ordered, with a gap between any two blocks: the strict inequality says at once that blocks
  are disjoint and that no two of them could be merged.
\<close>

definition fl_ok :: "FreeBlock list \<Rightarrow> bool" where
  "fl_ok xs \<longleftrightarrow>
     sorted_wrt (\<lambda>a b. fb_start a + fb_size a < fb_start b) xs \<and>
     (\<forall>b \<in> set xs. 0 \<le> fb_start b \<and> 0 < fb_size b)"

definition am_wf :: "AddressManager \<Rightarrow> bool" where
  "am_wf am \<longleftrightarrow>
     (\<exists>k. am_align am = 2 ^ k) \<and>
     fl_ok (am_explicit_list am) \<and>
     (\<forall>b \<in> set (am_explicit_list am).
        fb_start b + fb_size b \<le> am_size am \<and> am_align am dvd fb_start b) \<and>
     sum_list (map fb_size (am_explicit_list am)) + am_total_allocated_size am = am_size am"

subsection \<open>Consequences of the documented container\<close>

abbreviation starts_increase :: "FreeBlock list \<Rightarrow> bool" where
  "starts_increase xs \<equiv> sorted_wrt (\<lambda>a b. fb_start a < fb_start b) xs"

lemma starts_increase_sorted:
  assumes "starts_increase xs"
  shows "sorted (map fb_start xs)" and "distinct (map fb_start xs)"
  using assms by (induction xs) auto

lemma sl_add_mid:
  assumes S: "SortedList_documented S" and inc: "starts_increase (ps @ b # qs)"
  shows "sl_add S b (ps @ qs) = ps @ b # qs"
proof -
  let ?ys = "sl_add S b (ps @ qs)" and ?zs = "ps @ b # qs"
  have "starts_increase (ps @ qs)" using inc by (auto simp: sorted_wrt_append)
  then have "sorted (map fb_start (ps @ qs))" by (rule starts_increase_sorted)
  with S have ys: "sorted (map fb_start ?ys)" "mset ?ys = mset ?zs"
    by (auto simp: SortedList_documented_def)
  from inc have zs: "sorted (map fb_start ?zs)" "distinct (map fb_start ?zs)"
    by (rule starts_increase_sorted)+
  from ys(2) have "mset (map fb_start ?ys) = mset (map fb_start ?zs)"
    by (metis mset_map)
  with zs(2) have d: "distinct (map fb_start ?ys)"
    using mset_eq_imp_distinct_iff by blast
  have st: "set ?ys = set ?zs" using ys(2) by (rule mset_eq_setD)
  have "inj_on fb_start (set ?zs)" using zs(2) by (simp only: distinct_map)
  with st have "inj_on fb_start (set ?ys \<union> set ?zs)" by simp
  then show ?thesis using ys(1) d zs st by (rule map_sorted_distinct_set_unique)
qed

lemma sl_add_Nil: "SortedList_documented S \<Longrightarrow> sl_add S b [] = [b]"
  using sl_add_mid [of S "[]" b "[]"] by simp

lemma sl_remove_mid:
  assumes S: "SortedList_documented S" and inc: "starts_increase (ps @ b # qs)"
  shows "sl_remove S b (ps @ b # qs) = ps @ qs"
proof -
  have "sorted (map fb_start (ps @ b # qs))" using inc by (rule starts_increase_sorted)
  with S have "sl_remove S b (ps @ b # qs) = remove1 b (ps @ b # qs)"
    by (auto simp: SortedList_documented_def)
  moreover have "b \<notin> set ps" using inc by (auto simp: sorted_wrt_append)
  ultimately show ?thesis by (simp add: remove1_append)
qed

lemma sl_bisect_left_eq:
  "SortedList_documented S \<Longrightarrow> starts_increase xs \<Longrightarrow>
     sl_bisect_left S b xs = length (takeWhile (\<lambda>c. fb_start c < fb_start b) xs)"
  using starts_increase_sorted(1) by (auto simp: SortedList_documented_def)

lemma fl_ok_starts_increase:
  assumes "fl_ok xs"
  shows "starts_increase xs"
proof (rule sorted_wrt_mono_rel [of xs "\<lambda>a b. fb_start a + fb_size a < fb_start b"])
  fix a b
  assume "a \<in> set xs" "b \<in> set xs" "fb_start a + fb_size a < fb_start b"
  with assms show "fb_start a < fb_start b" by (auto simp: fl_ok_def)
qed (use assms in \<open>simp add: fl_ok_def\<close>)

lemma fl_ok_append:
  "fl_ok (ps @ qs) \<longleftrightarrow>
     fl_ok ps \<and> fl_ok qs \<and> (\<forall>p \<in> set ps. \<forall>q \<in> set qs. fb_start p + fb_size p < fb_start q)"
  by (auto simp: fl_ok_def sorted_wrt_append)

lemma fl_ok_Cons:
  "fl_ok (b # qs) \<longleftrightarrow>
     0 \<le> fb_start b \<and> 0 < fb_size b \<and> fl_ok qs \<and> (\<forall>q \<in> set qs. fb_start b + fb_size b < fb_start q)"
  by (auto simp: fl_ok_def)

lemma fl_ok_Nil [simp]: "fl_ok []"
  by (simp add: fl_ok_def)

lemmas fl_ok_simps = fl_ok_append fl_ok_Cons

subsection \<open>Alignment\<close>

lemma compute_aligned_size_eq:
  assumes "am_align am = 2 ^ k"
  shows "compute_aligned_size am n = (n + 2 ^ k - 1) div 2 ^ k * 2 ^ k"
  by (simp add: compute_aligned_size_def assms and_not_mask_int)

lemma compute_aligned_size_bounds:
  assumes "am_wf am"
  shows "n \<le> compute_aligned_size am n"
    and "compute_aligned_size am n < n + am_align am"
    and "am_align am dvd compute_aligned_size am n"
proof -
  obtain k where k: "am_align am = 2 ^ k" using assms by (auto simp: am_wf_def)
  show "n \<le> compute_aligned_size am n" "compute_aligned_size am n < n + am_align am"
    "am_align am dvd compute_aligned_size am n"
    unfolding compute_aligned_size_eq [OF k] k
    by (rule align_up_bounds)+
qed

section \<open>allocate\<close>

lemma allocate_InrE:
  assumes S: "SortedList_documented S" and wf: "am_wf am"
    and r: "AddressManager_allocate S am sz = Inr (am', a, n)" and sz: "0 \<le> sz"
  obtains ps b qs where "am_explicit_list am = ps @ b # qs"
    and "\<forall>p \<in> set ps. fb_size p < n" and "n \<le> fb_size b" and "a = fb_start b"
    and "n = compute_aligned_size am sz" and "0 \<le> n"
    and "am' = am\<lparr>am_explicit_list :=
           (if n < fb_size b
            then ps @ \<lparr>fb_start = a + n, fb_size = fb_size b - n\<rparr> # qs else ps @ qs),
           am_total_allocated_size := am_total_allocated_size am + n\<rparr>"
proof -
  let ?n = "compute_aligned_size am sz"
  from r obtain b where f: "find (\<lambda>block. fb_size block \<ge> ?n) (am_explicit_list am) = Some b"
    by (auto simp: AddressManager_allocate_def Let_def split: option.splits)
  from f obtain ps qs where xs: "am_explicit_list am = ps @ b # qs"
    and small: "\<forall>p \<in> set ps. \<not> fb_size p \<ge> ?n" and big: "fb_size b \<ge> ?n"
    by (rule find_SomeD)
  have fl: "fl_ok (ps @ b # qs)" using wf by (simp add: am_wf_def xs)
  have n0: "0 \<le> ?n" using compute_aligned_size_bounds(1) [OF wf, of sz] sz by simp
  have rm: "sl_remove S b (ps @ b # qs) = ps @ qs"
    using S fl_ok_starts_increase [OF fl] by (rule sl_remove_mid)
  have ad: "sl_add S \<lparr>fb_start = fb_start b + ?n, fb_size = fb_size b - ?n\<rparr> (ps @ qs)
      = ps @ \<lparr>fb_start = fb_start b + ?n, fb_size = fb_size b - ?n\<rparr> # qs"
    if "?n < fb_size b"
    using fl n0 that by (intro sl_add_mid [OF S] fl_ok_starts_increase) (auto simp: fl_ok_simps)
  show thesis
    by (rule that [OF xs])
      (use r f small big n0 in \<open>auto simp: AddressManager_allocate_def Let_def xs rm ad\<close>)
qed

lemma allocate_Inl_iff:
  "AddressManager_allocate S am sz = Inl e \<longleftrightarrow>
     e = RuntimeError \<and> (\<forall>b \<in> set (am_explicit_list am). fb_size b < compute_aligned_size am sz)"
proof (cases "find (\<lambda>block. fb_size block \<ge> compute_aligned_size am sz) (am_explicit_list am)")
  case None
  then have "\<forall>b \<in> set (am_explicit_list am). fb_size b < compute_aligned_size am sz"
    by (auto simp: find_None_iff not_le)
  with None show ?thesis by (auto simp: AddressManager_allocate_def Let_def)
next
  case (Some b)
  then have "b \<in> set (am_explicit_list am)" "fb_size b \<ge> compute_aligned_size am sz"
    by (auto elim: find_SomeD)
  with Some show ?thesis by (auto simp: AddressManager_allocate_def Let_def not_less)
qed

lemma allocate_correct:
  assumes S: "SortedList_documented S" and wf: "am_wf am" and sz: "0 \<le> sz"
    and r: "AddressManager_allocate S am sz = Inr (am', a, n)"
  shows "am_wf am'" and "n = compute_aligned_size am sz" and "am_align am dvd a"
    and "addr_range a n \<subseteq> free_addrs am" and "free_addrs am' = free_addrs am - addr_range a n"
    and "am_size am' = am_size am" and "am_align am' = am_align am"
    and "am_total_allocated_size am' = am_total_allocated_size am + n"
    and "0 \<le> n" and "0 \<le> a" and "a + n \<le> am_size am"
proof -
  from allocate_InrE [OF S wf r sz] obtain ps b qs where
    xs: "am_explicit_list am = ps @ b # qs" and big: "n \<le> fb_size b" and a: "a = fb_start b"
    and n: "n = compute_aligned_size am sz" "0 \<le> n"
    and am': "am' = am\<lparr>am_explicit_list :=
           (if n < fb_size b
            then ps @ \<lparr>fb_start = a + n, fb_size = fb_size b - n\<rparr> # qs else ps @ qs),
           am_total_allocated_size := am_total_allocated_size am + n\<rparr>"
    by metis
  have fl: "fl_ok (ps @ b # qs)" using wf by (simp add: am_wf_def xs)
  have dvd: "am_align am dvd n"
    using compute_aligned_size_bounds(3) [OF wf] by (simp add: n(1))
  have wf': "\<exists>k. am_align am = 2 ^ k"
    "\<forall>c \<in> set (ps @ b # qs). fb_start c + fb_size c \<le> am_size am \<and> am_align am dvd fb_start c"
    "sum_list (map fb_size (ps @ b # qs)) + am_total_allocated_size am = am_size am"
    using wf by (simp_all add: am_wf_def xs)
  show "am_wf am'"
    using fl wf' big n(2) dvd by (auto simp: am_wf_def am' a fl_ok_simps)
  show "free_addrs am' = free_addrs am - addr_range a n"
  proof -
    have "(\<Union>c \<in> set ps \<union> set qs. blk_range c) \<inter> addr_range a n = {}"
      using fl big by (fastforce simp: a blk_range_def addr_range_def fl_ok_simps)
    moreover have "blk_range b - addr_range a n = addr_range (a + n) (fb_size b - n)"
      using big n(2) by (auto simp: a blk_range_def addr_range_def)
    ultimately show ?thesis
      using big by (auto simp: free_addrs_def am' xs blk_range_def)
  qed
  show "addr_range a n \<subseteq> free_addrs am"
    using big by (auto simp: free_addrs_def xs a blk_range_def addr_range_def)
  show "0 \<le> a" "a + n \<le> am_size am" "am_align am dvd a"
    using fl wf' big by (auto simp: a fl_ok_simps)
  show "n = compute_aligned_size am sz" "0 \<le> n" by (fact n)+
  show "am_size am' = am_size am" "am_align am' = am_align am"
    "am_total_allocated_size am' = am_total_allocated_size am + n"
    by (simp_all add: am')
qed

section \<open>free and sbrk\<close>

text \<open>
  What \<^verbatim>\<open>_coalesce\<close>, followed by \<^verbatim>\<open>add\<close> when nothing was merged, makes of the free list around the
  position of the new block: the block \<open>b'\<close> that now holds it has absorbed the last block
  before it exactly when the two touched, and likewise the first block after it.
\<close>

definition absorbed :: "FreeBlock list \<Rightarrow> int \<Rightarrow> int \<Rightarrow> FreeBlock list \<Rightarrow> FreeBlock list \<Rightarrow> FreeBlock \<Rightarrow> FreeBlock list \<Rightarrow> bool"
where
  "absorbed ps a n qs ps' b' qs' \<longleftrightarrow>
     (ps' = ps \<and> fb_start b' = a \<and> (\<forall>p \<in> set ps. fb_start p + fb_size p < a) \<or>
      (\<exists>p. ps = ps' @ [p] \<and> fb_start p + fb_size p = a \<and> fb_start b' = fb_start p)) \<and>
     (qs' = qs \<and> fb_start b' + fb_size b' = a + n \<and> (\<forall>q \<in> set qs. a + n < fb_start q) \<or>
      (\<exists>q. qs = q # qs' \<and> fb_start q = a + n \<and> fb_start b' + fb_size b' = fb_start q + fb_size q))"

definition coalesce_add ::
  "SortedList_ops \<Rightarrow> AddressManager \<Rightarrow> FreeBlock \<Rightarrow> nat option \<Rightarrow> nat option \<Rightarrow> AddressManager"
where
  "coalesce_add S am b prev succ =
     (let (am', coalesced) = AddressManager_coalesce S am b prev succ in
      if \<not> coalesced then am'\<lparr>am_explicit_list := sl_add S b (am_explicit_list am')\<rparr> else am')"

lemma absorb_cases [consumes 3, case_names both prev succ none]:
  assumes fl: "fl_ok (ps @ qs)"
    and bef: "\<forall>p \<in> set ps. fb_start p + fb_size p \<le> a"
    and aft: "\<forall>q \<in> set qs. a + n \<le> fb_start q"
  obtains us p q vs where "ps = us @ [p]" "fb_start p + fb_size p = a" "qs = q # vs" "fb_start q = a + n"
    | us p where "ps = us @ [p]" "fb_start p + fb_size p = a" "\<forall>q \<in> set qs. a + n < fb_start q"
    | q vs where "\<forall>p \<in> set ps. fb_start p + fb_size p < a" "qs = q # vs" "fb_start q = a + n"
    | "\<forall>p \<in> set ps. fb_start p + fb_size p < a" "\<forall>q \<in> set qs. a + n < fb_start q"
proof -
  have p: "(\<forall>p \<in> set ps. fb_start p + fb_size p < a) \<or> (\<exists>us p. ps = us @ [p] \<and> fb_start p + fb_size p = a)"
  proof (cases ps rule: rev_cases)
    case (snoc us p)
    have "0 < fb_size p" "\<forall>u \<in> set us. fb_start u + fb_size u < fb_start p"
      using fl by (simp_all add: snoc fl_ok_simps)
    moreover have "fb_start p + fb_size p \<le> a" using bef by (simp add: snoc)
    ultimately show ?thesis by (cases "fb_start p + fb_size p = a") (auto simp: snoc)
  qed simp
  have q: "(\<forall>q \<in> set qs. a + n < fb_start q) \<or> (\<exists>q vs. qs = q # vs \<and> fb_start q = a + n)"
  proof (cases qs)
    case (Cons q vs)
    have "0 < fb_size q" "\<forall>v \<in> set vs. fb_start q + fb_size q < fb_start v"
      using fl by (simp_all add: Cons fl_ok_simps)
    moreover have "a + n \<le> fb_start q" using aft by (simp add: Cons)
    ultimately show ?thesis by (cases "fb_start q = a + n") (auto simp: Cons)
  qed simp
  from p show thesis
  proof (elim disjE exE conjE)
    assume *: "\<forall>p \<in> set ps. fb_start p + fb_size p < a"
    from q show thesis using that(3,4) [OF *] by blast
  next
    fix us p
    assume *: "ps = us @ [p]" "fb_start p + fb_size p = a"
    from q show thesis using that(1,2) [OF *] by blast
  qed
qed

lemma coalesce_add_absorbs:
  assumes S: "SortedList_documented S" and fl: "fl_ok (ps @ qs)" and an: "0 \<le> a" "0 < n"
    and bef: "\<forall>p \<in> set ps. fb_start p + fb_size p \<le> a"
    and aft: "\<forall>q \<in> set qs. a + n \<le> fb_start q"
    and xs: "am_explicit_list am = ps @ qs"
  shows "\<exists>ps' b' qs'. absorbed ps a n qs ps' b' qs' \<and>
     coalesce_add S am \<lparr>fb_start = a, fb_size = n\<rparr>
       (if ps = [] then None else Some (length ps - 1)) (if qs = [] then None else Some (length ps))
     = am\<lparr>am_explicit_list := ps' @ b' # qs'\<rparr>"
proof -
  let ?b = "\<lparr>fb_start = a, fb_size = n\<rparr>"
  note defs = coalesce_add_def AddressManager_coalesce_def can_merge_with_prev_def
    can_merge_with_succ_def can_be_coalesced_def Let_def xs absorbed_def
  consider (both) us p q vs where "ps = us @ [p]" "fb_start p + fb_size p = a" "qs = q # vs" "fb_start q = a + n"
    | (prev) us p where "ps = us @ [p]" "fb_start p + fb_size p = a" "\<forall>q \<in> set qs. a + n < fb_start q"
    | (succ) q vs where "\<forall>p \<in> set ps. fb_start p + fb_size p < a" "qs = q # vs" "fb_start q = a + n"
    | (none) "\<forall>p \<in> set ps. fb_start p + fb_size p < a" "\<forall>q \<in> set qs. a + n < fb_start q"
    by (rule absorb_cases [OF fl bef aft])
  then show ?thesis
  proof cases
    case both
    have "sl_remove S q ((us @ [p\<lparr>fb_size := fb_size p + (n + fb_size q)\<rparr>]) @ q # vs)
        = (us @ [p\<lparr>fb_size := fb_size p + (n + fb_size q)\<rparr>]) @ vs"
      using fl_ok_starts_increase [OF fl] both
      by (intro sl_remove_mid [OF S]) (auto simp: sorted_wrt_append)
    with both show ?thesis
      by (intro exI3 [of _ us "p\<lparr>fb_size := fb_size p + (n + fb_size q)\<rparr>" vs])
        (simp add: defs nth_append list_update_append)
  next
    case prev
    then show ?thesis
      by (intro exI3 [of _ us "p\<lparr>fb_size := fb_size p + n\<rparr>" qs])
        (auto simp: defs nth_append list_update_append)
  next
    case succ
    let ?q = "q\<lparr>fb_start := fb_start q - n, fb_size := fb_size q + n\<rparr>"
    have "sl_remove S q (ps @ q # vs) = ps @ vs"
      using fl succ by (intro sl_remove_mid [OF S] fl_ok_starts_increase) simp
    moreover have "sl_add S ?q (ps @ vs) = ps @ ?q # vs"
      using fl an succ by (intro sl_add_mid [OF S] fl_ok_starts_increase) (auto simp: fl_ok_simps)
    ultimately show ?thesis using succ
      by (intro exI3 [of _ ps ?q vs])
        (auto simp: defs nth_append)
  next
    case none
    have "sl_add S ?b (ps @ qs) = ps @ ?b # qs"
      using fl an none by (intro sl_add_mid [OF S] fl_ok_starts_increase) (auto simp: fl_ok_simps)
    moreover have "fb_start (ps ! (length ps - Suc 0)) + fb_size (ps ! (length ps - Suc 0)) \<noteq> a"
      if "ps \<noteq> []"
      using none(1) that by (metis One_nat_def diff_less length_greater_0_conv less_irrefl nth_mem zero_less_one)
    moreover have "a + n \<noteq> fb_start (qs ! 0)" if "qs \<noteq> []"
      using none(2) that by (metis length_greater_0_conv less_irrefl nth_mem)
    ultimately show ?thesis using none
      by (intro exI3 [of _ ps ?b qs])
        (simp add: defs nth_append)
  qed
qed

lemma absorbed_correct:
  assumes "absorbed ps a n qs ps' b' qs'" and "fl_ok (ps @ qs)" and "0 \<le> a" and "0 < n"
  shows "fl_ok (ps' @ b' # qs')"
    and "(\<Union>c \<in> set (ps' @ b' # qs'). blk_range c) = (\<Union>c \<in> set (ps @ qs). blk_range c) \<union> addr_range a n"
    and "sum_list (map fb_size (ps' @ b' # qs')) = sum_list (map fb_size (ps @ qs)) + n"
    and "\<forall>c \<in> set (ps' @ b' # qs').
           (fb_start c = a \<or> fb_start c \<in> fb_start ` set (ps @ qs)) \<and>
           (fb_start c + fb_size c = a + n \<or> (\<exists>d \<in> set (ps @ qs). fb_start c + fb_size c = fb_start d + fb_size d))"
  using assms
  by (auto simp: absorbed_def fl_ok_simps blk_range_def addr_range_def) (fastforce)+

lemma coalesce_add_correct:
  assumes S: "SortedList_documented S" and fl: "fl_ok (ps @ qs)" and an: "0 \<le> a" "0 < n"
    and bef: "\<forall>p \<in> set ps. fb_start p + fb_size p \<le> a"
    and aft: "\<forall>q \<in> set qs. a + n \<le> fb_start q"
    and xs: "am_explicit_list am = ps @ qs"
    and dv: "am_align am dvd a" "\<forall>b \<in> set (am_explicit_list am). am_align am dvd fb_start b"
    and r: "am' = coalesce_add S am \<lparr>fb_start = a, fb_size = n\<rparr>
       (if ps = [] then None else Some (length ps - 1)) (if qs = [] then None else Some (length ps))"
  shows "fl_ok (am_explicit_list am')"
    and "free_addrs am' = free_addrs am \<union> addr_range a n"
    and "sum_list (map fb_size (am_explicit_list am')) = sum_list (map fb_size (am_explicit_list am)) + n"
    and "\<forall>b \<in> set (am_explicit_list am'). am_align am dvd fb_start b"
    and "\<forall>b \<in> set (am_explicit_list am'). fb_start b + fb_size b = a + n \<or>
           (\<exists>d \<in> set (am_explicit_list am). fb_start b + fb_size b = fb_start d + fb_size d)"
    and "am' = am\<lparr>am_explicit_list := am_explicit_list am'\<rparr>"
proof -
  obtain ps' b' qs' where ab: "absorbed ps a n qs ps' b' qs'"
    and am': "am' = am\<lparr>am_explicit_list := ps' @ b' # qs'\<rparr>"
    using coalesce_add_absorbs [OF S fl an bef aft xs] r by auto
  note ab' = absorbed_correct [OF ab fl an]
  show "fl_ok (am_explicit_list am')" using ab'(1) by (simp add: am')
  show "free_addrs am' = free_addrs am \<union> addr_range a n"
    using ab'(2) by (simp add: am' free_addrs_def xs)
  show "sum_list (map fb_size (am_explicit_list am')) = sum_list (map fb_size (am_explicit_list am)) + n"
    using ab'(3) by (simp add: am' xs)
  show "\<forall>b \<in> set (am_explicit_list am'). am_align am dvd fb_start b"
  proof
    fix c
    assume "c \<in> set (am_explicit_list am')"
    then have "c \<in> set (ps' @ b' # qs')" by (simp add: am')
    with ab'(4) have "fb_start c = a \<or> fb_start c \<in> fb_start ` set (ps @ qs)" by blast
    with dv show "am_align am dvd fb_start c" unfolding xs by (metis imageE)
  qed
  show "\<forall>b \<in> set (am_explicit_list am'). fb_start b + fb_size b = a + n \<or>
           (\<exists>d \<in> set (am_explicit_list am). fb_start b + fb_size b = fb_start d + fb_size d)"
    using ab'(4) unfolding am' xs by simp
  show "am' = am\<lparr>am_explicit_list := am_explicit_list am'\<rparr>" by (simp add: am')
qed

lemma free_list_split:
  assumes fl: "fl_ok xs" and n: "0 < n"
    and disj: "addr_range a n \<inter> (\<Union>b \<in> set xs. blk_range b) = {}"
  obtains ps qs where "xs = ps @ qs" and "length ps = length (takeWhile (\<lambda>c. fb_start c < a) xs)"
    and "\<forall>p \<in> set ps. fb_start p + fb_size p \<le> a" and "\<forall>q \<in> set qs. a + n \<le> fb_start q"
proof -
  obtain ps qs where sp: "xs = ps @ qs" "ps = takeWhile (\<lambda>c. fb_start c < a) xs"
    "\<forall>p \<in> set ps. fb_start p < a" "qs \<noteq> [] \<longrightarrow> \<not> fb_start (hd qs) < a"
    by (rule takeWhile_dropWhile_split [of xs "\<lambda>c. fb_start c < a"])
  have meet: "a + n \<le> fb_start b \<or> fb_start b + fb_size b \<le> a" if b: "b \<in> set xs" for b
  proof (rule ccontr)
    assume "\<not> ?thesis"
    moreover have "0 < fb_size b" using fl b by (simp add: fl_ok_def)
    ultimately have "max a (fb_start b) \<in> addr_range a n \<inter> blk_range b"
      using n by (auto simp: addr_range_def blk_range_def)
    with disj b show False by blast
  qed
  have bef: "\<forall>p \<in> set ps. fb_start p + fb_size p \<le> a"
    using meet sp(3) n by (fastforce simp: sp(1))
  have "\<not> fb_start q < a" if "q \<in> set qs" for q
    using fl sp(1,4) that by (cases qs) (auto simp: fl_ok_simps)
  moreover have "0 < fb_size q" if "q \<in> set qs" for q
    using fl that by (auto simp: sp(1) fl_ok_def)
  ultimately have "\<forall>q \<in> set qs. a + n \<le> fb_start q"
    using meet by (fastforce simp: sp(1))
  with sp(1) _ bef show thesis by (rule that) (simp only: sp(2))
qed

lemma free_correct:
  assumes S: "SortedList_documented S" and wf: "am_wf am" and n: "0 < n"
    and a: "am_align am dvd a" and inside: "addr_range a n \<subseteq> addr_range 0 (am_size am)"
    and disj: "addr_range a n \<inter> free_addrs am = {}"
  shows "am_wf (AddressManager_free S am a n)"
    and "free_addrs (AddressManager_free S am a n) = free_addrs am \<union> addr_range a n"
    and "am_size (AddressManager_free S am a n) = am_size am"
    and "am_align (AddressManager_free S am a n) = am_align am"
    and "am_total_allocated_size (AddressManager_free S am a n) = am_total_allocated_size am - n"
proof -
  have bnd: "0 \<le> a" "a + n \<le> am_size am"
    using inside n by (auto simp: addr_range_def)
  have fl: "fl_ok (am_explicit_list am)"
    and al: "\<forall>b \<in> set (am_explicit_list am). am_align am dvd fb_start b"
    and le: "\<forall>b \<in> set (am_explicit_list am). fb_start b + fb_size b \<le> am_size am"
    using wf by (simp_all add: am_wf_def)
  obtain ps qs where xs: "am_explicit_list am = ps @ qs"
    and len: "length ps = length (takeWhile (\<lambda>c. fb_start c < a) (am_explicit_list am))"
    and bef: "\<forall>p \<in> set ps. fb_start p + fb_size p \<le> a"
    and aft: "\<forall>q \<in> set qs. a + n \<le> fb_start q"
    using free_list_split [OF fl n] disj unfolding free_addrs_def by blast
  define am' where "am' = coalesce_add S am \<lparr>fb_start = a, fb_size = n\<rparr>
       (if ps = [] then None else Some (length ps - 1)) (if qs = [] then None else Some (length ps))"
  have idx: "sl_bisect_left S \<lparr>fb_start = a, fb_size = n\<rparr> (am_explicit_list am) = length ps"
    using sl_bisect_left_eq [OF S fl_ok_starts_increase [OF fl]] len by simp
  have eq: "AddressManager_free S am a n = am'\<lparr>am_total_allocated_size := am_total_allocated_size am' - n\<rparr>"
    unfolding AddressManager_free_def idx am'_def coalesce_add_def Let_def
    by (auto simp: xs split: prod.splits)
  note c = coalesce_add_correct [OF S fl [unfolded xs] bnd(1) n bef aft xs a al am'_def]
  have f: "am_size am' = am_size am" "am_align am' = am_align am"
    "am_total_allocated_size am' = am_total_allocated_size am"
    by (subst c(6), simp)+
  show "am_wf (AddressManager_free S am a n)"
    using wf c(1,3,4,5) le bnd(2) by (auto simp: am_wf_def eq f)
  show "free_addrs (AddressManager_free S am a n) = free_addrs am \<union> addr_range a n"
    using c(2) by (simp add: eq free_addrs_def)
  show "am_size (AddressManager_free S am a n) = am_size am"
    "am_align (AddressManager_free S am a n) = am_align am"
    "am_total_allocated_size (AddressManager_free S am a n) = am_total_allocated_size am - n"
    by (simp_all add: eq f)
qed

lemma sbrk_correct:
  assumes S: "SortedList_documented S" and wf: "am_wf am" and pos: "0 < raw"
    and sz: "0 \<le> am_size am" "am_align am dvd am_size am"
  defines "n \<equiv> compute_aligned_size am raw"
  shows "am_wf (AddressManager_sbrk S am raw)"
    and "free_addrs (AddressManager_sbrk S am raw) = free_addrs am \<union> addr_range (am_size am) n"
    and "am_size (AddressManager_sbrk S am raw) = am_size am + n"
    and "am_align (AddressManager_sbrk S am raw) = am_align am"
    and "am_total_allocated_size (AddressManager_sbrk S am raw) = am_total_allocated_size am"
    and "raw \<le> n" and "am_align am dvd n"
proof -
  let ?xs = "am_explicit_list am"
  show n: "raw \<le> n" "am_align am dvd n"
    using compute_aligned_size_bounds [OF wf] by (simp_all add: n_def)
  have fl: "fl_ok ?xs" and al: "\<forall>b \<in> set ?xs. am_align am dvd fb_start b"
    and le: "\<forall>b \<in> set ?xs. fb_start b + fb_size b \<le> am_size am"
    using wf by (simp_all add: am_wf_def)
  define am' where "am' = coalesce_add S am \<lparr>fb_start = am_size am, fb_size = n\<rparr>
       (if ?xs = [] then None else Some (length ?xs - 1)) (if [] = ([] :: FreeBlock list) then None else Some (length ?xs))"
  have eq: "AddressManager_sbrk S am raw = am'\<lparr>am_size := am_size am' + n\<rparr>"
    unfolding AddressManager_sbrk_def am'_def coalesce_add_def Let_def n_def
    by (auto split: prod.splits)
  have n0: "0 < n" using n pos by simp
  have fl': "fl_ok (?xs @ [])" and xs: "?xs = ?xs @ []" using fl by simp_all
  have aft: "\<forall>q \<in> set ([] :: FreeBlock list). am_size am + n \<le> fb_start q" by simp
  note c = coalesce_add_correct [OF S fl' sz(1) n0 le aft xs sz(2) al am'_def]
  have f: "am_size am' = am_size am" "am_align am' = am_align am"
    "am_total_allocated_size am' = am_total_allocated_size am"
    by (subst c(6), simp)+
  have "\<forall>b \<in> set (am_explicit_list am'). fb_start b + fb_size b \<le> am_size am + n"
    using c(5) le n0 by fastforce
  then show "am_wf (AddressManager_sbrk S am raw)"
    using wf c(1,3,4) by (auto simp: am_wf_def eq f)
  show "free_addrs (AddressManager_sbrk S am raw) = free_addrs am \<union> addr_range (am_size am) n"
    using c(2) by (simp add: eq free_addrs_def)
  show "am_size (AddressManager_sbrk S am raw) = am_size am + n"
    "am_align (AddressManager_sbrk S am raw) = am_align am"
    "am_total_allocated_size (AddressManager_sbrk S am raw) = am_total_allocated_size am"
    by (simp_all add: eq f)
qed

section \<open>Initial state and the consistency check\<close>

lemma init_correct:
  assumes S: "SortedList_documented S" and "0 < sz" and "align = 2 ^ k"
  shows "am_wf (AddressManager_init S sz align)"
    and "free_addrs (AddressManager_init S sz align) = addr_range 0 sz"
  using assms
  by (auto simp: AddressManager_init_def sl_add_Nil am_wf_def fl_ok_Cons free_addrs_def blk_range_def)

lemma sorted_wrt_neighbours:
  "sorted_wrt P xs \<Longrightarrow> (a, b) \<in> set (zip (butlast xs) (tl xs)) \<Longrightarrow> P a b"
proof (induction xs)
  case (Cons x xs)
  then show ?case by (cases xs) auto
qed simp

lemma am_wf_consistent:
  assumes "am_wf am"
  shows "check_consistency am"
proof -
  have srt: "sorted_wrt (\<lambda>a b. fb_start a + fb_size a < fb_start b) (am_explicit_list am)"
    using assms by (simp add: am_wf_def fl_ok_def)
  have "\<not> can_be_coalesced a b"
    if "(a, b) \<in> set (zip (butlast (am_explicit_list am)) (tl (am_explicit_list am)))" for a b
    using sorted_wrt_neighbours [OF srt that] by (simp add: can_be_coalesced_def)
  then show ?thesis using assms by (auto simp: check_consistency_def am_wf_def)
qed

section \<open>The free list is determined by the free addresses\<close>

lemma fl_ok_disjoint:
  assumes "fl_ok xs" and "b \<in> set xs" and "c \<in> set xs" and "b \<noteq> c"
  shows "fb_start b + fb_size b < fb_start c \<or> fb_start c + fb_size c < fb_start b"
  using assms by (induction xs) (auto simp: fl_ok_Cons)

lemma fl_ok_range_in_block:
  assumes fl: "fl_ok xs" and n: "0 < n" and sub: "addr_range a n \<subseteq> (\<Union>b \<in> set xs. blk_range b)"
  obtains b where "b \<in> set xs" and "fb_start b \<le> a" and "a + n \<le> fb_start b + fb_size b"
proof -
  have "a \<in> addr_range a n" using n by (simp add: addr_range_def)
  with sub obtain b where b: "b \<in> set xs" "a \<in> blk_range b" by auto
  have "a + n \<le> fb_start b + fb_size b"
  proof (rule ccontr)
    assume "\<not> ?thesis"
    with b(2) have "fb_start b + fb_size b \<in> addr_range a n"
      by (simp add: addr_range_def blk_range_def)
    with sub obtain c where c: "c \<in> set xs" "fb_start b + fb_size b \<in> blk_range c" by auto
    moreover have "0 < fb_size b" using fl b(1) by (simp add: fl_ok_def)
    ultimately show False
      using fl_ok_disjoint [OF fl b(1) c(1)] by (auto simp: addr_range_def blk_range_def)
  qed
  with b show thesis by (intro that) (auto simp: addr_range_def blk_range_def)
qed

lemma fl_ok_block_in:
  assumes fx: "fl_ok xs" and fy: "fl_ok ys" and b: "b \<in> set xs"
    and eq: "(\<Union>b \<in> set xs. blk_range b) = (\<Union>b \<in> set ys. blk_range b)"
  shows "b \<in> set ys"
proof -
  have pos: "0 < fb_size b" using fx b by (simp add: fl_ok_def)
  have "addr_range (fb_start b) (fb_size b) \<subseteq> (\<Union>b \<in> set ys. blk_range b)"
    using b unfolding eq [symmetric] by (auto simp: blk_range_def)
  with fy pos obtain c where c: "c \<in> set ys" "fb_start c \<le> fb_start b"
    "fb_start b + fb_size b \<le> fb_start c + fb_size c"
    by (rule fl_ok_range_in_block)
  have "addr_range (fb_start c) (fb_size c) \<subseteq> (\<Union>b \<in> set xs. blk_range b)"
    using c(1) unfolding eq by (auto simp: blk_range_def)
  moreover have "0 < fb_size c" using fy c(1) by (simp add: fl_ok_def)
  ultimately obtain d where d: "d \<in> set xs" "fb_start d \<le> fb_start c"
    "fb_start c + fb_size c \<le> fb_start d + fb_size d"
    using fx by (metis fl_ok_range_in_block)
  have "d = b" using fl_ok_disjoint [OF fx b d(1)] c d pos by (cases "b = d") auto
  with c d have "b = c" by (intro FreeBlock.equality) auto
  with c(1) show ?thesis by simp
qed

lemma fl_ok_unique:
  assumes "fl_ok xs" and "fl_ok ys"
    and "(\<Union>b \<in> set xs. blk_range b) = (\<Union>b \<in> set ys. blk_range b)"
  shows "xs = ys"
proof -
  have st: "set xs = set ys"
    using fl_ok_block_in [OF assms(1,2) _ assms(3)] fl_ok_block_in [OF assms(2,1) _ assms(3) [symmetric]]
    by blast
  note x = starts_increase_sorted [OF fl_ok_starts_increase [OF assms(1)]]
  note y = starts_increase_sorted [OF fl_ok_starts_increase [OF assms(2)]]
  have "inj_on fb_start (set xs \<union> set ys)" using x(2) st by (simp add: distinct_map)
  then show ?thesis using x y st by (rule map_sorted_distinct_set_unique)
qed

lemma am_determined:
  assumes "am_wf am" and "am_wf am'" and "free_addrs am = free_addrs am'"
    and "am_size am = am_size am'" and "am_align am = am_align am'"
  shows "am = am'"
proof (rule AddressManager.equality)
  show "am_explicit_list am = am_explicit_list am'"
    using assms(1-3) by (intro fl_ok_unique) (simp_all add: am_wf_def free_addrs_def)
  then show "am_total_allocated_size am = am_total_allocated_size am'"
    using assms by (simp add: am_wf_def)
qed (use assms in simp_all)

lemma card_free_addrs:
  assumes "am_wf am"
  shows "int (card (free_addrs am)) = get_free_size am"
proof -
  have "int (card (\<Union>b \<in> set xs. blk_range b)) = sum_list (map fb_size xs)" if "fl_ok xs" for xs
    using that
  proof (induction xs)
    case (Cons b xs)
    have "blk_range b \<inter> (\<Union>c \<in> set xs. blk_range c) = {}"
      using Cons.prems by (fastforce simp: fl_ok_Cons blk_range_def addr_range_def)
    moreover have "int (card (blk_range b)) = fb_size b"
      using Cons.prems by (simp add: fl_ok_Cons blk_range_def)
    ultimately show ?case
      using Cons by (simp add: fl_ok_Cons card_Un_disjoint blk_range_def)
  qed simp
  then show ?thesis using assms by (auto simp: am_wf_def free_addrs_def get_free_size_def)
qed

section \<open>The address manager is an address space\<close>

definition am_inv :: "SortedList_ops \<Rightarrow> AddressManager \<Rightarrow> bool" where
  "am_inv S am \<longleftrightarrow> SortedList_documented S \<and> am_wf am"

interpretation am: address_space "am_inv S" free_addrs am_size "\<lambda>am a. am_align am dvd a"
  "AddressManager_allocate S" "AddressManager_free S" for S
proof (unfold_locales, goal_cases)
  case (1 s m s' a n)
  then show ?case
    using allocate_correct [of S s m s' a n] compute_aligned_size_bounds(1) [of s m]
    by (auto simp: am_inv_def)
next
  case (2 s n a)
  then show ?case using free_correct [of S s n a] by (auto simp: am_inv_def)
qed

section \<open>Histories of requests\<close>

datatype am_request = ReqAllocate int | ReqFree nat | ReqSbrk int

text \<open>
  A client holds the list of its live blocks; \<^term>\<open>ReqFree i\<close> gives back the \<open>i\<close>-th of them. A
  failed allocation leaves the manager as it was.
\<close>

fun am_serve ::
  "SortedList_ops \<Rightarrow> am_request \<Rightarrow> AddressManager \<times> (int \<times> int) list \<Rightarrow> AddressManager \<times> (int \<times> int) list"
where
  "am_serve S (ReqAllocate sz) (am, live) =
     (case AddressManager_allocate S am sz of
        Inl _ \<Rightarrow> (am, live)
      | Inr (am', a, n) \<Rightarrow> (am', (a, n) # live))"
| "am_serve S (ReqFree i) (am, live) =
     (if i < length live
      then (AddressManager_free S am (fst (live ! i)) (snd (live ! i)), remove_nth i live)
      else (am, live))"
| "am_serve S (ReqSbrk sz) (am, live) = (AddressManager_sbrk S am sz, live)"

fun req_positive :: "am_request \<Rightarrow> bool" where
  "req_positive (ReqAllocate sz) = (0 < sz)"
| "req_positive (ReqFree i) = True"
| "req_positive (ReqSbrk sz) = (0 < sz)"

definition am_live_ok :: "AddressManager \<times> (int \<times> int) list \<Rightarrow> bool" where
  "am_live_ok st \<longleftrightarrow>
     (case st of (am, live) \<Rightarrow>
        am_wf am \<and> 0 \<le> am_size am \<and>
        blocks_ok live (free_addrs am) (am_size am) \<and> (\<forall>b \<in> set live. am_align am dvd fst b) \<and>
        am_total_allocated_size am = sum_list (map snd live))"

lemma sum_list_remove_nth:
  fixes live :: "(int \<times> int) list"
  assumes "i < length live"
  shows "sum_list (map snd (remove_nth i live)) = sum_list (map snd live) - snd (live ! i)"
proof -
  obtain ps qs where sp: "live = ps @ (live ! i) # qs" "remove_nth i live = ps @ qs"
    using assms by (rule remove_nth_split)
  have "sum_list (map snd live) = sum_list (map snd (ps @ (live ! i) # qs))" using sp(1) by simp
  then show ?thesis by (simp add: sp(2))
qed

lemma am_live_ok_perm:
  assumes "mset live = mset live'"
  shows "am_live_ok (am, live) = am_live_ok (am, live')"
proof -
  have "sum_list (map snd live) = sum_list (map snd live')"
    using assms by (metis mset_map sum_mset_sum_list)
  with mset_eq_setD [OF assms] blocks_ok_perm [OF assms] show ?thesis
    by (simp add: am_live_ok_def)
qed

lemma am_live_ok_unique:
  assumes "am_live_ok (am, live)" and "am_live_ok (am', live)"
    and "am_size am = am_size am'" and "am_align am = am_align am'"
  shows "am = am'"
proof (rule am_determined)
  let ?U = "\<Union>b \<in> set live. rng b"
  have "F = G" if "U \<inter> F = {}" "U \<union> F = R" "U \<inter> G = {}" "U \<union> G = R" for U F G R :: "int set"
    using that by blast
  moreover have "?U \<inter> free_addrs am = {}" "?U \<union> free_addrs am = addr_range 0 (am_size am)"
    "?U \<inter> free_addrs am' = {}" "?U \<union> free_addrs am' = addr_range 0 (am_size am)"
    using assms(1-3) by (simp_all only: am_live_ok_def blocks_ok_def prod.case)
  ultimately show "free_addrs am = free_addrs am'" .
qed (use assms in \<open>simp_all add: am_live_ok_def\<close>)

lemma am_live_ok_merge:
  assumes "am_live_ok (am, (a, n) # (a + n, m) # live)"
  shows "am_live_ok (am, (a, n + m) # live)"
proof -
  have "0 < n" "0 < m" using assms by (simp_all add: am_live_ok_def blocks_ok_def)
  then show ?thesis
    using assms blocks_ok_split [of n m a live "free_addrs am" "am_size am"] by (simp add: am_live_ok_def)
qed

lemma am_live_ok_chunks:
  assumes "am_live_ok (am, (a, c * int n) # live)" and "0 < c" and "am_align am dvd c" and "0 < n"
  shows "am_live_ok (am, map (\<lambda>i. (a + int i * c, c)) [0..<n] @ live)"
  using assms(1,4)
proof (induction n arbitrary: live)
  case (Suc n)
  show ?case
  proof (cases "n = 0")
    case False
    have al: "am_align am dvd a" using Suc.prems(1) by (simp add: am_live_ok_def)
    have e: "c * int (Suc n) = c * int n + c" by (simp add: algebra_simps)
    have cn: "0 < c * int n" using assms(2) False by simp
    have "blocks_ok ((a, c * int n) # (a + c * int n, c) # live) (free_addrs am) (am_size am)"
      using Suc.prems(1) blocks_ok_split [OF cn assms(2), of a live] by (simp only: am_live_ok_def e prod.case)
    then have "am_live_ok (am, (a, c * int n) # (a + c * int n, c) # live)"
      using Suc.prems(1) al assms(3) by (simp add: am_live_ok_def e) (simp add: algebra_simps)
    from Suc.IH [OF this] False show ?thesis by (simp add: mult.commute)
  qed (use Suc.prems(1) in simp)
qed simp

lemma am_live_allocate:
  assumes S: "SortedList_documented S" and ok: "am_live_ok (am, live)" and sz: "0 < sz"
    and r: "AddressManager_allocate S am sz = Inr (am', a, n)"
  shows "am_live_ok (am', (a, n) # live)" and "am_size am' = am_size am" and "am_align am' = am_align am"
    and "n = compute_aligned_size am sz" and "sz \<le> n" and "0 \<le> a" and "a + n \<le> am_size am"
proof -
  have o: "am_inv S am" "am_wf am" "0 \<le> am_size am"
    "blocks_ok live (free_addrs am) (am_size am)" "\<forall>b \<in> set live. am_align am dvd fst b"
    "am_total_allocated_size am = sum_list (map snd live)"
    using S ok by (auto simp: am_live_ok_def am_inv_def)
  note k = am.alloc_live [OF o(1) sz r o(4,5)]
  note c = allocate_correct [OF S o(2) less_imp_le [OF sz] r]
  show "am_live_ok (am', (a, n) # live)"
    using k c(1,6,7,8) o(3,6) by (simp add: am_live_ok_def)
  show "am_size am' = am_size am" "am_align am' = am_align am" "n = compute_aligned_size am sz"
    "0 \<le> a" "a + n \<le> am_size am"
    by (fact c)+
  show "sz \<le> n" using compute_aligned_size_bounds(1) [OF o(2), of sz] c(2) by simp
qed

lemma am_live_free:
  assumes S: "SortedList_documented S" and ok: "am_live_ok (am, live)" and i: "i < length live"
  defines "am' \<equiv> AddressManager_free S am (fst (live ! i)) (snd (live ! i))"
  shows "am_live_ok (am', remove_nth i live)" and "am_size am' = am_size am" and "am_align am' = am_align am"
proof -
  have o: "am_inv S am" "am_wf am" "0 \<le> am_size am"
    "blocks_ok live (free_addrs am) (am_size am)" "\<forall>b \<in> set live. am_align am dvd fst b"
    "am_total_allocated_size am = sum_list (map snd live)"
    using S ok by (auto simp: am_live_ok_def am_inv_def)
  note k = am.release_live [OF o(1) i o(4,5)]
  note g = blocks_ok_give [OF o(4) i]
  have "am_align am dvd fst (live ! i)" using i o(5) by simp
  note c = free_correct [OF S o(2) g(4) this g(3,2)]
  show "am_live_ok (am', remove_nth i live)"
    using k c(1,3,4,5) o(3,6) i sum_list_remove_nth [OF i] by (simp add: am_live_ok_def am'_def)
  show "am_size am' = am_size am" "am_align am' = am_align am" by (simp_all add: am'_def c)
qed

lemma am_live_free_hd:
  assumes "SortedList_documented S" and "am_live_ok (am, (a, n) # live)"
  shows "am_live_ok (AddressManager_free S am a n, live)"
    and "am_size (AddressManager_free S am a n) = am_size am"
    and "am_align (AddressManager_free S am a n) = am_align am"
  using am_live_free [OF assms, of 0] by (simp_all add: remove_nth_def)

lemma am_live_sbrk:
  assumes S: "SortedList_documented S" and ok: "am_live_ok (am, live)" and sz: "0 < sz"
    and al: "am_align am dvd am_size am"
  shows "am_live_ok (AddressManager_sbrk S am sz, live)"
    and "am_size (AddressManager_sbrk S am sz) = am_size am + compute_aligned_size am sz"
    and "am_align (AddressManager_sbrk S am sz) = am_align am"
    and "am_align am dvd am_size (AddressManager_sbrk S am sz)"
proof -
  have o: "am_wf am" "0 \<le> am_size am" "blocks_ok live (free_addrs am) (am_size am)"
    using ok by (auto simp: am_live_ok_def)
  note c = sbrk_correct [OF S o(1) sz o(2) al]
  have n: "0 \<le> compute_aligned_size am sz" using c(6) sz by simp
  show "am_live_ok (AddressManager_sbrk S am sz, live)"
    using c o ok blocks_ok_grow [OF o(3,2) n] n by (simp add: am_live_ok_def)
  show "am_size (AddressManager_sbrk S am sz) = am_size am + compute_aligned_size am sz"
    "am_align (AddressManager_sbrk S am sz) = am_align am"
    "am_align am dvd am_size (AddressManager_sbrk S am sz)"
    using c al by simp_all
qed

lemma am_serve_ok:
  assumes S: "SortedList_documented S" and ok: "am_live_ok (am, live)" and r: "req_positive r"
    and al: "am_align am dvd am_size am"
  defines "st \<equiv> am_serve S r (am, live)"
  shows "am_live_ok st" and "am_align (fst st) dvd am_size (fst st)"
proof -
  have "am_live_ok st \<and> am_align (fst st) dvd am_size (fst st)"
  proof (cases r)
    case (ReqAllocate sz)
    with r have sz: "0 < sz" by simp
    show ?thesis
    proof (cases "AddressManager_allocate S am sz")
      case (Inl e)
      with ok al show ?thesis by (simp add: st_def ReqAllocate)
    next
      case (Inr t)
      obtain am' a n where t: "t = (am', a, n)" by (cases t)
      note k = am_live_allocate(1-3) [OF S ok sz Inr [unfolded t]]
      with al show ?thesis by (simp add: st_def ReqAllocate Inr t)
    qed
  next
    case (ReqFree i)
    show ?thesis
    proof (cases "i < length live")
      case True
      note k = am_live_free [OF S ok True]
      with al True show ?thesis by (simp add: st_def ReqFree)
    qed (use ok al in \<open>simp add: st_def ReqFree\<close>)
  next
    case (ReqSbrk sz)
    with r have sz: "0 < sz" by simp
    note k = am_live_sbrk [OF S ok sz al]
    then show ?thesis by (simp add: st_def ReqSbrk)
  qed
  then show "am_live_ok st" "am_align (fst st) dvd am_size (fst st)" by simp_all
qed

lemma am_history_ok:
  assumes "SortedList_documented S" and "\<forall>r \<in> set rs. req_positive r" and "am_live_ok st"
    and "am_align (fst st) dvd am_size (fst st)"
  shows "am_live_ok (fold (am_serve S) rs st)"
  using assms(2-4)
proof (induction rs arbitrary: st)
  case (Cons r rs)
  then show ?case using am_serve_ok [OF assms(1)] by (cases st) simp
qed simp

lemma am_init_live_ok:
  assumes "SortedList_documented S" and "0 < sz" and "align = 2 ^ k"
  shows "am_live_ok (AddressManager_init S sz align, [])"
  using init_correct [OF assms] assms(2)
  by (simp add: am_live_ok_def) (simp add: AddressManager_init_def)

section \<open>A container that satisfies the documentation\<close>

definition insertion_list :: SortedList_ops where
  "insertion_list =
     \<lparr>sl_add = insort_key fb_start, sl_remove = remove1,
      sl_bisect_left = (\<lambda>b xs. length (takeWhile (\<lambda>c. fb_start c < fb_start b) xs))\<rparr>"

lemma insertion_list_documented: "SortedList_documented insertion_list"
  by (simp add: SortedList_documented_def insertion_list_def sorted_insort_key)

lemma init_256_wf: "am_wf (AddressManager_init insertion_list 256 64)"
  using init_correct(1) [OF insertion_list_documented, of 256 64 6] by simp

lemma init_256_free: "free_addrs (AddressManager_init insertion_list 256 64) = addr_range 0 256"
  using init_correct(2) [OF insertion_list_documented, of 256 64 6] by simp

section \<open>Properties\<close>

text \<open>
  Property C4. After any history of allocations, frees of live blocks and expansions, from
  the initial state of the manager: the live blocks are pairwise disjoint and, together with
  the free addresses, are exactly the address space; the consistency check of the class
  passes; the byte counter is the sum of the live blocks; and the reported free size is the
  number of free addresses.
\<close>

theorem am_history_partition:
  assumes "SortedList_documented S" and "0 < sz" and "2 ^ k dvd sz"
    and "\<forall>r \<in> set rs. req_positive r"
    and "fold (am_serve S) rs (AddressManager_init S sz (2 ^ k), []) = (am, live)"
  shows "blocks_ok live (free_addrs am) (am_size am) \<and> check_consistency am \<and>
         am_total_allocated_size am = sum_list (map snd live) \<and>
         get_free_size am = int (card (free_addrs am))"
proof -
  have "am_align (AddressManager_init S sz (2 ^ k)) dvd am_size (AddressManager_init S sz (2 ^ k))"
    using assms(3) by (simp add: AddressManager_init_def)
  then have "am_live_ok (am, live)"
    using am_history_ok [OF assms(1,4) am_init_live_ok [OF assms(1,2) refl], of k] assms(5) by simp
  then show ?thesis
    using am_wf_consistent card_free_addrs by (simp add: am_live_ok_def)
qed

theorem am_history_partition_witness:
  "let (am, live) = fold (am_serve insertion_list)
         [ReqAllocate 100, ReqAllocate 50, ReqFree 1, ReqSbrk 10, ReqAllocate 120]
         (AddressManager_init insertion_list 256 (2 ^ 6), [])
   in blocks_ok live (free_addrs am) (am_size am) \<and>
      check_consistency am \<and> length live = 2"
proof -
  let ?rs = "[ReqAllocate 100, ReqAllocate 50, ReqFree 1, ReqSbrk 10, ReqAllocate 120]"
  let ?st = "fold (am_serve insertion_list) ?rs (AddressManager_init insertion_list 256 (2 ^ 6), [])"
  have "\<forall>r \<in> set ?rs. req_positive r" "(2 :: int) ^ 6 dvd 256" by simp_all
  note am_history_partition [OF insertion_list_documented _ this(2,1), of "fst ?st" "snd ?st"]
  moreover have "length (snd ?st) = 2" by code_simp
  ultimately show ?thesis by (simp add: split_def del: fold.simps)
qed

text \<open>
  Property C26. \<^verbatim>\<open>allocate\<close> is a lowest-address first fit, and complete: it raises
  \<^verbatim>\<open>RuntimeError\<close> exactly when no contiguous range of the aligned size is free anywhere, and
  otherwise returns the smallest address at which such a range starts, aligned, and takes
  exactly that range out of the free addresses.
\<close>

theorem allocate_lowest_fit:
  assumes S: "SortedList_documented S" and wf: "am_wf am" and sz: "0 < sz"
    and n: "n = compute_aligned_size am sz"
  shows "case AddressManager_allocate S am sz of
       Inl e \<Rightarrow> e = RuntimeError \<and> (\<forall>x. \<not> addr_range x n \<subseteq> free_addrs am)
     | Inr (am', a, m) \<Rightarrow> m = n \<and> am_align am dvd a \<and> addr_range a n \<subseteq> free_addrs am \<and>
         (\<forall>x. addr_range x n \<subseteq> free_addrs am \<longrightarrow> a \<le> x) \<and>
         am_wf am' \<and> free_addrs am' = free_addrs am - addr_range a n"
proof -
  have fl: "fl_ok (am_explicit_list am)" using wf by (simp add: am_wf_def)
  have n0: "0 < n" using compute_aligned_size_bounds(1) [OF wf, of sz] sz n by simp
  have blk: "\<exists>b \<in> set (am_explicit_list am). fb_start b \<le> x \<and> n \<le> fb_size b"
    if fits: "addr_range x n \<subseteq> free_addrs am" for x
  proof -
    obtain b where "b \<in> set (am_explicit_list am)" "fb_start b \<le> x" "x + n \<le> fb_start b + fb_size b"
      by (rule fl_ok_range_in_block [OF fl n0 fits [unfolded free_addrs_def]])
    then show ?thesis by (intro bexI [of _ b]) simp_all
  qed
  show ?thesis
  proof (cases "AddressManager_allocate S am sz")
    case (Inl e)
    then have "e = RuntimeError" "\<forall>b \<in> set (am_explicit_list am). fb_size b < n"
      by (auto simp: allocate_Inl_iff n)
    with blk have "\<not> addr_range x n \<subseteq> free_addrs am" for x by (meson not_le)
    with Inl \<open>e = RuntimeError\<close> show ?thesis by simp
  next
    case (Inr t)
    obtain am' a m where t: "t = (am', a, m)" by (cases t)
    note r = Inr [unfolded t] and sz' = less_imp_le [OF sz]
    note c = allocate_correct [OF S wf sz' r]
    obtain ps b qs where xs: "am_explicit_list am = ps @ b # qs"
      and small: "\<forall>p \<in> set ps. fb_size p < m" and a: "a = fb_start b"
      using allocate_InrE [OF S wf r sz'] by metis
    have "a \<le> x" if fits: "addr_range x n \<subseteq> free_addrs am" for x
    proof -
      obtain d where d: "d \<in> set (ps @ b # qs)" "fb_start d \<le> x" "n \<le> fb_size d"
        using blk [OF fits] unfolding xs by blast
      then have "d = b \<or> d \<in> set qs" using small c(2) n by auto
      then have "a \<le> fb_start d" using fl by (auto simp: a xs fl_ok_simps)
      with d show ?thesis by simp
    qed
    with c n show ?thesis by (simp add: r)
  qed
qed

theorem allocate_lowest_fit_witness:
  "case AddressManager_allocate insertion_list (AddressManager_init insertion_list 256 64) 100 of
     Inl e \<Rightarrow> False
   | Inr (am', a, m) \<Rightarrow> m = 128 \<and> a = 0 \<and> free_addrs am' = addr_range 128 128"
proof -
  let ?am = "AddressManager_init insertion_list 256 64"
  have n: "128 = compute_aligned_size ?am 100" by code_simp
  have "isl (AddressManager_allocate insertion_list ?am 100) = False" by code_simp
  moreover have "(case AddressManager_allocate insertion_list ?am 100 of Inl e \<Rightarrow> False | Inr (x, a, m) \<Rightarrow> a = 0)"
    by code_simp
  moreover have "addr_range 0 256 - addr_range 0 128 = addr_range 128 128"
    by (auto simp: addr_range_def)
  ultimately show ?thesis
    using allocate_lowest_fit [OF insertion_list_documented init_256_wf _ n]
    unfolding init_256_free
    by (cases "AddressManager_allocate insertion_list ?am 100") (simp_all add: case_prod_beta)
qed

text \<open>
  Freeing what was just allocated restores the manager exactly: the same free
  list, block for block, and the same counters.
\<close>

lemma allocate_then_free:
  assumes S: "SortedList_documented S" and wf: "am_wf am" and sz: "0 < sz"
    and r: "AddressManager_allocate S am sz = Inr (am', a, n)"
  shows "AddressManager_free S am' a n = am"
proof -
  note c = allocate_correct [OF S wf less_imp_le [OF sz] r]
  have n: "0 < n" using c(2) compute_aligned_size_bounds(1) [OF wf, of sz] sz by simp
  have al: "am_align am' dvd a" using c(3,7) by simp
  have ins: "addr_range a n \<subseteq> addr_range 0 (am_size am')"
    using c(6,10,11) by (auto simp: addr_range_def)
  have dis: "addr_range a n \<inter> free_addrs am' = {}" using c(5) by blast
  note f = free_correct [OF S c(1) n al ins dis]
  show ?thesis
    using f(1) wf
  proof (rule am_determined)
    show "free_addrs (AddressManager_free S am' a n) = free_addrs am"
      using f(2) c(4,5) by blast
  qed (use f c in simp_all)
qed

text \<open>
  The order in which two blocks are freed does not matter: whatever merges
  happen on the way, the manager ends up in the same state.
\<close>

lemma free_order_irrelevant:
  assumes S: "SortedList_documented S" and wf: "am_wf am" and n: "0 < n" and m: "0 < m"
    and a: "am_align am dvd a" "addr_range a n \<subseteq> addr_range 0 (am_size am)" "addr_range a n \<inter> free_addrs am = {}"
    and b: "am_align am dvd b" "addr_range b m \<subseteq> addr_range 0 (am_size am)" "addr_range b m \<inter> free_addrs am = {}"
    and ab: "addr_range a n \<inter> addr_range b m = {}"
  shows "AddressManager_free S (AddressManager_free S am a n) b m
       = AddressManager_free S (AddressManager_free S am b m) a n"
proof -
  note fa = free_correct [OF S wf n a] and fb = free_correct [OF S wf m b]
  have da: "addr_range b m \<inter> free_addrs (AddressManager_free S am a n) = {}"
    using b(3) ab unfolding fa(2) by blast
  have db: "addr_range a n \<inter> free_addrs (AddressManager_free S am b m) = {}"
    using a(3) ab unfolding fb(2) by blast
  note fab = free_correct [OF S fa(1) m b(1,2) [folded fa(3,4)] da]
  note fba = free_correct [OF S fb(1) n a(1,2) [folded fb(3,4)] db]
  show ?thesis
    using fab(1) fba(1) by (rule am_determined) (simp_all add: fa fb fab(2-4) fba(2-4) Un_ac)
qed

end
