(* ===== verification/Memory_Obj.thy ===== *)
theory Memory_Obj
  imports LM_Prelude
begin

text \<open>
  Memory objects of \<^verbatim>\<open>lmcache/v1/memory_management.py\<close>: formats, metadata, \<^verbatim>\<open>TensorMemoryObj\<close> and
  \<^verbatim>\<open>BytesBufferMemoryObj\<close>, their reference and pin counts, and the \<^verbatim>\<open>PinMonitor\<close> of
  \<^verbatim>\<open>lmcache/v1/pin_monitor.py\<close>.

  Memory objects are shared and mutated, so they live in a heap, a list indexed by object
  identity. The allocator that owns an object is reached through \<^verbatim>\<open>parent_allocator.free(self)\<close>;
  its \<^verbatim>\<open>free\<close> is an argument of the operations that call it.

  PyTorch is a parameter \<open>T\<close>: a shape is its list of dimensions, a dtype is identified by its
  name, and a tensor that is a view of a flat byte buffer is the pair of its offset and length.
  \<open>Torch_documented T\<close> states what the PyTorch documentation says of the calls made here.
  Statistics counters and log lines are left out.
\<close>

section \<open>PyTorch\<close>

type_synonym torch_size = "int list"
type_synonym torch_dtype = string
type_synonym view = "int \<times> int"

record Torch =
  torch_numel :: "torch_size \<Rightarrow> int"
  torch_itemsize :: "torch_dtype \<Rightarrow> int"
  torch_slice :: "view \<Rightarrow> int \<Rightarrow> int \<Rightarrow> view"
  torch_chunk :: "view \<Rightarrow> int \<Rightarrow> view list"
  torch_split :: "view \<Rightarrow> int \<Rightarrow> view list"

definition Torch_documented :: "Torch \<Rightarrow> bool" where
  "Torch_documented T \<longleftrightarrow>
     (\<forall>sh. torch_numel T sh = prod_list sh) \<and>
     (\<forall>d. 0 < torch_itemsize T d) \<and>
     (\<forall>off len a b. 0 \<le> a \<and> a \<le> b \<and> b \<le> len \<longrightarrow> torch_slice T (off, len) a b = (off + a, b - a)) \<and>
     (\<forall>off n c. 0 < n \<and> 0 < c \<longrightarrow>
        torch_chunk T (off, c * n) n = map (\<lambda>i. (off + int i * c, c)) [0..<nat n]) \<and>
     (\<forall>off n c. 0 \<le> n \<and> 0 < c \<longrightarrow>
        torch_split T (off, c * n) c = map (\<lambda>i. (off + int i * c, c)) [0..<nat n])"

text \<open>An instance in which every dtype has two bytes.\<close>

definition plain_torch :: Torch where
  "plain_torch =
     \<lparr>torch_numel = prod_list, torch_itemsize = (\<lambda>_. 2),
      torch_slice = (\<lambda>(off, len) a b. (off + a, b - a)),
      torch_chunk = (\<lambda>(off, len) n. map (\<lambda>i. (off + int i * (len div n), len div n)) [0..<nat n]),
      torch_split = (\<lambda>(off, len) c. map (\<lambda>i. (off + int i * c, c)) [0..<nat (len div c)])\<rparr>"

lemma plain_torch_documented: "Torch_documented plain_torch"
  by (simp add: Torch_documented_def plain_torch_def)

section \<open>Formats and metadata\<close>

datatype MemoryFormat = UNDEFINED | KV_2LTD | KV_T2D | KV_2TD | BINARY | BINARY_BUFFER | KV_MLA_FMT

fun token_dim :: "MemoryFormat \<Rightarrow> int" where
  "token_dim KV_2LTD = 2"
| "token_dim KV_T2D = 1"
| "token_dim KV_2TD = 0"
| "token_dim BINARY = 0"
| "token_dim BINARY_BUFFER = 0"
| "token_dim KV_MLA_FMT = 2"
| "token_dim UNDEFINED = 0"

text \<open>The enumeration values: \<^verbatim>\<open>UNDEFINED = 0\<close> and \<^verbatim>\<open>auto()\<close> counts on from there.\<close>

definition all_formats :: "MemoryFormat list" where
  "all_formats = [UNDEFINED, KV_2LTD, KV_T2D, KV_2TD, BINARY, BINARY_BUFFER, KV_MLA_FMT]"

fun format_value :: "MemoryFormat \<Rightarrow> int" where
  "format_value UNDEFINED = 0"
| "format_value KV_2LTD = 1"
| "format_value KV_T2D = 2"
| "format_value KV_2TD = 3"
| "format_value BINARY = 4"
| "format_value BINARY_BUFFER = 5"
| "format_value KV_MLA_FMT = 6"

definition format_of_value :: "int \<Rightarrow> MemoryFormat result" where
  "format_of_value v =
     (case find (\<lambda>f. format_value f = v) all_formats of None \<Rightarrow> Inl ValueError | Some f \<Rightarrow> Inr f)"

definition get_size_bytes :: "Torch \<Rightarrow> torch_size list \<Rightarrow> torch_dtype list \<Rightarrow> int result" where
  "get_size_bytes T shapes kv_dtypes =
     (if length shapes \<noteq> length kv_dtypes then Inl AssertionError
      else Inr (sum_list (map (\<lambda>(shape, dtype). torch_numel T shape * torch_itemsize T dtype)
                  (zip shapes kv_dtypes))))"

record MemoryObjMetadata =
  md_shape :: torch_size
  md_dtype :: "torch_dtype option"
  md_address :: int
  md_phy_size :: int
  md_ref_count :: int
  md_pin_count :: int
  md_fmt :: MemoryFormat
  md_cached_positions :: "int list option"
  md_shapes :: "torch_size list option"
  md_dtypes :: "torch_dtype list option"

definition MemoryObjMetadata_get_size :: "Torch \<Rightarrow> MemoryObjMetadata \<Rightarrow> int result" where
  "MemoryObjMetadata_get_size T m =
     (case (md_shapes m, md_dtypes m) of
        (Some shapes, Some dtypes) \<Rightarrow> get_size_bytes T shapes dtypes
      | _ \<Rightarrow> (case md_dtype m of
                None \<Rightarrow> Inl AttributeError
              | Some d \<Rightarrow> Inr (torch_numel T (md_shape m) * torch_itemsize T d)))"

subsection \<open>Serialisation of metadata\<close>

text \<open>
  \<^verbatim>\<open>to_dict\<close> builds a dictionary of plain values. \<^verbatim>\<open>str\<close> of a dtype is its name behind
  \<^verbatim>\<open>torch.\<close>, and \<^verbatim>\<open>getattr(torch, name)\<close> finds the dtype of a name; an empty list is falsy.
\<close>

datatype pyval = PNone | PInt int | PStr string | PList "pyval list"

definition torch_prefix :: string where
  "torch_prefix = ''torch.''"

definition dtype_str :: "torch_dtype \<Rightarrow> string" where
  "dtype_str d = torch_prefix @ d"

text \<open>\<^verbatim>\<open>s.replace(pat, '')\<close> for a non-empty pattern, scanning from the left.\<close>

function replace_empty :: "string \<Rightarrow> string \<Rightarrow> string" where
  "replace_empty pat s =
     (if s = [] then []
      else if pat \<noteq> [] \<and> take (length pat) s = pat then replace_empty pat (drop (length pat) s)
      else hd s # replace_empty pat (tl s))"
  by auto
termination by (relation "measure (\<lambda>(pat, s). length s)") (auto simp: length_greater_0_conv)

definition opt_list :: "('a \<Rightarrow> pyval) \<Rightarrow> 'a list option \<Rightarrow> pyval" where
  "opt_list f xs = (case xs of None \<Rightarrow> PNone | Some [] \<Rightarrow> PNone | Some ys \<Rightarrow> PList (map f ys))"

definition MemoryObjMetadata_to_dict :: "MemoryObjMetadata \<Rightarrow> (string, pyval) pydict" where
  "MemoryObjMetadata_to_dict m =
     [(''__type__'', PStr ''MemoryObjMetadata''),
      (''shape'', PList (map PInt (md_shape m))),
      (''dtype'', (case md_dtype m of None \<Rightarrow> PNone | Some d \<Rightarrow> PStr (dtype_str d))),
      (''address'', PInt (md_address m)),
      (''phy_size'', PInt (md_phy_size m)),
      (''ref_count'', PInt (md_ref_count m)),
      (''fmt'', PInt (format_value (md_fmt m))),
      (''shapes'', opt_list (\<lambda>sh. PList (map PInt sh)) (md_shapes m)),
      (''dtypes'', opt_list (\<lambda>d. PStr (dtype_str d)) (md_dtypes m))]"

definition dict_get :: "(string, pyval) pydict \<Rightarrow> string \<Rightarrow> pyval result" where
  "dict_get d k = (case map_of d k of None \<Rightarrow> Inl KeyError | Some v \<Rightarrow> Inr v)"

definition as_int :: "pyval \<Rightarrow> int result" where
  "as_int v = (case v of PInt i \<Rightarrow> Inr i | _ \<Rightarrow> Inl TypeError)"

fun as_list :: "(pyval \<Rightarrow> 'a result) \<Rightarrow> pyval list \<Rightarrow> 'a list result" where
  "as_list f [] = Inr []"
| "as_list f (v # vs) = bind_result (f v) (\<lambda>a. bind_result (as_list f vs) (\<lambda>as. Inr (a # as)))"

definition as_size :: "pyval \<Rightarrow> torch_size result" where
  "as_size v = (case v of PList vs \<Rightarrow> as_list as_int vs | _ \<Rightarrow> Inl TypeError)"

definition as_dtype :: "(string \<Rightarrow> torch_dtype option) \<Rightarrow> pyval \<Rightarrow> torch_dtype result" where
  "as_dtype torch_getattr v =
     (case v of
        PStr s \<Rightarrow> (case torch_getattr (replace_empty torch_prefix s) of
                     None \<Rightarrow> Inl AttributeError | Some d \<Rightarrow> Inr d)
      | _ \<Rightarrow> Inl AttributeError)"

definition as_opt_list :: "(pyval \<Rightarrow> 'a result) \<Rightarrow> pyval \<Rightarrow> 'a list option result" where
  "as_opt_list f v =
     (case v of
        PNone \<Rightarrow> Inr None
      | PList [] \<Rightarrow> Inr None
      | PList vs \<Rightarrow> bind_result (as_list f vs) (\<lambda>as. Inr (Some as))
      | _ \<Rightarrow> Inl TypeError)"

definition MemoryObjMetadata_from_dict ::
  "(string \<Rightarrow> torch_dtype option) \<Rightarrow> (string, pyval) pydict \<Rightarrow> MemoryObjMetadata result"
where
  "MemoryObjMetadata_from_dict torch_getattr d =
     bind_result (dict_get d ''dtype'') (\<lambda>dtype_s.
     bind_result (if dtype_s = PNone \<or> dtype_s = PStr [] then Inr None
                  else bind_result (as_dtype torch_getattr dtype_s) (\<lambda>x. Inr (Some x))) (\<lambda>dtype.
     bind_result (bind_result (dict_get d ''shapes'') (as_opt_list as_size)) (\<lambda>shapes.
     bind_result (bind_result (dict_get d ''dtypes'') (as_opt_list (as_dtype torch_getattr))) (\<lambda>dtypes.
     bind_result (bind_result (dict_get d ''shape'') as_size) (\<lambda>shape.
     bind_result (bind_result (dict_get d ''address'') as_int) (\<lambda>address.
     bind_result (bind_result (dict_get d ''phy_size'') as_int) (\<lambda>phy_size.
     bind_result (bind_result (dict_get d ''ref_count'') as_int) (\<lambda>ref_count.
     bind_result (bind_result (bind_result (dict_get d ''fmt'') as_int) format_of_value) (\<lambda>fmt.
       Inr \<lparr>md_shape = shape, md_dtype = dtype, md_address = address, md_phy_size = phy_size,
            md_ref_count = ref_count, md_pin_count = 0, md_fmt = fmt, md_cached_positions = None,
            md_shapes = shapes, md_dtypes = dtypes\<rparr>)))))))))"

text \<open>
  What the round trip needs of the dtypes in use: their names do not contain \<^verbatim>\<open>torch.\<close> again
  and \<^verbatim>\<open>torch\<close> has them as attributes.
\<close>

definition torch_knows :: "(string \<Rightarrow> torch_dtype option) \<Rightarrow> torch_dtype \<Rightarrow> bool" where
  "torch_knows torch_getattr d \<longleftrightarrow> replace_empty torch_prefix d = d \<and> torch_getattr d = Some d"

lemma format_of_value_inverse [simp]: "format_of_value (format_value f) = Inr f"
  by (cases f) (simp_all add: format_of_value_def all_formats_def)

lemma as_list_map:
  assumes "\<And>x. x \<in> set xs \<Longrightarrow> f (g x) = Inr x"
  shows "as_list f (map g xs) = Inr xs"
  using assms by (induction xs) auto

lemma as_size_PList [simp]: "as_size (PList (map PInt sh)) = Inr sh"
  by (simp add: as_size_def as_list_map as_int_def)

lemma as_dtype_str:
  assumes "torch_knows g d"
  shows "as_dtype g (PStr (dtype_str d)) = Inr d"
  using assms by (simp add: as_dtype_def dtype_str_def torch_knows_def torch_prefix_def)

lemma as_opt_list_map:
  assumes "\<And>x. x \<in> set (the xs) \<Longrightarrow> f (g x) = Inr x" and "xs \<noteq> Some []"
  shows "as_opt_list f (opt_list g xs) = Inr xs"
proof (cases xs)
  case (Some ys)
  then obtain y zs where "ys = y # zs" using assms(2) by (cases ys) auto
  then show ?thesis
    using assms(1) as_list_map [of ys f g] by (simp add: Some as_opt_list_def opt_list_def)
qed (simp add: as_opt_list_def opt_list_def)

section \<open>TensorMemoryObj\<close>

record TensorMemoryObj =
  tm_raw_data :: view
  tm_meta :: MemoryObjMetadata
  tm_valid :: bool
  tm_has_parent :: bool
  tm_group_prefix_sum :: "int list"

text \<open>The loop of the constructor that appends the running size of the groups.\<close>

fun prefix_sums :: "Torch \<Rightarrow> int \<Rightarrow> (torch_size \<times> torch_dtype) list \<Rightarrow> int list" where
  "prefix_sums T size_in_bytes [] = []"
| "prefix_sums T size_in_bytes ((shape, dtype) # gs) =
     (let n = size_in_bytes + torch_numel T shape * torch_itemsize T dtype
      in n # prefix_sums T n gs)"

definition TensorMemoryObj_init ::
  "Torch \<Rightarrow> view \<Rightarrow> MemoryObjMetadata \<Rightarrow> bool \<Rightarrow> TensorMemoryObj result"
where
  "TensorMemoryObj_init T raw_data metadata has_parent =
     (if md_dtype metadata = None then Inl AssertionError
      else bind_result
        (case (md_shapes metadata, md_dtypes metadata) of
           (Some shapes, Some dtypes) \<Rightarrow>
             (if length shapes \<noteq> length dtypes then Inl ValueError
              else Inr (0 # prefix_sums T 0 (zip shapes dtypes)))
         | _ \<Rightarrow> bind_result (MemoryObjMetadata_get_size T metadata) (\<lambda>n. Inr [0, n]))
        (\<lambda>sums. Inr \<lparr>tm_raw_data = raw_data, tm_meta = metadata, tm_valid = True,
                     tm_has_parent = has_parent, tm_group_prefix_sum = sums\<rparr>))"

definition TensorMemoryObj_get_size :: "TensorMemoryObj \<Rightarrow> int" where
  "TensorMemoryObj_get_size ob = last (tm_group_prefix_sum ob)"

definition TensorMemoryObj_get_num_tokens :: "TensorMemoryObj \<Rightarrow> int result" where
  "TensorMemoryObj_get_num_tokens ob =
     py_nth (md_shape (tm_meta ob)) (token_dim (md_fmt (tm_meta ob)))"

definition is_pinned :: "TensorMemoryObj \<Rightarrow> bool" where
  "is_pinned ob \<longleftrightarrow> md_pin_count (tm_meta ob) > 0"

definition can_evict :: "TensorMemoryObj \<Rightarrow> bool" where
  "can_evict ob \<longleftrightarrow> \<not> is_pinned ob \<and> md_ref_count (tm_meta ob) = 1"

definition invalidate :: "TensorMemoryObj \<Rightarrow> TensorMemoryObj" where
  "invalidate ob = ob\<lparr>tm_valid := False\<rparr>"

text \<open>
  \<^verbatim>\<open>tensor\<close> and \<^verbatim>\<open>get_tensor\<close> return the part of the raw bytes that holds the value; the views
  with another dtype and shape do not move bytes. An invalidated object gives \<^verbatim>\<open>None\<close>.
\<close>

definition TensorMemoryObj_tensor :: "Torch \<Rightarrow> TensorMemoryObj \<Rightarrow> view option" where
  "TensorMemoryObj_tensor T ob =
     (if \<not> tm_valid ob then None
      else Some (torch_slice T (tm_raw_data ob) 0 (TensorMemoryObj_get_size ob)))"

definition TensorMemoryObj_get_tensor :: "Torch \<Rightarrow> TensorMemoryObj \<Rightarrow> int \<Rightarrow> view option result" where
  "TensorMemoryObj_get_tensor T ob index =
     (if \<not> tm_valid ob then Inr None
      else if md_shapes (tm_meta ob) = None \<or> md_dtypes (tm_meta ob) = None then Inl AssertionError
      else bind_result (py_nth (tm_group_prefix_sum ob) index) (\<lambda>b.
           bind_result (py_nth (tm_group_prefix_sum ob) (index + 1)) (\<lambda>e.
             Inr (Some (torch_slice T (tm_raw_data ob) b e)))))"

section \<open>The heap of objects and their counts\<close>

type_synonym mem_id = nat

text \<open>
  \<^verbatim>\<open>mw_pinned\<close> is the dictionary \<^verbatim>\<open>_pinned_objects\<close> of the process-wide \<^verbatim>\<open>PinMonitor\<close>: object
  identity to registration time.
\<close>

record 'a mem_world =
  mw_heap :: "TensorMemoryObj list"
  mw_alloc :: 'a
  mw_pinned :: "(mem_id, int) pydict"

type_synonym 'a free_method = "'a mem_world \<Rightarrow> mem_id \<Rightarrow> 'a mem_world"

definition upd_obj :: "(TensorMemoryObj \<Rightarrow> TensorMemoryObj) \<Rightarrow> 'a mem_world \<Rightarrow> mem_id \<Rightarrow> 'a mem_world" where
  "upd_obj f w i = w\<lparr>mw_heap := (mw_heap w)[i := f (mw_heap w ! i)]\<rparr>"

definition upd_meta ::
  "(MemoryObjMetadata \<Rightarrow> MemoryObjMetadata) \<Rightarrow> 'a mem_world \<Rightarrow> mem_id \<Rightarrow> 'a mem_world"
where
  "upd_meta f = upd_obj (\<lambda>ob. ob\<lparr>tm_meta := f (tm_meta ob)\<rparr>)"

abbreviation ref_count_of :: "'a mem_world \<Rightarrow> mem_id \<Rightarrow> int" where
  "ref_count_of w i \<equiv> md_ref_count (tm_meta (mw_heap w ! i))"

abbreviation pin_count_of :: "'a mem_world \<Rightarrow> mem_id \<Rightarrow> int" where
  "pin_count_of w i \<equiv> md_pin_count (tm_meta (mw_heap w ! i))"

definition ref_count_up :: "'a mem_world \<Rightarrow> mem_id \<Rightarrow> 'a mem_world" where
  "ref_count_up = upd_meta (\<lambda>m. m\<lparr>md_ref_count := md_ref_count m + 1\<rparr>)"

definition ref_count_down :: "'a free_method \<Rightarrow> 'a mem_world \<Rightarrow> mem_id \<Rightarrow> 'a mem_world" where
  "ref_count_down free w i =
     (let w1 = upd_meta (\<lambda>m. m\<lparr>md_ref_count := md_ref_count m - 1\<rparr>) w i;
          w2 = (if ref_count_of w1 i < 0 then upd_meta (\<lambda>m. m\<lparr>md_ref_count := 0\<rparr>) w1 i else w1)
      in if ref_count_of w2 i = 0 \<and> tm_has_parent (mw_heap w2 ! i) \<and> pin_count_of w2 i = 0
         then free w2 i else w2)"

definition on_pin :: "int \<Rightarrow> 'a mem_world \<Rightarrow> mem_id \<Rightarrow> 'a mem_world" where
  "on_pin now w i = w\<lparr>mw_pinned := AList.update i now (mw_pinned w)\<rparr>"

definition on_unpin :: "'a mem_world \<Rightarrow> mem_id \<Rightarrow> 'a mem_world" where
  "on_unpin w i =
     (if dict_has (mw_pinned w) i then w\<lparr>mw_pinned := AList.delete i (mw_pinned w)\<rparr> else w)"

definition TensorMemoryObj_pin :: "int \<Rightarrow> 'a mem_world \<Rightarrow> mem_id \<Rightarrow> 'a mem_world \<times> bool" where
  "TensorMemoryObj_pin now w i =
     (on_pin now (upd_meta (\<lambda>m. m\<lparr>md_pin_count := md_pin_count m + 1\<rparr>) w i) i, True)"

definition TensorMemoryObj_unpin ::
  "'a free_method \<Rightarrow> 'a mem_world \<Rightarrow> mem_id \<Rightarrow> 'a mem_world \<times> bool"
where
  "TensorMemoryObj_unpin free w i =
     (let w1 = upd_meta (\<lambda>m. m\<lparr>md_pin_count := md_pin_count m - 1\<rparr>) w i;
          w2 = (if pin_count_of w1 i = 0 then on_unpin w1 i else w1);
          w3 = (if pin_count_of w2 i \<le> 0 \<and> ref_count_of w2 i \<le> 0
                then (if tm_has_parent (mw_heap w2 ! i) then free w2 i else w2) else w2);
          w4 = (if pin_count_of w3 i < 0 then upd_meta (\<lambda>m. m\<lparr>md_pin_count := 0\<rparr>) w3 i else w3)
      in (w4, True))"

text \<open>The destructor, run when the garbage collector drops the object.\<close>

definition TensorMemoryObj_del :: "'a free_method \<Rightarrow> 'a mem_world \<Rightarrow> mem_id \<Rightarrow> 'a mem_world" where
  "TensorMemoryObj_del free w i =
     (if tm_has_parent (mw_heap w ! i) \<and> tm_valid (mw_heap w ! i) then free w i else w)"

section \<open>PinMonitor\<close>

text \<open>
  The loop \<^verbatim>\<open>while memory_obj.meta.pin_count > 0: memory_obj.unpin()\<close>, with fuel; None is a
  loop that has not ended within the fuel.
\<close>

fun unpin_loop :: "'a free_method \<Rightarrow> nat \<Rightarrow> 'a mem_world \<Rightarrow> mem_id \<Rightarrow> 'a mem_world option" where
  "unpin_loop free 0 w i = (if pin_count_of w i > 0 then None else Some w)"
| "unpin_loop free (Suc n) w i =
     (if pin_count_of w i > 0 then unpin_loop free n (fst (TensorMemoryObj_unpin free w i)) i
      else Some w)"

definition force_unpin_timeout_object ::
  "'a free_method \<Rightarrow> 'a mem_world \<Rightarrow> mem_id \<Rightarrow> 'a mem_world option"
where
  "force_unpin_timeout_object free w i =
     (if pin_count_of w i \<le> 0 then Some w
      else unpin_loop free (nat (pin_count_of w i)) w i)"

definition timeout_objects :: "int \<Rightarrow> int \<Rightarrow> 'a mem_world \<Rightarrow> mem_id list" where
  "timeout_objects now pin_timeout w =
     map fst (filter (\<lambda>(i, register_time). pin_count_of w i > 0 \<and> now - register_time > pin_timeout)
                (mw_pinned w))"

fun force_unpin_all :: "'a free_method \<Rightarrow> mem_id list \<Rightarrow> 'a mem_world \<Rightarrow> 'a mem_world option" where
  "force_unpin_all free [] w = Some w"
| "force_unpin_all free (i # is) w =
     (case force_unpin_timeout_object free w i of
        None \<Rightarrow> None
      | Some w' \<Rightarrow> force_unpin_all free is w')"

definition check_timeouts ::
  "'a free_method \<Rightarrow> int \<Rightarrow> int \<Rightarrow> 'a mem_world \<Rightarrow> ('a mem_world \<times> nat \<times> nat \<times> nat) option"
where
  "check_timeouts free now pin_timeout w =
     (let ts = timeout_objects now pin_timeout w in
      case force_unpin_all free ts w of
        None \<Rightarrow> None
      | Some w' \<Rightarrow> Some (w', length (mw_pinned w), length ts, length ts))"

section \<open>BytesBufferMemoryObj and BufferAllocator\<close>

record BytesBufferMemoryObj =
  bb_raw_data :: "8 word list"
  bb_meta :: MemoryObjMetadata
  bb_valid :: bool

definition BytesBufferMemoryObj_init ::
  "8 word list \<Rightarrow> MemoryObjMetadata option \<Rightarrow> BytesBufferMemoryObj"
where
  "BytesBufferMemoryObj_init raw_bytes metadata =
     \<lparr>bb_raw_data = raw_bytes,
      bb_meta = (case metadata of
          Some m \<Rightarrow> m
        | None \<Rightarrow> \<lparr>md_shape = [int (length raw_bytes), 0, 0, 0], md_dtype = None, md_address = 0,
                    md_phy_size = 0, md_ref_count = 1, md_pin_count = 0, md_fmt = BINARY_BUFFER,
                    md_cached_positions = None, md_shapes = None, md_dtypes = None\<rparr>),
      bb_valid = True\<rparr>"

definition BytesBufferMemoryObj_get_size :: "BytesBufferMemoryObj \<Rightarrow> int" where
  "BytesBufferMemoryObj_get_size ob = int (length (bb_raw_data ob))"

definition BytesBufferMemoryObj_pin :: "BytesBufferMemoryObj \<Rightarrow> BytesBufferMemoryObj" where
  "BytesBufferMemoryObj_pin ob =
     ob\<lparr>bb_meta := (bb_meta ob)\<lparr>md_pin_count := md_pin_count (bb_meta ob) + 1\<rparr>\<rparr>"

definition BytesBufferMemoryObj_unpin :: "BytesBufferMemoryObj \<Rightarrow> BytesBufferMemoryObj" where
  "BytesBufferMemoryObj_unpin ob =
     (let n = md_pin_count (bb_meta ob) - 1
      in ob\<lparr>bb_meta := (bb_meta ob)\<lparr>md_pin_count := (if n < 0 then 0 else n)\<rparr>\<rparr>)"

definition BytesBufferMemoryObj_can_evict :: "BytesBufferMemoryObj \<Rightarrow> bool" where
  "BytesBufferMemoryObj_can_evict ob \<longleftrightarrow> \<not> md_pin_count (bb_meta ob) > 0"

text \<open>\<^verbatim>\<open>bytearray(n)\<close> is \<open>n\<close> zero bytes, and raises on a negative length.\<close>

definition bytearray :: "int \<Rightarrow> 8 word list result" where
  "bytearray n = (if n < 0 then Inl ValueError else Inr (replicate (nat n) 0))"

definition BufferAllocator_allocate :: "torch_size list \<Rightarrow> BytesBufferMemoryObj result" where
  "BufferAllocator_allocate shapes =
     bind_result (py_nth shapes 0) (\<lambda>shape. bind_result (py_nth shape 0) (\<lambda>n.
       bind_result (bytearray n) (\<lambda>bs. Inr (BytesBufferMemoryObj_init bs None))))"

definition BufferAllocator_batched_allocate ::
  "torch_size list \<Rightarrow> int \<Rightarrow> BytesBufferMemoryObj list result"
where
  "BufferAllocator_batched_allocate shapes batch_size =
     bind_result (py_nth shapes 0) (\<lambda>shape. bind_result (py_nth shape 0) (\<lambda>n.
       if batch_size \<le> 0 then Inr []
       else bind_result (bytearray n) (\<lambda>bs.
              Inr (replicate (nat batch_size) (BytesBufferMemoryObj_init bs None)))))"

section \<open>Counts under every allocator\<close>

text \<open>
  What the objects rely on in the allocator that owns them: \<^verbatim>\<open>free\<close> may change the allocator and
  the freed object's buffer and validity, but no counts, no other object's validity, and not
  the pin monitor.
\<close>

definition counts :: "'a mem_world \<Rightarrow> (int \<times> int \<times> bool) list" where
  "counts w = map (\<lambda>ob. (md_ref_count (tm_meta ob), md_pin_count (tm_meta ob), tm_has_parent ob)) (mw_heap w)"

definition frees_only :: "'a mem_world \<Rightarrow> 'a mem_world \<Rightarrow> mem_id \<Rightarrow> bool" where
  "frees_only w w' i \<longleftrightarrow>
     counts w' = counts w \<and> mw_pinned w' = mw_pinned w \<and>
     (\<forall>j < length (mw_heap w). j \<noteq> i \<longrightarrow> tm_valid (mw_heap w' ! j) = tm_valid (mw_heap w ! j))"

lemma length_counts [simp]: "length (counts w) = length (mw_heap w)"
  by (simp add: counts_def)

lemma counts_nth [simp]:
  "i < length (mw_heap w) \<Longrightarrow>
     counts w ! i = (ref_count_of w i, pin_count_of w i, tm_has_parent (mw_heap w ! i))"
  by (simp add: counts_def)

lemma counts_upd_meta:
  assumes "i < length (mw_heap w)"
  shows "counts (upd_meta f w i) =
    (counts w)[i := (md_ref_count (f (tm_meta (mw_heap w ! i))), md_pin_count (f (tm_meta (mw_heap w ! i))),
                     tm_has_parent (mw_heap w ! i))]"
  by (simp add: counts_def upd_meta_def upd_obj_def map_update)

lemma upd_meta_simps [simp]:
  "length (mw_heap (upd_meta f w i)) = length (mw_heap w)"
  "mw_pinned (upd_meta f w i) = mw_pinned w"
  "mw_alloc (upd_meta f w i) = mw_alloc w"
  "i < length (mw_heap w) \<Longrightarrow> tm_meta (mw_heap (upd_meta f w i) ! i) = f (tm_meta (mw_heap w ! i))"
  "j \<noteq> i \<Longrightarrow> mw_heap (upd_meta f w i) ! j = mw_heap w ! j"
  by (simp_all add: upd_meta_def upd_obj_def)

lemma upd_meta_keeps [simp]:
  "tm_valid (mw_heap (upd_meta f w i) ! j) = tm_valid (mw_heap w ! j)"
  "tm_has_parent (mw_heap (upd_meta f w i) ! j) = tm_has_parent (mw_heap w ! j)"
  "tm_raw_data (mw_heap (upd_meta f w i) ! j) = tm_raw_data (mw_heap w ! j)"
proof -
  show "tm_valid (mw_heap (upd_meta f w i) ! j) = tm_valid (mw_heap w ! j)"
    by (cases "i < length (mw_heap w)") (auto simp: upd_meta_def upd_obj_def nth_list_update not_less list_update_beyond)
  show "tm_has_parent (mw_heap (upd_meta f w i) ! j) = tm_has_parent (mw_heap w ! j)"
    by (cases "i < length (mw_heap w)") (auto simp: upd_meta_def upd_obj_def nth_list_update not_less list_update_beyond)
  show "tm_raw_data (mw_heap (upd_meta f w i) ! j) = tm_raw_data (mw_heap w ! j)"
    by (cases "i < length (mw_heap w)") (auto simp: upd_meta_def upd_obj_def nth_list_update not_less list_update_beyond)
qed

lemma on_unpin_simps [simp]:
  "mw_heap (on_unpin w i) = mw_heap w"
  "mw_alloc (on_unpin w i) = mw_alloc w"
  "mw_pinned (on_unpin w i) = AList.delete i (mw_pinned w)"
  by (auto simp: on_unpin_def map_of_eq_None_iff delete_idem)

lemma counts_cong: "mw_heap w = mw_heap w' \<Longrightarrow> counts w = counts w'"
  by (simp add: counts_def)

lemma upd_meta_twice:
  "i < length (mw_heap w) \<Longrightarrow> upd_meta g (upd_meta f w i) i = upd_meta (\<lambda>m. g (f m)) w i"
  by (simp add: upd_meta_def upd_obj_def)

lemma ref_count_down_eq:
  assumes "i < length (mw_heap w)"
  shows "ref_count_down free w i =
     (let w' = upd_meta (\<lambda>m. m\<lparr>md_ref_count := max 0 (md_ref_count m - 1)\<rparr>) w i
      in if ref_count_of w i \<le> 1 \<and> tm_has_parent (mw_heap w ! i) \<and> pin_count_of w i = 0
         then free w' i else w')"
proof (cases "ref_count_of w i < 1")
  case True
  have "upd_meta (\<lambda>m. m\<lparr>md_ref_count := 0\<rparr>) (upd_meta (\<lambda>m. m\<lparr>md_ref_count := md_ref_count m - 1\<rparr>) w i) i
      = upd_meta (\<lambda>m. m\<lparr>md_ref_count := max 0 (md_ref_count m - 1)\<rparr>) w i"
    using assms True by (simp add: upd_meta_def upd_obj_def)
  then show ?thesis using assms True by (simp add: ref_count_down_def)
next
  case False
  have "upd_meta (\<lambda>m. m\<lparr>md_ref_count := md_ref_count m - 1\<rparr>) w i
      = upd_meta (\<lambda>m. m\<lparr>md_ref_count := max 0 (md_ref_count m - 1)\<rparr>) w i"
    using False by (simp add: upd_meta_def upd_obj_def)
  then show ?thesis using assms False by (simp add: ref_count_down_def Let_def)
qed

locale object_owner =
  fixes free :: "'a free_method"
  assumes free_law: "i < length (mw_heap w) \<Longrightarrow> frees_only w (free w i) i"
begin

lemma free_simps:
  assumes "i < length (mw_heap w)"
  shows "counts (free w i) = counts w" and "mw_pinned (free w i) = mw_pinned w"
    and "length (mw_heap (free w i)) = length (mw_heap w)"
    and "\<lbrakk>j < length (mw_heap w); j \<noteq> i\<rbrakk> \<Longrightarrow> tm_valid (mw_heap (free w i) ! j) = tm_valid (mw_heap w ! j)"
proof -
  show "counts (free w i) = counts w" using free_law [OF assms] by (simp add: frees_only_def)
  then show "length (mw_heap (free w i)) = length (mw_heap w)" by (metis length_counts)
qed (use free_law [OF assms] in \<open>simp_all add: frees_only_def\<close>)

lemma free_counts:
  assumes "i < length (mw_heap w)" and "j < length (mw_heap w)"
  shows "ref_count_of (free w i) j = ref_count_of w j" and "pin_count_of (free w i) j = pin_count_of w j"
    and "tm_has_parent (mw_heap (free w i) ! j) = tm_has_parent (mw_heap w ! j)"
proof -
  have "counts (free w i) ! j = counts w ! j" using free_simps(1) [OF assms(1)] by simp
  then show "ref_count_of (free w i) j = ref_count_of w j" "pin_count_of (free w i) j = pin_count_of w j"
    "tm_has_parent (mw_heap (free w i) ! j) = tm_has_parent (mw_heap w ! j)"
    using assms free_simps(3) [OF assms(1)] by simp_all
qed

lemma ref_count_down_counts:
  assumes "i < length (mw_heap w)"
  shows "counts (ref_count_down free w i) =
     (counts w)[i := (max 0 (ref_count_of w i - 1), pin_count_of w i, tm_has_parent (mw_heap w ! i))]"
    and "mw_pinned (ref_count_down free w i) = mw_pinned w"
    and "length (mw_heap (ref_count_down free w i)) = length (mw_heap w)"
  using assms by (simp_all add: ref_count_down_eq Let_def free_simps counts_upd_meta)

lemma ref_count_down_frees:
  assumes "i < length (mw_heap w)" and "j < length (mw_heap w)"
    and "tm_valid (mw_heap w ! j)" and "\<not> tm_valid (mw_heap (ref_count_down free w i) ! j)"
  shows "j = i \<and> ref_count_of w i \<le> 1 \<and> pin_count_of w i = 0"
proof -
  from assms have *: "ref_count_of w i \<le> 1 \<and> pin_count_of w i = 0"
    by (auto simp: ref_count_down_eq Let_def split: if_splits)
  have "j = i"
  proof (rule ccontr)
    assume "j \<noteq> i"
    with assms show False by (simp add: ref_count_down_eq Let_def free_simps split: if_splits)
  qed
  with * show ?thesis by simp
qed

lemma unpin_counts:
  assumes i: "i < length (mw_heap w)"
  shows "counts (fst (TensorMemoryObj_unpin free w i)) =
     (counts w)[i := (ref_count_of w i, max 0 (pin_count_of w i - 1), tm_has_parent (mw_heap w ! i))]"
    and "mw_pinned (fst (TensorMemoryObj_unpin free w i)) =
     (if pin_count_of w i = 1 then AList.delete i (mw_pinned w) else mw_pinned w)"
    and "length (mw_heap (fst (TensorMemoryObj_unpin free w i))) = length (mw_heap w)"
proof -
  let ?w1 = "upd_meta (\<lambda>m. m\<lparr>md_pin_count := md_pin_count m - 1\<rparr>) w i"
  define w2 where "w2 = (if pin_count_of ?w1 i = 0 then on_unpin ?w1 i else ?w1)"
  define w3 where "w3 = (if pin_count_of w2 i \<le> 0 \<and> ref_count_of w2 i \<le> 0
                then (if tm_has_parent (mw_heap w2 ! i) then free w2 i else w2) else w2)"
  have res: "fst (TensorMemoryObj_unpin free w i) =
      (if pin_count_of w3 i < 0 then upd_meta (\<lambda>m. m\<lparr>md_pin_count := 0\<rparr>) w3 i else w3)"
    by (simp add: TensorMemoryObj_unpin_def Let_def w2_def w3_def)
  have h2: "mw_heap w2 = mw_heap ?w1" by (simp add: w2_def)
  then have l2: "i < length (mw_heap w2)" using i by simp
  have c1: "counts ?w1 = (counts w)[i := (ref_count_of w i, pin_count_of w i - 1, tm_has_parent (mw_heap w ! i))]"
    using i by (simp add: counts_upd_meta)
  have c3: "counts w3 = counts ?w1"
    using free_simps(1) [OF l2] counts_cong [OF h2] by (simp add: w3_def)
  have l3: "length (mw_heap w3) = length (mw_heap w)" using arg_cong [OF c3, of length] by simp
  have "counts w3 ! i = counts ?w1 ! i" using c3 by simp
  then have n3: "ref_count_of w3 i = ref_count_of w i" "pin_count_of w3 i = pin_count_of w i - 1"
    "tm_has_parent (mw_heap w3 ! i) = tm_has_parent (mw_heap w ! i)"
    using i l3 by simp_all
  have p3: "mw_pinned w3 = (if pin_count_of w i = 1 then AList.delete i (mw_pinned w) else mw_pinned w)"
  proof -
    have "mw_pinned w2 = (if pin_count_of w i = 1 then AList.delete i (mw_pinned w) else mw_pinned w)"
      using i by (simp add: w2_def)
    then show ?thesis using free_simps(2) [OF l2] by (simp add: w3_def)
  qed
  show "counts (fst (TensorMemoryObj_unpin free w i)) =
     (counts w)[i := (ref_count_of w i, max 0 (pin_count_of w i - 1), tm_has_parent (mw_heap w ! i))]"
    using i l3 n3 by (simp add: res counts_upd_meta c3 c1)
  show "mw_pinned (fst (TensorMemoryObj_unpin free w i)) =
     (if pin_count_of w i = 1 then AList.delete i (mw_pinned w) else mw_pinned w)"
    by (simp add: res p3)
  show "length (mw_heap (fst (TensorMemoryObj_unpin free w i))) = length (mw_heap w)"
    by (simp add: res l3)
qed

lemma unpin_at:
  assumes "i < length (mw_heap w)" and "j < length (mw_heap w)"
  defines "w' \<equiv> fst (TensorMemoryObj_unpin free w i)"
  shows "pin_count_of w' j = (if j = i then max 0 (pin_count_of w i - 1) else pin_count_of w j)"
    and "ref_count_of w' j = ref_count_of w j"
proof -
  have "counts w' ! j = (counts w)[i := (ref_count_of w i, max 0 (pin_count_of w i - 1), tm_has_parent (mw_heap w ! i))] ! j"
    using unpin_counts(1) [OF assms(1)] by (simp only: w'_def)
  moreover have "length (mw_heap w') = length (mw_heap w)"
    using unpin_counts(3) [OF assms(1)] by (simp only: w'_def)
  ultimately show "pin_count_of w' j = (if j = i then max 0 (pin_count_of w i - 1) else pin_count_of w j)"
    "ref_count_of w' j = ref_count_of w j"
    using assms(1,2) by (auto simp: nth_list_update split: if_splits)
qed

text \<open>The loop ends after as many rounds as the object has pins.\<close>

lemma unpin_loop_total:
  assumes "i < length (mw_heap w)" and "nat (pin_count_of w i) \<le> n"
  shows "\<exists>w'. unpin_loop free n w i = Some w' \<and> length (mw_heap w') = length (mw_heap w) \<and>
     (\<forall>j < length (mw_heap w). ref_count_of w' j = ref_count_of w j \<and>
        pin_count_of w' j = (if j = i \<and> 0 < pin_count_of w i then 0 else pin_count_of w j)) \<and>
     mw_pinned w' = (if 0 < pin_count_of w i then AList.delete i (mw_pinned w) else mw_pinned w)"
  using assms
proof (induction n arbitrary: w)
  case (Suc n)
  show ?case
  proof (cases "0 < pin_count_of w i")
    case True
    define w1 where "w1 = fst (TensorMemoryObj_unpin free w i)"
    have at: "pin_count_of w1 j = (if j = i then pin_count_of w i - 1 else pin_count_of w j)"
      "ref_count_of w1 j = ref_count_of w j" if "j < length (mw_heap w)" for j
      using unpin_at [OF Suc.prems(1) that] True by (simp_all add: w1_def)
    have len: "length (mw_heap w1) = length (mw_heap w)"
      and pins: "mw_pinned w1 = (if pin_count_of w i = 1 then AList.delete i (mw_pinned w) else mw_pinned w)"
      using unpin_counts(2,3) [OF Suc.prems(1)] by (simp_all add: w1_def)
    have ih: "\<exists>w'. unpin_loop free n w1 i = Some w' \<and> length (mw_heap w') = length (mw_heap w1) \<and>
       (\<forall>j < length (mw_heap w1). ref_count_of w' j = ref_count_of w1 j \<and>
          pin_count_of w' j = (if j = i \<and> 0 < pin_count_of w1 i then 0 else pin_count_of w1 j)) \<and>
       mw_pinned w' = (if 0 < pin_count_of w1 i then AList.delete i (mw_pinned w1) else mw_pinned w1)"
      using Suc.prems True at(1) [OF Suc.prems(1)] len by (intro Suc.IH) auto
    have step: "unpin_loop free (Suc n) w i = unpin_loop free n w1 i"
      using True by (simp add: w1_def)
    show ?thesis
      unfolding step using ih Suc.prems(1) True at pins by (auto simp: len)
  qed auto
qed auto

lemma force_unpin_total:
  assumes "i < length (mw_heap w)"
  shows "\<exists>w'. force_unpin_timeout_object free w i = Some w' \<and> length (mw_heap w') = length (mw_heap w) \<and>
     (\<forall>j < length (mw_heap w). ref_count_of w' j = ref_count_of w j \<and>
        pin_count_of w' j = (if j = i \<and> 0 < pin_count_of w i then 0 else pin_count_of w j)) \<and>
     mw_pinned w' = (if 0 < pin_count_of w i then AList.delete i (mw_pinned w) else mw_pinned w)"
  using unpin_loop_total [OF assms order_refl] by (auto simp: force_unpin_timeout_object_def)

lemma force_unpin_all_total:
  assumes "\<forall>i \<in> set is. i < length (mw_heap w)"
  shows "\<exists>w'. force_unpin_all free is w = Some w' \<and> length (mw_heap w') = length (mw_heap w) \<and>
     (\<forall>j < length (mw_heap w). ref_count_of w' j = ref_count_of w j \<and>
        pin_count_of w' j = (if j \<in> set is \<and> 0 < pin_count_of w j then 0 else pin_count_of w j)) \<and>
     mw_pinned w' = filter (\<lambda>(j, t). \<not> (j \<in> set is \<and> 0 < pin_count_of w j)) (mw_pinned w)"
  using assms
proof (induction "is" arbitrary: w)
  case (Cons i "is")
  from Cons.prems have i: "i < length (mw_heap w)" by simp
  obtain w1 where w1: "force_unpin_timeout_object free w i = Some w1" "length (mw_heap w1) = length (mw_heap w)"
    "\<forall>j < length (mw_heap w). ref_count_of w1 j = ref_count_of w j \<and>
        pin_count_of w1 j = (if j = i \<and> 0 < pin_count_of w i then 0 else pin_count_of w j)"
    "mw_pinned w1 = (if 0 < pin_count_of w i then AList.delete i (mw_pinned w) else mw_pinned w)"
    using force_unpin_total [OF i] by blast
  obtain w' where w': "force_unpin_all free is w1 = Some w'" "length (mw_heap w') = length (mw_heap w1)"
    "\<forall>j < length (mw_heap w1). ref_count_of w' j = ref_count_of w1 j \<and>
        pin_count_of w' j = (if j \<in> set is \<and> 0 < pin_count_of w1 j then 0 else pin_count_of w1 j)"
    "mw_pinned w' = filter (\<lambda>(j, t). \<not> (j \<in> set is \<and> 0 < pin_count_of w1 j)) (mw_pinned w1)"
    using Cons.IH [of w1] Cons.prems w1(2) by auto
  have "mw_pinned w' = filter (\<lambda>(j, t). \<not> (j \<in> set (i # is) \<and> 0 < pin_count_of w j)) (mw_pinned w)"
    unfolding w'(4) w1(4) using w1(3) Cons.prems i
    by (auto simp: AList.delete_eq intro!: filter_cong split: if_splits)
  with w1 w' show ?case by (intro exI [of _ w']) auto
qed simp

end

text \<open>
  The pin monitor and the pin counts agree: exactly the pinned objects are registered, and
  no count is negative.
\<close>

definition pins_tracked :: "'a mem_world \<Rightarrow> bool" where
  "pins_tracked w \<longleftrightarrow>
     dict_ok (mw_pinned w) \<and>
     fst ` set (mw_pinned w) = {i. i < length (mw_heap w) \<and> 0 < pin_count_of w i} \<and>
     (\<forall>i < length (mw_heap w). 0 \<le> pin_count_of w i \<and> 0 \<le> ref_count_of w i)"

lemma pins_tracked_counts:
  "pins_tracked w \<longleftrightarrow>
     dict_ok (mw_pinned w) \<and>
     fst ` set (mw_pinned w) = {i. i < length (counts w) \<and> 0 < fst (snd (counts w ! i))} \<and>
     (\<forall>i < length (counts w). 0 \<le> fst (counts w ! i) \<and> 0 \<le> fst (snd (counts w ! i)))"
proof -
  have "{i. i < length (mw_heap w) \<and> 0 < pin_count_of w i}
      = {i. i < length (counts w) \<and> 0 < fst (snd (counts w ! i))}" by auto
  then show ?thesis by (auto simp: pins_tracked_def)
qed

lemma counts_on_pin [simp]: "counts (on_pin now w i) = counts w"
  by (simp add: counts_def on_pin_def)

lemma pin_tracked:
  assumes "pins_tracked w" and "i < length (mw_heap w)"
  shows "pins_tracked (fst (TensorMemoryObj_pin now w i))"
proof -
  have c: "counts (fst (TensorMemoryObj_pin now w i)) =
      (counts w)[i := (ref_count_of w i, pin_count_of w i + 1, tm_has_parent (mw_heap w ! i))]"
    and p: "mw_pinned (fst (TensorMemoryObj_pin now w i)) = AList.update i now (mw_pinned w)"
    using assms(2) by (simp_all add: TensorMemoryObj_pin_def counts_upd_meta) (simp add: on_pin_def)
  show ?thesis
    using assms unfolding pins_tracked_counts c p
    by (auto simp: nth_list_update dom_update [unfolded dom_map_of_conv_image_fst] split: if_splits)
qed

context object_owner
begin

lemma ref_count_down_tracked:
  assumes "pins_tracked w" and "i < length (mw_heap w)"
  shows "pins_tracked (ref_count_down free w i)"
  using assms unfolding pins_tracked_counts ref_count_down_counts [OF assms(2)]
  by (auto simp: nth_list_update split: if_splits)

lemma unpin_tracked:
  assumes "pins_tracked w" and "i < length (mw_heap w)"
  shows "pins_tracked (fst (TensorMemoryObj_unpin free w i))"
  using assms unfolding pins_tracked_counts unpin_counts [OF assms(2)]
  by (auto simp: nth_list_update split: if_splits)

lemma check_timeouts_correct:
  assumes tr: "pins_tracked w"
  shows "\<exists>w' m n. check_timeouts free now timeout w = Some (w', m, n, n) \<and> pins_tracked w' \<and>
     length (mw_heap w') = length (mw_heap w) \<and>
     (\<forall>j < length (mw_heap w). ref_count_of w' j = ref_count_of w j \<and>
        pin_count_of w' j =
          (if \<exists>t. map_of (mw_pinned w) j = Some t \<and> now - t > timeout then 0 else pin_count_of w j))"
proof -
  let ?ts = "timeout_objects now timeout w"
  have ts: "j \<in> set ?ts \<longleftrightarrow> (\<exists>t. map_of (mw_pinned w) j = Some t \<and> now - t > timeout)" for j
  proof -
    have "j \<in> set ?ts \<longleftrightarrow> (\<exists>t. (j, t) \<in> set (mw_pinned w) \<and> 0 < pin_count_of w j \<and> now - t > timeout)"
      by (force simp: timeout_objects_def)
    moreover have "(j, t) \<in> set (mw_pinned w) \<Longrightarrow> 0 < pin_count_of w j" for t
      using tr by (force simp: pins_tracked_def)
    ultimately show ?thesis using tr by (auto simp: pins_tracked_def)
  qed
  have keys_w: "fst ` set (mw_pinned w) = {i. i < length (mw_heap w) \<and> 0 < pin_count_of w i}"
    using tr by (simp add: pins_tracked_def)
  have "i < length (mw_heap w)" if "i \<in> set ?ts" for i
  proof -
    have "i \<in> fst ` set (mw_pinned w)" using that ts map_of_Some_key by metis
    then show ?thesis unfolding keys_w by simp
  qed
  then have "\<forall>i \<in> set ?ts. i < length (mw_heap w)" by simp
  from force_unpin_all_total [OF this] obtain w' where w': "force_unpin_all free ?ts w = Some w'"
    "length (mw_heap w') = length (mw_heap w)"
    "\<forall>j < length (mw_heap w). ref_count_of w' j = ref_count_of w j \<and>
        pin_count_of w' j = (if j \<in> set ?ts \<and> 0 < pin_count_of w j then 0 else pin_count_of w j)"
    "mw_pinned w' = filter (\<lambda>(j, t). \<not> (j \<in> set ?ts \<and> 0 < pin_count_of w j)) (mw_pinned w)"
    by blast
  have keys: "fst ` set (mw_pinned w') = {j \<in> fst ` set (mw_pinned w). \<not> (j \<in> set ?ts \<and> 0 < pin_count_of w j)}"
    unfolding w'(4) by force
  have "dict_ok (mw_pinned w')"
    using tr unfolding w'(4) pins_tracked_def by (simp add: distinct_map_filter)
  moreover have "fst ` set (mw_pinned w') = {i. i < length (mw_heap w') \<and> 0 < pin_count_of w' i}"
    using tr w'(2,3) unfolding keys pins_tracked_def by auto
  ultimately have "pins_tracked w'"
    using tr w'(2,3) unfolding pins_tracked_def by auto
  moreover have "0 < pin_count_of w j" if "j \<in> set ?ts" for j
    using that by (auto simp: timeout_objects_def)
  moreover have "check_timeouts free now timeout w = Some (w', length (mw_pinned w), length ?ts, length ?ts)"
    by (simp add: check_timeouts_def Let_def w'(1))
  ultimately show ?thesis
    using w'(2,3) by (intro exI3 [of _ w' "length (mw_pinned w)" "length ?ts"]) (simp flip: ts)
qed

end

section \<open>Groups of an object\<close>

abbreviation group_size :: "Torch \<Rightarrow> torch_size \<times> torch_dtype \<Rightarrow> int" where
  "group_size T g \<equiv> torch_numel T (fst g) * torch_itemsize T (snd g)"

lemma length_prefix_sums [simp]: "length (prefix_sums T a gs) = length gs"
  by (induction T a gs rule: prefix_sums.induct) (simp_all add: Let_def)

lemma prefix_sums_nth:
  "k \<le> length gs \<Longrightarrow> (a # prefix_sums T a gs) ! k = a + sum_list (map (group_size T) (take k gs))"
proof (induction T a gs arbitrary: k rule: prefix_sums.induct)
  case (2 T a shape dtype gs)
  then show ?case by (cases k) (simp_all add: Let_def)
qed simp

lemma last_prefix_sums: "last (a # prefix_sums T a gs) = a + sum_list (map (group_size T) gs)"
proof -
  have "last (a # prefix_sums T a gs) = (a # prefix_sums T a gs) ! length gs"
    by (subst last_conv_nth) simp_all
  then show ?thesis using prefix_sums_nth [of "length gs" gs a T] by simp
qed

lemma group_size_nonneg:
  assumes "Torch_documented T" and "\<forall>d \<in> set (fst g). 0 \<le> d"
  shows "0 \<le> group_size T g"
proof -
  have "0 \<le> prod_list (fst g)" using assms(2) by (induction "fst g" arbitrary: g) auto
  then show ?thesis using assms(1) by (simp add: Torch_documented_def less_imp_le)
qed

lemma sum_list_take_Suc:
  fixes f :: "'a \<Rightarrow> int"
  shows "k < length xs \<Longrightarrow> sum_list (map f (take (Suc k) xs)) = sum_list (map f (take k xs)) + f (xs ! k)"
  by (simp add: take_Suc_conv_app_nth)

lemma sum_list_take_le:
  fixes f :: "'a \<Rightarrow> int"
  assumes "\<forall>x \<in> set xs. 0 \<le> f x"
  shows "sum_list (map f (take k xs)) \<le> sum_list (map f xs)" and "0 \<le> sum_list (map f (take k xs))"
proof -
  have "sum_list (map f xs) = sum_list (map f (take k xs)) + sum_list (map f (drop k xs))"
    by (metis append_take_drop_id map_append sum_list_append)
  moreover have "0 \<le> sum_list (map f (drop k xs))"
    using assms by (intro sum_list_nonneg) (auto dest: in_set_dropD)
  ultimately show "sum_list (map f (take k xs)) \<le> sum_list (map f xs)" by simp
  show "0 \<le> sum_list (map f (take k xs))"
    using assms by (intro sum_list_nonneg) (auto dest: in_set_takeD)
qed

section \<open>Properties\<close>

text \<open>
  The groups of a tensor memory object tile its bytes: the tensor of group \<open>k\<close>
  is the view that starts where the sizes of the groups before it end and has exactly the
  group's size, and the size of the object is the sum over all groups, which is what
  \<^verbatim>\<open>get_size_bytes\<close> computes for the allocator.
\<close>

lemma group_tensors_tile:
  assumes T: "Torch_documented T" and ob: "TensorMemoryObj_init T (off, len) m par = Inr ob"
    and sh: "md_shapes m = Some shapes" and dt: "md_dtypes m = Some dtypes"
    and dims: "\<forall>sh \<in> set shapes. \<forall>d \<in> set sh. 0 \<le> d"
    and fits: "get_size_bytes T shapes dtypes = Inr n" "n \<le> len" and k: "k < length shapes"
  shows "TensorMemoryObj_get_tensor T ob (int k) =
      Inr (Some (off + sum_list (map (group_size T) (take k (zip shapes dtypes))),
                 group_size T (shapes ! k, dtypes ! k))) \<and>
    TensorMemoryObj_get_size ob = n"
proof -
  let ?gs = "zip shapes dtypes" and ?sum = "\<lambda>xs. sum_list (map (group_size T) xs)"
  have l: "length shapes = length dtypes" and n: "n = ?sum ?gs"
    using fits(1) by (auto simp: get_size_bytes_def case_prod_unfold split: if_splits)
  have ob': "tm_group_prefix_sum ob = 0 # prefix_sums T 0 ?gs" "tm_raw_data ob = (off, len)"
    "tm_meta ob = m" "tm_valid ob"
    using ob by (auto simp: TensorMemoryObj_init_def sh dt l split: if_splits)
  have nn: "\<forall>g \<in> set ?gs. 0 \<le> group_size T g"
    using dims by (auto intro!: group_size_nonneg [OF T] dest: set_zip_leftD)
  have kl: "k < length ?gs" using k l by simp
  have at: "py_nth (tm_group_prefix_sum ob) (int j) = Inr (?sum (take j ?gs))" if "j \<le> length ?gs" for j
  proof -
    have "j < length (0 # prefix_sums T 0 ?gs)" using that by (simp only: length_Cons length_prefix_sums less_Suc_eq_le)
    from py_nth_nat [OF this] show ?thesis using prefix_sums_nth [OF that, of 0 T] by (simp only: ob' add_0)
  qed
  have b: "py_nth (tm_group_prefix_sum ob) (int k) = Inr (?sum (take k ?gs))"
    and "py_nth (tm_group_prefix_sum ob) (int (Suc k)) = Inr (?sum (take (Suc k) ?gs))"
    using kl by (intro at; simp)+
  then have e: "py_nth (tm_group_prefix_sum ob) (int k + 1) =
      Inr (?sum (take k ?gs) + group_size T (shapes ! k, dtypes ! k))"
    using kl k l sum_list_take_Suc [OF kl, of "group_size T"] by (simp add: add.commute)
  have "?sum (take k ?gs) + group_size T (shapes ! k, dtypes ! k) \<le> n"
    using sum_list_take_Suc [OF kl, of "group_size T"] sum_list_take_le(1) [OF nn, of "Suc k"] k l n by simp
  moreover have "0 \<le> group_size T (shapes ! k, dtypes ! k)"
    using nn kl k l nth_mem [OF kl] by fastforce
  ultimately have "torch_slice T (off, len) (?sum (take k ?gs))
       (?sum (take k ?gs) + group_size T (shapes ! k, dtypes ! k)) =
      (off + ?sum (take k ?gs), group_size T (shapes ! k, dtypes ! k))"
    using T sum_list_take_le(2) [OF nn, of k] fits(2) by (simp add: Torch_documented_def)
  then show ?thesis
    using b e ob' n last_prefix_sums [of 0 T ?gs]
    by (simp add: TensorMemoryObj_get_tensor_def TensorMemoryObj_get_size_def sh dt)
qed

text \<open>
  Metadata survives serialisation: \<^verbatim>\<open>from_dict\<close> applied to \<^verbatim>\<open>to_dict\<close> gives back the
  same metadata, except for the two fields that are not serialised, the pin count and the
  cached positions. An empty list of shapes or dtypes is excluded: it comes back as None.
\<close>

lemma metadata_roundtrip:
  assumes "\<forall>d. md_dtype m = Some d \<longrightarrow> torch_knows torch_getattr d"
    and "\<forall>ds. md_dtypes m = Some ds \<longrightarrow> ds \<noteq> [] \<and> (\<forall>d \<in> set ds. torch_knows torch_getattr d)"
    and "md_shapes m \<noteq> Some []"
  shows "MemoryObjMetadata_from_dict torch_getattr (MemoryObjMetadata_to_dict m) =
         Inr (m\<lparr>md_pin_count := 0, md_cached_positions := None\<rparr>)"
proof -
  have sh: "as_opt_list as_size (opt_list (\<lambda>sh. PList (map PInt sh)) (md_shapes m)) = Inr (md_shapes m)"
    using assms(3) by (intro as_opt_list_map) simp_all
  have dt: "as_opt_list (as_dtype torch_getattr) (opt_list (\<lambda>d. PStr (dtype_str d)) (md_dtypes m))
      = Inr (md_dtypes m)"
  proof (cases "md_dtypes m")
    case None
    then show ?thesis by (simp add: as_opt_list_def opt_list_def)
  next
    case (Some ds)
    with assms(2) show ?thesis by (intro as_opt_list_map) (simp_all add: as_dtype_str)
  qed
  have "dtype_str d \<noteq> []" for d by (simp add: dtype_str_def torch_prefix_def)
  with assms(1) show ?thesis
    by (cases "md_dtype m")
      (simp_all add: MemoryObjMetadata_from_dict_def MemoryObjMetadata_to_dict_def dict_get_def sh dt
         as_dtype_str as_int_def)
qed

end
