(* ===== verification/Tensor_Allocator.thy ===== *)
theory Tensor_Allocator
  imports Address_Manager Memory_Obj
begin

text \<open>
  The class \<^verbatim>\<open>TensorMemoryAllocator\<close> of \<^verbatim>\<open>lmcache/v1/memory_management.py\<close>: it cuts memory objects
  out of one flat buffer, with an \<^verbatim>\<open>AddressManager\<close> for the addresses.

  Shown: the allocator and the valid objects agree at all times (the objects' ranges and the
  free addresses partition the buffer, and the active count is the number of valid objects);
  \<^verbatim>\<open>batched_free\<close>, which merges neighbours before it frees them, is the same as freeing the
  objects one by one; and the counts of objects owned by this allocator.
\<close>

section \<open>State and operations\<close>

datatype 'a one_or_list = One 'a | Many "'a list"

fun as_many :: "'a one_or_list \<Rightarrow> 'a list" where
  "as_many (One x) = [x]"
| "as_many (Many xs) = xs"

definition adapt_shapes_and_dtypes ::
  "torch_size one_or_list \<Rightarrow> torch_dtype one_or_list \<Rightarrow> (torch_size list \<times> torch_dtype list) result"
where
  "adapt_shapes_and_dtypes shapes dtypes =
     (if length (as_many shapes) = length (as_many dtypes)
      then Inr (as_many shapes, as_many dtypes) else Inl AssertionError)"

record TensorMemoryAllocator =
  ta_buffer :: view
  ta_address_manager :: AddressManager
  ta_num_active_allocations :: int

definition TensorMemoryAllocator_init ::
  "SortedList_ops \<Rightarrow> view \<Rightarrow> int \<Rightarrow> int option \<Rightarrow> TensorMemoryAllocator"
where
  "TensorMemoryAllocator_init S tensor align_bytes init_address_space =
     \<lparr>ta_buffer = tensor,
      ta_address_manager =
        AddressManager_init S
          (case init_address_space of None \<Rightarrow> snd tensor | Some n \<Rightarrow> n) align_bytes,
      ta_num_active_allocations = 0\<rparr>"

type_synonym ta_world = "TensorMemoryAllocator mem_world"

definition get_buffer_slice :: "Torch \<Rightarrow> TensorMemoryAllocator \<Rightarrow> int \<Rightarrow> int \<Rightarrow> view" where
  "get_buffer_slice T ta start sz = torch_slice T (ta_buffer ta) start (start + sz)"

text \<open>The metadata of a fresh object: one reference, no pins.\<close>

definition fresh_metadata ::
  "torch_size \<Rightarrow> torch_dtype \<Rightarrow> int \<Rightarrow> int \<Rightarrow> MemoryFormat \<Rightarrow> torch_size list \<Rightarrow> torch_dtype list \<Rightarrow> MemoryObjMetadata"
where
  "fresh_metadata shape dtype address phy_size fmt shapes dtypes =
     \<lparr>md_shape = shape, md_dtype = Some dtype, md_address = address, md_phy_size = phy_size,
      md_ref_count = 1, md_pin_count = 0, md_fmt = fmt, md_cached_positions = None,
      md_shapes = Some shapes, md_dtypes = Some dtypes\<rparr>"

definition TensorMemoryAllocator_allocate ::
  "SortedList_ops \<Rightarrow> Torch \<Rightarrow> ta_world \<Rightarrow> torch_size one_or_list \<Rightarrow> torch_dtype one_or_list \<Rightarrow>
   MemoryFormat \<Rightarrow> (ta_world \<times> mem_id option) result"
where
  "TensorMemoryAllocator_allocate S T w shapes0 dtypes0 fmt =
     bind_result (adapt_shapes_and_dtypes shapes0 dtypes0) (\<lambda>(shapes, dtypes).
     bind_result (get_size_bytes T shapes dtypes) (\<lambda>raw_size.
       case AddressManager_allocate S (ta_address_manager (mw_alloc w)) raw_size of
         Inl _ \<Rightarrow> Inr (w, None)
       | Inr (am', block_start, aligned_size) \<Rightarrow>
           (let ta' = (mw_alloc w)\<lparr>ta_address_manager := am',
                        ta_num_active_allocations := ta_num_active_allocations (mw_alloc w) + 1\<rparr>;
                raw_data = get_buffer_slice T ta' block_start raw_size
            in bind_result (py_nth shapes 0) (\<lambda>shape.
               bind_result (py_nth dtypes 0) (\<lambda>dtype.
               bind_result
                 (TensorMemoryObj_init T raw_data
                    (fresh_metadata shape dtype block_start aligned_size fmt shapes dtypes) True) (\<lambda>ob.
               Inr (w\<lparr>mw_alloc := ta', mw_heap := mw_heap w @ [ob]\<rparr>,
                    Some (length (mw_heap w)))))))))"

text \<open>The loop of \<^verbatim>\<open>batched_allocate\<close> over the chunks, with the running start address.\<close>

fun batch_objects ::
  "Torch \<Rightarrow> view list \<Rightarrow> int \<Rightarrow> int \<Rightarrow> MemoryFormat \<Rightarrow> torch_size list \<Rightarrow> torch_dtype list \<Rightarrow>
   TensorMemoryObj list result"
where
  "batch_objects T [] temp_start unit_aligned_size fmt shapes dtypes = Inr []"
| "batch_objects T (raw_data # raw_datas) temp_start unit_aligned_size fmt shapes dtypes =
     bind_result (py_nth shapes 0) (\<lambda>shape.
     bind_result (py_nth dtypes 0) (\<lambda>dtype.
     bind_result
       (TensorMemoryObj_init T raw_data
          (fresh_metadata shape dtype temp_start unit_aligned_size fmt shapes dtypes) True) (\<lambda>ob.
     bind_result
       (batch_objects T raw_datas (temp_start + unit_aligned_size) unit_aligned_size fmt shapes dtypes)
       (\<lambda>obs. Inr (ob # obs)))))"

definition TensorMemoryAllocator_batched_allocate ::
  "SortedList_ops \<Rightarrow> Torch \<Rightarrow> ta_world \<Rightarrow> torch_size one_or_list \<Rightarrow> torch_dtype one_or_list \<Rightarrow> int \<Rightarrow>
   MemoryFormat \<Rightarrow> (ta_world \<times> mem_id list option) result"
where
  "TensorMemoryAllocator_batched_allocate S T w shapes0 dtypes0 batch_size fmt =
     bind_result (adapt_shapes_and_dtypes shapes0 dtypes0) (\<lambda>(shapes, dtypes).
     bind_result (get_size_bytes T shapes dtypes) (\<lambda>unit_raw_size.
       let am = ta_address_manager (mw_alloc w);
           unit_aligned_size = compute_aligned_size am unit_raw_size;
           total_aligned_size = unit_aligned_size * batch_size
       in case AddressManager_allocate S am total_aligned_size of
            Inl _ \<Rightarrow> Inr (w, None)
          | Inr (am', block_start, _) \<Rightarrow>
              (let ta' = (mw_alloc w)\<lparr>ta_address_manager := am',
                           ta_num_active_allocations := ta_num_active_allocations (mw_alloc w) + batch_size\<rparr>;
                   raw_datas = torch_chunk T
                     (torch_slice T (ta_buffer ta') block_start (block_start + total_aligned_size)) batch_size
               in bind_result (batch_objects T raw_datas block_start unit_aligned_size fmt shapes dtypes) (\<lambda>obs.
                  Inr (w\<lparr>mw_alloc := ta', mw_heap := mw_heap w @ obs\<rparr>,
                       Some [length (mw_heap w)..<length (mw_heap w) + length obs])))))"

definition TensorMemoryAllocator_free :: "SortedList_ops \<Rightarrow> ta_world \<Rightarrow> mem_id \<Rightarrow> ta_world" where
  "TensorMemoryAllocator_free S w i =
     (if \<not> tm_valid (mw_heap w ! i) then w
      else let m = tm_meta (mw_heap w ! i); ta = mw_alloc w
           in upd_obj invalidate
                (w\<lparr>mw_alloc :=
                   ta\<lparr>ta_address_manager :=
                        AddressManager_free S (ta_address_manager ta) (md_address m) (md_phy_size m),
                      ta_num_active_allocations := ta_num_active_allocations ta - 1\<rparr>\<rparr>) i)"

text \<open>
  \<^verbatim>\<open>batched_free\<close>: the state of its first loop is the heap, the blocks closed so far with their
  counts, and the block being built.
\<close>

fun coalesce_objects ::
  "ta_world \<Rightarrow> (int \<times> int \<times> int) list \<Rightarrow> (int \<times> int \<times> int) option \<Rightarrow> mem_id list \<Rightarrow>
   ta_world \<times> (int \<times> int \<times> int) list"
where
  "coalesce_objects w blocks cur [] = (w, blocks @ (case cur of None \<Rightarrow> [] | Some c \<Rightarrow> [c]))"
| "coalesce_objects w blocks cur (i # is) =
     (if \<not> tm_valid (mw_heap w ! i) then coalesce_objects w blocks cur is
      else let m = tm_meta (mw_heap w ! i);
               w' = upd_obj invalidate w i
           in case cur of
                None \<Rightarrow> coalesce_objects w' blocks (Some (md_address m, md_phy_size m, 1)) is
              | Some (curr_start, curr_size, curr_count) \<Rightarrow>
                  (if curr_start + curr_size = md_address m
                   then coalesce_objects w' blocks
                          (Some (curr_start, curr_size + md_phy_size m, curr_count + 1)) is
                   else coalesce_objects w' (blocks @ [(curr_start, curr_size, curr_count)])
                          (Some (md_address m, md_phy_size m, 1)) is))"

definition TensorMemoryAllocator_batched_free ::
  "SortedList_ops \<Rightarrow> ta_world \<Rightarrow> mem_id list \<Rightarrow> ta_world"
where
  "TensorMemoryAllocator_batched_free S w memory_objs =
     (let (w', blocks) =
            coalesce_objects w [] None (sort_key (\<lambda>i. md_address (tm_meta (mw_heap w ! i))) memory_objs);
          am' = fold (\<lambda>(address, sz, count) am. AddressManager_free S am address sz) blocks
                  (ta_address_manager (mw_alloc w'));
          total_count = sum_list (map (\<lambda>(address, sz, count). count) blocks)
      in w'\<lparr>mw_alloc := (mw_alloc w')\<lparr>ta_address_manager := am',
              ta_num_active_allocations := ta_num_active_allocations (mw_alloc w') - total_count\<rparr>\<rparr>)"

definition TensorMemoryAllocator_memcheck :: "TensorMemoryAllocator \<Rightarrow> bool" where
  "TensorMemoryAllocator_memcheck ta =
     (let am = ta_address_manager ta;
          total_free_size = get_free_size am;
          clear1 = \<not> (total_free_size + am_total_allocated_size am \<noteq> get_heap_size am)
      in if \<not> check_consistency am then False else clear1)"

section \<open>The allocator and its objects agree\<close>

definition obj_block :: "TensorMemoryObj \<Rightarrow> int \<times> int" where
  "obj_block ob = (md_address (tm_meta ob), md_phy_size (tm_meta ob))"

definition live_blocks :: "TensorMemoryObj list \<Rightarrow> (int \<times> int) list" where
  "live_blocks heap = map obj_block (filter tm_valid heap)"

text \<open>The bytes of an object are the part of the buffer at its address, within its block.\<close>

definition view_ok :: "view \<Rightarrow> TensorMemoryObj \<Rightarrow> bool" where
  "view_ok buffer ob \<longleftrightarrow>
     fst (tm_raw_data ob) = fst buffer + md_address (tm_meta ob) \<and>
     0 \<le> snd (tm_raw_data ob) \<and> snd (tm_raw_data ob) \<le> md_phy_size (tm_meta ob)"

definition ta_ok :: "ta_world \<Rightarrow> bool" where
  "ta_ok w \<longleftrightarrow>
     am_live_ok (ta_address_manager (mw_alloc w), live_blocks (mw_heap w)) \<and>
     am_size (ta_address_manager (mw_alloc w)) \<le> snd (ta_buffer (mw_alloc w)) \<and>
     ta_num_active_allocations (mw_alloc w) = int (length (live_blocks (mw_heap w))) \<and>
     (\<forall>ob \<in> set (mw_heap w). tm_valid ob \<longrightarrow> view_ok (ta_buffer (mw_alloc w)) ob)"

lemma live_blocks_append [simp]: "live_blocks (xs @ ys) = live_blocks xs @ live_blocks ys"
  by (simp add: live_blocks_def)

lemma invalidate_simps [simp]:
  "tm_valid (invalidate ob) = False" "tm_meta (invalidate ob) = tm_meta ob"
  "tm_has_parent (invalidate ob) = tm_has_parent ob"
  by (simp_all add: invalidate_def)

lemma live_blocks_invalidate:
  assumes "i < length heap" and "tm_valid (heap ! i)"
  shows "mset (live_blocks heap) = add_mset (obj_block (heap ! i)) (mset (live_blocks (heap[i := invalidate (heap ! i)])))"
proof -
  have "heap = take i heap @ heap ! i # drop (Suc i) heap" using assms(1) by (rule id_take_nth_drop)
  then have "live_blocks heap = live_blocks (take i heap) @ obj_block (heap ! i) # live_blocks (drop (Suc i) heap)"
    using assms(2) by (metis append_Cons append_Nil filter.simps list.simps(9) live_blocks_append live_blocks_def)
  moreover have "live_blocks (heap[i := invalidate (heap ! i)]) = live_blocks (take i heap) @ live_blocks (drop (Suc i) heap)"
    using assms(1) by (simp add: upd_conv_take_nth_drop) (simp add: live_blocks_def)
  ultimately show ?thesis by simp
qed

lemma upd_obj_simps [simp]:
  "length (mw_heap (upd_obj f w i)) = length (mw_heap w)"
  "mw_alloc (upd_obj f w i) = mw_alloc w"
  "mw_pinned (upd_obj f w i) = mw_pinned w"
  "mw_heap (upd_obj f w i) = (mw_heap w)[i := f (mw_heap w ! i)]"
  by (simp_all add: upd_obj_def)

lemma free_valid_eq:
  assumes "tm_valid (mw_heap w ! i)"
  shows "TensorMemoryAllocator_free S w i =
     w\<lparr>mw_heap := (mw_heap w)[i := invalidate (mw_heap w ! i)],
       mw_alloc := (mw_alloc w)\<lparr>ta_address_manager :=
           AddressManager_free S (ta_address_manager (mw_alloc w))
             (fst (obj_block (mw_heap w ! i))) (snd (obj_block (mw_heap w ! i))),
         ta_num_active_allocations := ta_num_active_allocations (mw_alloc w) - 1\<rparr>\<rparr>"
  using assms by (simp add: TensorMemoryAllocator_free_def Let_def upd_obj_def obj_block_def)

lemma valid_in_update:
  assumes "ob \<in> set (heap[i := invalidate x])" and "tm_valid ob"
  shows "ob \<in> set heap"
  using assms set_update_subset_insert [of heap i "invalidate x"] by auto

lemma ta_free_ok:
  assumes S: "SortedList_documented S" and ok: "ta_ok w" and i: "i < length (mw_heap w)"
  defines "w' \<equiv> TensorMemoryAllocator_free S w i"
  shows "ta_ok w'" and "am_size (ta_address_manager (mw_alloc w')) = am_size (ta_address_manager (mw_alloc w))"
    and "am_align (ta_address_manager (mw_alloc w')) = am_align (ta_address_manager (mw_alloc w))"
    and "ta_buffer (mw_alloc w') = ta_buffer (mw_alloc w)"
proof -
  let ?am = "ta_address_manager (mw_alloc w)" and ?b = "obj_block (mw_heap w ! i)"
  let ?heap = "(mw_heap w)[i := invalidate (mw_heap w ! i)]"
  have "ta_ok w' \<and> am_size (ta_address_manager (mw_alloc w')) = am_size ?am \<and>
    am_align (ta_address_manager (mw_alloc w')) = am_align ?am \<and> ta_buffer (mw_alloc w') = ta_buffer (mw_alloc w)"
  proof (cases "tm_valid (mw_heap w ! i)")
    case True
    note lb = live_blocks_invalidate [OF i True]
    have "am_live_ok (?am, (fst ?b, snd ?b) # live_blocks ?heap)"
      using ok am_live_ok_perm [of "live_blocks (mw_heap w)" "?b # live_blocks ?heap" ?am] lb
      by (simp add: ta_ok_def)
    note f = am_live_free_hd [OF S this]
    have "length (live_blocks (mw_heap w)) = Suc (length (live_blocks ?heap))"
      using arg_cong [OF lb, of size] by simp
    then show ?thesis
      using ok f unfolding w'_def free_valid_eq [OF True] ta_ok_def by (auto dest: valid_in_update)
  qed (use ok in \<open>simp add: w'_def TensorMemoryAllocator_free_def\<close>)
  then show "ta_ok w'" "am_size (ta_address_manager (mw_alloc w')) = am_size ?am"
    "am_align (ta_address_manager (mw_alloc w')) = am_align ?am" "ta_buffer (mw_alloc w') = ta_buffer (mw_alloc w)"
    by blast+
qed

lemma tm_init_fields:
  assumes "TensorMemoryObj_init T raw m par = Inr ob"
  shows "tm_raw_data ob = raw" and "tm_meta ob = m" and "tm_valid ob" and "tm_has_parent ob = par"
  using assms by (auto simp: TensorMemoryObj_init_def split: if_splits)

lemma obj_block_fresh [simp]:
  "tm_meta ob = fresh_metadata shape dtype a n fmt shapes dtypes \<Longrightarrow> obj_block ob = (a, n)"
  by (simp add: obj_block_def fresh_metadata_def)

lemma slice_in_buffer:
  assumes "Torch_documented T" and "0 \<le> a" and "0 \<le> n" and "a + n \<le> snd buffer"
  shows "torch_slice T buffer a (a + n) = (fst buffer + a, n)"
  using assms by (cases buffer) (simp add: Torch_documented_def)

lemma ta_allocate_cases:
  assumes "TensorMemoryAllocator_allocate S T w shapes dtypes fmt = Inr (w', r)"
    and "get_size_bytes T (as_many shapes) (as_many dtypes) = Inr n"
  obtains (full) "\<forall>e. AddressManager_allocate S (ta_address_manager (mw_alloc w)) n \<noteq> Inr e" "w' = w" "r = None"
  | (fresh) am' a m ob shape dtype
    where "AddressManager_allocate S (ta_address_manager (mw_alloc w)) n = Inr (am', a, m)"
      "r = Some (length (mw_heap w))" "tm_valid ob" "tm_has_parent ob"
      "tm_meta ob = fresh_metadata shape dtype a m fmt (as_many shapes) (as_many dtypes)"
      "tm_raw_data ob = torch_slice T (ta_buffer (mw_alloc w)) a (a + n)"
      "w' = w\<lparr>mw_alloc := (mw_alloc w)\<lparr>ta_address_manager := am',
                 ta_num_active_allocations := ta_num_active_allocations (mw_alloc w) + 1\<rparr>,
              mw_heap := mw_heap w @ [ob]\<rparr>"
proof (cases "AddressManager_allocate S (ta_address_manager (mw_alloc w)) n")
  case (Inl e)
  with assms show thesis
    by (intro full) (auto simp: TensorMemoryAllocator_allocate_def adapt_shapes_and_dtypes_def split: if_splits)
next
  case (Inr t)
  obtain am' a m where t: "t = (am', a, m)" by (cases t)
  from assms Inr t obtain ob shape dtype where
    ob: "TensorMemoryObj_init T (torch_slice T (ta_buffer (mw_alloc w)) a (a + n))
           (fresh_metadata shape dtype a m fmt (as_many shapes) (as_many dtypes)) True = Inr ob"
    and r: "r = Some (length (mw_heap w))"
    and w': "w' = w\<lparr>mw_alloc := (mw_alloc w)\<lparr>ta_address_manager := am',
                 ta_num_active_allocations := ta_num_active_allocations (mw_alloc w) + 1\<rparr>,
              mw_heap := mw_heap w @ [ob]\<rparr>"
    by (auto simp: TensorMemoryAllocator_allocate_def adapt_shapes_and_dtypes_def get_buffer_slice_def
        Let_def split: if_splits)
  show thesis
    using fresh [OF _ r _ _ _ _ w'] tm_init_fields [OF ob] Inr t by blast
qed

lemma ta_allocate_ok:
  assumes S: "SortedList_documented S" and T: "Torch_documented T" and ok: "ta_ok w"
    and r: "TensorMemoryAllocator_allocate S T w shapes dtypes fmt = Inr (w', r)"
    and n: "get_size_bytes T (as_many shapes) (as_many dtypes) = Inr n" "0 < n"
  shows "ta_ok w'" and "mw_pinned w' = mw_pinned w"
    and "am_align (ta_address_manager (mw_alloc w')) = am_align (ta_address_manager (mw_alloc w))"
    and "am_size (ta_address_manager (mw_alloc w')) = am_size (ta_address_manager (mw_alloc w))"
proof -
  let ?am = "ta_address_manager (mw_alloc w)"
  have "ta_ok w' \<and> mw_pinned w' = mw_pinned w \<and> am_align (ta_address_manager (mw_alloc w')) = am_align ?am \<and>
    am_size (ta_address_manager (mw_alloc w')) = am_size ?am"
    using r n(1)
  proof (cases rule: ta_allocate_cases)
    case full
    with ok show ?thesis by simp
  next
    case (fresh am' a m ob shape dtype)
    have live: "am_live_ok (?am, live_blocks (mw_heap w))" using ok by (simp add: ta_ok_def)
    note k = am_live_allocate [OF S live n(2) fresh(1)]
    have ob: "obj_block ob = (a, m)" using fresh(5) by simp
    have "live_blocks (mw_heap w') = live_blocks (mw_heap w) @ [(a, m)]"
      using fresh(3) ob by (simp add: fresh(7) live_blocks_def)
    moreover have "am_live_ok (am', live_blocks (mw_heap w) @ [(a, m)])"
      using k(1) am_live_ok_perm [of "live_blocks (mw_heap w) @ [(a, m)]" "(a, m) # live_blocks (mw_heap w)"] by simp
    moreover have "tm_raw_data ob = (fst (ta_buffer (mw_alloc w)) + a, n)"
      unfolding fresh(6) using T k n(2) ok by (intro slice_in_buffer) (simp_all add: ta_ok_def)
    then have "view_ok (ta_buffer (mw_alloc w)) ob"
      using k(5) n(2) fresh(5) by (simp add: view_ok_def fresh_metadata_def)
    ultimately show ?thesis
      using ok k(2,3) by (auto simp: ta_ok_def fresh(7))
  qed
  then show "ta_ok w'" "mw_pinned w' = mw_pinned w"
    "am_align (ta_address_manager (mw_alloc w')) = am_align ?am"
    "am_size (ta_address_manager (mw_alloc w')) = am_size ?am" by blast+
qed

lemma compute_aligned_size_id:
  assumes "am_wf am" and "am_align am dvd x"
  shows "compute_aligned_size am x = x"
proof -
  note b = compute_aligned_size_bounds [OF assms(1), of x]
  have "am_align am dvd compute_aligned_size am x - x" using b(3) assms(2) by simp
  moreover have "0 \<le> compute_aligned_size am x - x" "compute_aligned_size am x - x < am_align am"
    using b(1,2) by simp_all
  ultimately show ?thesis by (metis diff_gt_0_iff_gt eq_iff_diff_eq_0 less_le_not_le zdvd_not_zless order.order_iff_strict)
qed

lemma batch_objects_fields:
  assumes "batch_objects T raws start unit fmt shapes dtypes = Inr obs"
  shows "length obs = length raws \<and>
     (\<forall>k < length raws. tm_raw_data (obs ! k) = raws ! k \<and> tm_valid (obs ! k) \<and> tm_has_parent (obs ! k) \<and>
        md_address (tm_meta (obs ! k)) = start + int k * unit \<and> md_phy_size (tm_meta (obs ! k)) = unit \<and>
        md_ref_count (tm_meta (obs ! k)) = 1 \<and> md_pin_count (tm_meta (obs ! k)) = 0)"
  using assms
proof (induction T raws start unit fmt shapes dtypes arbitrary: obs rule: batch_objects.induct)
  case (2 T raw raws start unit fmt shapes dtypes)
  from 2(2) obtain shape dtype ob obs' where
    h: "py_nth shapes 0 = Inr shape" "py_nth dtypes 0 = Inr dtype"
    and ob: "TensorMemoryObj_init T raw (fresh_metadata shape dtype start unit fmt shapes dtypes) True = Inr ob"
    and obs': "batch_objects T raws (start + unit) unit fmt shapes dtypes = Inr obs'" and obs: "obs = ob # obs'"
    by auto
  note ih = 2(1) [OF obs']
  show ?case
    using ih tm_init_fields [OF ob]
    by (auto simp: obs nth_Cons fresh_metadata_def algebra_simps split: nat.splits)
qed simp

lemma batch_blocks:
  assumes "batch_objects T raws start unit fmt shapes dtypes = Inr obs"
  shows "live_blocks obs = map (\<lambda>i. (start + int i * unit, unit)) [0..<length raws]"
proof -
  note f = batch_objects_fields [OF assms]
  have "filter tm_valid obs = obs" using f by (auto simp: filter_id_conv in_set_conv_nth)
  moreover have "map obj_block obs = map (\<lambda>i. (start + int i * unit, unit)) [0..<length raws]"
    using f by (intro nth_equalityI) (auto simp: obj_block_def)
  ultimately show ?thesis by (simp add: live_blocks_def)
qed

lemma ta_batched_allocate_cases:
  assumes "TensorMemoryAllocator_batched_allocate S T w shapes dtypes b fmt = Inr (w', r)"
    and "get_size_bytes T (as_many shapes) (as_many dtypes) = Inr n"
    and "unit = compute_aligned_size (ta_address_manager (mw_alloc w)) n"
  obtains (full) "w' = w" "r = None"
  | (fresh) am' a m obs
    where "AddressManager_allocate S (ta_address_manager (mw_alloc w)) (unit * b) = Inr (am', a, m)"
      "r = Some [length (mw_heap w)..<length (mw_heap w) + length obs]"
      "batch_objects T (torch_chunk T (torch_slice T (ta_buffer (mw_alloc w)) a (a + unit * b)) b)
         a unit fmt (as_many shapes) (as_many dtypes) = Inr obs"
      "w' = w\<lparr>mw_alloc := (mw_alloc w)\<lparr>ta_address_manager := am',
                 ta_num_active_allocations := ta_num_active_allocations (mw_alloc w) + b\<rparr>,
              mw_heap := mw_heap w @ obs\<rparr>"
proof (cases "AddressManager_allocate S (ta_address_manager (mw_alloc w)) (unit * b)")
  case (Inl e)
  with assms show thesis
    by (intro full) (auto simp: TensorMemoryAllocator_batched_allocate_def adapt_shapes_and_dtypes_def Let_def split: if_splits)
next
  case (Inr t)
  obtain am' a m where t: "t = (am', a, m)" by (cases t)
  from assms Inr t obtain obs where
    "batch_objects T (torch_chunk T (torch_slice T (ta_buffer (mw_alloc w)) a (a + unit * b)) b)
         a unit fmt (as_many shapes) (as_many dtypes) = Inr obs"
    "r = Some [length (mw_heap w)..<length (mw_heap w) + length obs]"
    "w' = w\<lparr>mw_alloc := (mw_alloc w)\<lparr>ta_address_manager := am',
               ta_num_active_allocations := ta_num_active_allocations (mw_alloc w) + b\<rparr>,
            mw_heap := mw_heap w @ obs\<rparr>"
    by (auto simp: TensorMemoryAllocator_batched_allocate_def adapt_shapes_and_dtypes_def Let_def split: if_splits)
  with Inr t show thesis by (intro fresh) simp_all
qed

lemma ta_batched_allocate_ok:
  assumes S: "SortedList_documented S" and T: "Torch_documented T" and ok: "ta_ok w"
    and r: "TensorMemoryAllocator_batched_allocate S T w shapes dtypes b fmt = Inr (w', r)"
    and n: "get_size_bytes T (as_many shapes) (as_many dtypes) = Inr n" "0 < n" and b: "0 < b"
  shows "ta_ok w'" and "mw_pinned w' = mw_pinned w" and "r = Some ids \<Longrightarrow> length ids = nat b"
proof -
  let ?am = "ta_address_manager (mw_alloc w)" and ?buf = "ta_buffer (mw_alloc w)"
  define unit where "unit = compute_aligned_size ?am n"
  have live: "am_live_ok (?am, live_blocks (mw_heap w))" and wf: "am_wf ?am"
    using ok by (simp_all add: ta_ok_def am_live_ok_def)
  have u: "0 < unit" "am_align ?am dvd unit"
    using compute_aligned_size_bounds [OF wf, of n] n(2) by (simp_all add: unit_def)
  have "ta_ok w' \<and> mw_pinned w' = mw_pinned w \<and> (r = Some ids \<longrightarrow> length ids = nat b)"
    using r n(1) unit_def
  proof (cases rule: ta_batched_allocate_cases)
    case full
    with ok show ?thesis by simp
  next
    case (fresh am' a m obs)
    have ub: "0 < unit * b" using u(1) b by simp
    note k = am_live_allocate [OF S live ub fresh(1)]
    have m: "m = unit * b" using k(4) compute_aligned_size_id [OF wf, of "unit * b"] u(2) by simp
    have "torch_slice T ?buf a (a + unit * b) = (fst ?buf + a, unit * b)"
      using T k m ub ok by (intro slice_in_buffer) (simp_all add: ta_ok_def)
    then have raws: "torch_chunk T (torch_slice T ?buf a (a + unit * b)) b
        = map (\<lambda>i. (fst ?buf + a + int i * unit, unit)) [0..<nat b]"
      using T u(1) b by (simp add: Torch_documented_def)
    note f = batch_objects_fields [OF fresh(3)] and lb = batch_blocks [OF fresh(3)]
    have len: "length obs = nat b" using f by (simp add: raws)
    have "am_live_ok (am', map (\<lambda>i. (a + int i * unit, unit)) [0..<nat b] @ live_blocks (mw_heap w))"
      using k(1,3) u b by (intro am_live_ok_chunks) (simp_all add: m mult.commute)
    then have "am_live_ok (am', live_blocks (mw_heap w @ obs))"
      using am_live_ok_perm [of "live_blocks (mw_heap w @ obs)"
          "map (\<lambda>i. (a + int i * unit, unit)) [0..<nat b] @ live_blocks (mw_heap w)" am']
      by (simp add: lb raws)
    moreover have "\<forall>ob \<in> set obs. view_ok ?buf ob"
      using f u(1) by (auto simp: in_set_conv_nth raws view_ok_def)
    ultimately show ?thesis
      using ok k(2) b len by (auto simp: ta_ok_def fresh(2,4) lb raws)
  qed
  then show "ta_ok w'" "mw_pinned w' = mw_pinned w" "r = Some ids \<Longrightarrow> length ids = nat b" by blast+
qed

section \<open>Freeing a batch\<close>

abbreviation invalidate_at :: "mem_id \<Rightarrow> TensorMemoryObj list \<Rightarrow> TensorMemoryObj list" where
  "invalidate_at i heap \<equiv> heap[i := invalidate (heap ! i)]"

lemma invalidate_fold_length [simp]: "length (fold invalidate_at ids heap) = length heap"
  by (induction ids arbitrary: heap) simp_all

lemma invalidate_twice [simp]: "invalidate (invalidate ob) = invalidate ob"
  by (simp add: invalidate_def)

lemma invalidate_invalid: "\<not> tm_valid ob \<Longrightarrow> invalidate ob = ob"
  by (simp add: invalidate_def)

lemma invalidate_at_nth:
  "j < length heap \<Longrightarrow> invalidate_at i heap ! j = (if j = i then invalidate (heap ! j) else heap ! j)"
  by (cases "j = i") simp_all

lemma invalidate_fold_nth:
  assumes "j < length heap"
  shows "fold invalidate_at ids heap ! j = (if j \<in> set ids then invalidate (heap ! j) else heap ! j)"
  using assms by (induction ids arbitrary: heap) (auto simp: invalidate_at_nth)

lemma invalidate_fold_cong:
  "set is = set js \<Longrightarrow> fold invalidate_at is heap = fold invalidate_at js heap"
  by (intro nth_equalityI) (simp_all add: invalidate_fold_nth)

abbreviation blk :: "int \<times> int \<times> int \<Rightarrow> int \<times> int" where
  "blk b \<equiv> (fst b, fst (snd b))"

abbreviation opt_to_list :: "'a option \<Rightarrow> 'a list" where
  "opt_to_list x \<equiv> (case x of None \<Rightarrow> [] | Some y \<Rightarrow> [y])"

text \<open>
  The invariant of the loop: the closed blocks, the open block and the objects that are still
  valid are together the live blocks; counts account for the objects taken so far.
\<close>

lemma coalesce_objects_ok:
  assumes "coalesce_objects w blocks cur ids = (w', bs)" and "\<forall>i \<in> set ids. i < length (mw_heap w)"
    and "am_live_ok (am, map blk (blocks @ opt_to_list cur) @ live_blocks (mw_heap w))"
  shows "w' = w\<lparr>mw_heap := fold invalidate_at ids (mw_heap w)\<rparr> \<and>
    am_live_ok (am, map blk bs @ live_blocks (mw_heap w')) \<and>
    sum_list (map (\<lambda>b. snd (snd b)) bs) =
      sum_list (map (\<lambda>b. snd (snd b)) (blocks @ opt_to_list cur)) +
      int (length (live_blocks (mw_heap w))) - int (length (live_blocks (mw_heap w')))"
  using assms
proof (induction w blocks cur ids arbitrary: w' bs rule: coalesce_objects.induct)
  case (1 w blocks cur)
  then show ?case by auto
next
  case (2 w blocks cur i "is")
  let ?h = "mw_heap w" and ?ob = "mw_heap w ! i"
  from 2(6) have i: "i < length ?h" and rest: "\<forall>j \<in> set is. j < length ?h" by simp_all
  show ?case
  proof (cases "tm_valid ?ob")
    case False
    with 2(1) [OF _ _ rest 2(7)] 2(5) show ?thesis by (auto simp: invalidate_invalid)
  next
    case True
    let ?w = "upd_obj invalidate w i" and ?m = "tm_meta ?ob"
    let ?n = "(md_address ?m, md_phy_size ?m, 1 :: int)"
    have rest': "\<forall>j \<in> set is. j < length (mw_heap ?w)" using rest by simp
    note lb = live_blocks_invalidate [OF i True]
    have len: "length (live_blocks ?h) = Suc (length (live_blocks (mw_heap ?w)))"
      using arg_cong [OF lb, of size] by simp
    have w: "?w\<lparr>mw_heap := x\<rparr> = w\<lparr>mw_heap := x\<rparr>" for x by (simp add: upd_obj_def)
    have ok: "am_live_ok (am, blk ?n # map blk (blocks @ opt_to_list cur) @ live_blocks (mw_heap ?w))"
      using 2(7) by (subst (asm) am_live_ok_perm) (simp_all add: lb obj_block_def)
    show ?thesis
    proof (cases cur)
      case None
      have "am_live_ok (am, map blk (blocks @ opt_to_list (Some ?n)) @ live_blocks (mw_heap ?w))"
        using ok by (subst am_live_ok_perm) (simp_all add: None)
      with 2(2) [OF _ refl refl None _ rest'] 2(5) True len w show ?thesis
        by (auto simp: None Let_def)
    next
      case (Some c)
      obtain a n k where c: "c = (a, n, k)" by (cases c)
      show ?thesis
      proof (cases "a + n = md_address ?m")
        case adj: True
        have "am_live_ok (am, (a, n) # (a + n, md_phy_size ?m) # map blk blocks @ live_blocks (mw_heap ?w))"
          using ok by (subst am_live_ok_perm) (simp_all add: Some c adj)
        from am_live_ok_merge [OF this]
        have "am_live_ok (am, map blk (blocks @ opt_to_list (Some (a, n + md_phy_size ?m, k + 1))) @ live_blocks (mw_heap ?w))"
          by (subst am_live_ok_perm) simp_all
        with 2(3) [OF _ refl refl Some c [symmetric] refl adj _ rest'] 2(5) True len w adj show ?thesis
          by (auto simp: Some c Let_def)
      next
        case False
        have "am_live_ok (am, map blk ((blocks @ [(a, n, k)]) @ opt_to_list (Some ?n)) @ live_blocks (mw_heap ?w))"
          using ok by (subst am_live_ok_perm) (simp_all add: Some c)
        with 2(4) [OF _ refl refl Some c [symmetric] refl False _ rest'] 2(5) True len w False show ?thesis
          by (auto simp: Some c Let_def)
      qed
    qed
  qed
qed

lemma free_blocks_ok:
  assumes S: "SortedList_documented S" and "am_live_ok (am, map blk bs @ live)"
  defines "am' \<equiv> fold (\<lambda>(address, sz, count) am. AddressManager_free S am address sz) bs am"
  shows "am_live_ok (am', live)" and "am_size am' = am_size am" and "am_align am' = am_align am"
proof -
  have "am_live_ok (am', live) \<and> am_size am' = am_size am \<and> am_align am' = am_align am"
    using assms(2) unfolding am'_def
  proof (induction bs arbitrary: am)
    case (Cons b bs)
    obtain a n c where b: "b = (a, n, c)" by (cases b)
    note k = am_live_free_hd [OF S, of am a n "map blk bs @ live"]
    from Cons.IH [OF k(1)] k(2,3) Cons.prems show ?case by (simp add: b)
  qed simp
  then show "am_live_ok (am', live)" "am_size am' = am_size am" "am_align am' = am_align am" by blast+
qed

lemma fold_free_ok:
  assumes S: "SortedList_documented S" and "ta_ok w" and "\<forall>i \<in> set ids. i < length (mw_heap w)"
  defines "w' \<equiv> fold (\<lambda>i w. TensorMemoryAllocator_free S w i) ids w"
  shows "ta_ok w'" and "mw_heap w' = fold invalidate_at ids (mw_heap w)"
    and "am_size (ta_address_manager (mw_alloc w')) = am_size (ta_address_manager (mw_alloc w))"
    and "am_align (ta_address_manager (mw_alloc w')) = am_align (ta_address_manager (mw_alloc w))"
    and "ta_buffer (mw_alloc w') = ta_buffer (mw_alloc w)" and "mw_pinned w' = mw_pinned w"
proof -
  have "ta_ok w' \<and> mw_heap w' = fold invalidate_at ids (mw_heap w) \<and>
    am_size (ta_address_manager (mw_alloc w')) = am_size (ta_address_manager (mw_alloc w)) \<and>
    am_align (ta_address_manager (mw_alloc w')) = am_align (ta_address_manager (mw_alloc w)) \<and>
    ta_buffer (mw_alloc w') = ta_buffer (mw_alloc w) \<and> mw_pinned w' = mw_pinned w"
    using assms(2,3) unfolding w'_def
  proof (induction ids arbitrary: w)
    case (Cons i ids)
    let ?w = "TensorMemoryAllocator_free S w i"
    have i: "i < length (mw_heap w)" using Cons.prems by simp
    note k = ta_free_ok [OF S Cons.prems(1) i]
    have h: "mw_heap ?w = invalidate_at i (mw_heap w)" "mw_pinned ?w = mw_pinned w"
      by (simp_all add: TensorMemoryAllocator_free_def Let_def invalidate_invalid upd_obj_def)
    have "\<forall>j \<in> set ids. j < length (mw_heap ?w)" using Cons.prems by (simp add: h)
    from Cons.IH [OF k(1) this] k show ?case by (simp add: h)
  qed simp
  then show "ta_ok w'" "mw_heap w' = fold invalidate_at ids (mw_heap w)"
    "am_size (ta_address_manager (mw_alloc w')) = am_size (ta_address_manager (mw_alloc w))"
    "am_align (ta_address_manager (mw_alloc w')) = am_align (ta_address_manager (mw_alloc w))"
    "ta_buffer (mw_alloc w') = ta_buffer (mw_alloc w)" "mw_pinned w' = mw_pinned w" by blast+
qed

lemma ta_batched_free_ok:
  assumes S: "SortedList_documented S" and ok: "ta_ok w" and ids: "\<forall>i \<in> set ids. i < length (mw_heap w)"
  defines "w' \<equiv> TensorMemoryAllocator_batched_free S w ids"
  shows "ta_ok w'" and "mw_heap w' = fold invalidate_at ids (mw_heap w)"
    and "am_size (ta_address_manager (mw_alloc w')) = am_size (ta_address_manager (mw_alloc w))"
    and "am_align (ta_address_manager (mw_alloc w')) = am_align (ta_address_manager (mw_alloc w))"
    and "ta_buffer (mw_alloc w') = ta_buffer (mw_alloc w)" and "mw_pinned w' = mw_pinned w"
proof -
  let ?am = "ta_address_manager (mw_alloc w)"
  define js where "js = sort_key (\<lambda>i. md_address (tm_meta (mw_heap w ! i))) ids"
  have js: "set js = set ids" by (simp add: js_def)
  obtain v bs where c: "coalesce_objects w [] None js = (v, bs)" by fastforce
  have "am_live_ok (?am, map blk ([] @ opt_to_list None) @ live_blocks (mw_heap w))"
    using ok by (simp add: ta_ok_def)
  from coalesce_objects_ok [OF c _ this] ids js
  have v: "v = w\<lparr>mw_heap := fold invalidate_at js (mw_heap w)\<rparr>"
    and live: "am_live_ok (?am, map blk bs @ live_blocks (mw_heap v))"
    and cnt: "sum_list (map (\<lambda>b. snd (snd b)) bs) =
      int (length (live_blocks (mw_heap w))) - int (length (live_blocks (mw_heap v)))"
    by auto
  have hv: "mw_heap v = fold invalidate_at ids (mw_heap w)"
    using invalidate_fold_cong [OF js] by (simp add: v)
  note f = free_blocks_ok [OF S live]
  have cnt': "sum_list (map (\<lambda>(address, sz, count). count) bs) = sum_list (map (\<lambda>b. snd (snd b)) bs)"
    by (simp add: case_prod_unfold)
  have w': "w' = v\<lparr>mw_alloc := (mw_alloc w)\<lparr>ta_address_manager :=
        fold (\<lambda>(address, sz, count) am. AddressManager_free S am address sz) bs ?am,
      ta_num_active_allocations := ta_num_active_allocations (mw_alloc w) -
        (int (length (live_blocks (mw_heap w))) - int (length (live_blocks (mw_heap v))))\<rparr>\<rparr>"
    using c v by (simp add: w'_def TensorMemoryAllocator_batched_free_def js_def [symmetric] cnt' cnt Let_def)
  have view: "view_ok (ta_buffer (mw_alloc w)) ob" if "ob \<in> set (mw_heap v)" "tm_valid ob" for ob
  proof -
    obtain j where j: "j < length (mw_heap w)" "ob = fold invalidate_at ids (mw_heap w) ! j"
      using \<open>ob \<in> set (mw_heap v)\<close> by (auto simp: hv in_set_conv_nth)
    with that(2) have "ob = mw_heap w ! j" by (auto simp: invalidate_fold_nth split: if_splits)
    with that(2) j(1) ok show ?thesis by (simp add: ta_ok_def)
  qed
  show "ta_ok w'"
    using ok f view by (simp add: ta_ok_def w')
  show "mw_heap w' = fold invalidate_at ids (mw_heap w)"
    "am_size (ta_address_manager (mw_alloc w')) = am_size ?am"
    "am_align (ta_address_manager (mw_alloc w')) = am_align ?am"
    "ta_buffer (mw_alloc w') = ta_buffer (mw_alloc w)" "mw_pinned w' = mw_pinned w"
    using f hv by (simp_all add: w') (simp_all add: v)
qed

section \<open>The allocator owns its objects\<close>

lemma counts_invalidate [simp]:
  "map (\<lambda>ob. (md_ref_count (tm_meta ob), md_pin_count (tm_meta ob), tm_has_parent ob)) (invalidate_at i heap) =
   map (\<lambda>ob. (md_ref_count (tm_meta ob), md_pin_count (tm_meta ob), tm_has_parent ob)) heap"
  by (intro nth_equalityI) (simp_all add: invalidate_at_nth)

interpretation ta: object_owner "TensorMemoryAllocator_free S" for S
proof (unfold_locales, goal_cases)
  case (1 i w)
  then show ?case
    by (cases "tm_valid (mw_heap w ! i)")
      (simp_all add: frees_only_def free_valid_eq counts_def, simp add: TensorMemoryAllocator_free_def)
qed

lemma ta_ok_cong:
  assumes "length (mw_heap w') = length (mw_heap w)" and "mw_alloc w' = mw_alloc w"
    and "\<And>j. j < length (mw_heap w) \<Longrightarrow>
      tm_valid (mw_heap w' ! j) = tm_valid (mw_heap w ! j) \<and> tm_raw_data (mw_heap w' ! j) = tm_raw_data (mw_heap w ! j) \<and>
      obj_block (mw_heap w' ! j) = obj_block (mw_heap w ! j)"
  shows "ta_ok w' = ta_ok w"
proof -
  let ?key = "\<lambda>ob. (tm_valid ob, tm_raw_data ob, obj_block ob)"
  have eq: "map ?key (mw_heap w') = map ?key (mw_heap w)"
    using assms(1,3) by (intro nth_equalityI) simp_all
  have "live_blocks heap = map (\<lambda>k. snd (snd k)) (filter fst (map ?key heap))" for heap
    by (induction heap) (simp_all add: live_blocks_def)
  then have lb: "live_blocks (mw_heap w') = live_blocks (mw_heap w)" by (simp only: eq)
  have "view_ok b ob = (case ?key ob of (v, r, k) \<Rightarrow> fst r = fst b + fst k \<and> 0 \<le> snd r \<and> snd r \<le> snd k)" for b ob
    by (simp add: view_ok_def obj_block_def)
  then have views: "(\<forall>ob \<in> set heap. tm_valid ob \<longrightarrow> view_ok b ob) \<longleftrightarrow>
      (\<forall>k \<in> set (map ?key heap). fst k \<longrightarrow> (case k of (v, r, k) \<Rightarrow> fst r = fst b + fst k \<and> 0 \<le> snd r \<and> snd r \<le> snd k))"
    for b and heap :: "TensorMemoryObj list" by simp
  show ?thesis by (simp only: ta_ok_def assms(2) lb views eq)
qed

lemma ta_ok_upd_meta:
  assumes "\<And>m. md_address (f m) = md_address m" and "\<And>m. md_phy_size (f m) = md_phy_size m"
  shows "ta_ok (upd_meta f w i) = ta_ok w"
proof (rule ta_ok_cong)
  fix j
  assume "j < length (mw_heap w)"
  then show "tm_valid (mw_heap (upd_meta f w i) ! j) = tm_valid (mw_heap w ! j) \<and>
    tm_raw_data (mw_heap (upd_meta f w i) ! j) = tm_raw_data (mw_heap w ! j) \<and>
    obj_block (mw_heap (upd_meta f w i) ! j) = obj_block (mw_heap w ! j)"
    using assms by (cases "j = i") (simp_all add: obj_block_def)
qed simp_all

lemma ta_ok_pinned [simp]: "ta_ok (w\<lparr>mw_pinned := p\<rparr>) = ta_ok w"
  by (simp add: ta_ok_def)

lemma ta_ok_on_unpin [simp]: "ta_ok (on_unpin w i) = ta_ok w"
  by (simp add: on_unpin_def)

lemma ta_ref_count_up_ok: "ta_ok w \<Longrightarrow> ta_ok (ref_count_up w i)"
  by (simp add: ref_count_up_def ta_ok_upd_meta)

lemma ta_pin_ok: "ta_ok w \<Longrightarrow> ta_ok (fst (TensorMemoryObj_pin now w i))"
  by (simp add: TensorMemoryObj_pin_def on_pin_def ta_ok_upd_meta)

lemma ta_ref_count_down_ok:
  assumes "SortedList_documented S" and "ta_ok w" and "i < length (mw_heap w)"
  shows "ta_ok (ref_count_down (TensorMemoryAllocator_free S) w i)"
  using assms by (simp add: ref_count_down_eq Let_def ta_free_ok(1) ta_ok_upd_meta)

lemma ta_unpin_ok:
  assumes "SortedList_documented S" and "ta_ok w" and "i < length (mw_heap w)"
  shows "ta_ok (fst (TensorMemoryObj_unpin (TensorMemoryAllocator_free S) w i))"
proof -
  let ?w1 = "upd_meta (\<lambda>m. m\<lparr>md_pin_count := md_pin_count m - 1\<rparr>) w i"
  define w2 where "w2 = (if pin_count_of ?w1 i = 0 then on_unpin ?w1 i else ?w1)"
  have "ta_ok w2" "i < length (mw_heap w2)" using assms(2,3) by (simp_all add: w2_def ta_ok_upd_meta)
  then show ?thesis
    using assms(1) by (simp add: TensorMemoryObj_unpin_def Let_def w2_def [symmetric] ta_ok_upd_meta ta_free_ok(1))
qed

lemma ta_unpin_loop_ok:
  assumes "SortedList_documented S" and "ta_ok w" and "i < length (mw_heap w)"
    and "unpin_loop (TensorMemoryAllocator_free S) n w i = Some w'"
  shows "ta_ok w' \<and> length (mw_heap w') = length (mw_heap w)"
  using assms(2-4)
proof (induction n arbitrary: w)
  case (Suc n)
  let ?v = "fst (TensorMemoryObj_unpin (TensorMemoryAllocator_free S) w i)"
  have "ta_ok ?v" "length (mw_heap ?v) = length (mw_heap w)"
    using Suc.prems ta_unpin_ok [OF assms(1)] ta.unpin_counts(3) by auto
  with Suc.IH [of ?v] Suc.prems show ?case by (auto split: if_splits)
qed (auto split: if_splits)

lemma ta_force_unpin_all_ok:
  assumes "SortedList_documented S" and "ta_ok w" and "\<forall>i \<in> set is. i < length (mw_heap w)"
    and "force_unpin_all (TensorMemoryAllocator_free S) is w = Some w'"
  shows "ta_ok w'"
  using assms(2-4)
proof (induction "is" arbitrary: w)
  case (Cons i "is")
  from Cons.prems(3) obtain v where v: "force_unpin_timeout_object (TensorMemoryAllocator_free S) w i = Some v"
    "force_unpin_all (TensorMemoryAllocator_free S) is v = Some w'" by (auto split: option.splits)
  have "ta_ok v \<and> length (mw_heap v) = length (mw_heap w)"
  proof (cases "pin_count_of w i \<le> 0")
    case True
    with v(1) Cons.prems(1) show ?thesis by (simp add: force_unpin_timeout_object_def)
  next
    case False
    have i: "i < length (mw_heap w)" using Cons.prems(2) by simp
    from False v(1) have "unpin_loop (TensorMemoryAllocator_free S) (nat (pin_count_of w i)) w i = Some v"
      by (simp add: force_unpin_timeout_object_def)
    then show ?thesis by (rule ta_unpin_loop_ok [OF assms(1) Cons.prems(1) i])
  qed
  with Cons.IH [of v] Cons.prems(2) v(2) show ?case by simp
qed simp

section \<open>Histories\<close>

datatype ta_op =
    OpAllocate "torch_size one_or_list" "torch_dtype one_or_list" MemoryFormat
  | OpBatchedAllocate "torch_size one_or_list" "torch_dtype one_or_list" int MemoryFormat
  | OpRefUp mem_id
  | OpRefDown mem_id
  | OpPin int mem_id
  | OpUnpin mem_id
  | OpFree mem_id
  | OpBatchedFree "mem_id list"
  | OpDel mem_id
  | OpCheckTimeouts int int

text \<open>
  One call by a client. A call that raises leaves the world as it was, and object ids that
  were never handed out are not used.
\<close>

fun ta_step :: "SortedList_ops \<Rightarrow> Torch \<Rightarrow> ta_op \<Rightarrow> ta_world \<Rightarrow> ta_world" where
  "ta_step S T (OpAllocate shapes dtypes fmt) w =
     (case TensorMemoryAllocator_allocate S T w shapes dtypes fmt of Inl _ \<Rightarrow> w | Inr (w', _) \<Rightarrow> w')"
| "ta_step S T (OpBatchedAllocate shapes dtypes b fmt) w =
     (case TensorMemoryAllocator_batched_allocate S T w shapes dtypes b fmt of Inl _ \<Rightarrow> w | Inr (w', _) \<Rightarrow> w')"
| "ta_step S T (OpRefUp i) w = (if i < length (mw_heap w) then ref_count_up w i else w)"
| "ta_step S T (OpRefDown i) w =
     (if i < length (mw_heap w) then ref_count_down (TensorMemoryAllocator_free S) w i else w)"
| "ta_step S T (OpPin now i) w = (if i < length (mw_heap w) then fst (TensorMemoryObj_pin now w i) else w)"
| "ta_step S T (OpUnpin i) w =
     (if i < length (mw_heap w) then fst (TensorMemoryObj_unpin (TensorMemoryAllocator_free S) w i) else w)"
| "ta_step S T (OpFree i) w = (if i < length (mw_heap w) then TensorMemoryAllocator_free S w i else w)"
| "ta_step S T (OpBatchedFree ids) w =
     (if list_all (\<lambda>i. i < length (mw_heap w)) ids then TensorMemoryAllocator_batched_free S w ids else w)"
| "ta_step S T (OpDel i) w =
     (if i < length (mw_heap w) then TensorMemoryObj_del (TensorMemoryAllocator_free S) w i else w)"
| "ta_step S T (OpCheckTimeouts now timeout) w =
     (case check_timeouts (TensorMemoryAllocator_free S) now timeout w of None \<Rightarrow> w | Some (w', _) \<Rightarrow> w')"

text \<open>Requests ask for at least one byte, and batches for at least one object.\<close>

fun ta_op_ok :: "Torch \<Rightarrow> ta_op \<Rightarrow> bool" where
  "ta_op_ok T (OpAllocate shapes dtypes fmt) =
     (case get_size_bytes T (as_many shapes) (as_many dtypes) of Inl _ \<Rightarrow> False | Inr n \<Rightarrow> 0 < n)"
| "ta_op_ok T (OpBatchedAllocate shapes dtypes b fmt) =
     ((case get_size_bytes T (as_many shapes) (as_many dtypes) of Inl _ \<Rightarrow> False | Inr n \<Rightarrow> 0 < n) \<and> 0 < b)"
| "ta_op_ok T _ = True"

lemma positive_append:
  assumes "\<forall>c \<in> set cs. g c = (0 :: int)"
  shows "{i. i < length (xs @ cs) \<and> 0 < g ((xs @ cs) ! i)} = {i. i < length xs \<and> 0 < g (xs ! i)}"
proof (rule set_eqI, simp only: mem_Collect_eq)
  fix i
  have "g (cs ! (i - length xs)) = 0" if "\<not> i < length xs" "i < length (xs @ cs)"
    using that assms by (simp add: not_less)
  then show "i < length (xs @ cs) \<and> 0 < g ((xs @ cs) ! i) \<longleftrightarrow> i < length xs \<and> 0 < g (xs ! i)"
    by (auto simp: nth_append split: if_splits)
qed

lemma pins_tracked_append:
  assumes "pins_tracked w" and "counts w' = counts w @ cs" and "mw_pinned w' = mw_pinned w"
    and "\<forall>c \<in> set cs. fst (snd c) = 0 \<and> 0 \<le> fst c"
  shows "pins_tracked w'"
proof -
  have "{i. i < length (counts w') \<and> 0 < fst (snd (counts w' ! i))} =
      {i. i < length (counts w) \<and> 0 < fst (snd (counts w ! i))}"
    unfolding assms(2) using assms(4) by (intro positive_append) blast
  moreover have "\<forall>i < length (counts w'). 0 \<le> fst (counts w' ! i) \<and> 0 \<le> fst (snd (counts w' ! i))"
  proof -
    have "\<forall>c \<in> set (counts w). 0 \<le> fst c \<and> 0 \<le> fst (snd c)"
      using assms(1) unfolding all_set_conv_all_nth pins_tracked_counts by blast
    then have "\<forall>c \<in> set (counts w'). 0 \<le> fst c \<and> 0 \<le> fst (snd c)"
      using assms(4) by (auto simp: assms(2))
    then show ?thesis by (simp only: all_set_conv_all_nth)
  qed
  ultimately show ?thesis using assms(1,3) unfolding pins_tracked_counts by argo
qed

lemma ta_allocate_tracked:
  assumes "pins_tracked w" and r: "TensorMemoryAllocator_allocate S T w shapes dtypes fmt = Inr (w', r)"
    and n: "get_size_bytes T (as_many shapes) (as_many dtypes) = Inr n"
  shows "pins_tracked w'"
  using r n
proof (cases rule: ta_allocate_cases)
  case full
  with assms show ?thesis by simp
next
  case (fresh am' a m ob shape dtype)
  have "counts w' = counts w @ [(1, 0, True)]"
    using fresh(4,5) by (simp add: fresh(7) counts_def fresh_metadata_def)
  moreover have "mw_pinned w' = mw_pinned w" by (simp add: fresh(7))
  ultimately show ?thesis by (rule pins_tracked_append [OF assms(1)]) simp
qed

lemma ta_batched_allocate_tracked:
  assumes "pins_tracked w" and r: "TensorMemoryAllocator_batched_allocate S T w shapes dtypes b fmt = Inr (w', r)"
    and n: "get_size_bytes T (as_many shapes) (as_many dtypes) = Inr n"
  shows "pins_tracked w'"
  using r n refl
proof (cases rule: ta_batched_allocate_cases)
  case full
  with assms show ?thesis by simp
next
  case (fresh am' a m obs)
  note f = batch_objects_fields [OF fresh(3)]
  have "counts w' = counts w @ map (\<lambda>ob. (md_ref_count (tm_meta ob), md_pin_count (tm_meta ob), tm_has_parent ob)) obs"
    by (simp add: fresh(4) counts_def)
  moreover have "mw_pinned w' = mw_pinned w" by (simp add: fresh(4))
  ultimately show ?thesis
    by (rule pins_tracked_append [OF assms(1)]) (use f in \<open>auto simp: in_set_conv_nth\<close>)
qed

lemma pins_tracked_same: "counts w' = counts w \<Longrightarrow> mw_pinned w' = mw_pinned w \<Longrightarrow> pins_tracked w' = pins_tracked w"
  by (simp add: pins_tracked_counts)

lemma counts_invalidate_fold [simp]:
  "map (\<lambda>ob. (md_ref_count (tm_meta ob), md_pin_count (tm_meta ob), tm_has_parent ob)) (fold invalidate_at ids heap) =
   map (\<lambda>ob. (md_ref_count (tm_meta ob), md_pin_count (tm_meta ob), tm_has_parent ob)) heap"
  by (induction ids arbitrary: heap) (simp_all only: fold_simps counts_invalidate)

lemma ta_step_ok:
  assumes S: "SortedList_documented S" and T: "Torch_documented T" and op: "ta_op_ok T op"
    and ok: "ta_ok w" and tr: "pins_tracked w"
  shows "ta_ok (ta_step S T op w) \<and> pins_tracked (ta_step S T op w)"
proof (cases op)
  case (OpAllocate shapes dtypes fmt)
  then obtain n where n: "get_size_bytes T (as_many shapes) (as_many dtypes) = Inr n" "0 < n"
    using op by (auto split: sum.splits)
  show ?thesis
    using ok tr ta_allocate_ok(1) [OF S T ok _ n] ta_allocate_tracked [OF tr _ n(1)]
    by (simp add: OpAllocate split: sum.split)
next
  case (OpBatchedAllocate shapes dtypes b fmt)
  then obtain n where n: "get_size_bytes T (as_many shapes) (as_many dtypes) = Inr n" "0 < n" "0 < b"
    using op by (auto split: sum.splits)
  show ?thesis
    using ok tr ta_batched_allocate_ok(1) [OF S T ok _ n] ta_batched_allocate_tracked [OF tr _ n(1)]
    by (simp add: OpBatchedAllocate split: sum.split)
next
  case (OpRefUp i)
  have "pins_tracked (ref_count_up w i)" if "i < length (mw_heap w)"
    using tr that by (auto simp: pins_tracked_counts ref_count_up_def counts_upd_meta nth_list_update split: if_splits)
  then show ?thesis using ok tr by (simp add: OpRefUp ta_ref_count_up_ok)
next
  case (OpRefDown i)
  then show ?thesis using S ok tr by (simp add: ta_ref_count_down_ok ta.ref_count_down_tracked)
next
  case (OpPin now i)
  then show ?thesis using ok tr by (simp add: ta_pin_ok pin_tracked)
next
  case (OpUnpin i)
  then show ?thesis using S ok tr by (simp add: ta_unpin_ok ta.unpin_tracked)
next
  case (OpFree i)
  then show ?thesis
    using S ok tr by (simp add: ta_free_ok(1) pins_tracked_same [OF ta.free_simps(1,2)])
next
  case (OpBatchedFree ids)
  then show ?thesis
    using S ok tr pins_tracked_same [of "TensorMemoryAllocator_batched_free S w ids" w] ta_batched_free_ok [OF S ok, of ids]
    by (simp add: list_all_iff counts_def)
next
  case (OpDel i)
  then show ?thesis
    using S ok tr by (simp add: TensorMemoryObj_del_def ta_free_ok(1) pins_tracked_same [OF ta.free_simps(1,2)])
next
  case (OpCheckTimeouts now timeout)
  obtain w' m n where w': "check_timeouts (TensorMemoryAllocator_free S) now timeout w = Some (w', m, n, n)" "pins_tracked w'"
    using ta.check_timeouts_correct [OF tr] by metis
  then have f: "force_unpin_all (TensorMemoryAllocator_free S) (timeout_objects now timeout w) w = Some w'"
    by (auto simp: check_timeouts_def Let_def split: option.splits)
  have "i < length (mw_heap w)" if "i \<in> set (timeout_objects now timeout w)" for i
  proof -
    have "i \<in> fst ` set (mw_pinned w)" using that by (auto simp: timeout_objects_def)
    then show ?thesis using tr by (simp add: pins_tracked_def)
  qed
  with ta_force_unpin_all_ok [OF S ok _ f] w' show ?thesis by (simp add: OpCheckTimeouts)
qed

definition ta_initial :: "SortedList_ops \<Rightarrow> view \<Rightarrow> int \<Rightarrow> ta_world" where
  "ta_initial S buffer align =
     \<lparr>mw_heap = [], mw_alloc = TensorMemoryAllocator_init S buffer align None, mw_pinned = []\<rparr>"

lemma ta_initial_ok:
  assumes "SortedList_documented S" and "0 < snd buffer" and "align = 2 ^ k"
  shows "ta_ok (ta_initial S buffer align)" and "pins_tracked (ta_initial S buffer align)"
  using am_init_live_ok [OF assms]
  by (auto simp: ta_ok_def ta_initial_def TensorMemoryAllocator_init_def live_blocks_def pins_tracked_def)
    (simp add: AddressManager_init_def)

lemma ta_history_ok:
  assumes "SortedList_documented S" and "Torch_documented T" and "\<forall>op \<in> set ops. ta_op_ok T op"
    and "ta_ok w" and "pins_tracked w"
  shows "ta_ok (fold (ta_step S T) ops w) \<and> pins_tracked (fold (ta_step S T) ops w)"
  using assms(3-5)
proof (induction ops arbitrary: w)
  case (Cons op ops)
  then show ?case using ta_step_ok [OF assms(1,2), of op w] by simp
qed simp

lemma sorted_wrt_symD:
  assumes "sorted_wrt P xs" and "i < length xs" and "j < length xs" and "i \<noteq> j" and "\<And>x y. P x y \<Longrightarrow> P y x"
  shows "P (xs ! i) (xs ! j)"
  using assms sorted_wrt_nth_less [OF assms(1)] by (metis nat_neq_iff)

lemma disjoint_filter:
  assumes "sorted_wrt P (filter Q xs)" and "i < length xs" and "j < length xs" and "i < j" and "Q (xs ! i)" and "Q (xs ! j)"
  shows "P (xs ! i) (xs ! j)"
  using assms
proof (induction xs arbitrary: i j)
  case (Cons x xs)
  show ?case
  proof (cases i)
    case 0
    then obtain k where "j = Suc k" using Cons.prems(4) by (cases j) auto
    with 0 Cons.prems show ?thesis by (auto simp: nth_mem)
  next
    case (Suc m)
    then obtain k where "j = Suc k" using Cons.prems(4) by (cases j) auto
    with Suc Cons.prems show ?thesis by (auto intro: Cons.IH split: if_splits)
  qed
qed simp

lemma ta_ok_disjoint:
  assumes ok: "ta_ok w" and i: "i < length (mw_heap w)" and j: "j < length (mw_heap w)" and "i < j"
    and v: "tm_valid (mw_heap w ! i)" "tm_valid (mw_heap w ! j)"
  shows "rng (tm_raw_data (mw_heap w ! i)) \<inter> rng (tm_raw_data (mw_heap w ! j)) = {}"
proof -
  have "sorted_wrt (\<lambda>b c. rng b \<inter> rng c = {}) (map obj_block (filter tm_valid (mw_heap w)))"
    using ok by (simp add: ta_ok_def am_live_ok_def blocks_ok_def live_blocks_def)
  then have "sorted_wrt (\<lambda>x y. rng (obj_block x) \<inter> rng (obj_block y) = {}) (filter tm_valid (mw_heap w))"
    by (simp only: sorted_wrt_map)
  from disjoint_filter [OF this i j \<open>i < j\<close> v]
  have d: "rng (obj_block (mw_heap w ! i)) \<inter> rng (obj_block (mw_heap w ! j)) = {}" .
  define off where "off = fst (ta_buffer (mw_alloc w))"
  have sub: "(\<lambda>x. x - off) ` rng (tm_raw_data (mw_heap w ! k)) \<subseteq> rng (obj_block (mw_heap w ! k))"
    if "k < length (mw_heap w)" "tm_valid (mw_heap w ! k)" for k
  proof -
    have "view_ok (ta_buffer (mw_alloc w)) (mw_heap w ! k)" using ok that by (simp add: ta_ok_def)
    then show ?thesis by (auto simp: view_ok_def obj_block_def addr_range_def off_def)
  qed
  show ?thesis
  proof (rule ccontr)
    assume "\<not> ?thesis"
    then obtain x where "x \<in> rng (tm_raw_data (mw_heap w ! i))" "x \<in> rng (tm_raw_data (mw_heap w ! j))" by blast
    with sub [OF i v(1)] sub [OF j v(2)] d show False by blast
  qed
qed

lemma ta_ok_memcheck: "ta_ok w \<Longrightarrow> TensorMemoryAllocator_memcheck (mw_alloc w)"
  using am_wf_consistent [of "ta_address_manager (mw_alloc w)"]
  by (simp add: ta_ok_def am_live_ok_def TensorMemoryAllocator_memcheck_def get_free_size_def get_heap_size_def)

section \<open>Properties\<close>

text \<open>
  Property C8. Memory safety of the tensor allocator. After any history of allocations, single
  and batched, of reference count changes, pins, unpins, frees, garbage collections and
  timeout checks: no two valid memory objects share a byte of the buffer, the memory check of
  the class passes, and the number of active allocations is the number of valid objects.
\<close>

theorem tensor_allocator_safe:
  assumes "SortedList_documented S" and "Torch_documented T" and "0 < snd buffer" and "align = 2 ^ k"
    and "\<forall>op \<in> set ops. ta_op_ok T op" and "w = fold (ta_step S T) ops (ta_initial S buffer align)"
  shows "(\<forall>i < length (mw_heap w). \<forall>j < length (mw_heap w).
            i \<noteq> j \<and> tm_valid (mw_heap w ! i) \<and> tm_valid (mw_heap w ! j) \<longrightarrow>
            rng (tm_raw_data (mw_heap w ! i)) \<inter> rng (tm_raw_data (mw_heap w ! j)) = {}) \<and>
         TensorMemoryAllocator_memcheck (mw_alloc w) \<and>
         ta_num_active_allocations (mw_alloc w) = int (length (filter tm_valid (mw_heap w)))"
proof -
  have ok: "ta_ok w"
    using ta_history_ok [OF assms(1,2,5) ta_initial_ok [OF assms(1,3,4)]] assms(6) by simp
  have "rng (tm_raw_data (mw_heap w ! i)) \<inter> rng (tm_raw_data (mw_heap w ! j)) = {}"
    if "i < length (mw_heap w)" "j < length (mw_heap w)" "i \<noteq> j" "tm_valid (mw_heap w ! i)" "tm_valid (mw_heap w ! j)" for i j
    using that ta_ok_disjoint [OF ok, of i j] ta_ok_disjoint [OF ok, of j i] by (cases "i < j") (auto simp: Int_commute)
  then show ?thesis using ok ta_ok_memcheck by (simp add: ta_ok_def live_blocks_def)
qed

theorem tensor_allocator_safe_witness:
  "let w = fold (ta_step insertion_list plain_torch)
        [OpAllocate (One [8]) (One ''float16'') KV_2TD, OpBatchedAllocate (One [4]) (One ''float16'') 2 KV_2TD,
         OpPin 0 1, OpRefDown 0, OpAllocate (One [3]) (One ''float16'') KV_2TD]
        (ta_initial insertion_list (0, 256) 64)
   in TensorMemoryAllocator_memcheck (mw_alloc w) \<and> ta_num_active_allocations (mw_alloc w) = 3"
proof -
  let ?ops = "[OpAllocate (One [8]) (One ''float16'') KV_2TD, OpBatchedAllocate (One [4]) (One ''float16'') 2 KV_2TD,
         OpPin 0 1, OpRefDown 0, OpAllocate (One [3]) (One ''float16'') KV_2TD]"
  have "\<forall>op \<in> set ?ops. ta_op_ok plain_torch op" by (simp add: get_size_bytes_def plain_torch_def)
  note tensor_allocator_safe [OF insertion_list_documented plain_torch_documented _ _ this refl, of "(0, 256)" 64 6]
  moreover have "ta_num_active_allocations (mw_alloc (fold (ta_step insertion_list plain_torch) ?ops
      (ta_initial insertion_list (0, 256) 64))) = 3" by code_simp
  ultimately show ?thesis by (simp only: Let_def) simp
qed

text \<open>
  \<^verbatim>\<open>batched_free\<close> sorts the objects, merges neighbours and frees the merged blocks.
  The result is exactly that of freeing the objects one at a time in the given order, objects
  that are listed twice or already invalid included.
\<close>

lemma batched_free_equiv:
  assumes "SortedList_documented S" and "ta_ok w" and "\<forall>i \<in> set ids. i < length (mw_heap w)"
  shows "TensorMemoryAllocator_batched_free S w ids = fold (\<lambda>i w. TensorMemoryAllocator_free S w i) ids w"
    (is "?b = ?f")
proof -
  note b = ta_batched_free_ok [OF assms] and f = fold_free_ok [OF assms]
  have h: "mw_heap ?b = mw_heap ?f" using b(2) f(2) by simp
  have am: "ta_address_manager (mw_alloc ?b) = ta_address_manager (mw_alloc ?f)"
  proof (rule am_live_ok_unique)
    show "am_live_ok (ta_address_manager (mw_alloc ?b), live_blocks (mw_heap ?f))"
      using b(1) by (simp add: ta_ok_def h)
    show "am_live_ok (ta_address_manager (mw_alloc ?f), live_blocks (mw_heap ?f))"
      using f(1) by (simp add: ta_ok_def)
  qed (use b(3,4) f(3,4) in simp_all)
  have "mw_alloc ?b = mw_alloc ?f"
    using b(1,5) f(1,5) h am by (intro TensorMemoryAllocator.equality) (simp_all add: ta_ok_def)
  then show ?thesis using h b(6) f(6) by (intro mem_world.equality) simp_all
qed

text \<open>
  Dropping a reference releases memory exactly when it should: the count goes
  down by one, never below zero, no other object's counts change, and the only object that
  can become invalid is the one whose last reference was dropped while nothing pins it.
\<close>

lemma ref_count_down_exact:
  assumes "i < length (mw_heap w)" and "j < length (mw_heap w)"
    and w'_def: "w' = ref_count_down (TensorMemoryAllocator_free S) w i"
  shows "ref_count_of w' j = (if j = i then max 0 (ref_count_of w i - 1) else ref_count_of w j) \<and>
    pin_count_of w' j = pin_count_of w j \<and>
    (tm_valid (mw_heap w' ! j) \<longleftrightarrow> tm_valid (mw_heap w ! j) \<and>
       \<not> (j = i \<and> ref_count_of w i \<le> 1 \<and> pin_count_of w i = 0 \<and> tm_has_parent (mw_heap w ! i)))"
proof -
  have len: "length (mw_heap w') = length (mw_heap w)"
    using ta.ref_count_down_counts(3) [OF assms(1)] by (simp only: w'_def)
  have "counts w' ! j =
      (counts w)[i := (max 0 (ref_count_of w i - 1), pin_count_of w i, tm_has_parent (mw_heap w ! i))] ! j"
    using ta.ref_count_down_counts(1) [OF assms(1)] by (simp only: w'_def)
  then have "ref_count_of w' j = (if j = i then max 0 (ref_count_of w i - 1) else ref_count_of w j)"
    "pin_count_of w' j = pin_count_of w j"
    using assms(1,2) len by (auto simp: nth_list_update split: if_splits)
  moreover have "tm_valid (mw_heap (TensorMemoryAllocator_free S v i) ! j) = (tm_valid (mw_heap v ! j) \<and> j \<noteq> i)"
    if "length (mw_heap v) = length (mw_heap w)" for v
    using that assms(1,2) by (auto simp: TensorMemoryAllocator_free_def Let_def upd_obj_def nth_list_update)
  ultimately show ?thesis
    using assms(1) by (simp add: w'_def ref_count_down_eq Let_def) auto
qed

text \<open>
  A timeout check always ends, and afterwards every object whose latest pin is
  older than the timeout has no pins, every other object keeps its pins, no reference count
  has changed, and the monitor tracks exactly the objects that are still pinned.
\<close>

lemma pin_timeouts_enforced:
  assumes "pins_tracked w"
  shows "\<exists>w' m n. check_timeouts (TensorMemoryAllocator_free S) now timeout w = Some (w', m, n, n) \<and>
     pins_tracked w' \<and> length (mw_heap w') = length (mw_heap w) \<and>
     (\<forall>j < length (mw_heap w). ref_count_of w' j = ref_count_of w j \<and>
        pin_count_of w' j =
          (if \<exists>t. map_of (mw_pinned w) j = Some t \<and> now - t > timeout then 0 else pin_count_of w j))"
  using assms by (rule ta.check_timeouts_correct)

end
