(* ===== verification/Lazy_Allocator.thy ===== *)
theory Lazy_Allocator
  imports Tensor_Allocator
begin

text \<open>
  \<^verbatim>\<open>LazyMemoryAllocator\<close> of \<^verbatim>\<open>lmcache/v1/lazy_memory_allocator.py\<close>: a tensor allocator over a buffer of
  the final size whose address space starts small and grows as a background thread pins the
  rest of the buffer chunk by chunk.

  The base pointer of the buffer is left out: a pin record is an offset and a size. The
  thread is a sequence of rounds (one iteration of its outer loop) that other calls may
  interleave with. Shown: memory handed out is always pinned, and the thread reaches the
  final size and stops.
\<close>

section \<open>State and operations\<close>

definition PIN_CHUNK_SIZE :: int where
  "PIN_CHUNK_SIZE = 2 ^ 26"

definition COMMIT_SIZE :: int where
  "COMMIT_SIZE = 2 ^ 30"

definition align_to :: "int \<Rightarrow> int \<Rightarrow> int" where
  "align_to sz align_size = (sz + align_size - 1) AND NOT (align_size - 1)"

record LazyMemoryAllocator =
  lz_curr_size :: int
  lz_final_size :: int
  lz_pin_record :: "(int \<times> int) list"

definition pin_memory_chunk :: "LazyMemoryAllocator \<Rightarrow> int \<Rightarrow> int \<Rightarrow> LazyMemoryAllocator result" where
  "pin_memory_chunk lz offset sz =
     (if offset AND (PIN_CHUNK_SIZE - 1) \<noteq> 0 then Inl AssertionError
      else if sz AND (PIN_CHUNK_SIZE - 1) \<noteq> 0 then Inl AssertionError
      else if \<not> offset + sz \<le> lz_final_size lz then Inl AssertionError
      else Inr (lz\<lparr>lz_pin_record := lz_pin_record lz @ [(offset, sz)]\<rparr>))"

text \<open>The constructor: the buffer has the aligned final size, the address space the aligned initial size.\<close>

definition LazyMemoryAllocator_init ::
  "SortedList_ops \<Rightarrow> int \<Rightarrow> int \<Rightarrow> int \<Rightarrow> (LazyMemoryAllocator \<times> ta_world) result"
where
  "LazyMemoryAllocator_init S init_size final_size align_bytes =
     (let curr = align_to init_size PIN_CHUNK_SIZE;
          final = align_to final_size PIN_CHUNK_SIZE
      in bind_result
           (pin_memory_chunk \<lparr>lz_curr_size = curr, lz_final_size = final, lz_pin_record = []\<rparr> 0 curr) (\<lambda>lz.
         Inr (lz, \<lparr>mw_heap = [],
                   mw_alloc = TensorMemoryAllocator_init S (0, final) align_bytes (Some curr),
                   mw_pinned = []\<rparr>)))"

definition commit_expansion :: "SortedList_ops \<Rightarrow> int \<Rightarrow> ta_world \<Rightarrow> ta_world" where
  "commit_expansion S expand_size w =
     w\<lparr>mw_alloc := (mw_alloc w)\<lparr>ta_address_manager :=
         AddressManager_sbrk S (ta_address_manager (mw_alloc w)) expand_size\<rparr>\<rparr>"

text \<open>The \<^verbatim>\<open>for\<close> loop of the worker, for the remaining number of chunks.\<close>

fun pin_chunks :: "nat \<Rightarrow> LazyMemoryAllocator \<Rightarrow> LazyMemoryAllocator result" where
  "pin_chunks 0 lz = Inr lz"
| "pin_chunks (Suc k) lz =
     (if lz_curr_size lz \<ge> lz_final_size lz then Inr lz
      else bind_result (pin_memory_chunk lz (lz_curr_size lz) PIN_CHUNK_SIZE) (\<lambda>lz'.
             pin_chunks k (lz'\<lparr>lz_curr_size := lz_curr_size lz' + PIN_CHUNK_SIZE\<rparr>)))"

text \<open>
  One iteration of the worker's \<^verbatim>\<open>while\<close> loop. The local variable \<^verbatim>\<open>last_commit_size\<close> is the
  current size at the start of every iteration.
\<close>

definition expand_round ::
  "SortedList_ops \<Rightarrow> LazyMemoryAllocator \<times> ta_world \<Rightarrow> (LazyMemoryAllocator \<times> ta_world) result"
where
  "expand_round S st =
     (let (lz, w) = st; last_commit_size = lz_curr_size lz
      in bind_result (pin_chunks (nat (COMMIT_SIZE div PIN_CHUNK_SIZE)) lz) (\<lambda>lz'.
           Inr (lz', commit_expansion S (lz_curr_size lz' - last_commit_size) w)))"

text \<open>
  The worker: \<open>stop\<close> says for each round whether the stop event is set when the loop condition
  is tested. None is a loop that has not ended within the fuel.
\<close>

fun expand_worker ::
  "SortedList_ops \<Rightarrow> (nat \<Rightarrow> bool) \<Rightarrow> nat \<Rightarrow> nat \<Rightarrow> LazyMemoryAllocator \<times> ta_world \<Rightarrow>
   (LazyMemoryAllocator \<times> ta_world) result option"
where
  "expand_worker S stop fuel k (lz, w) =
     (if \<not> (lz_curr_size lz < lz_final_size lz \<and> \<not> stop k) then Some (Inr (lz, w))
      else case fuel of
             0 \<Rightarrow> None
           | Suc f \<Rightarrow> (case expand_round S (lz, w) of
                         Inl e \<Rightarrow> Some (Inl e)
                       | Inr st \<Rightarrow> expand_worker S stop f (Suc k) st))"

text \<open>
  The public methods delegate to the tensor allocator and make the lazy allocator the parent,
  whose \<^verbatim>\<open>free\<close> delegates again.
\<close>

definition LazyMemoryAllocator_free :: "SortedList_ops \<Rightarrow> ta_world \<Rightarrow> mem_id \<Rightarrow> ta_world" where
  "LazyMemoryAllocator_free S w i = TensorMemoryAllocator_free S w i"

definition LazyMemoryAllocator_batched_free :: "SortedList_ops \<Rightarrow> ta_world \<Rightarrow> mem_id list \<Rightarrow> ta_world" where
  "LazyMemoryAllocator_batched_free S w memory_objs = TensorMemoryAllocator_batched_free S w memory_objs"

definition LazyMemoryAllocator_allocate ::
  "SortedList_ops \<Rightarrow> Torch \<Rightarrow> ta_world \<Rightarrow> torch_size one_or_list \<Rightarrow> torch_dtype one_or_list \<Rightarrow>
   MemoryFormat \<Rightarrow> (ta_world \<times> mem_id option) result"
where
  "LazyMemoryAllocator_allocate S T w shapes dtypes fmt =
     bind_result (TensorMemoryAllocator_allocate S T w shapes dtypes fmt) (\<lambda>(w', obj).
       Inr (case obj of None \<Rightarrow> w' | Some i \<Rightarrow> upd_obj (\<lambda>ob. ob\<lparr>tm_has_parent := True\<rparr>) w' i, obj))"

definition LazyMemoryAllocator_batched_allocate ::
  "SortedList_ops \<Rightarrow> Torch \<Rightarrow> ta_world \<Rightarrow> torch_size one_or_list \<Rightarrow> torch_dtype one_or_list \<Rightarrow> int \<Rightarrow>
   MemoryFormat \<Rightarrow> (ta_world \<times> mem_id list option) result"
where
  "LazyMemoryAllocator_batched_allocate S T w shapes dtypes batch_size fmt =
     bind_result (TensorMemoryAllocator_batched_allocate S T w shapes dtypes batch_size fmt) (\<lambda>(w', ret).
       Inr (case ret of None \<Rightarrow> w'
            | Some ids \<Rightarrow> fold (\<lambda>i w. upd_obj (\<lambda>ob. ob\<lparr>tm_has_parent := True\<rparr>) w i) ids w', ret))"

definition LazyMemoryAllocator_memcheck :: "ta_world \<Rightarrow> bool" where
  "LazyMemoryAllocator_memcheck w = TensorMemoryAllocator_memcheck (mw_alloc w)"

definition LazyMemoryAllocator_close :: "LazyMemoryAllocator \<Rightarrow> LazyMemoryAllocator" where
  "LazyMemoryAllocator_close lz = lz\<lparr>lz_pin_record := []\<rparr>"

section \<open>The invariant\<close>

text \<open>
  The address space is the pinned part of the buffer, all sizes are whole chunks, and the pin
  records cover the pinned part exactly.
\<close>

definition pinned_bytes :: "LazyMemoryAllocator \<Rightarrow> int set" where
  "pinned_bytes lz = (\<Union>r \<in> set (lz_pin_record lz). rng r)"

definition lazy_ok :: "LazyMemoryAllocator \<times> ta_world \<Rightarrow> bool" where
  "lazy_ok st \<longleftrightarrow>
     (case st of (lz, w) \<Rightarrow>
        ta_ok w \<and> 0 < lz_curr_size lz \<and> lz_curr_size lz \<le> lz_final_size lz \<and>
        PIN_CHUNK_SIZE dvd lz_curr_size lz \<and> PIN_CHUNK_SIZE dvd lz_final_size lz \<and>
        ta_buffer (mw_alloc w) = (0, lz_final_size lz) \<and>
        am_size (ta_address_manager (mw_alloc w)) = lz_curr_size lz \<and>
        am_align (ta_address_manager (mw_alloc w)) dvd PIN_CHUNK_SIZE \<and>
        pinned_bytes lz = addr_range 0 (lz_curr_size lz))"

lemma align_to_bounds: "x \<le> align_to x PIN_CHUNK_SIZE" "PIN_CHUNK_SIZE dvd align_to x PIN_CHUNK_SIZE"
  using align_up_bounds(1,3) [where x = x and k = 26] and_not_mask_int [of "x + 2 ^ 26 - 1" 26]
  by (simp_all add: align_to_def PIN_CHUNK_SIZE_def)

lemma align_to_mono: "x \<le> y \<Longrightarrow> align_to x PIN_CHUNK_SIZE \<le> align_to y PIN_CHUNK_SIZE"
  using and_not_mask_int [of "x + 2 ^ 26 - 1" 26] and_not_mask_int [of "y + 2 ^ 26 - 1" 26]
  by (simp add: align_to_def PIN_CHUNK_SIZE_def zdiv_mono1)

lemma chunk_mask: "x AND (PIN_CHUNK_SIZE - 1) = 0 \<longleftrightarrow> PIN_CHUNK_SIZE dvd x"
proof -
  have "x AND (2 ^ 26 - 1) = x mod 2 ^ 26" by (simp only: take_bit_eq_mask [symmetric] mask_eq_exp_minus_1 [symmetric] take_bit_eq_mod)
  then show ?thesis unfolding PIN_CHUNK_SIZE_def by (simp add: dvd_eq_mod_eq_0)
qed

lemma chunk_pos [simp]: "0 < PIN_CHUNK_SIZE"
  by (simp add: PIN_CHUNK_SIZE_def)

lemma chunk_step:
  assumes "PIN_CHUNK_SIZE dvd a" and "PIN_CHUNK_SIZE dvd b" and "a < b"
  shows "a + PIN_CHUNK_SIZE \<le> b"
proof -
  have "PIN_CHUNK_SIZE dvd b - a" using assms by simp
  then show ?thesis using assms(3) zdvd_imp_le by fastforce
qed

lemma pin_memory_chunk_ok:
  assumes "PIN_CHUNK_SIZE dvd a" and "PIN_CHUNK_SIZE dvd n" and "a + n \<le> lz_final_size lz"
  shows "pin_memory_chunk lz a n = Inr (lz\<lparr>lz_pin_record := lz_pin_record lz @ [(a, n)]\<rparr>)"
  using assms by (simp add: pin_memory_chunk_def chunk_mask)

text \<open>The inner loop never fails, pins whole chunks up to the final size, and advances unless it is there.\<close>

lemma pin_chunks_ok:
  assumes "PIN_CHUNK_SIZE dvd lz_curr_size lz" and "PIN_CHUNK_SIZE dvd lz_final_size lz"
    and "0 \<le> lz_curr_size lz" and "lz_curr_size lz \<le> lz_final_size lz"
    and "pinned_bytes lz = addr_range 0 (lz_curr_size lz)"
  shows "\<exists>lz'. pin_chunks k lz = Inr lz' \<and> lz_final_size lz' = lz_final_size lz \<and>
     PIN_CHUNK_SIZE dvd lz_curr_size lz' \<and> lz_curr_size lz \<le> lz_curr_size lz' \<and> lz_curr_size lz' \<le> lz_final_size lz \<and>
     pinned_bytes lz' = addr_range 0 (lz_curr_size lz') \<and>
     lz_curr_size lz' = min (lz_final_size lz) (lz_curr_size lz + int k * PIN_CHUNK_SIZE)"
  using assms
proof (induction k arbitrary: lz)
  case (Suc k)
  show ?case
  proof (cases "lz_curr_size lz \<ge> lz_final_size lz")
    case True
    moreover have "0 \<le> int (Suc k) * PIN_CHUNK_SIZE" by (intro mult_nonneg_nonneg) (simp_all add: less_imp_le)
    ultimately show ?thesis using Suc.prems by (intro exI [of _ lz]) (simp add: min_def)
  next
    case False
    let ?lz = "lz\<lparr>lz_pin_record := lz_pin_record lz @ [(lz_curr_size lz, PIN_CHUNK_SIZE)],
                  lz_curr_size := lz_curr_size lz + PIN_CHUNK_SIZE\<rparr>"
    have le: "lz_curr_size lz + PIN_CHUNK_SIZE \<le> lz_final_size lz"
      using Suc.prems False by (intro chunk_step) simp_all
    have "pinned_bytes ?lz = addr_range 0 (lz_curr_size lz) \<union> addr_range (lz_curr_size lz) PIN_CHUNK_SIZE"
      using Suc.prems(5) by (auto simp: pinned_bytes_def)
    then have "pinned_bytes ?lz = addr_range 0 (lz_curr_size ?lz)"
      using Suc.prems(3) addr_range_split [of "lz_curr_size lz" PIN_CHUNK_SIZE 0] by (simp add: less_imp_le)
    then obtain lz' where z: "pin_chunks k ?lz = Inr lz'" "lz_final_size lz' = lz_final_size lz"
      "PIN_CHUNK_SIZE dvd lz_curr_size lz'" "lz_curr_size lz + PIN_CHUNK_SIZE \<le> lz_curr_size lz'"
      "lz_curr_size lz' \<le> lz_final_size lz" "pinned_bytes lz' = addr_range 0 (lz_curr_size lz')"
      "lz_curr_size lz' = min (lz_final_size lz) (lz_curr_size lz + PIN_CHUNK_SIZE + int k * PIN_CHUNK_SIZE)"
      using Suc.IH [of ?lz] Suc.prems le by (auto simp: less_imp_le)
    have step: "pin_chunks (Suc k) lz = pin_chunks k ?lz"
      using False Suc.prems le by (simp add: pin_memory_chunk_ok)
    have "lz_curr_size lz + PIN_CHUNK_SIZE + int k * PIN_CHUNK_SIZE = lz_curr_size lz + int (Suc k) * PIN_CHUNK_SIZE"
      by (simp add: algebra_simps)
    moreover have "lz_curr_size lz \<le> lz_curr_size lz'" using z(4) chunk_pos by linarith
    ultimately show ?thesis using z unfolding step by (intro exI [of _ lz']) simp
  qed
qed (auto simp: min_def)

section \<open>Expansion\<close>

lemma commit_expansion_ok:
  assumes S: "SortedList_documented S" and ok: "ta_ok w" and n: "0 < n"
    and al: "am_align (ta_address_manager (mw_alloc w)) dvd am_size (ta_address_manager (mw_alloc w))"
      "am_align (ta_address_manager (mw_alloc w)) dvd n"
    and fit: "am_size (ta_address_manager (mw_alloc w)) + n \<le> snd (ta_buffer (mw_alloc w))"
  shows "ta_ok (commit_expansion S n w)"
    and "am_size (ta_address_manager (mw_alloc (commit_expansion S n w))) = am_size (ta_address_manager (mw_alloc w)) + n"
    and "am_align (ta_address_manager (mw_alloc (commit_expansion S n w))) = am_align (ta_address_manager (mw_alloc w))"
    and "ta_buffer (mw_alloc (commit_expansion S n w)) = ta_buffer (mw_alloc w)"
    and "mw_heap (commit_expansion S n w) = mw_heap w"
proof -
  let ?am = "ta_address_manager (mw_alloc w)"
  have live: "am_live_ok (?am, live_blocks (mw_heap w))" "am_wf ?am" using ok by (simp_all add: ta_ok_def am_live_ok_def)
  note k = am_live_sbrk [OF S live(1) n al(1)]
  have c: "compute_aligned_size ?am n = n" using live(2) al(2) by (rule compute_aligned_size_id)
  show "ta_ok (commit_expansion S n w)" using ok k c fit by (simp add: ta_ok_def commit_expansion_def)
  show "am_size (ta_address_manager (mw_alloc (commit_expansion S n w))) = am_size ?am + n"
    "am_align (ta_address_manager (mw_alloc (commit_expansion S n w))) = am_align ?am"
    "ta_buffer (mw_alloc (commit_expansion S n w)) = ta_buffer (mw_alloc w)"
    "mw_heap (commit_expansion S n w) = mw_heap w"
    using k c by (simp_all add: commit_expansion_def)
qed

lemma expand_round_ok:
  assumes S: "SortedList_documented S" and ok: "lazy_ok (lz, w)" and more: "lz_curr_size lz < lz_final_size lz"
  shows "\<exists>lz' w'. expand_round S (lz, w) = Inr (lz', w') \<and> lazy_ok (lz', w') \<and>
     lz_final_size lz' = lz_final_size lz \<and>
     lz_curr_size lz' = min (lz_final_size lz) (lz_curr_size lz + COMMIT_SIZE)"
proof -
  have o: "ta_ok w" "0 < lz_curr_size lz" "PIN_CHUNK_SIZE dvd lz_curr_size lz" "PIN_CHUNK_SIZE dvd lz_final_size lz"
    "ta_buffer (mw_alloc w) = (0, lz_final_size lz)" "am_size (ta_address_manager (mw_alloc w)) = lz_curr_size lz"
    "am_align (ta_address_manager (mw_alloc w)) dvd PIN_CHUNK_SIZE" "pinned_bytes lz = addr_range 0 (lz_curr_size lz)"
    using ok by (simp_all add: lazy_ok_def)
  have k16: "nat (COMMIT_SIZE div PIN_CHUNK_SIZE) = 16" "int 16 * PIN_CHUNK_SIZE = COMMIT_SIZE"
    by (simp_all add: COMMIT_SIZE_def PIN_CHUNK_SIZE_def)
  obtain lz' where lz': "pin_chunks 16 lz = Inr lz'" "lz_final_size lz' = lz_final_size lz"
    "PIN_CHUNK_SIZE dvd lz_curr_size lz'" "lz_curr_size lz' \<le> lz_final_size lz"
    "pinned_bytes lz' = addr_range 0 (lz_curr_size lz')"
    "lz_curr_size lz' = min (lz_final_size lz) (lz_curr_size lz + COMMIT_SIZE)"
    using pin_chunks_ok [OF o(3,4) _ _ o(8), of 16] o(2) more k16(2) by auto
  let ?n = "lz_curr_size lz' - lz_curr_size lz" and ?am = "ta_address_manager (mw_alloc w)"
  have n: "0 < ?n" using lz'(6) more by (simp add: COMMIT_SIZE_def)
  have dv: "am_align ?am dvd x" if "PIN_CHUNK_SIZE dvd x" for x using o(7) that by (rule dvd_trans)
  have al: "am_align ?am dvd am_size ?am" "am_align ?am dvd ?n" using o(3,6) lz'(3) dv by simp_all
  have "am_size ?am + ?n \<le> snd (ta_buffer (mw_alloc w))" using o(5,6) lz'(4) by simp
  note c = commit_expansion_ok [OF S o(1) n al this]
  have "lazy_ok (lz', commit_expansion S ?n w)"
    using c o lz' n by (simp add: lazy_ok_def)
  moreover have "expand_round S (lz, w) = Inr (lz', commit_expansion S ?n w)"
    by (simp add: expand_round_def Let_def k16(1) lz'(1))
  ultimately show ?thesis using lz'(2,6) by blast
qed

lemma expand_worker_ends:
  assumes S: "SortedList_documented S" and ok: "lazy_ok (lz, w)"
    and fuel: "lz_final_size lz - lz_curr_size lz \<le> int fuel * PIN_CHUNK_SIZE"
  shows "\<exists>lz' w'. expand_worker S stop fuel k (lz, w) = Some (Inr (lz', w')) \<and> lazy_ok (lz', w') \<and>
     lz_final_size lz' = lz_final_size lz \<and>
     ((\<forall>j. \<not> stop j) \<longrightarrow> lz_curr_size lz' = lz_final_size lz)"
  using ok fuel
proof (induction fuel arbitrary: k lz w)
  case 0
  then have "lz_curr_size lz = lz_final_size lz" by (simp add: lazy_ok_def)
  with 0 show ?case by simp
next
  case (Suc f)
  show ?case
  proof (cases "lz_curr_size lz < lz_final_size lz \<and> \<not> stop k")
    case False
    moreover have "lz_curr_size lz = lz_final_size lz" if "\<forall>j. \<not> stop j"
      using False that Suc.prems(1) by (auto simp: lazy_ok_def)
    ultimately show ?thesis using Suc.prems by auto
  next
    case True
    obtain lz' w' where r: "expand_round S (lz, w) = Inr (lz', w')" "lazy_ok (lz', w')"
      "lz_final_size lz' = lz_final_size lz" "lz_curr_size lz' = min (lz_final_size lz) (lz_curr_size lz + COMMIT_SIZE)"
      using expand_round_ok [OF S Suc.prems(1)] True by blast
    have "lz_final_size lz' - lz_curr_size lz' \<le> int f * PIN_CHUNK_SIZE"
      using Suc.prems(2) r(3,4) by (simp add: COMMIT_SIZE_def PIN_CHUNK_SIZE_def min_def split: if_splits)
    from Suc.IH [OF r(2) this, of "Suc k"] r(1,3) True show ?thesis by simp
  qed
qed

section \<open>Calls keep the buffer and the size of the address space\<close>

definition ta_static :: "TensorMemoryAllocator \<Rightarrow> (int \<times> int) \<times> int \<times> int" where
  "ta_static ta = (ta_buffer ta, am_size (ta_address_manager ta), am_align (ta_address_manager ta))"

lemma coalesce_static:
  "AddressManager_coalesce S am b p q = (am', c) \<Longrightarrow> am_size am' = am_size am \<and> am_align am' = am_align am"
  by (auto simp: AddressManager_coalesce_def Let_def)

lemma free_static [simp]:
  "am_size (AddressManager_free S am a n) = am_size am" "am_align (AddressManager_free S am a n) = am_align am"
  using coalesce_static by (auto simp: AddressManager_free_def Let_def split: prod.splits)

lemma ta_free_static [simp]: "ta_static (mw_alloc (TensorMemoryAllocator_free S w i)) = ta_static (mw_alloc w)"
  by (simp add: TensorMemoryAllocator_free_def Let_def ta_static_def)

lemma on_pin_alloc [simp]: "mw_alloc (on_pin now w i) = mw_alloc w"
  by (simp add: on_pin_def)

lemma ref_count_down_static [simp]:
  "ta_static (mw_alloc (ref_count_down (TensorMemoryAllocator_free S) w i)) = ta_static (mw_alloc w)"
  by (simp add: ref_count_down_def Let_def)

lemma unpin_static [simp]:
  "ta_static (mw_alloc (fst (TensorMemoryObj_unpin (TensorMemoryAllocator_free S) w i))) = ta_static (mw_alloc w)"
  by (simp add: TensorMemoryObj_unpin_def Let_def)

lemma unpin_loop_static:
  "unpin_loop (TensorMemoryAllocator_free S) n w i = Some w' \<Longrightarrow> ta_static (mw_alloc w') = ta_static (mw_alloc w)"
proof (induction n arbitrary: w)
  case (Suc n)
  show ?case
  proof (cases "pin_count_of w i > 0")
    case True
    with Suc.prems have "unpin_loop (TensorMemoryAllocator_free S) n (fst (TensorMemoryObj_unpin (TensorMemoryAllocator_free S) w i)) i = Some w'"
      by simp
    from Suc.IH [OF this] show ?thesis using unpin_static [of S w i] by simp
  qed (use Suc.prems in simp)
qed (simp split: if_splits)

lemma force_unpin_all_static:
  "force_unpin_all (TensorMemoryAllocator_free S) is w = Some w' \<Longrightarrow> ta_static (mw_alloc w') = ta_static (mw_alloc w)"
proof (induction "is" arbitrary: w)
  case (Cons i "is")
  then obtain v where v: "force_unpin_timeout_object (TensorMemoryAllocator_free S) w i = Some v"
    "force_unpin_all (TensorMemoryAllocator_free S) is v = Some w'" by (auto split: option.splits)
  have "ta_static (mw_alloc v) = ta_static (mw_alloc w)"
    using v(1) unpin_loop_static [of S] by (simp add: force_unpin_timeout_object_def split: if_splits)
  with Cons.IH [OF v(2)] show ?case by simp
qed simp

lemma allocate_static:
  "AddressManager_allocate S am n = Inr (am', a, m) \<Longrightarrow> am_size am' = am_size am \<and> am_align am' = am_align am"
  by (auto simp: AddressManager_allocate_def Let_def split: option.splits)

lemma fold_free_static:
  "am_size (fold (\<lambda>(a, n, c) am. AddressManager_free S am a n) bs am) = am_size am"
  "am_align (fold (\<lambda>(a, n, c) am. AddressManager_free S am a n) bs am) = am_align am"
  by (induction bs arbitrary: am) (simp_all add: case_prod_unfold)

lemma coalesce_objects_alloc:
  "coalesce_objects w blocks cur ids = (w', bs) \<Longrightarrow> mw_alloc w' = mw_alloc w"
  by (induction w blocks cur ids rule: coalesce_objects.induct)
    (simp_all add: Let_def split: if_splits option.splits prod.splits)

lemma ta_step_static:
  assumes "ta_op_ok T op"
  shows "ta_static (mw_alloc (ta_step S T op w)) = ta_static (mw_alloc w)"
proof (cases op)
  case (OpAllocate shapes dtypes fmt)
  then obtain n where n: "get_size_bytes T (as_many shapes) (as_many dtypes) = Inr n"
    using assms by (auto split: sum.splits)
  show ?thesis
  proof (cases "TensorMemoryAllocator_allocate S T w shapes dtypes fmt")
    case (Inr p)
    obtain w' r where p: "p = (w', r)" by (cases p)
    have "ta_static (mw_alloc w') = ta_static (mw_alloc w)"
      by (rule ta_allocate_cases [OF Inr [unfolded p] n]) (auto simp: ta_static_def dest: allocate_static)
    then show ?thesis using OpAllocate Inr p by simp
  qed (simp add: OpAllocate)
next
  case (OpBatchedAllocate shapes dtypes b fmt)
  then obtain n where n: "get_size_bytes T (as_many shapes) (as_many dtypes) = Inr n"
    using assms by (auto split: sum.splits)
  show ?thesis
  proof (cases "TensorMemoryAllocator_batched_allocate S T w shapes dtypes b fmt")
    case (Inr p)
    obtain w' r where p: "p = (w', r)" by (cases p)
    have "ta_static (mw_alloc w') = ta_static (mw_alloc w)"
      by (rule ta_batched_allocate_cases [OF Inr [unfolded p] n refl]) (auto simp: ta_static_def dest: allocate_static)
    then show ?thesis using OpBatchedAllocate Inr p by simp
  qed (simp add: OpBatchedAllocate)
next
  case (OpBatchedFree ids)
  then show ?thesis
    by (auto simp: TensorMemoryAllocator_batched_free_def Let_def fold_free_static ta_static_def split: prod.splits
        dest!: coalesce_objects_alloc)
next
  case (OpCheckTimeouts now timeout)
  then show ?thesis
    by (auto simp: check_timeouts_def Let_def split: option.splits dest!: force_unpin_all_static)
qed (simp_all add: ref_count_up_def TensorMemoryObj_pin_def TensorMemoryObj_del_def)

section \<open>Calls of the clients between rounds of the worker\<close>

lemma upd_obj_same: "i < length (mw_heap w) \<Longrightarrow> tm_has_parent (mw_heap w ! i) \<Longrightarrow>
  upd_obj (\<lambda>ob. ob\<lparr>tm_has_parent := True\<rparr>) w i = w"
proof -
  assume "tm_has_parent (mw_heap w ! i)"
  then have "(mw_heap w ! i)\<lparr>tm_has_parent := True\<rparr> = mw_heap w ! i" by (cases "mw_heap w ! i") simp
  then show ?thesis by (simp add: upd_obj_def)
qed

lemma lazy_allocate_eq:
  assumes "get_size_bytes T (as_many shapes) (as_many dtypes) = Inr n"
  shows "LazyMemoryAllocator_allocate S T w shapes dtypes fmt = TensorMemoryAllocator_allocate S T w shapes dtypes fmt"
proof (cases "TensorMemoryAllocator_allocate S T w shapes dtypes fmt")
  case (Inr p)
  obtain w' r where p: "p = (w', r)" by (cases p)
  have "(case r of None \<Rightarrow> w' | Some i \<Rightarrow> upd_obj (\<lambda>ob. ob\<lparr>tm_has_parent := True\<rparr>) w' i) = w'"
    by (rule ta_allocate_cases [OF Inr [unfolded p] assms]) (simp_all add: upd_obj_same)
  then show ?thesis using Inr p by (simp add: LazyMemoryAllocator_allocate_def)
qed (simp add: LazyMemoryAllocator_allocate_def)

lemma fold_upd_obj_same:
  assumes "\<forall>i \<in> set ids. i < length (mw_heap w) \<and> tm_has_parent (mw_heap w ! i)"
  shows "fold (\<lambda>i w. upd_obj (\<lambda>ob. ob\<lparr>tm_has_parent := True\<rparr>) w i) ids w = w"
  using assms by (induction ids) (simp_all add: upd_obj_same)

lemma lazy_batched_allocate_eq:
  assumes "get_size_bytes T (as_many shapes) (as_many dtypes) = Inr n"
  shows "LazyMemoryAllocator_batched_allocate S T w shapes dtypes b fmt =
         TensorMemoryAllocator_batched_allocate S T w shapes dtypes b fmt"
proof (cases "TensorMemoryAllocator_batched_allocate S T w shapes dtypes b fmt")
  case (Inr p)
  obtain w' r where p: "p = (w', r)" by (cases p)
  have "(case r of None \<Rightarrow> w'
         | Some ids \<Rightarrow> fold (\<lambda>i w. upd_obj (\<lambda>ob. ob\<lparr>tm_has_parent := True\<rparr>) w i) ids w') = w'"
  proof (rule ta_batched_allocate_cases [OF Inr [unfolded p] assms refl])
    fix am' a m obs
    assume r: "r = Some [length (mw_heap w)..<length (mw_heap w) + length obs]"
      and obs: "batch_objects T (torch_chunk T (torch_slice T (ta_buffer (mw_alloc w)) a
        (a + compute_aligned_size (ta_address_manager (mw_alloc w)) n * b)) b) a
        (compute_aligned_size (ta_address_manager (mw_alloc w)) n) fmt (as_many shapes) (as_many dtypes) = Inr obs"
      and w': "w' = w\<lparr>mw_alloc := (mw_alloc w)\<lparr>ta_address_manager := am',
                 ta_num_active_allocations := ta_num_active_allocations (mw_alloc w) + b\<rparr>,
              mw_heap := mw_heap w @ obs\<rparr>"
    have "\<forall>i \<in> set [length (mw_heap w)..<length (mw_heap w) + length obs].
            i < length (mw_heap w') \<and> tm_has_parent (mw_heap w' ! i)"
      using batch_objects_fields [OF obs] by (auto simp: w' nth_append)
    from fold_upd_obj_same [OF this] show ?thesis by (simp add: r)
  qed simp
  then show ?thesis using Inr p by (simp add: LazyMemoryAllocator_batched_allocate_def)
qed (simp add: LazyMemoryAllocator_batched_allocate_def)

datatype lazy_op = LazyClient ta_op | LazyRound

fun lazy_client :: "SortedList_ops \<Rightarrow> Torch \<Rightarrow> ta_op \<Rightarrow> ta_world \<Rightarrow> ta_world" where
  "lazy_client S T (OpAllocate shapes dtypes fmt) w =
     (case LazyMemoryAllocator_allocate S T w shapes dtypes fmt of Inl _ \<Rightarrow> w | Inr (w', _) \<Rightarrow> w')"
| "lazy_client S T (OpBatchedAllocate shapes dtypes b fmt) w =
     (case LazyMemoryAllocator_batched_allocate S T w shapes dtypes b fmt of Inl _ \<Rightarrow> w | Inr (w', _) \<Rightarrow> w')"
| "lazy_client S T (OpFree i) w = (if i < length (mw_heap w) then LazyMemoryAllocator_free S w i else w)"
| "lazy_client S T (OpBatchedFree ids) w =
     (if list_all (\<lambda>i. i < length (mw_heap w)) ids then LazyMemoryAllocator_batched_free S w ids else w)"
| "lazy_client S T op w = ta_step S T op w"

lemma lazy_client_eq: "ta_op_ok T op \<Longrightarrow> lazy_client S T op w = ta_step S T op w"
  by (cases op)
    (auto simp: lazy_allocate_eq lazy_batched_allocate_eq LazyMemoryAllocator_free_def LazyMemoryAllocator_batched_free_def
      split: sum.splits)

text \<open>A history: calls of the clients, and rounds of the worker as long as its loop condition holds.\<close>

fun lazy_step ::
  "SortedList_ops \<Rightarrow> Torch \<Rightarrow> lazy_op \<Rightarrow> (LazyMemoryAllocator \<times> ta_world) result \<Rightarrow> (LazyMemoryAllocator \<times> ta_world) result"
where
  "lazy_step S T (LazyClient op) r = bind_result r (\<lambda>(lz, w). Inr (lz, lazy_client S T op w))"
| "lazy_step S T LazyRound r =
     bind_result r (\<lambda>(lz, w). if lz_curr_size lz < lz_final_size lz then expand_round S (lz, w) else Inr (lz, w))"

fun lazy_op_ok :: "Torch \<Rightarrow> lazy_op \<Rightarrow> bool" where
  "lazy_op_ok T (LazyClient op) = ta_op_ok T op"
| "lazy_op_ok T LazyRound = True"

lemma expand_round_counts:
  assumes "expand_round S (lz, w) = Inr (lz', w')"
  shows "pins_tracked w' = pins_tracked w"
proof -
  have "counts w' = counts w" "mw_pinned w' = mw_pinned w"
    using assms by (auto simp: expand_round_def Let_def commit_expansion_def counts_def)
  then show ?thesis by (rule pins_tracked_same)
qed

lemma lazy_step_ok:
  assumes S: "SortedList_documented S" and T: "Torch_documented T" and op: "lazy_op_ok T op"
    and r: "r = Inr (lz, w)" "lazy_ok (lz, w)" "pins_tracked w"
  shows "\<exists>lz' w'. lazy_step S T op r = Inr (lz', w') \<and> lazy_ok (lz', w') \<and> pins_tracked w' \<and>
     lz_final_size lz' = lz_final_size lz \<and> lz_curr_size lz \<le> lz_curr_size lz'"
proof (cases op)
  case (LazyClient call)
  let ?w = "ta_step S T call w"
  have o: "ta_op_ok T call" using op LazyClient by simp
  have "ta_ok w" using r(2) by (simp add: lazy_ok_def)
  from ta_step_ok [OF S T o this r(3)] have "ta_ok ?w" "pins_tracked ?w" by simp_all
  moreover have "ta_static (mw_alloc ?w) = ta_static (mw_alloc w)" using o by (rule ta_step_static)
  ultimately have "lazy_ok (lz, ?w)" using r(2) by (simp add: lazy_ok_def ta_static_def)
  with \<open>pins_tracked ?w\<close> show ?thesis using LazyClient r(1) lazy_client_eq [OF o] by simp
next
  case LazyRound
  show ?thesis
  proof (cases "lz_curr_size lz < lz_final_size lz")
    case True
    obtain lz' w' where e: "expand_round S (lz, w) = Inr (lz', w')" "lazy_ok (lz', w')"
      "lz_final_size lz' = lz_final_size lz" "lz_curr_size lz' = min (lz_final_size lz) (lz_curr_size lz + COMMIT_SIZE)"
      using expand_round_ok [OF S r(2) True] by blast
    then show ?thesis using LazyRound True r expand_round_counts [OF e(1)] by (simp add: COMMIT_SIZE_def)
  qed (use LazyRound r in simp)
qed

lemma lazy_history_ok:
  assumes S: "SortedList_documented S" and T: "Torch_documented T" and ops: "\<forall>op \<in> set ops. lazy_op_ok T op"
    and r: "r = Inr (lz, w)" "lazy_ok (lz, w)" "pins_tracked w"
  shows "\<exists>lz' w'. fold (lazy_step S T) ops r = Inr (lz', w') \<and> lazy_ok (lz', w') \<and> pins_tracked w' \<and>
     lz_final_size lz' = lz_final_size lz \<and> lz_curr_size lz \<le> lz_curr_size lz'"
  using ops r
proof (induction ops arbitrary: r lz w)
  case (Cons op ops)
  then have op: "lazy_op_ok T op" and rest: "\<forall>op \<in> set ops. lazy_op_ok T op" by simp_all
  obtain l v where s: "lazy_step S T op r = Inr (l, v)" "lazy_ok (l, v)" "pins_tracked v"
    "lz_final_size l = lz_final_size lz" "lz_curr_size lz \<le> lz_curr_size l"
    using lazy_step_ok [OF S T op Cons.prems(2-4)] by blast
  from Cons.IH [OF rest s(1-3)] s(4,5) show ?case by fastforce
qed simp

lemma lazy_init_ok:
  assumes S: "SortedList_documented S" and pos: "0 < init_size" and le: "init_size \<le> final_size"
    and al: "align = 2 ^ k" "k \<le> 26"
  obtains lz w where "LazyMemoryAllocator_init S init_size final_size align = Inr (lz, w)"
    "lazy_ok (lz, w)" "pins_tracked w" "lz_final_size lz = align_to final_size PIN_CHUNK_SIZE"
proof -
  let ?c = "align_to init_size PIN_CHUNK_SIZE" and ?f = "align_to final_size PIN_CHUNK_SIZE"
  have c: "0 < ?c" "PIN_CHUNK_SIZE dvd ?c" "PIN_CHUNK_SIZE dvd ?f"
    using align_to_bounds [of init_size] align_to_bounds [of final_size] pos by linarith+
  have cf: "?c \<le> ?f" using le by (rule align_to_mono)
  have dv: "align dvd PIN_CHUNK_SIZE" unfolding al(1) PIN_CHUNK_SIZE_def using al(2) by (rule le_imp_power_dvd)
  let ?lz = "\<lparr>lz_curr_size = ?c, lz_final_size = ?f, lz_pin_record = [(0, ?c)]\<rparr>"
  let ?w = "\<lparr>mw_heap = [], mw_alloc = TensorMemoryAllocator_init S (0, ?f) align (Some ?c), mw_pinned = []\<rparr>"
  have i: "LazyMemoryAllocator_init S init_size final_size align = Inr (?lz, ?w)"
    using c cf by (simp add: LazyMemoryAllocator_init_def Let_def pin_memory_chunk_def chunk_mask)
  have ok: "ta_ok ?w" using am_init_live_ok [OF S c(1) al(1)] cf
    by (simp add: ta_ok_def TensorMemoryAllocator_init_def live_blocks_def) (simp add: AddressManager_init_def)
  have "lazy_ok (?lz, ?w)"
    using ok c cf dv by (simp add: lazy_ok_def TensorMemoryAllocator_init_def AddressManager_init_def pinned_bytes_def)
  with i show thesis by (rule that) (simp_all add: pins_tracked_def)
qed

lemma ta_ok_bytes:
  assumes ok: "ta_ok w" and i: "i < length (mw_heap w)" and v: "tm_valid (mw_heap w ! i)"
    and b: "fst (ta_buffer (mw_alloc w)) = 0"
  shows "rng (tm_raw_data (mw_heap w ! i)) \<subseteq> addr_range 0 (am_size (ta_address_manager (mw_alloc w)))"
proof -
  have "view_ok (ta_buffer (mw_alloc w)) (mw_heap w ! i)" using ok i v by (simp add: ta_ok_def)
  then have "rng (tm_raw_data (mw_heap w ! i)) \<subseteq> rng (obj_block (mw_heap w ! i))"
    using b by (auto simp: view_ok_def obj_block_def addr_range_def)
  moreover have "obj_block (mw_heap w ! i) \<in> set (live_blocks (mw_heap w))" using i v by (simp add: live_blocks_def)
  moreover have "blocks_ok (live_blocks (mw_heap w)) (free_addrs (ta_address_manager (mw_alloc w)))
    (am_size (ta_address_manager (mw_alloc w)))" using ok by (simp add: ta_ok_def am_live_ok_def)
  ultimately show ?thesis unfolding blocks_ok_def by blast
qed

section \<open>Properties\<close>

text \<open>
  Property C17. No client ever gets memory that is not pinned. Start the lazy allocator with any
  initial size up to the final size, and interleave calls of the clients with rounds of the
  expansion thread in any order. The thread never fails an assertion, every byte of a valid
  memory object lies in a chunk that was pinned before, two valid objects share no byte, and
  the pinned part only grows.
\<close>

theorem lazy_memory_pinned:
  assumes "SortedList_documented S" and "Torch_documented T"
    and "0 < init_size" and "init_size \<le> final_size" and "align = 2 ^ k" and "k \<le> 26"
    and "\<forall>op \<in> set ops. lazy_op_ok T op"
  shows "\<exists>lz w. fold (lazy_step S T) ops (LazyMemoryAllocator_init S init_size final_size align) = Inr (lz, w) \<and>
     init_size \<le> lz_curr_size lz \<and> pinned_bytes lz = addr_range 0 (lz_curr_size lz) \<and>
     (\<forall>i < length (mw_heap w). tm_valid (mw_heap w ! i) \<longrightarrow> rng (tm_raw_data (mw_heap w ! i)) \<subseteq> pinned_bytes lz) \<and>
     (\<forall>i < length (mw_heap w). \<forall>j < i. tm_valid (mw_heap w ! i) \<longrightarrow> tm_valid (mw_heap w ! j) \<longrightarrow>
        rng (tm_raw_data (mw_heap w ! j)) \<inter> rng (tm_raw_data (mw_heap w ! i)) = {})"
proof -
  obtain lz0 w0 where i: "LazyMemoryAllocator_init S init_size final_size align = Inr (lz0, w0)"
    "lazy_ok (lz0, w0)" "pins_tracked w0" "lz_final_size lz0 = align_to final_size PIN_CHUNK_SIZE"
    using lazy_init_ok [OF assms(1,3-6)] by blast
  have "lz_curr_size lz0 = align_to init_size PIN_CHUNK_SIZE"
    using i(1) by (auto simp: LazyMemoryAllocator_init_def Let_def pin_memory_chunk_def split: if_splits)
  then have init: "init_size \<le> lz_curr_size lz0" using align_to_bounds(1) by simp
  obtain lz w where h: "fold (lazy_step S T) ops (LazyMemoryAllocator_init S init_size final_size align) = Inr (lz, w)"
    "lazy_ok (lz, w)" "lz_curr_size lz0 \<le> lz_curr_size lz"
    using lazy_history_ok [OF assms(1,2,7) i(1-3)] by blast
  have ok: "ta_ok w" "fst (ta_buffer (mw_alloc w)) = 0" "am_size (ta_address_manager (mw_alloc w)) = lz_curr_size lz"
    "pinned_bytes lz = addr_range 0 (lz_curr_size lz)" using h(2) by (simp_all add: lazy_ok_def)
  have "rng (tm_raw_data (mw_heap w ! i)) \<subseteq> pinned_bytes lz"
    if "i < length (mw_heap w)" "tm_valid (mw_heap w ! i)" for i
    using ta_ok_bytes [OF ok(1) that ok(2)] ok(3,4) by simp
  moreover have "rng (tm_raw_data (mw_heap w ! j)) \<inter> rng (tm_raw_data (mw_heap w ! i)) = {}"
    if "i < length (mw_heap w)" "j < i" "tm_valid (mw_heap w ! i)" "tm_valid (mw_heap w ! j)" for i j
    using ta_ok_disjoint [OF ok(1), of j i] that by simp
  ultimately show ?thesis using h(1,3) init ok(4) by (intro exI [of _ lz] exI [of _ w]) simp
qed

theorem lazy_memory_pinned_witness:
  "\<exists>lz w. fold (lazy_step insertion_list plain_torch)
        [LazyClient (OpAllocate (One [8]) (One ''float16'') KV_2TD), LazyRound,
         LazyClient (OpBatchedAllocate (One [4]) (One ''float16'') 2 KV_2TD)]
        (LazyMemoryAllocator_init insertion_list 1000 100000000 4096) = Inr (lz, w) \<and>
     pinned_bytes lz = addr_range 0 (lz_curr_size lz)"
proof -
  let ?ops = "[LazyClient (OpAllocate (One [8]) (One ''float16'') KV_2TD), LazyRound,
         LazyClient (OpBatchedAllocate (One [4]) (One ''float16'') 2 KV_2TD)]"
  have "\<forall>op \<in> set ?ops. lazy_op_ok plain_torch op" by (simp add: get_size_bytes_def plain_torch_def)
  note p = lazy_memory_pinned [OF insertion_list_documented plain_torch_documented _ _ _ _ this, of 1000 100000000 4096 12]
  have "0 < (1000 :: int)" "(1000 :: int) \<le> 100000000" "(4096 :: int) = 2 ^ 12" "(12 :: nat) \<le> 26" by simp_all
  from p [OF this] show ?thesis by blast
qed

text \<open>
  Property C27. The expansion thread does its job and stops. Whatever the clients did before,
  its loop ends within as many rounds as there are chunks left, without an error, with the
  invariant intact. When nobody asks it to stop, the whole buffer is then pinned and can be
  allocated.
\<close>

theorem expansion_completes:
  assumes "SortedList_documented S" and "Torch_documented T"
    and "0 < init_size" and "init_size \<le> final_size" and "align = 2 ^ k" and "k \<le> 26"
    and "\<forall>op \<in> set ops. lazy_op_ok T op"
    and "fold (lazy_step S T) ops (LazyMemoryAllocator_init S init_size final_size align) = Inr (lz, w)"
    and "align_to final_size PIN_CHUNK_SIZE div PIN_CHUNK_SIZE \<le> int fuel"
  shows "\<exists>lz' w'. expand_worker S stop fuel 0 (lz, w) = Some (Inr (lz', w')) \<and> lazy_ok (lz', w') \<and>
     ((\<forall>j. \<not> stop j) \<longrightarrow>
        am_size (ta_address_manager (mw_alloc w')) = align_to final_size PIN_CHUNK_SIZE \<and>
        pinned_bytes lz' = addr_range 0 (align_to final_size PIN_CHUNK_SIZE))"
proof -
  let ?f = "align_to final_size PIN_CHUNK_SIZE"
  obtain lz0 w0 where i: "LazyMemoryAllocator_init S init_size final_size align = Inr (lz0, w0)"
    "lazy_ok (lz0, w0)" "pins_tracked w0" "lz_final_size lz0 = ?f"
    using lazy_init_ok [OF assms(1,3-6)] by blast
  have h: "lazy_ok (lz, w)" "lz_final_size lz = ?f"
    using lazy_history_ok [OF assms(1,2,7) i(1-3)] assms(8) i(4) by auto
  have "?f = ?f div PIN_CHUNK_SIZE * PIN_CHUNK_SIZE" using align_to_bounds(2) by simp
  also have "\<dots> \<le> int fuel * PIN_CHUNK_SIZE" using assms(9) by (intro mult_right_mono) (simp_all add: less_imp_le)
  finally have "lz_final_size lz - lz_curr_size lz \<le> int fuel * PIN_CHUNK_SIZE"
    using h by (simp add: lazy_ok_def)
  from expand_worker_ends [OF assms(1) h(1) this, of stop 0] obtain lz' w'
    where e: "expand_worker S stop fuel 0 (lz, w) = Some (Inr (lz', w'))" "lazy_ok (lz', w')"
      "(\<forall>j. \<not> stop j) \<longrightarrow> lz_curr_size lz' = ?f" using h(2) by auto
  moreover have "(\<forall>j. \<not> stop j) \<longrightarrow> am_size (ta_address_manager (mw_alloc w')) = ?f \<and> pinned_bytes lz' = addr_range 0 ?f"
    using e(2,3) by (auto simp: lazy_ok_def)
  ultimately show ?thesis by blast
qed

theorem expansion_completes_witness:
  "\<exists>lz w lz' w'. fold (lazy_step insertion_list plain_torch) [LazyClient (OpAllocate (One [8]) (One ''float16'') KV_2TD)]
        (LazyMemoryAllocator_init insertion_list 1000 100000000 4096) = Inr (lz, w) \<and>
     lz_curr_size lz = 67108864 \<and>
     expand_worker insertion_list (\<lambda>_. False) 2 0 (lz, w) = Some (Inr (lz', w')) \<and>
     am_size (ta_address_manager (mw_alloc w')) = 134217728"
proof -
  let ?ops = "[LazyClient (OpAllocate (One [8]) (One ''float16'') KV_2TD)]"
  let ?i = "LazyMemoryAllocator_init insertion_list 1000 100000000 4096"
  have ok: "\<forall>op \<in> set ?ops. lazy_op_ok plain_torch op" by (simp add: get_size_bytes_def plain_torch_def)
  define r where "r = fold (lazy_step insertion_list plain_torch) ?ops ?i"
  have "(case r of Inl e \<Rightarrow> False | Inr (lz, w) \<Rightarrow> lz_curr_size lz = 67108864)" unfolding r_def by code_simp
  then obtain lz w where lw: "r = Inr (lz, w)" "lz_curr_size lz = 67108864" by (auto split: sum.splits)
  note h = lw(1) [unfolded r_def]
  have f: "align_to 100000000 PIN_CHUNK_SIZE = 134217728" by code_simp
  have d: "align_to 100000000 PIN_CHUNK_SIZE div PIN_CHUNK_SIZE \<le> int 2" by code_simp
  have "0 < (1000 :: int)" "(1000 :: int) \<le> 100000000" "(4096 :: int) = 2 ^ 12" "(12 :: nat) \<le> 26" by simp_all
  note expansion_completes [OF insertion_list_documented plain_torch_documented this ok h d, of "\<lambda>_. False", unfolded f]
  then show ?thesis using h lw(2) by blast
qed

end
