(* ===== verification/Paged_Allocator.thy ===== *)
theory Paged_Allocator
  imports Tensor_Allocator
begin

text \<open>
  The class \<^verbatim>\<open>PagedTensorMemoryAllocator\<close> of \<^verbatim>\<open>lmcache/v1/memory_management.py\<close>: a fixed set of memory
  objects, one per page of the buffer, recycled through a queue of free objects.

  Shown: the free queue and the objects in use partition the pages and the counters agree, in
  every history that frees only objects in use; a batched allocation that fails midway gives
  every page back in order; and two consequences of recycling that the class does not guard
  against: an object keeps the group offsets of its first shape, and an object released twice
  is handed out twice.
\<close>

section \<open>State and operations\<close>

record PagedTensorMemoryAllocator =
  pa_buffer :: view
  pa_shapes :: "torch_size list"
  pa_dtypes :: "torch_dtype list"
  pa_fmt :: MemoryFormat
  pa_align_bytes :: int
  pa_paged_buffers :: "view list"
  pa_free_blocks :: "mem_id list"
  pa_num_active_allocations :: int
  pa_total_allocated_size :: int

type_synonym pa_world = "PagedTensorMemoryAllocator mem_world"

text \<open>The loop of the constructor: page \<open>idx\<close> has its index as its address.\<close>

fun page_objects ::
  "Torch \<Rightarrow> int \<Rightarrow> torch_size list \<Rightarrow> torch_dtype list \<Rightarrow> MemoryFormat \<Rightarrow> int \<Rightarrow> view list \<Rightarrow> TensorMemoryObj list result"
where
  "page_objects T align_bytes shapes dtypes fmt idx [] = Inr []"
| "page_objects T align_bytes shapes dtypes fmt idx (buf # bufs) =
     bind_result (py_nth shapes 0) (\<lambda>shape.
     bind_result (py_nth dtypes 0) (\<lambda>dtype.
     bind_result
       (TensorMemoryObj_init T buf (fresh_metadata shape dtype idx align_bytes fmt shapes dtypes) True) (\<lambda>ob.
     bind_result (page_objects T align_bytes shapes dtypes fmt (idx + 1) bufs) (\<lambda>obs. Inr (ob # obs)))))"

definition PagedTensorMemoryAllocator_init ::
  "Torch \<Rightarrow> view \<Rightarrow> torch_size list \<Rightarrow> torch_dtype list \<Rightarrow> MemoryFormat \<Rightarrow> pa_world result"
where
  "PagedTensorMemoryAllocator_init T tensor shapes dtypes fmt =
     bind_result (get_size_bytes T shapes dtypes) (\<lambda>align_bytes.
       if align_bytes = 0 then Inl ZeroDivisionError
       else if snd tensor mod align_bytes \<noteq> 0 then Inl AssertionError
       else let bufs = torch_split T tensor align_bytes
            in bind_result (page_objects T align_bytes shapes dtypes fmt 0 bufs) (\<lambda>obs.
               Inr \<lparr>mw_heap = obs,
                    mw_alloc = \<lparr>pa_buffer = tensor, pa_shapes = shapes, pa_dtypes = dtypes, pa_fmt = fmt,
                       pa_align_bytes = align_bytes, pa_paged_buffers = bufs,
                       pa_free_blocks = [0..<length obs], pa_num_active_allocations = 0,
                       pa_total_allocated_size = 0\<rparr>,
                    mw_pinned = []\<rparr>))"

text \<open>
  What both allocation methods do with an object taken from the queue. The byte view is cut
  down when the shapes differ from those of the allocator.
\<close>

definition recycle ::
  "Torch \<Rightarrow> PagedTensorMemoryAllocator \<Rightarrow> torch_size list \<Rightarrow> torch_dtype list \<Rightarrow> MemoryFormat \<Rightarrow>
   TensorMemoryObj \<Rightarrow> TensorMemoryObj result"
where
  "recycle T pa shapes dtypes fmt ob =
     bind_result (py_nth shapes 0) (\<lambda>shape.
     bind_result (py_nth dtypes 0) (\<lambda>dtype.
       let ob1 = ob\<lparr>tm_meta := (tm_meta ob)\<lparr>md_shape := shape, md_dtype := Some dtype,
                     md_shapes := Some shapes, md_dtypes := Some dtypes, md_fmt := fmt,
                     md_ref_count := 1\<rparr>\<rparr>
       in if shapes \<noteq> pa_shapes pa
          then bind_result (get_size_bytes T shapes dtypes) (\<lambda>size_in_bytes.
                 Inr (ob1\<lparr>tm_raw_data := torch_slice T (tm_raw_data ob1) 0 size_in_bytes\<rparr>))
          else Inr ob1))"

definition PagedTensorMemoryAllocator_allocate ::
  "Torch \<Rightarrow> pa_world \<Rightarrow> torch_size one_or_list \<Rightarrow> torch_dtype one_or_list \<Rightarrow> MemoryFormat \<Rightarrow>
   (pa_world \<times> mem_id option) result"
where
  "PagedTensorMemoryAllocator_allocate T w shapes0 dtypes0 fmt =
     bind_result (adapt_shapes_and_dtypes shapes0 dtypes0) (\<lambda>(shapes, dtypes).
       let pa = mw_alloc w in
       case pa_free_blocks pa of
         [] \<Rightarrow> Inr (w, None)
       | i # rest \<Rightarrow>
           bind_result (recycle T pa shapes dtypes fmt (mw_heap w ! i)) (\<lambda>ob.
             Inr (w\<lparr>mw_heap := (mw_heap w)[i := ob],
                    mw_alloc := pa\<lparr>pa_free_blocks := rest,
                      pa_num_active_allocations := pa_num_active_allocations pa + 1,
                      pa_total_allocated_size := pa_total_allocated_size pa + pa_align_bytes pa\<rparr>\<rparr>,
                  Some i)))"

text \<open>Giving an object back to the queue, with its page as its bytes again.\<close>

definition give_back :: "pa_world \<Rightarrow> mem_id \<Rightarrow> pa_world" where
  "give_back w i =
     (let pa = mw_alloc w; ob = mw_heap w ! i;
          ob' = (if md_shapes (tm_meta ob) \<noteq> Some (pa_shapes pa)
                 then ob\<lparr>tm_raw_data := pa_paged_buffers pa ! nat (md_address (tm_meta ob))\<rparr> else ob)
      in w\<lparr>mw_heap := (mw_heap w)[i := ob'],
           mw_alloc := pa\<lparr>pa_free_blocks := pa_free_blocks pa @ [i]\<rparr>\<rparr>)"

definition PagedTensorMemoryAllocator_free :: "pa_world \<Rightarrow> mem_id \<Rightarrow> pa_world" where
  "PagedTensorMemoryAllocator_free w i =
     (if \<not> tm_valid (mw_heap w ! i) then w
      else let w' = give_back w i; pa = mw_alloc w'
           in w'\<lparr>mw_alloc := pa\<lparr>pa_total_allocated_size := pa_total_allocated_size pa - pa_align_bytes pa,
                   pa_num_active_allocations := pa_num_active_allocations pa - 1\<rparr>\<rparr>)"

definition PagedTensorMemoryAllocator_batched_free :: "pa_world \<Rightarrow> mem_id list \<Rightarrow> bool \<Rightarrow> pa_world" where
  "PagedTensorMemoryAllocator_batched_free w memory_objs update_stats =
     (let w' = fold (\<lambda>i w. if \<not> tm_valid (mw_heap w ! i) then w else give_back w i) memory_objs w;
          pa = mw_alloc w'; num_freed_blocks = int (length memory_objs)
      in if update_stats
         then w'\<lparr>mw_alloc := pa\<lparr>
                pa_total_allocated_size := pa_total_allocated_size pa - pa_align_bytes pa * num_freed_blocks,
                pa_num_active_allocations := pa_num_active_allocations pa - num_freed_blocks\<rparr>\<rparr>
         else w')"

text \<open>The loop of \<^verbatim>\<open>batched_allocate\<close> for the remaining number of objects.\<close>

fun take_pages ::
  "Torch \<Rightarrow> torch_size list \<Rightarrow> torch_dtype list \<Rightarrow> MemoryFormat \<Rightarrow> nat \<Rightarrow> pa_world \<Rightarrow> mem_id list \<Rightarrow>
   (pa_world \<times> mem_id list option) result"
where
  "take_pages T shapes dtypes fmt 0 w allocated_blocks = Inr (w, Some allocated_blocks)"
| "take_pages T shapes dtypes fmt (Suc k) w allocated_blocks =
     (case pa_free_blocks (mw_alloc w) of
        [] \<Rightarrow> Inr (PagedTensorMemoryAllocator_batched_free w allocated_blocks False, None)
      | i # rest \<Rightarrow>
          bind_result (recycle T (mw_alloc w) shapes dtypes fmt (mw_heap w ! i)) (\<lambda>ob.
            take_pages T shapes dtypes fmt k
              (w\<lparr>mw_heap := (mw_heap w)[i := ob], mw_alloc := (mw_alloc w)\<lparr>pa_free_blocks := rest\<rparr>\<rparr>)
              (allocated_blocks @ [i])))"

definition PagedTensorMemoryAllocator_batched_allocate ::
  "Torch \<Rightarrow> pa_world \<Rightarrow> torch_size one_or_list \<Rightarrow> torch_dtype one_or_list \<Rightarrow> int \<Rightarrow> MemoryFormat \<Rightarrow>
   (pa_world \<times> mem_id list option) result"
where
  "PagedTensorMemoryAllocator_batched_allocate T w shapes0 dtypes0 batch_size fmt =
     bind_result (adapt_shapes_and_dtypes shapes0 dtypes0) (\<lambda>(shapes, dtypes).
     bind_result (take_pages T shapes dtypes fmt (nat batch_size) w []) (\<lambda>(w', r).
       case r of
         None \<Rightarrow> Inr (w', None)
       | Some blocks \<Rightarrow>
           (let pa = mw_alloc w'; n = pa_num_active_allocations pa + batch_size
            in Inr (w'\<lparr>mw_alloc := pa\<lparr>pa_num_active_allocations := n,
                          pa_total_allocated_size := n * pa_align_bytes pa\<rparr>\<rparr>, Some blocks))))"

definition PagedTensorMemoryAllocator_memcheck :: "PagedTensorMemoryAllocator \<Rightarrow> bool" where
  "PagedTensorMemoryAllocator_memcheck pa =
     (if int (length (pa_free_blocks pa)) * pa_align_bytes pa + pa_total_allocated_size pa \<noteq> snd (pa_buffer pa)
      then False else True)"

section \<open>The invariant\<close>

definition page :: "PagedTensorMemoryAllocator \<Rightarrow> nat \<Rightarrow> view" where
  "page pa i = (fst (pa_buffer pa) + int i * pa_align_bytes pa, pa_align_bytes pa)"

text \<open>Object \<open>i\<close> is the object of page \<open>i\<close>; while it is free, or has the shapes of the allocator, it views all of it.\<close>

definition page_obj_ok :: "PagedTensorMemoryAllocator \<Rightarrow> nat \<Rightarrow> TensorMemoryObj \<Rightarrow> bool" where
  "page_obj_ok pa i ob \<longleftrightarrow>
     tm_valid ob \<and> md_address (tm_meta ob) = int i \<and> md_phy_size (tm_meta ob) = pa_align_bytes pa \<and>
     fst (tm_raw_data ob) = fst (page pa i) \<and> 0 \<le> snd (tm_raw_data ob) \<and> snd (tm_raw_data ob) \<le> pa_align_bytes pa \<and>
     (md_shapes (tm_meta ob) = Some (pa_shapes pa) \<or> i \<in> set (pa_free_blocks pa) \<longrightarrow> tm_raw_data ob = page pa i)"

definition pa_shape_ok :: "pa_world \<Rightarrow> bool" where
  "pa_shape_ok w \<longleftrightarrow>
     (let pa = mw_alloc w; n = length (mw_heap w) in
      0 < pa_align_bytes pa \<and> pa_paged_buffers pa = map (page pa) [0..<n] \<and>
      snd (pa_buffer pa) = int n * pa_align_bytes pa \<and>
      distinct (pa_free_blocks pa) \<and> set (pa_free_blocks pa) \<subseteq> {..<n} \<and>
      (\<forall>i < n. page_obj_ok pa i (mw_heap w ! i)))"

text \<open>With the counters that the class keeps for its memory check.\<close>

definition pa_ok :: "pa_world \<Rightarrow> bool" where
  "pa_ok w \<longleftrightarrow> pa_shape_ok w \<and>
     pa_num_active_allocations (mw_alloc w) = int (length (mw_heap w)) - int (length (pa_free_blocks (mw_alloc w))) \<and>
     pa_total_allocated_size (mw_alloc w) = pa_num_active_allocations (mw_alloc w) * pa_align_bytes (mw_alloc w)"

definition pa_live :: "pa_world \<Rightarrow> nat set" where
  "pa_live w = {..<length (mw_heap w)} - set (pa_free_blocks (mw_alloc w))"

text \<open>Everything of the allocator that never changes.\<close>

abbreviation pa_static where
  "pa_static pa \<equiv> (pa_buffer pa, pa_shapes pa, pa_dtypes pa, pa_align_bytes pa, pa_paged_buffers pa)"

lemma pa_live_card:
  assumes "pa_ok w"
  shows "int (card (pa_live w)) = pa_num_active_allocations (mw_alloc w)"
proof -
  have d: "distinct (pa_free_blocks (mw_alloc w))" "set (pa_free_blocks (mw_alloc w)) \<subseteq> {..<length (mw_heap w)}"
    using assms by (simp_all add: pa_ok_def pa_shape_ok_def Let_def)
  then have "length (pa_free_blocks (mw_alloc w)) \<le> length (mw_heap w)"
    by (metis card_lessThan card_mono distinct_card finite_lessThan)
  moreover have "card (pa_live w) = length (mw_heap w) - length (pa_free_blocks (mw_alloc w))"
    using d by (simp add: pa_live_def card_Diff_subset distinct_card)
  ultimately show ?thesis using assms by (simp add: pa_ok_def Let_def)
qed

lemma pa_ok_memcheck:
  assumes "pa_ok w"
  shows "PagedTensorMemoryAllocator_memcheck (mw_alloc w)"
  using assms by (simp add: pa_ok_def pa_shape_ok_def Let_def PagedTensorMemoryAllocator_memcheck_def left_diff_distrib)

lemma recycle_fields:
  assumes "recycle T pa shapes dtypes fmt ob = Inr ob'"
  shows "tm_valid ob' = tm_valid ob" and "tm_has_parent ob' = tm_has_parent ob"
    and "md_address (tm_meta ob') = md_address (tm_meta ob)" and "md_phy_size (tm_meta ob') = md_phy_size (tm_meta ob)"
    and "md_ref_count (tm_meta ob') = 1" and "md_pin_count (tm_meta ob') = md_pin_count (tm_meta ob)"
    and "md_shapes (tm_meta ob') = Some shapes" and "md_dtypes (tm_meta ob') = Some dtypes"
    and "tm_group_prefix_sum ob' = tm_group_prefix_sum ob"
    and "shapes = pa_shapes pa \<Longrightarrow> tm_raw_data ob' = tm_raw_data ob"
    and "\<lbrakk>shapes \<noteq> pa_shapes pa; get_size_bytes T shapes dtypes = Inr n\<rbrakk> \<Longrightarrow>
           tm_raw_data ob' = torch_slice T (tm_raw_data ob) 0 n"
  using assms by (auto simp: recycle_def Let_def split: if_splits)

text \<open>A request fits a page: it is what the constructor sized the pages for, or smaller.\<close>

definition fits_page :: "Torch \<Rightarrow> PagedTensorMemoryAllocator \<Rightarrow> torch_size list \<Rightarrow> torch_dtype list \<Rightarrow> bool" where
  "fits_page T pa shapes dtypes \<longleftrightarrow>
     (case get_size_bytes T shapes dtypes of Inl _ \<Rightarrow> False | Inr n \<Rightarrow> 0 \<le> n \<and> n \<le> pa_align_bytes pa)"

lemma recycle_ok:
  assumes T: "Torch_documented T" and r: "recycle T pa shapes dtypes fmt ob = Inr ob'"
    and ok: "page_obj_ok pa i ob" and free: "i \<in> set (pa_free_blocks pa)" and fit: "fits_page T pa shapes dtypes"
    and pa': "pa_static pa' = pa_static pa" and nf: "i \<notin> set (pa_free_blocks pa')"
  shows "page_obj_ok pa' i ob'"
proof -
  obtain n where n: "get_size_bytes T shapes dtypes = Inr n" "0 \<le> n" "n \<le> pa_align_bytes pa"
    using fit by (auto simp: fits_page_def split: sum.splits)
  have pg: "page pa' i = page pa i" using pa' by (simp add: page_def)
  have raw: "tm_raw_data ob = page pa i" using ok free by (simp add: page_obj_ok_def)
  note f = recycle_fields [OF r]
  have "tm_raw_data ob' = (fst (page pa i), n)" if "shapes \<noteq> pa_shapes pa"
    using f(11) [OF that n(1)] T n(2,3) by (simp add: raw page_def Torch_documented_def)
  then show ?thesis
    using ok f raw n pa' nf by (cases "shapes = pa_shapes pa") (auto simp: page_obj_ok_def pg)
qed

lemma page_obj_ok_mono:
  assumes "page_obj_ok pa i ob" and "pa_static pa' = pa_static pa"
    and "i \<in> set (pa_free_blocks pa') \<Longrightarrow> i \<in> set (pa_free_blocks pa)"
  shows "page_obj_ok pa' i ob"
  using assms by (auto simp: page_obj_ok_def page_def)

lemma page_static: "pa_static pa' = pa_static pa \<Longrightarrow> page pa' = page pa"
  by (simp add: page_def fun_eq_iff)

lemma pa_shape_ok_cong:
  assumes "mw_heap w' = mw_heap w" and "pa_static (mw_alloc w') = pa_static (mw_alloc w)"
    and "pa_free_blocks (mw_alloc w') = pa_free_blocks (mw_alloc w)"
  shows "pa_shape_ok w' = pa_shape_ok w"
  using assms page_static [OF assms(2)] by (simp add: pa_shape_ok_def Let_def page_obj_ok_def)

lemma take_page_ok:
  assumes T: "Torch_documented T" and ok: "pa_shape_ok w" and fb: "pa_free_blocks (mw_alloc w) = i # rest"
    and r: "recycle T (mw_alloc w) shapes dtypes fmt (mw_heap w ! i) = Inr ob"
    and fit: "fits_page T (mw_alloc w) shapes dtypes"
    and w': "mw_heap w' = (mw_heap w)[i := ob]" "pa_static (mw_alloc w') = pa_static (mw_alloc w)"
      "pa_free_blocks (mw_alloc w') = rest"
  shows "pa_shape_ok w'"
proof -
  have o: "distinct (i # rest)" "set (i # rest) \<subseteq> {..<length (mw_heap w)}"
    "\<And>j. j < length (mw_heap w) \<Longrightarrow> page_obj_ok (mw_alloc w) j (mw_heap w ! j)"
    using ok by (simp_all add: pa_shape_ok_def Let_def fb)
  have pg: "page (mw_alloc w') = page (mw_alloc w)" using w'(2) by (rule page_static)
  have "page_obj_ok (mw_alloc w') j (mw_heap w' ! j)" if "j < length (mw_heap w')" for j
  proof (cases "j = i")
    case True
    have "page_obj_ok (mw_alloc w') i ob"
      using o fb w' by (intro recycle_ok [OF T r _ _ fit w'(2)]) simp_all
    with True that show ?thesis by (simp add: w'(1))
  next
    case False
    with o(3) [of j] that show ?thesis
      using w' fb by (auto intro: page_obj_ok_mono)
  qed
  with o ok show ?thesis
    using w' pg by (simp add: pa_shape_ok_def Let_def)
qed

lemma give_back_ok:
  assumes ok: "pa_shape_ok w" and i: "i \<in> pa_live w"
  shows "pa_shape_ok (give_back w i)" and "pa_free_blocks (mw_alloc (give_back w i)) = pa_free_blocks (mw_alloc w) @ [i]"
    and "pa_static (mw_alloc (give_back w i)) = pa_static (mw_alloc w)"
    and "pa_num_active_allocations (mw_alloc (give_back w i)) = pa_num_active_allocations (mw_alloc w)"
    and "pa_total_allocated_size (mw_alloc (give_back w i)) = pa_total_allocated_size (mw_alloc w)"
    and "length (mw_heap (give_back w i)) = length (mw_heap w)"
proof -
  let ?w = "give_back w i" and ?pa = "mw_alloc w"
  show st: "pa_free_blocks (mw_alloc ?w) = pa_free_blocks ?pa @ [i]"
    "pa_static (mw_alloc ?w) = pa_static ?pa" "length (mw_heap ?w) = length (mw_heap w)"
    "pa_num_active_allocations (mw_alloc ?w) = pa_num_active_allocations ?pa"
    "pa_total_allocated_size (mw_alloc ?w) = pa_total_allocated_size ?pa"
    by (simp_all add: give_back_def Let_def)
  have i': "i < length (mw_heap w)" "i \<notin> set (pa_free_blocks ?pa)" using i by (auto simp: pa_live_def)
  have o: "\<And>j. j < length (mw_heap w) \<Longrightarrow> page_obj_ok ?pa j (mw_heap w ! j)"
    "pa_paged_buffers ?pa = map (page ?pa) [0..<length (mw_heap w)]" "0 < pa_align_bytes ?pa"
    using ok by (simp_all add: pa_shape_ok_def Let_def)
  have pg: "page (mw_alloc ?w) = page ?pa" using st(2) by (rule page_static)
  have "page_obj_ok (mw_alloc ?w) j (mw_heap ?w ! j)" if j: "j < length (mw_heap w)" for j
  proof (cases "j = i")
    case True
    have "nat (md_address (tm_meta (mw_heap w ! i))) = i" using o(1) [OF i'(1)] by (simp add: page_obj_ok_def)
    then have "tm_raw_data (mw_heap ?w ! i) = page ?pa i"
      using o(1) [OF i'(1)] o(2) i'(1) by (simp add: give_back_def Let_def page_obj_ok_def)
    moreover have "tm_meta (mw_heap ?w ! i) = tm_meta (mw_heap w ! i)" "tm_valid (mw_heap ?w ! i) = tm_valid (mw_heap w ! i)"
      using i'(1) by (simp_all add: give_back_def Let_def)
    ultimately show ?thesis
      using o(1) [OF i'(1)] o(3) st(2) True pg by (simp add: page_obj_ok_def page_def)
  next
    case False
    then have "mw_heap ?w ! j = mw_heap w ! j" by (simp add: give_back_def Let_def)
    with o(1) [OF j] False show ?thesis using st(1,2) by (auto intro: page_obj_ok_mono)
  qed
  with ok i' show "pa_shape_ok ?w"
    using st pg by (simp add: pa_shape_ok_def Let_def)
qed

lemma pa_allocate_ok:
  assumes T: "Torch_documented T" and ok: "pa_ok w"
    and r: "PagedTensorMemoryAllocator_allocate T w shapes dtypes fmt = Inr (w', r)"
    and fit: "fits_page T (mw_alloc w) (as_many shapes) (as_many dtypes)"
  shows "pa_ok w'" and "length (mw_heap w') = length (mw_heap w)" and "pa_static (mw_alloc w') = pa_static (mw_alloc w)"
    and "case r of None \<Rightarrow> w' = w \<and> pa_live w = {..<length (mw_heap w)}
         | Some i \<Rightarrow> i \<in> {..<length (mw_heap w)} - pa_live w \<and> pa_live w' = insert i (pa_live w)"
proof -
  have sh: "pa_shape_ok w" using ok by (simp add: pa_ok_def)
  have "pa_ok w' \<and> length (mw_heap w') = length (mw_heap w) \<and> pa_static (mw_alloc w') = pa_static (mw_alloc w) \<and>
    (case r of None \<Rightarrow> w' = w \<and> pa_live w = {..<length (mw_heap w)}
     | Some i \<Rightarrow> i \<in> {..<length (mw_heap w)} - pa_live w \<and> pa_live w' = insert i (pa_live w))"
  proof (cases "pa_free_blocks (mw_alloc w)")
    case Nil
    with r ok show ?thesis
      by (auto simp: PagedTensorMemoryAllocator_allocate_def adapt_shapes_and_dtypes_def Let_def pa_live_def split: if_splits)
  next
    case (Cons i rest)
    from r Cons obtain ob where ob: "recycle T (mw_alloc w) (as_many shapes) (as_many dtypes) fmt (mw_heap w ! i) = Inr ob"
      and r': "r = Some i"
      and w': "w' = w\<lparr>mw_heap := (mw_heap w)[i := ob],
                    mw_alloc := (mw_alloc w)\<lparr>pa_free_blocks := rest,
                      pa_num_active_allocations := pa_num_active_allocations (mw_alloc w) + 1,
                      pa_total_allocated_size := pa_total_allocated_size (mw_alloc w) + pa_align_bytes (mw_alloc w)\<rparr>\<rparr>"
      by (auto simp: PagedTensorMemoryAllocator_allocate_def adapt_shapes_and_dtypes_def Let_def split: if_splits)
    have "pa_shape_ok w'" by (rule take_page_ok [OF T sh Cons ob fit]) (simp_all add: w')
    moreover have "distinct (i # rest)" "set (i # rest) \<subseteq> {..<length (mw_heap w)}"
      using sh by (simp_all add: pa_shape_ok_def Let_def Cons)
    ultimately show ?thesis
      using ok by (auto simp: pa_ok_def w' r' Cons pa_live_def) (simp add: algebra_simps)
  qed
  then show "pa_ok w'" "length (mw_heap w') = length (mw_heap w)" "pa_static (mw_alloc w') = pa_static (mw_alloc w)"
    "case r of None \<Rightarrow> w' = w \<and> pa_live w = {..<length (mw_heap w)}
         | Some i \<Rightarrow> i \<in> {..<length (mw_heap w)} - pa_live w \<and> pa_live w' = insert i (pa_live w)"
    by blast+
qed

lemma pa_free_ok:
  assumes ok: "pa_ok w" and i: "i \<in> pa_live w"
  shows "pa_ok (PagedTensorMemoryAllocator_free w i)" and "pa_live (PagedTensorMemoryAllocator_free w i) = pa_live w - {i}"
    and "length (mw_heap (PagedTensorMemoryAllocator_free w i)) = length (mw_heap w)"
    and "pa_static (mw_alloc (PagedTensorMemoryAllocator_free w i)) = pa_static (mw_alloc w)"
proof -
  have sh: "pa_shape_ok w" using ok by (simp add: pa_ok_def)
  note g = give_back_ok [OF sh i]
  have "tm_valid (mw_heap w ! i)" using sh i by (simp add: pa_shape_ok_def Let_def page_obj_ok_def pa_live_def)
  then have e: "PagedTensorMemoryAllocator_free w i = (give_back w i)\<lparr>mw_alloc := (mw_alloc (give_back w i))\<lparr>
      pa_total_allocated_size := pa_total_allocated_size (mw_alloc w) - pa_align_bytes (mw_alloc w),
      pa_num_active_allocations := pa_num_active_allocations (mw_alloc w) - 1\<rparr>\<rparr>"
    using g by (simp add: PagedTensorMemoryAllocator_free_def Let_def)
  have cong: "pa_shape_ok (v\<lparr>mw_alloc := (mw_alloc v)\<lparr>pa_total_allocated_size := x, pa_num_active_allocations := y\<rparr>\<rparr>) = pa_shape_ok v"
    for v :: pa_world and x y
    by (rule pa_shape_ok_cong) simp_all
  show "pa_ok (PagedTensorMemoryAllocator_free w i)"
    using ok g unfolding pa_ok_def e cong by (simp add: left_diff_distrib)
  show "pa_live (PagedTensorMemoryAllocator_free w i) = pa_live w - {i}"
    using g by (auto simp: e pa_live_def)
  show "length (mw_heap (PagedTensorMemoryAllocator_free w i)) = length (mw_heap w)"
    "pa_static (mw_alloc (PagedTensorMemoryAllocator_free w i)) = pa_static (mw_alloc w)"
    using g by (simp_all add: e)
qed

lemma give_back_all_ok:
  assumes "pa_shape_ok w" and "distinct ids" and "set ids \<subseteq> pa_live w"
  defines "w' \<equiv> fold (\<lambda>i w. if \<not> tm_valid (mw_heap w ! i) then w else give_back w i) ids w"
  shows "pa_shape_ok w' \<and> pa_free_blocks (mw_alloc w') = pa_free_blocks (mw_alloc w) @ ids \<and>
    pa_static (mw_alloc w') = pa_static (mw_alloc w) \<and> length (mw_heap w') = length (mw_heap w) \<and>
    pa_num_active_allocations (mw_alloc w') = pa_num_active_allocations (mw_alloc w) \<and>
    pa_total_allocated_size (mw_alloc w') = pa_total_allocated_size (mw_alloc w)"
  using assms(1-3) unfolding w'_def
proof (induction ids arbitrary: w)
  case (Cons i ids)
  have i: "i \<in> pa_live w" using Cons.prems(3) by simp
  note g = give_back_ok [OF Cons.prems(1) i]
  have "tm_valid (mw_heap w ! i)"
    using Cons.prems(1) i by (simp add: pa_shape_ok_def Let_def page_obj_ok_def pa_live_def)
  moreover have "set ids \<subseteq> pa_live (give_back w i)"
    using Cons.prems(2,3) g by (auto simp: pa_live_def)
  ultimately show ?case
    using Cons.IH [OF g(1)] Cons.prems(2) g by simp
qed simp

lemma pa_batched_free_ok:
  assumes ok: "pa_ok w" and ids: "distinct ids" "set ids \<subseteq> pa_live w"
  defines "w' \<equiv> PagedTensorMemoryAllocator_batched_free w ids True"
  shows "pa_ok w'" and "pa_live w' = pa_live w - set ids" and "length (mw_heap w') = length (mw_heap w)"
    and "pa_static (mw_alloc w') = pa_static (mw_alloc w)"
proof -
  define v where "v = fold (\<lambda>i w. if \<not> tm_valid (mw_heap w ! i) then w else give_back w i) ids w"
  have sh: "pa_shape_ok w" using ok by (simp add: pa_ok_def)
  have g: "pa_shape_ok v" "pa_free_blocks (mw_alloc v) = pa_free_blocks (mw_alloc w) @ ids"
    "pa_static (mw_alloc v) = pa_static (mw_alloc w)" "length (mw_heap v) = length (mw_heap w)"
    "pa_num_active_allocations (mw_alloc v) = pa_num_active_allocations (mw_alloc w)"
    "pa_total_allocated_size (mw_alloc v) = pa_total_allocated_size (mw_alloc w)"
    using give_back_all_ok [OF sh ids] unfolding v_def by blast+
  have e: "w' = v\<lparr>mw_alloc := (mw_alloc v)\<lparr>
      pa_total_allocated_size := pa_total_allocated_size (mw_alloc w) - pa_align_bytes (mw_alloc w) * int (length ids),
      pa_num_active_allocations := pa_num_active_allocations (mw_alloc w) - int (length ids)\<rparr>\<rparr>"
    using g by (simp add: w'_def PagedTensorMemoryAllocator_batched_free_def v_def [symmetric] Let_def)
  have "pa_shape_ok w'" using g(1) pa_shape_ok_cong [of w' v] by (simp add: e)
  then show "pa_ok w'"
    using ok g by (simp add: pa_ok_def e algebra_simps)
  show "pa_live w' = pa_live w - set ids" "length (mw_heap w') = length (mw_heap w)"
    "pa_static (mw_alloc w') = pa_static (mw_alloc w)"
    using g by (auto simp: e pa_live_def)
qed

lemma take_pages_ok:
  assumes "Torch_documented T" and "pa_shape_ok w" and "fits_page T (mw_alloc w) shapes dtypes"
    and "distinct bs" and "set bs \<subseteq> pa_live w"
    and "take_pages T shapes dtypes fmt k w bs = Inr (w', r)"
  shows "pa_shape_ok w' \<and> pa_static (mw_alloc w') = pa_static (mw_alloc w) \<and> length (mw_heap w') = length (mw_heap w) \<and>
    pa_num_active_allocations (mw_alloc w') = pa_num_active_allocations (mw_alloc w) \<and>
    pa_total_allocated_size (mw_alloc w') = pa_total_allocated_size (mw_alloc w) \<and>
    (let fb = pa_free_blocks (mw_alloc w) in
     case r of None \<Rightarrow> length fb < k \<and> pa_free_blocks (mw_alloc w') = bs @ fb
     | Some cs \<Rightarrow> k \<le> length fb \<and> cs = bs @ take k fb \<and> pa_free_blocks (mw_alloc w') = drop k fb)"
  using assms(2-6)
proof (induction k arbitrary: w bs)
  case (Suc k)
  show ?case
  proof (cases "pa_free_blocks (mw_alloc w)")
    case Nil
    with Suc.prems(5) have r: "r = None" "w' = PagedTensorMemoryAllocator_batched_free w bs False" by simp_all
    with give_back_all_ok [OF Suc.prems(1,3,4)] Nil show ?thesis
      by (simp add: PagedTensorMemoryAllocator_batched_free_def Let_def)
  next
    case (Cons i rest)
    with Suc.prems(5) obtain ob where ob: "recycle T (mw_alloc w) shapes dtypes fmt (mw_heap w ! i) = Inr ob"
      and rec: "take_pages T shapes dtypes fmt k
        (w\<lparr>mw_heap := (mw_heap w)[i := ob], mw_alloc := (mw_alloc w)\<lparr>pa_free_blocks := rest\<rparr>\<rparr>) (bs @ [i]) = Inr (w', r)"
      by auto
    let ?v = "w\<lparr>mw_heap := (mw_heap w)[i := ob], mw_alloc := (mw_alloc w)\<lparr>pa_free_blocks := rest\<rparr>\<rparr>"
    have sh: "pa_shape_ok ?v" by (rule take_page_ok [OF assms(1) Suc.prems(1) Cons ob Suc.prems(2)]) simp_all
    have d: "distinct (i # rest)" "set (i # rest) \<subseteq> {..<length (mw_heap w)}"
      using Suc.prems(1) by (simp_all add: pa_shape_ok_def Let_def Cons)
    have "fits_page T (mw_alloc ?v) shapes dtypes" using Suc.prems(2) by (auto simp: fits_page_def split: sum.splits)
    moreover have "distinct (bs @ [i])" "set (bs @ [i]) \<subseteq> pa_live ?v"
      using d Suc.prems(3,4) by (auto simp: pa_live_def Cons)
    ultimately show ?thesis
      using Suc.IH [OF sh _ _ _ rec] Cons by (auto simp: Let_def split: option.splits)
  qed
qed (auto simp: Let_def)

lemma pa_batched_allocate_ok:
  assumes T: "Torch_documented T" and ok: "pa_ok w" and b: "0 \<le> b"
    and r: "PagedTensorMemoryAllocator_batched_allocate T w shapes dtypes b fmt = Inr (w', r)"
    and fit: "fits_page T (mw_alloc w) (as_many shapes) (as_many dtypes)"
  shows "pa_ok w'" and "length (mw_heap w') = length (mw_heap w)" and "pa_static (mw_alloc w') = pa_static (mw_alloc w)"
    and "case r of
       None \<Rightarrow> int (length (pa_free_blocks (mw_alloc w))) < b \<and> pa_free_blocks (mw_alloc w') = pa_free_blocks (mw_alloc w)
     | Some ids \<Rightarrow> ids = take (nat b) (pa_free_blocks (mw_alloc w)) \<and> length ids = nat b \<and>
         pa_free_blocks (mw_alloc w') = drop (nat b) (pa_free_blocks (mw_alloc w))"
proof -
  have sh: "pa_shape_ok w" using ok by (simp add: pa_ok_def)
  from r obtain v q where v: "take_pages T (as_many shapes) (as_many dtypes) fmt (nat b) w [] = Inr (v, q)"
    and w': "(w', r) = (case q of None \<Rightarrow> (v, None)
       | Some blocks \<Rightarrow> (v\<lparr>mw_alloc := (mw_alloc v)\<lparr>
            pa_num_active_allocations := pa_num_active_allocations (mw_alloc v) + b,
            pa_total_allocated_size := (pa_num_active_allocations (mw_alloc v) + b) * pa_align_bytes (mw_alloc v)\<rparr>\<rparr>,
          Some blocks))"
    by (auto simp: PagedTensorMemoryAllocator_batched_allocate_def adapt_shapes_and_dtypes_def Let_def
        split: if_splits option.splits)
  have k: "pa_shape_ok v" "pa_static (mw_alloc v) = pa_static (mw_alloc w)" "length (mw_heap v) = length (mw_heap w)"
    "pa_num_active_allocations (mw_alloc v) = pa_num_active_allocations (mw_alloc w)"
    "pa_total_allocated_size (mw_alloc v) = pa_total_allocated_size (mw_alloc w)"
    "case q of None \<Rightarrow> length (pa_free_blocks (mw_alloc w)) < nat b \<and> pa_free_blocks (mw_alloc v) = pa_free_blocks (mw_alloc w)
     | Some cs \<Rightarrow> nat b \<le> length (pa_free_blocks (mw_alloc w)) \<and> cs = take (nat b) (pa_free_blocks (mw_alloc w)) \<and>
         pa_free_blocks (mw_alloc v) = drop (nat b) (pa_free_blocks (mw_alloc w))"
    using take_pages_ok [OF T sh fit _ _ v] by (simp_all add: Let_def split: option.splits)
  have "pa_ok w' \<and> length (mw_heap w') = length (mw_heap w) \<and> pa_static (mw_alloc w') = pa_static (mw_alloc w) \<and>
    (case r of
       None \<Rightarrow> int (length (pa_free_blocks (mw_alloc w))) < b \<and> pa_free_blocks (mw_alloc w') = pa_free_blocks (mw_alloc w)
     | Some ids \<Rightarrow> ids = take (nat b) (pa_free_blocks (mw_alloc w)) \<and> length ids = nat b \<and>
         pa_free_blocks (mw_alloc w') = drop (nat b) (pa_free_blocks (mw_alloc w)))"
  proof (cases q)
    case None
    with k w' ok b show ?thesis by (auto simp: pa_ok_def)
  next
    case (Some cs)
    with w' have e: "r = Some cs" "w' = v\<lparr>mw_alloc := (mw_alloc v)\<lparr>
            pa_num_active_allocations := pa_num_active_allocations (mw_alloc v) + b,
            pa_total_allocated_size := (pa_num_active_allocations (mw_alloc v) + b) * pa_align_bytes (mw_alloc v)\<rparr>\<rparr>"
      by simp_all
    have "pa_shape_ok w'" using k(1) pa_shape_ok_cong [of w' v] by (simp add: e)
    with k Some ok b show ?thesis by (simp add: e pa_ok_def of_nat_diff)
  qed
  then show "pa_ok w'" "length (mw_heap w') = length (mw_heap w)" "pa_static (mw_alloc w') = pa_static (mw_alloc w)"
    "case r of
       None \<Rightarrow> int (length (pa_free_blocks (mw_alloc w))) < b \<and> pa_free_blocks (mw_alloc w') = pa_free_blocks (mw_alloc w)
     | Some ids \<Rightarrow> ids = take (nat b) (pa_free_blocks (mw_alloc w)) \<and> length ids = nat b \<and>
         pa_free_blocks (mw_alloc w') = drop (nat b) (pa_free_blocks (mw_alloc w))"
    by blast+
qed

lemma page_objects_fields:
  assumes "page_objects T align shapes dtypes fmt idx bufs = Inr obs"
  shows "length obs = length bufs \<and>
     (\<forall>k < length bufs. tm_raw_data (obs ! k) = bufs ! k \<and> tm_valid (obs ! k) \<and>
        md_address (tm_meta (obs ! k)) = idx + int k \<and> md_phy_size (tm_meta (obs ! k)) = align)"
  using assms
proof (induction T align shapes dtypes fmt idx bufs arbitrary: obs rule: page_objects.induct)
  case (2 T align shapes dtypes fmt idx buf bufs)
  from 2(2) obtain shape dtype ob obs' where
    ob: "TensorMemoryObj_init T buf (fresh_metadata shape dtype idx align fmt shapes dtypes) True = Inr ob"
    and obs': "page_objects T align shapes dtypes fmt (idx + 1) bufs = Inr obs'" and obs: "obs = ob # obs'"
    by auto
  note ih = 2(1) [OF obs']
  show ?case
    using ih tm_init_fields [OF ob] by (auto simp: obs nth_Cons fresh_metadata_def split: nat.splits)
qed simp

lemma pa_init_ok:
  assumes T: "Torch_documented T" and r: "PagedTensorMemoryAllocator_init T tensor shapes dtypes fmt = Inr w"
    and n: "get_size_bytes T shapes dtypes = Inr n" "0 < n" and len: "0 \<le> snd tensor"
  shows "pa_ok w" and "pa_live w = {}" and "pa_align_bytes (mw_alloc w) = n" and "pa_shapes (mw_alloc w) = shapes"
proof -
  have md: "snd tensor mod n = 0" using r n by (auto simp: PagedTensorMemoryAllocator_init_def split: if_splits)
  define c where "c = snd tensor div n"
  have c: "snd tensor = n * c" "0 \<le> c" using md n(2) len by (auto simp: c_def pos_imp_zdiv_nonneg_iff)
  have sp: "torch_split T tensor n = map (\<lambda>i. (fst tensor + int i * n, n)) [0..<nat c]"
    using T n(2) c by (cases tensor) (simp add: Torch_documented_def)
  obtain obs where obs: "page_objects T n shapes dtypes fmt 0 (torch_split T tensor n) = Inr obs"
    and w: "w = \<lparr>mw_heap = obs, mw_alloc = \<lparr>pa_buffer = tensor, pa_shapes = shapes, pa_dtypes = dtypes, pa_fmt = fmt,
         pa_align_bytes = n, pa_paged_buffers = torch_split T tensor n, pa_free_blocks = [0..<length obs],
         pa_num_active_allocations = 0, pa_total_allocated_size = 0\<rparr>, mw_pinned = []\<rparr>"
    using r n md by (auto simp: PagedTensorMemoryAllocator_init_def Let_def)
  note f = page_objects_fields [OF obs]
  have l: "length obs = nat c" using f by (simp add: sp)
  have "page_obj_ok (mw_alloc w) i (mw_heap w ! i)" if "i < length obs" for i
    using f that n(2) by (simp add: page_obj_ok_def w page_def sp)
  then show "pa_ok w"
    using n(2) c l by (auto simp: pa_ok_def pa_shape_ok_def Let_def w sp page_def)
  show "pa_live w = {}" "pa_align_bytes (mw_alloc w) = n" "pa_shapes (mw_alloc w) = shapes"
    by (auto simp: pa_live_def w)
qed

section \<open>The allocator owns its objects\<close>

lemma map_update_same: "f y = f (xs ! i) \<Longrightarrow> map f (xs[i := y]) = map f xs"
  by (cases "i < length xs") (simp_all add: map_update list_update_beyond, metis list_update_id nth_map)

interpretation pa: object_owner PagedTensorMemoryAllocator_free
proof (unfold_locales, goal_cases)
  case (1 i w)
  let ?w = "PagedTensorMemoryAllocator_free w i"
  have "counts ?w = counts w"
    unfolding counts_def PagedTensorMemoryAllocator_free_def give_back_def Let_def by (simp add: map_update_same)
  moreover have "mw_pinned ?w = mw_pinned w"
    by (simp add: PagedTensorMemoryAllocator_free_def give_back_def Let_def)
  moreover have "tm_valid (mw_heap ?w ! j) = tm_valid (mw_heap w ! j)" if "j \<noteq> i" for j
    using that by (simp add: PagedTensorMemoryAllocator_free_def give_back_def Let_def)
  ultimately show ?case by (simp add: frees_only_def)
qed

section \<open>Histories\<close>

datatype pa_op =
    PopAllocate "torch_size one_or_list" "torch_dtype one_or_list" MemoryFormat
  | PopBatchedAllocate "torch_size one_or_list" "torch_dtype one_or_list" int MemoryFormat
  | PopFree mem_id
  | PopBatchedFree "mem_id list"

text \<open>A client frees only objects in use, and lists an object at most once in a batch.\<close>

definition in_use :: "pa_world \<Rightarrow> mem_id \<Rightarrow> bool" where
  "in_use w i \<longleftrightarrow> i < length (mw_heap w) \<and> i \<notin> set (pa_free_blocks (mw_alloc w))"

fun pa_step :: "Torch \<Rightarrow> pa_op \<Rightarrow> pa_world \<Rightarrow> pa_world" where
  "pa_step T (PopAllocate shapes dtypes fmt) w =
     (case PagedTensorMemoryAllocator_allocate T w shapes dtypes fmt of Inl _ \<Rightarrow> w | Inr (w', _) \<Rightarrow> w')"
| "pa_step T (PopBatchedAllocate shapes dtypes b fmt) w =
     (case PagedTensorMemoryAllocator_batched_allocate T w shapes dtypes b fmt of Inl _ \<Rightarrow> w | Inr (w', _) \<Rightarrow> w')"
| "pa_step T (PopFree i) w = (if in_use w i then PagedTensorMemoryAllocator_free w i else w)"
| "pa_step T (PopBatchedFree ids) w =
     (if distinct ids \<and> list_all (in_use w) ids then PagedTensorMemoryAllocator_batched_free w ids True else w)"

fun pa_op_ok :: "Torch \<Rightarrow> PagedTensorMemoryAllocator \<Rightarrow> pa_op \<Rightarrow> bool" where
  "pa_op_ok T pa (PopAllocate shapes dtypes fmt) = fits_page T pa (as_many shapes) (as_many dtypes)"
| "pa_op_ok T pa (PopBatchedAllocate shapes dtypes b fmt) = (fits_page T pa (as_many shapes) (as_many dtypes) \<and> 0 \<le> b)"
| "pa_op_ok T pa _ = True"

lemma in_use_live: "in_use w i \<longleftrightarrow> i \<in> pa_live w"
  by (auto simp: in_use_def pa_live_def)

lemma fits_page_static: "pa_static pa' = pa_static pa \<Longrightarrow> fits_page T pa' shapes dtypes = fits_page T pa shapes dtypes"
  by (simp add: fits_page_def split: sum.split)

lemma pa_step_ok:
  assumes T: "Torch_documented T" and ok: "pa_ok w" and op: "pa_op_ok T (mw_alloc w) op"
  defines "w' \<equiv> pa_step T op w"
  shows "pa_ok w' \<and> pa_static (mw_alloc w') = pa_static (mw_alloc w) \<and> length (mw_heap w') = length (mw_heap w)"
proof (cases op)
  case (PopAllocate shapes dtypes fmt)
  show ?thesis
  proof (cases "PagedTensorMemoryAllocator_allocate T w shapes dtypes fmt")
    case (Inl e)
    with ok show ?thesis by (simp add: w'_def PopAllocate)
  next
    case (Inr t)
    obtain v r where t: "t = (v, r)" by (cases t)
    from pa_allocate_ok(1-3) [OF T ok Inr [unfolded t]] op show ?thesis
      by (simp add: w'_def PopAllocate Inr t)
  qed
next
  case (PopBatchedAllocate shapes dtypes b fmt)
  show ?thesis
  proof (cases "PagedTensorMemoryAllocator_batched_allocate T w shapes dtypes b fmt")
    case (Inl e)
    with ok show ?thesis by (simp add: w'_def PopBatchedAllocate)
  next
    case (Inr t)
    obtain v r where t: "t = (v, r)" by (cases t)
    from pa_batched_allocate_ok(1-3) [OF T ok _ Inr [unfolded t]] op show ?thesis
      by (simp add: w'_def PopBatchedAllocate Inr t)
  qed
next
  case (PopFree i)
  then show ?thesis using ok pa_free_ok [OF ok, of i] by (simp add: w'_def in_use_live)
next
  case (PopBatchedFree ids)
  show ?thesis
  proof (cases "distinct ids \<and> list_all (in_use w) ids")
    case True
    then have "distinct ids" "set ids \<subseteq> pa_live w" by (auto simp: list_all_iff in_use_live)
    from pa_batched_free_ok [OF ok this] True show ?thesis by (simp add: w'_def PopBatchedFree)
  qed (use ok in \<open>auto simp: w'_def PopBatchedFree\<close>)
qed

lemma pa_op_ok_static: "pa_static pa' = pa_static pa \<Longrightarrow> pa_op_ok T pa' op = pa_op_ok T pa op"
  using fits_page_static [of pa' pa T] by (cases op) simp_all

lemma pa_history_ok:
  assumes T: "Torch_documented T" and "pa_ok w" and "\<forall>op \<in> set ops. pa_op_ok T (mw_alloc w) op"
  defines "w' \<equiv> fold (pa_step T) ops w"
  shows "pa_ok w' \<and> pa_static (mw_alloc w') = pa_static (mw_alloc w) \<and> length (mw_heap w') = length (mw_heap w)"
  using assms(2,3) unfolding w'_def
proof (induction ops arbitrary: w)
  case (Cons op ops)
  let ?v = "pa_step T op w"
  have v: "pa_ok ?v" "pa_static (mw_alloc ?v) = pa_static (mw_alloc w)" "length (mw_heap ?v) = length (mw_heap w)"
    using pa_step_ok [OF T Cons.prems(1), of op] Cons.prems(2) by simp_all
  have "\<forall>op \<in> set ops. pa_op_ok T (mw_alloc ?v) op"
    using Cons.prems(2) pa_op_ok_static [OF v(2)] by simp
  from Cons.IH [OF v(1) this] v(2,3) show ?case by simp
qed simp

lemma page_disjoint:
  assumes "0 < pa_align_bytes pa" and "i \<noteq> j"
  shows "rng (page pa i) \<inter> rng (page pa j) = {}"
proof -
  let ?a = "pa_align_bytes pa"
  have "int i * ?a + ?a \<le> int j * ?a" if "i < j" for i j :: nat
    using that assms(1) by (metis distrib_right mult.commute mult_1 mult_le_cancel_left_pos of_nat_Suc add.commute Suc_leI of_nat_le_iff)
  from this [of i j] this [of j i] assms(2) show ?thesis
    by (auto simp: page_def addr_range_def) (metis add_less_cancel_left linorder_not_less nat_neq_iff order_less_le_trans)
qed

lemma pa_ok_disjoint:
  assumes ok: "pa_ok w" and "i < length (mw_heap w)" and "j < length (mw_heap w)" and "i \<noteq> j"
  shows "rng (tm_raw_data (mw_heap w ! i)) \<inter> rng (tm_raw_data (mw_heap w ! j)) = {}"
proof -
  have o: "0 < pa_align_bytes (mw_alloc w)" "page_obj_ok (mw_alloc w) i (mw_heap w ! i)" "page_obj_ok (mw_alloc w) j (mw_heap w ! j)"
    using assms by (simp_all add: pa_ok_def pa_shape_ok_def Let_def)
  have "rng (tm_raw_data ob) \<subseteq> rng (page (mw_alloc w) k)" if "page_obj_ok (mw_alloc w) k ob" for k ob
    using that by (auto simp: page_obj_ok_def addr_range_def page_def)
  from this [OF o(2)] this [OF o(3)] page_disjoint [OF o(1) assms(4)] show ?thesis by blast
qed

text \<open>Recycling never touches the group offsets computed when the page objects were made.\<close>

lemma pa_step_prefix:
  "map tm_group_prefix_sum (mw_heap (pa_step T op w)) = map tm_group_prefix_sum (mw_heap w)"
proof -
  have gb: "map tm_group_prefix_sum (mw_heap (give_back w i)) = map tm_group_prefix_sum (mw_heap w)" for w i
    by (simp add: give_back_def Let_def map_update_same)
  have fold: "map tm_group_prefix_sum (mw_heap (fold (\<lambda>i w. if \<not> tm_valid (mw_heap w ! i) then w else give_back w i) ids w))
      = map tm_group_prefix_sum (mw_heap w)" for ids w
    by (induction ids arbitrary: w) (simp_all add: gb)
  have tp: "take_pages T shapes dtypes fmt k w bs = Inr (w', r) \<Longrightarrow>
      map tm_group_prefix_sum (mw_heap w') = map tm_group_prefix_sum (mw_heap w)" for T shapes dtypes fmt k w bs w' r
  proof (induction k arbitrary: w bs)
    case (Suc k)
    show ?case
    proof (cases "pa_free_blocks (mw_alloc w)")
      case Nil
      with Suc.prems show ?thesis
        using fold by (auto simp: PagedTensorMemoryAllocator_batched_free_def Let_def)
    next
      case (Cons i rest)
      with Suc.prems obtain ob where ob: "recycle T (mw_alloc w) shapes dtypes fmt (mw_heap w ! i) = Inr ob"
        and rec: "take_pages T shapes dtypes fmt k
          (w\<lparr>mw_heap := (mw_heap w)[i := ob], mw_alloc := (mw_alloc w)\<lparr>pa_free_blocks := rest\<rparr>\<rparr>) (bs @ [i]) = Inr (w', r)"
        by auto
      from Suc.IH [OF rec] recycle_fields(9) [OF ob] show ?thesis by (simp add: map_update_same)
    qed
  qed simp
  show ?thesis
  proof (cases op)
    case (PopAllocate shapes dtypes fmt)
    then show ?thesis
      by (auto simp: PagedTensorMemoryAllocator_allocate_def adapt_shapes_and_dtypes_def Let_def
          split: sum.splits if_splits list.splits dest!: recycle_fields(9) intro: map_update_same)
  next
    case (PopBatchedAllocate shapes dtypes b fmt)
    then show ?thesis
      by (auto simp: PagedTensorMemoryAllocator_batched_allocate_def adapt_shapes_and_dtypes_def Let_def
          split: sum.splits if_splits option.splits dest!: tp)
  next
    case (PopFree i)
    then show ?thesis using gb by (simp add: PagedTensorMemoryAllocator_free_def Let_def)
  next
    case (PopBatchedFree ids)
    then show ?thesis using fold by (simp add: PagedTensorMemoryAllocator_batched_free_def Let_def)
  qed
qed

lemma pa_history_prefix:
  "map tm_group_prefix_sum (mw_heap (fold (pa_step T) ops w)) = map tm_group_prefix_sum (mw_heap w)"
  by (induction ops arbitrary: w) (simp_all add: pa_step_prefix)

lemma page_objects_size:
  assumes "page_objects T align shapes dtypes fmt idx bufs = Inr obs" and "get_size_bytes T shapes dtypes = Inr n"
  shows "\<forall>ob \<in> set obs. TensorMemoryObj_get_size ob = n"
  using assms
proof (induction T align shapes dtypes fmt idx bufs arbitrary: obs rule: page_objects.induct)
  case (2 T align shapes dtypes fmt idx buf bufs)
  from 2(2) obtain shape dtype ob obs' where
    ob: "TensorMemoryObj_init T buf (fresh_metadata shape dtype idx align fmt shapes dtypes) True = Inr ob"
    and obs': "page_objects T align shapes dtypes fmt (idx + 1) bufs = Inr obs'" and obs: "obs = ob # obs'"
    by auto
  have "tm_group_prefix_sum ob = 0 # prefix_sums T 0 (zip shapes dtypes)"
    using ob 2(3) by (auto simp: TensorMemoryObj_init_def fresh_metadata_def get_size_bytes_def split: if_splits)
  then have "TensorMemoryObj_get_size ob = n"
    using 2(3) last_prefix_sums [of 0 T "zip shapes dtypes"]
    by (auto simp: TensorMemoryObj_get_size_def get_size_bytes_def case_prod_unfold split: if_splits)
  with 2(1) [OF obs' 2(3)] show ?case by (simp add: obs)
qed simp

section \<open>Properties\<close>


lemma paged_example_init:
  "\<exists>w0. PagedTensorMemoryAllocator_init plain_torch (0, 24) [[4]] [''float16''] KV_2TD = Inr w0 \<and>
        pa_align_bytes (mw_alloc w0) = 8"
proof -
  have "case PagedTensorMemoryAllocator_init plain_torch (0, 24) [[4]] [''float16''] KV_2TD of
      Inl e \<Rightarrow> False | Inr w0 \<Rightarrow> pa_align_bytes (mw_alloc w0) = 8" by code_simp
  then show ?thesis by (auto split: sum.splits)
qed

lemma paged_example_size: "get_size_bytes plain_torch [[4]] [''float16''] = Inr 8"
  by (simp add: get_size_bytes_def plain_torch_def)


text \<open>
  \<^verbatim>\<open>allocate\<close> hands out a page that nobody holds, and returns None exactly when
  every page is in use, leaving the allocator untouched.
\<close>

lemma paged_allocate_exclusive:
  assumes "Torch_documented T" and "pa_ok w"
    and "PagedTensorMemoryAllocator_allocate T w shapes dtypes fmt = Inr (w', r)"
    and "fits_page T (mw_alloc w) (as_many shapes) (as_many dtypes)"
  shows "case r of None \<Rightarrow> w' = w \<and> pa_live w = {..<length (mw_heap w)}
         | Some i \<Rightarrow> i \<in> {..<length (mw_heap w)} - pa_live w \<and> pa_live w' = insert i (pa_live w)"
  using assms by (rule pa_allocate_ok(4))

text \<open>
  \<^verbatim>\<open>batched_allocate\<close> is all or nothing: it returns None only when fewer pages than
  requested are free, and then the queue of free pages is what it was before, in the same
  order; otherwise it returns the first pages of the queue, as many as requested.
\<close>

lemma paged_batch_all_or_nothing:
  assumes "Torch_documented T" and "pa_ok w" and "0 \<le> b"
    and "PagedTensorMemoryAllocator_batched_allocate T w shapes dtypes b fmt = Inr (w', r)"
    and "fits_page T (mw_alloc w) (as_many shapes) (as_many dtypes)"
  shows "pa_ok w' \<and> (case r of
       None \<Rightarrow> int (length (pa_free_blocks (mw_alloc w))) < b \<and> pa_free_blocks (mw_alloc w') = pa_free_blocks (mw_alloc w)
     | Some ids \<Rightarrow> ids = take (nat b) (pa_free_blocks (mw_alloc w)) \<and> length ids = nat b \<and>
         pa_free_blocks (mw_alloc w') = drop (nat b) (pa_free_blocks (mw_alloc w)))"
  using pa_batched_allocate_ok(1,4) [OF assms] by simp

text \<open>
  The size that a recycled object reports does not follow the request: whatever
  shapes it was allocated for, \<^verbatim>\<open>get_size\<close> is the page size of the allocator, because the group
  offsets are computed only once.
\<close>

lemma paged_size_ignores_request:
  assumes "PagedTensorMemoryAllocator_init T tensor shapes dtypes fmt = Inr w0"
    and "get_size_bytes T shapes dtypes = Inr n" and "w = fold (pa_step T) ops w0" and "i < length (mw_heap w)"
  shows "TensorMemoryObj_get_size (mw_heap w ! i) = n"
proof -
  from assms(1,2) obtain bufs where "page_objects T n shapes dtypes fmt 0 bufs = Inr (mw_heap w0)"
    by (auto simp: PagedTensorMemoryAllocator_init_def Let_def split: if_splits)
  from page_objects_size [OF this assms(2)] have all: "\<forall>ob \<in> set (mw_heap w0). TensorMemoryObj_get_size ob = n" .
  have eq: "map tm_group_prefix_sum (mw_heap w) = map tm_group_prefix_sum (mw_heap w0)"
    using pa_history_prefix assms(3) by simp
  then have "length (mw_heap w) = length (mw_heap w0)" using map_eq_imp_length_eq by blast
  moreover have "tm_group_prefix_sum (mw_heap w ! i) = tm_group_prefix_sum (mw_heap w0 ! i)"
    using arg_cong [OF eq, of "\<lambda>xs. xs ! i"] assms(4) calculation by simp
  ultimately show ?thesis using all assms(4) by (simp add: TensorMemoryObj_get_size_def)
qed

text \<open>
  The paged allocator does not invalidate what it frees, so the reset of a
  negative reference count to zero does not help here: dropping the last reference twice puts
  the same object on the free queue twice, for two later clients.
\<close>

lemma paged_double_release:
  assumes i: "i < length (mw_heap w)" and ob: "tm_valid (mw_heap w ! i)" "tm_has_parent (mw_heap w ! i)"
    and c: "ref_count_of w i \<le> 1" "pin_count_of w i = 0"
  shows "pa_free_blocks (mw_alloc (ref_count_down PagedTensorMemoryAllocator_free
           (ref_count_down PagedTensorMemoryAllocator_free w i) i))
       = pa_free_blocks (mw_alloc w) @ [i, i]"
proof -
  let ?f = "\<lambda>w. ref_count_down PagedTensorMemoryAllocator_free w i"
  have step: "pa_free_blocks (mw_alloc (?f w)) = pa_free_blocks (mw_alloc w) @ [i] \<and>
      i < length (mw_heap (?f w)) \<and> tm_valid (mw_heap (?f w) ! i) \<and> tm_has_parent (mw_heap (?f w) ! i) \<and>
      ref_count_of (?f w) i = 0 \<and> pin_count_of (?f w) i = 0"
    if "i < length (mw_heap w)" "tm_valid (mw_heap w ! i)" "tm_has_parent (mw_heap w ! i)"
      "ref_count_of w i \<le> 1" "pin_count_of w i = 0" for w
    using that
    by (simp add: ref_count_down_eq Let_def PagedTensorMemoryAllocator_free_def give_back_def)
  from step [OF i ob c] step [of "?f w"] show ?thesis by simp
qed

end
