(* ===== verification/Mixed_Allocator.thy ===== *)
theory Mixed_Allocator
  imports Paged_Allocator
begin

text \<open>
  The allocators of \<^verbatim>\<open>lmcache/v1/memory_management.py\<close> that own a buffer and delegate to a tensor
  or a paged allocator: \<^verbatim>\<open>HostMemoryAllocator\<close>, \<^verbatim>\<open>PinMemoryAllocator\<close>, \<^verbatim>\<open>MixedMemoryAllocator\<close>,
  \<^verbatim>\<open>GPUMemoryAllocator\<close>, \<^verbatim>\<open>PagedCpuGpuMemoryAllocator\<close>, and \<^verbatim>\<open>AdHocMemoryAllocator\<close>.

  What their clients rely on is the locale \<open>memory_allocator\<close>: objects in use share no bytes,
  an allocation gives an object that was not in use, a release takes exactly that object
  away. It is interpreted for the tensor allocator, the paged allocator, and the delegation.
  The locks of the classes make each method atomic. The calls that map or register memory
  with the device have no effect on the modelled state.
\<close>

section \<open>The delegate\<close>

text \<open>The attribute \<^verbatim>\<open>self.allocator\<close> (in \<^verbatim>\<open>MixedMemoryAllocator\<close>: \<^verbatim>\<open>self.pin_allocator\<close>), with the objects it owns.\<close>

datatype pool = TensorPool ta_world | PagedPool pa_world

definition ALIGN_BYTES :: int where
  "ALIGN_BYTES = 4096"

text \<open>The keyword arguments that select and configure the delegate.\<close>

record paging_args =
  kw_use_paging :: bool
  kw_shapes :: "torch_size list option"
  kw_dtypes :: "torch_dtype list option"
  kw_fmt :: "MemoryFormat option"

definition make_pool :: "SortedList_ops \<Rightarrow> Torch \<Rightarrow> int \<Rightarrow> int \<Rightarrow> paging_args \<Rightarrow> pool result" where
  "make_pool S T sz align_bytes kw =
     (if kw_use_paging kw
      then (case kw_shapes kw of None \<Rightarrow> Inl AssertionError
            | Some shapes \<Rightarrow> (case kw_dtypes kw of None \<Rightarrow> Inl AssertionError
            | Some dtypes \<Rightarrow> (case kw_fmt kw of None \<Rightarrow> Inl AssertionError
            | Some fmt \<Rightarrow>
                bind_result (PagedTensorMemoryAllocator_init T (0, sz) shapes dtypes fmt) (\<lambda>w. Inr (PagedPool w)))))
      else Inr (TensorPool \<lparr>mw_heap = [], mw_alloc = TensorMemoryAllocator_init S (0, sz) align_bytes None,
                            mw_pinned = []\<rparr>))"

definition pool_allocate ::
  "SortedList_ops \<Rightarrow> Torch \<Rightarrow> pool \<Rightarrow> torch_size one_or_list \<Rightarrow> torch_dtype one_or_list \<Rightarrow> MemoryFormat \<Rightarrow>
   (pool \<times> mem_id option) result"
where
  "pool_allocate S T p shapes dtypes fmt =
     (case p of
        TensorPool w \<Rightarrow>
          bind_result (TensorMemoryAllocator_allocate S T w shapes dtypes fmt) (\<lambda>(w', r). Inr (TensorPool w', r))
      | PagedPool w \<Rightarrow>
          bind_result (PagedTensorMemoryAllocator_allocate T w shapes dtypes fmt) (\<lambda>(w', r). Inr (PagedPool w', r)))"

definition pool_batched_allocate ::
  "SortedList_ops \<Rightarrow> Torch \<Rightarrow> pool \<Rightarrow> torch_size one_or_list \<Rightarrow> torch_dtype one_or_list \<Rightarrow> int \<Rightarrow> MemoryFormat \<Rightarrow>
   (pool \<times> mem_id list option) result"
where
  "pool_batched_allocate S T p shapes dtypes batch_size fmt =
     (case p of
        TensorPool w \<Rightarrow>
          bind_result (TensorMemoryAllocator_batched_allocate S T w shapes dtypes batch_size fmt)
            (\<lambda>(w', r). Inr (TensorPool w', r))
      | PagedPool w \<Rightarrow>
          bind_result (PagedTensorMemoryAllocator_batched_allocate T w shapes dtypes batch_size fmt)
            (\<lambda>(w', r). Inr (PagedPool w', r)))"

definition pool_free :: "SortedList_ops \<Rightarrow> pool \<Rightarrow> mem_id \<Rightarrow> pool" where
  "pool_free S p i =
     (case p of TensorPool w \<Rightarrow> TensorPool (TensorMemoryAllocator_free S w i)
      | PagedPool w \<Rightarrow> PagedPool (PagedTensorMemoryAllocator_free w i))"

definition pool_batched_free :: "SortedList_ops \<Rightarrow> pool \<Rightarrow> mem_id list \<Rightarrow> pool" where
  "pool_batched_free S p ids =
     (case p of TensorPool w \<Rightarrow> TensorPool (TensorMemoryAllocator_batched_free S w ids)
      | PagedPool w \<Rightarrow> PagedPool (PagedTensorMemoryAllocator_batched_free w ids True))"

definition pool_memcheck :: "pool \<Rightarrow> bool" where
  "pool_memcheck p =
     (case p of TensorPool w \<Rightarrow> TensorMemoryAllocator_memcheck (mw_alloc w)
      | PagedPool w \<Rightarrow> PagedTensorMemoryAllocator_memcheck (mw_alloc w))"

definition pool_heap :: "pool \<Rightarrow> TensorMemoryObj list" where
  "pool_heap p = (case p of TensorPool w \<Rightarrow> mw_heap w | PagedPool w \<Rightarrow> mw_heap w)"

section \<open>HostMemoryAllocator and PinMemoryAllocator\<close>

definition HostMemoryAllocator_init :: "SortedList_ops \<Rightarrow> Torch \<Rightarrow> int \<Rightarrow> paging_args \<Rightarrow> pool result" where
  "HostMemoryAllocator_init S T sz kw = make_pool S T sz ALIGN_BYTES kw"

definition HostMemoryAllocator_allocate where
  "HostMemoryAllocator_allocate S T self shapes dtypes fmt = pool_allocate S T self shapes dtypes fmt"

definition HostMemoryAllocator_batched_allocate where
  "HostMemoryAllocator_batched_allocate S T self shapes dtypes batch_size fmt =
     pool_batched_allocate S T self shapes dtypes batch_size fmt"

definition HostMemoryAllocator_free where
  "HostMemoryAllocator_free S self memory_obj = pool_free S self memory_obj"

definition HostMemoryAllocator_batched_free where
  "HostMemoryAllocator_batched_free S self memory_objs = pool_batched_free S self memory_objs"

definition HostMemoryAllocator_memcheck where
  "HostMemoryAllocator_memcheck self = pool_memcheck self"

text \<open>The pinned buffer is returned to the system by \<^verbatim>\<open>close\<close>; \<open>pn_frees\<close> counts these calls.\<close>

record PinMemoryAllocator =
  pn_size :: int
  pn_unregistered :: bool
  pn_frees :: nat
  pn_allocator :: pool

definition PinMemoryAllocator_init ::
  "SortedList_ops \<Rightarrow> Torch \<Rightarrow> int \<Rightarrow> paging_args \<Rightarrow> PinMemoryAllocator result"
where
  "PinMemoryAllocator_init S T sz kw =
     bind_result (make_pool S T sz ALIGN_BYTES kw) (\<lambda>p.
       Inr \<lparr>pn_size = sz, pn_unregistered = False, pn_frees = 0, pn_allocator = p\<rparr>)"

definition PinMemoryAllocator_allocate where
  "PinMemoryAllocator_allocate S T self shapes dtypes fmt =
     bind_result (pool_allocate S T (pn_allocator self) shapes dtypes fmt) (\<lambda>(p, r).
       Inr (self\<lparr>pn_allocator := p\<rparr>, r))"

definition PinMemoryAllocator_batched_allocate where
  "PinMemoryAllocator_batched_allocate S T self shapes dtypes batch_size fmt =
     bind_result (pool_batched_allocate S T (pn_allocator self) shapes dtypes batch_size fmt) (\<lambda>(p, r).
       Inr (self\<lparr>pn_allocator := p\<rparr>, r))"

definition PinMemoryAllocator_free where
  "PinMemoryAllocator_free S self memory_obj = self\<lparr>pn_allocator := pool_free S (pn_allocator self) memory_obj\<rparr>"

definition PinMemoryAllocator_batched_free where
  "PinMemoryAllocator_batched_free S self memory_objs =
     self\<lparr>pn_allocator := pool_batched_free S (pn_allocator self) memory_objs\<rparr>"

definition PinMemoryAllocator_memcheck where
  "PinMemoryAllocator_memcheck self = pool_memcheck (pn_allocator self)"

definition PinMemoryAllocator_close :: "PinMemoryAllocator \<Rightarrow> PinMemoryAllocator" where
  "PinMemoryAllocator_close self =
     (if \<not> pn_unregistered self
      then if pn_size self = 0 then self
           else self\<lparr>pn_frees := pn_frees self + 1, pn_unregistered := True\<rparr>
      else self)"

section \<open>MixedMemoryAllocator\<close>

text \<open>Memory objects are tensor objects of the delegate, by identity, or byte buffers.\<close>

datatype mixed_obj = TensorObj mem_id | BytesObj BytesBufferMemoryObj

record MixedMemoryAllocator =
  mx_size :: int
  mx_unregistered :: bool
  mx_frees :: nat
  mx_pin_allocator :: pool

definition MixedMemoryAllocator_init ::
  "SortedList_ops \<Rightarrow> Torch \<Rightarrow> int \<Rightarrow> paging_args \<Rightarrow> MixedMemoryAllocator result"
where
  "MixedMemoryAllocator_init S T sz kw =
     bind_result (make_pool S T sz ALIGN_BYTES kw) (\<lambda>p.
       Inr \<lparr>mx_size = sz, mx_unregistered = False, mx_frees = 0, mx_pin_allocator = p\<rparr>)"

definition KV_FORMATS :: "MemoryFormat list" where
  "KV_FORMATS = [KV_2LTD, KV_2TD, KV_T2D, KV_MLA_FMT]"

definition MixedMemoryAllocator_allocate ::
  "SortedList_ops \<Rightarrow> Torch \<Rightarrow> MixedMemoryAllocator \<Rightarrow> torch_size one_or_list \<Rightarrow> torch_dtype one_or_list \<Rightarrow>
   MemoryFormat \<Rightarrow> (MixedMemoryAllocator \<times> mixed_obj option) result"
where
  "MixedMemoryAllocator_allocate S T self shapes dtypes fmt =
     (if fmt = BINARY_BUFFER
      then bind_result (BufferAllocator_allocate (as_many shapes)) (\<lambda>ob. Inr (self, Some (BytesObj ob)))
      else if fmt \<in> set KV_FORMATS
      then bind_result (pool_allocate S T (mx_pin_allocator self) shapes dtypes fmt) (\<lambda>(p, r).
             Inr (self\<lparr>mx_pin_allocator := p\<rparr>, map_option TensorObj r))
      else Inl ValueError)"

definition MixedMemoryAllocator_batched_allocate ::
  "SortedList_ops \<Rightarrow> Torch \<Rightarrow> MixedMemoryAllocator \<Rightarrow> torch_size one_or_list \<Rightarrow> torch_dtype one_or_list \<Rightarrow> int \<Rightarrow>
   MemoryFormat \<Rightarrow> (MixedMemoryAllocator \<times> mixed_obj list option) result"
where
  "MixedMemoryAllocator_batched_allocate S T self shapes dtypes batch_size fmt =
     (if fmt = BINARY_BUFFER
      then bind_result (BufferAllocator_batched_allocate (as_many shapes) batch_size) (\<lambda>obs.
             Inr (self, Some (map BytesObj obs)))
      else if fmt \<in> set KV_FORMATS
      then bind_result (pool_batched_allocate S T (mx_pin_allocator self) shapes dtypes batch_size fmt) (\<lambda>(p, r).
             Inr (self\<lparr>mx_pin_allocator := p\<rparr>, map_option (map TensorObj) r))
      else Inl ValueError)"

definition mixed_obj_fmt :: "MixedMemoryAllocator \<Rightarrow> mixed_obj \<Rightarrow> MemoryFormat" where
  "mixed_obj_fmt self ob =
     (case ob of TensorObj i \<Rightarrow> md_fmt (tm_meta (pool_heap (mx_pin_allocator self) ! i))
      | BytesObj b \<Rightarrow> md_fmt (bb_meta b))"

text \<open>
  A byte buffer has no owner in the delegate: the delegate is asked to free a tensor object only.
\<close>

fun tensor_ids :: "mixed_obj list \<Rightarrow> mem_id list" where
  "tensor_ids [] = []"
| "tensor_ids (TensorObj i # obs) = i # tensor_ids obs"
| "tensor_ids (BytesObj b # obs) = tensor_ids obs"

definition MixedMemoryAllocator_free ::
  "SortedList_ops \<Rightarrow> MixedMemoryAllocator \<Rightarrow> mixed_obj \<Rightarrow> MixedMemoryAllocator result"
where
  "MixedMemoryAllocator_free S self ob =
     (let fmt = mixed_obj_fmt self ob in
      if fmt = BINARY_BUFFER then Inr self
      else if fmt \<in> set KV_FORMATS
      then (case ob of
              TensorObj i \<Rightarrow> Inr (self\<lparr>mx_pin_allocator := pool_free S (mx_pin_allocator self) i\<rparr>)
            | BytesObj b \<Rightarrow> Inr self)
      else Inl ValueError)"

text \<open>\<^verbatim>\<open>batched_free\<close> looks at the format of the first object only, and so fails on an empty list.\<close>

definition MixedMemoryAllocator_batched_free ::
  "SortedList_ops \<Rightarrow> MixedMemoryAllocator \<Rightarrow> mixed_obj list \<Rightarrow> MixedMemoryAllocator result"
where
  "MixedMemoryAllocator_batched_free S self obs =
     bind_result (py_nth obs 0) (\<lambda>ob.
       let fmt = mixed_obj_fmt self ob in
       if fmt = BINARY_BUFFER then Inr self
       else if fmt \<in> set KV_FORMATS
       then Inr (self\<lparr>mx_pin_allocator := pool_batched_free S (mx_pin_allocator self) (tensor_ids obs)\<rparr>)
       else Inl ValueError)"

definition MixedMemoryAllocator_memcheck :: "MixedMemoryAllocator \<Rightarrow> bool" where
  "MixedMemoryAllocator_memcheck self = pool_memcheck (mx_pin_allocator self)"

definition MixedMemoryAllocator_close :: "MixedMemoryAllocator \<Rightarrow> MixedMemoryAllocator" where
  "MixedMemoryAllocator_close self =
     (if \<not> mx_unregistered self
      then if mx_size self = 0 then self
           else self\<lparr>mx_frees := mx_frees self + 1, mx_unregistered := True\<rparr>
      else self)"

section \<open>GPUMemoryAllocator, AdHocMemoryAllocator, PagedCpuGpuMemoryAllocator\<close>

definition GPUMemoryAllocator_init ::
  "SortedList_ops \<Rightarrow> Torch \<Rightarrow> int \<Rightarrow> int option \<Rightarrow> paging_args \<Rightarrow> pool result"
where
  "GPUMemoryAllocator_init S T sz align_bytes kw =
     make_pool S T sz (case align_bytes of None \<Rightarrow> ALIGN_BYTES | Some a \<Rightarrow> a) kw"

definition GPUMemoryAllocator_allocate where
  "GPUMemoryAllocator_allocate S T self shapes dtypes fmt = pool_allocate S T self shapes dtypes fmt"

definition GPUMemoryAllocator_batched_allocate where
  "GPUMemoryAllocator_batched_allocate S T self shapes dtypes batch_size fmt =
     pool_batched_allocate S T self shapes dtypes batch_size fmt"

definition GPUMemoryAllocator_free where
  "GPUMemoryAllocator_free S self memory_obj = pool_free S self memory_obj"

definition GPUMemoryAllocator_batched_free where
  "GPUMemoryAllocator_batched_free S self memory_objs = pool_batched_free S self memory_objs"

definition GPUMemoryAllocator_memcheck where
  "GPUMemoryAllocator_memcheck self = pool_memcheck self"

text \<open>The ad hoc allocator makes an object of its own for every request and never frees.\<close>

definition AdHocMemoryAllocator_allocate ::
  "Torch \<Rightarrow> torch_size one_or_list \<Rightarrow> torch_dtype one_or_list \<Rightarrow> MemoryFormat \<Rightarrow> TensorMemoryObj result"
where
  "AdHocMemoryAllocator_allocate T shapes0 dtypes0 fmt =
     bind_result (adapt_shapes_and_dtypes shapes0 dtypes0) (\<lambda>(shapes, dtypes).
     bind_result (get_size_bytes T shapes dtypes) (\<lambda>sz.
     bind_result (py_nth shapes 0) (\<lambda>shape.
     bind_result (py_nth dtypes 0) (\<lambda>dtype.
       TensorMemoryObj_init T (0, sz) (fresh_metadata shape dtype 0 0 fmt shapes dtypes) True))))"

definition AdHocMemoryAllocator_batched_allocate ::
  "Torch \<Rightarrow> torch_size one_or_list \<Rightarrow> torch_dtype one_or_list \<Rightarrow> int \<Rightarrow> MemoryFormat \<Rightarrow> TensorMemoryObj list result"
where
  "AdHocMemoryAllocator_batched_allocate T shapes dtypes batch_size fmt = Inl NotImplementedError"

text \<open>
  One paged allocator per device. The methods differ in the default of \<^verbatim>\<open>allocator_type\<close>, which
  the caller of the model passes explicitly; an allocator that was not initialised is None.
\<close>

record PagedCpuGpuMemoryAllocator =
  pg_gpu_allocator :: "pa_world option"
  pg_cpu_allocator :: "pa_world option"
  pg_align_bytes :: "int option"

definition init_gpu_memory_allocator ::
  "Torch \<Rightarrow> PagedCpuGpuMemoryAllocator \<Rightarrow> int \<Rightarrow> torch_size list \<Rightarrow> torch_dtype list \<Rightarrow> MemoryFormat \<Rightarrow>
   PagedCpuGpuMemoryAllocator result"
where
  "init_gpu_memory_allocator T self sz shapes dtypes fmt =
     bind_result (PagedTensorMemoryAllocator_init T (0, sz) shapes dtypes fmt) (\<lambda>w.
       Inr (self\<lparr>pg_gpu_allocator := Some w\<rparr>))"

definition init_cpu_memory_allocator ::
  "Torch \<Rightarrow> PagedCpuGpuMemoryAllocator \<Rightarrow> int \<Rightarrow> torch_size list \<Rightarrow> torch_dtype list \<Rightarrow> MemoryFormat \<Rightarrow>
   PagedCpuGpuMemoryAllocator result"
where
  "init_cpu_memory_allocator T self sz shapes dtypes fmt =
     bind_result (PagedTensorMemoryAllocator_init T (0, sz) shapes dtypes fmt) (\<lambda>w.
       Inr (self\<lparr>pg_cpu_allocator := Some w, pg_align_bytes := Some (pa_align_bytes (mw_alloc w))\<rparr>))"

definition on_device ::
  "PagedCpuGpuMemoryAllocator \<Rightarrow> string option \<Rightarrow> (pa_world \<Rightarrow> (pa_world \<times> 'r) result) \<Rightarrow>
   (PagedCpuGpuMemoryAllocator \<times> 'r) result"
where
  "on_device self allocator_type f =
     (if allocator_type = Some ''gpu''
      then (case pg_gpu_allocator self of None \<Rightarrow> Inl AttributeError
            | Some w \<Rightarrow> bind_result (f w) (\<lambda>(w', r). Inr (self\<lparr>pg_gpu_allocator := Some w'\<rparr>, r)))
      else if allocator_type = Some ''cpu''
      then (case pg_cpu_allocator self of None \<Rightarrow> Inl AttributeError
            | Some w \<Rightarrow> bind_result (f w) (\<lambda>(w', r). Inr (self\<lparr>pg_cpu_allocator := Some w'\<rparr>, r)))
      else Inl ValueError)"

definition PagedCpuGpuMemoryAllocator_allocate where
  "PagedCpuGpuMemoryAllocator_allocate T self shapes dtypes fmt allocator_type =
     on_device self allocator_type (\<lambda>w. PagedTensorMemoryAllocator_allocate T w shapes dtypes fmt)"

definition PagedCpuGpuMemoryAllocator_batched_allocate where
  "PagedCpuGpuMemoryAllocator_batched_allocate T self shapes dtypes batch_size fmt allocator_type =
     on_device self allocator_type (\<lambda>w. PagedTensorMemoryAllocator_batched_allocate T w shapes dtypes batch_size fmt)"

definition PagedCpuGpuMemoryAllocator_free where
  "PagedCpuGpuMemoryAllocator_free self memory_obj allocator_type =
     on_device self allocator_type (\<lambda>w. Inr (PagedTensorMemoryAllocator_free w memory_obj, ()))"

definition PagedCpuGpuMemoryAllocator_batched_free where
  "PagedCpuGpuMemoryAllocator_batched_free self memory_objs allocator_type update_stats =
     on_device self allocator_type (\<lambda>w. Inr (PagedTensorMemoryAllocator_batched_free w memory_objs update_stats, ()))"

section \<open>What clients rely on\<close>

text \<open>
  A request is a single or a batched allocation. A client remembers the objects it got and
  has not released; \<open>client_step\<close> is one call of a client that releases only what it holds.
\<close>

datatype request =
    Single "torch_size one_or_list" "torch_dtype one_or_list" MemoryFormat
  | Batch "torch_size one_or_list" "torch_dtype one_or_list" int MemoryFormat

datatype client_call = Acquire request | Release "mem_id list"

fun client_step ::
  "('s \<Rightarrow> request \<Rightarrow> ('s \<times> mem_id list option) result) \<Rightarrow> ('s \<Rightarrow> mem_id list \<Rightarrow> 's) \<Rightarrow> client_call \<Rightarrow>
   's \<times> mem_id set \<Rightarrow> 's \<times> mem_id set"
where
  "client_step alloc release (Acquire r) (s, held) =
     (case alloc s r of
        Inl _ \<Rightarrow> (s, held)
      | Inr (s', None) \<Rightarrow> (s', held)
      | Inr (s', Some ids) \<Rightarrow> (s', held \<union> set ids))"
| "client_step alloc release (Release ids) (s, held) =
     (if distinct ids \<and> set ids \<subseteq> held then (release s ids, held - set ids) else (s, held))"

fun call_ok :: "('s \<Rightarrow> request \<Rightarrow> bool) \<Rightarrow> 's \<Rightarrow> client_call \<Rightarrow> bool" where
  "call_ok request_ok s (Acquire r) = request_ok s r"
| "call_ok request_ok s (Release ids) = True"

locale memory_allocator =
  fixes inv :: "'s \<Rightarrow> bool"
    and in_use :: "'s \<Rightarrow> mem_id set"
    and bytes :: "'s \<Rightarrow> mem_id \<Rightarrow> int set"
    and request_ok :: "'s \<Rightarrow> request \<Rightarrow> bool"
    and alloc :: "'s \<Rightarrow> request \<Rightarrow> ('s \<times> mem_id list option) result"
    and release :: "'s \<Rightarrow> mem_id list \<Rightarrow> 's"
  assumes alloc_law: "inv s \<Longrightarrow> request_ok s r \<Longrightarrow> alloc s r = Inr (s', q) \<Longrightarrow>
      inv s' \<and> request_ok s' = request_ok s \<and>
      (case q of None \<Rightarrow> in_use s' = in_use s
       | Some ids \<Rightarrow> set ids \<inter> in_use s = {} \<and> in_use s' = in_use s \<union> set ids)"
    and release_law: "inv s \<Longrightarrow> distinct ids \<Longrightarrow> set ids \<subseteq> in_use s \<Longrightarrow>
      inv (release s ids) \<and> request_ok (release s ids) = request_ok s \<and> in_use (release s ids) = in_use s - set ids"
    and bytes_law: "inv s \<Longrightarrow> i \<in> in_use s \<Longrightarrow> j \<in> in_use s \<Longrightarrow> i \<noteq> j \<Longrightarrow> bytes s i \<inter> bytes s j = {}"
begin

lemma client_step_ok:
  assumes "inv s" and "in_use s = held" and "call_ok request_ok s c"
  shows "case client_step alloc release c (s, held) of (s', held') \<Rightarrow>
           inv s' \<and> in_use s' = held' \<and> request_ok s' = request_ok s"
proof (cases c)
  case (Acquire r)
  show ?thesis
  proof (cases "alloc s r")
    case (Inr p)
    obtain s' q where p: "p = (s', q)" by (cases p)
    have "request_ok s r" using assms(3) Acquire by simp
    from alloc_law [OF assms(1) this Inr [unfolded p]] show ?thesis
      using Acquire Inr p assms(2) by (cases q) simp_all
  qed (use assms Acquire in simp)
next
  case (Release ids)
  then show ?thesis using assms release_law [of s ids] by simp
qed

text \<open>Whatever the clients do, the objects they hold are the objects in use, and they share no byte.\<close>

lemma clients_exclusive:
  assumes "inv s" and "in_use s = held" and "\<forall>c \<in> set calls. call_ok request_ok s c"
    and "fold (client_step alloc release) calls (s, held) = (t, out)"
  shows "inv t \<and> in_use t = out \<and> (\<forall>i \<in> out. \<forall>j \<in> out. i \<noteq> j \<longrightarrow> bytes t i \<inter> bytes t j = {})"
  using assms
proof (induction calls arbitrary: s held)
  case Nil
  then show ?case using bytes_law by auto
next
  case (Cons c calls)
  obtain s' held' where st: "client_step alloc release c (s, held) = (s', held')" by fastforce
  have k: "inv s'" "in_use s' = held'" "request_ok s' = request_ok s"
    using client_step_ok [OF Cons.prems(1,2), of c] Cons.prems(3) st by simp_all
  have "call_ok request_ok s' = call_ok request_ok s"
    using k(3) by (intro ext) (metis call_ok.elims call_ok.simps)
  then have "\<forall>c \<in> set calls. call_ok request_ok s' c" using Cons.prems(3) by simp
  from Cons.IH [OF k(1,2) this] Cons.prems(4) st show ?case by simp
qed

end

section \<open>The delegates keep the contract\<close>

definition ta_in_use :: "ta_world \<Rightarrow> mem_id set" where
  "ta_in_use w = {i. i < length (mw_heap w) \<and> tm_valid (mw_heap w ! i)}"

lemma ta_in_use_append:
  assumes "\<forall>ob \<in> set obs. tm_valid ob" and "mw_heap w' = mw_heap w @ obs"
  shows "set [length (mw_heap w)..<length (mw_heap w) + length obs] \<inter> ta_in_use w = {}"
    and "ta_in_use w' = ta_in_use w \<union> set [length (mw_heap w)..<length (mw_heap w) + length obs]"
proof -
  show "set [length (mw_heap w)..<length (mw_heap w) + length obs] \<inter> ta_in_use w = {}"
    by (auto simp: ta_in_use_def)
  have "tm_valid (obs ! k)" if "k < length obs" for k using assms(1) that by simp
  then show "ta_in_use w' = ta_in_use w \<union> set [length (mw_heap w)..<length (mw_heap w) + length obs]"
    unfolding ta_in_use_def assms(2) by (auto simp: nth_append)
qed

fun tensor_request_ok :: "Torch \<Rightarrow> request \<Rightarrow> bool" where
  "tensor_request_ok T (Single shapes dtypes fmt) = ta_op_ok T (OpAllocate shapes dtypes fmt)"
| "tensor_request_ok T (Batch shapes dtypes b fmt) = ta_op_ok T (OpBatchedAllocate shapes dtypes b fmt)"

fun page_request_ok :: "Torch \<Rightarrow> pa_world \<Rightarrow> request \<Rightarrow> bool" where
  "page_request_ok T w (Single shapes dtypes fmt) = fits_page T (mw_alloc w) (as_many shapes) (as_many dtypes)"
| "page_request_ok T w (Batch shapes dtypes b fmt) =
     (fits_page T (mw_alloc w) (as_many shapes) (as_many dtypes) \<and> 0 \<le> b)"

fun request_fmt :: "request \<Rightarrow> MemoryFormat" where
  "request_fmt (Single shapes dtypes fmt) = fmt"
| "request_fmt (Batch shapes dtypes b fmt) = fmt"

definition heap_fmts :: "TensorMemoryObj list \<Rightarrow> MemoryFormat set" where
  "heap_fmts heap = (\<lambda>ob. md_fmt (tm_meta ob)) ` set heap"

lemma heap_fmts_append [simp]: "heap_fmts (xs @ ys) = heap_fmts xs \<union> heap_fmts ys"
  by (simp add: heap_fmts_def image_Un)

lemma heap_fmts_update: "heap_fmts (xs[i := ob]) \<subseteq> insert (md_fmt (tm_meta ob)) (heap_fmts xs)"
  using set_update_subset_insert [of xs i ob] by (auto simp: heap_fmts_def)

lemma batch_objects_fmts: "batch_objects T raws start unit fmt shapes dtypes = Inr obs \<Longrightarrow> heap_fmts obs \<subseteq> {fmt}"
proof (induction T raws start unit fmt shapes dtypes arbitrary: obs rule: batch_objects.induct)
  case (2 T raw raws start unit fmt shapes dtypes)
  from 2(2) obtain shape dtype ob obs' where
    ob: "TensorMemoryObj_init T raw (fresh_metadata shape dtype start unit fmt shapes dtypes) True = Inr ob"
    and obs': "batch_objects T raws (start + unit) unit fmt shapes dtypes = Inr obs'" and obs: "obs = ob # obs'"
    by auto
  have "md_fmt (tm_meta ob) = fmt" using tm_init_fields [OF ob] by (simp add: fresh_metadata_def)
  with 2(1) [OF obs'] show ?case by (simp add: obs heap_fmts_def)
qed (simp add: heap_fmts_def)

lemma ta_allocate_law:
  assumes S: "SortedList_documented S" and T: "Torch_documented T" and ok: "ta_ok w"
    and op: "ta_op_ok T (OpAllocate shapes dtypes fmt)"
    and r: "TensorMemoryAllocator_allocate S T w shapes dtypes fmt = Inr (w', q)"
  shows "ta_ok w' \<and> heap_fmts (mw_heap w') \<subseteq> insert fmt (heap_fmts (mw_heap w)) \<and>
     (case q of None \<Rightarrow> ta_in_use w' = ta_in_use w
      | Some i \<Rightarrow> i \<notin> ta_in_use w \<and> ta_in_use w' = insert i (ta_in_use w))"
proof -
  obtain n where n: "get_size_bytes T (as_many shapes) (as_many dtypes) = Inr n" "0 < n"
    using op by (auto split: sum.splits)
  have ok': "ta_ok w'" using ta_allocate_ok(1) [OF S T ok r n] .
  from r n(1) show ?thesis
  proof (cases rule: ta_allocate_cases)
    case full
    then show ?thesis using ok by auto
  next
    case (fresh am' a m ob shape dtype)
    have h: "mw_heap w' = mw_heap w @ [ob]" by (simp add: fresh)
    have "heap_fmts (mw_heap w') \<subseteq> insert fmt (heap_fmts (mw_heap w))"
      using fresh(5) by (simp add: h heap_fmts_def fresh_metadata_def)
    with ta_in_use_append [of "[ob]", OF _ h] fresh(2,3) ok' show ?thesis by simp
  qed
qed

lemma ta_batched_allocate_law:
  assumes S: "SortedList_documented S" and T: "Torch_documented T" and ok: "ta_ok w"
    and op: "ta_op_ok T (OpBatchedAllocate shapes dtypes b fmt)"
    and r: "TensorMemoryAllocator_batched_allocate S T w shapes dtypes b fmt = Inr (w', q)"
  shows "ta_ok w' \<and> heap_fmts (mw_heap w') \<subseteq> insert fmt (heap_fmts (mw_heap w)) \<and>
     (case q of None \<Rightarrow> ta_in_use w' = ta_in_use w
      | Some ids \<Rightarrow> set ids \<inter> ta_in_use w = {} \<and> ta_in_use w' = ta_in_use w \<union> set ids)"
proof -
  obtain n where n: "get_size_bytes T (as_many shapes) (as_many dtypes) = Inr n" "0 < n" and b: "0 < b"
    using op by (auto split: sum.splits)
  have ok': "ta_ok w'" using ta_batched_allocate_ok(1) [OF S T ok r n b] .
  from r n(1) refl show ?thesis
  proof (cases rule: ta_batched_allocate_cases)
    case full
    then show ?thesis using ok by auto
  next
    case (fresh am' a m obs)
    have h: "mw_heap w' = mw_heap w @ obs" by (simp add: fresh)
    have "heap_fmts (mw_heap w') \<subseteq> insert fmt (heap_fmts (mw_heap w))"
      using batch_objects_fmts [OF fresh(3)] by (auto simp: h)
    moreover have "\<forall>ob \<in> set obs. tm_valid ob"
      using batch_objects_fields [OF fresh(3)] by (auto simp: in_set_conv_nth)
    ultimately show ?thesis using ta_in_use_append [OF _ h] fresh(2) ok' by simp
  qed
qed

lemma ta_batched_free_law:
  assumes S: "SortedList_documented S" and ok: "ta_ok w" and ids: "set ids \<subseteq> ta_in_use w"
  defines "w' \<equiv> TensorMemoryAllocator_batched_free S w ids"
  shows "ta_ok w' \<and> heap_fmts (mw_heap w') = heap_fmts (mw_heap w) \<and> ta_in_use w' = ta_in_use w - set ids"
proof -
  have "\<forall>i \<in> set ids. i < length (mw_heap w)" using ids by (auto simp: ta_in_use_def)
  note f = ta_batched_free_ok [OF S ok this, folded w'_def]
  have "md_fmt (tm_meta (mw_heap w' ! j)) = md_fmt (tm_meta (mw_heap w ! j))" if "j < length (mw_heap w)" for j
    using that by (simp add: f(2) invalidate_fold_nth)
  then have "map (\<lambda>ob. md_fmt (tm_meta ob)) (mw_heap w') = map (\<lambda>ob. md_fmt (tm_meta ob)) (mw_heap w)"
    by (intro nth_equalityI) (simp_all add: f(2))
  then have "heap_fmts (mw_heap w') = heap_fmts (mw_heap w)" by (metis heap_fmts_def image_set)
  moreover have "ta_in_use w' = ta_in_use w - set ids"
    by (auto simp: ta_in_use_def f(2) invalidate_fold_nth split: if_splits)
  ultimately show ?thesis using f(1) by simp
qed

lemma recycle_fmt: "recycle T pa shapes dtypes fmt ob = Inr ob' \<Longrightarrow> md_fmt (tm_meta ob') = fmt"
  by (auto simp: recycle_def Let_def split: if_splits)

lemma give_back_fmts: "heap_fmts (mw_heap (give_back w i)) \<subseteq> heap_fmts (mw_heap w)"
proof (cases "i < length (mw_heap w)")
  case True
  then have "md_fmt (tm_meta (mw_heap w ! i)) \<in> heap_fmts (mw_heap w)" by (simp add: heap_fmts_def)
  then show ?thesis
    using heap_fmts_update [of "mw_heap w" i "mw_heap (give_back w i) ! i"] True
    by (auto simp: give_back_def Let_def)
qed (simp add: give_back_def Let_def list_update_beyond)

lemma pa_batched_free_fmts:
  "heap_fmts (mw_heap (PagedTensorMemoryAllocator_batched_free w ids u)) \<subseteq> heap_fmts (mw_heap w)"
proof -
  have "heap_fmts (mw_heap (fold (\<lambda>i w. if \<not> tm_valid (mw_heap w ! i) then w else give_back w i) ids w)) \<subseteq> heap_fmts (mw_heap w)"
  proof (induction ids arbitrary: w)
    case (Cons i ids)
    show ?case
      using Cons.IH [of "if \<not> tm_valid (mw_heap w ! i) then w else give_back w i"] give_back_fmts [of w i]
      by (cases "tm_valid (mw_heap w ! i)") auto
  qed simp
  then show ?thesis by (simp add: PagedTensorMemoryAllocator_batched_free_def Let_def)
qed

lemma take_pages_fmts:
  "take_pages T shapes dtypes fmt k w bs = Inr (w', r) \<Longrightarrow> heap_fmts (mw_heap w') \<subseteq> insert fmt (heap_fmts (mw_heap w))"
proof (induction k arbitrary: w bs)
  case (Suc k)
  show ?case
  proof (cases "pa_free_blocks (mw_alloc w)")
    case Nil
    then show ?thesis using Suc.prems pa_batched_free_fmts [of w bs False] by auto
  next
    case (Cons i rest)
    then obtain ob where ob: "recycle T (mw_alloc w) shapes dtypes fmt (mw_heap w ! i) = Inr ob"
      and rec: "take_pages T shapes dtypes fmt k
        (w\<lparr>mw_heap := (mw_heap w)[i := ob], mw_alloc := (mw_alloc w)\<lparr>pa_free_blocks := rest\<rparr>\<rparr>) (bs @ [i]) = Inr (w', r)"
      using Suc.prems by auto
    show ?thesis using Suc.IH [OF rec] heap_fmts_update [of "mw_heap w" i ob] recycle_fmt [OF ob] by auto
  qed
qed auto

lemma pa_allocate_law:
  assumes T: "Torch_documented T" and ok: "pa_ok w"
    and fit: "fits_page T (mw_alloc w) (as_many shapes) (as_many dtypes)"
    and r: "PagedTensorMemoryAllocator_allocate T w shapes dtypes fmt = Inr (w', q)"
  shows "pa_ok w' \<and> heap_fmts (mw_heap w') \<subseteq> insert fmt (heap_fmts (mw_heap w)) \<and>
     pa_static (mw_alloc w') = pa_static (mw_alloc w) \<and>
     (case q of None \<Rightarrow> pa_live w' = pa_live w | Some i \<Rightarrow> i \<notin> pa_live w \<and> pa_live w' = insert i (pa_live w))"
proof -
  have "heap_fmts (mw_heap w') \<subseteq> insert fmt (heap_fmts (mw_heap w))"
  proof (cases "pa_free_blocks (mw_alloc w)")
    case (Cons i rest)
    then obtain ob where ob: "recycle T (mw_alloc w) (as_many shapes) (as_many dtypes) fmt (mw_heap w ! i) = Inr ob"
      "mw_heap w' = (mw_heap w)[i := ob]"
      using r by (auto simp: PagedTensorMemoryAllocator_allocate_def adapt_shapes_and_dtypes_def Let_def split: if_splits)
    then show ?thesis using heap_fmts_update [of "mw_heap w" i ob] recycle_fmt [OF ob(1)] by auto
  qed (use r in \<open>auto simp: PagedTensorMemoryAllocator_allocate_def Let_def\<close>)
  with pa_allocate_ok [OF T ok r fit] show ?thesis by (cases q) simp_all
qed

lemma pa_batched_allocate_law:
  assumes T: "Torch_documented T" and ok: "pa_ok w" and b: "0 \<le> b"
    and fit: "fits_page T (mw_alloc w) (as_many shapes) (as_many dtypes)"
    and r: "PagedTensorMemoryAllocator_batched_allocate T w shapes dtypes b fmt = Inr (w', q)"
  shows "pa_ok w' \<and> heap_fmts (mw_heap w') \<subseteq> insert fmt (heap_fmts (mw_heap w)) \<and>
     pa_static (mw_alloc w') = pa_static (mw_alloc w) \<and>
     (case q of None \<Rightarrow> pa_live w' = pa_live w
      | Some ids \<Rightarrow> set ids \<inter> pa_live w = {} \<and> pa_live w' = pa_live w \<union> set ids)"
proof -
  let ?fb = "pa_free_blocks (mw_alloc w)"
  note k = pa_batched_allocate_ok [OF T ok b r fit]
  obtain v p where v: "take_pages T (as_many shapes) (as_many dtypes) fmt (nat b) w [] = Inr (v, p)" "mw_heap w' = mw_heap v"
    using r by (auto simp: PagedTensorMemoryAllocator_batched_allocate_def adapt_shapes_and_dtypes_def Let_def
        split: if_splits option.splits)
  have fm: "heap_fmts (mw_heap w') \<subseteq> insert fmt (heap_fmts (mw_heap w))"
    using take_pages_fmts [OF v(1)] v(2) by simp
  show ?thesis
  proof (cases q)
    case None
    then show ?thesis using k fm by (simp add: pa_live_def)
  next
    case (Some ids)
    have fb: "distinct ?fb" "set ?fb \<subseteq> {..<length (mw_heap w)}" using ok by (simp_all add: pa_ok_def pa_shape_ok_def Let_def)
    have i: "ids = take (nat b) ?fb" "pa_free_blocks (mw_alloc w') = drop (nat b) ?fb" using k(4) Some by simp_all
    have "set ids \<union> set (drop (nat b) ?fb) = set ?fb" unfolding i(1) by (metis append_take_drop_id set_append)
    moreover have "set ids \<inter> set (drop (nat b) ?fb) = {}" unfolding i(1) using fb(1) by (rule set_take_disj_set_drop_if_distinct) simp
    ultimately have "set ids \<inter> pa_live w = {}" "pa_live w' = pa_live w \<union> set ids"
      using fb(2) k(2) i(2) by (auto simp: pa_live_def)
    then show ?thesis using k Some fm by simp
  qed
qed

section \<open>The delegation keeps the contract\<close>

definition pool_ok :: "pool \<Rightarrow> bool" where
  "pool_ok p \<longleftrightarrow> (case p of TensorPool w \<Rightarrow> ta_ok w | PagedPool w \<Rightarrow> pa_ok w)"

definition pool_in_use :: "pool \<Rightarrow> mem_id set" where
  "pool_in_use p = (case p of TensorPool w \<Rightarrow> ta_in_use w | PagedPool w \<Rightarrow> pa_live w)"

definition pool_bytes :: "pool \<Rightarrow> mem_id \<Rightarrow> int set" where
  "pool_bytes p i = rng (tm_raw_data (pool_heap p ! i))"

definition pool_request_ok :: "Torch \<Rightarrow> pool \<Rightarrow> request \<Rightarrow> bool" where
  "pool_request_ok T p r =
     (case p of TensorPool w \<Rightarrow> tensor_request_ok T r | PagedPool w \<Rightarrow> page_request_ok T w r)"

fun pool_acquire :: "SortedList_ops \<Rightarrow> Torch \<Rightarrow> pool \<Rightarrow> request \<Rightarrow> (pool \<times> mem_id list option) result" where
  "pool_acquire S T p (Single shapes dtypes fmt) =
     bind_result (pool_allocate S T p shapes dtypes fmt) (\<lambda>(p', r). Inr (p', map_option (\<lambda>i. [i]) r))"
| "pool_acquire S T p (Batch shapes dtypes b fmt) = pool_batched_allocate S T p shapes dtypes b fmt"

lemma page_request_ok_static:
  assumes "pa_static (mw_alloc w') = pa_static (mw_alloc w)"
  shows "page_request_ok T w' = page_request_ok T w"
proof
  fix r
  show "page_request_ok T w' r = page_request_ok T w r"
    using fits_page_static [OF assms] by (cases r) simp_all
qed

lemma pool_acquire_tensor:
  assumes D: "SortedList_documented S" "Torch_documented T" and ok: "ta_ok w" and rq: "tensor_request_ok T r"
    and a: "pool_acquire S T (TensorPool w) r = Inr (p', q)"
  obtains w' where "p' = TensorPool w'" "ta_ok w'"
    "heap_fmts (mw_heap w') \<subseteq> insert (request_fmt r) (heap_fmts (mw_heap w))"
    "case q of None \<Rightarrow> ta_in_use w' = ta_in_use w
     | Some ids \<Rightarrow> set ids \<inter> ta_in_use w = {} \<and> ta_in_use w' = ta_in_use w \<union> set ids"
proof (cases r)
  case (Single shapes dtypes fmt)
  with a obtain w' i where w': "TensorMemoryAllocator_allocate S T w shapes dtypes fmt = Inr (w', i)"
    and e: "p' = TensorPool w'" "q = map_option (\<lambda>i. [i]) i" by (auto simp: pool_allocate_def)
  have "ta_op_ok T (OpAllocate shapes dtypes fmt)" using rq Single by simp
  from ta_allocate_law [OF D ok this w'] that [OF e(1)] Single e(2) show thesis by (cases i) simp_all
next
  case (Batch shapes dtypes b fmt)
  with a obtain w' where w': "TensorMemoryAllocator_batched_allocate S T w shapes dtypes b fmt = Inr (w', q)"
    and e: "p' = TensorPool w'" by (auto simp: pool_batched_allocate_def)
  have "ta_op_ok T (OpBatchedAllocate shapes dtypes b fmt)" using rq Batch by simp
  from ta_batched_allocate_law [OF D ok this w'] that [OF e] Batch show thesis by simp
qed

lemma pool_acquire_paged:
  assumes D: "Torch_documented T" and ok: "pa_ok w" and rq: "page_request_ok T w r"
    and a: "pool_acquire S T (PagedPool w) r = Inr (p', q)"
  obtains w' where "p' = PagedPool w'" "pa_ok w'"
    "heap_fmts (mw_heap w') \<subseteq> insert (request_fmt r) (heap_fmts (mw_heap w))"
    "pa_static (mw_alloc w') = pa_static (mw_alloc w)"
    "case q of None \<Rightarrow> pa_live w' = pa_live w
     | Some ids \<Rightarrow> set ids \<inter> pa_live w = {} \<and> pa_live w' = pa_live w \<union> set ids"
proof (cases r)
  case (Single shapes dtypes fmt)
  with a obtain w' i where w': "PagedTensorMemoryAllocator_allocate T w shapes dtypes fmt = Inr (w', i)"
    and e: "p' = PagedPool w'" "q = map_option (\<lambda>i. [i]) i" by (auto simp: pool_allocate_def)
  have "fits_page T (mw_alloc w) (as_many shapes) (as_many dtypes)" using rq Single by simp
  from pa_allocate_law [OF D ok this w'] that [OF e(1)] Single e(2) show thesis by (cases i) simp_all
next
  case (Batch shapes dtypes b fmt)
  with a obtain w' where w': "PagedTensorMemoryAllocator_batched_allocate T w shapes dtypes b fmt = Inr (w', q)"
    and e: "p' = PagedPool w'" by (auto simp: pool_batched_allocate_def)
  have "0 \<le> b" "fits_page T (mw_alloc w) (as_many shapes) (as_many dtypes)" using rq Batch by simp_all
  from pa_batched_allocate_law [OF D ok this w'] that [OF e] Batch show thesis by simp
qed

lemma pool_acquire_law:
  assumes D: "SortedList_documented S" "Torch_documented T" and ok: "pool_ok p" and rq: "pool_request_ok T p r"
    and a: "pool_acquire S T p r = Inr (p', q)"
  shows "pool_ok p' \<and> pool_request_ok T p' = pool_request_ok T p \<and>
     heap_fmts (pool_heap p') \<subseteq> insert (request_fmt r) (heap_fmts (pool_heap p)) \<and>
     (case q of None \<Rightarrow> pool_in_use p' = pool_in_use p
      | Some ids \<Rightarrow> set ids \<inter> pool_in_use p = {} \<and> pool_in_use p' = pool_in_use p \<union> set ids)"
proof (cases p)
  case (TensorPool w)
  have t: "ta_ok w" "tensor_request_ok T r" "pool_acquire S T (TensorPool w) r = Inr (p', q)"
    using ok rq a by (simp_all add: TensorPool pool_ok_def pool_request_ok_def)
  show ?thesis
    by (rule pool_acquire_tensor [OF D t])
      (cases q; simp add: TensorPool pool_ok_def pool_request_ok_def pool_in_use_def pool_heap_def fun_eq_iff)
next
  case (PagedPool w)
  have t: "pa_ok w" "page_request_ok T w r" "pool_acquire S T (PagedPool w) r = Inr (p', q)"
    using ok rq a by (simp_all add: PagedPool pool_ok_def pool_request_ok_def)
  show ?thesis
  proof (rule pool_acquire_paged [OF D(2) t])
    fix w'
    assume w': "p' = PagedPool w'" "pa_ok w'"
      "heap_fmts (mw_heap w') \<subseteq> insert (request_fmt r) (heap_fmts (mw_heap w))"
      "pa_static (mw_alloc w') = pa_static (mw_alloc w)"
      "case q of None \<Rightarrow> pa_live w' = pa_live w
       | Some ids \<Rightarrow> set ids \<inter> pa_live w = {} \<and> pa_live w' = pa_live w \<union> set ids"
    have "page_request_ok T w' = page_request_ok T w" using w'(4) by (rule page_request_ok_static)
    with w' show ?thesis
      by (cases q; simp add: PagedPool pool_ok_def pool_request_ok_def pool_in_use_def pool_heap_def fun_eq_iff)
  qed
qed

lemma pool_release_law:
  assumes S: "SortedList_documented S" and ok: "pool_ok p" and ids: "distinct ids" "set ids \<subseteq> pool_in_use p"
  defines "p' \<equiv> pool_batched_free S p ids"
  shows "pool_ok p' \<and> pool_request_ok T p' = pool_request_ok T p \<and>
     heap_fmts (pool_heap p') \<subseteq> heap_fmts (pool_heap p) \<and> pool_in_use p' = pool_in_use p - set ids"
proof (cases p)
  case (TensorPool w)
  have "ta_ok w" "set ids \<subseteq> ta_in_use w" using ok ids by (simp_all add: TensorPool pool_ok_def pool_in_use_def)
  from ta_batched_free_law [OF S this] show ?thesis
    by (simp add: p'_def TensorPool pool_batched_free_def pool_ok_def pool_in_use_def pool_heap_def pool_request_ok_def fun_eq_iff)
next
  case (PagedPool w)
  have t: "pa_ok w" "set ids \<subseteq> pa_live w" using ok ids by (simp_all add: PagedPool pool_ok_def pool_in_use_def)
  note f = pa_batched_free_ok [OF t(1) ids(1) t(2)] and g = pa_batched_free_fmts [of w ids True]
  show ?thesis
    using f(1,2) g page_request_ok_static [OF f(4)]
    by (simp add: p'_def PagedPool pool_batched_free_def pool_ok_def pool_in_use_def pool_heap_def pool_request_ok_def fun_eq_iff)
qed

lemma pool_bytes_law:
  assumes ok: "pool_ok p" and i: "i \<in> pool_in_use p" and j: "j \<in> pool_in_use p" and "i \<noteq> j"
  shows "pool_bytes p i \<inter> pool_bytes p j = {}"
proof (cases p)
  case (TensorPool w)
  have v: "i < length (mw_heap w)" "tm_valid (mw_heap w ! i)" "j < length (mw_heap w)" "tm_valid (mw_heap w ! j)" and w: "ta_ok w"
    using ok i j by (simp_all add: TensorPool pool_in_use_def ta_in_use_def pool_ok_def)
  have "rng (tm_raw_data (mw_heap w ! i)) \<inter> rng (tm_raw_data (mw_heap w ! j)) = {}"
    using ta_ok_disjoint [OF w, of i j] ta_ok_disjoint [OF w, of j i] v \<open>i \<noteq> j\<close> by (cases "i < j") (auto simp: Int_commute)
  then show ?thesis by (simp add: TensorPool pool_bytes_def pool_heap_def)
next
  case (PagedPool w)
  then show ?thesis
    using ok i j \<open>i \<noteq> j\<close> pa_ok_disjoint [of w i j] by (simp add: pool_in_use_def pa_live_def pool_ok_def pool_bytes_def pool_heap_def)
qed

definition pool_inv :: "SortedList_ops \<Rightarrow> Torch \<Rightarrow> pool \<Rightarrow> bool" where
  "pool_inv S T p \<longleftrightarrow> SortedList_documented S \<and> Torch_documented T \<and> pool_ok p"

interpretation pl: memory_allocator "pool_inv S T" pool_in_use pool_bytes "pool_request_ok T"
  "pool_acquire S T" "pool_batched_free S" for S T
proof (unfold_locales, goal_cases)
  case (1 s r s' q)
  then show ?case using pool_acquire_law [of S T s r s' q] by (simp add: pool_inv_def)
next
  case (2 s ids)
  then show ?case using pool_release_law [of S s ids T] by (simp add: pool_inv_def)
next
  case (3 s i j)
  then show ?case using pool_bytes_law [of s i j] by (simp add: pool_inv_def)
qed

section \<open>The mixed allocator keeps the contract\<close>

fun mixed_acquire ::
  "SortedList_ops \<Rightarrow> Torch \<Rightarrow> MixedMemoryAllocator \<Rightarrow> request \<Rightarrow> (MixedMemoryAllocator \<times> mem_id list option) result"
where
  "mixed_acquire S T self (Single shapes dtypes fmt) =
     bind_result (MixedMemoryAllocator_allocate S T self shapes dtypes fmt) (\<lambda>(m, r).
       Inr (m, map_option (\<lambda>ob. tensor_ids [ob]) r))"
| "mixed_acquire S T self (Batch shapes dtypes b fmt) =
     bind_result (MixedMemoryAllocator_batched_allocate S T self shapes dtypes b fmt) (\<lambda>(m, r).
       Inr (m, map_option tensor_ids r))"

definition mixed_release :: "SortedList_ops \<Rightarrow> MixedMemoryAllocator \<Rightarrow> mem_id list \<Rightarrow> MixedMemoryAllocator" where
  "mixed_release S self ids =
     (case MixedMemoryAllocator_batched_free S self (map TensorObj ids) of Inl _ \<Rightarrow> self | Inr m \<Rightarrow> m)"

definition mixed_request_ok :: "Torch \<Rightarrow> MixedMemoryAllocator \<Rightarrow> request \<Rightarrow> bool" where
  "mixed_request_ok T self r \<longleftrightarrow> (request_fmt r \<in> set KV_FORMATS \<longrightarrow> pool_request_ok T (mx_pin_allocator self) r)"

text \<open>The invariant: that of the delegate, and that every tensor object has a format of the KV cache.\<close>

definition mixed_inv :: "SortedList_ops \<Rightarrow> Torch \<Rightarrow> MixedMemoryAllocator \<Rightarrow> bool" where
  "mixed_inv S T self \<longleftrightarrow>
     pool_inv S T (mx_pin_allocator self) \<and> heap_fmts (pool_heap (mx_pin_allocator self)) \<subseteq> set KV_FORMATS"

lemma tensor_ids_map [simp]: "tensor_ids (map TensorObj ids) = ids" "tensor_ids (map BytesObj bs) = []"
  by (induction ids, simp_all) (induction bs, simp_all)

lemma binary_no_kv [simp]: "BINARY_BUFFER \<notin> set KV_FORMATS"
  by (simp add: KV_FORMATS_def)

text \<open>A request for a KV format goes to the delegate; any other request leaves it alone.\<close>

lemma mixed_acquire_kv:
  assumes "request_fmt r \<in> set KV_FORMATS"
  shows "mixed_acquire S T self r =
    bind_result (pool_acquire S T (mx_pin_allocator self) r) (\<lambda>(p, q). Inr (self\<lparr>mx_pin_allocator := p\<rparr>, q))"
proof -
  have nb: "request_fmt r \<noteq> BINARY_BUFFER" using assms binary_no_kv by metis
  show ?thesis
  proof (cases r)
    case (Single shapes dtypes fmt)
    then show ?thesis using assms nb
      by (cases "pool_allocate S T (mx_pin_allocator self) shapes dtypes fmt")
        (auto simp: MixedMemoryAllocator_allocate_def option.map_comp comp_def)
  next
    case (Batch shapes dtypes b fmt)
    have "map_option tensor_ids (map_option (map TensorObj) q) = q" for q by (cases q) simp_all
    then show ?thesis using assms nb Batch
      by (cases "pool_batched_allocate S T (mx_pin_allocator self) shapes dtypes b fmt")
        (auto simp: MixedMemoryAllocator_batched_allocate_def)
  qed
qed

lemma mixed_acquire_other:
  assumes "request_fmt r \<notin> set KV_FORMATS" and "mixed_acquire S T self r = Inr (m, q)"
  shows "m = self \<and> q = Some []"
proof (cases r)
  case (Single shapes dtypes fmt)
  then show ?thesis using assms by (auto simp: MixedMemoryAllocator_allocate_def split: if_splits)
next
  case (Batch shapes dtypes b fmt)
  then show ?thesis using assms by (auto simp: MixedMemoryAllocator_batched_allocate_def split: if_splits)
qed

lemma mixed_fmt_kv:
  assumes inv: "mixed_inv S T self" and i: "i \<in> pool_in_use (mx_pin_allocator self)"
  shows "mixed_obj_fmt self (TensorObj i) \<in> set KV_FORMATS"
proof -
  have "i < length (pool_heap (mx_pin_allocator self))"
    using i by (cases "mx_pin_allocator self") (simp_all add: pool_in_use_def ta_in_use_def pa_live_def pool_heap_def)
  then have "mixed_obj_fmt self (TensorObj i) \<in> heap_fmts (pool_heap (mx_pin_allocator self))"
    by (simp add: mixed_obj_fmt_def heap_fmts_def)
  with inv show ?thesis by (auto simp: mixed_inv_def)
qed

lemma mixed_release_eq:
  assumes inv: "mixed_inv S T self" and ids: "set ids \<subseteq> pool_in_use (mx_pin_allocator self)" and ne: "ids \<noteq> []"
  shows "MixedMemoryAllocator_batched_free S self (map TensorObj ids) =
    Inr (self\<lparr>mx_pin_allocator := pool_batched_free S (mx_pin_allocator self) ids\<rparr>)"
proof -
  have "mixed_obj_fmt self (TensorObj (hd ids)) \<in> set KV_FORMATS"
    using mixed_fmt_kv [OF inv, of "hd ids"] ids ne by (cases ids) simp_all
  moreover have "mixed_obj_fmt self (TensorObj (hd ids)) \<noteq> BINARY_BUFFER" using calculation binary_no_kv by metis
  ultimately show ?thesis
    using ne by (cases ids) (simp_all add: MixedMemoryAllocator_batched_free_def py_nth_def Let_def)
qed

interpretation mx: memory_allocator "mixed_inv S T" "\<lambda>m. pool_in_use (mx_pin_allocator m)"
  "\<lambda>m. pool_bytes (mx_pin_allocator m)" "mixed_request_ok T" "mixed_acquire S T" "mixed_release S" for S T
proof (unfold_locales, goal_cases)
  case (1 s r s' q)
  show ?case
  proof (cases "request_fmt r \<in> set KV_FORMATS")
    case True
    with 1 obtain p where p: "pool_acquire S T (mx_pin_allocator s) r = Inr (p, q)" "s' = s\<lparr>mx_pin_allocator := p\<rparr>"
      by (auto simp: mixed_acquire_kv)
    have h: "SortedList_documented S" "Torch_documented T" "pool_ok (mx_pin_allocator s)" "pool_request_ok T (mx_pin_allocator s) r"
      using 1 True by (simp_all add: mixed_inv_def pool_inv_def mixed_request_ok_def)
    from pool_acquire_law [OF h p(1)] 1(1) True h(1,2) show ?thesis
      by (cases q; auto simp: p(2) mixed_inv_def pool_inv_def mixed_request_ok_def fun_eq_iff)
  next
    case False
    from mixed_acquire_other [OF this 1(3)] 1(1) show ?thesis by simp
  qed
next
  case (2 s ids)
  show ?case
  proof (cases "ids = []")
    case True
    then show ?thesis using 2(1) by (simp add: mixed_release_def MixedMemoryAllocator_batched_free_def py_nth_def)
  next
    case False
    have e: "mixed_release S s ids = s\<lparr>mx_pin_allocator := pool_batched_free S (mx_pin_allocator s) ids\<rparr>"
      using mixed_release_eq [OF 2(1,3) False] by (simp add: mixed_release_def)
    have h: "SortedList_documented S" "Torch_documented T" "pool_ok (mx_pin_allocator s)"
      using 2(1) by (simp_all add: mixed_inv_def pool_inv_def)
    from pool_release_law [OF h(1,3) 2(2,3), of T] 2(1) h show ?thesis
      by (auto simp: e mixed_inv_def pool_inv_def mixed_request_ok_def fun_eq_iff)
  qed
next
  case (3 s i j)
  then show ?case using pool_bytes_law [of "mx_pin_allocator s" i j] by (simp add: mixed_inv_def pool_inv_def)
qed

section \<open>Properties\<close>

lemma pool_ok_memcheck: "pool_ok p \<Longrightarrow> pool_memcheck p"
  using ta_ok_memcheck pa_ok_memcheck by (cases p) (simp_all add: pool_ok_def pool_memcheck_def)

lemma page_objects_fmts: "page_objects T align shapes dtypes fmt idx bufs = Inr obs \<Longrightarrow> heap_fmts obs \<subseteq> {fmt}"
proof (induction T align shapes dtypes fmt idx bufs arbitrary: obs rule: page_objects.induct)
  case (2 T align shapes dtypes fmt idx buf bufs)
  from 2(2) obtain shape dtype ob obs' where
    ob: "TensorMemoryObj_init T buf (fresh_metadata shape dtype idx align fmt shapes dtypes) True = Inr ob"
    and obs': "page_objects T align shapes dtypes fmt (idx + 1) bufs = Inr obs'" and obs: "obs = ob # obs'"
    by auto
  have "md_fmt (tm_meta ob) = fmt" using tm_init_fields [OF ob] by (simp add: fresh_metadata_def)
  with 2(1) [OF obs'] show ?case by (simp add: obs heap_fmts_def)
qed (simp add: heap_fmts_def)

text \<open>Arguments under which the constructor of a buffer allocator succeeds with whole pages.\<close>

definition paging_ok :: "Torch \<Rightarrow> paging_args \<Rightarrow> bool" where
  "paging_ok T kw \<longleftrightarrow>
     (kw_use_paging kw \<longrightarrow>
       (case (kw_shapes kw, kw_dtypes kw, kw_fmt kw) of
          (Some shapes, Some dtypes, Some fmt) \<Rightarrow>
            fmt \<in> set KV_FORMATS \<and>
            (case get_size_bytes T shapes dtypes of Inl _ \<Rightarrow> False | Inr n \<Rightarrow> 0 < n)
        | _ \<Rightarrow> False))"

lemma make_pool_ok:
  assumes D: "SortedList_documented S" "Torch_documented T" and sz: "0 < sz" and kw: "paging_ok T kw"
    and p: "make_pool S T sz ALIGN_BYTES kw = Inr p"
  shows "pool_inv S T p" and "pool_in_use p = {}" and "heap_fmts (pool_heap p) \<subseteq> set KV_FORMATS"
proof -
  have "pool_inv S T p \<and> pool_in_use p = {} \<and> heap_fmts (pool_heap p) \<subseteq> set KV_FORMATS"
  proof (cases "kw_use_paging kw")
    case True
    with kw obtain shapes dtypes fmt n where k: "kw_shapes kw = Some shapes" "kw_dtypes kw = Some dtypes" "kw_fmt kw = Some fmt"
      "fmt \<in> set KV_FORMATS" "get_size_bytes T shapes dtypes = Inr n" "0 < n"
      by (auto simp: paging_ok_def split: option.splits sum.splits)
    with p True obtain w where w: "PagedTensorMemoryAllocator_init T (0, sz) shapes dtypes fmt = Inr w" "p = PagedPool w"
      by (auto simp: make_pool_def)
    obtain bufs where "page_objects T n shapes dtypes fmt 0 bufs = Inr (mw_heap w)"
      using w(1) k(5) by (auto simp: PagedTensorMemoryAllocator_init_def Let_def split: if_splits)
    from page_objects_fmts [OF this] pa_init_ok(1,2) [OF D(2) w(1) k(5,6)] sz D k(4) show ?thesis
      by (auto simp: w(2) pool_inv_def pool_ok_def pool_in_use_def pool_heap_def)
  next
    case False
    have "(ALIGN_BYTES :: int) = 2 ^ 12" by (simp add: ALIGN_BYTES_def)
    from ta_initial_ok(1) [OF D(1) _ this, of "(0, sz)"] sz False p D show ?thesis
      by (auto simp: make_pool_def ta_initial_def pool_inv_def pool_ok_def pool_in_use_def ta_in_use_def pool_heap_def heap_fmts_def)
  qed
  then show "pool_inv S T p" "pool_in_use p = {}" "heap_fmts (pool_heap p) \<subseteq> set KV_FORMATS" by simp_all
qed

text \<open>
  Property C11. The mixed allocator keeps its clients apart, with the explicit-list delegate and
  with the paged one. Clients may ask for single objects and batches of any format (byte
  buffers and rejected formats included) and give back what they hold. At every moment the
  objects they hold are distinct live objects whose bytes do not overlap, every one of them
  is accepted by \<^verbatim>\<open>free\<close>, and the memory check passes.
\<close>

theorem mixed_allocator_exclusive:
  assumes "SortedList_documented S" and "Torch_documented T" and "0 < sz" and "paging_ok T kw"
    and "MixedMemoryAllocator_init S T sz kw = Inr m0"
    and "\<forall>c \<in> set calls. call_ok (mixed_request_ok T) m0 c"
    and "fold (client_step (mixed_acquire S T) (mixed_release S)) calls (m0, {}) = (m, held)"
  shows "held = pool_in_use (mx_pin_allocator m) \<and> MixedMemoryAllocator_memcheck m \<and>
     (\<forall>i \<in> held. \<forall>j \<in> held. i \<noteq> j \<longrightarrow> pool_bytes (mx_pin_allocator m) i \<inter> pool_bytes (mx_pin_allocator m) j = {}) \<and>
     (\<forall>i \<in> held. \<exists>m'. MixedMemoryAllocator_free S m (TensorObj i) = Inr m')"
proof -
  obtain p where p: "make_pool S T sz ALIGN_BYTES kw = Inr p" "mx_pin_allocator m0 = p"
    using assms(5) by (auto simp: MixedMemoryAllocator_init_def)
  note i = make_pool_ok [OF assms(1-4) p(1)]
  have inv0: "mixed_inv S T m0" "pool_in_use (mx_pin_allocator m0) = {}" using i by (simp_all add: mixed_inv_def p(2))
  have e: "mixed_inv S T m" "pool_in_use (mx_pin_allocator m) = held"
    "\<forall>i \<in> held. \<forall>j \<in> held. i \<noteq> j \<longrightarrow> pool_bytes (mx_pin_allocator m) i \<inter> pool_bytes (mx_pin_allocator m) j = {}"
    using mx.clients_exclusive [OF inv0 assms(6,7)] by simp_all
  have "MixedMemoryAllocator_memcheck m"
    using e(1) pool_ok_memcheck by (simp add: MixedMemoryAllocator_memcheck_def mixed_inv_def pool_inv_def)
  moreover have "\<exists>m'. MixedMemoryAllocator_free S m (TensorObj i) = Inr m'" if "i \<in> held" for i
    using mixed_fmt_kv [OF e(1), of i] that e(2) by (simp add: MixedMemoryAllocator_free_def Let_def)
  ultimately show ?thesis using e(2,3) by blast
qed

theorem mixed_allocator_exclusive_witness:
  "\<exists>m0 m held. MixedMemoryAllocator_init insertion_list plain_torch 65536
        \<lparr>kw_use_paging = False, kw_shapes = None, kw_dtypes = None, kw_fmt = None\<rparr> = Inr m0 \<and>
     fold (client_step (mixed_acquire insertion_list plain_torch) (mixed_release insertion_list))
       [Acquire (Batch (One [4]) (One ''float16'') 2 KV_2LTD), Acquire (Single (One [9]) (One ''float16'') BINARY_BUFFER),
        Release [0], Acquire (Single (One [4]) (One ''float16'') KV_2TD)] (m0, {}) = (m, held) \<and>
     held = pool_in_use (mx_pin_allocator m) \<and> MixedMemoryAllocator_memcheck m"
proof -
  let ?kw = "\<lparr>kw_use_paging = False, kw_shapes = None, kw_dtypes = None, kw_fmt = None\<rparr>"
  let ?calls = "[Acquire (Batch (One [4]) (One ''float16'') 2 KV_2LTD), Acquire (Single (One [9]) (One ''float16'') BINARY_BUFFER),
        Release [0], Acquire (Single (One [4]) (One ''float16'') KV_2TD)]"
  obtain m0 where m0: "MixedMemoryAllocator_init insertion_list plain_torch 65536 ?kw = Inr m0"
    "mx_pin_allocator m0 = TensorPool \<lparr>mw_heap = [], mw_alloc = TensorMemoryAllocator_init insertion_list (0, 65536) ALIGN_BYTES None,
       mw_pinned = []\<rparr>"
    by (simp add: MixedMemoryAllocator_init_def make_pool_def)
  have c: "\<forall>c \<in> set ?calls. call_ok (mixed_request_ok plain_torch) m0 c"
    by (simp add: mixed_request_ok_def pool_request_ok_def m0(2) get_size_bytes_def plain_torch_def)
  obtain m held where f: "fold (client_step (mixed_acquire insertion_list plain_torch) (mixed_release insertion_list)) ?calls (m0, {})
    = (m, held)" by (metis surj_pair)
  have "paging_ok plain_torch ?kw" by (simp add: paging_ok_def)
  from mixed_allocator_exclusive [OF insertion_list_documented plain_torch_documented _ this m0(1) c f] m0(1) f
  show ?thesis by (metis zero_less_numeral)
qed

end
