(* ===== verification/TTL_Lock.thy ===== *)
theory TTL_Lock
  imports LM_Prelude
begin

text \<open>
  The class \<^verbatim>\<open>TTLLock\<close> of \<^verbatim>\<open>csrc/storage_manager/ttl_lock.h\<close> and \<^verbatim>\<open>ttl_lock.cpp\<close>: a counting lock that
  counts as released once its time to live is over. The three fields are \<^verbatim>\<open>int64_t\<close> values;
  every load, store and compare-and-swap of the two atomics is one step of a thread.

  Shown: a thread that runs alone computes the atomic operations that the header documents;
  while the lock does not expire, every interleaving of any number of \<^verbatim>\<open>lock\<close> and \<^verbatim>\<open>unlock\<close> calls
  counts exactly; when the lock is expired, two concurrent calls of \<^verbatim>\<open>lock\<close> can leave a count of
  one. The laws that the L1 manager uses are the locale \<open>counting_lock\<close>.
\<close>

unbundle bit_operations_syntax

type_synonym int64 = "64 word"

section \<open>State and atomic operations\<close>

record TTLLock =
  tl_counter :: int64
  tl_expiration_ms :: int64
  tl_ttl_ms :: int64

definition TTLLock_init :: "32 word \<Rightarrow> TTLLock" where
  "TTLLock_init ttl_sec = \<lparr>tl_counter = 0, tl_expiration_ms = 0, tl_ttl_ms = ucast ttl_sec * 1000\<rparr>"

text \<open>What \<^verbatim>\<open>lock\<close>, \<^verbatim>\<open>unlock\<close> and \<^verbatim>\<open>is_locked\<close> do when no other thread is inside a method. \<open>now\<close> is the value of \<^verbatim>\<open>now_ms()\<close>.\<close>

definition TTLLock_lock :: "int64 \<Rightarrow> TTLLock \<Rightarrow> TTLLock" where
  "TTLLock_lock now l =
     (let new_expiration = now + tl_ttl_ms l
      in if tl_expiration_ms l \<le>s now
         then l\<lparr>tl_expiration_ms := new_expiration, tl_counter := 1\<rparr>
         else l\<lparr>tl_counter := tl_counter l + 1, tl_expiration_ms := new_expiration\<rparr>)"

definition TTLLock_unlock :: "TTLLock \<Rightarrow> TTLLock" where
  "TTLLock_unlock l = (if tl_counter l \<le>s 0 then l else l\<lparr>tl_counter := tl_counter l - 1\<rparr>)"

definition TTLLock_is_locked :: "int64 \<Rightarrow> TTLLock \<Rightarrow> bool" where
  "TTLLock_is_locked now l \<longleftrightarrow> 0 <s tl_counter l \<and> now <s tl_expiration_ms l"

definition TTLLock_reset :: "TTLLock \<Rightarrow> TTLLock" where
  "TTLLock_reset l = l\<lparr>tl_counter := 0, tl_expiration_ms := 0\<rparr>"

section \<open>Threads\<close>

text \<open>
  The position of a thread inside a method, with the values of its local variables that are
  still needed. \<open>L_load t\<close> is the head of the loop of \<^verbatim>\<open>lock\<close> with \<^verbatim>\<open>current_time\<close> \<open>t\<close>.
\<close>

datatype ttl_pc =
    L_load int64
  | L_loaded int64 int64
  | L_cas int64 int64 int64
  | L_store_counter int64
  | L_store_expiration int64
  | L_done
  | U_load
  | U_cas int64
  | U_done bool

fun ttl_thread :: "ttl_pc \<Rightarrow> TTLLock \<Rightarrow> ttl_pc \<times> TTLLock" where
  "ttl_thread (L_load t) l = (L_loaded t (tl_expiration_ms l), l)"
| "ttl_thread (L_loaded t old_expiration) l = (L_cas t old_expiration (tl_counter l), l)"
| "ttl_thread (L_cas t old_expiration old_counter) l =
     (if old_expiration \<le>s t
      then if tl_expiration_ms l = old_expiration
           then (L_store_counter t, l\<lparr>tl_expiration_ms := t + tl_ttl_ms l\<rparr>)
           else (L_load t, l)
      else if tl_counter l = old_counter
           then (L_store_expiration t, l\<lparr>tl_counter := old_counter + 1\<rparr>)
           else (L_load t, l))"
| "ttl_thread (L_store_counter t) l = (L_done, l\<lparr>tl_counter := 1\<rparr>)"
| "ttl_thread (L_store_expiration t) l = (L_done, l\<lparr>tl_expiration_ms := t + tl_ttl_ms l\<rparr>)"
| "ttl_thread L_done l = (L_done, l)"
| "ttl_thread U_load l = (if tl_counter l \<le>s 0 then (U_done False, l) else (U_cas (tl_counter l), l))"
| "ttl_thread (U_cas old_counter) l =
     (if tl_counter l = old_counter then (U_done True, l\<lparr>tl_counter := old_counter - 1\<rparr>) else (U_load, l))"
| "ttl_thread (U_done b) l = (U_done b, l)"

text \<open>A scheduler picks the thread that makes the next step.\<close>

fun ttl_sched :: "nat list \<Rightarrow> TTLLock \<times> ttl_pc list \<Rightarrow> TTLLock \<times> ttl_pc list" where
  "ttl_sched [] st = st"
| "ttl_sched (i # is) (l, pcs) =
     (if i < length pcs
      then let (pc, l') = ttl_thread (pcs ! i) l in ttl_sched is (l', pcs[i := pc])
      else ttl_sched is (l, pcs))"

definition ttl_alone :: "nat \<Rightarrow> ttl_pc \<Rightarrow> TTLLock \<Rightarrow> ttl_pc \<times> TTLLock" where
  "ttl_alone n pc l = ((\<lambda>(pc, l). ttl_thread pc l) ^^ n) (pc, l)"

section \<open>Signed arithmetic\<close>

lemmas sint_order = word_sless_alt word_sle_eq

lemma sint64_plus:
  fixes a b :: int64
  assumes "- (2 ^ 63) \<le> sint a + sint b" and "sint a + sint b < 2 ^ 63"
  shows "sint (a + b) = sint a + sint b"
  using assms by (simp add: sint_word_ariths(1) signed_take_bit_int_eq_self)

lemma sint64_minus:
  fixes a b :: int64
  assumes "- (2 ^ 63) \<le> sint a - sint b" and "sint a - sint b < 2 ^ 63"
  shows "sint (a - b) = sint a - sint b"
  using assms by (simp add: sint_word_ariths(2) signed_take_bit_int_eq_self)

lemma sint64_1 [simp]: "sint (1 :: int64) = 1"
  by simp

section \<open>The contract of a counting lock\<close>

text \<open>
  \<open>count t l\<close> is the number of holders at time \<open>t\<close>, \<open>until l\<close> the end of the current lease. Locking at
  a time adds a holder and renews the lease, unlocking takes one away and keeps the lease, and
  the lock is held while there is a holder. \<open>room t l\<close> says that the fields do not overflow.
\<close>

locale counting_lock =
  fixes good :: "'l \<Rightarrow> bool"
    and count :: "'t \<Rightarrow> 'l \<Rightarrow> nat"
    and alive :: "'t \<Rightarrow> 'l \<Rightarrow> bool"
    and room :: "'t \<Rightarrow> 'l \<Rightarrow> bool"
    and lock :: "'t \<Rightarrow> 'l \<Rightarrow> 'l"
    and unlock :: "'l \<Rightarrow> 'l"
    and is_locked :: "'t \<Rightarrow> 'l \<Rightarrow> bool"
  assumes lock_law: "good l \<Longrightarrow> room t l \<Longrightarrow> good (lock t l) \<and> alive t (lock t l) \<and> count t (lock t l) = count t l + 1"
    and unlock_law: "good l \<Longrightarrow> good (unlock l) \<and> alive t (unlock l) = alive t l \<and> count t (unlock l) = count t l - 1"
    and locked_law: "good l \<Longrightarrow> is_locked t l \<longleftrightarrow> 0 < count t l"
begin

lemma lock_locks: "good l \<Longrightarrow> room t l \<Longrightarrow> is_locked t (lock t l)"
  using lock_law [of l t] locked_law [of "lock t l" t] by simp

lemma unlock_keeps: "good l \<Longrightarrow> 1 < count t l \<Longrightarrow> is_locked t (unlock l)"
  using unlock_law [of l t] locked_law [of "unlock l" t] by simp

lemma lock_unlock: "good l \<Longrightarrow> room t l \<Longrightarrow> count t (unlock (lock t l)) = count t l"
  using lock_law [of l t] unlock_law [of "lock t l" t] by simp

lemma unlocks_release:
  assumes "good l" and "count t l \<le> n"
  shows "\<not> is_locked t ((unlock ^^ n) l)"
proof -
  have "good ((unlock ^^ n) l) \<and> count t ((unlock ^^ n) l) = count t l - n" for n
    by (induction n) (use assms(1) unlock_law in auto)
  then show ?thesis using assms(2) locked_law by simp
qed

end

definition lock_good :: "TTLLock \<Rightarrow> bool" where
  "lock_good l \<longleftrightarrow> 0 \<le> sint (tl_counter l) \<and> 0 < sint (tl_ttl_ms l) \<and> sint (tl_ttl_ms l) < 2 ^ 42"

definition lock_alive :: "int64 \<Rightarrow> TTLLock \<Rightarrow> bool" where
  "lock_alive now l \<longleftrightarrow> now <s tl_expiration_ms l"

definition lock_count :: "int64 \<Rightarrow> TTLLock \<Rightarrow> nat" where
  "lock_count now l = (if lock_alive now l then nat (sint (tl_counter l)) else 0)"

text \<open>The clock counts milliseconds since some start and is far from its limit, and so is the counter.\<close>

definition time_ok :: "int64 \<Rightarrow> bool" where
  "time_ok now \<longleftrightarrow> 0 \<le> sint now \<and> sint now < 2 ^ 62"

definition lock_room :: "int64 \<Rightarrow> TTLLock \<Rightarrow> bool" where
  "lock_room now l \<longleftrightarrow> time_ok now \<and> sint (tl_counter l) < 2 ^ 63 - 1"

lemma lock_fields:
  assumes "lock_good l" and "lock_room now l"
  shows "sint (tl_counter (TTLLock_lock now l)) = (if lock_alive now l then sint (tl_counter l) + 1 else 1)"
    and "sint (tl_expiration_ms (TTLLock_lock now l)) = sint now + sint (tl_ttl_ms l)"
    and "tl_ttl_ms (TTLLock_lock now l) = tl_ttl_ms l"
proof -
  have "sint (now + tl_ttl_ms l) = sint now + sint (tl_ttl_ms l)"
    using assms by (intro sint64_plus) (simp_all add: lock_good_def lock_room_def time_ok_def)
  then show "sint (tl_expiration_ms (TTLLock_lock now l)) = sint now + sint (tl_ttl_ms l)"
    by (simp add: TTLLock_lock_def Let_def)
  have "sint (tl_counter l + 1) = sint (tl_counter l) + 1"
    using assms by (subst sint64_plus) (simp_all add: lock_good_def lock_room_def)
  then show "sint (tl_counter (TTLLock_lock now l)) = (if lock_alive now l then sint (tl_counter l) + 1 else 1)"
    by (auto simp: TTLLock_lock_def Let_def lock_alive_def sint_order)
qed (simp add: TTLLock_lock_def Let_def)

lemma unlock_fields:
  assumes "lock_good l"
  shows "sint (tl_counter (TTLLock_unlock l)) = max 0 (sint (tl_counter l) - 1)"
    and "tl_expiration_ms (TTLLock_unlock l) = tl_expiration_ms l" and "tl_ttl_ms (TTLLock_unlock l) = tl_ttl_ms l"
proof -
  have "sint (tl_counter l - 1) = sint (tl_counter l) - 1" if "0 < sint (tl_counter l)"
    using that sint_range_size [of "tl_counter l"] by (subst sint64_minus) (simp_all add: word_size)
  then show "sint (tl_counter (TTLLock_unlock l)) = max 0 (sint (tl_counter l) - 1)"
    using assms by (auto simp: TTLLock_unlock_def sint_order lock_good_def max_def)
qed (simp_all add: TTLLock_unlock_def)

interpretation tl: counting_lock lock_good lock_count lock_alive lock_room TTLLock_lock TTLLock_unlock TTLLock_is_locked
proof (unfold_locales, goal_cases)
  case (1 l t)
  note f = lock_fields [OF 1]
  have "lock_good (TTLLock_lock t l)" using f 1(1) by (simp add: lock_good_def)
  moreover have "lock_alive t (TTLLock_lock t l)" using f(2) 1(1) by (simp add: lock_alive_def sint_order lock_good_def)
  ultimately show ?case using f(1) 1(1) by (simp add: lock_count_def lock_good_def nat_add_distrib)
next
  case (2 l t)
  note f = unlock_fields [OF 2]
  show ?case using f 2 by (auto simp: lock_good_def lock_alive_def lock_count_def max_def)
next
  case (3 l t)
  then show ?case by (auto simp: TTLLock_is_locked_def lock_count_def lock_alive_def sint_order lock_good_def)
qed

lemma lock_good_init:
  assumes "ttl \<noteq> 0"
  shows "lock_good (TTLLock_init ttl)" and "lock_count now (TTLLock_init ttl) = 0"
proof -
  have u: "uint ttl < 2 ^ 32" "0 < uint ttl" using assms uint_bounded [of ttl] by (simp_all add: word_neq_0_conv word_less_def)
  have "uint (ucast ttl :: int64) = uint ttl" using u by (simp add: uint_up_ucast is_up)
  then have "uint (ucast ttl * 1000 :: int64) = uint ttl * 1000" using u by (simp add: uint_word_ariths(3))
  then have "sint (ucast ttl * 1000 :: int64) = uint ttl * 1000"
    using u by (simp add: sint_uint signed_take_bit_int_eq_self)
  then show "lock_good (TTLLock_init ttl)" using u by (simp add: lock_good_def TTLLock_init_def)
  show "lock_count now (TTLLock_init ttl) = 0" by (simp add: lock_count_def TTLLock_init_def)
qed

section \<open>Interleavings\<close>

definition acquired :: "ttl_pc \<Rightarrow> bool" where
  "acquired pc \<longleftrightarrow> (case pc of L_store_expiration _ \<Rightarrow> True | L_done \<Rightarrow> True | _ \<Rightarrow> False)"

definition released :: "ttl_pc \<Rightarrow> bool" where
  "released pc \<longleftrightarrow> pc = U_done True"

text \<open>A call that starts: \<open>lock\<close> at a time before the deadline, with a lease that reaches it, or \<open>unlock\<close>.\<close>

fun starts :: "int64 \<Rightarrow> int64 \<Rightarrow> ttl_pc \<Rightarrow> bool" where
  "starts deadline ttl (L_load t) \<longleftrightarrow> t <s deadline \<and> deadline \<le>s t + ttl"
| "starts deadline ttl U_load \<longleftrightarrow> True"
| "starts deadline ttl _ \<longleftrightarrow> False"

text \<open>A thread that has not seen the lock expire.\<close>

fun unexpired :: "int64 \<Rightarrow> int64 \<Rightarrow> ttl_pc \<Rightarrow> bool" where
  "unexpired deadline ttl (L_load t) \<longleftrightarrow> t <s deadline \<and> deadline \<le>s t + ttl"
| "unexpired deadline ttl (L_loaded t e) \<longleftrightarrow> t <s deadline \<and> deadline \<le>s t + ttl \<and> deadline \<le>s e"
| "unexpired deadline ttl (L_cas t e c) \<longleftrightarrow> t <s deadline \<and> deadline \<le>s t + ttl \<and> deadline \<le>s e"
| "unexpired deadline ttl (L_store_counter t) \<longleftrightarrow> False"
| "unexpired deadline ttl (L_store_expiration t) \<longleftrightarrow> deadline \<le>s t + ttl"
| "unexpired deadline ttl _ \<longleftrightarrow> True"

definition weight :: "ttl_pc \<Rightarrow> int64" where
  "weight pc = (if acquired pc then 1 else if released pc then - 1 else 0)"

lemma ttl_thread_exact:
  assumes "ttl_thread pc l = (pc', l')" and "unexpired deadline (tl_ttl_ms l) pc" and "deadline \<le>s tl_expiration_ms l"
  shows "tl_ttl_ms l' = tl_ttl_ms l" and "unexpired deadline (tl_ttl_ms l) pc'" and "deadline \<le>s tl_expiration_ms l'"
    and "tl_counter l' - weight pc' = tl_counter l - weight pc"
proof -
  have "tl_ttl_ms l' = tl_ttl_ms l \<and> unexpired deadline (tl_ttl_ms l) pc' \<and> deadline \<le>s tl_expiration_ms l' \<and>
    tl_counter l' - weight pc' = tl_counter l - weight pc"
    using assms
    by (cases pc) (auto simp: weight_def acquired_def released_def sint_order split: if_splits)
  then show "tl_ttl_ms l' = tl_ttl_ms l" "unexpired deadline (tl_ttl_ms l) pc'" "deadline \<le>s tl_expiration_ms l'"
    "tl_counter l' - weight pc' = tl_counter l - weight pc" by simp_all
qed

lemma sum_list_exchange:
  "i < length xs \<Longrightarrow> sum_list (xs[i := y]) = sum_list xs + y - (xs ! i :: 'a :: ab_group_add)"
  by (induction xs arbitrary: i) (auto simp: algebra_simps split: nat.splits)

lemma ttl_sched_exact:
  assumes "\<forall>pc \<in> set pcs. unexpired deadline (tl_ttl_ms l) pc" and "deadline \<le>s tl_expiration_ms l"
    and "ttl_sched is (l, pcs) = (l', pcs')"
  shows "tl_counter l' - sum_list (map weight pcs') = tl_counter l - sum_list (map weight pcs) \<and>
     deadline \<le>s tl_expiration_ms l' \<and> length pcs' = length pcs"
  using assms
proof (induction "is" arbitrary: l pcs)
  case (Cons i "is")
  show ?case
  proof (cases "i < length pcs")
    case True
    obtain pc v where t: "ttl_thread (pcs ! i) l = (pc, v)" by fastforce
    have u: "unexpired deadline (tl_ttl_ms l) (pcs ! i)" using Cons.prems(1) True by simp
    note e = ttl_thread_exact [OF t u Cons.prems(2)]
    have "\<forall>q \<in> set (pcs[i := pc]). unexpired deadline (tl_ttl_ms v) q"
      using Cons.prems(1) e(1,2) set_update_subset_insert [of pcs i pc] by auto
    from Cons.IH [OF this e(3)] Cons.prems(3) t True
    have "tl_counter l' - sum_list (map weight pcs') = tl_counter v - sum_list (map weight (pcs[i := pc])) \<and>
      deadline \<le>s tl_expiration_ms l' \<and> length pcs' = length pcs" by simp
    moreover have "sum_list (map weight (pcs[i := pc])) = sum_list (map weight pcs) + weight pc - weight (pcs ! i)"
      using True by (simp add: map_update sum_list_exchange)
    moreover have "tl_counter v - (sum_list (map weight pcs) + weight pc - weight (pcs ! i)) =
      tl_counter v - weight pc + weight (pcs ! i) - sum_list (map weight pcs)" by simp
    ultimately show ?thesis by (simp add: e(4))
  qed (use Cons in simp)
qed simp

lemma weight_sum:
  "sum_list (map weight pcs) = of_nat (length (filter acquired pcs)) - of_nat (length (filter released pcs))"
  by (induction pcs) (auto simp: weight_def acquired_def released_def algebra_simps split: ttl_pc.splits)

section \<open>Properties\<close>

text \<open>
  A thread that runs undisturbed does what the header documents: \<^verbatim>\<open>lock\<close> ends after
  four atomic accesses with the count one higher, or one when the lease was over, and the lease
  renewed; \<^verbatim>\<open>unlock\<close> ends after two with the count one lower, never below zero.
\<close>

lemma ttl_methods_atomic:
  "ttl_alone 4 (L_load now) l = (L_done, TTLLock_lock now l) \<and>
   ttl_alone 2 U_load l = (U_done (0 <s tl_counter l), TTLLock_unlock l)"
proof -
  have n: "(4 :: nat) = Suc (Suc (Suc (Suc 0)))" "(2 :: nat) = Suc (Suc 0)" by simp_all
  show ?thesis
    unfolding ttl_alone_def n
    by (auto simp: TTLLock_lock_def TTLLock_unlock_def Let_def sint_order)
qed

text \<open>
  Property C18. While the lease does not end, the lock counts exactly under every interleaving.
  Any number of threads call \<^verbatim>\<open>lock\<close> and \<^verbatim>\<open>unlock\<close>, and the scheduler picks the next thread at every
  atomic access. As long as all calls of \<^verbatim>\<open>lock\<close> read a time before some deadline that the lease
  covers, the counter is at every moment its initial value plus the number of threads that
  acquired minus the number of threads that released (modulo the width of the counter), and
  the lease still covers the deadline.
\<close>

theorem ttl_interleavings_exact:
  assumes "\<forall>pc \<in> set pcs. starts deadline (tl_ttl_ms l) pc" and "deadline \<le>s tl_expiration_ms l"
    and "ttl_sched schedule (l, pcs) = (l', pcs')"
  shows "tl_counter l' = tl_counter l + of_nat (length (filter acquired pcs')) - of_nat (length (filter released pcs')) \<and>
     deadline \<le>s tl_expiration_ms l'"
proof -
  have s: "unexpired deadline (tl_ttl_ms l) pc \<and> weight pc = 0" if "pc \<in> set pcs" for pc
    using assms(1) that by (cases pc) (auto simp: weight_def acquired_def released_def)
  then have "sum_list (map weight pcs) = 0" by (induction pcs) simp_all
  moreover have "\<forall>pc \<in> set pcs. unexpired deadline (tl_ttl_ms l) pc" using s by blast
  ultimately show ?thesis
    using ttl_sched_exact [OF _ assms(2,3)] by (simp add: weight_sum algebra_simps)
qed

theorem ttl_interleavings_exact_witness:
  "\<exists>l' pcs'. ttl_sched [0, 1, 2, 0, 1, 2, 0, 1, 0, 2, 1, 1, 2, 1, 1, 0, 0, 0]
      (\<lparr>tl_counter = 1, tl_expiration_ms = 1000, tl_ttl_ms = 2000\<rparr>, [L_load 500, L_load 501, U_load]) = (l', pcs') \<and>
     tl_counter l' = 2"
proof -
  let ?l = "\<lparr>tl_counter = 1, tl_expiration_ms = 1000, tl_ttl_ms = 2000\<rparr>" and ?p = "[L_load 500, L_load 501, U_load]"
  let ?s = "[0, 1, 2, 0, 1, 2, 0, 1, 0, 2, 1, 1, 2, 1, 1, 0, 0, 0] :: nat list"
  obtain l' pcs' where r: "ttl_sched ?s (?l, ?p) = (l', pcs')" by fastforce
  have "map (\<lambda>pc. (acquired pc, released pc)) (snd (ttl_sched ?s (?l, ?p))) = [(True, False), (True, False), (False, True)]"
    by code_simp
  then have c: "length (filter acquired pcs') = 2" "length (filter released pcs') = 1"
    unfolding r by (auto simp: map_eq_Cons_conv)
  have "\<forall>pc \<in> set ?p. starts 900 (tl_ttl_ms ?l) pc" "900 \<le>s tl_expiration_ms ?l" by (simp_all add: sint_order)
  from ttl_interleavings_exact [OF this r] c show ?thesis using r by simp
qed

text \<open>
  Property C28. When the lease is over, concurrent calls of \<^verbatim>\<open>lock\<close> can lose a holder. The first
  thread renews the lease and is then overtaken; the second finds a live lease, increments the
  old count and returns; the first stores one. Both calls have returned, in either order the
  atomic operations give two, but the count is one, and a single \<^verbatim>\<open>unlock\<close> opens the lock.
\<close>

theorem ttl_expired_lock_loses_holder:
  assumes "lock_good l" and "lock_room now l" and "tl_expiration_ms l \<le>s now"
    and "ttl_sched [0, 0, 0, 1, 1, 1, 1, 0] (l, [L_load now, L_load now]) = (l', pcs')"
  shows "pcs' = [L_done, L_done] \<and> tl_counter l' = 1 \<and> \<not> TTLLock_is_locked now (TTLLock_unlock l') \<and>
     TTLLock_is_locked now (TTLLock_unlock (TTLLock_lock now (TTLLock_lock now l)))"
proof -
  have lt: "\<not> now + tl_ttl_ms l \<le>s now"
    using assms sint64_plus [of now "tl_ttl_ms l"] by (simp add: lock_good_def lock_room_def time_ok_def sint_order)
  have run: "pcs' = [L_done, L_done]" "tl_counter l' = 1" using assms(3,4) lt by auto
  have "\<not> TTLLock_is_locked now (TTLLock_unlock l')" using run(2) by (simp add: TTLLock_is_locked_def TTLLock_unlock_def sint_order)
  moreover have "TTLLock_is_locked now (TTLLock_unlock (TTLLock_lock now (TTLLock_lock now l)))"
  proof -
    have g: "lock_good (TTLLock_lock now l)" "lock_count now (TTLLock_lock now l) = lock_count now l + 1"
      using tl.lock_law [OF assms(1,2)] by simp_all
    have "lock_room now (TTLLock_lock now l)"
      using assms(2,3) by (simp add: lock_room_def TTLLock_lock_def Let_def)
    from tl.lock_law [OF g(1) this] g(2) tl.unlock_keeps [of "TTLLock_lock now (TTLLock_lock now l)" now] show ?thesis by simp
  qed
  ultimately show ?thesis using run by simp
qed

theorem ttl_expired_lock_loses_holder_witness:
  "\<exists>l' pcs'. ttl_sched [0, 0, 0, 1, 1, 1, 1, 0] (TTLLock_init 300, [L_load 5000, L_load 5000]) = (l', pcs') \<and>
     tl_counter l' = 1 \<and> \<not> TTLLock_is_locked 5000 (TTLLock_unlock l')"
proof -
  obtain l' pcs' where r: "ttl_sched [0, 0, 0, 1, 1, 1, 1, 0] (TTLLock_init 300, [L_load 5000, L_load 5000]) = (l', pcs')"
    by fastforce
  have "lock_good (TTLLock_init 300)" by (rule lock_good_init) simp
  moreover have "lock_room 5000 (TTLLock_init 300)" by (simp add: lock_room_def time_ok_def TTLLock_init_def)
  moreover have "tl_expiration_ms (TTLLock_init 300) \<le>s 5000" by (simp add: TTLLock_init_def sint_order)
  ultimately show ?thesis using ttl_expired_lock_loses_holder [OF _ _ _ r] r by blast
qed

end
