(* ===== verification/LRU_Eviction.thy ===== *)
theory LRU_Eviction
  imports LM_Prelude Complex_Main
begin

text \<open>
  The eviction policy of the L1 cache: \<^verbatim>\<open>EvictionPolicy\<close> of \<^verbatim>\<open>lmcache/v1/distributed/eviction.py\<close> and
  \<^verbatim>\<open>LRUEvictionPolicy\<close> of \<^verbatim>\<open>lmcache/v1/distributed/eviction_policy/lru.py\<close>, with the data classes of
  \<^verbatim>\<open>internal_api.py\<close>. The policy is a listener of the L1 manager. Its lock makes every method atomic.

  The ordered dictionary is the list of its keys, the oldest first. The ratio of a request is
  a rational number in place of a float.

  Shown: the policy refines the specification that remembers for every tracked key when it was
  last used; the keys it offers for eviction are tracked, distinct, and older than all others.
\<close>

section \<open>State and operations\<close>

datatype EvictionDestination = DISCARD | L2_CACHE

record 'k EvictionAction =
  ea_destination :: EvictionDestination
  ea_keys :: "'k list"

record 'k LRUEvictionPolicy =
  lru_order :: "'k list"
  lru_destinations :: "EvictionDestination list"
  lru_default_destination :: EvictionDestination

definition LRUEvictionPolicy_init :: "EvictionDestination \<Rightarrow> 'k LRUEvictionPolicy" where
  "LRUEvictionPolicy_init default_destination =
     \<lparr>lru_order = [], lru_destinations = [], lru_default_destination = default_destination\<rparr>"

definition register_eviction_destination :: "EvictionDestination \<Rightarrow> 'k LRUEvictionPolicy \<Rightarrow> 'k LRUEvictionPolicy" where
  "register_eviction_destination destination p =
     (if destination \<notin> set (lru_destinations p)
      then p\<lparr>lru_destinations := lru_destinations p @ [destination]\<rparr> else p)"

definition lru_move_to_end :: "'k \<Rightarrow> 'k list \<Rightarrow> 'k list" where
  "lru_move_to_end key order = remove1 key order @ [key]"

definition on_keys_created :: "'k list \<Rightarrow> 'k LRUEvictionPolicy \<Rightarrow> 'k LRUEvictionPolicy" where
  "on_keys_created keys p =
     p\<lparr>lru_order := fold (\<lambda>key order. if key \<in> set order then lru_move_to_end key order else order @ [key])
                       keys (lru_order p)\<rparr>"

definition on_keys_touched :: "'k list \<Rightarrow> 'k LRUEvictionPolicy \<Rightarrow> 'k LRUEvictionPolicy" where
  "on_keys_touched keys p =
     p\<lparr>lru_order := fold (\<lambda>key order. if key \<in> set order then lru_move_to_end key order else order)
                       keys (lru_order p)\<rparr>"

definition on_keys_removed :: "'k list \<Rightarrow> 'k LRUEvictionPolicy \<Rightarrow> 'k LRUEvictionPolicy" where
  "on_keys_removed keys p =
     p\<lparr>lru_order := fold (\<lambda>key order. if key \<in> set order then remove1 key order else order)
                       keys (lru_order p)\<rparr>"

text \<open>The loops that collect keys until there are \<open>cnt\<close> of them; the test is after the append.\<close>

fun first_keys :: "'k list \<Rightarrow> 'k list \<Rightarrow> int \<Rightarrow> 'k list" where
  "first_keys acc [] cnt = acc"
| "first_keys acc (key # order) cnt =
     (let acc' = acc @ [key] in if int (length acc') \<ge> cnt then acc' else first_keys acc' order cnt)"

definition get_eviction_actions :: "rat \<Rightarrow> 'k LRUEvictionPolicy \<Rightarrow> 'k EvictionAction list" where
  "get_eviction_actions ratio p =
     (if lru_order p = [] then []
      else let expected_ratio = max 0 (min 1 ratio);
               n = \<lfloor>of_nat (length (lru_order p)) * expected_ratio\<rfloor>;
               target_count = (if expected_ratio > 0 \<and> n = 0 \<and> length (lru_order p) > 0 then 1 else n)
           in if target_count = 0 then []
              else let keys_to_evict = first_keys [] (lru_order p) target_count;
                       destination = (case lru_destinations p of [] \<Rightarrow> lru_default_destination p | d # _ \<Rightarrow> d)
                   in if keys_to_evict = [] then []
                      else [\<lparr>ea_destination = destination, ea_keys = keys_to_evict\<rparr>])"

definition get_num_tracked_keys :: "'k LRUEvictionPolicy \<Rightarrow> nat" where
  "get_num_tracked_keys p = length (lru_order p)"

definition get_eviction_candidates :: "int \<Rightarrow> 'k LRUEvictionPolicy \<Rightarrow> 'k list" where
  "get_eviction_candidates cnt p = first_keys [] (lru_order p) cnt"

text \<open>The listener methods that \<^verbatim>\<open>EvictionPolicy\<close> implements with the abstract ones.\<close>

definition on_keys_reserved_read :: "'k list \<Rightarrow> 'k LRUEvictionPolicy \<Rightarrow> 'k LRUEvictionPolicy" where
  "on_keys_reserved_read keys p = p"

definition on_keys_read_finished :: "'k list \<Rightarrow> 'k LRUEvictionPolicy \<Rightarrow> 'k LRUEvictionPolicy" where
  "on_keys_read_finished keys p = on_keys_touched keys p"

definition on_keys_reserved_write :: "'k list \<Rightarrow> 'k LRUEvictionPolicy \<Rightarrow> 'k LRUEvictionPolicy" where
  "on_keys_reserved_write keys p = p"

definition on_keys_write_finished :: "'k list \<Rightarrow> 'k LRUEvictionPolicy \<Rightarrow> 'k LRUEvictionPolicy" where
  "on_keys_write_finished keys p = on_keys_created keys p"

definition on_keys_deleted_by_manager :: "'k list \<Rightarrow> 'k LRUEvictionPolicy \<Rightarrow> 'k LRUEvictionPolicy" where
  "on_keys_deleted_by_manager keys p = on_keys_removed keys p"

text \<open>\<^verbatim>\<open>CreateEvictionPolicy\<close>.\<close>

definition CreateEvictionPolicy :: "string \<Rightarrow> 'k LRUEvictionPolicy result" where
  "CreateEvictionPolicy eviction_policy =
     (if eviction_policy = ''LRU'' then Inr (LRUEvictionPolicy_init DISCARD) else Inl ValueError)"

section \<open>The specification\<close>

text \<open>
  Events on single keys, and the specification: a clock, and the time of the last use of every
  tracked key.
\<close>

datatype 'k lru_event = Created 'k | Touched 'k | Removed 'k

fun lru_event_step :: "'k lru_event \<Rightarrow> 'k LRUEvictionPolicy \<Rightarrow> 'k LRUEvictionPolicy" where
  "lru_event_step (Created k) p = on_keys_created [k] p"
| "lru_event_step (Touched k) p = on_keys_touched [k] p"
| "lru_event_step (Removed k) p = on_keys_removed [k] p"

type_synonym 'k recency = "nat \<times> ('k \<rightharpoonup> nat)"

fun recency_step :: "'k lru_event \<Rightarrow> 'k recency \<Rightarrow> 'k recency" where
  "recency_step (Created k) (now, last_use) = (Suc now, last_use(k \<mapsto> now))"
| "recency_step (Touched k) (now, last_use) =
     (Suc now, if last_use k = None then last_use else last_use(k \<mapsto> now))"
| "recency_step (Removed k) (now, last_use) = (Suc now, last_use(k := None))"

text \<open>The order lists exactly the tracked keys, by increasing time of last use, all before now.\<close>

definition refines_recency :: "'k LRUEvictionPolicy \<Rightarrow> 'k recency \<Rightarrow> bool" where
  "refines_recency p r \<longleftrightarrow>
     (case r of (now, last_use) \<Rightarrow>
        set (lru_order p) = dom last_use \<and> (\<forall>k t. last_use k = Some t \<longrightarrow> t < now) \<and>
        sorted_wrt (\<lambda>x y. the (last_use x) < the (last_use y)) (lru_order p))"

lemma sorted_less_distinct: "sorted_wrt (\<lambda>x y. f x < (f y :: nat)) xs \<Longrightarrow> distinct xs"
  by (induction xs) auto

lemma refines_distinct: "refines_recency p r \<Longrightarrow> distinct (lru_order p)"
  by (auto simp: refines_recency_def intro: sorted_less_distinct split: prod.splits)

lemma sorted_wrt_remove1: "sorted_wrt R xs \<Longrightarrow> sorted_wrt R (remove1 x xs)"
  by (induction xs) (auto dest: notin_set_remove1 [THEN notE, rotated] set_remove1_subset [THEN subsetD])

lemma use_now:
  assumes ref: "refines_recency p (now, last_use)" and p': "lru_order p' = remove1 k (lru_order p) @ [k]"
  shows "refines_recency p' (Suc now, last_use(k \<mapsto> now))"
proof -
  have r: "set (lru_order p) = dom last_use" "\<And>k t. last_use k = Some t \<Longrightarrow> t < now"
    "sorted_wrt (\<lambda>x y. the (last_use x) < the (last_use y)) (lru_order p)"
    using ref by (simp_all add: refines_recency_def)
  have d: "set (remove1 k (lru_order p)) = dom last_use - {k}"
    using r(1) refines_distinct [OF ref] by (simp add: set_remove1_eq)
  have "sorted_wrt (\<lambda>x y. the ((last_use(k \<mapsto> now)) x) < the ((last_use(k \<mapsto> now)) y)) (remove1 k (lru_order p))"
    by (rule sorted_wrt_mono_rel [OF _ sorted_wrt_remove1 [OF r(3)]]) (use d in auto)
  moreover have "the ((last_use(k \<mapsto> now)) x) < now" if "x \<in> set (remove1 k (lru_order p))" for x
    using that d r(2) by auto
  ultimately show ?thesis
    using d r(2) by (auto simp: refines_recency_def p' sorted_wrt_append less_Suc_eq)
qed

lemma recency_step_refines:
  assumes "refines_recency p r"
  shows "refines_recency (lru_event_step e p) (recency_step e r)"
proof -
  obtain now last_use where r: "r = (now, last_use)" by (cases r)
  have s: "set (lru_order p) = dom last_use" "\<And>k t. last_use k = Some t \<Longrightarrow> t < now"
    "sorted_wrt (\<lambda>x y. the (last_use x) < the (last_use y)) (lru_order p)"
    using assms by (simp_all add: refines_recency_def r)
  have wait: "refines_recency p (Suc now, last_use)" using s by (auto simp: refines_recency_def less_Suc_eq)
  show ?thesis
  proof (cases e)
    case (Created k)
    have "lru_order (lru_event_step e p) = remove1 k (lru_order p) @ [k]"
      by (simp add: Created on_keys_created_def lru_move_to_end_def remove1_idem)
    from use_now [OF assms [unfolded r] this] show ?thesis by (simp add: Created r)
  next
    case (Touched k)
    show ?thesis
    proof (cases "last_use k = None")
      case True
      then have "k \<notin> set (lru_order p)" using s(1) by auto
      then have "lru_event_step e p = p" by (simp add: Touched on_keys_touched_def)
      then show ?thesis using True wait by (simp add: Touched r)
    next
      case False
      then have "k \<in> set (lru_order p)" using s(1) by auto
      then have "lru_order (lru_event_step e p) = remove1 k (lru_order p) @ [k]"
        by (simp add: Touched on_keys_touched_def lru_move_to_end_def)
      from use_now [OF assms [unfolded r] this] False show ?thesis by (auto simp: Touched r)
    qed
  next
    case (Removed k)
    have o: "lru_order (lru_event_step e p) = remove1 k (lru_order p)"
      by (simp add: Removed on_keys_removed_def remove1_idem)
    have d: "set (remove1 k (lru_order p)) = dom last_use - {k}"
      using s(1) refines_distinct [OF assms] by (simp add: set_remove1_eq)
    have "sorted_wrt (\<lambda>x y. the ((last_use(k := None)) x) < the ((last_use(k := None)) y)) (remove1 k (lru_order p))"
      by (rule sorted_wrt_mono_rel [OF _ sorted_wrt_remove1 [OF s(3)]]) (use d in auto)
    then have "refines_recency (lru_event_step e p) (Suc now, last_use(k := None))"
      using d s(2) by (auto simp: refines_recency_def o less_Suc_eq)
    then show ?thesis by (simp add: Removed r)
  qed
qed

lemma first_keys_take:
  assumes "int (length acc) < cnt"
  shows "first_keys acc order cnt = acc @ take (nat cnt - length acc) order"
  using assms
proof (induction order arbitrary: acc)
  case (Cons key order)
  show ?case
  proof (cases "int (length acc) + 1 \<ge> cnt")
    case True
    then have "nat cnt - length acc = 1" using Cons.prems by simp
    then show ?thesis using True by simp
  next
    case False
    then have "nat cnt - length acc = Suc (nat cnt - length (acc @ [key]))" by simp
    then show ?thesis using False Cons.IH [of "acc @ [key]"] by simp
  qed
qed simp

section \<open>Properties\<close>


text \<open>
  What is evicted is the least recently used part, and of the size that was asked
  for. For any ratio the policy returns nothing exactly when the ratio is not positive or
  nothing is tracked, and otherwise one action for the first registered destination: the
  fraction of the tracked keys, at least one, each of them last used before every key that is
  not in the action.
\<close>

lemma lru_evicts_oldest:
  assumes "refines_recency p (now, last_use)"
  shows "(get_eviction_actions ratio p = [] \<longleftrightarrow> ratio \<le> 0 \<or> dom last_use = {}) \<and>
     (\<forall>a \<in> set (get_eviction_actions ratio p).
        get_eviction_actions ratio p = [a] \<and> distinct (ea_keys a) \<and> set (ea_keys a) \<subseteq> dom last_use \<and>
        int (length (ea_keys a)) = max 1 \<lfloor>of_nat (card (dom last_use)) * min 1 ratio\<rfloor> \<and>
        (\<forall>x \<in> set (ea_keys a). \<forall>y \<in> dom last_use - set (ea_keys a). the (last_use x) < the (last_use y)))"
proof -
  let ?o = "lru_order p"
  have s: "set ?o = dom last_use" "sorted_wrt (\<lambda>x y. the (last_use x) < the (last_use y)) ?o"
    using assms by (simp_all add: refines_recency_def)
  have d: "distinct ?o" using refines_distinct [OF assms] .
  have card: "card (dom last_use) = length ?o" using s(1) d distinct_card by metis
  show ?thesis
  proof (cases "ratio \<le> 0 \<or> dom last_use = {}")
    case True
    then show ?thesis using s(1) by (auto simp: get_eviction_actions_def Let_def)
  next
    case False
    define m where "m = \<lfloor>of_nat (length ?o) * min 1 ratio\<rfloor>"
    define t where "t = max 1 m"
    define a where "a = \<lparr>ea_destination = (case lru_destinations p of [] \<Rightarrow> lru_default_destination p | d # _ \<Rightarrow> d),
      ea_keys = take (nat t) ?o\<rparr>"
    have o: "?o \<noteq> []" and r: "0 < ratio" using False s(1) by (metis list.set(1), simp)
    have n0: "0 \<le> m" using r by (simp add: m_def)
    have t1: "0 < t" by (simp add: t_def)
    have tl: "t \<le> int (length ?o)"
    proof -
      have "of_nat (length ?o) * min 1 ratio \<le> of_nat (length ?o)" by (simp add: mult_left_le)
      then have "m \<le> int (length ?o)" unfolding m_def by linarith
      then show ?thesis using o by (simp add: t_def Suc_leI)
    qed
    have "first_keys [] ?o t = take (nat t) ?o" using t1 by (simp add: first_keys_take)
    moreover have "take (nat t) ?o \<noteq> []" using o t1 by simp
    moreover have "max 0 (min 1 ratio) = min 1 ratio" using r by simp
    moreover have "(if 0 < min 1 ratio \<and> m = 0 \<and> 0 < length ?o then 1 else m) = t" using o r n0 by (auto simp: t_def)
    ultimately have act: "get_eviction_actions ratio p = [a]"
      using o t1 r n0 by (cases "m = 0") (auto simp: get_eviction_actions_def Let_def a_def m_def [symmetric])
    have len: "int (length (ea_keys a)) = t" using tl t1 by (auto simp: a_def min_def)
    have sp: "?o = take (nat t) ?o @ drop (nat t) ?o" by simp
    have "the (last_use x) < the (last_use y)" if "x \<in> set (take (nat t) ?o)" "y \<in> set (drop (nat t) ?o)" for x y
      using s(2) that by (subst (asm) sp) (simp only: sorted_wrt_append)
    moreover have "dom last_use - set (take (nat t) ?o) \<subseteq> set (drop (nat t) ?o)"
      unfolding s(1) [symmetric] by (metis Diff_subset_conv append_take_drop_id set_append subset_refl)
    ultimately have "\<forall>x \<in> set (ea_keys a). \<forall>y \<in> dom last_use - set (ea_keys a). the (last_use x) < the (last_use y)"
      by (auto simp: a_def)
    moreover have "distinct (ea_keys a)" "set (ea_keys a) \<subseteq> dom last_use"
      using d s(1) set_take_subset [of "nat t" ?o] by (auto simp: a_def)
    ultimately show ?thesis using False len act by (simp add: card t_def m_def)
  qed
qed

end
