(* ===== verification/Token_Hasher.thy ===== *)
theory Token_Hasher
  imports LM_Prelude
begin

text \<open>
  The rolling prefix hashes of the multiprocess server: \<^verbatim>\<open>TokenHasher\<close> of
  \<^verbatim>\<open>lmcache/v1/multiprocess/token_hasher.py\<close> and the sessions of \<^verbatim>\<open>lmcache/v1/multiprocess/session.py\<close>
  that compute them incrementally.

  The hash functions are third-party code (blake3, or a function of vLLM): a hasher holds one
  as a function from the previous hash and the tokens of a chunk, and \<open>blake3\<close> itself is a
  parameter on byte strings. Token counts and indices are natural numbers.

  Shown: a hash identifies the whole prefix of the tokens up to the end of its chunk unless
  the hash function collides; hashes do not change when tokens are appended; a session returns
  the hashes of the tokens it was last given exactly when the chunks it had processed before
  are unchanged.
\<close>

section \<open>Bytes\<close>

type_synonym bytes = "8 word list"

text \<open>\<^verbatim>\<open>int.to_bytes\<close> and \<^verbatim>\<open>int.from_bytes\<close>, big endian.\<close>

fun be_bytes :: "nat \<Rightarrow> int \<Rightarrow> bytes" where
  "be_bytes 0 x = []"
| "be_bytes (Suc n) x = be_bytes n (x div 256) @ [word_of_int x]"

definition to_bytes :: "nat \<Rightarrow> int \<Rightarrow> bytes result" where
  "to_bytes n x = (if 0 \<le> x \<and> x < 256 ^ n then Inr (be_bytes n x) else Inl OverflowError)"

definition to_bytes_signed :: "nat \<Rightarrow> int \<Rightarrow> bytes result" where
  "to_bytes_signed n x =
     (if - (256 ^ n) \<le> 2 * x \<and> 2 * x < 256 ^ n then Inr (be_bytes n (x mod 256 ^ n)) else Inl OverflowError)"

definition from_bytes :: "bytes \<Rightarrow> int" where
  "from_bytes bs = foldl (\<lambda>a b. a * 256 + uint b) 0 bs"

lemma length_be_bytes [simp]: "length (be_bytes n x) = n"
  by (induction n arbitrary: x) simp_all

lemma from_bytes_append [simp]: "from_bytes (bs @ [b]) = from_bytes bs * 256 + uint b"
  by (simp add: from_bytes_def)

lemma from_be_bytes: "from_bytes (be_bytes n x) = x mod 256 ^ n"
proof (induction n arbitrary: x)
  case (Suc n)
  have "x mod (256 * 256 ^ n) = x div 256 mod 256 ^ n * 256 + x mod 256"
    by (simp add: zmod_zmult2_eq mult.commute)
  then show ?case using Suc by (simp add: uint_word_of_int)
qed (simp add: from_bytes_def)

lemma to_bytes_inverse: "to_bytes n x = Inr bs \<Longrightarrow> from_bytes bs = x"
  by (auto simp: to_bytes_def from_be_bytes split: if_splits)

lemma to_bytes_inj: "to_bytes n x = Inr bs \<Longrightarrow> to_bytes n y = Inr bs \<Longrightarrow> x = y"
  using to_bytes_inverse by metis

section \<open>Hash functions\<close>

datatype hash_val = HInt int | HBytes bytes

type_synonym hash_func = "hash_val \<times> int list \<Rightarrow> hash_val result"

text \<open>
  \<^verbatim>\<open>_make_blake3_hash_func\<close>: the previous hash and the tokens are serialised into one byte
  string. \<^verbatim>\<open>struct.pack\<close> with format \<^verbatim>\<open>I\<close> takes 32-bit unsigned numbers and raises otherwise
  (its own exception, here the \<^verbatim>\<open>ValueError\<close>).
\<close>

fun pack_tokens :: "int list \<Rightarrow> bytes result" where
  "pack_tokens [] = Inr []"
| "pack_tokens (t # ts) =
     (case to_bytes 4 t of
        Inl _ \<Rightarrow> Inl ValueError
      | Inr b \<Rightarrow> bind_result (pack_tokens ts) (\<lambda>bs. Inr (b @ bs)))"

definition blake3_hash :: "(bytes \<Rightarrow> bytes) \<Rightarrow> hash_func" where
  "blake3_hash blake3 args =
     (case args of (prefix_hash, tokens) \<Rightarrow>
        bind_result (case prefix_hash of HBytes b \<Rightarrow> Inr b | HInt i \<Rightarrow> to_bytes_signed 8 i) (\<lambda>p.
        bind_result (pack_tokens tokens) (\<lambda>t. Inr (HBytes (blake3 (p @ t))))))"

section \<open>TokenHasher\<close>

record TokenHasher =
  th_chunk_size :: nat
  th_hash_func :: hash_func
  th_none_hash :: hash_val

text \<open>
  The constructor, with the loaded hash function as argument. \<open>vllm_none_hash\<close> is the constant
  that vLLM initialises, when it is installed.
\<close>

definition init_none_hash :: "hash_func \<Rightarrow> hash_val option \<Rightarrow> hash_val result" where
  "init_none_hash f vllm_none_hash =
     (case vllm_none_hash of Some h \<Rightarrow> Inr h | None \<Rightarrow> f (HInt 0, [0]))"

definition TokenHasher_init :: "nat \<Rightarrow> hash_func \<Rightarrow> hash_val option \<Rightarrow> TokenHasher result" where
  "TokenHasher_init chunk_size f vllm_none_hash =
     bind_result (init_none_hash f vllm_none_hash) (\<lambda>h.
       Inr \<lparr>th_chunk_size = chunk_size, th_hash_func = f, th_none_hash = h\<rparr>)"

definition hash_tokens :: "TokenHasher \<Rightarrow> int list \<Rightarrow> hash_val option \<Rightarrow> hash_val result" where
  "hash_tokens th tokens prefix_hash =
     th_hash_func th (case prefix_hash of None \<Rightarrow> th_none_hash th | Some h \<Rightarrow> h, tokens)"

text \<open>The loop of \<^verbatim>\<open>compute_chunk_hashes\<close>: \<open>n\<close> more chunks, the next one at token \<open>i\<close>.\<close>

fun hash_chunks :: "TokenHasher \<Rightarrow> int list \<Rightarrow> nat \<Rightarrow> nat \<Rightarrow> hash_val \<Rightarrow> hash_val list result" where
  "hash_chunks th token_ids i 0 prefix_hash = Inr []"
| "hash_chunks th token_ids i (Suc n) prefix_hash =
     bind_result (hash_tokens th (take (th_chunk_size th) (drop i token_ids)) (Some prefix_hash)) (\<lambda>h.
     bind_result (hash_chunks th token_ids (i + th_chunk_size th) n h) (\<lambda>hs. Inr (h # hs)))"

definition compute_chunk_hashes :: "TokenHasher \<Rightarrow> int list \<Rightarrow> hash_val list result" where
  "compute_chunk_hashes th token_ids =
     (if th_chunk_size th = 0 then Inl ZeroDivisionError
      else let num_complete = length token_ids - length token_ids mod th_chunk_size th
           in hash_chunks th token_ids 0 (num_complete div th_chunk_size th) (th_none_hash th))"

definition hash_to_bytes :: "hash_val \<Rightarrow> bytes result" where
  "hash_to_bytes h = (case h of HBytes b \<Rightarrow> Inr b | HInt i \<Rightarrow> to_bytes_signed 8 i)"

section \<open>Session and SessionManager\<close>

record Session =
  se_request_id :: string
  se_token_ids :: "int list"
  se_chunk_hashes :: "hash_val list"
  se_last_prefix_hash :: "hash_val option"
  se_num_chunks_processed :: nat
  se_created_at :: int

definition Session_init :: "string \<Rightarrow> int \<Rightarrow> Session" where
  "Session_init request_id now =
     \<lparr>se_request_id = request_id, se_token_ids = [], se_chunk_hashes = [], se_last_prefix_hash = None,
      se_num_chunks_processed = 0, se_created_at = now\<rparr>"

definition set_tokens :: "int list \<Rightarrow> Session \<Rightarrow> Session" where
  "set_tokens full_token_ids s = s\<lparr>se_token_ids := full_token_ids\<rparr>"

text \<open>
  One round of the loop of \<^verbatim>\<open>_compute_hash\<close>, and the loop for a given number of remaining rounds.
  A round that raises leaves the rounds before it done, so the session is returned as well.
\<close>

definition compute_hash_round :: "TokenHasher \<Rightarrow> Session \<Rightarrow> Session result" where
  "compute_hash_round th s =
     (let cs = se_num_chunks_processed s * th_chunk_size th;
          chunk = take (th_chunk_size th) (drop cs (se_token_ids s));
          prefix = (case se_last_prefix_hash s of Some h \<Rightarrow> h | None \<Rightarrow> th_none_hash th)
      in bind_result (hash_tokens th chunk (Some prefix)) (\<lambda>h.
           Inr (s\<lparr>se_last_prefix_hash := Some h, se_chunk_hashes := se_chunk_hashes s @ [h],
                   se_num_chunks_processed := se_num_chunks_processed s + 1\<rparr>)))"

fun compute_hash_loop :: "TokenHasher \<Rightarrow> nat \<Rightarrow> Session \<Rightarrow> Session \<times> unit result" where
  "compute_hash_loop th 0 s = (s, Inr ())"
| "compute_hash_loop th (Suc n) s =
     (case compute_hash_round th s of Inl e \<Rightarrow> (s, Inl e) | Inr s' \<Rightarrow> compute_hash_loop th n s')"

definition compute_hash :: "TokenHasher \<Rightarrow> nat \<Rightarrow> Session \<Rightarrow> Session \<times> unit result" where
  "compute_hash th end_chunk s = compute_hash_loop th (end_chunk - se_num_chunks_processed s) s"

definition get_hashes :: "TokenHasher \<Rightarrow> nat \<Rightarrow> nat \<Rightarrow> Session \<Rightarrow> Session \<times> hash_val list result" where
  "get_hashes th start end s =
     (let chunk_size = th_chunk_size th in
      if chunk_size = 0 then (s, Inl ZeroDivisionError)
      else if start mod chunk_size \<noteq> 0 then (s, Inl AssertionError)
      else if end mod chunk_size \<noteq> 0 then (s, Inl AssertionError)
      else let start_chunk = start div chunk_size; end_chunk = end div chunk_size;
               (s', r) = compute_hash th end_chunk s
           in (s', bind_result r (\<lambda>_.
                 Inr (take (end_chunk - start_chunk) (drop start_chunk (se_chunk_hashes s'))))))"

record SessionManager =
  sm_hasher :: TokenHasher
  sm_ttl :: int
  sm_sessions :: "(string \<times> Session) list"

definition get_or_create :: "int \<Rightarrow> string \<Rightarrow> SessionManager \<Rightarrow> SessionManager \<times> Session" where
  "get_or_create now request_id sm =
     (case map_of (sm_sessions sm) request_id of
        None \<Rightarrow> let s = Session_init request_id now
                in (sm\<lparr>sm_sessions := AList.update request_id s (sm_sessions sm)\<rparr>, s)
      | Some s \<Rightarrow> (sm, s))"

definition SessionManager_remove :: "string \<Rightarrow> SessionManager \<Rightarrow> SessionManager" where
  "SessionManager_remove request_id sm = sm\<lparr>sm_sessions := AList.delete request_id (sm_sessions sm)\<rparr>"

definition cleanup_expired :: "int \<Rightarrow> SessionManager \<Rightarrow> SessionManager \<times> nat" where
  "cleanup_expired now sm =
     (let expired = map fst (filter (\<lambda>(rid, session). now - se_created_at session > sm_ttl sm) (sm_sessions sm))
      in (sm\<lparr>sm_sessions := fold AList.delete expired (sm_sessions sm)\<rparr>, length expired))"

section \<open>The specification: hashing a list of chunks\<close>

definition chunks :: "nat \<Rightarrow> nat \<Rightarrow> int list \<Rightarrow> int list list" where
  "chunks cs n ts = map (\<lambda>k. take cs (drop (k * cs) ts)) [0..<n]"

fun prefix_hashes :: "hash_func \<Rightarrow> hash_val \<Rightarrow> int list list \<Rightarrow> hash_val list result" where
  "prefix_hashes f p [] = Inr []"
| "prefix_hashes f p (c # cs) =
     bind_result (f (p, c)) (\<lambda>h. bind_result (prefix_hashes f h cs) (\<lambda>hs. Inr (h # hs)))"

text \<open>The arguments on which the hash function is called.\<close>

fun hash_inputs :: "hash_func \<Rightarrow> hash_val \<Rightarrow> int list list \<Rightarrow> (hash_val \<times> int list) set" where
  "hash_inputs f p [] = {}"
| "hash_inputs f p (c # cs) =
     insert (p, c) (case f (p, c) of Inl _ \<Rightarrow> {} | Inr h \<Rightarrow> hash_inputs f h cs)"

lemma length_chunks [simp]: "length (chunks cs n ts) = n"
  by (simp add: chunks_def)

lemma chunks_Suc: "chunks cs (Suc n) ts = take cs ts # chunks cs n (drop cs ts)"
  by (simp add: chunks_def upt_conv_Cons map_Suc_upt [symmetric] comp_def del: upt_Suc map_Suc_upt) (simp add: add.commute)

lemma chunks_snoc: "chunks cs (Suc n) ts = chunks cs n ts @ [take cs (drop (n * cs) ts)]"
  by (simp add: chunks_def)

lemma hash_chunks_spec: "hash_chunks th ts i n p = prefix_hashes (th_hash_func th) p (chunks (th_chunk_size th) n (drop i ts))"
proof (induction n arbitrary: i p)
  case (Suc n)
  then show ?case by (simp add: chunks_Suc hash_tokens_def add.commute)
qed (simp add: chunks_def)

lemma compute_chunk_hashes_spec:
  assumes "0 < th_chunk_size th"
  shows "compute_chunk_hashes th ts =
    prefix_hashes (th_hash_func th) (th_none_hash th) (chunks (th_chunk_size th) (length ts div th_chunk_size th) ts)"
proof -
  have "(length ts - length ts mod th_chunk_size th) div th_chunk_size th = length ts div th_chunk_size th"
    by (metis assms minus_mod_eq_div_mult nonzero_mult_div_cancel_right not_less_zero)
  then show ?thesis using assms by (simp add: compute_chunk_hashes_def Let_def hash_chunks_spec)
qed

lemma prefix_hashes_length: "prefix_hashes f p cs = Inr hs \<Longrightarrow> length hs = length cs"
  by (induction cs arbitrary: p hs) auto

lemma prefix_hashes_append:
  "prefix_hashes f p (cs @ ds) =
     bind_result (prefix_hashes f p cs) (\<lambda>hs.
       bind_result (prefix_hashes f (if hs = [] then p else last hs) ds) (\<lambda>gs. Inr (hs @ gs)))"
proof (induction cs arbitrary: p)
  case Nil
  then show ?case by (cases "prefix_hashes f p ds") simp_all
next
  case (Cons c cs)
  show ?case
  proof (cases "f (p, c)")
    case (Inr h)
    show ?thesis
    proof (cases "prefix_hashes f h cs")
      case (Inr hs)
      then show ?thesis using \<open>f (p, c) = Inr h\<close> Cons [of h]
        by (cases "prefix_hashes f (if hs = [] then h else last hs) ds") simp_all
    qed (simp add: \<open>f (p, c) = Inr h\<close> Cons)
  qed simp
qed

lemma prefix_hashes_take:
  assumes "prefix_hashes f p cs = Inr hs"
  shows "prefix_hashes f p (take n cs) = Inr (take n hs)"
proof -
  have "prefix_hashes f p (take n cs @ drop n cs) = Inr hs" using assms by simp
  then obtain gs es where g: "prefix_hashes f p (take n cs) = Inr gs" "hs = gs @ es"
    unfolding prefix_hashes_append by auto
  have "length gs = length (take n cs)" using prefix_hashes_length [OF g(1)] .
  moreover have "length hs = length cs" using prefix_hashes_length [OF assms] .
  ultimately have "take n hs = gs" using g(2) by (cases "n \<le> length cs") auto
  with g(1) show ?thesis by simp
qed

definition no_collision :: "hash_func \<Rightarrow> (hash_val \<times> int list) set \<Rightarrow> bool" where
  "no_collision f X \<longleftrightarrow> (\<forall>x \<in> X. \<forall>y \<in> X. f x = f y \<longrightarrow> x = y)"

lemma no_collisionD: "no_collision f X \<Longrightarrow> x \<in> X \<Longrightarrow> y \<in> X \<Longrightarrow> f x = f y \<Longrightarrow> x = y"
  by (simp add: no_collision_def)

text \<open>Without a collision the last hash determines all chunks before it.\<close>

lemma prefix_hashes_inputs:
  "prefix_hashes f p (cs @ [c]) = Inr (hs @ [h]) \<Longrightarrow> f (if hs = [] then p else last hs, c) = Inr h \<and>
     (if hs = [] then p else last hs, c) \<in> hash_inputs f p (cs @ [c]) \<and> prefix_hashes f p cs = Inr hs"
proof (induction cs arbitrary: p hs)
  case Nil
  then show ?case by (auto split: sum.splits)
next
  case (Cons d ds)
  then obtain g gs where g: "f (p, d) = Inr g" "prefix_hashes f g (ds @ [c]) = Inr gs" "hs @ [h] = g # gs" by auto
  have "gs \<noteq> []" using prefix_hashes_length [OF g(2)] by auto
  then obtain ks where ks: "gs = ks @ [h]" "hs = g # ks" using g(3) by (cases hs) auto
  from Cons.IH [OF g(2) [unfolded ks(1)]] g(1) ks(2) show ?case by auto
qed

lemma hash_inputs_mono: "hash_inputs f p cs \<subseteq> hash_inputs f p (cs @ ds)"
  by (induction cs arbitrary: p) (auto split: sum.splits)

lemma prefix_hashes_determine:
  assumes "no_collision f (hash_inputs f p cs \<union> hash_inputs f p ds)"
    and "prefix_hashes f p cs = Inr hs" and "prefix_hashes f p ds = Inr gs"
    and "length cs = length ds" and "cs \<noteq> []" and "last hs = last gs"
  shows "cs = ds"
  using assms
proof (induction cs arbitrary: hs ds gs rule: rev_induct)
  case (snoc c cs)
  obtain d ds' where d: "ds = ds' @ [d]" using snoc.prems(4) by (cases ds rule: rev_cases) auto
  have l: "length hs = Suc (length cs)" "length gs = Suc (length ds')"
    using prefix_hashes_length [OF snoc.prems(2)] prefix_hashes_length [OF snoc.prems(3)] d by auto
  obtain hs' h gs' where h: "hs = hs' @ [h]" "gs = gs' @ [h]"
    using l snoc.prems(6) by (cases hs rule: rev_cases; cases gs rule: rev_cases) auto
  note i = prefix_hashes_inputs [OF snoc.prems(2) [unfolded h(1)]] prefix_hashes_inputs [OF snoc.prems(3) [unfolded h(2) d]]
  have "(if hs' = [] then p else last hs', c) = (if gs' = [] then p else last gs', d)"
    using i by (intro no_collisionD [OF snoc.prems(1)]) (simp_all only: d Un_iff simp_thms)
  then have e: "c = d" "(if hs' = [] then p else last hs') = (if gs' = [] then p else last gs')" by auto
  show ?case
  proof (cases "cs = []")
    case False
    then have ne: "hs' \<noteq> []" "gs' \<noteq> []" using l h snoc.prems(4) d by auto
    have "no_collision f (hash_inputs f p cs \<union> hash_inputs f p ds')"
      using snoc.prems(1) hash_inputs_mono [of f p cs "[c]"] hash_inputs_mono [of f p ds' "[d]"]
      unfolding no_collision_def d by blast
    moreover have "prefix_hashes f p cs = Inr hs'" "prefix_hashes f p ds' = Inr gs'" using i by simp_all
    moreover have "length cs = length ds'" using snoc.prems(4) d by simp
    moreover have "last hs' = last gs'" using e(2) ne by simp
    ultimately have "cs = ds'" using False by (intro snoc.IH)
    then show ?thesis using e(1) d by simp
  qed (use e d snoc.prems(4) in auto)
qed simp

lemma chunks_take:
  assumes "n * cs \<le> length ts"
  shows "concat (chunks cs n ts) = take (n * cs) ts"
  using assms
proof (induction n)
  case (Suc n)
  then show ?case by (simp add: chunks_snoc take_add [symmetric] add.commute)
qed (simp add: chunks_def)

lemma chunks_cong: "take (n * cs) ts = take (n * cs) us \<Longrightarrow> chunks cs n ts = chunks cs n us"
proof (induction n)
  case (Suc n)
  have "take (n * cs) ts = take (n * cs) us"
    using arg_cong [OF Suc.prems, of "take (n * cs)"] by (simp add: min_def)
  moreover have "take cs (drop (n * cs) ts) = take cs (drop (n * cs) us)"
    using arg_cong [OF Suc.prems, of "drop (n * cs)"] by (simp add: drop_take)
  ultimately show ?case using Suc.IH by (simp add: chunks_snoc)
qed (simp add: chunks_def)

lemma take_chunks: "m \<le> n \<Longrightarrow> take m (chunks cs n ts) = chunks cs m ts"
  by (simp add: chunks_def take_map)

section \<open>Sessions\<close>

text \<open>
  A session that has processed chunks of \<open>base\<close>: it holds their hashes and the last of them. The
  tokens it was given may have been replaced since.
\<close>

definition session_of :: "TokenHasher \<Rightarrow> int list \<Rightarrow> Session \<Rightarrow> bool" where
  "session_of th base s \<longleftrightarrow>
     prefix_hashes (th_hash_func th) (th_none_hash th)
       (chunks (th_chunk_size th) (se_num_chunks_processed s) base) = Inr (se_chunk_hashes s) \<and>
     se_last_prefix_hash s = (if se_chunk_hashes s = [] then None else Some (last (se_chunk_hashes s)))"

lemma session_of_init: "session_of th base (Session_init rid now)"
  by (simp add: session_of_def Session_init_def chunks_def)

lemma session_of_length: "session_of th base s \<Longrightarrow> length (se_chunk_hashes s) = se_num_chunks_processed s"
  by (auto simp: session_of_def dest: prefix_hashes_length)

lemma session_of_cong:
  "session_of th base s \<Longrightarrow>
   take (se_num_chunks_processed s * th_chunk_size th) ts = take (se_num_chunks_processed s * th_chunk_size th) base \<Longrightarrow>
   session_of th ts s"
  using chunks_cong [of "se_num_chunks_processed s" "th_chunk_size th" ts base] by (simp add: session_of_def)

lemma set_tokens_simps [simp]:
  "se_token_ids (set_tokens ts s) = ts" "se_num_chunks_processed (set_tokens ts s) = se_num_chunks_processed s"
  by (simp_all add: set_tokens_def)

lemma compute_hash_round_ok:
  assumes s: "session_of th (se_token_ids s) s"
    and hs: "prefix_hashes (th_hash_func th) (th_none_hash th) (chunks (th_chunk_size th) n (se_token_ids s)) = Inr hs"
    and n: "se_num_chunks_processed s < n"
  obtains s' where "compute_hash_round th s = Inr s'" "session_of th (se_token_ids s) s'" "se_token_ids s' = se_token_ids s"
    "se_num_chunks_processed s' = Suc (se_num_chunks_processed s)"
proof -
  let ?k = "se_num_chunks_processed s" and ?f = "th_hash_func th" and ?p = "th_none_hash th"
  let ?c = "take (th_chunk_size th) (drop (?k * th_chunk_size th) (se_token_ids s))"
  let ?q = "if se_chunk_hashes s = [] then ?p else last (se_chunk_hashes s)"
  have "prefix_hashes ?f ?p (take (Suc ?k) (chunks (th_chunk_size th) n (se_token_ids s))) = Inr (take (Suc ?k) hs)"
    by (rule prefix_hashes_take [OF hs])
  then have "prefix_hashes ?f ?p (chunks (th_chunk_size th) ?k (se_token_ids s) @ [?c]) = Inr (take (Suc ?k) hs)"
    using n take_chunks [of "Suc ?k" n] by (simp add: chunks_snoc)
  then obtain h where h: "?f (?q, ?c) = Inr h"
    using s unfolding prefix_hashes_append by (auto simp: session_of_def split: if_splits)
  let ?s = "s\<lparr>se_last_prefix_hash := Some h, se_chunk_hashes := se_chunk_hashes s @ [h], se_num_chunks_processed := ?k + 1\<rparr>"
  have "compute_hash_round th s = Inr ?s"
    using s h by (auto simp: compute_hash_round_def Let_def hash_tokens_def session_of_def split: if_splits)
  moreover have "session_of th (se_token_ids s) ?s"
    using s h by (simp add: session_of_def chunks_snoc prefix_hashes_append)
  ultimately show thesis by (rule that) simp_all
qed

lemma compute_hash_loop_ok:
  assumes "session_of th (se_token_ids s) s"
    and "prefix_hashes (th_hash_func th) (th_none_hash th) (chunks (th_chunk_size th) n (se_token_ids s)) = Inr hs"
    and "se_num_chunks_processed s + k \<le> n"
  shows "\<exists>s'. compute_hash_loop th k s = (s', Inr ()) \<and> session_of th (se_token_ids s) s' \<and>
     se_token_ids s' = se_token_ids s \<and> se_num_chunks_processed s' = se_num_chunks_processed s + k"
  using assms
proof (induction k arbitrary: s)
  case (Suc k)
  obtain s1 where s1: "compute_hash_round th s = Inr s1" "session_of th (se_token_ids s) s1" "se_token_ids s1 = se_token_ids s"
    "se_num_chunks_processed s1 = Suc (se_num_chunks_processed s)"
    using compute_hash_round_ok [OF Suc.prems(1,2)] Suc.prems(3) by auto
  have "session_of th (se_token_ids s1) s1" "se_num_chunks_processed s1 + k \<le> n"
    "prefix_hashes (th_hash_func th) (th_none_hash th) (chunks (th_chunk_size th) n (se_token_ids s1)) = Inr hs"
    using s1 Suc.prems by simp_all
  from Suc.IH [OF this(1,3,2)] s1 show ?case by auto
qed simp

lemma get_hashes_ok:
  assumes cs: "0 < th_chunk_size th" and s: "session_of th base s"
    and same: "take (se_num_chunks_processed s * th_chunk_size th) ts = take (se_num_chunks_processed s * th_chunk_size th) base"
    and len: "se_num_chunks_processed s * th_chunk_size th \<le> length ts" "stop \<le> length ts"
    and al: "th_chunk_size th dvd start" "th_chunk_size th dvd stop" and hs: "compute_chunk_hashes th ts = Inr hs"
  shows "\<exists>s'. get_hashes th start stop (set_tokens ts s) = (s',
       Inr (take (stop div th_chunk_size th - start div th_chunk_size th) (drop (start div th_chunk_size th) hs))) \<and>
     session_of th ts s' \<and> se_token_ids s' = ts \<and> se_num_chunks_processed s' * th_chunk_size th \<le> length ts"
proof -
  let ?c = "th_chunk_size th" and ?k = "se_num_chunks_processed s"
  let ?n = "length ts div ?c" and ?e = "stop div ?c" and ?b = "start div ?c"
  have hs': "prefix_hashes (th_hash_func th) (th_none_hash th) (chunks ?c ?n ts) = Inr hs"
    using hs compute_chunk_hashes_spec [OF cs] by simp
  have st: "session_of th (se_token_ids (set_tokens ts s)) (set_tokens ts s)"
    using session_of_cong [OF s same] by (simp add: session_of_def set_tokens_def)
  have k: "?k \<le> ?n" using len(1) cs by (simp add: less_eq_div_iff_mult_less_eq)
  have e: "?e \<le> ?n" using len(2) by (rule div_le_mono)
  have kk: "se_num_chunks_processed (set_tokens ts s) + (?e - ?k) \<le> ?n" using k e by (simp add: set_tokens_def)
  have hs2: "prefix_hashes (th_hash_func th) (th_none_hash th) (chunks ?c ?n (se_token_ids (set_tokens ts s))) = Inr hs"
    using hs' by (simp add: set_tokens_def)
  from compute_hash_loop_ok [OF st hs2 kk]
  obtain s' where s': "compute_hash th ?e (set_tokens ts s) = (s', Inr ())" "session_of th ts s'" "se_token_ids s' = ts"
    "se_num_chunks_processed s' = ?k + (?e - ?k)" unfolding compute_hash_def by (auto simp only: set_tokens_simps)
  have m: "se_num_chunks_processed s' \<le> ?n" "?e \<le> se_num_chunks_processed s'" using s'(4) k e by simp_all
  have "prefix_hashes (th_hash_func th) (th_none_hash th) (take (se_num_chunks_processed s') (chunks ?c ?n ts)) =
      Inr (take (se_num_chunks_processed s') hs)" by (rule prefix_hashes_take [OF hs'])
  then have ch: "se_chunk_hashes s' = take (se_num_chunks_processed s') hs"
    using s'(2) m(1) by (simp add: session_of_def take_chunks)
  have "take (?e - ?b) (drop ?b (se_chunk_hashes s')) = take (?e - ?b) (drop ?b hs)"
    unfolding ch using m(2) diff_le_mono [OF m(2), of ?b] by (simp add: drop_take min_absorb1)
  moreover have "se_num_chunks_processed s' * ?c \<le> length ts"
    using mult_le_mono1 [OF m(1), of ?c] div_times_less_eq_dividend [of "length ts" ?c] by (rule le_trans)
  ultimately show ?thesis
    using s' cs al by (simp add: get_hashes_def Let_def dvd_imp_mod_0)
qed

section \<open>Properties\<close>

text \<open>
  Property C12. A chunk hash identifies everything before it. Two token sequences whose hashes
  agree at one chunk agree on all tokens up to the end of that chunk, unless the hash function
  collides on two of the arguments it was called with. So a stored chunk is reused only for
  the prefix it was computed from.
\<close>

theorem chunk_hash_identifies_prefix:
  assumes "compute_chunk_hashes th a = Inr ha" and "compute_chunk_hashes th b = Inr hb"
    and "i < length ha" and "i < length hb" and "ha ! i = hb ! i"
    and "no_collision (th_hash_func th)
           (hash_inputs (th_hash_func th) (th_none_hash th) (chunks (th_chunk_size th) (Suc i) a) \<union>
            hash_inputs (th_hash_func th) (th_none_hash th) (chunks (th_chunk_size th) (Suc i) b))"
  shows "take (Suc i * th_chunk_size th) a = take (Suc i * th_chunk_size th) b"
proof -
  let ?c = "th_chunk_size th" and ?f = "th_hash_func th" and ?p = "th_none_hash th"
  have cs: "0 < ?c" using assms(1) by (auto simp: compute_chunk_hashes_def split: if_splits)
  have one: "prefix_hashes ?f ?p (chunks ?c (Suc i) ts) = Inr (take (Suc i) hs) \<and> Suc i * ?c \<le> length ts"
    if "compute_chunk_hashes th ts = Inr hs" "i < length hs" for ts hs
  proof -
    have h: "prefix_hashes ?f ?p (chunks ?c (length ts div ?c) ts) = Inr hs" using that(1) compute_chunk_hashes_spec [OF cs] by simp
    then have l: "Suc i \<le> length ts div ?c" using prefix_hashes_length [OF h] that(2) by simp
    then have "Suc i * ?c \<le> length ts" using cs by (simp add: less_eq_div_iff_mult_less_eq)
    then show ?thesis using prefix_hashes_take [OF h, of "Suc i"] take_chunks [OF l] by simp
  qed
  note a = one [OF assms(1,3)] and b = one [OF assms(2,4)]
  have "last (take (Suc i) ha) = last (take (Suc i) hb)" using assms(3-5) by (simp add: take_Suc_conv_app_nth)
  moreover have "chunks ?c (Suc i) a \<noteq> []" "length (chunks ?c (Suc i) a) = length (chunks ?c (Suc i) b)"
    by (simp_all add: chunks_snoc)
  ultimately have "chunks ?c (Suc i) a = chunks ?c (Suc i) b"
    using prefix_hashes_determine [OF assms(6) conjunct1 [OF a] conjunct1 [OF b]] by simp
  from arg_cong [OF this, of concat] show ?thesis
    using chunks_take [OF conjunct2 [OF a]] chunks_take [OF conjunct2 [OF b]] by simp
qed

definition example_hasher :: TokenHasher where
  "example_hasher = \<lparr>th_chunk_size = 2, th_hash_func = blake3_hash (\<lambda>bs. bs), th_none_hash = HBytes []\<rparr>"

theorem chunk_hash_identifies_prefix_witness:
  "\<exists>ha hb. compute_chunk_hashes example_hasher [7, 8, 9, 10, 11] = Inr ha \<and>
     compute_chunk_hashes example_hasher [7, 8, 9, 10] = Inr hb \<and> ha ! 1 = hb ! 1 \<and>
     take (Suc 1 * 2) [7, 8, 9, 10, 11] = take (Suc 1 * 2) [7, 8, 9, 10 :: int]"
proof -
  let ?f = "th_hash_func example_hasher" and ?p = "th_none_hash example_hasher"
  let ?a = "[7, 8, 9, 10, 11] :: int list" and ?b = "[7, 8, 9, 10] :: int list"
  obtain ha where a: "compute_chunk_hashes example_hasher ?a = Inr ha" "length ha = 2"
    "ha ! 1 = HBytes [0, 0, 0, 7, 0, 0, 0, 8, 0, 0, 0, 9, 0, 0, 0, 10]"
  proof -
    have "compute_chunk_hashes example_hasher ?a = Inr [HBytes [0, 0, 0, 7, 0, 0, 0, 8], HBytes [0, 0, 0, 7, 0, 0, 0, 8, 0, 0, 0, 9, 0, 0, 0, 10]]"
      by code_simp
    then show thesis by (rule that) simp_all
  qed
  obtain hb where b: "compute_chunk_hashes example_hasher ?b = Inr hb" "length hb = 2"
    "hb ! 1 = HBytes [0, 0, 0, 7, 0, 0, 0, 8, 0, 0, 0, 9, 0, 0, 0, 10]"
  proof -
    have "compute_chunk_hashes example_hasher ?b = Inr [HBytes [0, 0, 0, 7, 0, 0, 0, 8], HBytes [0, 0, 0, 7, 0, 0, 0, 8, 0, 0, 0, 9, 0, 0, 0, 10]]"
      by code_simp
    then show thesis by (rule that) simp_all
  qed
  have "chunks (th_chunk_size example_hasher) (Suc 1) ?a = [[7, 8], [9, 10]]"
    "chunks (th_chunk_size example_hasher) (Suc 1) ?b = [[7, 8], [9, 10]]" by code_simp+
  moreover have "?f (?p, [7, 8]) = Inr (HBytes [0, 0, 0, 7, 0, 0, 0, 8])" by code_simp
  moreover have "?f (HBytes [0, 0, 0, 7, 0, 0, 0, 8], [9, 10]) = Inr (HBytes [0, 0, 0, 7, 0, 0, 0, 8, 0, 0, 0, 9, 0, 0, 0, 10])"
    by code_simp
  ultimately have "no_collision ?f (hash_inputs ?f ?p (chunks (th_chunk_size example_hasher) (Suc 1) ?a) \<union>
      hash_inputs ?f ?p (chunks (th_chunk_size example_hasher) (Suc 1) ?b))"
    by (simp add: no_collision_def)
  from chunk_hash_identifies_prefix [OF a(1) b(1) _ _ _ this] a b show ?thesis by (simp add: example_hasher_def)
qed

text \<open>
  Property C29. A session is an exact cache. As long as every new token sequence of the request
  agrees with the previous one on the chunks already processed (a conversation that only
  grows), \<^verbatim>\<open>get_hashes\<close> returns for every aligned range the hashes that \<^verbatim>\<open>compute_chunk_hashes\<close>
  computes from scratch, and the session remains a cache of the new sequence.
\<close>

theorem session_hashes_exact:
  assumes "0 < th_chunk_size th" and "session_of th base s"
    and "take (se_num_chunks_processed s * th_chunk_size th) ts = take (se_num_chunks_processed s * th_chunk_size th) base"
    and "se_num_chunks_processed s * th_chunk_size th \<le> length ts" and "stop \<le> length ts"
    and "th_chunk_size th dvd start" and "th_chunk_size th dvd stop" and "compute_chunk_hashes th ts = Inr hs"
  shows "\<exists>s'. get_hashes th start stop (set_tokens ts s) = (s',
       Inr (take (stop div th_chunk_size th - start div th_chunk_size th) (drop (start div th_chunk_size th) hs))) \<and>
     session_of th ts s'"
  using get_hashes_ok [OF assms] by blast

theorem session_hashes_exact_witness:
  "\<exists>s' hs. get_hashes example_hasher 2 4 (set_tokens [7, 8, 9, 10, 11] (Session_init ''r'' 0)) = (s', Inr hs) \<and>
     session_of example_hasher [7, 8, 9, 10, 11] s' \<and> length hs = 1"
proof -
  let ?h = "[HBytes [0, 0, 0, 7, 0, 0, 0, 8], HBytes [0, 0, 0, 7, 0, 0, 0, 8, 0, 0, 0, 9, 0, 0, 0, 10]]"
  have h: "compute_chunk_hashes example_hasher [7, 8, 9, 10, 11] = Inr ?h" by code_simp
  have c: "th_chunk_size example_hasher = 2" by (simp add: example_hasher_def)
  have n: "se_num_chunks_processed (Session_init ''r'' 0) = 0" by (simp add: Session_init_def)
  have "\<exists>s'. get_hashes example_hasher 2 4 (set_tokens [7, 8, 9, 10, 11] (Session_init ''r'' 0)) = (s',
       Inr (take (4 div th_chunk_size example_hasher - 2 div th_chunk_size example_hasher)
         (drop (2 div th_chunk_size example_hasher) ?h))) \<and> session_of example_hasher [7, 8, 9, 10, 11] s'"
    using session_of_init by (rule session_hashes_exact [OF _ _ _ _ _ _ _ h, rotated]) (simp_all add: c n)
  then show ?thesis by (auto simp: c)
qed

text \<open>
  A session does not notice replaced tokens. Once the hashes of a range are
  computed, \<^verbatim>\<open>set_tokens\<close> with any other tokens and \<^verbatim>\<open>get_hashes\<close> for the same range return the old
  hashes, without calling the hash function.
\<close>

lemma session_hashes_stale:
  assumes "get_hashes th start stop s = (s', Inr hs)"
  shows "get_hashes th start stop (set_tokens other s') = (set_tokens other s', Inr hs)"
proof -
  have loop: "se_num_chunks_processed v = se_num_chunks_processed u + n" if "compute_hash_loop th n u = (v, Inr ())" for n u v
    using that
  proof (induction n arbitrary: u)
    case (Suc n)
    then obtain w where w: "compute_hash_round th u = Inr w" "compute_hash_loop th n w = (v, Inr ())" by (auto split: sum.splits)
    from w(1) have "se_num_chunks_processed w = Suc (se_num_chunks_processed u)"
      by (auto simp: compute_hash_round_def Let_def)
    with Suc.IH [OF w(2)] show ?case by simp
  qed simp
  have r: "th_chunk_size th \<noteq> 0" "start mod th_chunk_size th = 0" "stop mod th_chunk_size th = 0"
    "compute_hash_loop th (stop div th_chunk_size th - se_num_chunks_processed s) s = (s', Inr ())"
    "hs = take (stop div th_chunk_size th - start div th_chunk_size th) (drop (start div th_chunk_size th) (se_chunk_hashes s'))"
    using assms by (auto simp: get_hashes_def Let_def compute_hash_def split: if_splits prod.splits)
  have "stop div th_chunk_size th - se_num_chunks_processed s' = 0" using loop [OF r(4)] by simp
  then show ?thesis using r(1-3,5) by (simp add: get_hashes_def Let_def compute_hash_def) (simp add: set_tokens_def)
qed

end
