(* ===== verification/Object_Key.thy ===== *)
theory Object_Key
  imports Token_Hasher Memory_Obj
begin

text \<open>
  The keys of the multiprocess server: \<^verbatim>\<open>ObjectKey\<close>, \<^verbatim>\<open>MemoryLayoutDesc\<close> and \<^verbatim>\<open>ipc_keys_to_object_keys\<close> of
  \<^verbatim>\<open>lmcache/v1/distributed/api.py\<close>, and \<^verbatim>\<open>IPCCacheEngineKey\<close> of \<^verbatim>\<open>lmcache/v1/multiprocess/custom_types.py\<close>.

  Shown: the packed rank separates all workers of all parallel setups with numbers below 256;
  a lookup expands every chunk into the keys of all workers, in order and without duplicates.
\<close>

section \<open>Keys\<close>

record ObjectKey =
  ok_chunk_hash :: bytes
  ok_model_name :: string
  ok_kv_rank :: int

definition IntHash2Bytes :: "int \<Rightarrow> bytes result" where
  "IntHash2Bytes chunk_hash = to_bytes 4 chunk_hash"

definition Bytes2IntHash :: "bytes \<Rightarrow> int" where
  "Bytes2IntHash chunk_hash = from_bytes chunk_hash AND (2 ^ 64 - 1)"

definition ComputeKVRank :: "int \<Rightarrow> int \<Rightarrow> int \<Rightarrow> int \<Rightarrow> int" where
  "ComputeKVRank world_size global_rank local_world_size local_rank =
     push_bit 24 world_size OR push_bit 16 global_rank OR push_bit 8 local_world_size OR local_rank"

record MemoryLayoutDesc =
  ld_shapes :: "torch_size list"
  ld_dtypes :: "torch_dtype list"

definition MemoryLayoutDesc_init :: "torch_size list \<Rightarrow> torch_dtype list \<Rightarrow> MemoryLayoutDesc result" where
  "MemoryLayoutDesc_init shapes dtypes =
     (if length shapes \<noteq> length dtypes then Inl ValueError else Inr \<lparr>ld_shapes = shapes, ld_dtypes = dtypes\<rparr>)"

record IPCCacheEngineKey =
  ik_model_name :: string
  ik_world_size :: int
  ik_worker_id :: "int option"
  ik_token_ids :: "int list option"
  ik_start :: nat
  ik_end :: nat
  ik_chunk_hash :: "bytes option"
  ik_request_id :: "string option"

definition hash_key ::
  "string \<Rightarrow> int \<Rightarrow> int option \<Rightarrow> bytes \<Rightarrow> string option \<Rightarrow> IPCCacheEngineKey"
where
  "hash_key model_name world_size worker_id chunk_hash request_id =
     \<lparr>ik_model_name = model_name, ik_world_size = world_size, ik_worker_id = worker_id, ik_token_ids = None,
      ik_start = 0, ik_end = 0, ik_chunk_hash = Some chunk_hash, ik_request_id = request_id\<rparr>"

definition from_int_hash ::
  "string \<Rightarrow> int \<Rightarrow> int option \<Rightarrow> int \<Rightarrow> string option \<Rightarrow> IPCCacheEngineKey result"
where
  "from_int_hash model_name world_size worker_id chunk_hash request_id =
     bind_result (IntHash2Bytes chunk_hash) (\<lambda>b. Inr (hash_key model_name world_size worker_id b request_id))"

definition is_token_mode :: "IPCCacheEngineKey \<Rightarrow> bool" where
  "is_token_mode k \<longleftrightarrow> ik_token_ids k \<noteq> None"

definition is_hash_mode :: "IPCCacheEngineKey \<Rightarrow> bool" where
  "is_hash_mode k \<longleftrightarrow> ik_chunk_hash k \<noteq> None"

definition no_worker_id_version :: "IPCCacheEngineKey \<Rightarrow> IPCCacheEngineKey" where
  "no_worker_id_version k = k\<lparr>ik_worker_id := None\<rparr>"

fun map_result :: "('a \<Rightarrow> 'b result) \<Rightarrow> 'a list \<Rightarrow> 'b list result" where
  "map_result f [] = Inr []"
| "map_result f (x # xs) = bind_result (f x) (\<lambda>y. bind_result (map_result f xs) (\<lambda>ys. Inr (y # ys)))"

definition to_hash_keys :: "TokenHasher \<Rightarrow> IPCCacheEngineKey \<Rightarrow> IPCCacheEngineKey list result" where
  "to_hash_keys hasher k =
     (case ik_token_ids k of
        None \<Rightarrow> Inl ValueError
      | Some token_ids \<Rightarrow>
          bind_result (compute_chunk_hashes hasher token_ids) (\<lambda>hs.
            map_result (\<lambda>h. bind_result (hash_to_bytes h) (\<lambda>b.
              Inr (hash_key (ik_model_name k) (ik_world_size k) (ik_worker_id k) b (ik_request_id k)))) hs))"

section \<open>From IPC keys to object keys\<close>

definition worker_object_key :: "IPCCacheEngineKey \<Rightarrow> bytes \<Rightarrow> int \<Rightarrow> ObjectKey" where
  "worker_object_key k chunk_hash worker_id =
     \<lparr>ok_chunk_hash = chunk_hash, ok_model_name = ik_model_name k,
      ok_kv_rank = ComputeKVRank (ik_world_size k) worker_id (ik_world_size k) worker_id\<rparr>"

definition object_keys_of :: "IPCCacheEngineKey \<Rightarrow> ObjectKey list result" where
  "object_keys_of k =
     (case ik_chunk_hash k of
        None \<Rightarrow> Inl AssertionError
      | Some chunk_hash \<Rightarrow>
          (case ik_worker_id k of
             None \<Rightarrow> Inr (map (\<lambda>w. worker_object_key k chunk_hash (int w)) [0..<nat (ik_world_size k)])
           | Some w \<Rightarrow> Inr [worker_object_key k chunk_hash w]))"

definition ipc_keys_to_object_keys :: "IPCCacheEngineKey list \<Rightarrow> ObjectKey list result" where
  "ipc_keys_to_object_keys ipc_keys = bind_result (map_result object_keys_of ipc_keys) (\<lambda>kss. Inr (concat kss))"

section \<open>The packed rank\<close>

lemma pack_rank:
  assumes "0 \<le> b" "b < 256" "0 \<le> c" "c < 256" "0 \<le> d" "d < (256 :: int)"
  shows "ComputeKVRank a b c d = a * 2 ^ 24 + b * 2 ^ 16 + c * 2 ^ 8 + d"
proof -
  have or_add: "push_bit n x OR y = x * 2 ^ n + y" if "0 \<le> y" "y < 2 ^ n" for n and x y :: int
  proof -
    have "push_bit n x AND y = 0"
    proof (rule bit_eqI)
      fix m
      have "\<not> bit y m" if "n \<le> m"
      proof -
        have "take_bit n y = y" using \<open>0 \<le> y\<close> \<open>y < 2 ^ n\<close> by (simp add: take_bit_int_eq_self)
        then have "bit y m = bit (take_bit n y) m" by simp
        with that show ?thesis by (simp add: bit_take_bit_iff)
      qed
      then show "bit (push_bit n x AND y) m = bit 0 m" by (auto simp: bit_and_iff bit_push_bit_iff)
    qed
    from disjunctive_add [of "push_bit n x" y] this show ?thesis
      by (metis (no_types) add.commute bit_and_iff bit_0_eq bot_apply bot_bool_def push_bit_eq_mult mult.commute)
  qed
  have "push_bit 8 c OR d = c * 2 ^ 8 + d" using assms by (intro or_add) simp_all
  moreover have "push_bit 16 b OR (c * 2 ^ 8 + d) = b * 2 ^ 16 + (c * 2 ^ 8 + d)" using assms by (intro or_add) simp_all
  moreover have "push_bit 24 a OR (b * 2 ^ 16 + (c * 2 ^ 8 + d)) = a * 2 ^ 24 + (b * 2 ^ 16 + (c * 2 ^ 8 + d))"
    using assms by (intro or_add) simp_all
  ultimately show ?thesis unfolding ComputeKVRank_def or.assoc by simp
qed

lemma map_result_iff: "map_result f xs = Inr ys \<longleftrightarrow> list_all2 (\<lambda>x y. f x = Inr y) xs ys"
  by (induction xs arbitrary: ys) (auto simp: list_all2_Cons1)

text \<open>A chunk that a lookup asks for: a hash, a model, and the number of workers.\<close>

definition lookup_key :: "int \<Rightarrow> IPCCacheEngineKey \<Rightarrow> bool" where
  "lookup_key ws k \<longleftrightarrow> ik_chunk_hash k \<noteq> None \<and> ik_worker_id k = None \<and> ik_world_size k = ws"

lemma object_keys_of_lookup:
  assumes "lookup_key ws k"
  shows "object_keys_of k = Inr (map (\<lambda>w. worker_object_key k (the (ik_chunk_hash k)) (int w)) [0..<nat ws])"
  using assms by (auto simp: lookup_key_def object_keys_of_def)

lemma ipc_keys_lookup:
  assumes "\<forall>k \<in> set ks. lookup_key ws k"
  shows "ipc_keys_to_object_keys ks =
    Inr (concat (map (\<lambda>k. map (\<lambda>w. worker_object_key k (the (ik_chunk_hash k)) (int w)) [0..<nat ws]) ks))"
proof -
  have "map_result object_keys_of ks = Inr (map (\<lambda>k. map (\<lambda>w. worker_object_key k (the (ik_chunk_hash k)) (int w)) [0..<nat ws]) ks)"
    unfolding map_result_iff using assms by (auto simp: list_all2_conv_all_nth object_keys_of_lookup)
  then show ?thesis by (simp add: ipc_keys_to_object_keys_def)
qed

lemma nth_concat_map:
  assumes "i < length xs" and "j < n" and "\<forall>x \<in> set xs. length (f x) = n"
  shows "concat (map f xs) ! (i * n + j) = f (xs ! i) ! j"
  using assms
proof (induction xs arbitrary: i)
  case (Cons x xs)
  then show ?case by (cases i) (simp_all add: nth_append)
qed simp

lemma worker_object_key_inj:
  assumes "worker_object_key k h w = worker_object_key k' h' w'" and "ik_world_size k = ik_world_size k'"
    and "0 \<le> w" "w < 256" "0 \<le> w'" "w' < 256" "0 \<le> ik_world_size k" "ik_world_size k < 256"
  shows "h = h' \<and> ik_model_name k = ik_model_name k' \<and> w = w'"
proof -
  have "h = h'" "ik_model_name k = ik_model_name k'"
    and r: "ComputeKVRank (ik_world_size k) w (ik_world_size k) w = ComputeKVRank (ik_world_size k') w' (ik_world_size k') w'"
    using assms(1) by (simp_all add: worker_object_key_def)
  moreover have "w = w'" using r assms by (simp add: pack_rank)
  ultimately show ?thesis by simp
qed

section \<open>Properties\<close>

text \<open>
  Property C30. The packed rank is unambiguous for numbers that fit a byte: the parallel setup
  and the position of the worker can be read back from it, so two workers share a rank only if
  all four numbers agree. (The comment that limits the local world size to 8 is not needed.)
\<close>

theorem kv_rank_injective:
  assumes "\<forall>x \<in> set [ws, gr, lws, lr, ws', gr', lws', lr']. 0 \<le> x \<and> x < 256"
    and "ComputeKVRank ws gr lws lr = ComputeKVRank ws' gr' lws' lr'"
  shows "ws = ws' \<and> gr = gr' \<and> lws = lws' \<and> lr = lr' \<and> 0 \<le> ComputeKVRank ws gr lws lr \<and> ComputeKVRank ws gr lws lr < 2 ^ 32"
proof -
  have "ws * 2 ^ 24 + gr * 2 ^ 16 + lws * 2 ^ 8 + lr = ws' * 2 ^ 24 + gr' * 2 ^ 16 + lws' * 2 ^ 8 + lr'"
    using assms by (simp add: pack_rank)
  moreover have "0 \<le> gr" "gr < 256" "0 \<le> gr'" "gr' < 256" "0 \<le> lws" "lws < 256" "0 \<le> lws'" "lws' < 256"
    "0 \<le> lr" "lr < 256" "0 \<le> lr'" "lr' < 256" "0 \<le> ws" "ws < 256" using assms(1) by simp_all
  moreover note p = pack_rank [of gr lws lr ws]
  ultimately have e: "((ws * 256 + gr) * 256 + lws) * 256 + lr = ((ws' * 256 + gr') * 256 + lws') * 256 + lr'"
    and b: "0 \<le> ComputeKVRank ws gr lws lr" "ComputeKVRank ws gr lws lr < 2 ^ 32" by simp_all
  have d: "a = a' \<and> x = x'" if "a * 256 + x = a' * 256 + x'" "0 \<le> x" "x < 256" "0 \<le> x'" "x' < 256" for a a' x x' :: int
  proof -
    have "a = (a * 256 + x) div 256" "a' = (a' * 256 + x') div 256" using that(2-5) by simp_all
    then show ?thesis using that(1) by simp
  qed
  have "(ws * 256 + gr) * 256 + lws = (ws' * 256 + gr') * 256 + lws'" "lr = lr'" using d [OF e] assms(1) by simp_all
  moreover from d [OF this(1)] assms(1) have "ws * 256 + gr = ws' * 256 + gr'" "lws = lws'" by simp_all
  moreover from d [OF this(1)] assms(1) have "ws = ws'" "gr = gr'" by simp_all
  ultimately show ?thesis using b by simp
qed

theorem kv_rank_injective_witness:
  "ComputeKVRank 8 5 4 1 = 134546433 \<and>
   (8 = (8 :: int) \<and> 5 = (5 :: int) \<and> 4 = (4 :: int) \<and> 1 = (1 :: int) \<and> 0 \<le> ComputeKVRank 8 5 4 1 \<and> ComputeKVRank 8 5 4 1 < 2 ^ 32)"
proof -
  have "ComputeKVRank 8 5 4 1 = 134546433" by code_simp
  moreover have "\<forall>x \<in> set [8, 5, 4, 1, 8, 5, 4, 1]. 0 \<le> x \<and> x < (256 :: int)" by simp
  ultimately show ?thesis using kv_rank_injective [of 8 5 4 1 8 5 4 1] by blast
qed

text \<open>
  The keys of a lookup. For chunks with different hashes of a model served by \<open>ws\<close>
  workers, the expansion lists the keys of chunk \<open>i\<close> at positions \<open>i * ws\<close> to \<open>i * ws + ws - 1\<close>, the
  one at offset \<open>w\<close> being the key under which worker \<open>w\<close> stores that chunk, and contains no key twice.
\<close>

lemma lookup_keys_layout:
  assumes "\<forall>k \<in> set ks. lookup_key ws k" and "0 \<le> ws" and "ws < 256"
    and "distinct (map (\<lambda>k. (ik_chunk_hash k, ik_model_name k)) ks)"
  shows "\<exists>objs. ipc_keys_to_object_keys ks = Inr objs \<and> length objs = length ks * nat ws \<and> distinct objs \<and>
     (\<forall>i < length ks. \<forall>w < nat ws.
        ipc_keys_to_object_keys [(ks ! i)\<lparr>ik_worker_id := Some (int w)\<rparr>] = Inr [objs ! (i * nat ws + w)])"
proof -
  let ?f = "\<lambda>k. map (\<lambda>w. worker_object_key k (the (ik_chunk_hash k)) (int w)) [0..<nat ws]"
  let ?objs = "concat (map ?f ks)"
  have lk: "lookup_key ws k" if "k \<in> set ks" for k using assms(1) that by blast
  have len: "length ?objs = length ks * nat ws" by (induction ks) simp_all
  have inj: "h = h' \<and> ik_model_name k = ik_model_name k' \<and> w = w'"
    if "worker_object_key k h (int w) = worker_object_key k' h' (int w')" "k \<in> set ks" "k' \<in> set ks" "w < nat ws" "w' < nat ws"
    for k k' h h' w w'
    using worker_object_key_inj [OF that(1)] that lk [of k] lk [of k'] assms(2,3) by (simp add: lookup_key_def)
  have "distinct (concat (map ?f xs))" if "set xs \<subseteq> set ks" "distinct (map (\<lambda>k. (ik_chunk_hash k, ik_model_name k)) xs)" for xs
    using that
  proof (induction xs)
    case (Cons k xs)
    have k: "k \<in> set ks" using Cons.prems(1) by simp
    have "distinct (?f k)" using inj [OF _ k k] by (simp add: distinct_map inj_on_def)
    moreover have "set (?f k) \<inter> set (concat (map ?f xs)) = {}"
    proof (rule ccontr)
      assume "\<not> ?thesis"
      then obtain k' w w' where k': "k' \<in> set xs" "w < nat ws" "w' < nat ws"
        "worker_object_key k (the (ik_chunk_hash k)) (int w) = worker_object_key k' (the (ik_chunk_hash k')) (int w')" by auto
      then have ks': "k' \<in> set ks" using Cons.prems(1) by auto
      have "the (ik_chunk_hash k) = the (ik_chunk_hash k')" "ik_model_name k = ik_model_name k'"
        using inj [OF k'(4) k ks' k'(2,3)] by simp_all
      then have "(ik_chunk_hash k, ik_model_name k) = (ik_chunk_hash k', ik_model_name k')"
        using lk [OF k] lk [OF ks'] by (auto simp: lookup_key_def)
      then show False using Cons.prems(2) k'(1) by (auto simp: image_iff)
    qed
    moreover have "distinct (concat (map ?f xs))" using Cons.prems by (intro Cons.IH) simp_all
    ultimately show ?case by simp
  qed simp
  from this [OF subset_refl assms(4)] have dist: "distinct ?objs" .
  have "ipc_keys_to_object_keys [(ks ! i)\<lparr>ik_worker_id := Some (int w)\<rparr>] = Inr [?objs ! (i * nat ws + w)]"
    if "i < length ks" "w < nat ws" for i w
  proof -
    have "?objs ! (i * nat ws + w) = worker_object_key (ks ! i) (the (ik_chunk_hash (ks ! i))) (int w)"
      using nth_concat_map [OF that, of ?f] that(2) by simp
    moreover have "ik_chunk_hash (ks ! i) \<noteq> None" using lk [of "ks ! i"] that(1) by (simp add: lookup_key_def)
    ultimately show ?thesis
      by (auto simp: ipc_keys_to_object_keys_def object_keys_of_def worker_object_key_def)
  qed
  then show ?thesis using ipc_keys_lookup [OF assms(1)] len dist by blast
qed

end
