(* ===== verification/L1_Manager.thy ===== *)
theory L1_Manager
  imports Lazy_Allocator Mixed_Allocator TTL_Lock LRU_Eviction Object_Key
begin

text \<open>
  The L1 cache of the multiprocess server: \<^verbatim>\<open>L1MemoryManager\<close> of \<^verbatim>\<open>lmcache/v1/distributed/memory_manager.py\<close>,
  \<^verbatim>\<open>L1Manager\<close> of \<^verbatim>\<open>l1_manager.py\<close>, and the error codes of \<^verbatim>\<open>error.py\<close>.

  Every method runs under the lock of the manager and is one step. The clock is read once per
  method (\<open>now\<close>, in milliseconds). A method returns the new manager and its result; a method that
  raises keeps the changes it made before. The listeners of the manager are LRU policies.
\<close>

section \<open>Errors and the memory manager\<close>

datatype L1Error =
    SUCCESS
  | KEY_NOT_EXIST
  | KEY_NOT_READABLE
  | KEY_NOT_WRITABLE
  | KEY_IN_WRONG_STATE
  | KEY_IS_LOCKED
  | OUT_OF_MEMORY

definition strerror :: "L1Error \<Rightarrow> string" where
  "strerror error =
     (case error of
        SUCCESS \<Rightarrow> ''Operation succeeded.''
      | KEY_NOT_EXIST \<Rightarrow> ''The specified key does not exist.''
      | KEY_NOT_READABLE \<Rightarrow> ''The specified key exists but cannot be read.''
      | KEY_NOT_WRITABLE \<Rightarrow> ''The specified key exists but cannot be written.''
      | KEY_IN_WRONG_STATE \<Rightarrow> ''The specified key is in the wrong state for the operation.''
      | KEY_IS_LOCKED \<Rightarrow> ''The specified key is locked and cannot perform the operation.''
      | OUT_OF_MEMORY \<Rightarrow> ''Not enough memory to complete the operation.'')"

record L1MemoryManagerConfig =
  mc_size_in_bytes :: int
  mc_use_lazy :: bool
  mc_init_size_in_bytes :: int
  mc_align_bytes :: int

definition L1MemoryManagerConfig_init :: "int \<Rightarrow> bool \<Rightarrow> int \<Rightarrow> int \<Rightarrow> L1MemoryManagerConfig" where
  "L1MemoryManagerConfig_init size_in_bytes use_lazy init_size_in_bytes align_bytes =
     \<lparr>mc_size_in_bytes = size_in_bytes, mc_use_lazy = use_lazy,
      mc_init_size_in_bytes = min init_size_in_bytes size_in_bytes, mc_align_bytes = align_bytes\<rparr>"

datatype L1Allocator = LazyAlloc LazyMemoryAllocator ta_world | MixedAlloc MixedMemoryAllocator

definition create_memory_allocator :: "SortedList_ops \<Rightarrow> Torch \<Rightarrow> L1MemoryManagerConfig \<Rightarrow> L1Allocator result" where
  "create_memory_allocator S T config =
     (if mc_use_lazy config
      then bind_result
             (LazyMemoryAllocator_init S (mc_init_size_in_bytes config) (mc_size_in_bytes config) (mc_align_bytes config))
             (\<lambda>(lz, w). Inr (LazyAlloc lz w))
      else bind_result
             (MixedMemoryAllocator_init S T (mc_size_in_bytes config)
                \<lparr>kw_use_paging = False, kw_shapes = None, kw_dtypes = None, kw_fmt = None\<rparr>)
             (\<lambda>m. Inr (MixedAlloc m)))"

text \<open>The two allocators have different default formats.\<close>

definition L1MemoryManager_allocate ::
  "SortedList_ops \<Rightarrow> Torch \<Rightarrow> MemoryLayoutDesc \<Rightarrow> int \<Rightarrow> L1Allocator \<Rightarrow> (L1Allocator \<times> L1Error \<times> mem_id list) result"
where
  "L1MemoryManager_allocate S T layout_desc cnt a =
     bind_result
       (case a of
          LazyAlloc lz w \<Rightarrow>
            bind_result (LazyMemoryAllocator_batched_allocate S T w
                (Many (ld_shapes layout_desc)) (Many (ld_dtypes layout_desc)) cnt UNDEFINED)
              (\<lambda>(w', r). Inr (LazyAlloc lz w', r))
        | MixedAlloc m \<Rightarrow>
            bind_result (MixedMemoryAllocator_batched_allocate S T m
                (Many (ld_shapes layout_desc)) (Many (ld_dtypes layout_desc)) cnt KV_2LTD)
              (\<lambda>(m', r). Inr (MixedAlloc m', map_option tensor_ids r)))
       (\<lambda>(a', objects).
          case objects of None \<Rightarrow> Inr (a', OUT_OF_MEMORY, []) | Some ids \<Rightarrow> Inr (a', SUCCESS, ids))"

definition L1MemoryManager_free :: "SortedList_ops \<Rightarrow> mem_id list \<Rightarrow> L1Allocator \<Rightarrow> L1Allocator result" where
  "L1MemoryManager_free S mem_objs a =
     (case a of
        LazyAlloc lz w \<Rightarrow> Inr (LazyAlloc lz (LazyMemoryAllocator_batched_free S w mem_objs))
      | MixedAlloc m \<Rightarrow>
          bind_result (MixedMemoryAllocator_batched_free S m (map TensorObj mem_objs)) (\<lambda>m'. Inr (MixedAlloc m')))"

definition L1MemoryManager_get_memory_usage :: "L1Allocator \<Rightarrow> (int \<times> int) result" where
  "L1MemoryManager_get_memory_usage a =
     bind_result
       (case a of
          LazyAlloc lz w \<Rightarrow> Inr (ta_address_manager (mw_alloc w))
        | MixedAlloc m \<Rightarrow>
            (case mx_pin_allocator m of
               TensorPool w \<Rightarrow> Inr (ta_address_manager (mw_alloc w))
             | PagedPool w \<Rightarrow> Inl NotImplementedError))
       (\<lambda>am. Inr (get_heap_size am - get_free_size am, get_heap_size am))"

definition L1MemoryManager_memcheck :: "L1Allocator \<Rightarrow> bool" where
  "L1MemoryManager_memcheck a =
     (case a of LazyAlloc lz w \<Rightarrow> LazyMemoryAllocator_memcheck w | MixedAlloc m \<Rightarrow> MixedMemoryAllocator_memcheck m)"

definition L1MemoryManager_close :: "L1Allocator \<Rightarrow> L1Allocator" where
  "L1MemoryManager_close a =
     (case a of LazyAlloc lz w \<Rightarrow> LazyAlloc (LazyMemoryAllocator_close lz) w
      | MixedAlloc m \<Rightarrow> MixedAlloc (MixedMemoryAllocator_close m))"

section \<open>L1Manager\<close>

record L1ObjectState =
  os_memory_obj :: mem_id
  os_write_lock :: TTLLock
  os_read_lock :: TTLLock
  os_is_temporary :: bool

definition available_for_read :: "int64 \<Rightarrow> L1ObjectState \<Rightarrow> bool" where
  "available_for_read now entry \<longleftrightarrow> \<not> TTLLock_is_locked now (os_write_lock entry)"

definition available_for_write :: "int64 \<Rightarrow> L1ObjectState \<Rightarrow> bool" where
  "available_for_write now entry \<longleftrightarrow>
     \<not> TTLLock_is_locked now (os_write_lock entry) \<and> \<not> TTLLock_is_locked now (os_read_lock entry) \<and>
     \<not> os_is_temporary entry"

type_synonym l1_objects = "(ObjectKey \<times> L1ObjectState) list"
type_synonym L1OperationResult = "L1Error \<times> mem_id option"

record L1Manager =
  l1_objects :: l1_objects
  l1_memory :: L1Allocator
  l1_write_ttl_seconds :: "32 word"
  l1_read_ttl_seconds :: "32 word"
  l1_listeners :: "ObjectKey LRUEvictionPolicy list"

definition L1Manager_init ::
  "SortedList_ops \<Rightarrow> Torch \<Rightarrow> L1MemoryManagerConfig \<Rightarrow> 32 word \<Rightarrow> 32 word \<Rightarrow> L1Manager result"
where
  "L1Manager_init S T config write_ttl read_ttl =
     bind_result (create_memory_allocator S T config) (\<lambda>a.
       Inr \<lparr>l1_objects = [], l1_memory = a, l1_write_ttl_seconds = write_ttl, l1_read_ttl_seconds = read_ttl,
            l1_listeners = []\<rparr>)"

definition register_listener :: "ObjectKey LRUEvictionPolicy \<Rightarrow> L1Manager \<Rightarrow> L1Manager" where
  "register_listener listener m = m\<lparr>l1_listeners := l1_listeners m @ [listener]\<rparr>"

definition notify :: "(ObjectKey LRUEvictionPolicy \<Rightarrow> ObjectKey LRUEvictionPolicy) \<Rightarrow> L1Manager \<Rightarrow> L1Manager" where
  "notify f m = m\<lparr>l1_listeners := map f (l1_listeners m)\<rparr>"

text \<open>One round of the loop of \<^verbatim>\<open>reserve_read\<close>, on the dictionary, the results and the successful keys.\<close>

definition reserve_read_key ::
  "int64 \<Rightarrow> ObjectKey \<Rightarrow> l1_objects \<times> (ObjectKey \<times> L1OperationResult) list \<times> ObjectKey list \<Rightarrow>
   l1_objects \<times> (ObjectKey \<times> L1OperationResult) list \<times> ObjectKey list"
where
  "reserve_read_key now key st =
     (case st of (objs, ret, ok) \<Rightarrow>
        case map_of objs key of
          None \<Rightarrow> (objs, AList.update key (KEY_NOT_EXIST, None) ret, ok)
        | Some entry \<Rightarrow>
            if \<not> available_for_read now entry
            then (objs, AList.update key (KEY_NOT_READABLE, None) ret, ok)
            else (AList.update key (entry\<lparr>os_read_lock := TTLLock_lock now (os_read_lock entry)\<rparr>) objs,
                  AList.update key (SUCCESS, Some (os_memory_obj entry)) ret, ok @ [key]))"

definition reserve_read ::
  "int64 \<Rightarrow> ObjectKey list \<Rightarrow> L1Manager \<Rightarrow> L1Manager \<times> (ObjectKey \<times> L1OperationResult) list"
where
  "reserve_read now keys m =
     (case fold (reserve_read_key now) keys (l1_objects m, [], []) of
        (objs, ret, ok) \<Rightarrow> (notify (on_keys_reserved_read ok) (m\<lparr>l1_objects := objs\<rparr>), ret))"

definition unsafe_read ::
  "int64 \<Rightarrow> ObjectKey list \<Rightarrow> L1Manager \<Rightarrow> (ObjectKey \<times> L1OperationResult) list"
where
  "unsafe_read now keys m =
     fold (\<lambda>key ret. AList.update key
             (case map_of (l1_objects m) key of
                None \<Rightarrow> (KEY_NOT_EXIST, None)
              | Some entry \<Rightarrow>
                  if \<not> TTLLock_is_locked now (os_read_lock entry) then (KEY_NOT_READABLE, None)
                  else (SUCCESS, Some (os_memory_obj entry))) ret) keys []"

text \<open>The loop of \<^verbatim>\<open>finish_read\<close> also collects the memory objects and the keys of temporary objects to delete.\<close>

definition finish_read_key ::
  "int64 \<Rightarrow> ObjectKey \<Rightarrow>
   l1_objects \<times> (ObjectKey \<times> L1Error) list \<times> ObjectKey list \<times> mem_id list \<times> ObjectKey list \<Rightarrow>
   l1_objects \<times> (ObjectKey \<times> L1Error) list \<times> ObjectKey list \<times> mem_id list \<times> ObjectKey list"
where
  "finish_read_key now key st =
     (case st of (objs, ret, ok, need_to_free, need_to_free_keys) \<Rightarrow>
        case map_of objs key of
          None \<Rightarrow> (objs, AList.update key KEY_NOT_EXIST ret, ok, need_to_free, need_to_free_keys)
        | Some entry \<Rightarrow>
            if TTLLock_is_locked now (os_write_lock entry)
            then (objs, AList.update key KEY_IN_WRONG_STATE ret, ok, need_to_free, need_to_free_keys)
            else if \<not> TTLLock_is_locked now (os_read_lock entry)
            then (objs, AList.update key KEY_IN_WRONG_STATE ret, ok, need_to_free, need_to_free_keys)
            else let l = TTLLock_unlock (os_read_lock entry) in
              if os_is_temporary entry \<and> \<not> TTLLock_is_locked now l
              then (AList.delete key objs, AList.update key SUCCESS ret, ok @ [key],
                    need_to_free @ [os_memory_obj entry], need_to_free_keys @ [key])
              else (AList.update key (entry\<lparr>os_read_lock := l\<rparr>) objs, AList.update key SUCCESS ret, ok @ [key],
                    need_to_free, need_to_free_keys))"

definition finish_read ::
  "SortedList_ops \<Rightarrow> int64 \<Rightarrow> ObjectKey list \<Rightarrow> L1Manager \<Rightarrow> L1Manager \<times> (ObjectKey \<times> L1Error) list result"
where
  "finish_read S now keys m =
     (case fold (finish_read_key now) keys (l1_objects m, [], [], [], []) of
        (objs, ret, ok, need_to_free, need_to_free_keys) \<Rightarrow>
          case L1MemoryManager_free S need_to_free (l1_memory m) of
            Inl e \<Rightarrow> (m\<lparr>l1_objects := objs\<rparr>, Inl e)
          | Inr a \<Rightarrow>
              (notify (\<lambda>p. on_keys_deleted_by_manager need_to_free_keys (on_keys_read_finished ok p))
                 (m\<lparr>l1_objects := objs, l1_memory := a\<rparr>), Inr ret))"

datatype write_mode = New | Update | All

definition reserve_write_key ::
  "int64 \<Rightarrow> write_mode \<Rightarrow> ObjectKey \<times> bool \<Rightarrow>
   l1_objects \<times> (ObjectKey \<times> L1OperationResult) list \<times> ObjectKey list \<times> (ObjectKey \<times> bool) list \<Rightarrow>
   l1_objects \<times> (ObjectKey \<times> L1OperationResult) list \<times> ObjectKey list \<times> (ObjectKey \<times> bool) list"
where
  "reserve_write_key now mode kt st =
     (case kt of (key, is_temp) \<Rightarrow> case st of (objs, ret, ok, need_to_allocate) \<Rightarrow>
        case map_of objs key of
          None \<Rightarrow> (objs, ret, ok, need_to_allocate @ [(key, is_temp)])
        | Some entry \<Rightarrow>
            if mode = New then (objs, AList.update key (KEY_NOT_WRITABLE, None) ret, ok, need_to_allocate)
            else if \<not> available_for_write now entry
            then (objs, AList.update key (KEY_NOT_WRITABLE, None) ret, ok, need_to_allocate)
            else (AList.update key (entry\<lparr>os_write_lock := TTLLock_lock now (os_write_lock entry)\<rparr>) objs,
                  AList.update key (SUCCESS, Some (os_memory_obj entry)) ret, ok @ [key], need_to_allocate))"

text \<open>A new entry, with its write lock taken.\<close>

definition new_entry :: "int64 \<Rightarrow> L1Manager \<Rightarrow> bool \<Rightarrow> mem_id \<Rightarrow> L1ObjectState" where
  "new_entry now m is_temp mem_obj =
     \<lparr>os_memory_obj = mem_obj, os_write_lock = TTLLock_lock now (TTLLock_init (l1_write_ttl_seconds m)),
      os_read_lock = TTLLock_init (l1_read_ttl_seconds m), os_is_temporary = is_temp\<rparr>"

definition add_entries ::
  "int64 \<Rightarrow> L1Manager \<Rightarrow> ((ObjectKey \<times> bool) \<times> mem_id) list \<Rightarrow>
   l1_objects \<times> (ObjectKey \<times> L1OperationResult) list \<times> ObjectKey list \<Rightarrow>
   l1_objects \<times> (ObjectKey \<times> L1OperationResult) list \<times> ObjectKey list"
where
  "add_entries now m kos st =
     fold (\<lambda>((key, is_temp), mem_obj) (objs, ret, ok).
             (AList.update key (new_entry now m is_temp mem_obj) objs,
              AList.update key (SUCCESS, Some mem_obj) ret, ok @ [key])) kos st"

definition reserve_write ::
  "SortedList_ops \<Rightarrow> Torch \<Rightarrow> int64 \<Rightarrow> ObjectKey list \<Rightarrow> bool list \<Rightarrow> MemoryLayoutDesc \<Rightarrow> write_mode \<Rightarrow> L1Manager \<Rightarrow>
   L1Manager \<times> (ObjectKey \<times> L1OperationResult) list result"
where
  "reserve_write S T now keys is_temporary layout_desc mode m =
     (case fold (reserve_write_key now mode) (zip keys is_temporary) (l1_objects m, [], [], []) of
        (objs, ret, ok, need_to_allocate) \<Rightarrow>
          let m1 = m\<lparr>l1_objects := objs\<rparr>;
              fail = (\<lambda>err. fold (\<lambda>(key, _). AList.update key (err, None)) need_to_allocate ret)
          in if need_to_allocate = [] then (m1, Inr ret)
             else if mode = Update then (m1, Inr (fail KEY_NOT_WRITABLE))
             else case L1MemoryManager_allocate S T layout_desc (int (length need_to_allocate)) (l1_memory m1) of
                    Inl e \<Rightarrow> (m1, Inl e)
                  | Inr (a, err, allocated_objs) \<Rightarrow>
                      if err \<noteq> SUCCESS
                      then let ret' = fail OUT_OF_MEMORY in
                        if allocated_objs \<noteq> []
                        then (case L1MemoryManager_free S allocated_objs a of
                                Inl e \<Rightarrow> (m1\<lparr>l1_memory := a\<rparr>, Inl e)
                              | Inr a' \<Rightarrow> (notify (on_keys_reserved_write ok) (m1\<lparr>l1_memory := a'\<rparr>), Inr ret'))
                        else (notify (on_keys_reserved_write ok) (m1\<lparr>l1_memory := a\<rparr>), Inr ret')
                      else (case add_entries now m (zip need_to_allocate allocated_objs) (objs, ret, ok) of
                              (objs', ret', ok') \<Rightarrow>
                                (notify (on_keys_reserved_write ok') (m1\<lparr>l1_objects := objs', l1_memory := a\<rparr>), Inr ret')))"

definition finish_write_key ::
  "int64 \<Rightarrow> ObjectKey \<Rightarrow> l1_objects \<times> (ObjectKey \<times> L1Error) list \<times> ObjectKey list \<Rightarrow>
   l1_objects \<times> (ObjectKey \<times> L1Error) list \<times> ObjectKey list"
where
  "finish_write_key now key st =
     (case st of (objs, ret, ok) \<Rightarrow>
        case map_of objs key of
          None \<Rightarrow> (objs, AList.update key KEY_NOT_EXIST ret, ok)
        | Some entry \<Rightarrow>
            if \<not> TTLLock_is_locked now (os_write_lock entry)
            then (objs, AList.update key KEY_IN_WRONG_STATE ret, ok)
            else if TTLLock_is_locked now (os_read_lock entry)
            then (objs, AList.update key KEY_IN_WRONG_STATE ret, ok)
            else (AList.update key (entry\<lparr>os_write_lock := TTLLock_unlock (os_write_lock entry)\<rparr>) objs,
                  AList.update key SUCCESS ret, ok @ [key]))"

definition finish_write ::
  "int64 \<Rightarrow> ObjectKey list \<Rightarrow> L1Manager \<Rightarrow> L1Manager \<times> (ObjectKey \<times> L1Error) list"
where
  "finish_write now keys m =
     (case fold (finish_write_key now) keys (l1_objects m, [], []) of
        (objs, ret, ok) \<Rightarrow> (notify (on_keys_write_finished ok) (m\<lparr>l1_objects := objs\<rparr>), ret))"

definition delete_key ::
  "int64 \<Rightarrow> ObjectKey \<Rightarrow> l1_objects \<times> (ObjectKey \<times> L1Error) list \<times> ObjectKey list \<times> mem_id list \<Rightarrow>
   l1_objects \<times> (ObjectKey \<times> L1Error) list \<times> ObjectKey list \<times> mem_id list"
where
  "delete_key now key st =
     (case st of (objs, ret, ok, need_to_free) \<Rightarrow>
        case map_of objs key of
          None \<Rightarrow> (objs, AList.update key KEY_NOT_EXIST ret, ok, need_to_free)
        | Some entry \<Rightarrow>
            if TTLLock_is_locked now (os_read_lock entry) \<or> TTLLock_is_locked now (os_write_lock entry)
            then (objs, AList.update key KEY_IS_LOCKED ret, ok, need_to_free)
            else (AList.delete key objs, AList.update key SUCCESS ret, ok @ [key], need_to_free @ [os_memory_obj entry]))"

definition l1_delete ::
  "SortedList_ops \<Rightarrow> int64 \<Rightarrow> ObjectKey list \<Rightarrow> L1Manager \<Rightarrow> L1Manager \<times> (ObjectKey \<times> L1Error) list result"
where
  "l1_delete S now keys m =
     (case fold (delete_key now) keys (l1_objects m, [], [], []) of
        (objs, ret, ok, need_to_free) \<Rightarrow>
          case L1MemoryManager_free S need_to_free (l1_memory m) of
            Inl e \<Rightarrow> (m\<lparr>l1_objects := objs\<rparr>, Inl e)
          | Inr a \<Rightarrow> (notify (on_keys_deleted_by_manager ok) (m\<lparr>l1_objects := objs, l1_memory := a\<rparr>), Inr ret))"

definition all_memory_objs :: "L1Manager \<Rightarrow> mem_id list" where
  "all_memory_objs m = map (\<lambda>(key, entry). os_memory_obj entry) (l1_objects m)"

definition l1_clear :: "SortedList_ops \<Rightarrow> L1Manager \<Rightarrow> L1Manager \<times> unit result" where
  "l1_clear S m =
     (let all_keys = map fst (l1_objects m)
      in case L1MemoryManager_free S (all_memory_objs m) (l1_memory m) of
           Inl e \<Rightarrow> (m, Inl e)
         | Inr a \<Rightarrow> (notify (on_keys_deleted_by_manager all_keys) (m\<lparr>l1_objects := [], l1_memory := a\<rparr>), Inr ()))"

definition l1_get_memory_usage :: "L1Manager \<Rightarrow> (int \<times> int) result" where
  "l1_get_memory_usage m = L1MemoryManager_get_memory_usage (l1_memory m)"

definition l1_close :: "SortedList_ops \<Rightarrow> L1Manager \<Rightarrow> L1Manager \<times> unit result" where
  "l1_close S m =
     (case L1MemoryManager_free S (all_memory_objs m) (l1_memory m) of
        Inl e \<Rightarrow> (m, Inl e)
      | Inr a \<Rightarrow> (m\<lparr>l1_objects := [], l1_memory := L1MemoryManager_close a\<rparr>, Inr ()))"

definition get_object_state :: "ObjectKey \<Rightarrow> L1Manager \<Rightarrow> L1ObjectState option" where
  "get_object_state key m = map_of (l1_objects m) key"

text \<open>The check of the allocator, and the counts that \<^verbatim>\<open>memcheck\<close> logs.\<close>

definition l1_memcheck :: "int64 \<Rightarrow> L1Manager \<Rightarrow> bool \<times> nat \<times> nat \<times> nat" where
  "l1_memcheck now m =
     (L1MemoryManager_memcheck (l1_memory m), length (l1_objects m),
      length (filter (\<lambda>(key, entry). TTLLock_is_locked now (os_write_lock entry)) (l1_objects m)),
      length (filter (\<lambda>(key, entry). TTLLock_is_locked now (os_read_lock entry)) (l1_objects m)))"

section \<open>The allocator of the L1 cache\<close>

definition l1_alloc_ok :: "SortedList_ops \<Rightarrow> Torch \<Rightarrow> L1Allocator \<Rightarrow> bool" where
  "l1_alloc_ok S T a \<longleftrightarrow> SortedList_documented S \<and> Torch_documented T \<and>
     (case a of LazyAlloc lz w \<Rightarrow> lazy_ok (lz, w)
      | MixedAlloc m \<Rightarrow> mixed_inv S T m \<and> (\<exists>w. mx_pin_allocator m = TensorPool w))"

definition l1_in_use :: "L1Allocator \<Rightarrow> mem_id set" where
  "l1_in_use a = (case a of LazyAlloc lz w \<Rightarrow> ta_in_use w | MixedAlloc m \<Rightarrow> pool_in_use (mx_pin_allocator m))"

definition l1_bytes :: "L1Allocator \<Rightarrow> mem_id \<Rightarrow> int set" where
  "l1_bytes a i =
     (case a of LazyAlloc lz w \<Rightarrow> rng (tm_raw_data (mw_heap w ! i)) | MixedAlloc m \<Rightarrow> pool_bytes (mx_pin_allocator m) i)"

definition layout_ok :: "Torch \<Rightarrow> MemoryLayoutDesc \<Rightarrow> bool" where
  "layout_ok T layout \<longleftrightarrow> (case get_size_bytes T (ld_shapes layout) (ld_dtypes layout) of Inl _ \<Rightarrow> False | Inr n \<Rightarrow> 0 < n)"

lemma lazy_ok_static: "lazy_ok (lz, w) \<Longrightarrow> ta_ok w' \<Longrightarrow> ta_static (mw_alloc w') = ta_static (mw_alloc w) \<Longrightarrow> lazy_ok (lz, w')"
  by (simp add: lazy_ok_def ta_static_def)

lemma ta_batch_distinct:
  assumes "TensorMemoryAllocator_batched_allocate S T w shapes dtypes b fmt = Inr (w', Some ids)"
    and "get_size_bytes T (as_many shapes) (as_many dtypes) = Inr n"
  shows "distinct ids"
  by (rule ta_batched_allocate_cases [OF assms refl]) simp_all

lemma l1_allocate_lazy:
  assumes ok: "l1_alloc_ok S T (LazyAlloc lz w)" and lay: "layout_ok T layout" and b: "0 < b"
    and r: "LazyMemoryAllocator_batched_allocate S T w (Many (ld_shapes layout)) (Many (ld_dtypes layout)) b fmt = Inr (w', q)"
  shows "l1_alloc_ok S T (LazyAlloc lz w') \<and> (\<forall>ids. q = Some ids \<longrightarrow> length ids = nat b \<and> distinct ids) \<and>
     (case q of None \<Rightarrow> ta_in_use w' = ta_in_use w
      | Some ids \<Rightarrow> set ids \<inter> ta_in_use w = {} \<and> ta_in_use w' = ta_in_use w \<union> set ids)"
proof -
  let ?s = "Many (ld_shapes layout)" and ?d = "Many (ld_dtypes layout)"
  have D: "SortedList_documented S" "Torch_documented T" and lz: "lazy_ok (lz, w)" and w: "ta_ok w"
    using ok by (simp_all add: l1_alloc_ok_def lazy_ok_def)
  obtain n where n: "get_size_bytes T (as_many ?s) (as_many ?d) = Inr n" "0 < n"
    using lay by (auto simp: layout_ok_def split: sum.splits)
  have r': "TensorMemoryAllocator_batched_allocate S T w ?s ?d b fmt = Inr (w', q)"
    using r lazy_batched_allocate_eq [OF n(1)] by simp
  have op: "ta_op_ok T (OpBatchedAllocate ?s ?d b fmt)" using n b by simp
  note law = ta_batched_allocate_law [OF D w op r']
  have "ta_static (mw_alloc w') = ta_static (mw_alloc w)" using ta_step_static [OF op, of S w] r' by simp
  then have "l1_alloc_ok S T (LazyAlloc lz w')" using law lazy_ok_static [OF lz] D by (simp add: l1_alloc_ok_def)
  moreover have "\<forall>ids. q = Some ids \<longrightarrow> length ids = nat b \<and> distinct ids"
    using ta_batched_allocate_ok(3) [OF D w r' n b] ta_batch_distinct [OF _ n(1)] r' by blast
  ultimately show ?thesis using law by simp
qed

lemma l1_allocate_mixed:
  assumes ok: "l1_alloc_ok S T (MixedAlloc m)" and lay: "layout_ok T layout" and b: "0 < b"
    and r: "MixedMemoryAllocator_batched_allocate S T m (Many (ld_shapes layout)) (Many (ld_dtypes layout)) b KV_2LTD = Inr (m', q)"
  shows "l1_alloc_ok S T (MixedAlloc m') \<and> (\<forall>ids. map_option tensor_ids q = Some ids \<longrightarrow> length ids = nat b \<and> distinct ids) \<and>
     (case map_option tensor_ids q of None \<Rightarrow> pool_in_use (mx_pin_allocator m') = pool_in_use (mx_pin_allocator m)
      | Some ids \<Rightarrow> set ids \<inter> pool_in_use (mx_pin_allocator m) = {} \<and>
          pool_in_use (mx_pin_allocator m') = pool_in_use (mx_pin_allocator m) \<union> set ids)"
proof -
  let ?s = "Many (ld_shapes layout)" and ?d = "Many (ld_dtypes layout)"
  obtain w where w: "mx_pin_allocator m = TensorPool w" and inv: "mixed_inv S T m"
    using ok by (auto simp: l1_alloc_ok_def)
  have D: "SortedList_documented S" "Torch_documented T" and tw: "ta_ok w"
    using ok inv by (simp_all add: l1_alloc_ok_def mixed_inv_def pool_inv_def pool_ok_def w)
  obtain n where n: "get_size_bytes T (as_many ?s) (as_many ?d) = Inr n" "0 < n"
    using lay by (auto simp: layout_ok_def split: sum.splits)
  have kv: "KV_2LTD \<in> set KV_FORMATS" by (simp add: KV_FORMATS_def)
  from r kv obtain w' ids where w': "TensorMemoryAllocator_batched_allocate S T w ?s ?d b KV_2LTD = Inr (w', ids)"
    "m' = m\<lparr>mx_pin_allocator := TensorPool w'\<rparr>" and q: "q = map_option (map TensorObj) ids"
    by (auto simp: MixedMemoryAllocator_batched_allocate_def pool_batched_allocate_def w)
  have mq: "map_option tensor_ids q = ids" using q by (cases ids) simp_all
  have op: "ta_op_ok T (OpBatchedAllocate ?s ?d b KV_2LTD)" using n b by simp
  have acq: "mixed_acquire S T m (Batch ?s ?d b KV_2LTD) = Inr (m', ids)" using r mq by simp
  have "mixed_request_ok T m (Batch ?s ?d b KV_2LTD)" using op by (simp add: mixed_request_ok_def pool_request_ok_def w)
  note law = mx.alloc_law [OF inv this acq]
  have "\<forall>js. ids = Some js \<longrightarrow> length js = nat b \<and> distinct js"
    using ta_batched_allocate_ok(3) [OF D tw w'(1) n b] ta_batch_distinct [OF _ n(1)] w'(1) by blast
  then show ?thesis using law D w'(2) unfolding mq by (simp add: l1_alloc_ok_def)
qed

lemma l1_allocate_law:
  assumes ok: "l1_alloc_ok S T a" and lay: "layout_ok T layout" and b: "0 < b"
    and r: "L1MemoryManager_allocate S T layout b a = Inr (a', err, ids)"
  shows "l1_alloc_ok S T a' \<and> set ids \<inter> l1_in_use a = {} \<and> l1_in_use a' = l1_in_use a \<union> set ids \<and>
     distinct ids \<and>
     (err = SUCCESS \<and> length ids = nat b \<or> err = OUT_OF_MEMORY \<and> ids = [])"
proof (cases a)
  case (LazyAlloc lz w)
  with r obtain w' q where q: "LazyMemoryAllocator_batched_allocate S T w (Many (ld_shapes layout)) (Many (ld_dtypes layout)) b UNDEFINED = Inr (w', q)"
    "a' = LazyAlloc lz w'" "(err, ids) = (case q of None \<Rightarrow> (OUT_OF_MEMORY, []) | Some ids \<Rightarrow> (SUCCESS, ids))"
    by (auto simp: L1MemoryManager_allocate_def split: option.splits)
  from l1_allocate_lazy [OF ok [unfolded LazyAlloc] lay b q(1)] q(2,3) show ?thesis
    by (cases q) (simp_all add: LazyAlloc l1_in_use_def)
next
  case (MixedAlloc m)
  from r obtain m' q where q: "MixedMemoryAllocator_batched_allocate S T m (Many (ld_shapes layout)) (Many (ld_dtypes layout)) b KV_2LTD = Inr (m', q)"
    and e: "(case map_option tensor_ids q of None \<Rightarrow> Inr (MixedAlloc m', OUT_OF_MEMORY, []) | Some js \<Rightarrow> Inr (MixedAlloc m', SUCCESS, js))
      = (Inr (a', err, ids) :: (L1Allocator \<times> L1Error \<times> mem_id list) result)"
    by (auto simp: L1MemoryManager_allocate_def MixedAlloc)
  define js where "js = map_option tensor_ids q"
  note law = l1_allocate_mixed [OF ok [unfolded MixedAlloc] lay b q, folded js_def] and e' = e [folded js_def]
  show ?thesis
  proof (cases js)
    case None
    then have "a' = MixedAlloc m'" "err = OUT_OF_MEMORY" "ids = []" using e' by simp_all
    then show ?thesis using law None by (simp add: MixedAlloc l1_in_use_def)
  next
    case (Some ks)
    then have "a' = MixedAlloc m'" "err = SUCCESS" "ids = ks" using e' by simp_all
    then show ?thesis using law Some by (simp add: MixedAlloc l1_in_use_def)
  qed
qed

text \<open>Freeing succeeds, except that the mixed allocator raises on an empty list.\<close>

lemma l1_free_law:
  assumes ok: "l1_alloc_ok S T a" and ids: "distinct ids" "set ids \<subseteq> l1_in_use a"
  shows "case L1MemoryManager_free S ids a of
           Inl e \<Rightarrow> ids = [] \<and> e = IndexError
         | Inr a' \<Rightarrow> l1_alloc_ok S T a' \<and> l1_in_use a' = l1_in_use a - set ids"
proof (cases a)
  case (LazyAlloc lz w)
  have D: "SortedList_documented S" "Torch_documented T" and lz: "lazy_ok (lz, w)" and w: "ta_ok w"
    using ok by (simp_all add: l1_alloc_ok_def LazyAlloc lazy_ok_def)
  have i: "set ids \<subseteq> ta_in_use w" using ids by (simp add: LazyAlloc l1_in_use_def)
  note law = ta_batched_free_law [OF D(1) w i]
  have len: "\<forall>i \<in> set ids. i < length (mw_heap w)" using i by (auto simp: ta_in_use_def)
  have "ta_static (mw_alloc (TensorMemoryAllocator_batched_free S w ids)) = ta_static (mw_alloc w)"
    using ta_batched_free_ok(3-5) [OF D(1) w len] by (simp add: ta_static_def)
  from lazy_ok_static [OF lz _ this] law D show ?thesis
    by (simp add: LazyAlloc L1MemoryManager_free_def LazyMemoryAllocator_batched_free_def l1_alloc_ok_def l1_in_use_def)
next
  case (MixedAlloc m)
  have inv: "mixed_inv S T m" "\<exists>w. mx_pin_allocator m = TensorPool w" and D: "SortedList_documented S" "Torch_documented T"
    using ok by (simp_all add: l1_alloc_ok_def MixedAlloc)
  have i: "set ids \<subseteq> pool_in_use (mx_pin_allocator m)" using ids by (simp add: MixedAlloc l1_in_use_def)
  show ?thesis
  proof (cases "ids = []")
    case True
    then show ?thesis by (simp add: MixedAlloc L1MemoryManager_free_def MixedMemoryAllocator_batched_free_def py_nth_def)
  next
    case False
    have e: "MixedMemoryAllocator_batched_free S m (map TensorObj ids) = Inr (mixed_release S m ids)"
      using mixed_release_eq [OF inv(1) i False] by (simp add: mixed_release_def)
    have "\<exists>w. mx_pin_allocator (mixed_release S m ids) = TensorPool w"
      using mixed_release_eq [OF inv(1) i False] inv(2) by (auto simp: mixed_release_def pool_batched_free_def)
    with mx.release_law [OF inv(1) ids(1) i] e D show ?thesis
      by (simp add: MixedAlloc L1MemoryManager_free_def l1_alloc_ok_def l1_in_use_def)
  qed
qed

lemma l1_bytes_law:
  assumes "l1_alloc_ok S T a" and "i \<in> l1_in_use a" and "j \<in> l1_in_use a" and "i \<noteq> j"
  shows "l1_bytes a i \<inter> l1_bytes a j = {}"
proof (cases a)
  case (LazyAlloc lz w)
  have "pool_inv S T (TensorPool w)" using assms(1) by (simp add: LazyAlloc l1_alloc_ok_def pool_inv_def pool_ok_def lazy_ok_def)
  from pl.bytes_law [OF this, of i j] assms show ?thesis
    by (simp add: LazyAlloc l1_in_use_def l1_bytes_def pool_in_use_def pool_bytes_def pool_heap_def)
next
  case (MixedAlloc m)
  have "mixed_inv S T m" using assms(1) by (simp add: MixedAlloc l1_alloc_ok_def)
  from mx.bytes_law [OF this, of i j] assms show ?thesis by (simp add: MixedAlloc l1_in_use_def l1_bytes_def)
qed

lemma l1_memcheck_law: "l1_alloc_ok S T a \<Longrightarrow> L1MemoryManager_memcheck a"
  using ta_ok_memcheck pool_ok_memcheck
  by (cases a) (simp_all add: l1_alloc_ok_def L1MemoryManager_memcheck_def LazyMemoryAllocator_memcheck_def lazy_ok_def
      MixedMemoryAllocator_memcheck_def mixed_inv_def pool_inv_def)

section \<open>Entries and their memory\<close>

text \<open>Which key owns which memory object. Operations that only lock or unlock keep it.\<close>

definition owners :: "l1_objects \<Rightarrow> (ObjectKey \<times> mem_id) list" where
  "owners objs = map (\<lambda>(key, entry). (key, os_memory_obj entry)) objs"

lemma all_memory_objs_owners: "all_memory_objs m = map snd (owners (l1_objects m))"
  by (simp add: all_memory_objs_def owners_def case_prod_unfold comp_def)

lemma keys_owners [simp]: "map fst (owners objs) = map fst objs"
  by (simp add: owners_def case_prod_unfold comp_def)

lemma owners_update:
  "map_of objs key = Some entry \<Longrightarrow> os_memory_obj entry' = os_memory_obj entry \<Longrightarrow>
   owners (AList.update key entry' objs) = owners objs"
  by (induction objs) (auto simp: owners_def split: if_splits)

lemma owners_delete: "owners (AList.delete key objs) = AList.delete key (owners objs)"
  by (induction objs) (auto simp: owners_def)

lemma mset_delete:
  "distinct (map fst ps) \<Longrightarrow> map_of ps key = Some v \<Longrightarrow> mset (map snd ps) = add_mset v (mset (map snd (AList.delete key ps)))"
proof (induction ps)
  case (Cons p ps)
  obtain k u where p: "p = (k, u)" by (cases p)
  show ?case
  proof (cases "k = key")
    case True
    with Cons.prems(1) have "AList.delete key ps = ps" by (simp add: p delete_idem)
    then show ?thesis using True Cons.prems by (simp add: p)
  next
    case False
    then have "mset (map snd ps) = add_mset v (mset (map snd (AList.delete key ps)))" using Cons by (simp add: p)
    then show ?thesis using False by (simp add: p add_mset_commute)
  qed
qed simp

lemma map_of_owners: "map_of objs key = Some entry \<Longrightarrow> map_of (owners objs) key = Some (os_memory_obj entry)"
  by (induction objs) (auto simp: owners_def split: if_splits)

lemma reserve_read_owners:
  "fold (reserve_read_key now) keys (objs, ret, ok) = (objs', ret', ok') \<Longrightarrow> owners objs' = owners objs"
proof (induction keys arbitrary: objs ret ok)
  case (Cons key keys)
  obtain o1 r1 k1 where s: "reserve_read_key now key (objs, ret, ok) = (o1, r1, k1)" by (metis prod_cases3)
  have "owners o1 = owners objs" using s by (auto simp: reserve_read_key_def owners_update split: option.splits if_splits)
  with Cons.IH [of o1 r1 k1] Cons.prems s show ?case by simp
qed simp

lemma finish_write_owners:
  "fold (finish_write_key now) keys (objs, ret, ok) = (objs', ret', ok') \<Longrightarrow> owners objs' = owners objs"
proof (induction keys arbitrary: objs ret ok)
  case (Cons key keys)
  obtain o1 r1 k1 where s: "finish_write_key now key (objs, ret, ok) = (o1, r1, k1)" by (metis prod_cases3)
  have "owners o1 = owners objs" using s by (auto simp: finish_write_key_def owners_update split: option.splits if_splits)
  with Cons.IH [of o1 r1 k1] Cons.prems s show ?case by simp
qed simp

text \<open>The loop of \<^verbatim>\<open>reserve_write\<close> keeps the owners and collects the new keys, in order.\<close>

lemma reserve_write_owners:
  "fold (reserve_write_key now mode) kts (objs, ret, ok, need) = (objs', ret', ok', need') \<Longrightarrow>
   owners objs' = owners objs \<and> need' = need @ filter (\<lambda>kt. fst kt \<notin> fst ` set objs) kts"
proof (induction kts arbitrary: objs ret ok need)
  case (Cons kt kts)
  obtain o1 r1 k1 n1 where s: "reserve_write_key now mode kt (objs, ret, ok, need) = (o1, r1, k1, n1)" by (metis prod_cases4)
  have o: "owners o1 = owners objs"
    using s by (auto simp: reserve_write_key_def owners_update split: option.splits if_splits prod.splits)
  then have f: "fst ` set o1 = fst ` set objs" by (metis keys_owners list.set_map)
  have "n1 = need @ (if fst kt \<notin> fst ` set objs then [kt] else [])"
    using s by (cases kt) (auto simp: reserve_write_key_def map_of_eq_None_iff split: option.splits if_splits dest: map_of_Some_key)
  with Cons.IH [of o1 r1 k1 n1] Cons.prems s o f show ?case by simp
qed simp

text \<open>The deleting loops move memory objects from the entries to the list of objects to free.\<close>

definition moved :: "l1_objects \<Rightarrow> mem_id list \<Rightarrow> mem_id multiset" where
  "moved objs need = mset (map snd (owners objs)) + mset need"

lemma moved_delete:
  assumes "distinct (map fst objs)" and "map_of objs key = Some entry"
  shows "moved (AList.delete key objs) (need @ [os_memory_obj entry]) = moved objs need"
  using mset_delete [of "owners objs" key "os_memory_obj entry"] assms map_of_owners [OF assms(2)]
  by (simp add: moved_def owners_delete)

lemma moved_update:
  "map_of objs key = Some entry \<Longrightarrow> os_memory_obj entry' = os_memory_obj entry \<Longrightarrow>
   moved (AList.update key entry' objs) need = moved objs need"
  by (simp add: moved_def owners_update)

lemma finish_read_key_moved:
  assumes "finish_read_key now key (objs, ret, ok, need, nkeys) = (o1, r1, k1, n1, d1)" and d: "distinct (map fst objs)"
  shows "moved o1 n1 = moved objs need \<and> distinct (map fst o1)"
proof (cases "map_of objs key")
  case (Some entry)
  note u = moved_update [OF Some, of "entry\<lparr>os_read_lock := TTLLock_unlock (os_read_lock entry)\<rparr>"]
  show ?thesis
    using assms(1) d Some moved_delete [OF d Some] u distinct_delete [OF d] distinct_update [OF d]
    by (simp only: finish_read_key_def Let_def prod.case option.case split: if_splits) auto
qed (use assms in \<open>simp add: finish_read_key_def\<close>)

lemma delete_key_moved:
  assumes "delete_key now key (objs, ret, ok, need) = (o1, r1, k1, n1)" and d: "distinct (map fst objs)"
  shows "moved o1 n1 = moved objs need \<and> distinct (map fst o1)"
proof (cases "map_of objs key")
  case (Some entry)
  show ?thesis
    using assms(1) d Some moved_delete [OF d Some] distinct_delete [OF d]
    by (simp only: delete_key_def prod.case option.case split: if_splits) auto
qed (use assms in \<open>simp add: delete_key_def\<close>)

lemma finish_read_moved:
  "fold (finish_read_key now) keys (objs, ret, ok, need, nkeys) = (objs', ret', ok', need', nkeys') \<Longrightarrow>
   distinct (map fst objs) \<Longrightarrow> moved objs' need' = moved objs need \<and> distinct (map fst objs')"
proof (induction keys arbitrary: objs ret ok need nkeys)
  case (Cons key keys)
  obtain o1 r1 k1 n1 d1 where s: "finish_read_key now key (objs, ret, ok, need, nkeys) = (o1, r1, k1, n1, d1)" by (metis prod_cases5)
  with Cons.IH [of o1 r1 k1 n1 d1] Cons.prems finish_read_key_moved [OF s Cons.prems(2)] show ?case by simp
qed simp

lemma delete_moved:
  "fold (delete_key now) keys (objs, ret, ok, need) = (objs', ret', ok', need') \<Longrightarrow>
   distinct (map fst objs) \<Longrightarrow> moved objs' need' = moved objs need \<and> distinct (map fst objs')"
proof (induction keys arbitrary: objs ret ok need)
  case (Cons key keys)
  obtain o1 r1 k1 n1 where s: "delete_key now key (objs, ret, ok, need) = (o1, r1, k1, n1)" by (metis prod_cases4)
  with Cons.IH [of o1 r1 k1 n1] Cons.prems delete_key_moved [OF s Cons.prems(2)] show ?case by simp
qed simp

section \<open>Every allocated object belongs to exactly one key\<close>

definition l1_ok :: "SortedList_ops \<Rightarrow> Torch \<Rightarrow> L1Manager \<Rightarrow> bool" where
  "l1_ok S T m \<longleftrightarrow> l1_alloc_ok S T (l1_memory m) \<and> distinct (map fst (l1_objects m)) \<and>
     distinct (all_memory_objs m) \<and> set (all_memory_objs m) = l1_in_use (l1_memory m)"

lemma update_new: "key \<notin> fst ` set objs \<Longrightarrow> AList.update key entry objs = objs @ [(key, entry)]"
  by (induction objs) auto

lemma add_entries_owners:
  assumes "add_entries now m kos (objs, ret, ok) = (objs', ret', ok')"
    and "distinct (map (\<lambda>ko. fst (fst ko)) kos)" and "(\<lambda>ko. fst (fst ko)) ` set kos \<inter> fst ` set objs = {}"
  shows "owners objs' = owners objs @ map (\<lambda>ko. (fst (fst ko), snd ko)) kos"
  using assms
proof (induction kos arbitrary: objs ret ok)
  case (Cons ko kos)
  obtain key t i where ko: "ko = ((key, t), i)" by (metis prod.collapse)
  let ?objs = "objs @ [(key, new_entry now m t i)]"
  have new: "key \<notin> fst ` set objs" using Cons.prems(3) by (simp add: ko)
  have "add_entries now m kos (?objs, AList.update key (SUCCESS, Some i) ret, ok @ [key]) = (objs', ret', ok')"
    using Cons.prems(1) by (simp add: add_entries_def ko update_new [OF new])
  moreover have "distinct (map (\<lambda>ko. fst (fst ko)) kos)" using Cons.prems(2) by simp
  moreover have "(\<lambda>ko. fst (fst ko)) ` set kos \<inter> fst ` set ?objs = {}" using Cons.prems(2,3) by (auto simp: ko)
  ultimately have "owners objs' = owners ?objs @ map (\<lambda>ko. (fst (fst ko), snd ko)) kos" by (rule Cons.IH)
  then show ?case by (simp add: ko owners_def new_entry_def)
qed (simp add: add_entries_def)

lemma notify_simps [simp]:
  "l1_objects (notify f m) = l1_objects m" "l1_memory (notify f m) = l1_memory m"
  "l1_read_ttl_seconds (notify f m) = l1_read_ttl_seconds m" "l1_write_ttl_seconds (notify f m) = l1_write_ttl_seconds m"
  by (simp_all add: notify_def)

lemma l1_ok_cong:
  assumes "l1_ok S T m" and "l1_memory m' = l1_memory m" and "owners (l1_objects m') = owners (l1_objects m)"
  shows "l1_ok S T m'"
proof -
  have "map fst (l1_objects m') = map fst (l1_objects m)" using assms(3) keys_owners by metis
  then show ?thesis using assms by (simp add: l1_ok_def all_memory_objs_owners)
qed

text \<open>Freeing the objects that a deleting loop collected, whether or not the allocator accepts an empty list.\<close>

lemma l1_ok_free:
  assumes ok: "l1_ok S T m" and mv: "moved objs need = moved (l1_objects m) []" and d: "distinct (map fst objs)"
  shows "case L1MemoryManager_free S need (l1_memory m) of
           Inl e \<Rightarrow> need = [] \<and> e = IndexError \<and> l1_ok S T (m\<lparr>l1_objects := objs\<rparr>)
         | Inr a \<Rightarrow> l1_ok S T (m\<lparr>l1_objects := objs, l1_memory := a\<rparr>)"
proof -
  have o: "l1_alloc_ok S T (l1_memory m)" "distinct (all_memory_objs m)" "set (all_memory_objs m) = l1_in_use (l1_memory m)"
    using ok by (simp_all add: l1_ok_def)
  have ms: "mset (map snd (owners objs) @ need) = mset (all_memory_objs m)"
    using mv by (simp add: moved_def all_memory_objs_owners)
  then have dn: "distinct (map snd (owners objs) @ need)" using o(2) by (metis mset_eq_imp_distinct_iff)
  have sn: "set (map snd (owners objs)) \<union> set need = l1_in_use (l1_memory m)"
    using arg_cong [OF ms, of set_mset] o(3) by simp
  have "distinct need" "set need \<subseteq> l1_in_use (l1_memory m)" using dn sn by auto
  note f = l1_free_law [OF o(1) this]
  show ?thesis
  proof (cases "L1MemoryManager_free S need (l1_memory m)")
    case (Inl e)
    then show ?thesis using f d dn sn o(1) by (simp add: l1_ok_def all_memory_objs_owners)
  next
    case (Inr a)
    have "set (map snd (owners objs)) = l1_in_use (l1_memory m) - set need" using dn sn by auto
    then show ?thesis using f Inr d dn by (simp add: l1_ok_def all_memory_objs_owners)
  qed
qed

lemma l1_ok_notify [simp]: "l1_ok S T (notify f m) = l1_ok S T m"
  by (simp add: l1_ok_def all_memory_objs_def)

lemma reserve_read_ok:
  assumes "l1_ok S T m"
  shows "l1_ok S T (fst (reserve_read now keys m))"
proof -
  obtain objs ret ok where f: "fold (reserve_read_key now) keys (l1_objects m, [], []) = (objs, ret, ok)" by (metis prod_cases3)
  have "l1_ok S T (m\<lparr>l1_objects := objs\<rparr>)" by (rule l1_ok_cong [OF assms]) (simp_all add: reserve_read_owners [OF f])
  then show ?thesis by (simp add: reserve_read_def f)
qed

lemma finish_write_ok:
  assumes "l1_ok S T m"
  shows "l1_ok S T (fst (finish_write now keys m))"
proof -
  obtain objs ret ok where f: "fold (finish_write_key now) keys (l1_objects m, [], []) = (objs, ret, ok)" by (metis prod_cases3)
  have "l1_ok S T (m\<lparr>l1_objects := objs\<rparr>)" by (rule l1_ok_cong [OF assms]) (simp_all add: finish_write_owners [OF f])
  then show ?thesis by (simp add: finish_write_def f)
qed

lemma finish_read_ok:
  assumes ok: "l1_ok S T m"
  shows "l1_ok S T (fst (finish_read S now keys m))"
proof -
  obtain objs ret k need nkeys where f: "fold (finish_read_key now) keys (l1_objects m, [], [], [], []) = (objs, ret, k, need, nkeys)"
    by (metis prod_cases5)
  have "moved objs need = moved (l1_objects m) [] \<and> distinct (map fst objs)"
    using ok by (intro finish_read_moved [OF f]) (simp add: l1_ok_def)
  with l1_ok_free [OF ok] have "case L1MemoryManager_free S need (l1_memory m) of
       Inl e \<Rightarrow> need = [] \<and> e = IndexError \<and> l1_ok S T (m\<lparr>l1_objects := objs\<rparr>)
     | Inr a \<Rightarrow> l1_ok S T (m\<lparr>l1_objects := objs, l1_memory := a\<rparr>)" by blast
  then show ?thesis by (cases "L1MemoryManager_free S need (l1_memory m)") (simp_all add: finish_read_def f)
qed

lemma delete_ok:
  assumes ok: "l1_ok S T m"
  shows "l1_ok S T (fst (l1_delete S now keys m))"
proof -
  obtain objs ret k need where f: "fold (delete_key now) keys (l1_objects m, [], [], []) = (objs, ret, k, need)"
    by (metis prod_cases4)
  have "moved objs need = moved (l1_objects m) [] \<and> distinct (map fst objs)"
    using ok by (intro delete_moved [OF f]) (simp add: l1_ok_def)
  with l1_ok_free [OF ok] have "case L1MemoryManager_free S need (l1_memory m) of
       Inl e \<Rightarrow> need = [] \<and> e = IndexError \<and> l1_ok S T (m\<lparr>l1_objects := objs\<rparr>)
     | Inr a \<Rightarrow> l1_ok S T (m\<lparr>l1_objects := objs, l1_memory := a\<rparr>)" by blast
  then show ?thesis by (cases "L1MemoryManager_free S need (l1_memory m)") (simp_all add: l1_delete_def f)
qed

lemma clear_ok:
  assumes ok: "l1_ok S T m"
  shows "l1_ok S T (fst (l1_clear S m))"
proof -
  have "moved [] (all_memory_objs m) = moved (l1_objects m) []" by (simp add: moved_def all_memory_objs_owners owners_def)
  with l1_ok_free [OF ok] have "case L1MemoryManager_free S (all_memory_objs m) (l1_memory m) of
       Inl e \<Rightarrow> all_memory_objs m = [] \<and> e = IndexError \<and> l1_ok S T (m\<lparr>l1_objects := []\<rparr>)
     | Inr a \<Rightarrow> l1_ok S T (m\<lparr>l1_objects := [], l1_memory := a\<rparr>)" by fastforce
  then show ?thesis
    using ok by (cases "L1MemoryManager_free S (all_memory_objs m) (l1_memory m)") (simp_all add: l1_clear_def Let_def)
qed

lemma need_keys:
  assumes "distinct keys"
  shows "distinct (map fst (filter (\<lambda>kt. fst kt \<notin> X) (zip keys temps)))"
    and "fst ` set (filter (\<lambda>kt. fst kt \<notin> X) (zip keys temps)) \<inter> X = {}"
proof -
  have "distinct (map fst (zip keys temps))" using assms by (simp add: map_fst_zip_take)
  then show "distinct (map fst (filter (\<lambda>kt. fst kt \<notin> X) (zip keys temps)))" by (simp add: distinct_map_filter)
qed auto

text \<open>Allocating for distinct new keys: the new entries own exactly the new memory objects.\<close>

lemma reserve_write_alloc_ok:
  assumes ok: "l1_ok S T m1" and alloc: "L1MemoryManager_allocate S T layout b (l1_memory m1) = Inr (a, SUCCESS, ids)"
    and lay: "layout_ok T layout" and b: "0 < b" and len: "length need = nat b"
    and new: "distinct (map fst need)" "fst ` set need \<inter> fst ` set (l1_objects m1) = {}"
    and add: "add_entries now m (zip need ids) (l1_objects m1, ret, k) = (objs', ret', k')"
  shows "l1_ok S T (m1\<lparr>l1_objects := objs', l1_memory := a\<rparr>)"
proof -
  have o: "l1_alloc_ok S T (l1_memory m1)" "distinct (all_memory_objs m1)" "set (all_memory_objs m1) = l1_in_use (l1_memory m1)"
    "distinct (map fst (l1_objects m1))" using ok by (simp_all add: l1_ok_def)
  have l: "l1_alloc_ok S T a" "set ids \<inter> l1_in_use (l1_memory m1) = {}" "l1_in_use a = l1_in_use (l1_memory m1) \<union> set ids"
    "length ids = nat b" and di: "distinct ids" using l1_allocate_law [OF o(1) lay b alloc] by simp_all
  have zl: "map fst (zip need ids) = need" "map snd (zip need ids) = ids" using len l(4) by simp_all
  have mk: "map (\<lambda>ko. fst (fst ko)) (zip need ids) = map fst need" using arg_cong [OF zl(1), of "map fst"] by (simp add: comp_def)
  have "(\<lambda>ko. fst (fst ko)) ` set (zip need ids) = fst ` set need" using arg_cong [OF mk, of set] by simp
  with add_entries_owners [OF add] new mk
  have ow: "owners objs' = owners (l1_objects m1) @ map (\<lambda>ko. (fst (fst ko), snd ko)) (zip need ids)" by simp
  have "map fst (owners objs') = map fst (l1_objects m1) @ map fst need" using ow mk by (simp add: comp_def)
  then have "distinct (map fst objs')" using o(4) new by auto
  moreover have "map snd (owners objs') = all_memory_objs m1 @ ids" using ow zl(2) by (simp add: comp_def all_memory_objs_owners)
  ultimately show ?thesis using o(2,3) l di by (simp add: l1_ok_def all_memory_objs_owners) (auto simp: all_memory_objs_owners)
qed

lemma reserve_write_ok:
  assumes ok: "l1_ok S T m" and lay: "layout_ok T layout" and keys: "distinct keys"
  shows "l1_ok S T (fst (reserve_write S T now keys temps layout mode m))"
proof -
  obtain objs ret k need where f: "fold (reserve_write_key now mode) (zip keys temps) (l1_objects m, [], [], []) = (objs, ret, k, need)"
    by (metis prod_cases4)
  have ow: "owners objs = owners (l1_objects m)" and need: "need = filter (\<lambda>kt. fst kt \<notin> fst ` set (l1_objects m)) (zip keys temps)"
    using reserve_write_owners [OF f] by simp_all
  let ?m1 = "m\<lparr>l1_objects := objs\<rparr>"
  have ok1: "l1_ok S T ?m1" by (rule l1_ok_cong [OF ok]) (simp_all add: ow)
  have keys1: "fst ` set objs = fst ` set (l1_objects m)" using ow by (metis keys_owners list.set_map)
  show ?thesis
  proof (cases "need = [] \<or> mode = Update")
    case True
    then show ?thesis using ok1 by (auto simp: reserve_write_def f Let_def)
  next
    case False
    define b where "b = int (length need)"
    have b: "0 < b" using False by (simp add: b_def)
    show ?thesis
    proof (cases "L1MemoryManager_allocate S T layout b (l1_memory ?m1)")
      case (Inl e)
      then show ?thesis using ok1 False by (simp add: reserve_write_def f b_def Let_def l1_ok_notify)
    next
      case (Inr p)
      obtain a err ids where p: "p = (a, err, ids)" by (metis prod_cases3)
      have law: "l1_alloc_ok S T a" "l1_in_use a = l1_in_use (l1_memory ?m1) \<union> set ids"
        "err = SUCCESS \<and> length ids = nat b \<or> err = OUT_OF_MEMORY \<and> ids = []"
        using l1_allocate_law [OF _ lay b Inr [unfolded p]] ok1 by (simp_all add: l1_ok_def)
      show ?thesis
      proof (cases "err = SUCCESS")
        case True
        obtain objs' ret' k' where ad: "add_entries now m (zip need ids) (objs, ret, k) = (objs', ret', k')" by (metis prod_cases3)
        have "l1_ok S T (?m1\<lparr>l1_objects := objs', l1_memory := a\<rparr>)"
          using ad Inr p True need_keys [OF keys, of "fst ` set (l1_objects m)" temps] keys1
          by (intro reserve_write_alloc_ok [OF ok1 _ lay b, where need = need]) (simp_all add: need b_def)
        then show ?thesis using False Inr p True ad by (simp add: reserve_write_def f b_def Let_def l1_ok_notify)
      next
        case err: False
        have ids: "ids = []" using law(3) err by simp
        have "l1_ok S T (?m1\<lparr>l1_memory := a\<rparr>)" using ok1 law(1,2) ids by (simp add: l1_ok_def all_memory_objs_def)
        then show ?thesis using False Inr p err ids by (simp add: reserve_write_def f b_def Let_def l1_ok_notify)
      qed
    qed
  qed
qed

text \<open>Histories: calls of the manager, and rounds of the thread that expands a lazy allocator.\<close>

datatype l1_op =
    ReserveRead "ObjectKey list"
  | FinishRead "ObjectKey list"
  | ReserveWrite "ObjectKey list" "bool list" MemoryLayoutDesc write_mode
  | FinishWrite "ObjectKey list"
  | Delete "ObjectKey list"
  | Clear
  | Expand

definition l1_expand :: "SortedList_ops \<Rightarrow> L1Manager \<Rightarrow> L1Manager" where
  "l1_expand S m =
     (case l1_memory m of
        LazyAlloc lz w \<Rightarrow>
          if lz_curr_size lz < lz_final_size lz
          then (case expand_round S (lz, w) of Inl _ \<Rightarrow> m | Inr (lz', w') \<Rightarrow> m\<lparr>l1_memory := LazyAlloc lz' w'\<rparr>)
          else m
      | MixedAlloc _ \<Rightarrow> m)"

fun l1_step :: "SortedList_ops \<Rightarrow> Torch \<Rightarrow> int64 \<times> l1_op \<Rightarrow> L1Manager \<Rightarrow> L1Manager" where
  "l1_step S T (now, ReserveRead keys) m = fst (reserve_read now keys m)"
| "l1_step S T (now, FinishRead keys) m = fst (finish_read S now keys m)"
| "l1_step S T (now, ReserveWrite keys temps layout mode) m = fst (reserve_write S T now keys temps layout mode m)"
| "l1_step S T (now, FinishWrite keys) m = fst (finish_write now keys m)"
| "l1_step S T (now, Delete keys) m = fst (l1_delete S now keys m)"
| "l1_step S T (now, Clear) m = fst (l1_clear S m)"
| "l1_step S T (now, Expand) m = l1_expand S m"

fun l1_op_ok :: "Torch \<Rightarrow> int64 \<times> l1_op \<Rightarrow> bool" where
  "l1_op_ok T (now, ReserveWrite keys temps layout mode) \<longleftrightarrow> layout_ok T layout \<and> distinct keys"
| "l1_op_ok T _ \<longleftrightarrow> True"

lemma expand_round_heap: "expand_round S (lz, w) = Inr (lz', w') \<Longrightarrow> mw_heap w' = mw_heap w"
  by (auto simp: expand_round_def Let_def commit_expansion_def)

lemma expand_ok:
  assumes ok: "l1_ok S T m"
  shows "l1_ok S T (l1_expand S m)"
proof (cases "l1_memory m")
  case (LazyAlloc lz w)
  have o: "SortedList_documented S" "Torch_documented T" "lazy_ok (lz, w)"
    using ok by (simp_all add: l1_ok_def l1_alloc_ok_def LazyAlloc)
  show ?thesis
  proof (cases "lz_curr_size lz < lz_final_size lz")
    case True
    obtain lz' w' where e: "expand_round S (lz, w) = Inr (lz', w')" "lazy_ok (lz', w')"
      using expand_round_ok [OF o(1,3) True] by blast
    have "l1_alloc_ok S T (LazyAlloc lz' w')" "l1_in_use (LazyAlloc lz' w') = l1_in_use (l1_memory m)"
      using o e expand_round_heap [OF e(1)] by (simp_all add: l1_alloc_ok_def l1_in_use_def LazyAlloc ta_in_use_def)
    then show ?thesis using ok True e(1) by (simp add: l1_expand_def LazyAlloc l1_ok_def all_memory_objs_def)
  qed (use ok in \<open>simp add: l1_expand_def LazyAlloc\<close>)
qed (use ok in \<open>simp add: l1_expand_def\<close>)

lemma l1_step_ok: "l1_ok S T m \<Longrightarrow> l1_op_ok T c \<Longrightarrow> l1_ok S T (l1_step S T c m)"
  by (cases c, cases "snd c")
    (auto simp: reserve_read_ok finish_read_ok reserve_write_ok finish_write_ok delete_ok clear_ok expand_ok)

lemma l1_history_ok: "l1_ok S T m \<Longrightarrow> \<forall>c \<in> set cs. l1_op_ok T c \<Longrightarrow> l1_ok S T (fold (l1_step S T) cs m)"
  by (induction cs arbitrary: m) (simp_all add: l1_step_ok)

section \<open>A reader keeps its object\<close>

text \<open>
  \<open>held t0 D i c r entry\<close>: from time \<open>t0\<close> to the deadline \<open>D\<close> the entry is not write-locked and has
  at least \<open>c\<close> readers, its object is \<open>i\<close>, and \<open>r\<close> more readers do not overflow the counter.
\<close>

definition held :: "int \<Rightarrow> int \<Rightarrow> mem_id \<Rightarrow> nat \<Rightarrow> nat \<Rightarrow> L1ObjectState \<Rightarrow> bool" where
  "held t0 D i c r entry \<longleftrightarrow> os_memory_obj entry = i \<and>
     (sint (tl_counter (os_write_lock entry)) \<le> 0 \<or> sint (tl_expiration_ms (os_write_lock entry)) \<le> t0) \<and>
     lock_good (os_read_lock entry) \<and> D \<le> t0 + sint (tl_ttl_ms (os_read_lock entry)) \<and>
     D \<le> sint (tl_expiration_ms (os_read_lock entry)) \<and>
     int c \<le> sint (tl_counter (os_read_lock entry)) \<and> sint (tl_counter (os_read_lock entry)) + int r < 2 ^ 63"

definition in_lease :: "int \<Rightarrow> int \<Rightarrow> int64 \<Rightarrow> bool" where
  "in_lease t0 D t \<longleftrightarrow> time_ok t \<and> t0 \<le> sint t \<and> sint t < D"

lemma held_not_written: "held t0 D i c r e \<Longrightarrow> in_lease t0 D t \<Longrightarrow> \<not> TTLLock_is_locked t (os_write_lock e)"
  by (auto simp: held_def in_lease_def TTLLock_is_locked_def sint_order)

lemma held_read_locked: "held t0 D i c r e \<Longrightarrow> in_lease t0 D t \<Longrightarrow> 0 < c \<Longrightarrow> TTLLock_is_locked t (os_read_lock e)"
  by (auto simp: held_def in_lease_def TTLLock_is_locked_def sint_order)

lemma held_lock:
  assumes "held t0 D i c (Suc r) e" and "in_lease t0 D t"
  shows "held t0 D i (Suc c) r (e\<lparr>os_read_lock := TTLLock_lock t (os_read_lock e)\<rparr>)"
proof -
  have g: "lock_good (os_read_lock e)" and room: "lock_room t (os_read_lock e)" and alive: "lock_alive t (os_read_lock e)"
    using assms by (auto simp: held_def in_lease_def lock_room_def lock_alive_def sint_order)
  have "lock_good (TTLLock_lock t (os_read_lock e))" using tl.lock_law [OF g room] by simp
  then show ?thesis using assms lock_fields [OF g room] alive by (simp add: held_def in_lease_def)
qed

lemma held_unlock:
  assumes "held t0 D i c r e" and "0 < c"
  shows "held t0 D i (c - 1) r (e\<lparr>os_read_lock := TTLLock_unlock (os_read_lock e)\<rparr>)"
proof -
  have g: "lock_good (os_read_lock e)" using assms by (simp add: held_def)
  have "lock_good (TTLLock_unlock (os_read_lock e))" using tl.unlock_law [OF g] by simp
  then show ?thesis using assms unlock_fields [OF g] by (auto simp: held_def)
qed

lemma reserve_read_held:
  assumes "fold (reserve_read_key t) keys (objs, ret, ok) = (objs', ret', ok')" and lease: "in_lease t0 D t"
    and "map_of objs k = Some e" and "held t0 D i c (count_list keys k + r) e"
  shows "\<exists>e'. map_of objs' k = Some e' \<and> held t0 D i (c + count_list keys k) r e'"
  using assms(1,3,4)
proof (induction keys arbitrary: objs ret ok e c)
  case (Cons key keys)
  obtain o1 r1 k1 where s: "reserve_read_key t key (objs, ret, ok) = (o1, r1, k1)" by (metis prod_cases3)
  have f: "fold (reserve_read_key t) keys (o1, r1, k1) = (objs', ret', ok')" using Cons.prems(1) s by simp
  show ?case
  proof (cases "key = k")
    case True
    have av: "available_for_read t e" using held_not_written [OF Cons.prems(3) lease] by (simp add: available_for_read_def)
    then have "map_of o1 k = Some (e\<lparr>os_read_lock := TTLLock_lock t (os_read_lock e)\<rparr>)"
      using s Cons.prems(2) True by (auto simp: reserve_read_key_def update_conv')
    moreover have "held t0 D i (Suc c) (count_list keys k + r) (e\<lparr>os_read_lock := TTLLock_lock t (os_read_lock e)\<rparr>)"
      using held_lock [OF _ lease] Cons.prems(3) True by simp
    ultimately show ?thesis using Cons.IH [OF f] True by fastforce
  next
    case False
    then have "map_of o1 k = Some e"
      using s Cons.prems(2) by (auto simp: reserve_read_key_def update_conv' split: option.splits if_splits)
    then show ?thesis using Cons.IH [OF f] Cons.prems(3) False by simp
  qed
qed simp

lemma finish_read_held:
  assumes "fold (finish_read_key t) keys (objs, ret, ok, need, nkeys) = (objs', ret', ok', need', nkeys')"
    and lease: "in_lease t0 D t" and "map_of objs k = Some e" and "held t0 D i c r e" and "count_list keys k < c"
  shows "\<exists>e'. map_of objs' k = Some e' \<and> held t0 D i (c - count_list keys k) r e'"
  using assms(1,3-)
proof (induction keys arbitrary: objs ret ok need nkeys e c)
  case (Cons key keys)
  obtain o1 r1 k1 n1 d1 where s: "finish_read_key t key (objs, ret, ok, need, nkeys) = (o1, r1, k1, n1, d1)" by (metis prod_cases5)
  have f: "fold (finish_read_key t) keys (o1, r1, k1, n1, d1) = (objs', ret', ok', need', nkeys')" using Cons.prems(1) s by simp
  show ?case
  proof (cases "key = k")
    case True
    let ?e = "e\<lparr>os_read_lock := TTLLock_unlock (os_read_lock e)\<rparr>"
    have c: "0 < c" "0 < c - 1" "count_list keys k < c - 1" using Cons.prems(4) True by simp_all
    have h: "held t0 D i (c - 1) r ?e" using held_unlock [OF Cons.prems(3) c(1)] .
    have "map_of o1 k = Some ?e"
      using s Cons.prems(2) True held_not_written [OF Cons.prems(3) lease] held_read_locked [OF Cons.prems(3) lease c(1)]
        held_read_locked [OF h lease c(2)] by (auto simp: finish_read_key_def Let_def update_conv')
    then show ?thesis using Cons.IH [OF f _ h c(3)] True by simp
  next
    case False
    then have "map_of o1 k = Some e"
      using s Cons.prems(2)
      by (auto simp: finish_read_key_def Let_def update_conv' delete_conv' split: option.splits if_splits)
    then show ?thesis using Cons.IH [OF f] Cons.prems(3,4) False by simp
  qed
qed simp

text \<open>The loops of the other methods leave a held entry alone.\<close>

lemma reserve_write_held:
  assumes "fold (reserve_write_key t mode) kts (objs, ret, ok, need) = (objs', ret', ok', need')"
    and "map_of objs k = Some e" and "\<not> available_for_write t e"
  shows "map_of objs' k = Some e"
  using assms
proof (induction kts arbitrary: objs ret ok need)
  case (Cons kt kts)
  obtain o1 r1 k1 n1 where s: "reserve_write_key t mode kt (objs, ret, ok, need) = (o1, r1, k1, n1)" by (metis prod_cases4)
  have "map_of o1 k = Some e"
    using s Cons.prems(2,3) by (auto simp: reserve_write_key_def update_conv' split: option.splits if_splits prod.splits)
  then show ?case using Cons.IH [of o1 r1 k1 n1] Cons.prems s by simp
qed simp

lemma finish_write_held:
  assumes "fold (finish_write_key t) keys (objs, ret, ok) = (objs', ret', ok')"
    and "map_of objs k = Some e" and "\<not> TTLLock_is_locked t (os_write_lock e)"
  shows "map_of objs' k = Some e"
  using assms
proof (induction keys arbitrary: objs ret ok)
  case (Cons key keys)
  obtain o1 r1 k1 where s: "finish_write_key t key (objs, ret, ok) = (o1, r1, k1)" by (metis prod_cases3)
  have "map_of o1 k = Some e"
    using s Cons.prems(2,3) by (auto simp: finish_write_key_def update_conv' split: option.splits if_splits)
  then show ?case using Cons.IH [of o1 r1 k1] Cons.prems s by simp
qed simp

lemma delete_held:
  assumes "fold (delete_key t) keys (objs, ret, ok, need) = (objs', ret', ok', need')"
    and "map_of objs k = Some e" and "TTLLock_is_locked t (os_read_lock e) \<or> TTLLock_is_locked t (os_write_lock e)"
  shows "map_of objs' k = Some e"
  using assms
proof (induction keys arbitrary: objs ret ok need)
  case (Cons key keys)
  obtain o1 r1 k1 n1 where s: "delete_key t key (objs, ret, ok, need) = (o1, r1, k1, n1)" by (metis prod_cases4)
  have "map_of o1 k = Some e"
    using s Cons.prems(2,3) by (auto simp: delete_key_def delete_conv' split: option.splits if_splits)
  then show ?case using Cons.IH [of o1 r1 k1 n1] Cons.prems s by simp
qed simp

lemma add_entries_other:
  "add_entries t m kos (objs, ret, ok) = (objs', ret', ok') \<Longrightarrow> k \<notin> (\<lambda>ko. fst (fst ko)) ` set kos \<Longrightarrow>
   map_of objs' k = map_of objs k"
proof (induction kos arbitrary: objs ret ok)
  case (Cons ko kos)
  obtain key tmp i where ko: "ko = ((key, tmp), i)" by (metis prod.collapse)
  have "add_entries t m kos (AList.update key (new_entry t m tmp i) objs, AList.update key (SUCCESS, Some i) ret, ok @ [key]) =
    (objs', ret', ok')" using Cons.prems(1) by (simp add: add_entries_def ko)
  from Cons.IH [OF this] Cons.prems(2) show ?case by (simp add: ko update_conv')
qed (simp add: add_entries_def)

lemma reserve_write_keeps:
  assumes e: "map_of (l1_objects m) k = Some e" and na: "\<not> available_for_write t e"
  shows "map_of (l1_objects (fst (reserve_write S T t keys temps layout mode m))) k = Some e"
proof -
  obtain objs ret ok need where f: "fold (reserve_write_key t mode) (zip keys temps) (l1_objects m, [], [], []) = (objs, ret, ok, need)"
    by (metis prod_cases4)
  have o: "map_of objs k = Some e" by (rule reserve_write_held [OF f e na])
  have "k \<in> fst ` set (l1_objects m)" using map_of_SomeD [OF e] by force
  then have need: "k \<notin> fst ` set need" using conjunct2 [OF reserve_write_owners [OF f]] by (intro notI, elim imageE, simp)
  have ad: "map_of objs' k = Some e" if "add_entries t m (zip need ids) (objs, ret, ok) = (objs', ret', ok')" for ids objs' ret' ok'
    using add_entries_other [OF that, of k] need o by (force dest: set_zip_leftD)
  show ?thesis
  proof (cases "L1MemoryManager_allocate S T layout (int (length need)) (l1_memory m)")
    case (Inr p)
    obtain a err ids where p: "p = (a, err, ids)" by (metis prod_cases3)
    obtain objs' ret' ok' where "add_entries t m (zip need ids) (objs, ret, ok) = (objs', ret', ok')" by (metis prod_cases3)
    with ad [OF this] show ?thesis using o Inr p by (auto simp: reserve_write_def f Let_def split: sum.splits)
  qed (use o in \<open>auto simp: reserve_write_def f Let_def\<close>)
qed

text \<open>
  The calls that leave a reader its lock: together, the calls of \<^verbatim>\<open>finish_read\<close> on the key never
  release the last of \<open>c\<close> holders, and \<^verbatim>\<open>clear\<close> is not called.
\<close>

fun still_held :: "ObjectKey \<Rightarrow> nat \<Rightarrow> (int64 \<times> l1_op) list \<Rightarrow> bool" where
  "still_held k c [] \<longleftrightarrow> 0 < c"
| "still_held k c ((t, op) # ops) \<longleftrightarrow> 0 < c \<and>
     (case op of
        ReserveRead keys \<Rightarrow> still_held k (c + count_list keys k) ops
      | FinishRead keys \<Rightarrow> count_list keys k < c \<and> still_held k (c - count_list keys k) ops
      | Clear \<Rightarrow> False
      | _ \<Rightarrow> still_held k c ops)"

fun new_readers :: "ObjectKey \<Rightarrow> (int64 \<times> l1_op) list \<Rightarrow> nat" where
  "new_readers k [] = 0"
| "new_readers k ((t, op) # ops) = (case op of ReserveRead keys \<Rightarrow> count_list keys k | _ \<Rightarrow> 0) + new_readers k ops"

lemma still_held_pos: "still_held k c ops \<Longrightarrow> 0 < c"
  by (cases ops) auto

lemma l1_step_held:
  assumes e: "map_of (l1_objects m) k = Some e" "held t0 D i c (new_readers k ((t, op) # ops)) e"
    and lease: "in_lease t0 D t" and held: "still_held k c ((t, op) # ops)"
  shows "\<exists>e' c'. map_of (l1_objects (l1_step S T (t, op) m)) k = Some e' \<and> held t0 D i c' (new_readers k ops) e' \<and>
           still_held k c' ops"
proof -
  have c: "0 < c" by (rule still_held_pos [OF held])
  note locked = held_read_locked [OF e(2) lease c] and unwritten = held_not_written [OF e(2) lease]
  show ?thesis
  proof (cases op)
    case (ReserveRead keys)
    obtain objs ret ok where f: "fold (reserve_read_key t) keys (l1_objects m, [], []) = (objs, ret, ok)" by (metis prod_cases3)
    show ?thesis using reserve_read_held [OF f lease e(1)] e(2) held ReserveRead by (fastforce simp: reserve_read_def f)
  next
    case (FinishRead keys)
    obtain objs ret ok need nkeys where f: "fold (finish_read_key t) keys (l1_objects m, [], [], [], []) = (objs, ret, ok, need, nkeys)"
      by (metis prod_cases5)
    have "l1_objects (fst (finish_read S t keys m)) = objs" by (simp add: finish_read_def f split: sum.split)
    then show ?thesis using finish_read_held [OF f lease e(1)] e(2) held FinishRead by fastforce
  next
    case (ReserveWrite keys temps layout mode)
    have "\<not> available_for_write t e" using locked by (simp add: available_for_write_def)
    from reserve_write_keeps [OF e(1) this] show ?thesis using e held ReserveWrite by fastforce
  next
    case (FinishWrite keys)
    obtain objs ret ok where f: "fold (finish_write_key t) keys (l1_objects m, [], []) = (objs, ret, ok)" by (metis prod_cases3)
    show ?thesis using finish_write_held [OF f e(1) unwritten] e held FinishWrite by (fastforce simp: finish_write_def f)
  next
    case (Delete keys)
    obtain objs ret ok need where f: "fold (delete_key t) keys (l1_objects m, [], [], []) = (objs, ret, ok, need)" by (metis prod_cases4)
    have "l1_objects (fst (l1_delete S t keys m)) = objs" by (simp add: l1_delete_def f split: sum.split)
    then show ?thesis using delete_held [OF f e(1)] locked e held Delete by fastforce
  next
    case Expand
    have "l1_objects (l1_expand S m) = l1_objects m" by (simp add: l1_expand_def split: L1Allocator.split sum.split prod.split)
    then show ?thesis using e held Expand by fastforce
  qed (use held in simp)
qed

lemma l1_history_held:
  assumes "map_of (l1_objects m) k = Some e" and "held t0 D i c (new_readers k ops) e" and "still_held k c ops"
    and "\<forall>(t, op) \<in> set ops. in_lease t0 D t"
  shows "\<exists>e' c'. map_of (l1_objects (fold (l1_step S T) ops m)) k = Some e' \<and> held t0 D i c' 0 e' \<and> 0 < c'"
  using assms
proof (induction ops arbitrary: m e c)
  case (Cons op ops)
  obtain t p where op: "op = (t, p)" by (cases op)
  have "in_lease t0 D t" using Cons.prems(4) op by simp
  from l1_step_held [OF Cons.prems(1) Cons.prems(2) [unfolded op] this Cons.prems(3) [unfolded op], of S T]
  obtain e' c' where n: "map_of (l1_objects (l1_step S T op m)) k = Some e'" "held t0 D i c' (new_readers k ops) e'" "still_held k c' ops"
    unfolding op by blast
  from Cons.IH [OF n] Cons.prems(4) show ?case by simp
qed (use still_held_pos in auto)

text \<open>What \<^verbatim>\<open>reserve_read\<close> answers for a key, and what it does to its entry.\<close>

definition read_result :: "int64 \<Rightarrow> L1ObjectState option \<Rightarrow> L1OperationResult" where
  "read_result now q =
     (case q of None \<Rightarrow> (KEY_NOT_EXIST, None)
      | Some entry \<Rightarrow> if available_for_read now entry then (SUCCESS, Some (os_memory_obj entry)) else (KEY_NOT_READABLE, None))"

definition read_locked :: "int64 \<Rightarrow> nat \<Rightarrow> L1ObjectState \<Rightarrow> L1ObjectState" where
  "read_locked now n entry =
     (if available_for_read now entry then entry\<lparr>os_read_lock := (TTLLock_lock now ^^ n) (os_read_lock entry)\<rparr> else entry)"

lemma read_locked_simps [simp]:
  "available_for_read now (read_locked t n entry) = available_for_read now entry"
  "os_memory_obj (read_locked t n entry) = os_memory_obj entry"
  "read_locked now 0 = id"
  by (simp_all add: read_locked_def available_for_read_def fun_eq_iff)

lemma read_locked_add: "read_locked now n (read_locked now 1 entry) = read_locked now (Suc n) entry"
proof (cases "available_for_read now entry")
  case True
  then have "available_for_read now (entry\<lparr>os_read_lock := l\<rparr>)" for l by (simp add: available_for_read_def)
  then show ?thesis using True by (simp add: read_locked_def funpow_swap1)
qed (simp add: read_locked_def)

lemma reserve_read_fold:
  assumes "fold (reserve_read_key now) keys (objs, ret, ok) = (objs', ret', ok')"
  shows "map_of objs' k = map_option (read_locked now (count_list keys k)) (map_of objs k)"
    and "map_of ret' k = (if k \<in> set keys then Some (read_result now (map_of objs k)) else map_of ret k)"
    and "ok' = ok @ filter (\<lambda>key. fst (read_result now (map_of objs key)) = SUCCESS) keys"
proof -
  have "(\<forall>k. map_of objs' k = map_option (read_locked now (count_list keys k)) (map_of objs k)) \<and>
    (\<forall>k. map_of ret' k = (if k \<in> set keys then Some (read_result now (map_of objs k)) else map_of ret k)) \<and>
    ok' = ok @ filter (\<lambda>key. fst (read_result now (map_of objs key)) = SUCCESS) keys"
    using assms
  proof (induction keys arbitrary: objs ret ok)
    case (Cons key keys)
    obtain o1 r1 k1 where s: "reserve_read_key now key (objs, ret, ok) = (o1, r1, k1)" by (metis prod_cases3)
    have o1: "map_of o1 k = (if k = key then map_option (read_locked now 1) (map_of objs k) else map_of objs k)" for k
      using s by (auto simp: reserve_read_key_def update_conv' read_locked_def split: option.splits if_splits)
    have r1: "map_of r1 k = (if k = key then Some (read_result now (map_of objs k)) else map_of ret k)" for k
      using s by (auto simp: reserve_read_key_def update_conv' read_result_def split: option.splits if_splits)
    have k1: "k1 = ok @ filter (\<lambda>key. fst (read_result now (map_of objs key)) = SUCCESS) [key]"
      using s by (auto simp: reserve_read_key_def read_result_def split: option.splits if_splits)
    have same: "read_result now (map_of o1 k) = read_result now (map_of objs k)" for k
      by (simp add: o1 read_result_def split: option.split)
    have IH: "\<forall>k. map_of objs' k = map_option (read_locked now (count_list keys k)) (map_of o1 k)"
      "\<forall>k. map_of ret' k = (if k \<in> set keys then Some (read_result now (map_of objs k)) else map_of r1 k)"
      "ok' = k1 @ filter (\<lambda>key. fst (read_result now (map_of objs key)) = SUCCESS) keys"
      using Cons.IH [of o1 r1 k1] Cons.prems s same by simp_all
    show ?case using IH o1 r1 k1 read_locked_add by (auto simp: option.map_comp comp_def)
  qed (simp add: option.map_id)
  then show "map_of objs' k = map_option (read_locked now (count_list keys k)) (map_of objs k)"
    "map_of ret' k = (if k \<in> set keys then Some (read_result now (map_of objs k)) else map_of ret k)"
    "ok' = ok @ filter (\<lambda>key. fst (read_result now (map_of objs key)) = SUCCESS) keys" by blast+
qed

lemma locks_fields:
  assumes "lock_good l" and "time_ok now" and "sint (tl_counter l) + int n < 2 ^ 63" and "0 < n"
  shows "lock_good ((TTLLock_lock now ^^ n) l) \<and> sint (tl_counter ((TTLLock_lock now ^^ n) l)) = int (lock_count now l + n) \<and>
     sint (tl_expiration_ms ((TTLLock_lock now ^^ n) l)) = sint now + sint (tl_ttl_ms l) \<and>
     tl_ttl_ms ((TTLLock_lock now ^^ n) l) = tl_ttl_ms l"
  using assms(3,4)
proof (induction n)
  case (Suc n)
  let ?l = "(TTLLock_lock now ^^ n) l"
  have g: "lock_good ?l" and ttl: "tl_ttl_ms ?l = tl_ttl_ms l" and room: "lock_room now ?l" and cnt: "lock_count now ?l = lock_count now l + n"
    using Suc assms(1,2) by (cases n; auto simp: lock_room_def lock_count_def lock_alive_def sint_order lock_good_def split: if_splits)+
  note law = tl.lock_law [OF g room] and f = lock_fields [OF g room]
  have "nat (sint (tl_counter (TTLLock_lock now ?l))) = lock_count now (TTLLock_lock now ?l)" using law by (simp add: lock_count_def)
  moreover have "0 \<le> sint (tl_counter (TTLLock_lock now ?l))" using law by (simp add: lock_good_def)
  ultimately have "sint (tl_counter (TTLLock_lock now ?l)) = int (lock_count now l + Suc n)" using law cnt by simp
  then show ?case using law f ttl by simp
qed simp

lemma reserve_read_starts:
  assumes r: "reserve_read t0 keys m = (m0, ret)" and ret: "map_of ret k = Some (SUCCESS, Some i)"
    and e: "map_of (l1_objects m) k = Some e" and g: "lock_good (os_read_lock e)" and t: "time_ok t0"
    and room: "sint (tl_counter (os_read_lock e)) + int (count_list keys k + r) < 2 ^ 63"
  shows "\<exists>e0. map_of (l1_objects m0) k = Some e0 \<and>
     held (sint t0) (sint t0 + sint (tl_ttl_ms (os_read_lock e))) i (lock_count t0 (os_read_lock e) + count_list keys k) r e0"
proof -
  obtain objs ret' ok where f: "fold (reserve_read_key t0) keys (l1_objects m, [], []) = (objs, ret', ok)" by (metis prod_cases3)
  have m0: "l1_objects m0 = objs" "ret' = ret" using r by (auto simp: reserve_read_def f)
  have k: "k \<in> set keys" "read_result t0 (Some e) = (SUCCESS, Some i)"
    using reserve_read_fold(2) [OF f, of k] m0 ret e by (auto split: if_splits)
  have av: "available_for_read t0 e" and i: "os_memory_obj e = i"
    using k(2) by (auto simp: read_result_def split: if_splits)
  have n: "0 < count_list keys k" using k(1) by (simp add: count_list_0_iff zero_less_iff_neq_zero)
  let ?e = "e\<lparr>os_read_lock := (TTLLock_lock t0 ^^ count_list keys k) (os_read_lock e)\<rparr>"
  have "map_of (l1_objects m0) k = Some ?e"
    using reserve_read_fold(1) [OF f, of k] e av m0 by (simp add: read_locked_def)
  moreover have "int (lock_count t0 (os_read_lock e)) \<le> sint (tl_counter (os_read_lock e))"
    using g by (simp add: lock_count_def lock_good_def)
  moreover have "sint (tl_counter (os_read_lock e)) + int (count_list keys k) < 2 ^ 63" using room by simp
  note locks_fields [OF g t this n]
  moreover have "sint (tl_counter (os_write_lock e)) \<le> 0 \<or> sint (tl_expiration_ms (os_write_lock e)) \<le> sint t0"
    using av by (auto simp: available_for_read_def TTLLock_is_locked_def sint_order)
  ultimately show ?thesis using i room by (simp add: held_def)
qed

section \<open>A writer has its object alone\<close>

definition writes_end :: "ObjectKey \<Rightarrow> l1_op \<Rightarrow> bool" where
  "writes_end k op \<longleftrightarrow> (case op of FinishWrite keys \<Rightarrow> k \<in> set keys | Clear \<Rightarrow> True | _ \<Rightarrow> False)"

lemma finish_read_written:
  assumes "fold (finish_read_key t) keys (objs, ret, ok, need, nkeys) = (objs', ret', ok', need', nkeys')"
    and "map_of objs k = Some e" and "TTLLock_is_locked t (os_write_lock e)"
  shows "map_of objs' k = Some e"
  using assms
proof (induction keys arbitrary: objs ret ok need nkeys)
  case (Cons key keys)
  obtain o1 r1 k1 n1 d1 where s: "finish_read_key t key (objs, ret, ok, need, nkeys) = (o1, r1, k1, n1, d1)" by (metis prod_cases5)
  have "map_of o1 k = Some e"
    using s Cons.prems(2,3)
    by (auto simp: finish_read_key_def Let_def update_conv' delete_conv' split: option.splits if_splits)
  then show ?case using Cons.IH [of o1 r1 k1 n1 d1] Cons.prems s by simp
qed simp

lemma finish_write_other:
  assumes "fold (finish_write_key t) keys (objs, ret, ok) = (objs', ret', ok')" and "k \<notin> set keys"
  shows "map_of objs' k = map_of objs k"
  using assms
proof (induction keys arbitrary: objs ret ok)
  case (Cons key keys)
  obtain o1 r1 k1 where s: "finish_write_key t key (objs, ret, ok) = (o1, r1, k1)" by (metis prod_cases3)
  have "map_of o1 k = map_of objs k"
    using s Cons.prems(2) by (auto simp: finish_write_key_def update_conv' split: option.splits if_splits)
  then show ?case using Cons.IH [of o1 r1 k1] Cons.prems s by simp
qed simp

lemma l1_step_written:
  assumes e: "map_of (l1_objects m) k = Some e" and w: "TTLLock_is_locked t (os_write_lock e)" and op: "\<not> writes_end k op"
  shows "map_of (l1_objects (l1_step S T (t, op) m)) k = Some e"
proof (cases op)
  case (ReserveRead keys)
  obtain objs ret ok where f: "fold (reserve_read_key t) keys (l1_objects m, [], []) = (objs, ret, ok)" by (metis prod_cases3)
  show ?thesis using reserve_read_fold(1) [OF f, of k] e w ReserveRead
    by (simp add: reserve_read_def f read_locked_def available_for_read_def)
next
  case (FinishRead keys)
  obtain objs ret ok need nkeys where f: "fold (finish_read_key t) keys (l1_objects m, [], [], [], []) = (objs, ret, ok, need, nkeys)"
    by (metis prod_cases5)
  have "l1_objects (fst (finish_read S t keys m)) = objs" by (simp add: finish_read_def f split: sum.split)
  then show ?thesis using finish_read_written [OF f e w] FinishRead by simp
next
  case (ReserveWrite keys temps layout mode)
  have "\<not> available_for_write t e" using w by (simp add: available_for_write_def)
  from reserve_write_keeps [OF e this] show ?thesis using ReserveWrite by simp
next
  case (FinishWrite keys)
  obtain objs ret ok where f: "fold (finish_write_key t) keys (l1_objects m, [], []) = (objs, ret, ok)" by (metis prod_cases3)
  have "k \<notin> set keys" using op FinishWrite by (simp add: writes_end_def)
  from finish_write_other [OF f this] show ?thesis using e FinishWrite by (simp add: finish_write_def f)
next
  case (Delete keys)
  obtain objs ret ok need where f: "fold (delete_key t) keys (l1_objects m, [], [], []) = (objs, ret, ok, need)" by (metis prod_cases4)
  have "l1_objects (fst (l1_delete S t keys m)) = objs" by (simp add: l1_delete_def f split: sum.split)
  then show ?thesis using delete_held [OF f e] w Delete by simp
next
  case Expand
  then show ?thesis using e by (simp add: l1_expand_def split: L1Allocator.split sum.split prod.split)
qed (use op in \<open>simp add: writes_end_def\<close>)

lemma l1_history_written:
  "map_of (l1_objects m) k = Some e \<Longrightarrow>
   \<forall>c \<in> set ops. TTLLock_is_locked (fst c) (os_write_lock e) \<and> \<not> writes_end k (snd c) \<Longrightarrow>
   map_of (l1_objects (fold (l1_step S T) ops m)) k = Some e"
proof (induction ops arbitrary: m)
  case (Cons c ops)
  have "map_of (l1_objects (l1_step S T (fst c, snd c) m)) k = Some e"
    using Cons.prems by (intro l1_step_written) simp_all
  then show ?case using Cons by simp
qed simp

text \<open>The entry of a key that \<^verbatim>\<open>reserve_write\<close> returned: its write lock is held until the end of its lease.\<close>

definition write_lease :: "int64 \<Rightarrow> 32 word \<Rightarrow> mem_id \<Rightarrow> L1ObjectState \<Rightarrow> bool" where
  "write_lease now ttl i entry \<longleftrightarrow> os_memory_obj entry = i \<and> sint (tl_counter (os_write_lock entry)) = 1 \<and>
     sint (tl_expiration_ms (os_write_lock entry)) = sint now + 1000 * uint ttl"

text \<open>A write lock has at most one holder, and all write locks have the lease length of the configuration.\<close>

definition write_lock_ok :: "32 word \<Rightarrow> L1ObjectState \<Rightarrow> bool" where
  "write_lock_ok ttl entry \<longleftrightarrow> lock_good (os_write_lock entry) \<and> sint (tl_counter (os_write_lock entry)) \<le> 1 \<and>
     sint (tl_ttl_ms (os_write_lock entry)) = 1000 * uint ttl"

lemma init_ttl:
  fixes ttl :: "32 word"
  shows "sint (tl_ttl_ms (TTLLock_init ttl)) = 1000 * uint ttl"
proof -
  have u: "uint ttl < 2 ^ 32" "0 \<le> uint ttl" using uint_bounded [of ttl] by simp_all
  have "uint (ucast ttl :: int64) = uint ttl" using u by (simp add: uint_up_ucast is_up)
  then have "uint (ucast ttl * 1000 :: int64) = uint ttl * 1000" using u by (simp add: uint_word_ariths(3))
  moreover have "signed_take_bit 63 (uint ttl * 1000) = uint ttl * 1000"
    by (rule signed_take_bit_int_eq_self) (use u order_trans [of "- (2 ^ 63)" 0 "uint ttl * 1000"] in simp_all)
  ultimately show ?thesis by (simp add: sint_uint TTLLock_init_def)
qed

lemma new_entry_lease:
  assumes "l1_write_ttl_seconds m \<noteq> 0" and "time_ok now"
  shows "write_lease now (l1_write_ttl_seconds m) i (new_entry now m tmp i)"
proof -
  have g: "lock_good (TTLLock_init (l1_write_ttl_seconds m))" by (rule lock_good_init(1) [OF assms(1)])
  have r: "lock_room now (TTLLock_init (l1_write_ttl_seconds m))" using assms(2) by (simp add: lock_room_def TTLLock_init_def)
  have "sint (tl_counter (TTLLock_init (l1_write_ttl_seconds m))) = 0" by (simp add: TTLLock_init_def)
  then show ?thesis using lock_fields [OF g r] by (simp add: write_lease_def new_entry_def init_ttl)
qed

lemma available_lease:
  assumes "write_lock_ok ttl e" and "available_for_write now e" and "time_ok now"
  shows "write_lease now ttl (os_memory_obj e) (e\<lparr>os_write_lock := TTLLock_lock now (os_write_lock e)\<rparr>)"
proof -
  have g: "lock_good (os_write_lock e)" and r: "lock_room now (os_write_lock e)"
    using assms by (simp_all add: write_lock_ok_def lock_room_def)
  have "lock_alive now (os_write_lock e) \<Longrightarrow> sint (tl_counter (os_write_lock e)) = 0"
    using assms(2) g by (auto simp: available_for_write_def TTLLock_is_locked_def lock_alive_def sint_order lock_good_def)
  then show ?thesis using lock_fields [OF g r] assms(1) by (simp add: write_lease_def write_lock_ok_def)
qed

text \<open>What the loop of \<^verbatim>\<open>reserve_write\<close> keeps: a key whose result is a success is in its lease.\<close>

definition leased :: "int64 \<Rightarrow> 32 word \<Rightarrow> ObjectKey \<Rightarrow> l1_objects \<Rightarrow> (ObjectKey \<times> L1OperationResult) list \<Rightarrow> bool" where
  "leased now ttl k objs ret \<longleftrightarrow> (\<forall>e. map_of objs k = Some e \<longrightarrow> write_lock_ok ttl e) \<and>
     (\<forall>i. map_of ret k = Some (SUCCESS, Some i) \<longrightarrow> (\<exists>e. map_of objs k = Some e \<and> write_lease now ttl i e))"

lemma locked_write_ok:
  assumes "write_lock_ok ttl e" and "available_for_write now e" and "time_ok now"
  shows "write_lock_ok ttl (e\<lparr>os_write_lock := TTLLock_lock now (os_write_lock e)\<rparr>)"
proof -
  have g: "lock_good (os_write_lock e)" and r: "lock_room now (os_write_lock e)"
    using assms by (simp_all add: write_lock_ok_def lock_room_def)
  show ?thesis
    using tl.lock_law [OF g r] lock_fields(3) [OF g r] available_lease [OF assms] assms(1)
    by (simp add: write_lock_ok_def write_lease_def)
qed

lemma reserve_write_key_leased:
  assumes "leased now ttl k objs ret" and "time_ok now"
    and s: "reserve_write_key now mode kt (objs, ret, ok, need) = (objs', ret', ok', need')"
  shows "leased now ttl k objs' ret'"
proof (cases "fst kt = k")
  case True
  then show ?thesis
    using assms locked_write_ok [OF _ _ assms(2), of ttl] available_lease [OF _ _ assms(2), of ttl]
    by (cases "map_of objs k") (auto simp: reserve_write_key_def leased_def update_conv' split: if_splits prod.splits)
next
  case False
  then have "map_of objs' k = map_of objs k" "map_of ret' k = map_of ret k"
    using s by (auto simp: reserve_write_key_def update_conv' split: option.splits if_splits prod.splits)
  then show ?thesis using assms(1) by (simp add: leased_def)
qed

lemma reserve_write_fold_leased:
  "fold (reserve_write_key now mode) kts (objs, ret, ok, need) = (objs', ret', ok', need') \<Longrightarrow>
   leased now ttl k objs ret \<Longrightarrow> time_ok now \<Longrightarrow> leased now ttl k objs' ret'"
proof (induction kts arbitrary: objs ret ok need)
  case (Cons kt kts)
  obtain o1 r1 k1 n1 where s: "reserve_write_key now mode kt (objs, ret, ok, need) = (o1, r1, k1, n1)" by (metis prod_cases4)
  show ?case
    using Cons.IH [of o1 r1 k1 n1] Cons.prems s reserve_write_key_leased [OF Cons.prems(2,3) s] by simp
qed simp

lemma add_entries_leased:
  assumes "add_entries now m kos (objs, ret, ok) = (objs', ret', ok')"
    and "\<forall>i. map_of ret k = Some (SUCCESS, Some i) \<longrightarrow> (\<exists>e. map_of objs k = Some e \<and> write_lease now (l1_write_ttl_seconds m) i e)"
    and "l1_write_ttl_seconds m \<noteq> 0" and "time_ok now"
  shows "\<forall>i. map_of ret' k = Some (SUCCESS, Some i) \<longrightarrow> (\<exists>e. map_of objs' k = Some e \<and> write_lease now (l1_write_ttl_seconds m) i e)"
  using assms(1,2)
proof (induction kos arbitrary: objs ret ok)
  case (Cons ko kos)
  obtain key tmp j where ko: "ko = ((key, tmp), j)" by (metis prod.collapse)
  show ?case
    by (rule Cons.IH [of "AList.update key (new_entry now m tmp j) objs" "AList.update key (SUCCESS, Some j) ret" "ok @ [key]"])
      (use Cons.prems new_entry_lease [OF assms(3,4)] in \<open>auto simp: ko add_entries_def update_conv'\<close>)
qed (simp add: add_entries_def)

lemma failed_result:
  "map_of (fold (\<lambda>(key, _). AList.update key (err, None)) need ret) k = Some (SUCCESS, Some i) \<Longrightarrow>
   map_of ret k = Some (SUCCESS, Some i)"
proof (induction need arbitrary: ret)
  case (Cons p need)
  have "map_of (AList.update (fst p) (err, None) ret) k = Some (SUCCESS, Some i)"
    by (rule Cons.IH) (use Cons.prems in \<open>simp add: case_prod_unfold\<close>)
  then show ?case by (simp add: update_conv' split: if_splits)
qed simp

lemma allocate_shape:
  assumes "L1MemoryManager_allocate S T layout b a = Inr (a', err, ids)" and "err \<noteq> SUCCESS"
  shows "ids = []"
proof -
  obtain p where "(case p of (a', objects) \<Rightarrow>
      case objects of None \<Rightarrow> Inr (a', OUT_OF_MEMORY, []) | Some ids \<Rightarrow> Inr (a', SUCCESS, ids)) = (Inr (a', err, ids) :: _ result)"
    using assms(1) unfolding L1MemoryManager_allocate_def bind_result_Inr by blast
  then show ?thesis using assms(2) by (simp split: prod.splits option.splits)
qed

lemma reserve_write_eqs:
  assumes f: "fold (reserve_write_key now mode) (zip keys temps) (l1_objects m, [], [], []) = (objs, ret, ok, need)"
  shows "need = [] \<Longrightarrow> reserve_write S T now keys temps layout mode m = (m\<lparr>l1_objects := objs\<rparr>, Inr ret)"
    and "need \<noteq> [] \<Longrightarrow> mode = Update \<Longrightarrow> reserve_write S T now keys temps layout mode m =
       (m\<lparr>l1_objects := objs\<rparr>, Inr (fold (\<lambda>(key, _). AList.update key (KEY_NOT_WRITABLE, None)) need ret))"
    and "need \<noteq> [] \<Longrightarrow> mode \<noteq> Update \<Longrightarrow>
       L1MemoryManager_allocate S T layout (int (length need)) (l1_memory m) = Inl x \<Longrightarrow>
       reserve_write S T now keys temps layout mode m = (m\<lparr>l1_objects := objs\<rparr>, Inl x)"
    and "need \<noteq> [] \<Longrightarrow> mode \<noteq> Update \<Longrightarrow>
       L1MemoryManager_allocate S T layout (int (length need)) (l1_memory m) = Inr (a, err, []) \<Longrightarrow> err \<noteq> SUCCESS \<Longrightarrow>
       reserve_write S T now keys temps layout mode m =
         (notify (on_keys_reserved_write ok) (m\<lparr>l1_objects := objs, l1_memory := a\<rparr>),
          Inr (fold (\<lambda>(key, _). AList.update key (OUT_OF_MEMORY, None)) need ret))"
    and "need \<noteq> [] \<Longrightarrow> mode \<noteq> Update \<Longrightarrow>
       L1MemoryManager_allocate S T layout (int (length need)) (l1_memory m) = Inr (a, SUCCESS, ids) \<Longrightarrow>
       add_entries now m (zip need ids) (objs, ret, ok) = (objs', ret', ok') \<Longrightarrow>
       reserve_write S T now keys temps layout mode m =
         (notify (on_keys_reserved_write ok') (m\<lparr>l1_objects := objs', l1_memory := a\<rparr>), Inr ret')"
  using f by (simp_all add: reserve_write_def Let_def)

lemma reserve_write_starts:
  assumes r: "reserve_write S T now keys temps layout mode m = (m0, Inr ret)" and ret: "map_of ret k = Some (SUCCESS, Some i)"
    and wl: "\<forall>e. map_of (l1_objects m) k = Some e \<longrightarrow> write_lock_ok (l1_write_ttl_seconds m) e"
    and t: "time_ok now" and ttl: "l1_write_ttl_seconds m \<noteq> 0"
  shows "\<exists>e. map_of (l1_objects m0) k = Some e \<and> write_lease now (l1_write_ttl_seconds m) i e"
proof -
  obtain objs ret1 ok need where f: "fold (reserve_write_key now mode) (zip keys temps) (l1_objects m, [], [], []) = (objs, ret1, ok, need)"
    by (metis prod_cases4)
  have "leased now (l1_write_ttl_seconds m) k (l1_objects m) []" using wl by (simp add: leased_def)
  from reserve_write_fold_leased [OF f this t]
  have L: "\<forall>i. map_of ret1 k = Some (SUCCESS, Some i) \<longrightarrow> (\<exists>e. map_of objs k = Some e \<and> write_lease now (l1_write_ttl_seconds m) i e)"
    by (simp add: leased_def)
  note eqs = reserve_write_eqs [OF f, of S T layout]
  consider "need = []" | "need \<noteq> []" "mode = Update" | "need \<noteq> []" "mode \<noteq> Update" by blast
  then show ?thesis
  proof cases
    case 1
    then show ?thesis using r ret L eqs(1) by auto
  next
    case 2
    with r eqs(2) have m0: "m0 = m\<lparr>l1_objects := objs\<rparr>"
      "ret = fold (\<lambda>(key, _). AList.update key (KEY_NOT_WRITABLE, None)) need ret1" by simp_all
    from failed_result [OF ret [unfolded m0(2)]] L show ?thesis by (simp add: m0(1))
  next
    case 3
    obtain a err ids where al: "L1MemoryManager_allocate S T layout (int (length need)) (l1_memory m) = Inr (a, err, ids)"
      using r eqs(3) [OF 3] by (cases "L1MemoryManager_allocate S T layout (int (length need)) (l1_memory m)") auto
    show ?thesis
    proof (cases "err = SUCCESS")
      case True
      obtain objs' ret' ok' where ad: "add_entries now m (zip need ids) (objs, ret1, ok) = (objs', ret', ok')" by (metis prod_cases3)
      show ?thesis using r ret eqs(5) [OF 3 al [unfolded True] ad] add_entries_leased [OF ad L ttl t] by auto
    next
      case False
      have "reserve_write S T now keys temps layout mode m =
         (notify (on_keys_reserved_write ok) (m\<lparr>l1_objects := objs, l1_memory := a\<rparr>),
          Inr (fold (\<lambda>(key, _). AList.update key (OUT_OF_MEMORY, None)) need ret1))"
        using eqs(4) [OF 3 _ False] al allocate_shape [OF al False] by simp
      with r have m0: "l1_objects m0 = objs" "ret = fold (\<lambda>(key, _). AList.update key (OUT_OF_MEMORY, None)) need ret1" by auto
      from failed_result [OF ret [unfolded m0(2)]] L show ?thesis by (simp add: m0(1))
    qed
  qed
qed

section \<open>Start and error paths\<close>

lemma L1Manager_init_ok:
  assumes D: "SortedList_documented S" "Torch_documented T" and sz: "0 < sz" "0 < init_sz" and al: "align = 2 ^ k" "k \<le> 26"
    and m: "L1Manager_init S T (L1MemoryManagerConfig_init sz use_lazy init_sz align) wt rt = Inr m"
  shows "l1_ok S T m" and "l1_write_ttl_seconds m = wt" and "l1_objects m = []"
proof -
  obtain a where a: "create_memory_allocator S T (L1MemoryManagerConfig_init sz use_lazy init_sz align) = Inr a"
    and m': "m = \<lparr>l1_objects = [], l1_memory = a, l1_write_ttl_seconds = wt, l1_read_ttl_seconds = rt, l1_listeners = []\<rparr>"
    using m by (auto simp: L1Manager_init_def)
  have "l1_alloc_ok S T a \<and> l1_in_use a = {}"
  proof (cases use_lazy)
    case True
    obtain lz w where lw: "LazyMemoryAllocator_init S (min init_sz sz) sz align = Inr (lz, w)" "lazy_ok (lz, w)"
      using lazy_init_ok [OF D(1) _ _ al, of "min init_sz sz" sz] sz by (metis min.cobounded2 min_less_iff_conj)
    then have "mw_heap w = []" by (auto simp: LazyMemoryAllocator_init_def Let_def)
    then show ?thesis using a lw True D
      by (auto simp: create_memory_allocator_def L1MemoryManagerConfig_init_def l1_alloc_ok_def l1_in_use_def ta_in_use_def)
  next
    case False
    let ?kw = "\<lparr>kw_use_paging = False, kw_shapes = None, kw_dtypes = None, kw_fmt = None\<rparr>"
    obtain p where p: "make_pool S T sz ALIGN_BYTES ?kw = Inr p" by (simp add: make_pool_def)
    have "paging_ok T ?kw" by (simp add: paging_ok_def)
    note i = make_pool_ok [OF D sz(1) this p]
    have "\<exists>w. p = TensorPool w" using p by (auto simp: make_pool_def)
    then show ?thesis using a False D i p
      by (auto simp: create_memory_allocator_def L1MemoryManagerConfig_init_def MixedMemoryAllocator_init_def
          l1_alloc_ok_def l1_in_use_def mixed_inv_def)
  qed
  then show "l1_ok S T m" "l1_write_ttl_seconds m = wt" "l1_objects m = []" by (simp_all add: m' l1_ok_def all_memory_objs_def)
qed

lemma finish_read_no_temporary:
  assumes "fold (finish_read_key now) keys (objs, ret, ok, need, nkeys) = (objs', ret', ok', need', nkeys')"
    and "\<forall>k e. map_of objs k = Some e \<longrightarrow> \<not> os_is_temporary e"
  shows "need' = need \<and> nkeys' = nkeys"
  using assms
proof (induction keys arbitrary: objs ret ok need nkeys)
  case (Cons key keys)
  obtain o1 r1 k1 n1 d1 where s: "finish_read_key now key (objs, ret, ok, need, nkeys) = (o1, r1, k1, n1, d1)" by (metis prod_cases5)
  have "n1 = need \<and> d1 = nkeys \<and> (\<forall>k e. map_of o1 k = Some e \<longrightarrow> \<not> os_is_temporary e)"
    using s Cons.prems(2)
    by (auto simp: finish_read_key_def Let_def update_conv' split: option.splits if_splits)
  with Cons.IH [of o1 r1 k1 n1 d1] Cons.prems s show ?case by simp
qed simp

lemma delete_none:
  assumes "\<forall>k \<in> set keys. case map_of objs k of None \<Rightarrow> True
      | Some e \<Rightarrow> TTLLock_is_locked now (os_read_lock e) \<or> TTLLock_is_locked now (os_write_lock e)"
  shows "\<exists>ret'. fold (delete_key now) keys (objs, ret, [], []) = (objs, ret', [], [])"
  using assms
proof (induction keys arbitrary: ret)
  case (Cons key keys)
  have "\<exists>r1. delete_key now key (objs, ret, [], []) = (objs, r1, [], [])"
    using Cons.prems by (auto simp: delete_key_def split: option.splits)
  then show ?case using Cons by auto
qed simp

lemma mixed_free_nothing: "L1MemoryManager_free S [] (MixedAlloc mx) = Inl IndexError"
  by (simp add: L1MemoryManager_free_def MixedMemoryAllocator_batched_free_def)

section \<open>Properties\<close>

text \<open>
  \<^verbatim>\<open>reserve_read\<close> answers every requested key by the state before the call: a missing key
  is \<^verbatim>\<open>KEY_NOT_EXIST\<close>, a write-locked one \<^verbatim>\<open>KEY_NOT_READABLE\<close>, and any other key gives its memory
  object. Exactly the readable keys get as many read locks as the key was named, no other
  entry, and no memory, changes, and the listeners hear of exactly the successful keys.
\<close>

lemma reserve_read_exact:
  "case reserve_read now keys m of (m', ret) \<Rightarrow>
     map_of ret k = (if k \<in> set keys then Some (read_result now (map_of (l1_objects m) k)) else None) \<and>
     map_of (l1_objects m') k = map_option (read_locked now (count_list keys k)) (map_of (l1_objects m) k) \<and>
     l1_memory m' = l1_memory m \<and>
     l1_listeners m' = map (on_keys_reserved_read
         (filter (\<lambda>key. fst (read_result now (map_of (l1_objects m) key)) = SUCCESS) keys)) (l1_listeners m)"
proof -
  obtain objs ret ok where f: "fold (reserve_read_key now) keys (l1_objects m, [], []) = (objs, ret, ok)" by (metis prod_cases3)
  show ?thesis using reserve_read_fold(1,2) [OF f, of k] reserve_read_fold(3) [OF f] by (simp add: reserve_read_def f notify_def)
qed

text \<open>
  Property C2. A reader keeps its object for the length of its lease. After a successful
  \<^verbatim>\<open>reserve_read\<close>, and as long as the calls of \<^verbatim>\<open>finish_read\<close> do not release more holders than there
  are, no sequence of other calls at times within the lease (reads, writes, deletions by the
  eviction thread, growth of the allocator) removes the entry, gives it other memory, frees that
  memory or lets a writer in. \<^verbatim>\<open>clear\<close> is excluded: it frees the memory of locked objects too.
\<close>

theorem reader_protected:
  assumes "l1_ok S T m" and "map_of (l1_objects m) k = Some e" and "lock_good (os_read_lock e)"
    and "reserve_read t0 keys m = (m0, ret)" and "map_of ret k = Some (SUCCESS, Some i)" and "time_ok t0"
    and "sint (tl_counter (os_read_lock e)) + int (count_list keys k + new_readers k ops) < 2 ^ 63"
    and "still_held k (lock_count t0 (os_read_lock e) + count_list keys k) ops"
    and "\<forall>c \<in> set ops. l1_op_ok T c \<and> in_lease (sint t0) (sint t0 + sint (tl_ttl_ms (os_read_lock e))) (fst c)"
    and "in_lease (sint t0) (sint t0 + sint (tl_ttl_ms (os_read_lock e))) t"
  shows "let m' = fold (l1_step S T) ops m0 in
     i \<in> l1_in_use (l1_memory m') \<and> unsafe_read t [k] m' = [(k, SUCCESS, Some i)] \<and>
     reserve_write S T t [k] [b] layout mode m' = (m', Inr [(k, KEY_NOT_WRITABLE, None)]) \<and>
     snd (l1_delete S t [k] m') \<in> {Inr [(k, KEY_IS_LOCKED)], Inl IndexError}"
proof -
  define m' where "m' = fold (l1_step S T) ops m0"
  let ?D = "sint t0 + sint (tl_ttl_ms (os_read_lock e))"
  obtain e0 where e0: "map_of (l1_objects m0) k = Some e0"
    "held (sint t0) ?D i (lock_count t0 (os_read_lock e) + count_list keys k) (new_readers k ops) e0"
    using reserve_read_starts [OF assms(4,5,2,3,6,7)] by blast
  have "\<forall>(t, op) \<in> set ops. in_lease (sint t0) ?D t" using assms(9) by fastforce
  from l1_history_held [OF e0 assms(8) this, of S T] obtain e' c'
    where e': "map_of (l1_objects m') k = Some e'" "held (sint t0) ?D i c' 0 e'" "0 < c'" unfolding m'_def by blast
  note locked = held_read_locked [OF e'(2) assms(10) e'(3)] and unw = held_not_written [OF e'(2) assms(10)]
  have i: "os_memory_obj e' = i" using e'(2) by (simp add: held_def)
  have "l1_ok S T m0" using reserve_read_ok [OF assms(1), of t0 keys] assms(4) by simp
  then have ok: "l1_ok S T m'" using l1_history_ok assms(9) by (auto simp: m'_def)
  have "i \<in> set (all_memory_objs m')" using map_of_SomeD [OF e'(1)] i by (force simp: all_memory_objs_def)
  then have "i \<in> l1_in_use (l1_memory m')" using ok by (simp add: l1_ok_def)
  moreover have "unsafe_read t [k] m' = [(k, SUCCESS, Some i)]" using e'(1) locked i by (simp add: unsafe_read_def)
  moreover have "reserve_write S T t [k] [b] layout mode m' = (m', Inr [(k, KEY_NOT_WRITABLE, None)])"
    using e'(1) locked by (simp add: reserve_write_def reserve_write_key_def available_for_write_def)
  moreover have "snd (l1_delete S t [k] m') \<in> {Inr [(k, KEY_IS_LOCKED)], Inl IndexError}"
    using l1_ok_free [OF ok, of "l1_objects m'" "[]"] ok e'(1) locked
    by (auto simp: l1_delete_def delete_key_def l1_ok_def split: sum.splits)
  ultimately show ?thesis by (simp add: m'_def)
qed



text \<open>
  Property C31. With the mixed allocator, \<^verbatim>\<open>finish_read\<close> raises \<^verbatim>\<open>IndexError\<close> whenever it has no temporary
  object to free, because the allocator reads the first element of the empty list. The read
  locks are released by then, but the listeners are not told. \<^verbatim>\<open>delete\<close> fails in the same way when
  every key is missing or locked.
\<close>

theorem mixed_finish_read_raises:
  assumes "l1_memory m = MixedAlloc mx" and "\<forall>k e. map_of (l1_objects m) k = Some e \<longrightarrow> \<not> os_is_temporary e"
  shows "(\<exists>objs. finish_read S now keys m = (m\<lparr>l1_objects := objs\<rparr>, Inl IndexError)) \<and>
    ((\<forall>k \<in> set keys. case map_of (l1_objects m) k of None \<Rightarrow> True
        | Some e \<Rightarrow> TTLLock_is_locked now (os_read_lock e) \<or> TTLLock_is_locked now (os_write_lock e)) \<longrightarrow>
     l1_delete S now keys m = (m, Inl IndexError))"
proof -
  obtain objs ret ok need nkeys where f: "fold (finish_read_key now) keys (l1_objects m, [], [], [], []) = (objs, ret, ok, need, nkeys)"
    by (metis prod_cases5)
  have "need = []" using finish_read_no_temporary [OF f assms(2)] by simp
  then have "\<exists>objs. finish_read S now keys m = (m\<lparr>l1_objects := objs\<rparr>, Inl IndexError)"
    using assms(1) mixed_free_nothing by (auto simp: finish_read_def f)
  moreover have "l1_delete S now keys m = (m, Inl IndexError)"
    if "\<forall>k \<in> set keys. case map_of (l1_objects m) k of None \<Rightarrow> True
        | Some e \<Rightarrow> TTLLock_is_locked now (os_read_lock e) \<or> TTLLock_is_locked now (os_write_lock e)"
    using delete_none [OF that, of "[]"] assms(1) mixed_free_nothing by (auto simp: l1_delete_def)
  ultimately show ?thesis by blast
qed

section \<open>Witnesses\<close>

definition demo_key :: "8 word \<Rightarrow> ObjectKey" where
  "demo_key h = \<lparr>ok_chunk_hash = [h], ok_model_name = ''m'', ok_kv_rank = 0\<rparr>"

definition demo_layout :: MemoryLayoutDesc where
  "demo_layout = \<lparr>ld_shapes = [[4]], ld_dtypes = [''float16'']\<rparr>"

definition demo_init :: "bool \<Rightarrow> L1Manager result" where
  "demo_init use_lazy = L1Manager_init insertion_list plain_torch (L1MemoryManagerConfig_init 100000000 use_lazy 1000 4096) 600 300"

definition demo_written :: "(int64 \<times> l1_op) list" where
  "demo_written = [(1000, ReserveWrite [demo_key 1, demo_key 2] [False, True] demo_layout New), (2000, FinishWrite [demo_key 1, demo_key 2])]"

definition demo_manager :: "bool \<Rightarrow> L1Manager" where
  "demo_manager use_lazy = fold (l1_step insertion_list plain_torch) demo_written (projr (demo_init use_lazy))"

definition demo_entry :: L1ObjectState where
  "demo_entry =
     \<lparr>os_memory_obj = 0, os_write_lock = \<lparr>tl_counter = 0, tl_expiration_ms = 601000, tl_ttl_ms = 600000\<rparr>,
      os_read_lock = \<lparr>tl_counter = 0, tl_expiration_ms = 0, tl_ttl_ms = 300000\<rparr>, os_is_temporary = False\<rparr>"

lemma demo_init_Inr: "demo_init use_lazy = Inr (projr (demo_init use_lazy))"
proof -
  have "isl (demo_init True) = False" "isl (demo_init False) = False" by code_simp+
  then show ?thesis by (cases use_lazy) (simp_all add: sum.expand)
qed

lemma demo_layout_ok: "layout_ok plain_torch demo_layout"
  by code_simp

lemma demo_written_ok: "\<forall>c \<in> set demo_written. l1_op_ok plain_torch c"
  by (simp add: demo_written_def demo_layout_ok demo_key_def)

lemma demo_manager_ok: "l1_ok insertion_list plain_torch (demo_manager use_lazy)"
  unfolding demo_manager_def
  by (rule l1_history_ok [OF L1Manager_init_ok(1) [OF insertion_list_documented plain_torch_documented, where align = 4096 and k = 12]])
    (use demo_init_Inr [of use_lazy, unfolded demo_init_def] demo_written_ok in \<open>simp_all add: demo_init_def\<close>)

lemma demo_entry: "map_of (l1_objects (demo_manager True)) (demo_key 1) = Some demo_entry"
  by code_simp

definition demo_traffic :: "(int64 \<times> l1_op) list" where
  "demo_traffic =
     [(3500, ReserveRead [demo_key 1]), (4000, Delete [demo_key 1, demo_key 2]), (5000, Expand),
      (6000, ReserveWrite [demo_key 1, demo_key 3] [False, False] demo_layout All), (7000, FinishRead [demo_key 1])]"

lemma demo_traffic_ok: "\<forall>c \<in> set demo_traffic. l1_op_ok plain_torch c"
  by (simp add: demo_traffic_def demo_layout_ok demo_key_def)


theorem reader_protected_witness:
  "unsafe_read 8000 [demo_key 1] (fold (l1_step insertion_list plain_torch) demo_traffic
     (fst (reserve_read 3000 [demo_key 1] (demo_manager True)))) = [(demo_key 1, SUCCESS, Some 0)]"
proof -
  define m0 ret where "m0 = fst (reserve_read 3000 [demo_key 1] (demo_manager True))"
    and "ret = snd (reserve_read 3000 [demo_key 1] (demo_manager True))"
  have r: "reserve_read 3000 [demo_key 1] (demo_manager True) = (m0, ret)" by (simp add: m0_def ret_def)
  have ret: "map_of ret (demo_key 1) = Some (SUCCESS, Some 0)" unfolding ret_def by code_simp
  have g: "lock_good (os_read_lock demo_entry)" by (simp add: demo_entry_def lock_good_def)
  have room: "sint (tl_counter (os_read_lock demo_entry)) +
      int (count_list [demo_key 1] (demo_key 1) + new_readers (demo_key 1) demo_traffic) < 2 ^ 63"
    by (simp add: demo_entry_def demo_traffic_def demo_key_def)
  have held: "still_held (demo_key 1) (lock_count 3000 (os_read_lock demo_entry) + count_list [demo_key 1] (demo_key 1)) demo_traffic"
    by (simp add: demo_traffic_def demo_key_def)
  have lease: "\<forall>c \<in> set demo_traffic. l1_op_ok plain_torch c \<and>
      in_lease (sint (3000 :: int64)) (sint (3000 :: int64) + sint (tl_ttl_ms (os_read_lock demo_entry))) (fst c)"
    using demo_traffic_ok by (simp add: demo_traffic_def demo_entry_def in_lease_def time_ok_def)
  have t: "time_ok 3000" "in_lease (sint (3000 :: int64)) (sint (3000 :: int64) + sint (tl_ttl_ms (os_read_lock demo_entry))) 8000"
    by (simp_all add: demo_entry_def in_lease_def time_ok_def)
  from reader_protected [OF demo_manager_ok demo_entry g r ret t(1) room held lease t(2), where b = False and layout = demo_layout and mode = All]
  show ?thesis by (simp add: Let_def m0_def)
qed


theorem mixed_finish_read_raises_witness:
  "\<exists>objs. finish_read insertion_list 4000 [demo_key 1]
       (fst (reserve_read 3000 [demo_key 1] (l1_step insertion_list plain_torch (2500, Delete [demo_key 2]) (demo_manager False)))) =
     ((fst (reserve_read 3000 [demo_key 1] (l1_step insertion_list plain_torch (2500, Delete [demo_key 2]) (demo_manager False))))
        \<lparr>l1_objects := objs\<rparr>, Inl IndexError)"
proof -
  define m where "m = fst (reserve_read 3000 [demo_key 1] (l1_step insertion_list plain_torch (2500, Delete [demo_key 2]) (demo_manager False)))"
  have "(case l1_memory m of MixedAlloc _ \<Rightarrow> True | _ \<Rightarrow> False)" unfolding m_def by code_simp
  then obtain mx where mx: "l1_memory m = MixedAlloc mx" by (auto split: L1Allocator.splits)
  have "\<forall>(k, e) \<in> set (l1_objects m). \<not> os_is_temporary e" unfolding m_def by code_simp
  then have "\<forall>k e. map_of (l1_objects m) k = Some e \<longrightarrow> \<not> os_is_temporary e" by (auto dest: map_of_SomeD)
  from mixed_finish_read_raises [OF mx this] show ?thesis by (simp add: m_def)
qed

end
