(* ===== verification/Dist_Storage.thy ===== *)
theory Dist_Storage
  imports L1_Manager
begin

text \<open>
  The storage manager of the multiprocess server: \<^verbatim>\<open>StorageManager\<close> of
  \<^verbatim>\<open>lmcache/v1/distributed/storage_manager.py\<close>, \<^verbatim>\<open>EvictionController\<close> of
  \<^verbatim>\<open>storage_controllers/eviction_controller.py\<close> and the configuration classes of \<^verbatim>\<open>config.py\<close>.

  The eviction thread is a step that may run between any two calls. A call that uses the L1
  manager twice reads the clock twice (\<open>now1\<close>, \<open>now2\<close>). Shown: a prefetch locks exactly the longest
  readable prefix of its keys, and an eviction round removes exactly the unlocked candidates.
\<close>

section \<open>Configuration\<close>

record L1ManagerConfig =
  lc_memory_config :: L1MemoryManagerConfig
  lc_write_ttl_seconds :: "32 word"
  lc_read_ttl_seconds :: "32 word"

record EvictionConfig =
  ec_eviction_policy :: string
  ec_trigger_watermark :: rat
  ec_eviction_ratio :: rat

record StorageManagerConfig =
  sc_l1_manager_config :: L1ManagerConfig
  sc_eviction_config :: EvictionConfig

text \<open>The parsed command line. Sizes in GB and the ratios are floating point numbers in the source.\<close>

record storage_args =
  arg_l1_size_gb :: rat
  arg_l1_use_lazy :: bool
  arg_l1_init_size_gb :: int
  arg_l1_align_bytes :: int
  arg_l1_write_ttl_seconds :: "32 word"
  arg_l1_read_ttl_seconds :: "32 word"
  arg_eviction_policy :: string
  arg_eviction_trigger_watermark :: rat
  arg_eviction_ratio :: rat

text \<open>\<^verbatim>\<open>int(x)\<close> rounds towards zero.\<close>

definition int_of :: "rat \<Rightarrow> int" where
  "int_of x = (if x < 0 then \<lceil>x\<rceil> else \<lfloor>x\<rfloor>)"

definition parse_args_to_config :: "storage_args \<Rightarrow> StorageManagerConfig" where
  "parse_args_to_config args =
     \<lparr>sc_l1_manager_config =
        \<lparr>lc_memory_config =
           L1MemoryManagerConfig_init (int_of (arg_l1_size_gb args * 2 ^ 30)) (arg_l1_use_lazy args)
             (arg_l1_init_size_gb args * 2 ^ 30) (arg_l1_align_bytes args),
         lc_write_ttl_seconds = arg_l1_write_ttl_seconds args,
         lc_read_ttl_seconds = arg_l1_read_ttl_seconds args\<rparr>,
      sc_eviction_config =
        \<lparr>ec_eviction_policy = arg_eviction_policy args,
         ec_trigger_watermark = arg_eviction_trigger_watermark args,
         ec_eviction_ratio = arg_eviction_ratio args\<rparr>\<rparr>"

section \<open>Storage manager\<close>

text \<open>
  The policy of the eviction controller is the listener that its constructor registers, so it is
  the first listener of the L1 manager. \<open>sm_stopped\<close> is the stop flag of the controller.
\<close>

record StorageManager =
  sm_l1_manager :: L1Manager
  sm_eviction_config :: EvictionConfig
  sm_stopped :: bool

definition EvictionController_init :: "EvictionConfig \<Rightarrow> L1Manager \<Rightarrow> L1Manager result" where
  "EvictionController_init config m =
     bind_result (CreateEvictionPolicy (ec_eviction_policy config)) (\<lambda>policy. Inr (register_listener policy m))"

definition StorageManager_init :: "SortedList_ops \<Rightarrow> Torch \<Rightarrow> StorageManagerConfig \<Rightarrow> StorageManager result" where
  "StorageManager_init S T config =
     (let lc = sc_l1_manager_config config
      in bind_result (L1Manager_init S T (lc_memory_config lc) (lc_write_ttl_seconds lc) (lc_read_ttl_seconds lc)) (\<lambda>m.
         bind_result (EvictionController_init (sc_eviction_config config) m) (\<lambda>m'.
           Inr \<lparr>sm_l1_manager = m', sm_eviction_config = sc_eviction_config config, sm_stopped = False\<rparr>)))"

text \<open>A method of the L1 manager, called by the storage manager.\<close>

definition on_l1 :: "(L1Manager \<Rightarrow> L1Manager \<times> 'a) \<Rightarrow> StorageManager \<Rightarrow> StorageManager \<times> 'a" where
  "on_l1 f sm = (case f (sm_l1_manager sm) of (m, r) \<Rightarrow> (sm\<lparr>sm_l1_manager := m\<rparr>, r))"

definition StorageManager_reserve_write ::
  "SortedList_ops \<Rightarrow> Torch \<Rightarrow> int64 \<Rightarrow> ObjectKey list \<Rightarrow> MemoryLayoutDesc \<Rightarrow> write_mode \<Rightarrow> StorageManager \<Rightarrow>
   StorageManager \<times> (ObjectKey \<times> mem_id) list result"
where
  "StorageManager_reserve_write S T now keys layout_desc mode sm =
     (case on_l1 (reserve_write S T now keys (replicate (length keys) False) layout_desc mode) sm of
        (sm', Inl e) \<Rightarrow> (sm', Inl e)
      | (sm', Inr reserve_result) \<Rightarrow>
          (sm', Inr (List.map_filter (\<lambda>(k, e, m). map_option (Pair k) m) reserve_result)))"

definition StorageManager_finish_write :: "int64 \<Rightarrow> ObjectKey list \<Rightarrow> StorageManager \<Rightarrow> StorageManager" where
  "StorageManager_finish_write now keys sm = fst (on_l1 (finish_write now keys) sm)"

text \<open>
  The generator of \<^verbatim>\<open>read_prefetched_results\<close> up to its \<^verbatim>\<open>yield\<close>, with the keys it found, and from the
  \<^verbatim>\<open>yield\<close> on. The generator swallows an exception of the \<^verbatim>\<open>with\<close> body, so the statement after the
  \<^verbatim>\<open>with\<close> runs next in every case.
\<close>

definition read_prefetched_enter ::
  "int64 \<Rightarrow> ObjectKey list \<Rightarrow> StorageManager \<Rightarrow> mem_id list option \<times> ObjectKey list \<times> bool"
where
  "read_prefetched_enter now keys sm =
     (let read_results = unsafe_read now keys (sm_l1_manager sm);
          good = List.map_filter (\<lambda>(k, e, ob). map_option (Pair k) ob) read_results;
          all_good = (\<forall>(k, e, ob) \<in> set read_results. ob \<noteq> None)
      in (if all_good then Some (map snd good) else None, map fst good, all_good))"

definition read_prefetched_exit ::
  "SortedList_ops \<Rightarrow> int64 \<Rightarrow> bool \<Rightarrow> ObjectKey list \<Rightarrow> bool \<Rightarrow> StorageManager \<Rightarrow> StorageManager \<times> unit result"
where
  "read_prefetched_exit S now all_good good_keys successfully_yielded sm =
     (if \<not> all_good \<or> \<not> successfully_yielded
      then (case on_l1 (finish_read S now good_keys) sm of (sm', r) \<Rightarrow> (sm', bind_result r (\<lambda>_. Inr ())))
      else (sm, Inr ()))"

definition finish_read_prefetched ::
  "SortedList_ops \<Rightarrow> int64 \<Rightarrow> ObjectKey list \<Rightarrow> StorageManager \<Rightarrow> StorageManager \<times> unit result"
where
  "finish_read_prefetched S now keys sm =
     (case on_l1 (finish_read S now keys) sm of (sm', r) \<Rightarrow> (sm', bind_result r (\<lambda>_. Inr ())))"

text \<open>The loop that counts hits and stops at the first key that is not reserved.\<close>

fun hit_count :: "(ObjectKey \<times> L1OperationResult) list \<Rightarrow> ObjectKey list \<Rightarrow> nat" where
  "hit_count l1_read_result [] = 0"
| "hit_count l1_read_result (key # keys) =
     (case map_of l1_read_result key of
        None \<Rightarrow> 0
      | Some (err, ob) \<Rightarrow> if err \<noteq> SUCCESS then 0 else Suc (hit_count l1_read_result keys))"

definition submit_prefetch_task ::
  "SortedList_ops \<Rightarrow> int64 \<Rightarrow> int64 \<Rightarrow> ObjectKey list \<Rightarrow> StorageManager \<Rightarrow> StorageManager \<times> nat result"
where
  "submit_prefetch_task S now1 now2 keys sm =
     (case on_l1 (reserve_read now1 keys) sm of
        (sm1, l1_read_result) \<Rightarrow>
          let hits = hit_count l1_read_result keys;
              skipped_keys = filter (\<lambda>key. case map_of l1_read_result key of None \<Rightarrow> False | Some (err, ob) \<Rightarrow> ob \<noteq> None)
                               (drop hits keys)
          in if skipped_keys \<noteq> []
             then (case on_l1 (finish_read S now2 skipped_keys) sm1 of (sm2, r) \<Rightarrow> (sm2, bind_result r (\<lambda>_. Inr hits)))
             else (sm1, Inr hits))"

definition query_prefetch_status :: "nat \<Rightarrow> nat option" where
  "query_prefetch_status prefix_hit_chunks = Some prefix_hit_chunks"

definition StorageManager_clear :: "SortedList_ops \<Rightarrow> StorageManager \<Rightarrow> StorageManager \<times> unit result" where
  "StorageManager_clear S sm = on_l1 (l1_clear S) sm"

definition StorageManager_close :: "SortedList_ops \<Rightarrow> StorageManager \<Rightarrow> StorageManager \<times> unit result" where
  "StorageManager_close S sm = on_l1 (l1_close S) (sm\<lparr>sm_stopped := True\<rparr>)"

definition StorageManager_memcheck :: "int64 \<Rightarrow> StorageManager \<Rightarrow> bool \<times> nat \<times> nat \<times> nat" where
  "StorageManager_memcheck now sm = l1_memcheck now (sm_l1_manager sm)"

section \<open>Eviction\<close>

definition execute_eviction_action ::
  "SortedList_ops \<Rightarrow> int64 \<Rightarrow> ObjectKey EvictionAction \<Rightarrow> StorageManager \<Rightarrow> StorageManager \<times> unit result"
where
  "execute_eviction_action S now action sm =
     (case on_l1 (l1_delete S now (ea_keys action)) sm of (sm', r) \<Rightarrow> (sm', bind_result r (\<lambda>_. Inr ())))"

fun execute_eviction_actions ::
  "SortedList_ops \<Rightarrow> int64 \<Rightarrow> ObjectKey EvictionAction list \<Rightarrow> StorageManager \<Rightarrow> StorageManager \<times> unit result"
where
  "execute_eviction_actions S now [] sm = (sm, Inr ())"
| "execute_eviction_actions S now (action # actions) sm =
     (case execute_eviction_action S now action sm of
        (sm', Inl e) \<Rightarrow> (sm', Inl e)
      | (sm', Inr _) \<Rightarrow> execute_eviction_actions S now actions sm')"

text \<open>
  One iteration of \<^verbatim>\<open>_eviction_loop\<close>, after its sleep. An exception ends the thread. Both
  destinations are executed as a deletion.
\<close>

definition eviction_round :: "SortedList_ops \<Rightarrow> int64 \<Rightarrow> StorageManager \<Rightarrow> StorageManager \<times> unit result" where
  "eviction_round S now sm =
     (case l1_get_memory_usage (sm_l1_manager sm) of
        Inl e \<Rightarrow> (sm, Inl e)
      | Inr (used_bytes, total_bytes) \<Rightarrow>
          let usage = (if total_bytes = 0 then 0 else of_int used_bytes / of_int total_bytes)
          in if usage < ec_trigger_watermark (sm_eviction_config sm) then (sm, Inr ())
             else (case l1_listeners (sm_l1_manager sm) of
                     [] \<Rightarrow> (sm, Inr ())
                   | policy # _ \<Rightarrow>
                       execute_eviction_actions S now
                         (get_eviction_actions (ec_eviction_ratio (sm_eviction_config sm)) policy) sm))"

section \<open>Tables of the L1 manager\<close>

text \<open>What \<^verbatim>\<open>finish_read\<close> does to the entries of distinct keys when no object is temporary.\<close>

definition finishable :: "int64 \<Rightarrow> L1ObjectState \<Rightarrow> bool" where
  "finishable now entry \<longleftrightarrow> \<not> TTLLock_is_locked now (os_write_lock entry) \<and> TTLLock_is_locked now (os_read_lock entry)"

definition read_finished :: "int64 \<Rightarrow> L1ObjectState \<Rightarrow> L1ObjectState" where
  "read_finished now entry =
     (if finishable now entry then entry\<lparr>os_read_lock := TTLLock_unlock (os_read_lock entry)\<rparr> else entry)"

definition no_temporary :: "l1_objects \<Rightarrow> bool" where
  "no_temporary objs \<longleftrightarrow> (\<forall>k e. map_of objs k = Some e \<longrightarrow> \<not> os_is_temporary e)"

lemma finish_read_fold:
  assumes "fold (finish_read_key now) keys (objs, ret, ok, need, nkeys) = (objs', ret', ok', need', nkeys')"
    and "no_temporary objs" and "distinct keys"
  shows "map_of objs' k = (if k \<in> set keys then map_option (read_finished now) (map_of objs k) else map_of objs k) \<and>
     no_temporary objs' \<and> need' = need \<and> nkeys' = nkeys"
  using assms
proof (induction keys arbitrary: objs ret ok need nkeys)
  case (Cons key keys)
  obtain o1 r1 k1 n1 d1 where s: "finish_read_key now key (objs, ret, ok, need, nkeys) = (o1, r1, k1, n1, d1)" by (metis prod_cases5)
  have n1: "n1 = need \<and> d1 = nkeys \<and> (\<forall>k. map_of o1 k = (if k = key then map_option (read_finished now) (map_of objs k) else map_of objs k))"
    using s Cons.prems(2)
    by (auto simp: finish_read_key_def Let_def update_conv' no_temporary_def read_finished_def finishable_def
        split: option.splits if_splits)
  have "\<not> os_is_temporary (read_finished now e)" if "\<not> os_is_temporary e" for e
    using that by (simp add: read_finished_def)
  then have "no_temporary o1" using n1 Cons.prems(2) by (auto simp: no_temporary_def)
  with Cons.IH [of o1 r1 k1 n1 d1] Cons.prems s n1 show ?case by auto
qed simp

lemma lazy_free_nothing: "L1MemoryManager_free S [] (LazyAlloc lz w) = Inr (LazyAlloc lz w)"
  by (simp add: L1MemoryManager_free_def LazyMemoryAllocator_batched_free_def TensorMemoryAllocator_batched_free_def)

definition unlocked :: "int64 \<Rightarrow> L1ObjectState \<Rightarrow> bool" where
  "unlocked now entry \<longleftrightarrow> \<not> TTLLock_is_locked now (os_read_lock entry) \<and> \<not> TTLLock_is_locked now (os_write_lock entry)"

lemma delete_fold:
  assumes "fold (delete_key now) keys (objs, ret, ok, need) = (objs', ret', ok', need')"
  shows "map_of objs' k = (case map_of objs k of None \<Rightarrow> None | Some e \<Rightarrow> if k \<in> set keys \<and> unlocked now e then None else Some e)"
  using assms
proof (induction keys arbitrary: objs ret ok need)
  case (Cons key keys)
  obtain o1 r1 k1 n1 where s: "delete_key now key (objs, ret, ok, need) = (o1, r1, k1, n1)" by (metis prod_cases4)
  have "map_of o1 k = (case map_of objs k of None \<Rightarrow> None | Some e \<Rightarrow> if k = key \<and> unlocked now e then None else Some e)"
    using s by (auto simp: delete_key_def delete_conv' unlocked_def split: option.splits if_splits)
  with Cons.IH [of o1 r1 k1 n1] Cons.prems s show ?case by (auto split: option.splits)
qed (simp split: option.split)

lemma hit_count_prefix:
  assumes "\<forall>key \<in> set keys. map_of ret key = Some (read_result now (map_of objs key))"
  shows "hit_count ret keys = length (takeWhile (\<lambda>key. fst (read_result now (map_of objs key)) = SUCCESS) keys)"
  using assms by (induction keys) (auto split: prod.splits)

lemma read_result_object: "snd (read_result now q) \<noteq> None \<longleftrightarrow> fst (read_result now q) = SUCCESS"
  by (simp add: read_result_def split: option.split)

section \<open>Prefetching\<close>

text \<open>A lock taken at \<open>t1\<close>, seen at a time \<open>t2\<close> within its lease, and after it is released again.\<close>

lemma lock_later:
  assumes g: "lock_good l" and room: "lock_room t1 l" and t: "sint t1 \<le> sint t2" "sint t2 < sint t1 + sint (tl_ttl_ms l)"
  shows "lock_count t2 (TTLLock_lock t1 l) = lock_count t1 l + 1"
    and "lock_count t2 (TTLLock_unlock (TTLLock_lock t1 l)) = lock_count t1 l"
    and "TTLLock_is_locked t2 (TTLLock_lock t1 l)"
proof -
  note f = lock_fields [OF g room]
  have alive: "lock_alive t2 (TTLLock_lock t1 l)" using f(2) t(2) by (simp add: lock_alive_def sint_order)
  have g': "lock_good (TTLLock_lock t1 l)" using tl.lock_law [OF g room] by simp
  have "0 \<le> sint (tl_counter l)" using g by (simp add: lock_good_def)
  then show c: "lock_count t2 (TTLLock_lock t1 l) = lock_count t1 l + 1"
    using f(1) alive by (simp add: lock_count_def nat_add_distrib)
  show "lock_count t2 (TTLLock_unlock (TTLLock_lock t1 l)) = lock_count t1 l" using tl.unlock_law [OF g', of t2] c by simp
  show "TTLLock_is_locked t2 (TTLLock_lock t1 l)" using tl.locked_law [OF g', of t2] c by simp
qed

lemma unwritten_later:
  "\<not> TTLLock_is_locked t1 l \<Longrightarrow> sint t1 \<le> sint t2 \<Longrightarrow> \<not> TTLLock_is_locked t2 l"
  by (auto simp: TTLLock_is_locked_def sint_order)

text \<open>The read lock of an entry that a prefetch reserved, with or without its release.\<close>

definition lease_covers :: "int64 \<Rightarrow> int64 \<Rightarrow> L1ObjectState \<Rightarrow> bool" where
  "lease_covers t1 t2 e \<longleftrightarrow> lock_good (os_read_lock e) \<and> lock_room t1 (os_read_lock e) \<and> sint t1 \<le> sint t2 \<and>
     sint t2 < sint t1 + sint (tl_ttl_ms (os_read_lock e))"

lemma reserved_entry:
  assumes "lease_covers t1 t2 e" and "available_for_read t1 e"
  shows "lock_count t2 (os_read_lock (read_locked t1 1 e)) = lock_count t1 (os_read_lock e) + 1"
    and "lock_count t2 (os_read_lock (read_finished t2 (read_locked t1 1 e))) = lock_count t1 (os_read_lock e)"
    and "os_memory_obj (read_finished t2 (read_locked t1 1 e)) = os_memory_obj e"
proof -
  have h: "lock_good (os_read_lock e)" "lock_room t1 (os_read_lock e)" "sint t1 \<le> sint t2"
    "sint t2 < sint t1 + sint (tl_ttl_ms (os_read_lock e))" using assms(1) by (simp_all add: lease_covers_def)
  note later = lock_later [OF h]
  have w: "\<not> TTLLock_is_locked t2 (os_write_lock e)" using assms(2) unwritten_later h(3) by (auto simp: available_for_read_def)
  then have fin: "finishable t2 (read_locked t1 1 e)"
    using later(3) assms(2) by (simp add: finishable_def read_locked_def)
  show "lock_count t2 (os_read_lock (read_locked t1 1 e)) = lock_count t1 (os_read_lock e) + 1"
    using later(1) assms(2) by (simp add: read_locked_def)
  show "lock_count t2 (os_read_lock (read_finished t2 (read_locked t1 1 e))) = lock_count t1 (os_read_lock e)"
    using later(2) assms(2) fin by (simp add: read_finished_def) (simp add: read_locked_def)
  show "os_memory_obj (read_finished t2 (read_locked t1 1 e)) = os_memory_obj e" by (simp add: read_finished_def)
qed

lemma count_list_distinct: "distinct xs \<Longrightarrow> count_list xs x = (if x \<in> set xs then 1 else 0)"
  by (induction xs) auto

lemma no_temporary_locked: "no_temporary objs \<Longrightarrow> (\<And>k. map_of objs' k = map_option (read_locked t (f k)) (map_of objs k)) \<Longrightarrow> no_temporary objs'"
  by (auto simp: no_temporary_def read_locked_def)

lemma readable_iff: "fst (read_result t (Some e)) = SUCCESS \<longleftrightarrow> available_for_read t e"
  by (simp add: read_result_def)

text \<open>The entries after a prefetch, and the number it returns.\<close>

definition prefetched :: "int64 \<Rightarrow> int64 \<Rightarrow> ObjectKey list \<Rightarrow> ObjectKey list \<Rightarrow> ObjectKey \<Rightarrow> L1ObjectState \<Rightarrow> L1ObjectState" where
  "prefetched t1 t2 hits keys k e =
     (if k \<notin> set keys \<or> \<not> available_for_read t1 e then e
      else if k \<in> set hits then read_locked t1 1 e else read_finished t2 (read_locked t1 1 e))"

lemma takeWhile_split:
  assumes "distinct keys"
  shows "set keys = set (takeWhile P keys) \<union> set (drop (length (takeWhile P keys)) keys)"
    and "set (takeWhile P keys) \<inter> set (drop (length (takeWhile P keys)) keys) = {}"
proof -
  have k: "takeWhile P keys @ drop (length (takeWhile P keys)) keys = keys" by (metis append_take_drop_id takeWhile_eq_take)
  show "set keys = set (takeWhile P keys) \<union> set (drop (length (takeWhile P keys)) keys)"
    using arg_cong [OF k, of set] by simp
  show "set (takeWhile P keys) \<inter> set (drop (length (takeWhile P keys)) keys) = {}"
    using assms by (subst (asm) k [symmetric]) simp
qed

lemma skipped_readable:
  assumes "\<forall>key \<in> set keys. map_of ret key = Some (read_result t (map_of objs key))"
  shows "filter (\<lambda>key. case map_of ret key of None \<Rightarrow> False | Some (err, ob) \<Rightarrow> ob \<noteq> None) keys =
    filter (\<lambda>key. fst (read_result t (map_of objs key)) = SUCCESS) keys"
proof (rule filter_cong)
  fix key assume "key \<in> set keys"
  then have "map_of ret key = Some (read_result t (map_of objs key))" using assms by blast
  then show "(case map_of ret key of None \<Rightarrow> False | Some (err, ob) \<Rightarrow> ob \<noteq> None) =
      (fst (read_result t (map_of objs key)) = SUCCESS)"
    using read_result_object [of t "map_of objs key"] by (simp add: case_prod_unfold)
qed simp

text \<open>Reserving all keys and releasing the readable ones after the first gap.\<close>

lemma prefetched_steps:
  assumes d: "distinct keys"
    and o1: "\<And>k. map_of objs' k = map_option (read_locked t1 (count_list keys k)) (map_of objs k)"
    and hits: "hits = takeWhile (\<lambda>key. fst (read_result t1 (map_of objs key)) = SUCCESS) keys"
    and skipped: "skipped = filter (\<lambda>key. fst (read_result t1 (map_of objs key)) = SUCCESS) (drop (length hits) keys)"
  shows "map_option (prefetched t1 t2 hits keys k) (map_of objs k) =
      (if k \<in> set skipped then map_option (read_finished t2) (map_of objs' k) else map_of objs' k)"
proof (cases "map_of objs k")
  case (Some e)
  have av: "fst (read_result t1 (map_of objs k)) = SUCCESS \<longleftrightarrow> available_for_read t1 e" using Some by (simp add: readable_iff)
  have hr: "k \<in> set hits \<Longrightarrow> available_for_read t1 e" using av unfolding hits by (auto dest: set_takeWhileD)
  have "k \<in> set skipped \<longleftrightarrow> k \<in> set keys \<and> k \<notin> set hits \<and> available_for_read t1 e"
    using takeWhile_split [OF d, of "\<lambda>key. fst (read_result t1 (map_of objs key)) = SUCCESS"] av
    by (auto simp: skipped hits)
  then show ?thesis using Some o1 [of k] hr count_list_distinct [OF d, of k] by (auto simp: prefetched_def read_locked_def)
qed (simp add: o1)

lemma submit_prefetch_effect:
  assumes lazy: "l1_memory (sm_l1_manager sm) = LazyAlloc lz w" and d: "distinct keys"
    and nt: "no_temporary (l1_objects (sm_l1_manager sm))"
    and hits: "hits = takeWhile (\<lambda>key. fst (read_result t1 (map_of (l1_objects (sm_l1_manager sm)) key)) = SUCCESS) keys"
  shows "\<exists>sm'. submit_prefetch_task S t1 t2 keys sm = (sm', Inr (length hits)) \<and>
     l1_memory (sm_l1_manager sm') = l1_memory (sm_l1_manager sm) \<and>
     (\<forall>k. map_of (l1_objects (sm_l1_manager sm')) k =
        map_option (prefetched t1 t2 hits keys k) (map_of (l1_objects (sm_l1_manager sm)) k))"
proof -
  define m where "m = sm_l1_manager sm"
  obtain objs ret ok where f: "fold (reserve_read_key t1) keys (l1_objects m, [], []) = (objs, ret, ok)" by (metis prod_cases3)
  define m1 where "m1 = notify (on_keys_reserved_read ok) (m\<lparr>l1_objects := objs\<rparr>)"
  define skipped where "skipped = filter (\<lambda>key. fst (read_result t1 (map_of (l1_objects m) key)) = SUCCESS) (drop (length hits) keys)"
  have rr: "on_l1 (reserve_read t1 keys) sm = (sm\<lparr>sm_l1_manager := m1\<rparr>, ret)"
    by (simp add: on_l1_def reserve_read_def f m1_def m_def [symmetric])
  note tab = reserve_read_fold [OF f]
  have ret: "\<forall>key \<in> set keys. map_of ret key = Some (read_result t1 (map_of (l1_objects m) key))" using tab(2) by simp
  have hc: "hit_count ret keys = length hits" using hit_count_prefix [OF ret] by (simp add: hits m_def)
  have sk: "filter (\<lambda>key. case map_of ret key of None \<Rightarrow> False | Some (err, ob) \<Rightarrow> ob \<noteq> None) (drop (length hits) keys) = skipped"
    unfolding skipped_def by (rule skipped_readable) (use ret in_set_dropD in fastforce)
  have pre: "map_option (prefetched t1 t2 hits keys k) (map_of (l1_objects m) k) =
      (if k \<in> set skipped then map_option (read_finished t2) (map_of objs k) else map_of objs k)" for k
    by (rule prefetched_steps [OF d tab(1) hits [folded m_def] skipped_def])
  have nt1: "no_temporary objs" using no_temporary_locked [OF nt] tab(1) by (simp add: m_def)
  show ?thesis
  proof (cases "skipped = []")
    case True
    then have "submit_prefetch_task S t1 t2 keys sm = (sm\<lparr>sm_l1_manager := m1\<rparr>, Inr (length hits))"
      by (simp add: submit_prefetch_task_def rr hc sk)
    then show ?thesis using pre True by (simp add: m1_def m_def [symmetric])
  next
    case False
    obtain objs' ret' ok' need nkeys where g: "fold (finish_read_key t2) skipped (objs, [], [], [], []) = (objs', ret', ok', need, nkeys)"
      by (metis prod_cases5)
    have "distinct skipped" using d by (simp add: skipped_def)
    note fin = finish_read_fold [OF g nt1 this]
    obtain m2 where fr: "finish_read S t2 skipped m1 = (m2, Inr ret')" "l1_objects m2 = objs'" "l1_memory m2 = l1_memory m"
      using g fin lazy lazy_free_nothing by (simp add: finish_read_def m1_def m_def)
    then have "submit_prefetch_task S t1 t2 keys sm = (sm\<lparr>sm_l1_manager := m2\<rparr>, Inr (length hits))"
      using False by (simp add: submit_prefetch_task_def rr hc sk) (simp add: on_l1_def)
    then show ?thesis using pre fin fr by (simp add: m_def [symmetric])
  qed
qed

section \<open>Eviction rounds\<close>

lemma lazy_delete:
  assumes "l1_memory m = LazyAlloc lz w"
  shows "\<exists>m' ret w'. l1_delete S now keys m = (m', Inr ret) \<and> l1_memory m' = LazyAlloc lz w' \<and>
     (\<forall>k. map_of (l1_objects m') k =
        (case map_of (l1_objects m) k of None \<Rightarrow> None | Some e \<Rightarrow> if k \<in> set keys \<and> unlocked now e then None else Some e))"
proof -
  obtain objs ret ok need where f: "fold (delete_key now) keys (l1_objects m, [], [], []) = (objs, ret, ok, need)" by (metis prod_cases4)
  show ?thesis using delete_fold [OF f] assms by (simp add: l1_delete_def f L1MemoryManager_free_def)
qed

lemma eviction_actions_effect:
  assumes "l1_memory (sm_l1_manager sm) = LazyAlloc lz w"
  shows "\<exists>sm' w'. execute_eviction_actions S now actions sm = (sm', Inr ()) \<and> l1_memory (sm_l1_manager sm') = LazyAlloc lz w' \<and>
     (\<forall>k. map_of (l1_objects (sm_l1_manager sm')) k =
        (case map_of (l1_objects (sm_l1_manager sm)) k of None \<Rightarrow> None
         | Some e \<Rightarrow> if k \<in> set (concat (map ea_keys actions)) \<and> unlocked now e then None else Some e))"
  using assms
proof (induction actions arbitrary: sm w)
  case (Cons action actions)
  obtain m' ret w1 where d: "l1_delete S now (ea_keys action) (sm_l1_manager sm) = (m', Inr ret)" "l1_memory m' = LazyAlloc lz w1"
    "\<forall>k. map_of (l1_objects m') k = (case map_of (l1_objects (sm_l1_manager sm)) k of None \<Rightarrow> None
       | Some e \<Rightarrow> if k \<in> set (ea_keys action) \<and> unlocked now e then None else Some e)"
    using lazy_delete [OF Cons.prems] by blast
  have "execute_eviction_actions S now (action # actions) sm = execute_eviction_actions S now actions (sm\<lparr>sm_l1_manager := m'\<rparr>)"
    using d(1) by (simp add: execute_eviction_action_def on_l1_def)
  moreover have "l1_memory (sm_l1_manager (sm\<lparr>sm_l1_manager := m'\<rparr>)) = LazyAlloc lz w1" using d(2) by simp
  from Cons.IH [OF this] obtain sm' w' where
    "execute_eviction_actions S now actions (sm\<lparr>sm_l1_manager := m'\<rparr>) = (sm', Inr ())" "l1_memory (sm_l1_manager sm') = LazyAlloc lz w'"
    "\<forall>k. map_of (l1_objects (sm_l1_manager sm')) k = (case map_of (l1_objects m') k of None \<Rightarrow> None
       | Some e \<Rightarrow> if k \<in> set (concat (map ea_keys actions)) \<and> unlocked now e then None else Some e)" by auto
  ultimately show ?case using d(3) by (auto split: option.split)
qed (simp split: option.split)

section \<open>Properties\<close>

text \<open>
  Property C21. A prefetch of distinct keys returns the length of the longest prefix of keys that
  are readable, and afterwards exactly the keys of that prefix have one more reader than before:
  the locks on readable keys after the first gap are given back, keys that are not readable and
  keys that were not asked for are unchanged, and no memory is allocated or freed.
\<close>

theorem submit_prefetch_exact:
  assumes "l1_memory (sm_l1_manager sm) = LazyAlloc lz w" and "distinct keys"
    and "no_temporary (l1_objects (sm_l1_manager sm))"
    and "\<forall>k e. get_object_state k (sm_l1_manager sm) = Some e \<longrightarrow> lease_covers now1 now2 e"
    and "hits = takeWhile (\<lambda>key. fst (read_result now1 (get_object_state key (sm_l1_manager sm))) = SUCCESS) keys"
  shows "\<exists>sm'. submit_prefetch_task S now1 now2 keys sm = (sm', Inr (length hits)) \<and>
     l1_memory (sm_l1_manager sm') = l1_memory (sm_l1_manager sm) \<and>
     (\<forall>k. case get_object_state k (sm_l1_manager sm) of
        None \<Rightarrow> get_object_state k (sm_l1_manager sm') = None
      | Some e \<Rightarrow> \<exists>e'. get_object_state k (sm_l1_manager sm') = Some e' \<and> os_memory_obj e' = os_memory_obj e \<and>
          (if k \<in> set keys \<and> available_for_read now1 e
           then lock_count now2 (os_read_lock e') = lock_count now1 (os_read_lock e) + (if k \<in> set hits then 1 else 0)
           else e' = e))"
proof -
  obtain sm' where r: "submit_prefetch_task S now1 now2 keys sm = (sm', Inr (length hits))"
    "l1_memory (sm_l1_manager sm') = l1_memory (sm_l1_manager sm)"
    "\<forall>k. map_of (l1_objects (sm_l1_manager sm')) k =
        map_option (prefetched now1 now2 hits keys k) (map_of (l1_objects (sm_l1_manager sm)) k)"
    using submit_prefetch_effect [OF assms(1-3) assms(5) [unfolded get_object_state_def]] by blast
  have "os_memory_obj (prefetched now1 now2 hits keys k e) = os_memory_obj e \<and>
      (if k \<in> set keys \<and> available_for_read now1 e
       then lock_count now2 (os_read_lock (prefetched now1 now2 hits keys k e)) = lock_count now1 (os_read_lock e) + (if k \<in> set hits then 1 else 0)
       else prefetched now1 now2 hits keys k e = e)"
    if "map_of (l1_objects (sm_l1_manager sm)) k = Some e" for k e
  proof -
    have c: "lease_covers now1 now2 e" using assms(4) that by (simp add: get_object_state_def)
    show ?thesis using reserved_entry [OF c] by (simp add: prefetched_def)
  qed
  then show ?thesis using r by (fastforce simp: get_object_state_def split: option.split)
qed

text \<open>
  Property C32. An eviction round removes exactly the unlocked candidates. Below the watermark it
  changes nothing. At or above it, the entries that disappear are those of the candidates of the
  policy that have neither a reader nor a writer; every other entry, in particular every
  locked one, is unchanged, and the round does not fail.
\<close>

theorem eviction_round_exact:
  assumes "l1_memory (sm_l1_manager sm) = LazyAlloc lz w" and "l1_listeners (sm_l1_manager sm) = policy # listeners"
    and "l1_get_memory_usage (sm_l1_manager sm) = Inr (used, capacity)"
    and "candidates = (if of_int used < ec_trigger_watermark (sm_eviction_config sm) * of_int capacity then []
           else concat (map ea_keys (get_eviction_actions (ec_eviction_ratio (sm_eviction_config sm)) policy)))"
    and "0 < capacity"
  shows "\<exists>sm'. eviction_round S now sm = (sm', Inr ()) \<and>
     (\<forall>k. get_object_state k (sm_l1_manager sm') =
        (case get_object_state k (sm_l1_manager sm) of None \<Rightarrow> None
         | Some e \<Rightarrow> if k \<in> set candidates \<and> unlocked now e then None else Some e))"
proof -
  let ?actions = "get_eviction_actions (ec_eviction_ratio (sm_eviction_config sm)) policy"
  have u: "of_int used / of_int capacity < ec_trigger_watermark (sm_eviction_config sm) \<longleftrightarrow>
      of_int used < ec_trigger_watermark (sm_eviction_config sm) * of_int capacity"
    using assms(5) by (simp add: divide_less_eq)
  show ?thesis
  proof (cases "of_int used < ec_trigger_watermark (sm_eviction_config sm) * of_int capacity")
    case True
    then have "eviction_round S now sm = (sm, Inr ())" using assms(2,3,5) u by (simp add: eviction_round_def)
    then show ?thesis using True assms(4) by (simp split: option.split)
  next
    case False
    then have "eviction_round S now sm = execute_eviction_actions S now ?actions sm"
      using assms(2,3,5) u by (simp add: eviction_round_def)
    then show ?thesis
      using False assms(4) eviction_actions_effect [OF assms(1), of S now ?actions] by (auto simp: get_object_state_def)
  qed
qed

section \<open>Witnesses\<close>

definition demo_storage :: StorageManager where
  "demo_storage =
     \<lparr>sm_l1_manager = fold (l1_step insertion_list plain_torch)
        [(1000, ReserveWrite [demo_key 1, demo_key 2, demo_key 3] [False, False, False] demo_layout New),
         (2000, FinishWrite [demo_key 1, demo_key 2, demo_key 3]), (2500, ReserveWrite [demo_key 2] [False] demo_layout All)]
        (register_listener (LRUEvictionPolicy_init DISCARD) (projr (demo_init True))),
      sm_eviction_config = \<lparr>ec_eviction_policy = ''LRU'', ec_trigger_watermark = 1 / 100000000, ec_eviction_ratio = 1\<rparr>,
      sm_stopped = False\<rparr>"

lemma demo_storage_lazy: "\<exists>lz w. l1_memory (sm_l1_manager demo_storage) = LazyAlloc lz w"
proof -
  have "(case l1_memory (sm_l1_manager demo_storage) of LazyAlloc _ _ \<Rightarrow> True | _ \<Rightarrow> False)" by code_simp
  then show ?thesis by (auto split: L1Allocator.splits)
qed

lemma demo_storage_entries:
  "\<forall>(k, e) \<in> set (l1_objects (sm_l1_manager demo_storage)).
     \<not> os_is_temporary e \<and> tl_counter (os_read_lock e) = 0 \<and> tl_ttl_ms (os_read_lock e) = 300000"
  by code_simp

theorem submit_prefetch_exact_witness:
  "\<exists>sm' e'. submit_prefetch_task insertion_list 3000 3001 [demo_key 1, demo_key 2, demo_key 3] demo_storage = (sm', Inr 1) \<and>
     get_object_state (demo_key 3) (sm_l1_manager sm') = Some e' \<and> lock_count 3001 (os_read_lock e') = 0"
proof -
  let ?m = "sm_l1_manager demo_storage" and ?keys = "[demo_key 1, demo_key 2, demo_key 3]"
  obtain lz w where lw: "l1_memory ?m = LazyAlloc lz w" using demo_storage_lazy by blast
  have d: "distinct ?keys" by (simp add: demo_key_def)
  have ent: "\<not> os_is_temporary e \<and> tl_counter (os_read_lock e) = 0 \<and> tl_ttl_ms (os_read_lock e) = 300000"
    if "map_of (l1_objects ?m) k = Some e" for k e using demo_storage_entries map_of_SomeD [OF that] by blast
  have nt: "no_temporary (l1_objects ?m)" using ent by (auto simp: no_temporary_def)
  have lc: "\<forall>k e. get_object_state k ?m = Some e \<longrightarrow> lease_covers 3000 3001 e"
    using ent by (auto simp: get_object_state_def lease_covers_def lock_good_def lock_room_def time_ok_def)
  have h: "[demo_key 1] = takeWhile (\<lambda>key. fst (read_result 3000 (get_object_state key ?m)) = SUCCESS) ?keys" by code_simp
  have av: "case get_object_state (demo_key 3) ?m of None \<Rightarrow> False | Some e \<Rightarrow> available_for_read 3000 e" by code_simp
  then obtain e where e: "get_object_state (demo_key 3) ?m = Some e" "available_for_read 3000 e" by (auto split: option.splits)
  have z: "lock_count 3000 (os_read_lock e) = 0" using ent e(1) by (simp add: get_object_state_def lock_count_def)
  have k3: "demo_key 3 \<notin> set [demo_key 1]" by (simp add: demo_key_def)
  from submit_prefetch_exact [OF lw d nt lc h, of insertion_list] obtain sm' where
    r: "submit_prefetch_task insertion_list 3000 3001 ?keys demo_storage = (sm', Inr (length [demo_key 1]))"
    and all: "\<forall>k. case get_object_state k ?m of None \<Rightarrow> get_object_state k (sm_l1_manager sm') = None
      | Some e \<Rightarrow> \<exists>e'. get_object_state k (sm_l1_manager sm') = Some e' \<and> os_memory_obj e' = os_memory_obj e \<and>
          (if k \<in> set ?keys \<and> available_for_read 3000 e
           then lock_count 3001 (os_read_lock e') = lock_count 3000 (os_read_lock e) + (if k \<in> set [demo_key 1] then 1 else 0)
           else e' = e)" by blast
  from all [rule_format, of "demo_key 3"] e z k3 r show ?thesis by auto
qed

theorem eviction_round_exact_witness:
  "\<exists>sm'. eviction_round insertion_list 3000 demo_storage = (sm', Inr ()) \<and>
     get_object_state (demo_key 1) (sm_l1_manager sm') = None \<and>
     get_object_state (demo_key 2) (sm_l1_manager sm') = get_object_state (demo_key 2) (sm_l1_manager demo_storage)"
proof -
  let ?m = "sm_l1_manager demo_storage"
  obtain lz w where lw: "l1_memory ?m = LazyAlloc lz w" using demo_storage_lazy by blast
  define policy where "policy = hd (l1_listeners ?m)"
  have pl: "l1_listeners ?m = policy # tl (l1_listeners ?m)" unfolding policy_def by code_simp
  have us: "l1_get_memory_usage ?m = Inr (12288, 67108864)" by code_simp
  have "map ea_keys (get_eviction_actions (ec_eviction_ratio (sm_eviction_config demo_storage)) policy) = [[demo_key 1, demo_key 2, demo_key 3]]"
    unfolding policy_def by code_simp
  then have c: "[demo_key 1, demo_key 2, demo_key 3] =
     (if of_int 12288 < ec_trigger_watermark (sm_eviction_config demo_storage) * of_int 67108864 then []
      else concat (map ea_keys (get_eviction_actions (ec_eviction_ratio (sm_eviction_config demo_storage)) policy)))"
    by (simp add: demo_storage_def)
  have st: "map (\<lambda>k. map_option (unlocked 3000) (get_object_state k ?m)) [demo_key 1, demo_key 2] = [Some True, Some False]" by code_simp
  from eviction_round_exact [OF lw pl us c, of insertion_list 3000] st show ?thesis
    by (auto split: option.splits)
qed

end
