(* ===== verification/KV_Transfer.thy ===== *)
theory KV_Transfer
  imports LM_Prelude
begin

text \<open>
  The CUDA kernels of \<^verbatim>\<open>csrc/mem_kernels.cu\<close> that move key/value data between the paged memory of
  the serving engine and the buffers of LMCache, and the host function \<^verbatim>\<open>lmcache_memcpy_async\<close>.

  Device memory is a function from addresses to words: an offset in the LMCache buffer, or an
  offset in one of the paged buffers. A thread is the list of copies \<open>(destination, source)\<close> that it
  makes, a launch the list of its threads. Results of \<open>None\<close> stand for calls without a defined launch: an
  integer division by zero, reading the slot mapping past its end, or a failing \<^verbatim>\<open>TORCH_CHECK\<close>.

  Shown: whatever order the threads run in, a transfer moves exactly the words it should, in
  both directions and without leaving the tensors; offloading and loading again restores the
  data; and a copy of the lazily pinned host buffer is split at the borders of pinned chunks.
\<close>

unbundle bit_operations_syntax

section \<open>Offsets\<close>

text \<open>The offset functions compute with 32-bit \<^verbatim>\<open>int\<close> values; the wrap-around is written out.\<close>

definition c_int :: "int \<Rightarrow> int" where
  "c_int x = (x + 2 ^ 31) mod 2 ^ 32 - 2 ^ 31"

definition page_buffer_offset :: "int \<Rightarrow> int \<Rightarrow> int \<Rightarrow> int \<Rightarrow> int \<Rightarrow> int" where
  "page_buffer_offset k_or_v token_idx scalar_offset scalars_per_token page_buffer_size =
     c_int (k_or_v * page_buffer_size * scalars_per_token + c_int token_idx * scalars_per_token + scalar_offset)"

definition page_buffer_offset_unilateral :: "int \<Rightarrow> int \<Rightarrow> int \<Rightarrow> int" where
  "page_buffer_offset_unilateral token_idx scalar_offset scalars_per_token =
     c_int (c_int token_idx * scalars_per_token + scalar_offset)"

definition key_value_offset :: "int \<Rightarrow> int \<Rightarrow> int \<Rightarrow> int \<Rightarrow> int \<Rightarrow> int \<Rightarrow> int \<Rightarrow> int" where
  "key_value_offset k_or_v layer_idx token_idx scalar_offset scalars_per_token num_tokens num_layers =
     c_int (k_or_v * num_layers * num_tokens * scalars_per_token + layer_idx * num_tokens * scalars_per_token +
            token_idx * scalars_per_token + scalar_offset)"

section \<open>Kernels\<close>

datatype addr = LmcBuf int | Paged nat int

type_synonym copies = "(addr \<times> addr) list"

definition run_copies :: "copies \<Rightarrow> (addr \<Rightarrow> 'a) \<Rightarrow> addr \<Rightarrow> 'a" where
  "run_copies cs mem = fold (\<lambda>(dst, src) m. m(dst := m src)) cs mem"

text \<open>The values of \<open>i\<close> in \<^verbatim>\<open>for (int i = tid; i < n; i += num_threads)\<close>.\<close>

function strided :: "nat \<Rightarrow> nat \<Rightarrow> nat \<Rightarrow> nat list" where
  "strided i n num_threads = (if i < n \<and> 0 < num_threads then i # strided (i + num_threads) n num_threads else [])"
  by auto
termination by (relation "measure (\<lambda>(i, n, num_threads). n - i)") auto

declare strided.simps [simp del]

text \<open>All threads of a launch with the given grid and block sizes.\<close>

definition launch :: "nat \<times> nat \<times> nat \<Rightarrow> nat \<Rightarrow> (nat \<Rightarrow> nat \<Rightarrow> nat \<Rightarrow> nat \<Rightarrow> copies) \<Rightarrow> copies list" where
  "launch grid block_size thread =
     (case grid of (gx, gy, gz) \<Rightarrow>
        [thread x y z tid. z \<leftarrow> [0..<gz], y \<leftarrow> [0..<gy], x \<leftarrow> [0..<gx], tid \<leftarrow> [0..<block_size]])"

text \<open>\<open>direction\<close> is true from the paged buffer to LMCache.\<close>

definition copy :: "bool \<Rightarrow> addr \<Rightarrow> addr \<Rightarrow> addr \<times> addr" where
  "copy direction lmc paged = (if direction then (lmc, paged) else (paged, lmc))"

definition load_and_reshape_multi_layer_kernel ::
  "bool \<Rightarrow> int list \<Rightarrow> nat \<Rightarrow> nat \<Rightarrow> nat \<Rightarrow> int \<Rightarrow> nat \<Rightarrow> nat \<Rightarrow> nat \<Rightarrow> nat \<Rightarrow> nat \<Rightarrow> copies"
where
  "load_and_reshape_multi_layer_kernel direction slot_mapping scalars_per_token num_tokens num_layers page_buffer_size
     num_threads token_id layer_id k_or_v tid =
     (let slot_idx = slot_mapping ! token_id
      in if slot_idx < 0 then []
         else map (\<lambda>i. copy direction
                (LmcBuf (key_value_offset (int k_or_v) (int layer_id) (int token_id) (int i) (int scalars_per_token)
                   (int num_tokens) (int num_layers)))
                (Paged layer_id (page_buffer_offset (int k_or_v) slot_idx (int i) (int scalars_per_token) page_buffer_size)))
              (strided tid scalars_per_token num_threads))"

definition load_and_reshape_multi_layer_kernel_unilateral ::
  "bool \<Rightarrow> int list \<Rightarrow> nat \<Rightarrow> nat \<Rightarrow> nat \<Rightarrow> nat \<Rightarrow> nat \<Rightarrow> nat \<Rightarrow> nat \<Rightarrow> nat \<Rightarrow> copies"
where
  "load_and_reshape_multi_layer_kernel_unilateral direction slot_mapping scalars_per_token num_tokens num_layers
     num_threads token_id layer_id k_or_v tid =
     (let slot_idx = slot_mapping ! token_id;
          ptr = (if k_or_v = 0 then layer_id else layer_id + num_layers)
      in if slot_idx < 0 then []
         else map (\<lambda>i. copy direction
                (LmcBuf (key_value_offset (int k_or_v) (int layer_id) (int token_id) (int i) (int scalars_per_token)
                   (int num_tokens) (int num_layers)))
                (Paged ptr (page_buffer_offset_unilateral slot_idx (int i) (int scalars_per_token))))
              (strided tid scalars_per_token num_threads))"

text \<open>
  The host functions. A key/value tensor has the sizes \<open>[_, num_layers, tokens, elements]\<close>; its
  memory is seen in words of \<open>word\<close> bytes.
\<close>

record kv_tensor =
  kt_size1 :: nat
  kt_size2 :: nat
  kt_size3 :: nat
  kt_element_size :: nat

definition multi_layer_kv_transfer_templated ::
  "nat \<Rightarrow> kv_tensor \<Rightarrow> int list \<Rightarrow> int \<Rightarrow> bool \<Rightarrow> bool \<Rightarrow> copies list option"
where
  "multi_layer_kv_transfer_templated word key_value slot_mapping page_buffer_size direction use_mla =
     (let num_layers = kt_size1 key_value;
          num_tokens = length slot_mapping;
          elements_per_xword = word div kt_element_size key_value;
          num_xwords = kt_size3 key_value div elements_per_xword;
          k_or_v_size = (if use_mla then 1 else 2);
          block = min num_xwords 128
      in if elements_per_xword = 0 \<or> kt_size2 key_value > num_tokens then None
         else Some (launch (kt_size2 key_value, num_layers, k_or_v_size) block
                (load_and_reshape_multi_layer_kernel direction slot_mapping num_xwords num_tokens num_layers
                   page_buffer_size block)))"

definition transfer_word :: "kv_tensor \<Rightarrow> nat" where
  "transfer_word key_value =
     (let copy_size = kt_size3 key_value * kt_element_size key_value
      in if copy_size mod 8 = 0 then 8
         else if copy_size mod 4 = 0 then 4
         else if copy_size mod 2 = 0 then 2
         else 1)"

definition multi_layer_kv_transfer ::
  "kv_tensor \<Rightarrow> int list \<Rightarrow> int \<Rightarrow> bool \<Rightarrow> bool \<Rightarrow> copies list option"
where
  "multi_layer_kv_transfer key_value slot_mapping page_buffer_size direction use_mla =
     multi_layer_kv_transfer_templated (transfer_word key_value) key_value slot_mapping page_buffer_size direction use_mla"

definition multi_layer_kv_transfer_unilateral ::
  "kv_tensor \<Rightarrow> int list \<Rightarrow> int \<Rightarrow> bool \<Rightarrow> bool \<Rightarrow> copies list option"
where
  "multi_layer_kv_transfer_unilateral key_value slot_mapping page_buffer_size direction use_mla =
     (if use_mla then multi_layer_kv_transfer key_value slot_mapping page_buffer_size direction use_mla
      else let num_layers = kt_size1 key_value;
               num_tokens = length slot_mapping;
               elements_per_qword = 8 div kt_element_size key_value;
               num_qwords = kt_size3 key_value div elements_per_qword;
               block = min num_qwords 128
           in if elements_per_qword = 0 \<or> kt_size2 key_value > num_tokens then None
              else Some (launch (kt_size2 key_value, num_layers, 2) block
                     (load_and_reshape_multi_layer_kernel_unilateral direction slot_mapping num_qwords num_tokens num_layers
                        block)))"

subsection \<open>Kernels for one layer\<close>

text \<open>
  These kernels compute offsets with \<^verbatim>\<open>int64_t\<close> values, far from overflow. The paged buffer 0 is the
  key/value cache or the key cache, the paged buffer 1 the value cache.
\<close>

record tensor_view =
  tv_sizes :: "nat list"
  tv_strides :: "nat list"
  tv_element_size :: nat

definition paged_index :: "int \<Rightarrow> nat \<Rightarrow> nat \<Rightarrow> nat \<Rightarrow> nat \<Rightarrow> nat \<Rightarrow> int" where
  "paged_index slot_idx block_stride num_heads head_size block_size i =
     (let block_idx = slot_idx div int block_size;
          block_offset = slot_idx mod int block_size;
          head_idx = i div head_size;
          head_offset = i mod head_size
      in block_idx * int block_stride + block_offset * int num_heads * int head_size + int head_idx * int head_size +
         int head_offset)"

definition single_layer_kv_transfer_kernel ::
  "bool \<Rightarrow> int list \<Rightarrow> nat \<Rightarrow> nat \<Rightarrow> nat \<Rightarrow> nat \<Rightarrow> nat \<Rightarrow> nat \<Rightarrow> nat \<Rightarrow> bool \<Rightarrow> nat \<Rightarrow> nat \<Rightarrow> nat \<Rightarrow> copies"
where
  "single_layer_kv_transfer_kernel use_mla slot_mapping vllm_block_key_stride vllm_value_offset lmc_stride lmc_value_offset
     num_heads head_size block_size direction num_threads token_idx tid =
     (let slot_idx = slot_mapping ! token_idx
      in if slot_idx < 0 then []
         else concat (map (\<lambda>i.
                let lmc_key_idx = int token_idx * int lmc_stride + int i;
                    vllm_key_idx = paged_index slot_idx vllm_block_key_stride num_heads head_size block_size i
                in copy direction (LmcBuf lmc_key_idx) (Paged 0 vllm_key_idx) #
                   (if use_mla then []
                    else [copy direction (LmcBuf (lmc_key_idx + int lmc_value_offset))
                            (Paged 0 (vllm_key_idx + int vllm_value_offset))]))
              (strided tid (num_heads * head_size) num_threads)))"

definition single_layer_kv_transfer ::
  "tensor_view \<Rightarrow> tensor_view \<Rightarrow> int list \<Rightarrow> bool \<Rightarrow> bool \<Rightarrow> bool \<Rightarrow> bool \<Rightarrow> copies list option"
where
  "single_layer_kv_transfer lmc vllm slot_mapping direction token_major vllm_two_major use_mla =
     (let elements_per_entry = 8 div tv_element_size vllm;
          entries = (\<lambda>n. n div elements_per_entry);
          num_heads = (if use_mla then 1 else tv_sizes vllm ! 3);
          head_size = entries (if use_mla then tv_sizes vllm ! 2 else tv_sizes vllm ! 4);
          block_size = (if use_mla then tv_sizes vllm ! 1 else tv_sizes vllm ! 2);
          lmc_stride = entries (if use_mla \<or> token_major then tv_strides lmc ! 0 else tv_strides lmc ! 1);
          lmc_value_offset = (if use_mla then 0
            else entries (if token_major then tv_strides lmc ! 1 else tv_strides lmc ! 0));
          vllm_block_key_stride = entries (if \<not> use_mla \<and> vllm_two_major then tv_strides vllm ! 1 else tv_strides vllm ! 0);
          vllm_value_offset = (if use_mla then 0
            else entries (if vllm_two_major then tv_strides vllm ! 0 else tv_strides vllm ! 1));
          block = min (num_heads * head_size) 128
      in if elements_per_entry = 0 then None
         else Some (launch (length slot_mapping, 1, 1) block
                (\<lambda>token_idx _ _ tid. single_layer_kv_transfer_kernel use_mla slot_mapping vllm_block_key_stride
                   vllm_value_offset lmc_stride lmc_value_offset num_heads head_size block_size direction block token_idx tid)))"

text \<open>
  The loading and the storing kernel for a layer of the four-dimensional buffer have the same
  index computation and copy in opposite directions.
\<close>

definition reshape_flash_kernel ::
  "bool \<Rightarrow> int list \<Rightarrow> nat \<Rightarrow> nat \<Rightarrow> nat \<Rightarrow> nat \<Rightarrow> nat \<Rightarrow> nat \<Rightarrow> nat \<Rightarrow> nat \<Rightarrow> nat \<Rightarrow> nat \<Rightarrow> copies"
where
  "reshape_flash_kernel direction slot_mapping block_stride key_value_stride num_heads head_size block_size
     key_layer_offset value_layer_offset num_threads token_idx tid =
     (let slot_idx = slot_mapping ! token_idx
      in if slot_idx < 0 then []
         else concat (map (\<lambda>i.
                let tgt_key_idx = int key_layer_offset + int token_idx * int key_value_stride + int i;
                    tgt_value_idx = int value_layer_offset + int token_idx * int key_value_stride + int i;
                    src_key_value_idx = paged_index slot_idx block_stride num_heads head_size block_size i
                in [copy direction (LmcBuf tgt_key_idx) (Paged 0 src_key_value_idx),
                    copy direction (LmcBuf tgt_value_idx) (Paged 1 src_key_value_idx)])
              (strided tid (num_heads * head_size) num_threads)))"

definition reshape_flash ::
  "bool \<Rightarrow> tensor_view \<Rightarrow> tensor_view \<Rightarrow> tensor_view \<Rightarrow> int list \<Rightarrow> nat \<Rightarrow> copies list option"
where
  "reshape_flash direction key_value key_cache value_cache slot_mapping layer_idx =
     (let elements_per_entry = 8 div tv_element_size key_cache;
          num_heads = tv_sizes key_cache ! 2;
          head_size = tv_sizes key_cache ! 3 div elements_per_entry;
          block_size = tv_sizes key_cache ! 1;
          key_value_stride = tv_strides key_value ! 2 div elements_per_entry;
          num_layers = tv_sizes key_value ! 1;
          key_layer_offset = layer_idx * tv_strides key_value ! 1 div elements_per_entry;
          value_layer_offset = (layer_idx + num_layers) * tv_strides key_value ! 1 div elements_per_entry;
          block_stride = tv_strides key_cache ! 0 div elements_per_entry;
          block = min (num_heads * head_size) 128
      in if elements_per_entry = 0 \<or> tv_strides key_cache ! 0 \<noteq> tv_strides value_cache ! 0 then None
         else Some (launch (length slot_mapping, 1, 1) block
                (\<lambda>token_idx _ _ tid. reshape_flash_kernel direction slot_mapping block_stride key_value_stride num_heads
                   head_size block_size key_layer_offset value_layer_offset block token_idx tid)))"

definition load_and_reshape_flash ::
  "tensor_view \<Rightarrow> tensor_view \<Rightarrow> tensor_view \<Rightarrow> int list \<Rightarrow> nat \<Rightarrow> copies list option"
where
  "load_and_reshape_flash = reshape_flash True"

definition reshape_and_cache_back_flash ::
  "tensor_view \<Rightarrow> tensor_view \<Rightarrow> tensor_view \<Rightarrow> int list \<Rightarrow> nat \<Rightarrow> copies list option"
where
  "reshape_and_cache_back_flash = reshape_flash False"

definition single_layer_kv_transfer_sgl_kernel ::
  "int list \<Rightarrow> nat \<Rightarrow> nat \<Rightarrow> nat \<Rightarrow> nat \<Rightarrow> nat \<Rightarrow> nat \<Rightarrow> bool \<Rightarrow> nat \<Rightarrow> nat \<Rightarrow> nat \<Rightarrow> copies"
where
  "single_layer_kv_transfer_sgl_kernel slot_mapping block_stride lmc_stride lmc_value_offset num_heads head_size block_size
     direction num_threads token_idx tid =
     (let slot_idx = slot_mapping ! token_idx
      in if slot_idx < 0 then []
         else concat (map (\<lambda>i.
                let lmc_key_idx = int token_idx * int lmc_stride + int i;
                    lmc_value_idx = lmc_key_idx + int lmc_value_offset;
                    sgl_key_value_idx = paged_index slot_idx block_stride num_heads head_size block_size i
                in [copy direction (LmcBuf lmc_key_idx) (Paged 0 sgl_key_value_idx),
                    copy direction (LmcBuf lmc_value_idx) (Paged 1 sgl_key_value_idx)])
              (strided tid (num_heads * head_size) num_threads)))"

definition single_layer_kv_transfer_sgl ::
  "tensor_view \<Rightarrow> tensor_view \<Rightarrow> tensor_view \<Rightarrow> int list \<Rightarrow> bool \<Rightarrow> bool \<Rightarrow> copies list option"
where
  "single_layer_kv_transfer_sgl lmc sgl_key_cache sgl_value_cache slot_mapping direction token_major =
     (let elements_per_entry = 8 div tv_element_size sgl_key_cache;
          num_heads = tv_sizes sgl_key_cache ! 2;
          head_size = tv_sizes sgl_key_cache ! 3 div elements_per_entry;
          block_size = tv_sizes sgl_key_cache ! 1;
          lmc_stride = (if token_major then tv_strides lmc ! 0 else tv_strides lmc ! 1) div elements_per_entry;
          lmc_value_offset = (if token_major then tv_strides lmc ! 1 else tv_strides lmc ! 0) div elements_per_entry;
          block_stride = tv_strides sgl_key_cache ! 0 div elements_per_entry;
          block = min (num_heads * head_size) 128
      in if elements_per_entry = 0 \<or> tv_strides sgl_key_cache ! 0 \<noteq> tv_strides sgl_value_cache ! 0 then None
         else Some (launch (length slot_mapping, 1, 1) block
                (\<lambda>token_idx _ _ tid. single_layer_kv_transfer_sgl_kernel slot_mapping block_stride lmc_stride lmc_value_offset
                   num_heads head_size block_size direction block token_idx tid)))"

section \<open>Host copies of lazily pinned memory\<close>

text \<open>
  \<^verbatim>\<open>lmcache_memcpy_async\<close>: the pieces \<open>(dest, src, nbytes)\<close> that it hands to \<^verbatim>\<open>cudaMemcpyAsync\<close>. All values
  are \<^verbatim>\<open>size_t\<close>; the wrap-around is written out. \<open>None\<close> is a loop that does not end.
\<close>

definition u64 :: "int \<Rightarrow> int" where
  "u64 x = x mod 2 ^ 64"

partial_function (option) memcpy_loop ::
  "int \<Rightarrow> int \<Rightarrow> int \<Rightarrow> int \<Rightarrow> int \<Rightarrow> int \<Rightarrow> (int \<times> int \<times> int) list option"
where
  "memcpy_loop dest src nbytes host_buffer_offset host_buffer_alignments offset =
     (if \<not> offset < nbytes then Some []
      else let current_src = u64 (src + offset);
               current_dest = u64 (dest + offset);
               mask = u64 (host_buffer_alignments - 1);
               aligned_area_end = u64 ((u64 (offset + host_buffer_offset) AND NOT mask) + host_buffer_alignments);
               real_end = min (u64 (host_buffer_offset + nbytes)) aligned_area_end;
               max_nbytes = u64 (real_end - offset - host_buffer_offset)
           in Option.bind (memcpy_loop dest src nbytes host_buffer_offset host_buffer_alignments (u64 (offset + max_nbytes)))
                (\<lambda>pieces. Some ((current_dest, current_src, max_nbytes) # pieces)))"

declare memcpy_loop.simps [code]

definition lmcache_memcpy_async ::
  "int \<Rightarrow> int \<Rightarrow> int \<Rightarrow> int \<Rightarrow> int \<Rightarrow> (int \<times> int \<times> int) list option result"
where
  "lmcache_memcpy_async dest src nbytes host_buffer_offset host_buffer_alignments =
     (if (host_buffer_alignments AND u64 (host_buffer_alignments - 1)) \<noteq> 0 then Inl RuntimeError
      else Inr (memcpy_loop dest src nbytes host_buffer_offset host_buffer_alignments 0))"

section \<open>Copies in any order\<close>

text \<open>
  If the copies never disagree about a destination and no copy reads what another writes, the
  result does not depend on their order: every destination holds the old value of its source.
\<close>

definition independent :: "copies \<Rightarrow> bool" where
  "independent cs \<longleftrightarrow> (\<forall>(d, s) \<in> set cs. \<forall>(d', s') \<in> set cs. d = d' \<longrightarrow> s = s') \<and> fst ` set cs \<inter> snd ` set cs = {}"

lemma run_copies_exact:
  assumes "independent cs"
  shows "(\<forall>(d, s) \<in> set cs. run_copies cs mem d = mem s) \<and> (\<forall>a. a \<notin> fst ` set cs \<longrightarrow> run_copies cs mem a = mem a)"
  using assms
proof (induction cs arbitrary: mem)
  case (Cons c cs)
  obtain d s where c: "c = (d, s)" by (cases c)
  have ind: "independent cs" using Cons.prems by (auto simp: independent_def)
  define m where "m = mem(d := mem s)"
  have md: "m d = mem s" and mo: "a \<noteq> d \<Longrightarrow> m a = mem a" for a by (simp_all add: m_def)
  have run: "run_copies (c # cs) mem = run_copies cs m" by (simp add: run_copies_def c m_def)
  have src: "m s' = mem s'" if "(d', s') \<in> set (c # cs)" for d' s'
    using Cons.prems that by (intro mo) (force simp: independent_def c)
  note IH = Cons.IH [OF ind, of m]
  have "run_copies cs m d' = mem s'" if e: "(d', s') \<in> set (c # cs)" for d' s'
  proof (cases "\<exists>s''. (d', s'') \<in> set cs")
    case True
    then obtain s'' where i: "(d', s'') \<in> set cs" by blast
    have "s'' = s'" using Cons.prems e i unfolding independent_def by (metis (mono_tags, lifting) case_prodD list.set_intros(2))
    moreover have "run_copies cs m d' = m s''" using conjunct1 [OF IH] i by blast
    ultimately show ?thesis using src [OF e] by simp
  next
    case False
    then have "d' \<notin> fst ` set cs" and "d' = d" "s' = s" using e by (auto simp: c)
    then show ?thesis using conjunct2 [OF IH] md by simp
  qed
  moreover have "run_copies cs m a = mem a" if "a \<notin> fst ` set (c # cs)" for a
    using conjunct2 [OF IH] that mo [of a] by (simp add: c)
  ultimately show ?case unfolding run by blast
qed (simp add: run_copies_def)

lemma strided_step: "(\<exists>q. j = i + q * t) \<longleftrightarrow> j = i \<or> (\<exists>q. j = i + t + q * t)" for t :: nat
proof
  assume "\<exists>q. j = i + q * t"
  then obtain q where q: "j = i + q * t" by blast
  show "j = i \<or> (\<exists>q. j = i + t + q * t)"
  proof (cases q)
    case (Suc p)
    then have "j = i + t + p * t" using q by simp
    then show ?thesis by blast
  qed (use q in simp)
next
  assume "j = i \<or> (\<exists>q. j = i + t + q * t)"
  then show "\<exists>q. j = i + q * t"
  proof
    assume "j = i"
    then have "j = i + 0 * t" by simp
    then show ?thesis by blast
  next
    assume "\<exists>q. j = i + t + q * t"
    then obtain q where "j = i + t + q * t" by blast
    then have "j = i + Suc q * t" by simp
    then show ?thesis by blast
  qed
qed

lemma strided_set: "0 < num_threads \<Longrightarrow> set (strided i n num_threads) = {j. j < n \<and> (\<exists>q. j = i + q * num_threads)}"
proof (induction i n num_threads rule: strided.induct)
  case (1 i n t)
  show ?case
  proof (cases "i < n")
    case True
    have "set (strided i n t) = insert i (set (strided (i + t) n t))" using True 1(2) by (subst strided.simps) simp
    also have "\<dots> = insert i {j. j < n \<and> (\<exists>q. j = i + t + q * t)}" using 1 True by simp
    also have "\<dots> = {j. j < n \<and> (\<exists>q. j = i + q * t)}" unfolding strided_step [of _ i t] using True by blast
    finally show ?thesis .
  next
    case False
    then show ?thesis by (subst strided.simps) auto
  qed
qed

lemma strided_cover:
  assumes "0 < b"
  shows "(\<Union>tid < min n b. set (strided tid n (min n b))) = {..<n}"
proof (cases "n = 0")
  case False
  define t where "t = min n b"
  have t: "0 < t" using False assms by (simp add: t_def)
  have "j \<in> (\<Union>tid < t. set (strided tid n t))" if "j < n" for j
  proof
    show "j mod t \<in> {..<t}" using t by simp
    have "j = j mod t + j div t * t" by simp
    then show "j \<in> set (strided (j mod t) n t)" using that t by (auto simp only: strided_set mem_Collect_eq)
  qed
  moreover have "set (strided tid n t) \<subseteq> {..<n}" for tid using t by (auto simp: strided_set)
  ultimately show ?thesis by (fastforce simp: t_def)
qed simp

lemma launch_set:
  "set (concat (launch (gx, gy, gz) b thread)) = (\<Union>z < gz. \<Union>y < gy. \<Union>x < gx. \<Union>tid < b. set (thread x y z tid))"
  by (simp add: launch_def lessThan_atLeast0 image_Union [symmetric] UN_UN_flatten)

section \<open>Row-major indices\<close>

lemma c_int_id: "0 \<le> x \<Longrightarrow> x < 2 ^ 31 \<Longrightarrow> c_int x = x"
  by (simp add: c_int_def)

lemma radix_bound:
  fixes a b m n :: int
  assumes "0 \<le> a" "a < m" "0 \<le> b" "b < n"
  shows "0 \<le> a * n + b" and "a * n + b < m * n"
proof -
  show "0 \<le> a * n + b" using assms by simp
  have "(a + 1) * n \<le> m * n" using assms by (intro mult_right_mono) simp_all
  then show "a * n + b < m * n" using assms by (simp add: distrib_right)
qed

lemma radix_inj:
  fixes a b n :: int
  assumes "0 \<le> b" "b < n" "0 \<le> b'" "b' < n" "a * n + b = a' * n + b'"
  shows "a = a' \<and> b = b'"
proof -
  have "(a * n + b) div n = a" using assms(1,2) by simp
  moreover have "(a' * n + b') div n = a'" using assms(3,4) by simp
  ultimately have "a = a'" using assms(5) by simp
  then show ?thesis using assms(5) by simp
qed

text \<open>The words of a token: its place in the LMCache buffer of \<open>N\<close> tokens, and in a paged buffer of \<open>P\<close> slots.\<close>

definition lmc_cell :: "nat \<Rightarrow> nat \<Rightarrow> nat \<Rightarrow> nat \<times> nat \<times> nat \<times> nat \<Rightarrow> addr" where
  "lmc_cell L N W c = (case c of (k, l, t, i) \<Rightarrow> LmcBuf (((int k * int L + int l) * int N + int t) * int W + int i))"

definition page_cell :: "int \<Rightarrow> nat \<Rightarrow> int list \<Rightarrow> nat \<times> nat \<times> nat \<times> nat \<Rightarrow> addr" where
  "page_cell P W slots c = (case c of (k, l, t, i) \<Rightarrow> Paged l ((int k * P + slots ! t) * int W + int i))"

definition cells :: "nat \<Rightarrow> nat \<Rightarrow> int list \<Rightarrow> nat \<Rightarrow> (nat \<times> nat \<times> nat \<times> nat) set" where
  "cells K L slots W = {(k, l, t, i). k < K \<and> l < L \<and> t < length slots \<and> i < W \<and> 0 \<le> slots ! t}"

lemma key_value_offset_exact:
  assumes "k < K" "l < L" "t < N" "i < W" and "K * L * N * W \<le> 2 ^ 31"
  shows "LmcBuf (key_value_offset (int k) (int l) (int t) (int i) (int W) (int N) (int L)) = lmc_cell L N W (k, l, t, i)"
proof -
  let ?x = "((int k * int L + int l) * int N + int t) * int W + int i"
  have kl: "0 \<le> int k * int L + int l" "int k * int L + int l < int K * int L"
    using radix_bound [of "int k" "int K" "int l" "int L"] assms by simp_all
  have klt: "0 \<le> (int k * int L + int l) * int N + int t" "(int k * int L + int l) * int N + int t < int K * int L * int N"
    using radix_bound [OF kl, of "int t" "int N"] assms by simp_all
  have x: "0 \<le> ?x" "?x < int K * int L * int N * int W"
    using radix_bound [OF klt, of "int i" "int W"] assms by simp_all
  have "int K * int L * int N * int W \<le> 2 ^ 31" using assms(5) by (metis of_nat_le_iff of_nat_mult of_nat_numeral of_nat_power)
  then have "c_int ?x = ?x" by (rule c_int_id [OF x(1) less_le_trans [OF x(2)]])
  moreover have "key_value_offset (int k) (int l) (int t) (int i) (int W) (int N) (int L) = c_int ?x"
    by (simp add: key_value_offset_def algebra_simps)
  ultimately show ?thesis by (simp add: lmc_cell_def)
qed

lemma page_buffer_offset_exact:
  assumes "k < K" "0 \<le> slots ! t" "slots ! t < P" "i < W" and "int K * P * int W \<le> 2 ^ 31"
  shows "Paged l (page_buffer_offset (int k) (slots ! t) (int i) (int W) P) = page_cell P W slots (k, l, t, i)"
proof -
  let ?x = "(int k * P + slots ! t) * int W + int i"
  have ks: "0 \<le> int k * P + slots ! t" "int k * P + slots ! t < int K * P"
    using radix_bound [of "int k" "int K" "slots ! t" P] assms by simp_all
  have x: "0 \<le> ?x" "?x < int K * P * int W"
    using radix_bound [OF ks, of "int i" "int W"] assms by simp_all
  have "P * 1 \<le> P * (int K * int W)" using assms by (intro mult_left_mono) (auto simp: zero_less_mult_iff Suc_le_eq int_one_le_iff_zero_less)
  then have "P \<le> 2 ^ 31" using assms(5) by (simp add: ac_simps)
  then have s: "c_int (slots ! t) = slots ! t" using assms by (intro c_int_id) simp_all
  have "c_int ?x = ?x" by (rule c_int_id [OF x(1) less_le_trans [OF x(2) assms(5)]])
  moreover have "page_buffer_offset (int k) (slots ! t) (int i) (int W) P = c_int ?x"
    by (simp add: page_buffer_offset_def s algebra_simps)
  ultimately show ?thesis by (simp add: page_cell_def)
qed

lemma lmc_cell_inj: "inj_on (lmc_cell L (length slots) W) (cells K L slots W)"
proof (rule inj_onI)
  fix c c' assume c: "c \<in> cells K L slots W" "c' \<in> cells K L slots W" and e: "lmc_cell L (length slots) W c = lmc_cell L (length slots) W c'"
  obtain k l t i k' l' t' i' where cc: "c = (k, l, t, i)" "c' = (k', l', t', i')" by (metis prod_cases4)
  have "(int k * int L + int l) * int (length slots) + int t = (int k' * int L + int l') * int (length slots) + int t' \<and> int i = int i'"
    using c e by (intro radix_inj [where n = "int W"]) (simp_all add: cc cells_def lmc_cell_def)
  then have "int k * int L + int l = int k' * int L + int l' \<and> int t = int t'" and i: "i = i'"
    using c by (auto simp: cc cells_def dest: radix_inj [rotated -1])
  then have "int k = int k' \<and> int l = int l'" and t: "t = t'" using c by (auto simp: cc cells_def dest: radix_inj [rotated -1])
  then show "c = c'" using i by (simp add: cc)
qed

lemma distinct_filter_nth:
  "distinct (filter P xs) \<Longrightarrow> i < length xs \<Longrightarrow> j < length xs \<Longrightarrow> P (xs ! i) \<Longrightarrow> xs ! i = xs ! j \<Longrightarrow> i = j"
proof (induction xs arbitrary: i j)
  case (Cons x xs)
  have mem: "P y \<Longrightarrow> n < length xs \<Longrightarrow> xs ! n = y \<Longrightarrow> y \<in> set (filter P xs)" for y n by (auto simp: in_set_conv_nth)
  show ?case using Cons.prems Cons.IH mem by (cases i; cases j) (auto split: if_splits)
qed simp

lemma page_cell_inj:
  assumes "\<forall>s \<in> set slots. s < P" and "distinct (filter (\<lambda>s. 0 \<le> s) slots)"
  shows "inj_on (page_cell P W slots) (cells K L slots W)"
proof (rule inj_onI)
  fix c c' assume c: "c \<in> cells K L slots W" "c' \<in> cells K L slots W" and e: "page_cell P W slots c = page_cell P W slots c'"
  obtain k l t i k' l' t' i' where cc: "c = (k, l, t, i)" "c' = (k', l', t', i')" by (metis prod_cases4)
  have l: "l = l'" using e by (simp add: cc page_cell_def)
  have "int k * P + slots ! t = int k' * P + slots ! t' \<and> int i = int i'"
    using c e by (intro radix_inj [where n = "int W"]) (simp_all add: cc cells_def page_cell_def)
  then have ks: "int k * P + slots ! t = int k' * P + slots ! t'" and i: "i = i'" by simp_all
  have "int k = int k' \<and> slots ! t = slots ! t'" using c assms(1) ks by (intro radix_inj [where n = P]) (simp_all add: cc cells_def)
  moreover have "t = t'" if "slots ! t = slots ! t'"
    using that c assms(2) by (auto simp: cc cells_def dest: distinct_filter_nth)
  ultimately show "c = c'" using i l by (simp add: cc)
qed

section \<open>Multi-layer transfers\<close>

lemma multi_layer_copies:
  assumes "K * L * length slots * W \<le> 2 ^ 31" and "int K * P * int W \<le> 2 ^ 31" and "\<forall>s \<in> set slots. s < P"
  shows "set (concat (launch (length slots, L, K) (min W 128)
       (load_and_reshape_multi_layer_kernel direction slots W (length slots) L P (min W 128)))) =
     (\<lambda>c. copy direction (lmc_cell L (length slots) W c) (page_cell P W slots c)) ` cells K L slots W"
proof -
  let ?f = "\<lambda>c. copy direction (lmc_cell L (length slots) W c) (page_cell P W slots c)"
  have thread: "(\<Union>tid < min W 128. set (load_and_reshape_multi_layer_kernel direction slots W (length slots) L P (min W 128) t l k tid)) =
      (if 0 \<le> slots ! t then (\<lambda>i. ?f (k, l, t, i)) ` {..<W} else {})" if "k < K" "l < L" "t < length slots" for k l t
  proof (cases "0 \<le> slots ! t")
    case True
    let ?g = "\<lambda>i. copy direction (LmcBuf (key_value_offset (int k) (int l) (int t) (int i) (int W) (int (length slots)) (int L)))
      (Paged l (page_buffer_offset (int k) (slots ! t) (int i) (int W) P))"
    have "?g i = ?f (k, l, t, i)" if "i < W" for i
      using key_value_offset_exact [OF \<open>k < K\<close> \<open>l < L\<close> \<open>t < length slots\<close> that assms(1)]
        page_buffer_offset_exact [OF \<open>k < K\<close> True _ that assms(2), of l] assms(3) \<open>t < length slots\<close> by simp
    then have "?g ` {..<W} = (\<lambda>i. ?f (k, l, t, i)) ` {..<W}" by (intro image_cong) simp_all
    moreover have "(\<Union>tid < min W 128. set (load_and_reshape_multi_layer_kernel direction slots W (length slots) L P (min W 128) t l k tid)) =
        ?g ` (\<Union>tid < min W 128. set (strided tid W (min W 128)))"
      using True by (simp add: load_and_reshape_multi_layer_kernel_def Let_def image_UN)
    ultimately show ?thesis using True strided_cover [of 128 W] by simp
  qed (simp add: load_and_reshape_multi_layer_kernel_def Let_def)
  have "set (concat (launch (length slots, L, K) (min W 128)
       (load_and_reshape_multi_layer_kernel direction slots W (length slots) L P (min W 128)))) =
     (\<Union>k < K. \<Union>l < L. \<Union>t < length slots. if 0 \<le> slots ! t then (\<lambda>i. ?f (k, l, t, i)) ` {..<W} else {})"
    unfolding launch_set by (rule SUP_cong [OF refl], rule SUP_cong [OF refl], rule SUP_cong [OF refl], rule thread) simp_all
  also have "\<dots> = ?f ` cells K L slots W" by (force simp: cells_def split: if_splits)
  finally show ?thesis .
qed

text \<open>The number of words of a row, and what a call of \<^verbatim>\<open>multi_layer_kv_transfer\<close> launches.\<close>

definition row_words :: "kv_tensor \<Rightarrow> nat" where
  "row_words kv = kt_size3 kv * kt_element_size kv div transfer_word kv"

definition kv_parts :: "bool \<Rightarrow> nat" where
  "kv_parts use_mla = (if use_mla then 1 else 2)"

text \<open>The chosen word size divides the row and is a multiple of the element size, so no byte of a row is left out.\<close>

lemma transfer_word_fits:
  assumes "kt_element_size kv \<in> {1, 2, 4, 8}"
  shows "transfer_word kv div kt_element_size kv \<noteq> 0"
    and "kt_size3 kv div (transfer_word kv div kt_element_size kv) = row_words kv"
    and "row_words kv * transfer_word kv = kt_size3 kv * kt_element_size kv"
proof -
  let ?n = "kt_size3 kv" and ?e = "kt_element_size kv" and ?w = "transfer_word kv"
  consider "?e = 1" | "?e = 2" | "?e = 4" | "?e = 8" using assms by auto
  then have "?w div ?e \<noteq> 0 \<and> ?n div (?w div ?e) = ?n * ?e div ?w \<and> ?n * ?e div ?w * ?w = ?n * ?e"
    by cases (auto simp: transfer_word_def Let_def split: if_splits; presburger)+
  then show "?w div ?e \<noteq> 0" "?n div (?w div ?e) = row_words kv" "row_words kv * ?w = ?n * ?e" by (simp_all add: row_words_def)
qed

text \<open>A transfer whose tensors match its slot mapping, and whose offsets fit 32 bits.\<close>

definition transfer_fits :: "kv_tensor \<Rightarrow> int list \<Rightarrow> int \<Rightarrow> bool \<Rightarrow> bool" where
  "transfer_fits kv slots P use_mla \<longleftrightarrow>
     kt_element_size kv \<in> {1, 2, 4, 8} \<and> kt_size2 kv = length slots \<and> (\<forall>s \<in> set slots. s < P) \<and>
     kv_parts use_mla * kt_size1 kv * length slots * row_words kv \<le> 2 ^ 31 \<and>
     int (kv_parts use_mla) * P * int (row_words kv) \<le> 2 ^ 31"

definition transfer_cells :: "kv_tensor \<Rightarrow> int list \<Rightarrow> bool \<Rightarrow> (nat \<times> nat \<times> nat \<times> nat) set" where
  "transfer_cells kv slots use_mla = cells (kv_parts use_mla) (kt_size1 kv) slots (row_words kv)"

definition lmc_word :: "kv_tensor \<Rightarrow> int list \<Rightarrow> nat \<times> nat \<times> nat \<times> nat \<Rightarrow> addr" where
  "lmc_word kv slots = lmc_cell (kt_size1 kv) (length slots) (row_words kv)"

definition page_word :: "kv_tensor \<Rightarrow> int \<Rightarrow> int list \<Rightarrow> nat \<times> nat \<times> nat \<times> nat \<Rightarrow> addr" where
  "page_word kv P slots = page_cell P (row_words kv) slots"

lemma transfer_launch:
  assumes "transfer_fits kv slots P use_mla"
  shows "\<exists>threads. multi_layer_kv_transfer kv slots P direction use_mla = Some threads \<and>
    set (concat threads) = (\<lambda>c. copy direction (lmc_word kv slots c) (page_word kv P slots c)) ` transfer_cells kv slots use_mla"
proof -
  have e: "kt_element_size kv \<in> {1, 2, 4, 8}" and n: "kt_size2 kv = length slots"
    and fits: "kv_parts use_mla * kt_size1 kv * length slots * row_words kv \<le> 2 ^ 31"
      "int (kv_parts use_mla) * P * int (row_words kv) \<le> 2 ^ 31" "\<forall>s \<in> set slots. s < P"
    using assms unfolding transfer_fits_def by blast+
  have "multi_layer_kv_transfer kv slots P direction use_mla =
      Some (launch (length slots, kt_size1 kv, kv_parts use_mla) (min (row_words kv) 128)
        (load_and_reshape_multi_layer_kernel direction slots (row_words kv) (length slots) (kt_size1 kv) P (min (row_words kv) 128)))"
    unfolding multi_layer_kv_transfer_def multi_layer_kv_transfer_templated_def Let_def transfer_word_fits(2) [OF e] n kv_parts_def
    using transfer_word_fits(1) [OF e] by simp
  then show ?thesis
    using multi_layer_copies [OF fits, of direction] unfolding transfer_cells_def lmc_word_def page_word_def by blast
qed

lemma inj_functional:
  assumes "inj_on (\<lambda>c. fst (f c)) A"
  shows "\<forall>(d, s) \<in> f ` A. \<forall>(d', s') \<in> f ` A. d = d' \<longrightarrow> s = s'"
proof -
  have "snd (f a) = snd (f b)" if "a \<in> A" "b \<in> A" "fst (f a) = fst (f b)" for a b
    using inj_onD [OF assms that(3,1,2)] by simp
  then show ?thesis unfolding case_prod_unfold by blast
qed

lemma transfer_independent:
  assumes "transfer_fits kv slots P use_mla" and "direction \<or> distinct (filter (\<lambda>s. 0 \<le> s) slots)"
    and "set xs = (\<lambda>c. copy direction (lmc_word kv slots c) (page_word kv P slots c)) ` transfer_cells kv slots use_mla"
  shows "independent xs"
proof -
  have "inj_on (lmc_word kv slots) (transfer_cells kv slots use_mla)"
    by (simp add: lmc_word_def transfer_cells_def lmc_cell_inj)
  moreover have "\<not> direction \<Longrightarrow> inj_on (page_word kv P slots) (transfer_cells kv slots use_mla)"
    using assms(1,2) by (simp add: page_word_def transfer_cells_def transfer_fits_def page_cell_inj)
  ultimately have "inj_on (\<lambda>c. fst (copy direction (lmc_word kv slots c) (page_word kv P slots c))) (transfer_cells kv slots use_mla)"
    by (cases direction) (simp_all add: copy_def)
  then have "\<forall>(d, s) \<in> set xs. \<forall>(d', s') \<in> set xs. d = d' \<longrightarrow> s = s'"
    unfolding assms(3) by (rule inj_functional)
  moreover have "fst ` set xs \<inter> snd ` set xs = {}"
    unfolding assms(3) by (cases direction) (auto simp: copy_def lmc_word_def page_word_def lmc_cell_def page_cell_def split: prod.splits)
  ultimately show ?thesis by (simp add: independent_def)
qed

text \<open>A transfer in any order of its copies.\<close>

lemma transfer_effect:
  assumes "transfer_fits kv slots P use_mla" and "direction \<or> distinct (filter (\<lambda>s. 0 \<le> s) slots)"
    and "multi_layer_kv_transfer kv slots P direction use_mla = Some threads" and "mset xs = mset (concat threads)"
  shows "(\<forall>c \<in> transfer_cells kv slots use_mla.
       if direction then run_copies xs mem (lmc_word kv slots c) = mem (page_word kv P slots c)
       else run_copies xs mem (page_word kv P slots c) = mem (lmc_word kv slots c)) \<and>
     (\<forall>a. a \<notin> (if direction then lmc_word kv slots else page_word kv P slots) ` transfer_cells kv slots use_mla \<longrightarrow>
       run_copies xs mem a = mem a)"
proof -
  let ?f = "\<lambda>c. copy direction (lmc_word kv slots c) (page_word kv P slots c)"
  have s: "set xs = ?f ` transfer_cells kv slots use_mla"
    using transfer_launch [OF assms(1), of direction] assms(3) mset_eq_setD [OF assms(4)] by auto
  note ex = run_copies_exact [OF transfer_independent [OF assms(1,2) s], of mem]
  have d: "fst ` set xs = (if direction then lmc_word kv slots else page_word kv P slots) ` transfer_cells kv slots use_mla"
    unfolding s by (auto simp: copy_def image_image)
  have "run_copies xs mem (fst (?f c)) = mem (snd (?f c))" if "c \<in> transfer_cells kv slots use_mla" for c
    using conjunct1 [OF ex] that unfolding s case_prod_unfold by blast
  then show ?thesis using conjunct2 [OF ex] unfolding d by (cases direction) (simp_all add: copy_def)
qed

section \<open>Splitting a host copy\<close>

lemma u64_id: "0 \<le> x \<Longrightarrow> x < 2 ^ 64 \<Longrightarrow> u64 x = x"
  by (simp add: u64_def)

text \<open>The bytes that a piece copies, as pairs of addresses.\<close>

definition piece_bytes :: "int \<times> int \<times> int \<Rightarrow> (int \<times> int) list" where
  "piece_bytes p = (case p of (d, s, n) \<Rightarrow> map (\<lambda>j. (d + j, s + j)) [0..n - 1])"

lemma piece_bytes_split:
  assumes "0 \<le> a" and "a \<le> n"
  shows "piece_bytes (d, s, a) @ piece_bytes (d + a, s + a, n - a) = piece_bytes (d, s, n)"
proof -
  have "[0..n - 1] = [0..a - 1] @ [a..n - 1]"
  proof (cases "a = n")
    case False
    then show ?thesis using upto_split1 [of 0 a "n - 1"] assms by simp
  qed simp
  moreover have "[a..n - 1] = map (\<lambda>j. j + a) [0..n - a - 1]" by (rule nth_equalityI) simp_all
  ultimately show ?thesis by (simp add: piece_bytes_def ac_simps)
qed

text \<open>One round of the loop: how far the piece reaches when it starts at \<open>offset\<close>.\<close>

definition piece_end :: "int \<Rightarrow> int \<Rightarrow> int \<Rightarrow> int \<Rightarrow> int" where
  "piece_end nbytes h A offset = min nbytes (((offset + h) div A + 1) * A - h)"

lemma memcpy_round:
  assumes "0 \<le> offset" "offset < nbytes" "0 \<le> h" "h + nbytes + 2 ^ k \<le> 2 ^ 64" "0 \<le> d" "d + nbytes < 2 ^ 64" "0 \<le> s" "s + nbytes < 2 ^ 64"
  shows "memcpy_loop d s nbytes h (2 ^ k) offset =
     Option.bind (memcpy_loop d s nbytes h (2 ^ k) (piece_end nbytes h (2 ^ k) offset))
       (\<lambda>ps. Some ((d + offset, s + offset, piece_end nbytes h (2 ^ k) offset - offset) # ps))"
    and "offset < piece_end nbytes h (2 ^ k) offset" and "piece_end nbytes h (2 ^ k) offset \<le> nbytes"
    and "(h + offset) div 2 ^ k = (h + piece_end nbytes h (2 ^ k) offset - 1) div 2 ^ k"
proof -
  define A :: int where "A = 2 ^ k"
  have A: "0 < A" "A \<le> 2 ^ 64" using assms by (simp_all add: A_def)
  define q where "q = (offset + h) div A"
  define e where "e = piece_end nbytes h A offset"
  have q: "q * A \<le> offset + h" "offset + h < q * A + A"
    using A(1) minus_mod_eq_div_mult [of "offset + h" A] pos_mod_bound [OF A(1), of "offset + h"] pos_mod_sign [OF A(1), of "offset + h"]
    by (simp_all add: q_def)
  have e: "e = min nbytes (q * A + A - h)" by (simp add: e_def piece_end_def q_def distrib_right)
  then show "offset < piece_end nbytes h (2 ^ k) offset" "piece_end nbytes h (2 ^ k) offset \<le> nbytes"
    using q assms(2) by (simp_all add: e_def A_def)
  have oe: "offset < e" "e \<le> nbytes" using e q assms(2) by simp_all
  have "q * A \<le> h + e - 1" "h + e - 1 < q * A + A" using e q oe by auto
  then have "(h + e - 1) div A = q" by (intro int_div_pos_eq [where r = "h + e - 1 - q * A"]) (simp_all add: mult.commute)
  then show "(h + offset) div 2 ^ k = (h + piece_end nbytes h (2 ^ k) offset - 1) div 2 ^ k"
    by (simp add: e_def A_def q_def add.commute)
  note bnd = assms(1-3,5-8) assms(4) [folded A_def] A q oe e
  have "u64 (offset + h) = offset + h" using bnd by (intro u64_id) simp_all
  then have area0: "u64 (offset + h) AND NOT (A - 1) = q * A" by (simp add: A_def and_not_mask_int q_def)
  have "0 \<le> q * A" using A(1) assms(1,3) by (simp add: q_def pos_imp_zdiv_nonneg_iff)
  then have area: "u64 ((u64 (offset + h) AND NOT (A - 1)) + A) = q * A + A" unfolding area0 using bnd by (intro u64_id) simp_all
  have mask: "u64 (A - 1) = A - 1" using A by (intro u64_id) simp_all
  have "u64 (h + nbytes) = h + nbytes" using bnd by (intro u64_id) simp_all
  then have len: "min (u64 (h + nbytes)) (q * A + A) - offset - h = e - offset" using e by simp
  have steps: "u64 (e - offset) = e - offset" using bnd by (intro u64_id) simp_all
  have steps': "u64 (offset + (e - offset)) = e" using bnd by (subst u64_id) simp_all
  have ptrs: "u64 (s + offset) = s + offset" "u64 (d + offset) = d + offset" using bnd by (intro u64_id; simp)+
  have "\<not> \<not> offset < nbytes" using assms(2) by simp
  then show "memcpy_loop d s nbytes h (2 ^ k) offset =
     Option.bind (memcpy_loop d s nbytes h (2 ^ k) (piece_end nbytes h (2 ^ k) offset))
       (\<lambda>ps. Some ((d + offset, s + offset, piece_end nbytes h (2 ^ k) offset - offset) # ps))"
    unfolding A_def [symmetric] e_def [symmetric]
    by (subst memcpy_loop.simps) (simp only: Let_def if_False mask area len steps steps' ptrs)
qed

lemma memcpy_pieces:
  assumes "0 \<le> offset" "offset \<le> nbytes" "0 \<le> h" "h + nbytes + 2 ^ k \<le> 2 ^ 64" "0 \<le> d" "d + nbytes < 2 ^ 64" "0 \<le> s" "s + nbytes < 2 ^ 64"
  shows "\<exists>ps. memcpy_loop d s nbytes h (2 ^ k) offset = Some ps \<and>
     concat (map piece_bytes ps) = piece_bytes (d + offset, s + offset, nbytes - offset) \<and>
     (\<forall>(d', s', n) \<in> set ps. 0 < n \<and> (h + (d' - d)) div 2 ^ k = (h + (d' - d) + n - 1) div 2 ^ k)"
  using assms(1,2)
proof (induction "nat (nbytes - offset)" arbitrary: offset rule: less_induct)
  case less
  show ?case
  proof (cases "offset = nbytes")
    case True
    then show ?thesis by (subst memcpy_loop.simps) (simp add: piece_bytes_def)
  next
    case False
    then have lt: "offset < nbytes" using less.prems by simp
    note r = memcpy_round [OF less.prems(1) lt assms(3-)]
    define e where "e = piece_end nbytes h (2 ^ k) offset"
    have e: "offset < e" "e \<le> nbytes" "(h + offset) div 2 ^ k = (h + e - 1) div 2 ^ k" using r by (simp_all add: e_def)
    have "nat (nbytes - e) < nat (nbytes - offset)" "0 \<le> e" using e less.prems by simp_all
    from less.hyps [OF this e(2)] obtain ps where ps: "memcpy_loop d s nbytes h (2 ^ k) e = Some ps"
      "concat (map piece_bytes ps) = piece_bytes (d + e, s + e, nbytes - e)"
      "\<forall>(d', s', n) \<in> set ps. 0 < n \<and> (h + (d' - d)) div 2 ^ k = (h + (d' - d) + n - 1) div 2 ^ k" by blast
    have "memcpy_loop d s nbytes h (2 ^ k) offset = Some ((d + offset, s + offset, e - offset) # ps)"
      using r(1) ps(1) by (simp add: e_def)
    moreover have "concat (map piece_bytes ((d + offset, s + offset, e - offset) # ps)) = piece_bytes (d + offset, s + offset, nbytes - offset)"
      using piece_bytes_split [of "e - offset" "nbytes - offset" "d + offset" "s + offset"] e ps(2) by simp
    moreover have "\<forall>(d', s', n) \<in> set ((d + offset, s + offset, e - offset) # ps).
        0 < n \<and> (h + (d' - d)) div 2 ^ k = (h + (d' - d) + n - 1) div 2 ^ k" using ps(3) e by simp
    ultimately show ?thesis by blast
  qed
qed

lemma power_of_two_check: "(2 ^ k :: int) AND (2 ^ k - 1) = 0"
  by (rule bit_eqI) (auto simp: bit_simps simp flip: mask_eq_exp_minus_1)

section \<open>Properties\<close>

text \<open>
  Property C9. \<^verbatim>\<open>multi_layer_kv_transfer\<close> copies exactly the words of the mapped tokens, whatever the
  GPU's schedule. When the tensors fit the slot mapping and 32-bit offsets do not overflow, the
  kernel is launched, and every order in which its threads' copies can happen has the same
  effect: for each key/value part, layer, token with a slot and word of the row, the word is
  copied between its row-major place in the LMCache buffer and its slot in the paged buffer
  of the layer, and no other word of memory changes. Into the paged buffer this needs that
  no two tokens share a slot.
\<close>

theorem multi_layer_transfer_exact:
  assumes "transfer_fits kv slots P use_mla" and "direction \<or> distinct (filter (\<lambda>s. 0 \<le> s) slots)"
  shows "\<exists>threads. multi_layer_kv_transfer kv slots P direction use_mla = Some threads \<and>
     (\<forall>xs. mset xs = mset (concat threads) \<longrightarrow>
        (\<forall>c \<in> transfer_cells kv slots use_mla.
           if direction then run_copies xs mem (lmc_word kv slots c) = mem (page_word kv P slots c)
           else run_copies xs mem (page_word kv P slots c) = mem (lmc_word kv slots c)) \<and>
        (\<forall>a. a \<notin> (if direction then lmc_word kv slots else page_word kv P slots) ` transfer_cells kv slots use_mla \<longrightarrow>
           run_copies xs mem a = mem a))"
proof -
  obtain threads where t: "multi_layer_kv_transfer kv slots P direction use_mla = Some threads"
    using transfer_launch [OF assms(1)] by blast
  show ?thesis using t transfer_effect [OF assms t, of _ mem] by blast
qed

text \<open>
  Offloading a set of slots to an LMCache buffer and loading the buffer into another set
  of slots, possibly of another paged memory, reproduces the data: every word of the
  target slots equals the word of the source slot of the same token, part and layer.
\<close>

lemma transfer_roundtrip:
  assumes "transfer_fits kv slots P use_mla" and "transfer_fits kv slots' P' use_mla" and "length slots' = length slots"
    and "\<forall>s \<in> set slots \<union> set slots'. 0 \<le> s" and "distinct slots'"
    and "multi_layer_kv_transfer kv slots P True use_mla = Some threads" and "mset xs = mset (concat threads)"
    and "multi_layer_kv_transfer kv slots' P' False use_mla = Some threads'" and "mset ys = mset (concat threads')"
    and "mem' = (\<lambda>a. case a of LmcBuf n \<Rightarrow> run_copies xs mem (LmcBuf n) | Paged l n \<Rightarrow> pages l n)"
    and "c \<in> transfer_cells kv slots use_mla"
  shows "run_copies ys mem' (page_word kv P' slots' c) = mem (page_word kv P slots c)"
proof -
  have d: "True \<or> distinct (filter (\<lambda>s. 0 \<le> s) slots)" "False \<or> distinct (filter (\<lambda>s. 0 \<le> s) slots')" using assms(5) by simp_all
  have "0 \<le> slots' ! t" if "t < length slots'" for t using nth_mem [OF that] assms(4) by blast
  then have c': "c \<in> transfer_cells kv slots' use_mla"
    using assms(3,11) by (auto simp: transfer_cells_def cells_def)
  obtain n where n: "lmc_word kv slots' c = LmcBuf n" by (cases c) (simp add: lmc_word_def lmc_cell_def)
  have same: "lmc_word kv slots' c = lmc_word kv slots c" using assms(3) by (simp add: lmc_word_def)
  have "run_copies ys mem' (page_word kv P' slots' c) = mem' (lmc_word kv slots' c)"
    using conjunct1 [OF transfer_effect [OF assms(2) d(2) assms(8,9), of mem']] c' by simp
  also have "\<dots> = run_copies xs mem (lmc_word kv slots c)" using n by (simp add: assms(10) same [symmetric])
  also have "\<dots> = mem (page_word kv P slots c)"
    using conjunct1 [OF transfer_effect [OF assms(1) d(1) assms(6,7), of mem]] assms(11) by simp
  finally show ?thesis .
qed

text \<open>
  Property C19. \<^verbatim>\<open>lmcache_memcpy_async\<close> ends, and the pieces it issues copy byte for byte, in order, what
  one copy of \<open>nbytes\<close> bytes would. Every piece is nonempty and stays inside one aligned chunk
  of the host buffer, so that no copy crosses two separately pinned regions.
\<close>

theorem memcpy_split_exact:
  assumes "0 \<le> nbytes" and "0 \<le> offset" and "offset + nbytes + 2 ^ k \<le> 2 ^ 64"
    and "0 \<le> dest" and "dest + nbytes < 2 ^ 64" and "0 \<le> src" and "src + nbytes < 2 ^ 64"
  shows "\<exists>ps. lmcache_memcpy_async dest src nbytes offset (2 ^ k) = Inr (Some ps) \<and>
     concat (map piece_bytes ps) = map (\<lambda>j. (dest + j, src + j)) [0..nbytes - 1] \<and>
     (\<forall>(d, s, n) \<in> set ps. 0 < n \<and> (offset + (d - dest)) div 2 ^ k = (offset + (d - dest) + n - 1) div 2 ^ k)"
proof -
  have "(2 ^ k :: int) \<le> 2 ^ 64" using assms(1-3) by linarith
  then have "u64 (2 ^ k - 1) = 2 ^ k - 1" by (intro u64_id) simp_all
  then have "lmcache_memcpy_async dest src nbytes offset (2 ^ k) = Inr (memcpy_loop dest src nbytes offset (2 ^ k) 0)"
    by (simp add: lmcache_memcpy_async_def power_of_two_check)
  then show ?thesis
    using memcpy_pieces [of 0 nbytes offset k dest src] assms by (auto simp: piece_bytes_def)
qed

section \<open>Witnesses\<close>

definition demo_kv :: kv_tensor where
  "demo_kv = \<lparr>kt_size1 = 2, kt_size2 = 3, kt_size3 = 6, kt_element_size = 2\<rparr>"

lemma demo_fits: "transfer_fits demo_kv [4, 1, 0] 8 False" "transfer_fits demo_kv [7, 2, 3] 8 False"
  by (simp_all add: transfer_fits_def demo_kv_def row_words_def transfer_word_def kv_parts_def)

lemma demo_cell: "(1, 1, 2, 2) \<in> transfer_cells demo_kv [4, 1, 0] False"
  by (simp add: transfer_cells_def cells_def demo_kv_def row_words_def transfer_word_def kv_parts_def)

theorem multi_layer_transfer_exact_witness:
  "\<exists>threads. multi_layer_kv_transfer demo_kv [4, 1, 0] 8 True False = Some threads \<and>
     run_copies (rev (concat threads)) (\<lambda>a. a) (lmc_word demo_kv [4, 1, 0] (1, 1, 2, 2)) = page_word demo_kv 8 [4, 1, 0] (1, 1, 2, 2)"
proof -
  have "True \<or> distinct (filter (\<lambda>s. 0 \<le> s) [4, 1, 0 :: int])" by simp
  from multi_layer_transfer_exact [OF demo_fits(1) this, of "\<lambda>a. a"] obtain threads where
    t: "multi_layer_kv_transfer demo_kv [4, 1, 0] 8 True False = Some threads"
    and all: "\<And>xs c. mset xs = mset (concat threads) \<Longrightarrow> c \<in> transfer_cells demo_kv [4, 1, 0] False \<Longrightarrow>
      run_copies xs (\<lambda>a. a) (lmc_word demo_kv [4, 1, 0] c) = page_word demo_kv 8 [4, 1, 0] c"
    by (auto simp only: if_True)
  have "mset (rev (concat threads)) = mset (concat threads)" by simp
  from all [OF this demo_cell] t show ?thesis by blast
qed

theorem memcpy_split_exact_witness:
  "\<exists>ps. lmcache_memcpy_async 4096 8192 10 13 16 = Inr (Some ps) \<and>
     concat (map piece_bytes ps) = map (\<lambda>j. (4096 + j, 8192 + j)) [0..10 - 1]"
proof -
  have two: "(2 :: int) ^ 4 = 16" and bnd: "0 \<le> (10 :: int)" "0 \<le> (13 :: int)" "13 + 10 + 2 ^ 4 \<le> (2 :: int) ^ 64"
    "0 \<le> (4096 :: int)" "4096 + 10 < (2 :: int) ^ 64" "0 \<le> (8192 :: int)" "8192 + 10 < (2 :: int) ^ 64" by simp_all
  from memcpy_split_exact [OF bnd, unfolded two] show ?thesis by blast
qed

end
