(* ===== verification/MP_Engine.thy ===== *)
theory MP_Engine
  imports Dist_Storage KV_Transfer
begin

text \<open>
  The cache engine of the multiprocess server, \<^verbatim>\<open>MPCacheEngine\<close> and \<^verbatim>\<open>GPUCacheContext\<close> of
  \<^verbatim>\<open>lmcache/v1/multiprocess/server.py\<close>: keys are resolved through the sessions, chunks are copied between
  the paged memory of a registered GPU and the objects of the L1 cache, and the locks are
  released by host functions that the CUDA stream runs later.

  The engine holds the memory of the devices (\<open>LmcBuf\<close> is the temporary buffer of a device, \<open>Paged\<close>
  its key/value cache) and the words of the host objects. Copies happen when they are issued; a
  launched host function waits in \<open>mp_streams\<close> until the stream runs it. Memory contents are seen in
  the words of the transfer kernel. The driver is a parameter: \<open>cuda_raises\<close> says for which chunks of
  a loop a CUDA call raises, \<open>cuda_undefined\<close> what a launch with undefined behaviour leaves in memory.
\<close>

section \<open>Steps that may raise\<close>

type_synonym ('s, 'a) action = "'s \<Rightarrow> 's \<times> 'a result"

definition yield_result :: "'a result \<Rightarrow> ('s, 'a) action" where
  "yield_result r s = (s, r)"

definition and_then :: "('s, 'a) action \<Rightarrow> ('a \<Rightarrow> ('s, 'b) action) \<Rightarrow> ('s, 'b) action" where
  "and_then m f s = (case m s of (s', Inl e) \<Rightarrow> (s', Inl e) | (s', Inr a) \<Rightarrow> f a s')"

fun for_each :: "('x \<Rightarrow> ('s, unit) action) \<Rightarrow> 'x list \<Rightarrow> ('s, unit) action" where
  "for_each f [] s = (s, Inr ())"
| "for_each f (x # xs) s = and_then (f x) (\<lambda>_. for_each f xs) s"

definition check :: "bool \<Rightarrow> ('s, unit) action" where
  "check b = yield_result (if b then Inr () else Inl AssertionError)"

section \<open>GPU contexts\<close>

record GPUCacheContext =
  gc_num_layers :: nat
  gc_num_blocks :: nat
  gc_block_size :: nat
  gc_hidden_dim_size :: nat
  gc_is_mla :: bool
  gc_dtype :: torch_dtype

text \<open>The constructor, from the shapes of the unwrapped tensors and their type.\<close>

definition GPUCacheContext_init :: "nat list list \<Rightarrow> torch_dtype \<Rightarrow> GPUCacheContext result" where
  "GPUCacheContext_init shapes dtype =
     bind_result (py_nth shapes 0) (\<lambda>sh.
       if length sh = 3
       then Inr \<lparr>gc_num_layers = length shapes, gc_num_blocks = sh ! 0, gc_block_size = sh ! 1, gc_hidden_dim_size = sh ! 2,
                 gc_is_mla = True, gc_dtype = dtype\<rparr>
       else bind_result (py_nth sh 1) (\<lambda>num_blocks. bind_result (py_nth sh 2) (\<lambda>block_size.
            bind_result (py_nth sh 3) (\<lambda>num_heads. bind_result (py_nth sh 4) (\<lambda>head_size.
              Inr \<lparr>gc_num_layers = length shapes, gc_num_blocks = num_blocks, gc_block_size = block_size,
                   gc_hidden_dim_size = num_heads * head_size, gc_is_mla = False, gc_dtype = dtype\<rparr>)))))"

definition gc_slot_mapping_tensor :: "GPUCacheContext \<Rightarrow> int list list" where
  "gc_slot_mapping_tensor gc =
     map (\<lambda>block. map (\<lambda>offset. int offset + int block * int (gc_block_size gc)) [0..<gc_block_size gc]) [0..<gc_num_blocks gc]"

text \<open>Indexing with a list of block ids; an id may count from the end, as in all tensor indexing.\<close>

definition get_slot_mapping_tensor :: "GPUCacheContext \<Rightarrow> int list \<Rightarrow> int list result" where
  "get_slot_mapping_tensor gc gpu_block_ids =
     bind_result (map_result (py_nth (gc_slot_mapping_tensor gc)) gpu_block_ids) (\<lambda>rows. Inr (concat rows))"

definition get_kv_buffer_shape :: "GPUCacheContext \<Rightarrow> nat \<Rightarrow> torch_size" where
  "get_kv_buffer_shape gc num_tokens =
     [if gc_is_mla gc then 1 else 2, int (gc_num_layers gc), int num_tokens, int (gc_hidden_dim_size gc)]"

definition tmp_gpu_buffer :: "Torch \<Rightarrow> GPUCacheContext \<Rightarrow> nat \<Rightarrow> kv_tensor" where
  "tmp_gpu_buffer T gc num_tokens =
     \<lparr>kt_size1 = gc_num_layers gc, kt_size2 = num_tokens, kt_size3 = gc_hidden_dim_size gc,
      kt_element_size = nat (torch_itemsize T (gc_dtype gc))\<rparr>"

definition page_buffer_size :: "GPUCacheContext \<Rightarrow> int" where
  "page_buffer_size gc = int (gc_block_size gc * gc_num_blocks gc)"

section \<open>The engine\<close>

datatype host_func = FinishWriteFunc "ObjectKey list" | FinishReadFunc "ObjectKey list"

record 'd MPCacheEngine =
  mp_gpu_contexts :: "(int \<times> GPUCacheContext) list"
  mp_chunk_size :: nat
  mp_storage_manager :: StorageManager
  mp_session_manager :: SessionManager
  mp_devices :: "int \<Rightarrow> addr \<Rightarrow> 'd"
  mp_host :: "mem_id \<Rightarrow> int \<Rightarrow> 'd"
  mp_streams :: "host_func list"

text \<open>The constructor; the session manager has its default time to live of 600 seconds.\<close>

definition MPCacheEngine_init ::
  "SortedList_ops \<Rightarrow> Torch \<Rightarrow> StorageManagerConfig \<Rightarrow> nat \<Rightarrow> hash_func \<Rightarrow> hash_val option \<Rightarrow> (int \<Rightarrow> addr \<Rightarrow> 'd) \<Rightarrow>
   (mem_id \<Rightarrow> int \<Rightarrow> 'd) \<Rightarrow> 'd MPCacheEngine result"
where
  "MPCacheEngine_init S T config chunk_size hash_func vllm_none_hash devices host =
     bind_result (StorageManager_init S T config) (\<lambda>sm.
     bind_result (TokenHasher_init chunk_size hash_func vllm_none_hash) (\<lambda>hasher.
       Inr \<lparr>mp_gpu_contexts = [], mp_chunk_size = chunk_size, mp_storage_manager = sm,
            mp_session_manager = \<lparr>sm_hasher = hasher, sm_ttl = 600, sm_sessions = []\<rparr>,
            mp_devices = devices, mp_host = host, mp_streams = []\<rparr>))"

definition register_kv_cache :: "int \<Rightarrow> nat list list \<Rightarrow> torch_dtype \<Rightarrow> 'd MPCacheEngine \<Rightarrow> 'd MPCacheEngine \<times> unit result" where
  "register_kv_cache instance_id shapes dtype eng =
     (case GPUCacheContext_init shapes dtype of
        Inl e \<Rightarrow> (eng, Inl e)
      | Inr gc \<Rightarrow> (eng\<lparr>mp_gpu_contexts := AList.update instance_id gc (mp_gpu_contexts eng)\<rparr>, Inr ()))"

definition unregister_kv_cache :: "int \<Rightarrow> 'd MPCacheEngine \<Rightarrow> 'd MPCacheEngine" where
  "unregister_kv_cache instance_id eng = eng\<lparr>mp_gpu_contexts := AList.delete instance_id (mp_gpu_contexts eng)\<rparr>"

definition on_sessions :: "(SessionManager \<Rightarrow> SessionManager \<times> 'a) \<Rightarrow> 'd MPCacheEngine \<Rightarrow> 'd MPCacheEngine \<times> 'a" where
  "on_sessions f eng = (case f (mp_session_manager eng) of (s, r) \<Rightarrow> (eng\<lparr>mp_session_manager := s\<rparr>, r))"

definition on_storage :: "(StorageManager \<Rightarrow> StorageManager \<times> 'a) \<Rightarrow> 'd MPCacheEngine \<Rightarrow> 'd MPCacheEngine \<times> 'a" where
  "on_storage f eng = (case f (mp_storage_manager eng) of (s, r) \<Rightarrow> (eng\<lparr>mp_storage_manager := s\<rparr>, r))"

subsection \<open>Resolving keys\<close>

text \<open>A call of \<^verbatim>\<open>get_hashes\<close> on the session of a request, which is created when it is missing.\<close>

definition session_hashes ::
  "int \<Rightarrow> string \<Rightarrow> int list option \<Rightarrow> nat \<Rightarrow> nat \<Rightarrow> SessionManager \<Rightarrow> SessionManager \<times> hash_val list result"
where
  "session_hashes now request_id tokens start end sm =
     (case get_or_create now request_id sm of
        (sm1, session) \<Rightarrow>
          (case get_hashes (sm_hasher sm1) start end
                  (case tokens of None \<Rightarrow> session | Some ts \<Rightarrow> set_tokens ts session) of
             (session', r) \<Rightarrow> (sm1\<lparr>sm_sessions := AList.update request_id session' (sm_sessions sm1)\<rparr>, r)))"

definition update_session_for_key :: "int \<Rightarrow> IPCCacheEngineKey \<Rightarrow> (SessionManager, unit) action" where
  "update_session_for_key now key sm =
     (if \<not> is_token_mode key then (sm, Inr ())
      else case ik_request_id key of
             None \<Rightarrow> (sm, Inl AssertionError)
           | Some request_id \<Rightarrow>
               (case session_hashes now request_id (ik_token_ids key) (ik_start key) (ik_end key) sm of
                  (sm', r) \<Rightarrow> (sm', bind_result r (\<lambda>_. Inr ()))))"

definition resolve_key :: "int \<Rightarrow> IPCCacheEngineKey \<Rightarrow> (SessionManager, IPCCacheEngineKey list) action" where
  "resolve_key now key sm =
     (if is_token_mode key
      then (case ik_request_id key of
              None \<Rightarrow> (sm, Inl AssertionError)
            | Some request_id \<Rightarrow>
                (case session_hashes now request_id None (ik_start key) (ik_end key) sm of
                   (sm', r) \<Rightarrow>
                     (sm', bind_result r (map_result (\<lambda>h. bind_result (hash_to_bytes h) (\<lambda>b.
                        Inr (hash_key (ik_model_name key) (ik_world_size key) (ik_worker_id key) b None)))))))
      else (sm, Inr [key]))"

fun resolve_keys :: "int \<Rightarrow> IPCCacheEngineKey list \<Rightarrow> (SessionManager, IPCCacheEngineKey list) action" where
  "resolve_keys now [] sm = (sm, Inr [])"
| "resolve_keys now (key # keys) sm =
     and_then (resolve_key now key) (\<lambda>ks. and_then (resolve_keys now keys) (\<lambda>kss. yield_result (Inr (ks @ kss)))) sm"

text \<open>The common beginning of \<^verbatim>\<open>store\<close> and \<^verbatim>\<open>retrieve\<close>.\<close>

definition worker_object_keys :: "int \<Rightarrow> IPCCacheEngineKey list \<Rightarrow> ('d MPCacheEngine, ObjectKey list) action" where
  "worker_object_keys now keys =
     and_then (on_sessions (for_each (update_session_for_key now) keys)) (\<lambda>_.
     and_then (on_sessions (resolve_keys now keys)) (\<lambda>ipc_keys.
     and_then (check (\<forall>k \<in> set ipc_keys. ik_worker_id k \<noteq> None)) (\<lambda>_.
       yield_result (ipc_keys_to_object_keys ipc_keys))))"

definition gpu_context :: "int \<Rightarrow> ('d MPCacheEngine, GPUCacheContext) action" where
  "gpu_context instance_id eng =
     (eng, case map_of (mp_gpu_contexts eng) instance_id of None \<Rightarrow> Inl AssertionError | Some gc \<Rightarrow> Inr gc)"


subsection \<open>Copies between a chunk and its object\<close>

record 'd cuda =
  cuda_raises :: "nat \<Rightarrow> bool"
  cuda_undefined :: "(addr \<Rightarrow> 'd) \<Rightarrow> addr \<Rightarrow> 'd"

definition l1_object :: "L1Allocator \<Rightarrow> mem_id \<Rightarrow> TensorMemoryObj" where
  "l1_object a i =
     (case a of
        LazyAlloc lz w \<Rightarrow> mw_heap w ! i
      | MixedAlloc m \<Rightarrow> (case mx_pin_allocator m of TensorPool w \<Rightarrow> mw_heap w ! i | PagedPool w \<Rightarrow> mw_heap w ! i))"

text \<open>
  The pieces of a copy of an object, relative to its start: the lazy allocator's objects are copied by
  \<^verbatim>\<open>lmcache_memcpy_async\<close>, the others as a whole. A loop that does not end is excluded for every
  object of the allocator; it is an error here.
\<close>

definition object_pieces :: "L1Allocator \<Rightarrow> mem_id \<Rightarrow> (int \<times> int \<times> int) list result" where
  "object_pieces a i =
     (let ob = l1_object a i; nbytes = TensorMemoryObj_get_size ob
      in case a of
           LazyAlloc lz w \<Rightarrow>
             bind_result (lmcache_memcpy_async 0 0 nbytes (md_address (tm_meta ob)) PIN_CHUNK_SIZE) (\<lambda>ps.
               case ps of None \<Rightarrow> Inl RuntimeError | Some pieces \<Rightarrow> Inr pieces)
         | MixedAlloc m \<Rightarrow> Inr [(0, 0, nbytes)])"

text \<open>Word \<open>n\<close> is copied when all its bytes are.\<close>

definition word_copied :: "nat \<Rightarrow> (int \<times> int \<times> int) list \<Rightarrow> int \<Rightarrow> bool" where
  "word_copied word pieces n =
     list_all (\<lambda>b. list_ex (\<lambda>(d, s, len). d \<le> b \<and> b < d + len) pieces) [n * int word..n * int word + int word - 1]"

definition tensor_numel :: "Torch \<Rightarrow> TensorMemoryObj \<Rightarrow> int" where
  "tensor_numel T ob = torch_numel T (md_shape (tm_meta ob))"

text \<open>
  The two assertions and the copy of \<^verbatim>\<open>lmcache_memcpy_async_d2h\<close> and \<^verbatim>\<open>lmcache_memcpy_async_h2d\<close>, between
  the words of the temporary buffer and the words of the object.
\<close>

definition object_copy :: "Torch \<Rightarrow> L1Allocator \<Rightarrow> mem_id \<Rightarrow> torch_size \<Rightarrow> (int \<times> int \<times> int) list result" where
  "object_copy T a i buffer_shape =
     (if TensorMemoryObj_tensor T (l1_object a i) = None then Inl AssertionError
      else if tensor_numel T (l1_object a i) \<noteq> torch_numel T buffer_shape then Inl AssertionError
      else object_pieces a i)"

definition lmcache_memcpy_async_d2h ::
  "Torch \<Rightarrow> L1Allocator \<Rightarrow> mem_id \<Rightarrow> torch_size \<Rightarrow> nat \<Rightarrow> (addr \<Rightarrow> 'd) \<Rightarrow> (int \<Rightarrow> 'd) \<Rightarrow> (int \<Rightarrow> 'd) result"
where
  "lmcache_memcpy_async_d2h T a i buffer_shape word device host =
     bind_result (object_copy T a i buffer_shape) (\<lambda>pieces.
       Inr (\<lambda>n. if word_copied word pieces n then device (LmcBuf n) else host n))"

definition lmcache_memcpy_async_h2d ::
  "Torch \<Rightarrow> L1Allocator \<Rightarrow> mem_id \<Rightarrow> torch_size \<Rightarrow> nat \<Rightarrow> (int \<Rightarrow> 'd) \<Rightarrow> (addr \<Rightarrow> 'd) \<Rightarrow> (addr \<Rightarrow> 'd) result"
where
  "lmcache_memcpy_async_h2d T a i buffer_shape word host device =
     bind_result (object_copy T a i buffer_shape) (\<lambda>pieces.
       Inr (\<lambda>x. case x of LmcBuf n \<Rightarrow> if word_copied word pieces n then host n else device (LmcBuf n) | Paged l n \<Rightarrow> device (Paged l n)))"

definition l1_allocator :: "'d MPCacheEngine \<Rightarrow> L1Allocator" where
  "l1_allocator eng = l1_memory (sm_l1_manager (mp_storage_manager eng))"

definition run_transfer :: "'d cuda \<Rightarrow> kv_tensor \<Rightarrow> int list \<Rightarrow> int \<Rightarrow> bool \<Rightarrow> bool \<Rightarrow> (addr \<Rightarrow> 'd) \<Rightarrow> addr \<Rightarrow> 'd" where
  "run_transfer cuda kv slots P direction use_mla device =
     (case multi_layer_kv_transfer kv slots P direction use_mla of
        None \<Rightarrow> cuda_undefined cuda device
      | Some threads \<Rightarrow> run_copies (concat threads) device)"

definition chunk_slots :: "nat \<Rightarrow> int list \<Rightarrow> nat \<Rightarrow> int list" where
  "chunk_slots chunk_size slot_mapping_tensor idx = take chunk_size (drop (idx * chunk_size) slot_mapping_tensor)"

text \<open>The rounds of the loops of \<^verbatim>\<open>store\<close> and \<^verbatim>\<open>_retrieve_loop\<close>.\<close>

definition store_chunk ::
  "Torch \<Rightarrow> 'd cuda \<Rightarrow> int \<Rightarrow> GPUCacheContext \<Rightarrow> int list \<Rightarrow> nat \<times> mem_id \<Rightarrow> ('d MPCacheEngine, unit) action"
where
  "store_chunk T cuda instance_id gc slot_mapping_tensor c eng =
     (case c of (idx, i) \<Rightarrow>
        if cuda_raises cuda idx then (eng, Inl RuntimeError)
        else let kv = tmp_gpu_buffer T gc (mp_chunk_size eng);
                 device = run_transfer cuda kv (chunk_slots (mp_chunk_size eng) slot_mapping_tensor idx) (page_buffer_size gc)
                   True (gc_is_mla gc) (mp_devices eng instance_id);
                 eng1 = eng\<lparr>mp_devices := (mp_devices eng)(instance_id := device)\<rparr>
             in case lmcache_memcpy_async_d2h T (l1_allocator eng) i (get_kv_buffer_shape gc (mp_chunk_size eng)) (transfer_word kv)
                       device (mp_host eng i) of
                  Inl e \<Rightarrow> (eng1, Inl e)
                | Inr content \<Rightarrow> (eng1\<lparr>mp_host := (mp_host eng)(i := content)\<rparr>, Inr ()))"

definition retrieve_chunk ::
  "Torch \<Rightarrow> 'd cuda \<Rightarrow> int \<Rightarrow> GPUCacheContext \<Rightarrow> int list \<Rightarrow> nat \<times> mem_id \<Rightarrow> ('d MPCacheEngine, unit) action"
where
  "retrieve_chunk T cuda instance_id gc slot_mapping_tensor c eng =
     (case c of (idx, i) \<Rightarrow>
        if cuda_raises cuda idx then (eng, Inl RuntimeError)
        else let kv = tmp_gpu_buffer T gc (mp_chunk_size eng)
             in case lmcache_memcpy_async_h2d T (l1_allocator eng) i (get_kv_buffer_shape gc (mp_chunk_size eng)) (transfer_word kv)
                       (mp_host eng i) (mp_devices eng instance_id) of
                  Inl e \<Rightarrow> (eng, Inl e)
                | Inr device \<Rightarrow>
                    (eng\<lparr>mp_devices := (mp_devices eng)(instance_id :=
                       run_transfer cuda kv (chunk_slots (mp_chunk_size eng) slot_mapping_tensor idx) (page_buffer_size gc)
                         False (gc_is_mla gc) device)\<rparr>, Inr ()))"

definition launch_host_func :: "host_func \<Rightarrow> ('d MPCacheEngine, unit) action" where
  "launch_host_func f eng = (eng\<lparr>mp_streams := mp_streams eng @ [f]\<rparr>, Inr ())"

subsection \<open>Store\<close>

text \<open>The keys that were reserved, with their position in the request.\<close>

definition reserved_chunks :: "ObjectKey list \<Rightarrow> (ObjectKey \<times> mem_id) list \<Rightarrow> (nat \<times> mem_id) list" where
  "reserved_chunks obj_keys reserved_dict =
     List.map_filter (\<lambda>(idx, obj_key). map_option (Pair idx) (map_of reserved_dict obj_key)) (enumerate 0 obj_keys)"

definition MPCacheEngine_store ::
  "SortedList_ops \<Rightarrow> Torch \<Rightarrow> 'd cuda \<Rightarrow> int64 \<Rightarrow> IPCCacheEngineKey list \<Rightarrow> int \<Rightarrow> int list \<Rightarrow> ('d MPCacheEngine, bool) action"
where
  "MPCacheEngine_store S T cuda now keys instance_id gpu_block_ids eng =
     and_then (worker_object_keys (sint now) keys) (\<lambda>obj_keys.
     and_then (gpu_context instance_id) (\<lambda>gc.
     and_then (yield_result (get_slot_mapping_tensor gc gpu_block_ids)) (\<lambda>slot_mapping_tensor.
     and_then (yield_result (MemoryLayoutDesc_init [get_kv_buffer_shape gc (mp_chunk_size eng)] [gc_dtype gc])) (\<lambda>layout_desc.
     and_then (on_storage (StorageManager_reserve_write S T now obj_keys layout_desc New)) (\<lambda>reserved_dict.
     and_then (for_each (store_chunk T cuda instance_id gc slot_mapping_tensor) (reserved_chunks obj_keys reserved_dict)) (\<lambda>_.
     and_then (launch_host_func (FinishWriteFunc (map fst reserved_dict))) (\<lambda>_.
       yield_result (Inr True)))))))) eng"

subsection \<open>Retrieve\<close>

text \<open>
  The body of the \<^verbatim>\<open>with\<close> statement returns when objects are missing (\<open>returns\<close>), otherwise it runs the
  loop. \<open>now1\<close> is the time when the generator \<^verbatim>\<open>read_prefetched_results\<close> starts, \<open>now2\<close> when it ends. A
  \<^verbatim>\<open>return\<close> of the body resumes the generator normally; an exception is raised in the generator, which
  catches it, so that the statement after the \<^verbatim>\<open>with\<close> runs next. The \<^verbatim>\<open>except\<close> clause of \<^verbatim>\<open>retrieve\<close> only sees
  exceptions of the storage manager itself.
\<close>

definition MPCacheEngine_retrieve ::
  "SortedList_ops \<Rightarrow> Torch \<Rightarrow> 'd cuda \<Rightarrow> int64 \<Rightarrow> int64 \<Rightarrow> IPCCacheEngineKey list \<Rightarrow> int \<Rightarrow> int list \<Rightarrow>
   ('d MPCacheEngine, bool list) action"
where
  "MPCacheEngine_retrieve S T cuda now1 now2 keys instance_id gpu_block_ids eng =
     and_then (worker_object_keys (sint now1) keys) (\<lambda>obj_keys.
     and_then (gpu_context instance_id) (\<lambda>gc.
     and_then (yield_result (get_slot_mapping_tensor gc gpu_block_ids)) (\<lambda>slot_mapping_tensor eng1.
       case read_prefetched_enter now1 obj_keys (mp_storage_manager eng1) of
         (memory_objs, good_keys, all_good) \<Rightarrow>
           let returns = (case memory_objs of None \<Rightarrow> True | Some ids \<Rightarrow> ids = [] \<or> length ids \<noteq> length obj_keys);
               prefetched_keys = (if returns then [] else take (length (the memory_objs)) obj_keys);
               body = (if returns then (eng1, Inr ())
                       else for_each (retrieve_chunk T cuda instance_id gc slot_mapping_tensor) (enumerate 0 (the memory_objs)) eng1)
           in case on_storage (read_prefetched_exit S now2 all_good good_keys (\<not> isl (snd body))) (fst body) of
                (eng2, exit_result) \<Rightarrow>
                  and_then (launch_host_func (FinishReadFunc prefetched_keys)) (\<lambda>_.
                    yield_result (Inr (replicate (length obj_keys) (\<not> returns \<and> \<not> isl exit_result)))) eng2))) eng"


subsection \<open>Lookup and the other requests\<close>

definition lookup_ipc_keys :: "TokenHasher \<Rightarrow> IPCCacheEngineKey list \<Rightarrow> IPCCacheEngineKey list result" where
  "lookup_ipc_keys hasher keys =
     bind_result (map_result (\<lambda>key. if is_token_mode key then to_hash_keys hasher key else Inr [key]) keys) (\<lambda>kss. Inr (concat kss))"

text \<open>The status of a prefetch is known at once, so the polling loop ends in its first round.\<close>

definition MPCacheEngine_lookup ::
  "SortedList_ops \<Rightarrow> int64 \<Rightarrow> int64 \<Rightarrow> IPCCacheEngineKey list \<Rightarrow> ('d MPCacheEngine, int) action"
where
  "MPCacheEngine_lookup S now1 now2 keys eng =
     and_then (yield_result (lookup_ipc_keys (sm_hasher (mp_session_manager eng)) keys)) (\<lambda>ipc_keys.
       if ipc_keys = [] then yield_result (Inr 0)
       else and_then (yield_result (ipc_keys_to_object_keys ipc_keys)) (\<lambda>obj_keys.
            and_then (on_storage (submit_prefetch_task S now1 now2 obj_keys)) (\<lambda>handle.
              yield_result
                (case query_prefetch_status handle of
                   None \<Rightarrow> Inl RuntimeError
                 | Some found_count \<Rightarrow>
                     let world_size = ik_world_size (hd ipc_keys)
                     in if world_size = 0 then Inl ZeroDivisionError else Inr (int found_count div world_size))))) eng"

definition get_chunk_size :: "'d MPCacheEngine \<Rightarrow> nat" where
  "get_chunk_size eng = mp_chunk_size eng"

definition end_session :: "string \<Rightarrow> 'd MPCacheEngine \<Rightarrow> 'd MPCacheEngine" where
  "end_session request_id eng = eng\<lparr>mp_session_manager := SessionManager_remove request_id (mp_session_manager eng)\<rparr>"

definition debug :: "'d MPCacheEngine \<Rightarrow> string" where
  "debug eng = ''OK''"

definition MPCacheEngine_clear :: "SortedList_ops \<Rightarrow> ('d MPCacheEngine, unit) action" where
  "MPCacheEngine_clear S = on_storage (StorageManager_clear S)"

definition MPCacheEngine_close :: "SortedList_ops \<Rightarrow> ('d MPCacheEngine, unit) action" where
  "MPCacheEngine_close S eng =
     and_then (on_storage (StorageManager_close S)) (\<lambda>_ e. (e\<lparr>mp_gpu_contexts := []\<rparr>, Inr ())) eng"

text \<open>The stream runs the oldest host function; an exception in it is not seen by anyone.\<close>

definition run_host_func :: "SortedList_ops \<Rightarrow> int64 \<Rightarrow> 'd MPCacheEngine \<Rightarrow> 'd MPCacheEngine" where
  "run_host_func S now eng =
     (case mp_streams eng of
        [] \<Rightarrow> eng
      | f # fs \<Rightarrow>
          eng\<lparr>mp_streams := fs,
              mp_storage_manager :=
                (case f of
                   FinishWriteFunc keys \<Rightarrow> StorageManager_finish_write now keys (mp_storage_manager eng)
                 | FinishReadFunc keys \<Rightarrow> fst (finish_read_prefetched S now keys (mp_storage_manager eng)))\<rparr>)"

section \<open>Slots of a request\<close>

lemma nth_slot_row:
  assumes "0 \<le> b" and "b < int (gc_num_blocks gc)"
  shows "py_nth (gc_slot_mapping_tensor gc) b = Inr (map (\<lambda>j. int j + b * int (gc_block_size gc)) [0..<gc_block_size gc])"
  using assms by (simp add: py_nth_def gc_slot_mapping_tensor_def)

definition block_slots :: "GPUCacheContext \<Rightarrow> int list \<Rightarrow> int list" where
  "block_slots gc ids = concat (map (\<lambda>b. map (\<lambda>j. int j + b * int (gc_block_size gc)) [0..<gc_block_size gc]) ids)"

definition blocks_valid :: "GPUCacheContext \<Rightarrow> int list \<Rightarrow> bool" where
  "blocks_valid gc ids \<longleftrightarrow> (\<forall>b \<in> set ids. 0 \<le> b \<and> b < int (gc_num_blocks gc))"

lemma get_slot_mapping_valid:
  assumes "blocks_valid gc ids"
  shows "get_slot_mapping_tensor gc ids = Inr (block_slots gc ids)"
proof -
  have "map_result (py_nth (gc_slot_mapping_tensor gc)) ids =
      Inr (map (\<lambda>b. map (\<lambda>j. int j + b * int (gc_block_size gc)) [0..<gc_block_size gc]) ids)"
    unfolding map_result_iff using assms by (auto simp: list_all2_conv_all_nth blocks_valid_def nth_slot_row)
  then show ?thesis by (simp add: get_slot_mapping_tensor_def block_slots_def)
qed

lemma length_block_slots [simp]: "length (block_slots gc ids) = length ids * gc_block_size gc"
  by (induction ids) (simp_all add: block_slots_def)

lemma block_slots_bounds:
  assumes "blocks_valid gc ids" and "s \<in> set (block_slots gc ids)"
  shows "0 \<le> s" and "s < page_buffer_size gc"
proof -
  obtain b j where s: "b \<in> set ids" "j < gc_block_size gc" "s = b * int (gc_block_size gc) + int j"
    using assms(2) by (auto simp: block_slots_def)
  have b: "0 \<le> b" "b < int (gc_num_blocks gc)" using assms(1) s(1) by (simp_all add: blocks_valid_def)
  show "0 \<le> s" using b s by simp
  show "s < page_buffer_size gc"
    using radix_bound [of b "int (gc_num_blocks gc)" "int j" "int (gc_block_size gc)"] b s by (simp add: page_buffer_size_def mult.commute)
qed

lemma distinct_block_slots:
  assumes "distinct ids"
  shows "distinct (block_slots gc ids)"
  using assms
proof (induction ids)
  case (Cons b ids)
  have "b * int n + int j \<noteq> b' * int n + int j'" if "b \<noteq> b'" "j < n" "j' < n" for b' n j j'
    using radix_inj [of "int j" "int n" "int j'" b b'] that by auto
  then have "set (map (\<lambda>j. int j + b * int (gc_block_size gc)) [0..<gc_block_size gc]) \<inter> set (block_slots gc ids) = {}"
    using Cons.prems by (fastforce simp: block_slots_def add.commute)
  moreover have "distinct (map (\<lambda>j. int j + b * int (gc_block_size gc)) [0..<gc_block_size gc])" by (simp add: distinct_map inj_on_def)
  moreover have "block_slots gc (b # ids) = map (\<lambda>j. int j + b * int (gc_block_size gc)) [0..<gc_block_size gc] @ block_slots gc ids"
    by (simp add: block_slots_def)
  ultimately show ?case using Cons by simp
qed (simp add: block_slots_def)

lemma chunk_slots_nth:
  "idx * cs + t < length slots \<Longrightarrow> t < cs \<Longrightarrow> chunk_slots cs slots idx ! t = slots ! (idx * cs + t)"
  by (simp add: chunk_slots_def)

lemma chunk_slots_set: "set (chunk_slots cs slots idx) \<subseteq> set slots"
  unfolding chunk_slots_def using set_take_subset set_drop_subset by fast

lemma chunk_slots_length:
  assumes "length slots = n * cs" and "idx < n"
  shows "length (chunk_slots cs slots idx) = cs"
proof -
  have "Suc idx * cs \<le> n * cs" using assms(2) by (intro mult_le_mono1) simp
  then show ?thesis using assms(1) by (simp add: chunk_slots_def)
qed

lemma chunk_slots_disjoint:
  assumes "distinct slots" and "idx \<noteq> idx'"
  shows "set (chunk_slots cs slots idx) \<inter> set (chunk_slots cs slots idx') = {}"
proof -
  have "x \<notin> set (chunk_slots cs slots j)" if x: "x \<in> set (chunk_slots cs slots i)" and ij: "i < j" for x i j
  proof -
    have "x \<in> set (take (i * cs + cs) slots)" using x unfolding chunk_slots_def
      by (metis add.commute in_set_dropD take_drop)
    moreover have "i * cs + cs \<le> j * cs" using ij mult_le_mono1 [of "Suc i" j cs] by simp
    ultimately have xt: "x \<in> set (take (j * cs) slots)" by (rule subsetD [OF set_take_subset_set_take, rotated])
    have "set (chunk_slots cs slots j) \<subseteq> set (drop (j * cs) slots)" by (simp add: chunk_slots_def set_take_subset)
    moreover have "set (take (j * cs) slots) \<inter> set (drop (j * cs) slots) = {}" using assms(1) by (simp add: set_take_disj_set_drop_if_distinct)
    ultimately show ?thesis using xt by blast
  qed
  then have "x \<notin> set (chunk_slots cs slots idx) \<or> x \<notin> set (chunk_slots cs slots idx')" for x
    using assms(2) by (cases "idx < idx'") auto
  then show ?thesis by blast
qed

section \<open>Copies of one chunk\<close>

text \<open>A context whose transfers fit the 32-bit offsets of the kernel.\<close>

definition context_fits :: "Torch \<Rightarrow> nat \<Rightarrow> GPUCacheContext \<Rightarrow> bool" where
  "context_fits T cs gc \<longleftrightarrow>
     torch_itemsize T (gc_dtype gc) \<in> {1, 2, 4, 8} \<and>
     kv_parts (gc_is_mla gc) * gc_num_layers gc * cs * row_words (tmp_gpu_buffer T gc cs) \<le> 2 ^ 31 \<and>
     int (kv_parts (gc_is_mla gc)) * page_buffer_size gc * int (row_words (tmp_gpu_buffer T gc cs)) \<le> 2 ^ 31"

definition chunk_ok :: "Torch \<Rightarrow> nat \<Rightarrow> GPUCacheContext \<Rightarrow> int list \<Rightarrow> bool" where
  "chunk_ok T cs gc slots \<longleftrightarrow>
     context_fits T cs gc \<and> length slots = cs \<and> (\<forall>s \<in> set slots. 0 \<le> s \<and> s < page_buffer_size gc)"

text \<open>The words of a chunk: their place in the temporary buffer and their address in the paged memory.\<close>

definition chunk_cells :: "Torch \<Rightarrow> nat \<Rightarrow> GPUCacheContext \<Rightarrow> (nat \<times> nat \<times> nat \<times> nat) set" where
  "chunk_cells T cs gc =
     {(k, l, t, i). k < kv_parts (gc_is_mla gc) \<and> l < gc_num_layers gc \<and> t < cs \<and> i < row_words (tmp_gpu_buffer T gc cs)}"

definition cell_index :: "Torch \<Rightarrow> nat \<Rightarrow> GPUCacheContext \<Rightarrow> nat \<times> nat \<times> nat \<times> nat \<Rightarrow> int" where
  "cell_index T cs gc c =
     (case c of (k, l, t, i) \<Rightarrow>
        ((int k * int (gc_num_layers gc) + int l) * int cs + int t) * int (row_words (tmp_gpu_buffer T gc cs)) + int i)"

definition cell_addr :: "Torch \<Rightarrow> nat \<Rightarrow> GPUCacheContext \<Rightarrow> int list \<Rightarrow> nat \<times> nat \<times> nat \<times> nat \<Rightarrow> addr" where
  "cell_addr T cs gc slots = page_word (tmp_gpu_buffer T gc cs) (page_buffer_size gc) slots"

lemma tmp_gpu_buffer_simps [simp]:
  "kt_size1 (tmp_gpu_buffer T gc cs) = gc_num_layers gc" "kt_size2 (tmp_gpu_buffer T gc cs) = cs"
  "kt_size3 (tmp_gpu_buffer T gc cs) = gc_hidden_dim_size gc"
  "kt_element_size (tmp_gpu_buffer T gc cs) = nat (torch_itemsize T (gc_dtype gc))"
  by (simp_all add: tmp_gpu_buffer_def)

lemma chunk_transfer:
  assumes "chunk_ok T cs gc slots"
  shows "transfer_fits (tmp_gpu_buffer T gc cs) slots (page_buffer_size gc) (gc_is_mla gc)"
    and "transfer_cells (tmp_gpu_buffer T gc cs) slots (gc_is_mla gc) = chunk_cells T cs gc"
    and "lmc_word (tmp_gpu_buffer T gc cs) slots c = LmcBuf (cell_index T cs gc c)"
proof -
  have "nat (torch_itemsize T (gc_dtype gc)) \<in> {1, 2, 4, 8}" using assms by (auto simp: chunk_ok_def context_fits_def)
  then show "transfer_fits (tmp_gpu_buffer T gc cs) slots (page_buffer_size gc) (gc_is_mla gc)"
    using assms by (simp add: transfer_fits_def chunk_ok_def context_fits_def)
  show "transfer_cells (tmp_gpu_buffer T gc cs) slots (gc_is_mla gc) = chunk_cells T cs gc"
    using assms by (auto simp: transfer_cells_def cells_def chunk_cells_def chunk_ok_def)
  show "lmc_word (tmp_gpu_buffer T gc cs) slots c = LmcBuf (cell_index T cs gc c)"
    using assms by (simp add: lmc_word_def lmc_cell_def cell_index_def chunk_ok_def split: prod.split)
qed

lemma run_transfer_eq:
  assumes "chunk_ok T cs gc slots"
  obtains threads where
    "multi_layer_kv_transfer (tmp_gpu_buffer T gc cs) slots (page_buffer_size gc) direction (gc_is_mla gc) = Some threads"
    "run_transfer cuda (tmp_gpu_buffer T gc cs) slots (page_buffer_size gc) direction (gc_is_mla gc) device = run_copies (concat threads) device"
  using transfer_launch [OF chunk_transfer(1) [OF assms], of direction] that by (auto simp: run_transfer_def)

lemma offload_chunk:
  assumes "chunk_ok T cs gc slots"
  shows "c \<in> chunk_cells T cs gc \<Longrightarrow>
      run_transfer cuda (tmp_gpu_buffer T gc cs) slots (page_buffer_size gc) True (gc_is_mla gc) device (LmcBuf (cell_index T cs gc c)) =
        device (cell_addr T cs gc slots c)"
    and "run_transfer cuda (tmp_gpu_buffer T gc cs) slots (page_buffer_size gc) True (gc_is_mla gc) device (Paged l n) = device (Paged l n)"
proof -
  obtain threads where
    t: "multi_layer_kv_transfer (tmp_gpu_buffer T gc cs) slots (page_buffer_size gc) True (gc_is_mla gc) = Some threads"
    and r: "run_transfer cuda (tmp_gpu_buffer T gc cs) slots (page_buffer_size gc) True (gc_is_mla gc) device = run_copies (concat threads) device"
    by (rule run_transfer_eq [OF assms])
  note e = transfer_effect [OF chunk_transfer(1) [OF assms] disjI1 [OF TrueI] t refl, of device,
      unfolded chunk_transfer(2,3) [OF assms] if_True]
  show "c \<in> chunk_cells T cs gc \<Longrightarrow>
      run_transfer cuda (tmp_gpu_buffer T gc cs) slots (page_buffer_size gc) True (gc_is_mla gc) device (LmcBuf (cell_index T cs gc c)) =
        device (cell_addr T cs gc slots c)"
    unfolding r cell_addr_def using conjunct1 [OF e] by blast
  show "run_transfer cuda (tmp_gpu_buffer T gc cs) slots (page_buffer_size gc) True (gc_is_mla gc) device (Paged l n) = device (Paged l n)"
    unfolding r using conjunct2 [OF e] chunk_transfer(3) [OF assms] by (metis (no_types, lifting) addr.distinct(1) imageE)
qed

lemma load_chunk:
  assumes "chunk_ok T cs gc slots" and "distinct slots"
  shows "c \<in> chunk_cells T cs gc \<Longrightarrow>
      run_transfer cuda (tmp_gpu_buffer T gc cs) slots (page_buffer_size gc) False (gc_is_mla gc) device (cell_addr T cs gc slots c) =
        device (LmcBuf (cell_index T cs gc c))"
    and "a \<notin> cell_addr T cs gc slots ` chunk_cells T cs gc \<Longrightarrow>
      run_transfer cuda (tmp_gpu_buffer T gc cs) slots (page_buffer_size gc) False (gc_is_mla gc) device a = device a"
proof -
  obtain threads where
    t: "multi_layer_kv_transfer (tmp_gpu_buffer T gc cs) slots (page_buffer_size gc) False (gc_is_mla gc) = Some threads"
    and r: "run_transfer cuda (tmp_gpu_buffer T gc cs) slots (page_buffer_size gc) False (gc_is_mla gc) device = run_copies (concat threads) device"
    by (rule run_transfer_eq [OF assms(1)])
  have d: "False \<or> distinct (filter (\<lambda>s. 0 \<le> s) slots)" using assms(2) by simp
  note e = transfer_effect [OF chunk_transfer(1) [OF assms(1)] d t refl, of device, unfolded chunk_transfer(2,3) [OF assms(1)] if_False]
  show "c \<in> chunk_cells T cs gc \<Longrightarrow>
      run_transfer cuda (tmp_gpu_buffer T gc cs) slots (page_buffer_size gc) False (gc_is_mla gc) device (cell_addr T cs gc slots c) =
        device (LmcBuf (cell_index T cs gc c))"
    unfolding r cell_addr_def using conjunct1 [OF e] by blast
  show "a \<notin> cell_addr T cs gc slots ` chunk_cells T cs gc \<Longrightarrow>
      run_transfer cuda (tmp_gpu_buffer T gc cs) slots (page_buffer_size gc) False (gc_is_mla gc) device a = device a"
    unfolding r cell_addr_def using conjunct2 [OF e] by blast
qed

text \<open>Two chunks without a common slot use different words of the paged memory.\<close>

lemma cell_addr_disjoint:
  assumes "chunk_ok T cs gc slots" "chunk_ok T cs gc slots'" and "set slots \<inter> set slots' = {}"
    and c: "c \<in> chunk_cells T cs gc" "c' \<in> chunk_cells T cs gc"
  shows "cell_addr T cs gc slots c \<noteq> cell_addr T cs gc slots' c'"
proof
  assume e: "cell_addr T cs gc slots c = cell_addr T cs gc slots' c'"
  let ?P = "page_buffer_size gc" and ?W = "int (row_words (tmp_gpu_buffer T gc cs))"
  obtain k l t i k' l' t' i' where cc: "c = (k, l, t, i)" "c' = (k', l', t', i')" by (metis prod_cases4)
  have t: "t < length slots" "t' < length slots'" and i: "int i < ?W" "int i' < ?W"
    using c assms(1,2) by (simp_all add: cc chunk_cells_def chunk_ok_def)
  have s: "0 \<le> slots ! t" "slots ! t < ?P" "0 \<le> slots' ! t'" "slots' ! t' < ?P"
    using assms(1,2) nth_mem [OF t(1)] nth_mem [OF t(2)] by (simp_all add: chunk_ok_def)
  have "(int k * ?P + slots ! t) * ?W + int i = (int k' * ?P + slots' ! t') * ?W + int i'"
    using e by (simp add: cell_addr_def page_word_def page_cell_def cc)
  then have "int k * ?P + slots ! t = int k' * ?P + slots' ! t'" using radix_inj i by (metis of_nat_0_le_iff)
  then have "slots ! t = slots' ! t'" using radix_inj s by metis
  then show False using assms(3) t nth_mem by (metis disjoint_iff)
qed

text \<open>An object of the lazy allocator that can hold a chunk of the context.\<close>

definition object_holds :: "Torch \<Rightarrow> nat \<Rightarrow> GPUCacheContext \<Rightarrow> L1Allocator \<Rightarrow> mem_id \<Rightarrow> bool" where
  "object_holds T cs gc a i \<longleftrightarrow>
     (\<exists>lz w. a = LazyAlloc lz w) \<and> tm_valid (l1_object a i) \<and> md_shape (tm_meta (l1_object a i)) = get_kv_buffer_shape gc cs \<and>
     TensorMemoryObj_get_size (l1_object a i) = torch_numel T (get_kv_buffer_shape gc cs) * torch_itemsize T (gc_dtype gc) \<and>
     0 \<le> md_address (tm_meta (l1_object a i)) \<and>
     md_address (tm_meta (l1_object a i)) + TensorMemoryObj_get_size (l1_object a i) < 2 ^ 63"

lemma cell_index_bounds:
  assumes "c \<in> chunk_cells T cs gc"
  shows "0 \<le> cell_index T cs gc c"
    and "cell_index T cs gc c < int (kv_parts (gc_is_mla gc)) * int (gc_num_layers gc) * int cs * int (row_words (tmp_gpu_buffer T gc cs))"
proof -
  let ?K = "kv_parts (gc_is_mla gc)" and ?L = "gc_num_layers gc" and ?W = "row_words (tmp_gpu_buffer T gc cs)"
  obtain k l t i where c: "c = (k, l, t, i)" "k < ?K" "l < ?L" "t < cs" "i < ?W" using assms by (auto simp: chunk_cells_def)
  have kl: "0 \<le> int k * int ?L + int l" "int k * int ?L + int l < int ?K * int ?L"
    using radix_bound [of "int k" "int ?K" "int l" "int ?L"] c by simp_all
  have klt: "0 \<le> (int k * int ?L + int l) * int cs + int t" "(int k * int ?L + int l) * int cs + int t < int ?K * int ?L * int cs"
    using radix_bound [OF kl, of "int t" "int cs"] c by simp_all
  show "0 \<le> cell_index T cs gc c" "cell_index T cs gc c < int ?K * int ?L * int cs * int ?W"
    using radix_bound [OF klt, of "int i" "int ?W"] c by (simp_all add: cell_index_def)
qed

lemma chunk_bytes:
  assumes "Torch_documented T" and "context_fits T cs gc"
  shows "torch_numel T (get_kv_buffer_shape gc cs) * torch_itemsize T (gc_dtype gc) =
    int (kv_parts (gc_is_mla gc)) * int (gc_num_layers gc) * int cs * int (row_words (tmp_gpu_buffer T gc cs)) *
      int (transfer_word (tmp_gpu_buffer T gc cs))"
proof -
  let ?kv = "tmp_gpu_buffer T gc cs"
  have "0 < torch_itemsize T (gc_dtype gc)" "kt_element_size ?kv \<in> {1, 2, 4, 8}" using assms(2) by (auto simp: context_fits_def)
  then have "int (row_words ?kv) * int (transfer_word ?kv) = int (gc_hidden_dim_size gc) * torch_itemsize T (gc_dtype gc)"
    using transfer_word_fits(3) [of ?kv] by (metis int_nat_eq of_nat_mult tmp_gpu_buffer_simps(3,4) less_imp_le)
  moreover have "torch_numel T (get_kv_buffer_shape gc cs) =
      int (kv_parts (gc_is_mla gc)) * int (gc_num_layers gc) * int cs * int (gc_hidden_dim_size gc)"
    using assms(1) by (simp add: Torch_documented_def get_kv_buffer_shape_def kv_parts_def)
  ultimately show ?thesis by (simp add: mult.assoc)
qed

lemma pieces_cover:
  assumes "concat (map piece_bytes ps) = piece_bytes (0, 0, nbytes)" and "0 \<le> b" "b < nbytes"
  shows "list_ex (\<lambda>(d, s, len). d \<le> b \<and> b < d + len) ps"
proof -
  have "(b, b) \<in> set (piece_bytes (0, 0, nbytes))" using assms(2,3) by (auto simp: piece_bytes_def)
  then have "(b, b) \<in> set (concat (map piece_bytes ps))" by (simp only: assms(1))
  then obtain d s len where p: "(d, s, len) \<in> set ps" "(b, b) \<in> set (piece_bytes (d, s, len))" by auto
  then have "d \<le> b \<and> b < d + len" by (auto simp: piece_bytes_def)
  then show ?thesis using p(1) by (auto simp: list_ex_iff)
qed

lemma object_copy_words:
  assumes T: "Torch_documented T" and fits: "context_fits T cs gc" and ob: "object_holds T cs gc a i"
  shows "\<exists>ps. object_copy T a i (get_kv_buffer_shape gc cs) = Inr ps \<and>
    (\<forall>c \<in> chunk_cells T cs gc. word_copied (transfer_word (tmp_gpu_buffer T gc cs)) ps (cell_index T cs gc c))"
proof -
  let ?w = "transfer_word (tmp_gpu_buffer T gc cs)" and ?ob = "l1_object a i"
  define nbytes where "nbytes = TensorMemoryObj_get_size ?ob"
  define h where "h = md_address (tm_meta ?ob)"
  have nb: "nbytes = int (kv_parts (gc_is_mla gc)) * int (gc_num_layers gc) * int cs * int (row_words (tmp_gpu_buffer T gc cs)) * int ?w"
    using ob chunk_bytes [OF T fits] by (simp add: object_holds_def nbytes_def)
  have h: "0 \<le> h" "h + nbytes < 2 ^ 63" using ob by (simp_all add: object_holds_def nbytes_def h_def)
  have "0 \<le> nbytes" by (simp add: nb)
  moreover have "h + nbytes + 2 ^ 26 \<le> 2 ^ 64" "0 + nbytes < 2 ^ 64" using h \<open>0 \<le> nbytes\<close> by simp_all
  ultimately obtain ps where ps: "memcpy_loop 0 0 nbytes h (2 ^ 26) 0 = Some ps"
    "concat (map piece_bytes ps) = piece_bytes (0, 0, nbytes)"
    using memcpy_pieces [of 0 nbytes h 26 0 0] h by auto
  have "u64 (2 ^ 26 - 1) = 2 ^ 26 - 1" by (intro u64_id) simp_all
  then have "lmcache_memcpy_async 0 0 nbytes h PIN_CHUNK_SIZE = Inr (Some ps)"
    using ps(1) power_of_two_check [of 26] by (simp add: lmcache_memcpy_async_def PIN_CHUNK_SIZE_def)
  then have "object_copy T a i (get_kv_buffer_shape gc cs) = Inr ps"
    using ob by (auto simp: object_copy_def object_pieces_def object_holds_def TensorMemoryObj_tensor_def tensor_numel_def nbytes_def h_def)
  moreover have "word_copied ?w ps (cell_index T cs gc c)" if c: "c \<in> chunk_cells T cs gc" for c
  proof -
    let ?n = "cell_index T cs gc c"
    have "(?n + 1) * int ?w \<le> nbytes" unfolding nb using cell_index_bounds [OF c] by (intro mult_right_mono) simp_all
    then have "b < nbytes \<and> 0 \<le> b" if "b \<in> set [?n * int ?w..?n * int ?w + int ?w - 1]" for b
      using that mult_nonneg_nonneg [OF cell_index_bounds(1) [OF c], of "int ?w"] by (simp add: distrib_right)
    then show ?thesis unfolding word_copied_def list_all_iff using pieces_cover [OF ps(2)] by blast
  qed
  ultimately show ?thesis by blast
qed

section \<open>The loops over the chunks\<close>

lemma cell_addr_paged: "\<exists>l n. cell_addr T cs gc slots c = Paged l n"
  by (cases c) (simp add: cell_addr_def page_word_def page_cell_def)

lemma store_chunk_effect:
  assumes "Torch_documented T" and cs: "cs = mp_chunk_size eng" and ok: "chunk_ok T cs gc (chunk_slots cs slots idx)"
    and ob: "object_holds T cs gc (l1_allocator eng) i" and "\<not> cuda_raises cuda idx"
  shows "\<exists>device content. store_chunk T cuda inst gc slots (idx, i) eng =
      (eng\<lparr>mp_devices := (mp_devices eng)(inst := device), mp_host := (mp_host eng)(i := content)\<rparr>, Inr ()) \<and>
    (\<forall>l n. device (Paged l n) = mp_devices eng inst (Paged l n)) \<and>
    (\<forall>c \<in> chunk_cells T cs gc. content (cell_index T cs gc c) = mp_devices eng inst (cell_addr T cs gc (chunk_slots cs slots idx) c))"
proof -
  let ?kv = "tmp_gpu_buffer T gc cs"
  define device where "device = run_transfer cuda ?kv (chunk_slots cs slots idx) (page_buffer_size gc) True (gc_is_mla gc) (mp_devices eng inst)"
  note off = offload_chunk [OF ok, where cuda = cuda and device = "mp_devices eng inst", folded device_def]
  have "context_fits T cs gc" using ok by (simp add: chunk_ok_def)
  from object_copy_words [OF assms(1) this ob] obtain ps where ps: "object_copy T (l1_allocator eng) i (get_kv_buffer_shape gc cs) = Inr ps"
    "\<forall>c \<in> chunk_cells T cs gc. word_copied (transfer_word ?kv) ps (cell_index T cs gc c)" by blast
  define content where "content = (\<lambda>n. if word_copied (transfer_word ?kv) ps n then device (LmcBuf n) else mp_host eng i n)"
  have "store_chunk T cuda inst gc slots (idx, i) eng =
      (eng\<lparr>mp_devices := (mp_devices eng)(inst := device), mp_host := (mp_host eng)(i := content)\<rparr>, Inr ())"
    unfolding content_def device_def using assms(5) ps(1)
    by (simp add: store_chunk_def lmcache_memcpy_async_d2h_def Let_def cs [symmetric])
  moreover have "\<forall>c \<in> chunk_cells T cs gc. content (cell_index T cs gc c) = mp_devices eng inst (cell_addr T cs gc (chunk_slots cs slots idx) c)"
    using off(1) ps(2) by (simp add: content_def)
  ultimately show ?thesis using off(2) by blast
qed

lemma store_loop:
  assumes T: "Torch_documented T" and "cs = mp_chunk_size eng"
    and "\<forall>(idx, i) \<in> set todo. chunk_ok T cs gc (chunk_slots cs slots idx) \<and> object_holds T cs gc (l1_allocator eng) i \<and> \<not> cuda_raises cuda idx"
    and "distinct (map snd todo)"
  shows "\<exists>device host. for_each (store_chunk T cuda inst gc slots) todo eng =
      (eng\<lparr>mp_devices := (mp_devices eng)(inst := device), mp_host := host\<rparr>, Inr ()) \<and>
    (\<forall>l n. device (Paged l n) = mp_devices eng inst (Paged l n)) \<and> (\<forall>i. i \<notin> snd ` set todo \<longrightarrow> host i = mp_host eng i) \<and>
    (\<forall>(idx, i) \<in> set todo. \<forall>c \<in> chunk_cells T cs gc.
       host i (cell_index T cs gc c) = mp_devices eng inst (cell_addr T cs gc (chunk_slots cs slots idx) c))"
  using assms(2-4)
proof (induction todo arbitrary: eng)
  case (Cons p todo)
  obtain idx i where p: "p = (idx, i)" by (cases p)
  obtain d1 content where s: "store_chunk T cuda inst gc slots (idx, i) eng =
      (eng\<lparr>mp_devices := (mp_devices eng)(inst := d1), mp_host := (mp_host eng)(i := content)\<rparr>, Inr ())"
    and d1: "\<forall>l n. d1 (Paged l n) = mp_devices eng inst (Paged l n)"
    and ct: "\<forall>c \<in> chunk_cells T cs gc. content (cell_index T cs gc c) = mp_devices eng inst (cell_addr T cs gc (chunk_slots cs slots idx) c)"
    using store_chunk_effect [OF T Cons.prems(1), of gc slots idx i cuda inst] Cons.prems(2) p by auto
  define e1 where "e1 = eng\<lparr>mp_devices := (mp_devices eng)(inst := d1), mp_host := (mp_host eng)(i := content)\<rparr>"
  have f: "mp_chunk_size e1 = mp_chunk_size eng" "l1_allocator e1 = l1_allocator eng" "mp_devices e1 inst = d1" "mp_host e1 = (mp_host eng)(i := content)"
    by (simp_all add: e1_def l1_allocator_def)
  have pre: "cs = mp_chunk_size e1" "distinct (map snd todo)"
    "\<forall>(idx, i) \<in> set todo. chunk_ok T cs gc (chunk_slots cs slots idx) \<and> object_holds T cs gc (l1_allocator e1) i \<and> \<not> cuda_raises cuda idx"
    using Cons.prems f by auto
  obtain device host where IH: "for_each (store_chunk T cuda inst gc slots) todo e1 =
      (e1\<lparr>mp_devices := (mp_devices e1)(inst := device), mp_host := host\<rparr>, Inr ())"
    "\<forall>l n. device (Paged l n) = d1 (Paged l n)" "\<forall>j. j \<notin> snd ` set todo \<longrightarrow> host j = ((mp_host eng)(i := content)) j"
    "\<forall>(idx, i) \<in> set todo. \<forall>c \<in> chunk_cells T cs gc. host i (cell_index T cs gc c) = d1 (cell_addr T cs gc (chunk_slots cs slots idx) c)"
    using Cons.IH [OF pre(1,3,2), unfolded f] by blast
  have same: "d1 (cell_addr T cs gc (chunk_slots cs slots j) c) = mp_devices eng inst (cell_addr T cs gc (chunk_slots cs slots j) c)" for j c
    using cell_addr_paged [of T cs gc "chunk_slots cs slots j" c] d1 by auto
  have "i \<notin> snd ` set todo" using Cons.prems(3) by (simp add: p)
  then have hi: "host i = content" using IH(3) by simp
  have run: "for_each (store_chunk T cuda inst gc slots) (p # todo) eng =
      (eng\<lparr>mp_devices := (mp_devices eng)(inst := device), mp_host := host\<rparr>, Inr ())"
    using IH(1) s by (simp add: p and_then_def e1_def)
  have pages: "\<forall>l n. device (Paged l n) = mp_devices eng inst (Paged l n)" using IH(2) d1 by simp
  have rest: "\<forall>j. j \<notin> snd ` set (p # todo) \<longrightarrow> host j = mp_host eng j" using IH(3) by (simp add: p)
  have "\<forall>(idx, i) \<in> set (p # todo). \<forall>c \<in> chunk_cells T cs gc.
      host i (cell_index T cs gc c) = mp_devices eng inst (cell_addr T cs gc (chunk_slots cs slots idx) c)"
    using IH(4) ct same by (auto simp: p hi)
  with run pages rest show ?case by blast
qed (auto intro!: exI [of _ "mp_devices eng inst" for eng] exI [of _ "mp_host eng" for eng])

lemma retrieve_chunk_effect:
  assumes "Torch_documented T" and cs: "cs = mp_chunk_size eng" and ok: "chunk_ok T cs gc (chunk_slots cs slots idx)"
    and "distinct (chunk_slots cs slots idx)"
    and ob: "object_holds T cs gc (l1_allocator eng) i" and "\<not> cuda_raises cuda idx"
  shows "\<exists>device. retrieve_chunk T cuda inst gc slots (idx, i) eng = (eng\<lparr>mp_devices := (mp_devices eng)(inst := device)\<rparr>, Inr ()) \<and>
    (\<forall>c \<in> chunk_cells T cs gc. device (cell_addr T cs gc (chunk_slots cs slots idx) c) = mp_host eng i (cell_index T cs gc c)) \<and>
    (\<forall>l n. Paged l n \<notin> cell_addr T cs gc (chunk_slots cs slots idx) ` chunk_cells T cs gc \<longrightarrow> device (Paged l n) = mp_devices eng inst (Paged l n))"
proof -
  let ?kv = "tmp_gpu_buffer T gc cs"
  have "context_fits T cs gc" using ok by (simp add: chunk_ok_def)
  from object_copy_words [OF assms(1) this ob] obtain ps where ps: "object_copy T (l1_allocator eng) i (get_kv_buffer_shape gc cs) = Inr ps"
    "\<forall>c \<in> chunk_cells T cs gc. word_copied (transfer_word ?kv) ps (cell_index T cs gc c)" by blast
  define buffer where "buffer = (\<lambda>x. case x of LmcBuf n \<Rightarrow> if word_copied (transfer_word ?kv) ps n then mp_host eng i n else mp_devices eng inst (LmcBuf n)
      | Paged l n \<Rightarrow> mp_devices eng inst (Paged l n))"
  define device where "device = run_transfer cuda ?kv (chunk_slots cs slots idx) (page_buffer_size gc) False (gc_is_mla gc) buffer"
  note ld = load_chunk [OF ok assms(4), where cuda = cuda and device = buffer, folded device_def]
  have "retrieve_chunk T cuda inst gc slots (idx, i) eng = (eng\<lparr>mp_devices := (mp_devices eng)(inst := device)\<rparr>, Inr ())"
    using assms(6) ps(1) by (simp add: retrieve_chunk_def lmcache_memcpy_async_h2d_def Let_def cs [symmetric] device_def buffer_def)
  moreover have "\<forall>c \<in> chunk_cells T cs gc. device (cell_addr T cs gc (chunk_slots cs slots idx) c) = mp_host eng i (cell_index T cs gc c)"
    using ld(1) ps(2) by (simp add: buffer_def)
  moreover have "device (Paged l n) = mp_devices eng inst (Paged l n)"
    if "Paged l n \<notin> cell_addr T cs gc (chunk_slots cs slots idx) ` chunk_cells T cs gc" for l n
    using ld(2) [OF that] by (simp add: buffer_def)
  ultimately show ?thesis by blast
qed

lemma retrieve_loop:
  assumes T: "Torch_documented T" and "cs = mp_chunk_size eng"
    and "\<forall>(idx, i) \<in> set todo. chunk_ok T cs gc (chunk_slots cs slots idx) \<and> object_holds T cs gc (l1_allocator eng) i \<and> \<not> cuda_raises cuda idx"
    and "distinct (map fst todo)" and slots: "distinct slots"
  shows "\<exists>device. for_each (retrieve_chunk T cuda inst gc slots) todo eng =
      (eng\<lparr>mp_devices := (mp_devices eng)(inst := device)\<rparr>, Inr ()) \<and>
    (\<forall>l n. (\<forall>idx \<in> fst ` set todo. Paged l n \<notin> cell_addr T cs gc (chunk_slots cs slots idx) ` chunk_cells T cs gc) \<longrightarrow>
       device (Paged l n) = mp_devices eng inst (Paged l n)) \<and>
    (\<forall>(idx, i) \<in> set todo. \<forall>c \<in> chunk_cells T cs gc.
       device (cell_addr T cs gc (chunk_slots cs slots idx) c) = mp_host eng i (cell_index T cs gc c))"
  using assms(2-4)
proof (induction todo arbitrary: eng)
  case (Cons p todo)
  obtain idx i where p: "p = (idx, i)" by (cases p)
  have ok: "chunk_ok T cs gc (chunk_slots cs slots idx)" using Cons.prems(2) by (simp add: p)
  have "distinct (chunk_slots cs slots idx)" using slots by (simp add: chunk_slots_def)
  then obtain d1 where s: "retrieve_chunk T cuda inst gc slots (idx, i) eng = (eng\<lparr>mp_devices := (mp_devices eng)(inst := d1)\<rparr>, Inr ())"
    and d1: "\<forall>c \<in> chunk_cells T cs gc. d1 (cell_addr T cs gc (chunk_slots cs slots idx) c) = mp_host eng i (cell_index T cs gc c)"
    and keep: "\<forall>l n. Paged l n \<notin> cell_addr T cs gc (chunk_slots cs slots idx) ` chunk_cells T cs gc \<longrightarrow> d1 (Paged l n) = mp_devices eng inst (Paged l n)"
    using retrieve_chunk_effect [OF T Cons.prems(1) ok, of i cuda inst] Cons.prems(2) by (auto simp: p)
  define e1 where "e1 = eng\<lparr>mp_devices := (mp_devices eng)(inst := d1)\<rparr>"
  have f: "mp_chunk_size e1 = mp_chunk_size eng" "l1_allocator e1 = l1_allocator eng" "mp_devices e1 inst = d1" "mp_host e1 = mp_host eng"
    by (simp_all add: e1_def l1_allocator_def)
  have pre: "cs = mp_chunk_size e1" "distinct (map fst todo)"
    "\<forall>(idx, i) \<in> set todo. chunk_ok T cs gc (chunk_slots cs slots idx) \<and> object_holds T cs gc (l1_allocator e1) i \<and> \<not> cuda_raises cuda idx"
    using Cons.prems f by auto
  obtain device where IH: "for_each (retrieve_chunk T cuda inst gc slots) todo e1 = (e1\<lparr>mp_devices := (mp_devices e1)(inst := device)\<rparr>, Inr ())"
    "\<forall>l n. (\<forall>idx \<in> fst ` set todo. Paged l n \<notin> cell_addr T cs gc (chunk_slots cs slots idx) ` chunk_cells T cs gc) \<longrightarrow>
       device (Paged l n) = d1 (Paged l n)"
    "\<forall>(idx, i) \<in> set todo. \<forall>c \<in> chunk_cells T cs gc.
       device (cell_addr T cs gc (chunk_slots cs slots idx) c) = mp_host eng i (cell_index T cs gc c)"
    using Cons.IH [OF pre(1,3,2), unfolded f] by blast
  have run: "for_each (retrieve_chunk T cuda inst gc slots) (p # todo) eng = (eng\<lparr>mp_devices := (mp_devices eng)(inst := device)\<rparr>, Inr ())"
    using IH(1) s by (simp add: p and_then_def e1_def)
  have rest: "device (Paged l n) = mp_devices eng inst (Paged l n)"
    if "\<forall>idx \<in> fst ` set (p # todo). Paged l n \<notin> cell_addr T cs gc (chunk_slots cs slots idx) ` chunk_cells T cs gc" for l n
    using IH(2) keep that by (simp add: p)
  have own: "device (cell_addr T cs gc (chunk_slots cs slots idx) c) = mp_host eng i (cell_index T cs gc c)" if c: "c \<in> chunk_cells T cs gc" for c
  proof -
    obtain l n where ln: "cell_addr T cs gc (chunk_slots cs slots idx) c = Paged l n" using cell_addr_paged by blast
    have "Paged l n \<notin> cell_addr T cs gc (chunk_slots cs slots j) ` chunk_cells T cs gc" if "j \<in> fst ` set todo" for j
    proof -
      have "j \<noteq> idx" using that Cons.prems(3) by (auto simp: p)
      then have "set (chunk_slots cs slots idx) \<inter> set (chunk_slots cs slots j) = {}" using chunk_slots_disjoint [OF slots] by metis
      moreover have "chunk_ok T cs gc (chunk_slots cs slots j)" using that Cons.prems(2) by auto
      ultimately show ?thesis using cell_addr_disjoint [OF ok _ _ c] ln by fastforce
    qed
    then show ?thesis using IH(2) d1 c ln by metis
  qed
  have "\<forall>(idx, i) \<in> set (p # todo). \<forall>c \<in> chunk_cells T cs gc.
      device (cell_addr T cs gc (chunk_slots cs slots idx) c) = mp_host eng i (cell_index T cs gc c)"
    using IH(3) own by (simp add: p)
  with run rest show ?case by blast
qed (auto intro!: exI [of _ "mp_devices eng inst" for eng])

section \<open>Keys of a request\<close>

text \<open>The chunks of one model on one worker, with their hashes, and the objects they are stored under.\<close>

definition chunk_key :: "string \<Rightarrow> string option \<Rightarrow> bytes \<Rightarrow> IPCCacheEngineKey" where
  "chunk_key model rid h = hash_key model 1 (Some 0) h rid"

definition chunk_object :: "string \<Rightarrow> bytes \<Rightarrow> ObjectKey" where
  "chunk_object model h = worker_object_key (chunk_key model None h) h 0"

lemma chunk_key_simps [simp]:
  "\<not> is_token_mode (chunk_key model rid h)" "ik_worker_id (chunk_key model rid h) = Some 0"
  "object_keys_of (chunk_key model rid h) = Inr [chunk_object model h]"
  "\<not> is_token_mode (no_worker_id_version (chunk_key model rid h))"
  "ik_world_size (no_worker_id_version (chunk_key model rid h)) = 1"
  "object_keys_of (no_worker_id_version (chunk_key model rid h)) = Inr [chunk_object model h]"
  by (simp_all add: chunk_key_def hash_key_def is_token_mode_def object_keys_of_def chunk_object_def worker_object_key_def
      no_worker_id_version_def)

lemma chunk_object_inj: "chunk_object model h = chunk_object model h' \<longleftrightarrow> h = h'"
  by (auto simp: chunk_object_def worker_object_key_def)

lemma map_result_Inr: "map_result (\<lambda>x. Inr (f x)) xs = Inr (map f xs)"
  by (induction xs) simp_all

lemma update_session_hash_mode: "\<not> is_token_mode k \<Longrightarrow> update_session_for_key now k sm = (sm, Inr ())"
  by (simp add: update_session_for_key_def)

lemma update_sessions_hash_mode: "\<forall>k \<in> set keys. \<not> is_token_mode k \<Longrightarrow> for_each (update_session_for_key now) keys sm = (sm, Inr ())"
  by (induction keys) (simp_all add: and_then_def update_session_hash_mode)

lemma resolve_keys_hash_mode: "\<forall>k \<in> set keys. \<not> is_token_mode k \<Longrightarrow> resolve_keys now keys sm = (sm, Inr keys)"
  by (induction keys) (simp_all add: and_then_def resolve_key_def yield_result_def)

lemma chunk_object_keys:
  "ipc_keys_to_object_keys (map (chunk_key model rid) hs) = Inr (map (chunk_object model) hs)"
  "ipc_keys_to_object_keys (map (\<lambda>h. no_worker_id_version (chunk_key model rid h)) hs) = Inr (map (chunk_object model) hs)"
  by (induction hs) (auto simp: ipc_keys_to_object_keys_def)

lemma worker_object_keys_hash_mode:
  "worker_object_keys now (map (chunk_key model rid) hs) eng = (eng, Inr (map (chunk_object model) hs))"
  by (simp add: worker_object_keys_def and_then_def on_sessions_def update_sessions_hash_mode resolve_keys_hash_mode check_def
      yield_result_def chunk_object_keys)

lemma lookup_keys_hash_mode:
  "lookup_ipc_keys hasher (map (\<lambda>h. no_worker_id_version (chunk_key model rid h)) hs) =
     Inr (map (\<lambda>h. no_worker_id_version (chunk_key model rid h)) hs)"
  by (induction hs) (auto simp: lookup_ipc_keys_def)

section \<open>Reserving, finishing and reading new keys\<close>

lemma reserve_new_fold:
  "\<forall>k \<in> fst ` set kts. map_of objs k = None \<Longrightarrow>
   fold (reserve_write_key now mode) kts (objs, ret, ok, need) = (objs, ret, ok, need @ kts)"
  by (induction kts arbitrary: need) (auto simp: reserve_write_key_def)

lemma add_entries_new:
  assumes "distinct (map (\<lambda>ko. fst (fst ko)) kos)" and "fst ` set ret \<inter> (\<lambda>ko. fst (fst ko)) ` set kos = {}"
  shows "\<exists>objs' ok'. add_entries now m kos (objs, ret, ok) =
      (objs', ret @ map (\<lambda>((k, tmp), i). (k, SUCCESS, Some i)) kos, ok') \<and>
    (\<forall>k. map_of objs' k = (case map_of (map (\<lambda>((k, tmp), i). (k, new_entry now m tmp i)) kos) k of None \<Rightarrow> map_of objs k | Some e \<Rightarrow> Some e))"
  using assms
proof (induction kos arbitrary: objs ret ok)
  case (Cons ko kos)
  obtain k0 tmp i where ko: "ko = ((k0, tmp), i)" by (metis prod.collapse)
  have up: "AList.update k0 (SUCCESS, Some i) ret = ret @ [(k0, SUCCESS, Some i)]" using Cons.prems(2) by (intro update_new) (auto simp: ko)
  have pre: "distinct (map (\<lambda>ko. fst (fst ko)) kos)"
    "fst ` set (ret @ [(k0, SUCCESS, Some i)]) \<inter> (\<lambda>ko. fst (fst ko)) ` set kos = {}" using Cons.prems by (auto simp: ko)
  obtain objs' ok' where IH: "add_entries now m kos (AList.update k0 (new_entry now m tmp i) objs, ret @ [(k0, SUCCESS, Some i)], ok @ [k0]) =
      (objs', (ret @ [(k0, SUCCESS, Some i)]) @ map (\<lambda>((k, tmp), i). (k, SUCCESS, Some i)) kos, ok')"
    "\<forall>k. map_of objs' k = (case map_of (map (\<lambda>((k, tmp), i). (k, new_entry now m tmp i)) kos) k of
       None \<Rightarrow> map_of (AList.update k0 (new_entry now m tmp i) objs) k | Some e \<Rightarrow> Some e)"
    using Cons.IH [OF pre, of "AList.update k0 (new_entry now m tmp i) objs" "ok @ [k0]"] by blast
  have run: "add_entries now m (ko # kos) (objs, ret, ok) =
      (objs', ret @ map (\<lambda>((k, tmp), i). (k, SUCCESS, Some i)) (ko # kos), ok')"
    using IH(1) up by (simp add: add_entries_def ko)
  have "k0 \<notin> set (map (\<lambda>ko. fst (fst ko)) kos)" using Cons.prems(1) by (simp add: ko)
  then have none: "map_of (map (\<lambda>((k, tmp), i). (k, new_entry now m tmp i)) kos) k0 = None"
    by (auto simp: map_of_eq_None_iff image_image case_prod_unfold)
  have "map_of objs' k = (case map_of (map (\<lambda>((k, tmp), i). (k, new_entry now m tmp i)) (ko # kos)) k of None \<Rightarrow> map_of objs k | Some e \<Rightarrow> Some e)" for k
    using IH(2) none by (cases "k = k0") (auto simp: ko update_conv' split: option.split)
  with run show ?case by blast
qed (simp add: add_entries_def)

lemma zip_replicate_map:
  "length ids = length keys \<Longrightarrow>
   map (\<lambda>((k, tmp), i). (k, f tmp i)) (zip (zip keys (replicate (length keys) b)) ids) = map (\<lambda>(k, i). (k, f b i)) (zip keys ids)"
proof (induction keys arbitrary: ids)
  case (Cons k keys)
  then show ?case by (cases ids) simp_all
qed simp

lemma map_filter_successes:
  "List.map_filter (\<lambda>(k, e, m). map_option (Pair k) m) (map (\<lambda>(k, i). (k, SUCCESS, Some i)) xs) = xs"
  by (induction xs) (auto simp: List.map_filter_simps)

lemma reserve_new:
  assumes d: "distinct keys" and "keys \<noteq> []" and new: "\<forall>k \<in> set keys. map_of (l1_objects (sm_l1_manager sm)) k = None"
    and al: "L1MemoryManager_allocate S T layout (int (length keys)) (l1_memory (sm_l1_manager sm)) = Inr (a, SUCCESS, ids)"
    and len: "length ids = length keys"
  shows "\<exists>sm1. StorageManager_reserve_write S T now keys layout New sm = (sm1, Inr (zip keys ids)) \<and>
    l1_memory (sm_l1_manager sm1) = a \<and>
    (\<forall>k. map_of (l1_objects (sm_l1_manager sm1)) k = (case map_of (zip keys ids) k of
       None \<Rightarrow> map_of (l1_objects (sm_l1_manager sm)) k | Some i \<Rightarrow> Some (new_entry now (sm_l1_manager sm) False i)))"
proof -
  define m where "m = sm_l1_manager sm"
  let ?need = "zip keys (replicate (length keys) False)"
  have f: "fold (reserve_write_key now New) ?need (l1_objects m, [], [], []) = (l1_objects m, [], [], ?need)"
  proof -
    have "\<forall>k \<in> fst ` set ?need. map_of (l1_objects m) k = None" using new by (auto simp: m_def dest: set_zip_leftD)
    from reserve_new_fold [OF this, of now New "[]" "[]" "[]"] show ?thesis by simp
  qed
  have "map (\<lambda>ko. fst (fst ko)) (zip ?need ids) = keys" 
    using len map_fst_zip [of ?need ids] map_fst_zip [of keys "replicate (length keys) False"]
    by (metis (no_types, lifting) length_replicate length_zip list.map_comp map_eq_conv comp_apply min.idem)
  then have "distinct (map (\<lambda>ko. fst (fst ko)) (zip ?need ids))" using d by simp
  from add_entries_new [OF this, of "[]" now m "l1_objects m" "[]"] obtain objs' ok' where
    ad: "add_entries now m (zip ?need ids) (l1_objects m, [], []) = (objs', map (\<lambda>((k, tmp), i). (k, SUCCESS, Some i)) (zip ?need ids), ok')"
    and o: "\<forall>k. map_of objs' k = (case map_of (map (\<lambda>((k, tmp), i). (k, new_entry now m tmp i)) (zip ?need ids)) k of
       None \<Rightarrow> map_of (l1_objects m) k | Some e \<Rightarrow> Some e)" by auto
  have ne: "?need \<noteq> []" "New \<noteq> Update" using assms(2) by simp_all
  have "int (length ?need) = int (length keys)" by simp
  then have al': "L1MemoryManager_allocate S T layout (int (length ?need)) (l1_memory m) = Inr (a, SUCCESS, ids)" using al by (simp add: m_def)
  have r: "reserve_write S T now keys (replicate (length keys) False) layout New m =
      (notify (on_keys_reserved_write ok') (m\<lparr>l1_objects := objs', l1_memory := a\<rparr>), Inr (map (\<lambda>(k, i). (k, SUCCESS, Some i)) (zip keys ids)))"
    using reserve_write_eqs(5) [OF f ne al' ad] zip_replicate_map [OF len, of "\<lambda>tmp i. (SUCCESS, Some i)" False] by simp
  define sm1 where "sm1 = sm\<lparr>sm_l1_manager := notify (on_keys_reserved_write ok') (m\<lparr>l1_objects := objs', l1_memory := a\<rparr>)\<rparr>"
  have "StorageManager_reserve_write S T now keys layout New sm = (sm1, Inr (zip keys ids))"
    using r map_filter_successes [of "zip keys ids"] by (simp add: StorageManager_reserve_write_def on_l1_def m_def [symmetric] sm1_def)
  moreover have "map_of (l1_objects (sm_l1_manager sm1)) k = (case map_of (zip keys ids) k of
       None \<Rightarrow> map_of (l1_objects m) k | Some i \<Rightarrow> Some (new_entry now m False i))" for k
    using o zip_replicate_map [OF len, of "new_entry now m" False]
    by (simp add: sm1_def map_of_map split: option.split)
  moreover have "l1_memory (sm_l1_manager sm1) = a" by (simp add: sm1_def)
  ultimately show ?thesis unfolding m_def by blast
qed

text \<open>An entry whose writer finishes in its lease.\<close>

definition write_finished :: "int64 \<Rightarrow> L1ObjectState \<Rightarrow> L1ObjectState" where
  "write_finished now e =
     (if TTLLock_is_locked now (os_write_lock e) \<and> \<not> TTLLock_is_locked now (os_read_lock e)
      then e\<lparr>os_write_lock := TTLLock_unlock (os_write_lock e)\<rparr> else e)"

lemma finish_write_fold:
  assumes "fold (finish_write_key now) keys (objs, ret, ok) = (objs', ret', ok')" and "distinct keys"
  shows "map_of objs' k = (if k \<in> set keys then map_option (write_finished now) (map_of objs k) else map_of objs k)"
  using assms
proof (induction keys arbitrary: objs ret ok)
  case (Cons key keys)
  obtain o1 r1 k1 where s: "finish_write_key now key (objs, ret, ok) = (o1, r1, k1)" by (metis prod_cases3)
  have "map_of o1 k = (if k = key then map_option (write_finished now) (map_of objs k) else map_of objs k)"
    using s by (auto simp: finish_write_key_def write_finished_def update_conv' split: option.splits if_splits)
  with Cons.IH [of o1 r1 k1] Cons.prems s show ?case by auto
qed simp

text \<open>The life of a new entry: written at \<open>t0\<close>, finished at \<open>t1\<close>, readable from then on, reserved at \<open>t2\<close>.\<close>

lemma new_entry_finished:
  assumes ttl: "l1_write_ttl_seconds m \<noteq> 0" "l1_read_ttl_seconds m \<noteq> 0" and t: "time_ok t0" "sint t0 \<le> sint t1"
    "sint t1 < sint t0 + 1000 * uint (l1_write_ttl_seconds m)"
    and e_def: "e = write_finished t1 (new_entry t0 m False i)"
  shows "os_memory_obj e = i" and "os_read_lock e = TTLLock_init (l1_read_ttl_seconds m)" and "\<not> os_is_temporary e"
    and "available_for_read t2 e"
proof -
  let ?l = "TTLLock_init (l1_write_ttl_seconds m)"
  have g: "lock_good ?l" and r: "lock_room t0 ?l"
    using lock_good_init(1) [OF ttl(1)] t(1) by (simp_all add: lock_room_def TTLLock_init_def)
  have w: "TTLLock_is_locked t1 (TTLLock_lock t0 ?l)" using lock_later(3) [OF g r] t by (simp add: init_ttl)
  have u: "\<not> TTLLock_is_locked t1 (TTLLock_init (l1_read_ttl_seconds m))" by (simp add: TTLLock_is_locked_def TTLLock_init_def)
  have e: "e = (new_entry t0 m False i)\<lparr>os_write_lock := TTLLock_unlock (TTLLock_lock t0 ?l)\<rparr>"
    using w u by (simp add: e_def write_finished_def new_entry_def)
  show "os_memory_obj e = i" "os_read_lock e = TTLLock_init (l1_read_ttl_seconds m)" "\<not> os_is_temporary e" by (simp_all add: e new_entry_def)
  have "lock_good (TTLLock_lock t0 ?l)" using tl.lock_law [OF g r] by simp
  then have "sint (tl_counter (TTLLock_unlock (TTLLock_lock t0 ?l))) = 0"
    using unlock_fields(1) lock_fields(1) [OF g r] by (simp add: TTLLock_init_def)
  then show "available_for_read t2 e" by (simp add: e available_for_read_def TTLLock_is_locked_def sint_order)
qed

lemma reader_holds:
  assumes "ttl \<noteq> 0" "time_ok t2" "sint t2 \<le> sint t3" "sint t3 < sint t2 + 1000 * uint (ttl :: 32 word)"
  shows "TTLLock_is_locked t3 (TTLLock_lock t2 (TTLLock_init ttl))"
  using lock_later(3) [OF lock_good_init(1) [OF assms(1)], of t2 t3] assms
  by (simp add: lock_room_def init_ttl) (simp add: TTLLock_init_def)

section \<open>Objects of a store\<close>

lemma batch_object_shapes:
  assumes "batch_objects T raws start unit fmt [shape] [dtype] = Inr obs" and "k < length obs"
  shows "md_shape (tm_meta (obs ! k)) = shape" and "TensorMemoryObj_get_size (obs ! k) = torch_numel T shape * torch_itemsize T dtype"
proof -
  have "\<forall>ob \<in> set obs. md_shape (tm_meta ob) = shape \<and> TensorMemoryObj_get_size ob = torch_numel T shape * torch_itemsize T dtype"
    using assms(1)
  proof (induction raws arbitrary: start obs)
    case (Cons raw raws)
    obtain ob obs' where ob: "TensorMemoryObj_init T raw (fresh_metadata shape dtype start unit fmt [shape] [dtype]) True = Inr ob"
      and obs': "batch_objects T raws (start + unit) unit fmt [shape] [dtype] = Inr obs'" and obs: "obs = ob # obs'"
      using Cons.prems by (auto simp: py_nth_def)
    have "md_shape (tm_meta ob) = shape \<and> TensorMemoryObj_get_size ob = torch_numel T shape * torch_itemsize T dtype"
      using ob by (auto simp: TensorMemoryObj_init_def fresh_metadata_def TensorMemoryObj_get_size_def)
    with Cons.IH [OF obs'] show ?case by (simp add: obs)
  qed simp
  then show "md_shape (tm_meta (obs ! k)) = shape" "TensorMemoryObj_get_size (obs ! k) = torch_numel T shape * torch_itemsize T dtype"
    using nth_mem [OF assms(2)] by blast+
qed

definition store_layout :: "nat \<Rightarrow> GPUCacheContext \<Rightarrow> MemoryLayoutDesc" where
  "store_layout cs gc = \<lparr>ld_shapes = [get_kv_buffer_shape gc cs], ld_dtypes = [gc_dtype gc]\<rparr>"

lemma store_layout_size:
  "get_size_bytes T (ld_shapes (store_layout cs gc)) (ld_dtypes (store_layout cs gc)) =
     Inr (torch_numel T (get_kv_buffer_shape gc cs) * torch_itemsize T (gc_dtype gc))"
  by (simp add: get_size_bytes_def store_layout_def)

lemma allocated_objects:
  assumes ok: "l1_alloc_ok S T (LazyAlloc lz w)" and final: "lz_final_size lz < 2 ^ 63" and b: "0 < b"
    and sz: "0 < torch_numel T (get_kv_buffer_shape gc cs) * torch_itemsize T (gc_dtype gc)"
    and r: "L1MemoryManager_allocate S T (store_layout cs gc) b (LazyAlloc lz w) = Inr (a, SUCCESS, ids)"
  shows "(\<exists>w'. a = LazyAlloc lz w') \<and> length ids = nat b \<and> distinct ids \<and> (\<forall>i \<in> set ids. object_holds T cs gc a i)"
proof -
  let ?n = "torch_numel T (get_kv_buffer_shape gc cs) * torch_itemsize T (gc_dtype gc)"
  let ?s = "Many (ld_shapes (store_layout cs gc))" and ?d = "Many (ld_dtypes (store_layout cs gc))"
  have D: "SortedList_documented S" "Torch_documented T" and lz: "lazy_ok (lz, w)" and tw: "ta_ok w"
    using ok by (simp_all add: l1_alloc_ok_def lazy_ok_def)
  have n: "get_size_bytes T (as_many ?s) (as_many ?d) = Inr ?n" by (simp add: store_layout_size)
  have lay: "layout_ok T (store_layout cs gc)" using sz by (simp add: layout_ok_def store_layout_size)
  note law = l1_allocate_law [OF ok lay b r]
  obtain w' where w': "TensorMemoryAllocator_batched_allocate S T w ?s ?d b UNDEFINED = Inr (w', Some ids)" "a = LazyAlloc lz w'"
    using r lazy_batched_allocate_eq [OF n, of S w b UNDEFINED] by (auto simp: L1MemoryManager_allocate_def split: option.splits)
  let ?am = "ta_address_manager (mw_alloc w)"
  define unit where "unit = compute_aligned_size ?am ?n"
  have live: "am_live_ok (?am, live_blocks (mw_heap w))" and wf: "am_wf ?am" using tw by (simp_all add: ta_ok_def am_live_ok_def)
  have u: "?n \<le> unit" using compute_aligned_size_bounds [OF wf, of ?n] by (simp add: unit_def)
  have "\<forall>i \<in> set ids. object_holds T cs gc a i"
    using w'(1) n unit_def
  proof (cases rule: ta_batched_allocate_cases)
    case (fresh am' st m obs)
    have ub: "0 < unit * b" using u sz b by simp
    note k = am_live_allocate [OF D(1) live ub fresh(1)]
    have ids: "ids = [length (mw_heap w)..<length (mw_heap w) + length obs]" using fresh(2) by simp
    note f = batch_objects_fields [OF fresh(3)]
    have "as_many ?s = [get_kv_buffer_shape gc cs]" "as_many ?d = [gc_dtype gc]" by (simp_all add: store_layout_def)
    note g = batch_object_shapes [OF fresh(3) [unfolded this]]
    show ?thesis
    proof
      fix i assume "i \<in> set ids"
      then obtain j where j: "i = length (mw_heap w) + j" "j < length obs"
        unfolding ids by (metis add_diff_inverse_nat atLeastLessThan_iff atLeastLessThan_upt less_diff_conv2 nat_add_left_cancel_less not_less)
      have ob: "l1_object a i = obs ! j" using j fresh(4) by (simp add: l1_object_def w'(2) nth_append)
      have "int j + 1 \<le> b" using j law b ids by simp
      then have "(int j + 1) * unit \<le> b * unit" using u sz by (intro mult_right_mono) simp_all
      then have "st + int j * unit + ?n \<le> am_size ?am" using k(5,7) u by (simp add: algebra_simps)
      moreover have "am_size ?am < 2 ^ 63" using lz final by (simp add: lazy_ok_def)
      moreover have "0 \<le> st + int j * unit" using k(6) u sz by simp
      ultimately show "object_holds T cs gc a i"
        unfolding object_holds_def ob using f g [OF j(2)] j(2) w'(2) by simp
    qed
  qed simp
  then show ?thesis using law w'(2) by simp
qed

section \<open>The requests one after the other\<close>

lemma map_filter_total: "\<forall>x \<in> set xs. f x = Some (g x) \<Longrightarrow> List.map_filter f xs = map g xs"
  by (induction xs) (auto simp: List.map_filter_simps)

lemma reserved_chunks_all:
  assumes "distinct keys" and "length ids = length keys"
  shows "reserved_chunks keys (zip keys ids) = enumerate 0 ids"
proof -
  have "map_option (Pair idx) (map_of (zip keys ids) k) = Some (idx, ids ! idx)" if "(idx, k) \<in> set (enumerate 0 keys)" for idx k
    using that map_of_zip_nth [OF assms(2) [symmetric] assms(1)] assms(2) by (auto simp: in_set_enumerate_eq)
  then have "reserved_chunks keys (zip keys ids) = map (\<lambda>(idx, k). (idx, ids ! idx)) (enumerate 0 keys)"
    unfolding reserved_chunks_def by (intro map_filter_total) auto
  also have "\<dots> = enumerate 0 ids" using assms(2) by (intro nth_equalityI) (simp_all add: nth_enumerate_eq)
  finally show ?thesis .
qed

lemma store_request:
  assumes gc: "map_of (mp_gpu_contexts eng) inst = Some gc" and bl: "blocks_valid gc blocks"
    and keys: "oks = map (chunk_object model) hs" "distinct hs"
    and rw: "StorageManager_reserve_write S T t0 oks (store_layout cs gc) New (mp_storage_manager eng) = (sm1, Inr (zip oks ids))"
    and len: "length ids = length hs" "distinct ids" and n: "length blocks * gc_block_size gc = length hs * cs"
    and fits: "context_fits T cs gc" and holds: "\<forall>i \<in> set ids. object_holds T cs gc (l1_memory (sm_l1_manager sm1)) i"
    and cuda: "\<forall>idx. \<not> cuda_raises cuda idx" and cs: "cs = mp_chunk_size eng" and T: "Torch_documented T"
  shows "\<exists>device host. MPCacheEngine_store S T cuda t0 (map (chunk_key model rid) hs) inst blocks eng =
      (eng\<lparr>mp_storage_manager := sm1, mp_devices := (mp_devices eng)(inst := device), mp_host := host,
           mp_streams := mp_streams eng @ [FinishWriteFunc oks]\<rparr>, Inr True) \<and>
    (\<forall>l n. device (Paged l n) = mp_devices eng inst (Paged l n)) \<and>
    (\<forall>idx < length hs. \<forall>c \<in> chunk_cells T cs gc. host (ids ! idx) (cell_index T cs gc c) =
       mp_devices eng inst (cell_addr T cs gc (chunk_slots cs (block_slots gc blocks) idx) c))"
proof -
  define slots where "slots = block_slots gc blocks"
  have sl: "length slots = length hs * cs" using n by (simp add: slots_def)
  have oks: "distinct oks" "length oks = length hs" using keys by (simp_all add: distinct_map inj_on_def chunk_object_inj)
  define e1 where "e1 = eng\<lparr>mp_storage_manager := sm1\<rparr>"
  have ok: "chunk_ok T cs gc (chunk_slots cs slots idx)" if "idx < length hs" for idx
    using chunk_slots_length [OF sl that] fits chunk_slots_set [of cs slots idx] block_slots_bounds [OF bl]
    by (auto simp: chunk_ok_def slots_def)
  have todo: "\<forall>(idx, i) \<in> set (enumerate 0 ids). chunk_ok T cs gc (chunk_slots cs slots idx) \<and>
      object_holds T cs gc (l1_allocator e1) i \<and> \<not> cuda_raises cuda idx"
    using ok holds cuda len by (auto simp: e1_def l1_allocator_def in_set_enumerate_eq)
  have "cs = mp_chunk_size e1" "distinct (map snd (enumerate 0 ids))" using cs len(2) by (simp_all add: e1_def)
  from store_loop [OF T this(1) todo this(2), of inst] obtain device host where
    loop: "for_each (store_chunk T cuda inst gc slots) (enumerate 0 ids) e1 = (e1\<lparr>mp_devices := (mp_devices e1)(inst := device), mp_host := host\<rparr>, Inr ())"
    and pages: "\<forall>l n. device (Paged l n) = mp_devices e1 inst (Paged l n)"
    and hosts: "\<forall>(idx, i) \<in> set (enumerate 0 ids). \<forall>c \<in> chunk_cells T cs gc.
      host i (cell_index T cs gc c) = mp_devices e1 inst (cell_addr T cs gc (chunk_slots cs slots idx) c)" by blast
  have lay: "MemoryLayoutDesc_init [get_kv_buffer_shape gc (mp_chunk_size eng)] [gc_dtype gc] = Inr (store_layout cs gc)"
    by (simp add: MemoryLayoutDesc_init_def store_layout_def cs)
  have "MPCacheEngine_store S T cuda t0 (map (chunk_key model rid) hs) inst blocks eng =
      (eng\<lparr>mp_storage_manager := sm1, mp_devices := (mp_devices eng)(inst := device), mp_host := host,
           mp_streams := mp_streams eng @ [FinishWriteFunc oks]\<rparr>, Inr True)"
    using rw loop gc reserved_chunks_all [OF oks(1), of ids] oks(2) len
    by (simp add: MPCacheEngine_store_def and_then_def worker_object_keys_hash_mode keys(1) [symmetric] gpu_context_def yield_result_def
        get_slot_mapping_valid [OF bl] lay on_storage_def launch_host_func_def e1_def slots_def)
  moreover have "host (ids ! idx) (cell_index T cs gc c) = mp_devices eng inst (cell_addr T cs gc (chunk_slots cs slots idx) c)"
    if "idx < length hs" "c \<in> chunk_cells T cs gc" for idx c
  proof -
    have "(idx, ids ! idx) \<in> set (enumerate 0 ids)" using that(1) len(1) by (simp add: in_set_enumerate_eq)
    then show ?thesis using hosts that(2) by (auto simp: e1_def)
  qed
  moreover have "\<forall>l n. device (Paged l n) = mp_devices eng inst (Paged l n)" using pages by (simp add: e1_def)
  ultimately show ?thesis unfolding slots_def by blast
qed

text \<open>Looking up keys that are all readable reserves them all.\<close>

lemma lookup_request:
  assumes lazy: "l1_allocator eng = LazyAlloc lz w" and hs: "distinct hs" "hs \<noteq> []" "oks = map (chunk_object model) hs"
    and nt: "no_temporary (l1_objects (sm_l1_manager (mp_storage_manager eng)))"
    and av: "\<forall>k \<in> set oks. \<exists>e. map_of (l1_objects (sm_l1_manager (mp_storage_manager eng))) k = Some e \<and> available_for_read t2 e"
  shows "\<exists>sm'. MPCacheEngine_lookup S t2 t2' (map (\<lambda>h. no_worker_id_version (chunk_key model rid h)) hs) eng =
      (eng\<lparr>mp_storage_manager := sm'\<rparr>, Inr (int (length hs))) \<and>
    l1_memory (sm_l1_manager sm') = l1_allocator eng \<and> no_temporary (l1_objects (sm_l1_manager sm')) \<and>
    (\<forall>k \<in> set oks. map_of (l1_objects (sm_l1_manager sm')) k =
       map_option (read_locked t2 1) (map_of (l1_objects (sm_l1_manager (mp_storage_manager eng))) k))"
proof -
  define objs where "objs = l1_objects (sm_l1_manager (mp_storage_manager eng))"
  have d: "distinct oks" using hs by (simp add: distinct_map inj_on_def chunk_object_inj)
  have "fst (read_result t2 (map_of objs k)) = SUCCESS" if "k \<in> set oks" for k
    using av that readable_iff by (fastforce simp: objs_def)
  then have tw: "takeWhile (\<lambda>key. fst (read_result t2 (map_of objs key)) = SUCCESS) oks = oks" by (simp add: takeWhile_eq_all_conv)
  obtain sm' where
    sm': "submit_prefetch_task S t2 t2' oks (mp_storage_manager eng) = (sm', Inr (length oks))"
    "l1_memory (sm_l1_manager sm') = l1_allocator eng"
    "\<forall>k. map_of (l1_objects (sm_l1_manager sm')) k = map_option (prefetched t2 t2' oks oks k) (map_of objs k)"
    using submit_prefetch_effect [OF lazy [unfolded l1_allocator_def] d nt tw [symmetric, unfolded objs_def], of S t2']
    unfolding l1_allocator_def objs_def by blast
  have "os_is_temporary (prefetched t2 t2' oks oks k e) = os_is_temporary e" for k e
    by (simp add: prefetched_def read_locked_def read_finished_def)
  then have "no_temporary (l1_objects (sm_l1_manager sm'))" using nt sm'(3) by (auto simp: no_temporary_def objs_def)
  moreover have "prefetched t2 t2' oks oks k = read_locked t2 1" if "k \<in> set oks" for k
    using that by (auto simp: prefetched_def read_locked_def fun_eq_iff)
  moreover have "MPCacheEngine_lookup S t2 t2' (map (\<lambda>h. no_worker_id_version (chunk_key model rid h)) hs) eng =
      (eng\<lparr>mp_storage_manager := sm'\<rparr>, Inr (int (length hs)))"
    using sm'(1) hs
    by (simp add: MPCacheEngine_lookup_def and_then_def yield_result_def lookup_keys_hash_mode chunk_object_keys on_storage_def
        query_prefetch_status_def hd_map)
  ultimately show ?thesis using sm'(2,3) by (auto simp: objs_def)
qed

lemma fold_update_distinct:
  assumes "distinct keys" and "fst ` set ret \<inter> set keys = {}"
  shows "fold (\<lambda>k. AList.update k (f k)) keys ret = ret @ map (\<lambda>k. (k, f k)) keys"
  using assms
proof (induction keys arbitrary: ret)
  case (Cons k keys)
  have "AList.update k (f k) ret = ret @ [(k, f k)]" using Cons.prems(2) by (intro update_new) auto
  then show ?case using Cons.IH [of "ret @ [(k, f k)]"] Cons.prems by auto
qed simp

text \<open>Entering the read context when every key is reserved.\<close>

lemma read_prefetched_all:
  assumes "distinct keys"
    and "\<forall>k \<in> set keys. \<exists>e. map_of (l1_objects (sm_l1_manager sm)) k = Some e \<and> os_memory_obj e = g k \<and> TTLLock_is_locked t (os_read_lock e)"
  shows "read_prefetched_enter t keys sm = (Some (map g keys), keys, True)"
proof -
  define f where "f = (\<lambda>key. case map_of (l1_objects (sm_l1_manager sm)) key of
                None \<Rightarrow> (KEY_NOT_EXIST, None)
              | Some entry \<Rightarrow> if \<not> TTLLock_is_locked t (os_read_lock entry) then (KEY_NOT_READABLE, None)
                  else (SUCCESS, Some (os_memory_obj entry)))"
  have "unsafe_read t keys (sm_l1_manager sm) = fold (\<lambda>k. AList.update k (f k)) keys []" by (simp add: unsafe_read_def f_def)
  also have "\<dots> = map (\<lambda>k. (k, f k)) keys" using fold_update_distinct [OF assms(1), of "[]"] by simp
  also have "\<dots> = map (\<lambda>k. (k, SUCCESS, Some (g k))) keys" using assms(2) by (auto simp: f_def)
  finally have u: "unsafe_read t keys (sm_l1_manager sm) = map (\<lambda>(k, i). (k, SUCCESS, Some i)) (map (\<lambda>k. (k, g k)) keys)" by simp
  show ?thesis
    unfolding read_prefetched_enter_def u map_filter_successes Let_def by (auto simp: comp_def)
qed

lemma retrieve_request:
  assumes gc: "map_of (mp_gpu_contexts eng) inst = Some gc" and bl: "blocks_valid gc blocks" "distinct blocks"
    and keys: "oks = map (chunk_object model) hs" "hs \<noteq> []"
    and en: "read_prefetched_enter t3 oks (mp_storage_manager eng) = (Some ids, oks, True)"
    and len: "length ids = length hs" and n: "length blocks * gc_block_size gc = length hs * cs"
    and fits: "context_fits T cs gc" and holds: "\<forall>i \<in> set ids. object_holds T cs gc (l1_allocator eng) i"
    and cuda: "\<forall>idx. \<not> cuda_raises cuda idx" and cs: "cs = mp_chunk_size eng" and T: "Torch_documented T"
  shows "\<exists>device. MPCacheEngine_retrieve S T cuda t3 t4 (map (chunk_key model rid) hs) inst blocks eng =
      (eng\<lparr>mp_devices := (mp_devices eng)(inst := device), mp_streams := mp_streams eng @ [FinishReadFunc oks]\<rparr>,
       Inr (replicate (length hs) True)) \<and>
    (\<forall>idx < length hs. \<forall>c \<in> chunk_cells T cs gc.
       device (cell_addr T cs gc (chunk_slots cs (block_slots gc blocks) idx) c) = mp_host eng (ids ! idx) (cell_index T cs gc c))"
proof -
  define slots where "slots = block_slots gc blocks"
  have sl: "length slots = length hs * cs" using n by (simp add: slots_def)
  have ok: "chunk_ok T cs gc (chunk_slots cs slots idx)" if "idx < length hs" for idx
    using chunk_slots_length [OF sl that] fits chunk_slots_set [of cs slots idx] block_slots_bounds [OF bl(1)]
    by (auto simp: chunk_ok_def slots_def)
  have todo: "\<forall>(idx, i) \<in> set (enumerate 0 ids). chunk_ok T cs gc (chunk_slots cs slots idx) \<and>
      object_holds T cs gc (l1_allocator eng) i \<and> \<not> cuda_raises cuda idx"
    using ok holds cuda len by (auto simp: in_set_enumerate_eq)
  have "distinct (map fst (enumerate 0 ids))" "distinct slots" using distinct_block_slots [OF bl(2)] by (simp_all add: slots_def)
  from retrieve_loop [OF T cs todo this, of inst] obtain device where
    loop: "for_each (retrieve_chunk T cuda inst gc slots) (enumerate 0 ids) eng = (eng\<lparr>mp_devices := (mp_devices eng)(inst := device)\<rparr>, Inr ())"
    and dev: "\<forall>(idx, i) \<in> set (enumerate 0 ids). \<forall>c \<in> chunk_cells T cs gc.
       device (cell_addr T cs gc (chunk_slots cs slots idx) c) = mp_host eng i (cell_index T cs gc c)" by blast
  have ne: "ids \<noteq> []" "length ids = length oks" "length oks = length hs" using len keys by auto
  have wk: "worker_object_keys (sint t3) (map (chunk_key model rid) hs) eng = (eng, Inr oks)" by (simp add: worker_object_keys_hash_mode keys(1))
  have ex: "on_storage (read_prefetched_exit S t4 True oks True) e = (e, Inr ())" for e :: "'a MPCacheEngine"
    by (simp add: on_storage_def read_prefetched_exit_def)
  have "MPCacheEngine_retrieve S T cuda t3 t4 (map (chunk_key model rid) hs) inst blocks eng =
      (eng\<lparr>mp_devices := (mp_devices eng)(inst := device), mp_streams := mp_streams eng @ [FinishReadFunc oks]\<rparr>,
       Inr (replicate (length hs) True))"
    using en loop gc ne
    by (simp add: MPCacheEngine_retrieve_def and_then_def wk gpu_context_def yield_result_def get_slot_mapping_valid [OF bl(1)]
        launch_host_func_def ex slots_def Let_def)
  moreover have "device (cell_addr T cs gc (chunk_slots cs slots idx) c) = mp_host eng (ids ! idx) (cell_index T cs gc c)"
    if "idx < length hs" "c \<in> chunk_cells T cs gc" for idx c
  proof -
    have "(idx, ids ! idx) \<in> set (enumerate 0 ids)" using that(1) len(1) by (simp add: in_set_enumerate_eq)
    then show ?thesis using dev that(2) by auto
  qed
  ultimately show ?thesis unfolding slots_def by blast
qed

text \<open>Two contexts of the same model, possibly with different numbers and sizes of blocks.\<close>

definition same_geometry :: "GPUCacheContext \<Rightarrow> GPUCacheContext \<Rightarrow> bool" where
  "same_geometry gc gc' \<longleftrightarrow> gc_num_layers gc = gc_num_layers gc' \<and> gc_hidden_dim_size gc = gc_hidden_dim_size gc' \<and>
     gc_is_mla gc = gc_is_mla gc' \<and> gc_dtype gc = gc_dtype gc'"

lemma same_geometry_simps:
  assumes "same_geometry gc gc'"
  shows "chunk_cells T cs gc' = chunk_cells T cs gc" and "cell_index T cs gc' = cell_index T cs gc"
    and "object_holds T cs gc' = object_holds T cs gc"
  using assms
  by (simp_all add: same_geometry_def chunk_cells_def cell_index_def object_holds_def tmp_gpu_buffer_def get_kv_buffer_shape_def fun_eq_iff)

text \<open>The storage manager after the host function of the store has run.\<close>

lemma finish_write_effect:
  assumes "distinct keys"
  shows "l1_memory (sm_l1_manager (StorageManager_finish_write t keys sm)) = l1_memory (sm_l1_manager sm)"
    and "map_of (l1_objects (sm_l1_manager (StorageManager_finish_write t keys sm))) k =
      (if k \<in> set keys then map_option (write_finished t) (map_of (l1_objects (sm_l1_manager sm)) k)
       else map_of (l1_objects (sm_l1_manager sm)) k)"
proof -
  obtain objs ret ok where f: "fold (finish_write_key t) keys (l1_objects (sm_l1_manager sm), [], []) = (objs, ret, ok)" by (metis prod_cases3)
  show "l1_memory (sm_l1_manager (StorageManager_finish_write t keys sm)) = l1_memory (sm_l1_manager sm)"
    by (simp add: StorageManager_finish_write_def on_l1_def finish_write_def f)
  show "map_of (l1_objects (sm_l1_manager (StorageManager_finish_write t keys sm))) k =
      (if k \<in> set keys then map_option (write_finished t) (map_of (l1_objects (sm_l1_manager sm)) k)
       else map_of (l1_objects (sm_l1_manager sm)) k)"
    using finish_write_fold [OF f assms, of k] by (simp add: StorageManager_finish_write_def on_l1_def finish_write_def f)
qed

text \<open>The entries of the stored keys once the host function of the store has run, and once a lookup has reserved them.\<close>

lemma stored_entries:
  assumes d: "distinct keys" and len: "length ids = length keys"
    and o1: "\<forall>k. map_of (l1_objects (sm_l1_manager sm1)) k = (case map_of (zip keys ids) k of
       None \<Rightarrow> map_of (l1_objects m) k | Some i \<Rightarrow> Some (new_entry t0 m False i))"
    and ttl: "l1_write_ttl_seconds m \<noteq> 0" "l1_read_ttl_seconds m \<noteq> 0"
    and t: "time_ok t0" "sint t0 \<le> sint t1" "sint t1 < sint t0 + 1000 * uint (l1_write_ttl_seconds m)"
    and nt: "no_temporary (l1_objects m)" and idx: "idx < length keys" and sm2: "sm2 = StorageManager_finish_write t1 keys sm1"
  shows "no_temporary (l1_objects (sm_l1_manager sm2))"
    and "\<exists>e. map_of (l1_objects (sm_l1_manager sm2)) (keys ! idx) = Some e \<and> os_memory_obj e = ids ! idx \<and>
      os_read_lock e = TTLLock_init (l1_read_ttl_seconds m) \<and> available_for_read t2 e"
proof -
  note fw = finish_write_effect(2) [OF d, of t1 sm1, folded sm2] and ne = new_entry_finished [OF ttl t refl]
  have key: "map_of (l1_objects (sm_l1_manager sm2)) (keys ! j) = Some (write_finished t1 (new_entry t0 m False (ids ! j)))" if "j < length keys" for j
    using that fw [of "keys ! j"] o1 map_of_zip_nth [OF len [symmetric] d, of j] len by simp
  show "\<exists>e. map_of (l1_objects (sm_l1_manager sm2)) (keys ! idx) = Some e \<and> os_memory_obj e = ids ! idx \<and>
      os_read_lock e = TTLLock_init (l1_read_ttl_seconds m) \<and> available_for_read t2 e"
    using key [OF idx] ne by simp
  have "\<not> os_is_temporary e" if e: "map_of (l1_objects (sm_l1_manager sm2)) k = Some e" for k e
  proof (cases "k \<in> set keys")
    case True
    then obtain j where "j < length keys" "k = keys ! j" by (metis in_set_conv_nth)
    then show ?thesis using key e ne(3) by auto
  next
    case False
    then have "map_of (zip keys ids) k = None" using len by (simp add: map_of_zip_is_None)
    then show ?thesis using False fw [of k] o1 nt e by (simp add: no_temporary_def)
  qed
  then show "no_temporary (l1_objects (sm_l1_manager sm2))" by (simp add: no_temporary_def)
qed

lemma reserved_readers:
  assumes e: "os_read_lock e = TTLLock_init ttl" "available_for_read t2 e" and ttl: "ttl \<noteq> 0"
    and t: "time_ok t2" "sint t2 \<le> sint t3" "sint t3 < sint t2 + 1000 * uint (ttl :: 32 word)"
  shows "TTLLock_is_locked t3 (os_read_lock (read_locked t2 1 e))"
    and "lock_count t3 (os_read_lock (read_finished t3 (read_locked t2 1 e))) = 0"
proof -
  show "TTLLock_is_locked t3 (os_read_lock (read_locked t2 1 e))" using reader_holds [OF ttl t] e by (simp add: read_locked_def)
  have c: "lease_covers t2 t3 e"
    using lock_good_init(1) [OF ttl] t by (simp add: lease_covers_def e(1) init_ttl lock_room_def) (simp add: TTLLock_init_def)
  show "lock_count t3 (os_read_lock (read_finished t3 (read_locked t2 1 e))) = 0"
    using reserved_entry(2) [OF c e(2)] lock_good_init(2) [OF ttl] by (simp add: e(1))
qed

lemma finish_read_prefetched_effect:
  assumes "l1_memory (sm_l1_manager sm) = LazyAlloc lz w" and "no_temporary (l1_objects (sm_l1_manager sm))" and "distinct keys" and "k \<in> set keys"
  shows "map_of (l1_objects (sm_l1_manager (fst (finish_read_prefetched S t keys sm)))) k =
    map_option (read_finished t) (map_of (l1_objects (sm_l1_manager sm)) k)"
proof -
  obtain objs ret ok need nkeys where f: "fold (finish_read_key t) keys (l1_objects (sm_l1_manager sm), [], [], [], []) = (objs, ret, ok, need, nkeys)"
    by (metis prod_cases5)
  note fin = finish_read_fold [OF f assms(2,3), of k]
  have "need = []" using fin by simp
  then have "map_of (l1_objects (sm_l1_manager (fst (finish_read_prefetched S t keys sm)))) k = map_of objs k"
    using f assms(1) lazy_free_nothing by (simp add: finish_read_prefetched_def on_l1_def finish_read_def)
  then show ?thesis using fin assms(4) by simp
qed

text \<open>The conditions on a store or retrieve of \<open>n\<close> chunks: whole blocks, offsets that fit the kernel, and nonempty chunks.\<close>

definition cache_request :: "Torch \<Rightarrow> nat \<Rightarrow> GPUCacheContext \<Rightarrow> int list \<Rightarrow> nat \<Rightarrow> bool" where
  "cache_request T cs gc blocks n \<longleftrightarrow> context_fits T cs gc \<and> 0 < torch_numel T (get_kv_buffer_shape gc cs) \<and>
     blocks_valid gc blocks \<and> length blocks * gc_block_size gc = n * cs"

text \<open>The engine after a store and its host function.\<close>

lemma store_finished:
  assumes ok: "l1_ok S T (sm_l1_manager (mp_storage_manager eng))"
    and lazy: "l1_allocator eng = LazyAlloc lz w" "lz_final_size lz < 2 ^ 63"
    and nt: "no_temporary (l1_objects (sm_l1_manager (mp_storage_manager eng)))" and st: "mp_streams eng = []" and cs: "cs = mp_chunk_size eng"
    and gc: "map_of (mp_gpu_contexts eng) inst = Some gc" and rq: "cache_request T cs gc blocks (length hs)"
    and hs: "distinct hs" "hs \<noteq> []" "\<forall>h \<in> set hs. get_object_state (chunk_object model h) (sm_l1_manager (mp_storage_manager eng)) = None"
    and cuda: "\<forall>idx. \<not> cuda_raises cuda idx"
    and al: "L1MemoryManager_allocate S T (store_layout cs gc) (int (length hs)) (l1_allocator eng) = Inr (a, SUCCESS, ids)"
    and m: "m = sm_l1_manager (mp_storage_manager eng)" and ttl: "l1_write_ttl_seconds m \<noteq> 0" "l1_read_ttl_seconds m \<noteq> 0"
    and t: "time_ok t0" "sint t0 \<le> sint t1" "sint t1 < sint t0 + 1000 * uint (l1_write_ttl_seconds m)"
    and oks: "oks = map (chunk_object model) hs"
  shows "\<exists>E1 E2 w'. MPCacheEngine_store S T cuda t0 (map (chunk_key model rid) hs) inst blocks eng = (E1, Inr True) \<and>
    E2 = run_host_func S t1 E1 \<and> l1_allocator E2 = LazyAlloc lz w' \<and> mp_gpu_contexts E2 = mp_gpu_contexts eng \<and>
    mp_chunk_size E2 = cs \<and> mp_streams E2 = [] \<and> length ids = length hs \<and> (\<forall>i \<in> set ids. object_holds T cs gc (l1_allocator E2) i) \<and>
    no_temporary (l1_objects (sm_l1_manager (mp_storage_manager E2))) \<and>
    (\<forall>idx < length hs. \<forall>c \<in> chunk_cells T cs gc. mp_host E2 (ids ! idx) (cell_index T cs gc c) =
       mp_devices eng inst (cell_addr T cs gc (chunk_slots cs (block_slots gc blocks) idx) c)) \<and>
    (\<forall>idx < length hs. \<exists>e. map_of (l1_objects (sm_l1_manager (mp_storage_manager E2))) (oks ! idx) = Some e \<and>
       os_memory_obj e = ids ! idx \<and> os_read_lock e = TTLLock_init (l1_read_ttl_seconds m) \<and> available_for_read t2 e)"
proof -
  have d: "distinct oks" "length oks = length hs" "oks \<noteq> []" using hs by (simp_all add: oks distinct_map inj_on_def chunk_object_inj)
  have T: "Torch_documented T" and aok: "l1_alloc_ok S T (LazyAlloc lz w)"
    using ok lazy(1) by (simp_all add: l1_ok_def l1_alloc_ok_def l1_allocator_def)
  have R: "context_fits T cs gc" "blocks_valid gc blocks" "length blocks * gc_block_size gc = length hs * cs"
    and "0 < torch_numel T (get_kv_buffer_shape gc cs) * torch_itemsize T (gc_dtype gc)"
    using rq T by (simp_all add: cache_request_def Torch_documented_def)
  from allocated_objects [OF aok lazy(2) _ this(4) al [unfolded lazy(1)]] obtain w' where
    A: "a = LazyAlloc lz w'" "length ids = length hs" "distinct ids" "\<forall>i \<in> set ids. object_holds T cs gc a i" using hs(2) by auto
  have new: "\<forall>k \<in> set oks. map_of (l1_objects m) k = None" using hs(3) by (simp add: oks m get_object_state_def)
  have al': "L1MemoryManager_allocate S T (store_layout cs gc) (int (length oks)) (l1_memory m) = Inr (a, SUCCESS, ids)"
    using al d(2) by (simp add: m l1_allocator_def)
  obtain sm1 where sm1: "StorageManager_reserve_write S T t0 oks (store_layout cs gc) New (mp_storage_manager eng) = (sm1, Inr (zip oks ids))"
    "l1_memory (sm_l1_manager sm1) = a"
    "\<forall>k. map_of (l1_objects (sm_l1_manager sm1)) k = (case map_of (zip oks ids) k of
       None \<Rightarrow> map_of (l1_objects m) k | Some i \<Rightarrow> Some (new_entry t0 m False i))"
    using reserve_new [OF d(1,3) new [unfolded m] al' [unfolded m], of t0, folded m] A(2) d(2) by auto
  obtain dev host where st1: "MPCacheEngine_store S T cuda t0 (map (chunk_key model rid) hs) inst blocks eng =
      (eng\<lparr>mp_storage_manager := sm1, mp_devices := (mp_devices eng)(inst := dev), mp_host := host,
           mp_streams := mp_streams eng @ [FinishWriteFunc oks]\<rparr>, Inr True)"
    and host: "\<forall>idx < length hs. \<forall>c \<in> chunk_cells T cs gc. host (ids ! idx) (cell_index T cs gc c) =
       mp_devices eng inst (cell_addr T cs gc (chunk_slots cs (block_slots gc blocks) idx) c)"
    using store_request [OF gc R(2) oks hs(1) sm1(1) A(2,3) R(3,1) A(4) [folded sm1(2)] cuda cs T, of rid] by blast
  define E1 where "E1 = eng\<lparr>mp_storage_manager := sm1, mp_devices := (mp_devices eng)(inst := dev), mp_host := host,
           mp_streams := mp_streams eng @ [FinishWriteFunc oks]\<rparr>"
  define sm2 where "sm2 = StorageManager_finish_write t1 oks sm1"
  define E2 where "E2 = run_host_func S t1 E1"
  have f2: "mp_storage_manager E2 = sm2" "l1_allocator E2 = a" "mp_gpu_contexts E2 = mp_gpu_contexts eng" "mp_chunk_size E2 = cs"
    "mp_host E2 = host" "mp_streams E2 = []"
    using st cs finish_write_effect(1) [OF d(1)] sm1(2) by (simp_all add: E2_def E1_def run_host_func_def sm2_def l1_allocator_def)
  have len: "length ids = length oks" using A(2) d(2) by simp
  note se = stored_entries [OF d(1) len sm1(3) ttl t nt [folded m] _ sm2_def, unfolded d(2)]
  have "no_temporary (l1_objects (sm_l1_manager sm2))" using se(1) [of 0] hs(2) by simp
  then show ?thesis
    using st1 [folded E1_def] E2_def A f2 host se(2) by (intro exI [of _ E1] exI [of _ E2] exI [of _ w']) simp
qed

text \<open>The engine after a retrieve of reserved keys and its host function.\<close>

lemma retrieve_finished:
  assumes T: "Torch_documented T" and lazy: "l1_allocator eng = LazyAlloc lz w" and st: "mp_streams eng = []" and cs: "cs = mp_chunk_size eng"
    and gc: "map_of (mp_gpu_contexts eng) inst = Some gc" and rq: "cache_request T cs gc blocks (length hs)" "distinct blocks"
    and hs: "distinct hs" "hs \<noteq> []" and oks: "oks = map (chunk_object model) hs" and cuda: "\<forall>idx. \<not> cuda_raises cuda idx"
    and len: "length ids = length hs" and holds: "\<forall>i \<in> set ids. object_holds T cs gc (l1_allocator eng) i"
    and nt: "no_temporary (l1_objects (sm_l1_manager (mp_storage_manager eng)))"
    and ent: "\<forall>idx < length hs. \<exists>e. map_of (l1_objects (sm_l1_manager (mp_storage_manager eng))) (oks ! idx) = Some (read_locked t2 1 e) \<and>
      os_memory_obj e = ids ! idx \<and> os_read_lock e = TTLLock_init rttl \<and> available_for_read t2 e"
    and t: "rttl \<noteq> 0" "time_ok t2" "sint t2 \<le> sint t3" "sint t3 < sint t2 + 1000 * uint (rttl :: 32 word)"
      "sint t2 \<le> sint t5" "sint t5 < sint t2 + 1000 * uint rttl"
  shows "\<exists>E4. MPCacheEngine_retrieve S T cuda t3 t4 (map (chunk_key model rid) hs) inst blocks eng = (E4, Inr (replicate (length hs) True)) \<and>
    (\<forall>idx < length hs. \<forall>c \<in> chunk_cells T cs gc.
       mp_devices E4 inst (cell_addr T cs gc (chunk_slots cs (block_slots gc blocks) idx) c) = mp_host eng (ids ! idx) (cell_index T cs gc c)) \<and>
    (\<forall>h \<in> set hs. \<exists>e. get_object_state (chunk_object model h) (sm_l1_manager (mp_storage_manager (run_host_func S t5 E4))) = Some e \<and>
        lock_count t5 (os_read_lock e) = 0)"
proof -
  define sm where "sm = mp_storage_manager eng"
  have d: "distinct oks" "length oks = length hs" using hs by (simp_all add: oks distinct_map inj_on_def chunk_object_inj)
  define g where "g k = the (map_of (zip oks ids) k)" for k
  have g: "g (oks ! idx) = ids ! idx" if "idx < length hs" for idx
    using map_of_zip_nth [of oks ids idx] d len that by (simp add: g_def)
  have "\<forall>k \<in> set oks. \<exists>e. map_of (l1_objects (sm_l1_manager sm)) k = Some e \<and> os_memory_obj e = g k \<and> TTLLock_is_locked t3 (os_read_lock e)"
  proof
    fix k assume "k \<in> set oks"
    then obtain idx where idx: "idx < length hs" "k = oks ! idx" using d(2) by (metis in_set_conv_nth)
    then show "\<exists>e. map_of (l1_objects (sm_l1_manager sm)) k = Some e \<and> os_memory_obj e = g k \<and> TTLLock_is_locked t3 (os_read_lock e)"
      using ent reserved_readers(1) [OF _ _ t(1-4)] g by (fastforce simp: sm_def)
  qed
  note en = read_prefetched_all [OF d(1) this]
  have "map g oks = ids" using g d(2) len by (intro nth_equalityI) simp_all
  note en = en [unfolded this sm_def]
  have R: "blocks_valid gc blocks" "length blocks * gc_block_size gc = length hs * cs" "context_fits T cs gc"
    using rq(1) by (simp_all add: cache_request_def)
  obtain dev where E4: "MPCacheEngine_retrieve S T cuda t3 t4 (map (chunk_key model rid) hs) inst blocks eng =
      (eng\<lparr>mp_devices := (mp_devices eng)(inst := dev), mp_streams := mp_streams eng @ [FinishReadFunc oks]\<rparr>, Inr (replicate (length hs) True))"
    and dev: "\<forall>idx < length hs. \<forall>c \<in> chunk_cells T cs gc.
       dev (cell_addr T cs gc (chunk_slots cs (block_slots gc blocks) idx) c) = mp_host eng (ids ! idx) (cell_index T cs gc c)"
    using retrieve_request [OF gc R(1) rq(2) oks hs(2) en len R(2,3) holds cuda cs T, of S t4 rid] by blast
  define E4 where "E4 = eng\<lparr>mp_devices := (mp_devices eng)(inst := dev), mp_streams := mp_streams eng @ [FinishReadFunc oks]\<rparr>"
  have "mp_storage_manager (run_host_func S t5 E4) = fst (finish_read_prefetched S t5 oks sm)"
    using st by (simp add: E4_def run_host_func_def sm_def)
  then have "\<exists>e. get_object_state (oks ! idx) (sm_l1_manager (mp_storage_manager (run_host_func S t5 E4))) = Some e \<and> lock_count t5 (os_read_lock e) = 0"
    if "idx < length hs" for idx
    using finish_read_prefetched_effect [OF lazy [unfolded l1_allocator_def] nt d(1) nth_mem, of idx S t5] ent that d(2)
      reserved_readers(2) [OF _ _ t(1,2,5,6)] by (fastforce simp: get_object_state_def sm_def)
  then have "\<forall>h \<in> set hs. \<exists>e. get_object_state (chunk_object model h) (sm_l1_manager (mp_storage_manager (run_host_func S t5 E4))) = Some e \<and>
        lock_count t5 (os_read_lock e) = 0"
    by (fastforce simp: oks in_set_conv_nth)
  then show ?thesis using E4 [folded E4_def] dev by (auto simp: E4_def)
qed

text \<open>Giving back a reader, on the whole table and on one entry.\<close>

lemma finish_read_exit:
  assumes "l1_memory (sm_l1_manager sm) = LazyAlloc lz w" and "no_temporary (l1_objects (sm_l1_manager sm))" and "distinct keys"
  shows "read_prefetched_exit S t True keys False sm = (fst (finish_read_prefetched S t keys sm), Inr ())"
    and "l1_memory (sm_l1_manager (fst (finish_read_prefetched S t keys sm))) = LazyAlloc lz w"
    and "no_temporary (l1_objects (sm_l1_manager (fst (finish_read_prefetched S t keys sm))))"
proof -
  obtain objs ret ok need nkeys where f: "fold (finish_read_key t) keys (l1_objects (sm_l1_manager sm), [], [], [], []) = (objs, ret, ok, need, nkeys)"
    by (metis prod_cases5)
  note fin = finish_read_fold [OF f assms(2,3)]
  then have "need = []" by simp
  then have "finish_read S t keys (sm_l1_manager sm) = (notify (\<lambda>p. on_keys_deleted_by_manager nkeys (on_keys_read_finished ok p))
      ((sm_l1_manager sm)\<lparr>l1_objects := objs, l1_memory := LazyAlloc lz w\<rparr>), Inr ret)"
    using f assms(1) lazy_free_nothing by (simp add: finish_read_def)
  then show "read_prefetched_exit S t True keys False sm = (fst (finish_read_prefetched S t keys sm), Inr ())"
    "l1_memory (sm_l1_manager (fst (finish_read_prefetched S t keys sm))) = LazyAlloc lz w"
    "no_temporary (l1_objects (sm_l1_manager (fst (finish_read_prefetched S t keys sm))))"
    using fin by (simp_all add: read_prefetched_exit_def finish_read_prefetched_def on_l1_def)
qed

lemma read_finished_count:
  assumes "lock_good (os_read_lock e)" and "\<not> TTLLock_is_locked t (os_write_lock e)" and "sint t \<le> sint t'"
  shows "lock_good (os_read_lock (read_finished t e))" and "os_write_lock (read_finished t e) = os_write_lock e"
    and "lock_count t' (os_read_lock (read_finished t e)) = lock_count t' (os_read_lock e) - 1"
proof -
  note u = tl.unlock_law [OF assms(1)]
  show "lock_good (os_read_lock (read_finished t e))" "os_write_lock (read_finished t e) = os_write_lock e"
    using u assms(1) by (simp_all add: read_finished_def)
  show "lock_count t' (os_read_lock (read_finished t e)) = lock_count t' (os_read_lock e) - 1"
  proof (cases "TTLLock_is_locked t (os_read_lock e)")
    case True
    then show ?thesis using u assms(2) by (simp add: read_finished_def finishable_def)
  next
    case False
    then have "lock_count t' (os_read_lock e) = 0" using unwritten_later [OF False assms(3)] tl.locked_law [OF assms(1)] by simp
    then show ?thesis using False by (simp add: read_finished_def finishable_def)
  qed
qed

section \<open>Store, lookup and retrieve\<close>

text \<open>
  What a worker stores, another worker of the same model can look up and retrieve. When memory for
  \<open>n\<close> new chunks can be allocated, \<^verbatim>\<open>store\<close> succeeds; once its host function has run, \<^verbatim>\<open>lookup\<close>
  answers \<open>n\<close>; \<^verbatim>\<open>retrieve\<close> in the lease of the lookup reports success for all chunks; and every word of
  every layer in the target blocks then equals the word that was in the source blocks when
  \<^verbatim>\<open>store\<close> was called, also when the two instances have different block sizes. After the host
  function of the retrieve, no chunk has a reader left.
\<close>

lemma store_lookup_retrieve:
  assumes ok: "l1_ok S T (sm_l1_manager (mp_storage_manager eng))"
    and lazy: "l1_allocator eng = LazyAlloc lz w" "lz_final_size lz < 2 ^ 63"
    and nt: "no_temporary (l1_objects (sm_l1_manager (mp_storage_manager eng)))" and st: "mp_streams eng = []" and cs: "cs = mp_chunk_size eng"
    and gc: "map_of (mp_gpu_contexts eng) inst = Some gc" "map_of (mp_gpu_contexts eng) inst' = Some gc'" "same_geometry gc gc'"
    and rq: "cache_request T cs gc blocks (length hs)" "cache_request T cs gc' blocks' (length hs)" "distinct blocks'"
    and hs: "distinct hs" "hs \<noteq> []" "\<forall>h \<in> set hs. get_object_state (chunk_object model h) (sm_l1_manager (mp_storage_manager eng)) = None"
    and cuda: "\<forall>idx. \<not> cuda_raises cuda idx"
    and al: "L1MemoryManager_allocate S T (store_layout cs gc) (int (length hs)) (l1_allocator eng) = Inr (a, SUCCESS, ids)"
    and ttl: "wttl = l1_write_ttl_seconds (sm_l1_manager (mp_storage_manager eng))" "wttl \<noteq> 0"
      "rttl = l1_read_ttl_seconds (sm_l1_manager (mp_storage_manager eng))" "rttl \<noteq> 0"
    and t: "time_ok t0" "sint t0 \<le> sint t1" "sint t1 < sint t0 + 1000 * uint wttl"
      "time_ok t2" "sint t2 \<le> sint t3" "sint t3 < sint t2 + 1000 * uint rttl" "sint t2 \<le> sint t5" "sint t5 < sint t2 + 1000 * uint rttl"
  shows "\<exists>E1 E3 E4.
     MPCacheEngine_store S T cuda t0 (map (chunk_key model rid) hs) inst blocks eng = (E1, Inr True) \<and>
     MPCacheEngine_lookup S t2 t2' (map (\<lambda>h. no_worker_id_version (chunk_key model rid' h)) hs) (run_host_func S t1 E1) =
       (E3, Inr (int (length hs))) \<and>
     MPCacheEngine_retrieve S T cuda t3 t4 (map (chunk_key model rid') hs) inst' blocks' E3 = (E4, Inr (replicate (length hs) True)) \<and>
     (\<forall>idx < length hs. \<forall>c \<in> chunk_cells T cs gc.
        mp_devices E4 inst' (cell_addr T cs gc' (chunk_slots cs (block_slots gc' blocks') idx) c) =
        mp_devices eng inst (cell_addr T cs gc (chunk_slots cs (block_slots gc blocks) idx) c)) \<and>
     (\<forall>h \<in> set hs. \<exists>e. get_object_state (chunk_object model h) (sm_l1_manager (mp_storage_manager (run_host_func S t5 E4))) = Some e \<and>
        lock_count t5 (os_read_lock e) = 0)"
proof -
  define m where "m = sm_l1_manager (mp_storage_manager eng)"
  define oks where "oks = map (chunk_object model) hs"
  have d: "distinct oks" "length oks = length hs" using hs by (simp_all add: oks_def distinct_map inj_on_def chunk_object_inj)
  have T: "Torch_documented T" using ok by (simp add: l1_ok_def l1_alloc_ok_def)
  note sf = store_finished [OF ok lazy nt st cs gc(1) rq(1) hs cuda al m_def _ _ t(1,2) _ oks_def, of rid t2]
  obtain E1 E2 w' where E1: "MPCacheEngine_store S T cuda t0 (map (chunk_key model rid) hs) inst blocks eng = (E1, Inr True)"
    and E2: "E2 = run_host_func S t1 E1" "l1_allocator E2 = LazyAlloc lz w'" "mp_gpu_contexts E2 = mp_gpu_contexts eng"
    "mp_chunk_size E2 = cs" "mp_streams E2 = []" and len: "length ids = length hs"
    and holds: "\<forall>i \<in> set ids. object_holds T cs gc (l1_allocator E2) i"
    and nt2: "no_temporary (l1_objects (sm_l1_manager (mp_storage_manager E2)))"
    and host: "\<forall>idx < length hs. \<forall>c \<in> chunk_cells T cs gc. mp_host E2 (ids ! idx) (cell_index T cs gc c) =
       mp_devices eng inst (cell_addr T cs gc (chunk_slots cs (block_slots gc blocks) idx) c)"
    and ent: "\<forall>idx < length hs. \<exists>e. map_of (l1_objects (sm_l1_manager (mp_storage_manager E2))) (oks ! idx) = Some e \<and>
       os_memory_obj e = ids ! idx \<and> os_read_lock e = TTLLock_init rttl \<and> available_for_read t2 e"
    using sf ttl t(3) unfolding m_def by auto
  have "\<forall>k \<in> set oks. \<exists>e. map_of (l1_objects (sm_l1_manager (mp_storage_manager E2))) k = Some e \<and> available_for_read t2 e"
    using ent d(2) by (metis in_set_conv_nth)
  then obtain sm3 where E3: "MPCacheEngine_lookup S t2 t2' (map (\<lambda>h. no_worker_id_version (chunk_key model rid' h)) hs) E2 =
      (E2\<lparr>mp_storage_manager := sm3\<rparr>, Inr (int (length hs)))" "l1_memory (sm_l1_manager sm3) = l1_allocator E2"
    "no_temporary (l1_objects (sm_l1_manager sm3))"
    "\<forall>k \<in> set oks. map_of (l1_objects (sm_l1_manager sm3)) k =
       map_option (read_locked t2 1) (map_of (l1_objects (sm_l1_manager (mp_storage_manager E2))) k)"
    using lookup_request [OF E2(2) hs(1,2) oks_def nt2] by blast
  define E3 where "E3 = E2\<lparr>mp_storage_manager := sm3\<rparr>"
  have f3: "mp_storage_manager E3 = sm3" "l1_allocator E3 = l1_allocator E2" "mp_gpu_contexts E3 = mp_gpu_contexts eng" "cs = mp_chunk_size E3"
    "mp_host E3 = mp_host E2" "mp_streams E3 = []" using E2 E3(2) by (simp_all add: E3_def l1_allocator_def)
  have ent3: "\<exists>e. map_of (l1_objects (sm_l1_manager sm3)) (oks ! idx) = Some (read_locked t2 1 e) \<and> os_memory_obj e = ids ! idx \<and>
      os_read_lock e = TTLLock_init rttl \<and> available_for_read t2 e" if "idx < length hs" for idx
    using ent E3(4) that nth_mem [of idx oks] d(2) by fastforce
  have gc3: "map_of (mp_gpu_contexts E3) inst' = Some gc'" using gc(2) f3(3) by simp
  have holds3: "\<forall>i \<in> set ids. object_holds T cs gc' (l1_allocator E3) i" using holds f3(2) same_geometry_simps(3) [OF gc(3)] by simp
  have lazy3: "l1_allocator E3 = LazyAlloc lz w'" using f3(2) E2(2) by simp
  obtain E4 where E4: "MPCacheEngine_retrieve S T cuda t3 t4 (map (chunk_key model rid') hs) inst' blocks' E3 = (E4, Inr (replicate (length hs) True))"
    and dev: "\<forall>idx < length hs. \<forall>c \<in> chunk_cells T cs gc'.
       mp_devices E4 inst' (cell_addr T cs gc' (chunk_slots cs (block_slots gc' blocks') idx) c) = mp_host E3 (ids ! idx) (cell_index T cs gc' c)"
    and free: "\<forall>h \<in> set hs. \<exists>e. get_object_state (chunk_object model h) (sm_l1_manager (mp_storage_manager (run_host_func S t5 E4))) = Some e \<and>
        lock_count t5 (os_read_lock e) = 0"
    using retrieve_finished [OF T lazy3 f3(6,4) gc3 rq(2,3) hs(1,2) oks_def cuda len holds3 _ _ ttl(4) t(4-8), of S t4 rid'] E3(3) ent3 f3(1) by auto
  have "\<forall>idx < length hs. \<forall>c \<in> chunk_cells T cs gc. mp_devices E4 inst' (cell_addr T cs gc' (chunk_slots cs (block_slots gc' blocks') idx) c) =
        mp_devices eng inst (cell_addr T cs gc (chunk_slots cs (block_slots gc blocks) idx) c)"
    using dev host f3(5) same_geometry_simps(1,2) [OF gc(3)] by simp
  then show ?thesis using E1 E3(1) [folded E3_def] E4 free unfolding E2(1) by blast
qed

section \<open>Properties\<close>

text \<open>
  Property C33. A failing retrieve is reported as a success. When every key is reserved and the first
  CUDA call of the loop raises, no word of any device changes, and yet \<^verbatim>\<open>retrieve\<close> answers \<^verbatim>\<open>True\<close> for
  every chunk: the exception ends in the generator of \<^verbatim>\<open>read_prefetched_results\<close>. Each reader is
  moreover counted out twice, by the generator and by the host function, so that a key with a
  second reader is left without its lock.
\<close>

theorem retrieve_failure_unreported:
  assumes "l1_allocator eng = LazyAlloc lz w" and "no_temporary (l1_objects (sm_l1_manager (mp_storage_manager eng)))" and "mp_streams eng = []"
    and "map_of (mp_gpu_contexts eng) inst = Some gc" and "get_slot_mapping_tensor gc blocks = Inr slots"
    and "distinct hs" and "hs \<noteq> []" and oks: "oks = map (chunk_object model) hs"
    and "read_prefetched_enter t3 oks (mp_storage_manager eng) = (Some ids, oks, True)" and "length ids = length hs"
    and "cuda_raises cuda 0" and t: "sint t4 \<le> sint t5"
  shows "\<exists>E. MPCacheEngine_retrieve S T cuda t3 t4 (map (chunk_key model rid) hs) inst blocks eng = (E, Inr (replicate (length hs) True)) \<and>
     mp_devices E = mp_devices eng \<and>
     (\<forall>k \<in> set oks. \<forall>e. get_object_state k (sm_l1_manager (mp_storage_manager eng)) = Some e \<and> lock_good (os_read_lock e) \<and>
          \<not> TTLLock_is_locked t4 (os_write_lock e) \<longrightarrow>
        (\<exists>e'. get_object_state k (sm_l1_manager (mp_storage_manager (run_host_func S t5 E))) = Some e' \<and>
           lock_count t5 (os_read_lock e') = lock_count t5 (os_read_lock e) - 2))"
proof -
  define sm where "sm = mp_storage_manager eng"
  define sm4 where "sm4 = fst (finish_read_prefetched S t4 oks sm)"
  define E where "E = eng\<lparr>mp_storage_manager := sm4, mp_streams := [FinishReadFunc oks]\<rparr>"
  have d: "distinct oks" "length oks = length hs" using assms(6) by (simp_all add: oks distinct_map inj_on_def chunk_object_inj)
  have lazy: "l1_memory (sm_l1_manager sm) = LazyAlloc lz w" using assms(1) by (simp add: sm_def l1_allocator_def)
  note nt = assms(2) [folded sm_def]
  have ids: "ids \<noteq> []" "length ids = length oks" using assms(7,10) d(2) by auto
  have wk: "worker_object_keys (sint t3) (map (chunk_key model rid) hs) eng = (eng, Inr oks)" by (simp add: worker_object_keys_hash_mode oks)
  obtain i js where "ids = i # js" using ids(1) by (cases ids) auto
  then have loop: "for_each (retrieve_chunk T cuda inst gc slots) (enumerate 0 ids) eng = (eng, Inl RuntimeError)"
    using assms(11) by (simp add: and_then_def retrieve_chunk_def)
  have fin: "read_prefetched_exit S t4 True oks False sm = (sm4, Inr ())" "l1_memory (sm_l1_manager sm4) = LazyAlloc lz w" "no_temporary (l1_objects (sm_l1_manager sm4))"
    using finish_read_exit [OF lazy nt d(1), of S t4] by (simp_all add: sm4_def)
  have "MPCacheEngine_retrieve S T cuda t3 t4 (map (chunk_key model rid) hs) inst blocks eng = (E, Inr (replicate (length hs) True))"
    using assms(3-5,9) ids loop d(2) fin(1)
    by (simp add: MPCacheEngine_retrieve_def and_then_def wk gpu_context_def yield_result_def launch_host_func_def on_storage_def Let_def E_def sm_def)
  moreover have "mp_devices E = mp_devices eng" by (simp add: E_def)
  moreover have "\<exists>e'. get_object_state k (sm_l1_manager (mp_storage_manager (run_host_func S t5 E))) = Some e' \<and>
      lock_count t5 (os_read_lock e') = lock_count t5 (os_read_lock e) - 2"
    if k: "k \<in> set oks" and e: "map_of (l1_objects (sm_l1_manager sm)) k = Some e" "lock_good (os_read_lock e)" "\<not> TTLLock_is_locked t4 (os_write_lock e)" for k e
  proof -
    note c4 = read_finished_count [OF e(2,3) t] and c5 = read_finished_count [OF _ _ order_refl, of "read_finished t4 e" t5]
    have "mp_storage_manager (run_host_func S t5 E) = fst (finish_read_prefetched S t5 oks sm4)" by (simp add: E_def run_host_func_def)
    then have "map_of (l1_objects (sm_l1_manager (mp_storage_manager (run_host_func S t5 E)))) k = Some (read_finished t5 (read_finished t4 e))"
      using finish_read_prefetched_effect [OF lazy nt d(1) k, of S t4] finish_read_prefetched_effect [OF fin(2,3) d(1) k, of S t5] e(1)
      by (simp add: sm4_def)
    then show ?thesis using c4 c5 unwritten_later [OF e(3) t] by (simp add: get_object_state_def)
  qed
  ultimately show ?thesis by (auto simp: get_object_state_def sm_def)
qed

section \<open>Witnesses\<close>

definition demo_context :: "nat \<Rightarrow> nat \<Rightarrow> GPUCacheContext" where
  "demo_context num_blocks block_size = projr (GPUCacheContext_init [[2, num_blocks, block_size, 2, 2]] ''float16'')"

definition demo_engine :: "(int64 \<times> l1_op) list \<Rightarrow> (int \<times> addr) MPCacheEngine" where
  "demo_engine ops =
     \<lparr>mp_gpu_contexts = [(7, demo_context 4 2), (9, demo_context 8 1)], mp_chunk_size = 2,
      mp_storage_manager =
        \<lparr>sm_l1_manager = fold (l1_step insertion_list plain_torch) ops (projr (demo_init True)),
         sm_eviction_config = \<lparr>ec_eviction_policy = ''LRU'', ec_trigger_watermark = 1, ec_eviction_ratio = 1\<rparr>, sm_stopped = False\<rparr>,
      mp_session_manager = \<lparr>sm_hasher = example_hasher, sm_ttl = 600, sm_sessions = []\<rparr>,
      mp_devices = Pair, mp_host = (\<lambda>i n. (0, LmcBuf n)), mp_streams = []\<rparr>"

definition demo_cuda :: "(nat \<Rightarrow> bool) \<Rightarrow> (int \<times> addr) cuda" where
  "demo_cuda raises = \<lparr>cuda_raises = raises, cuda_undefined = id\<rparr>"

lemma demo_context_simps [simp]:
  "gc_num_layers (demo_context nb bs) = 1" "gc_num_blocks (demo_context nb bs) = nb" "gc_block_size (demo_context nb bs) = bs"
  "gc_hidden_dim_size (demo_context nb bs) = 4" "\<not> gc_is_mla (demo_context nb bs)" "gc_dtype (demo_context nb bs) = ''float16''"
  by (simp_all add: demo_context_def GPUCacheContext_init_def py_nth_def)

lemma demo_engine_lazy: "\<exists>lz w. l1_allocator (demo_engine []) = LazyAlloc lz w \<and> lz_final_size lz < 2 ^ 63"
proof -
  have "(case l1_allocator (demo_engine []) of LazyAlloc lz w \<Rightarrow> lz_final_size lz < 2 ^ 63 | _ \<Rightarrow> False)" by code_simp
  then show ?thesis by (auto split: L1Allocator.splits)
qed

lemma demo_request:
  "cache_request plain_torch 2 (demo_context 4 2) [3, 0] 2" "cache_request plain_torch 2 (demo_context 8 1) [5, 1, 0, 7] 2"
  by (simp_all add: cache_request_def context_fits_def blocks_valid_def get_kv_buffer_shape_def plain_torch_def page_buffer_size_def
      kv_parts_def row_words_def transfer_word_def)

lemma demo_engine_ok:
  "l1_ok insertion_list plain_torch (sm_l1_manager (mp_storage_manager (demo_engine [])))" "l1_objects (sm_l1_manager (mp_storage_manager (demo_engine []))) = []"
  "l1_write_ttl_seconds (sm_l1_manager (mp_storage_manager (demo_engine []))) = 600" "l1_read_ttl_seconds (sm_l1_manager (mp_storage_manager (demo_engine []))) = 300"
proof -
  have m: "sm_l1_manager (mp_storage_manager (demo_engine [])) = projr (demo_init True)" by (simp add: demo_engine_def)
  note init = L1Manager_init_ok [OF insertion_list_documented plain_torch_documented, where align = 4096 and k = 12,
      OF _ _ _ _ demo_init_Inr [of True, unfolded demo_init_def], folded demo_init_def]
  show "l1_ok insertion_list plain_torch (sm_l1_manager (mp_storage_manager (demo_engine [])))" "l1_objects (sm_l1_manager (mp_storage_manager (demo_engine []))) = []"
    unfolding m using init(1,3) by simp_all
  show "l1_write_ttl_seconds (sm_l1_manager (mp_storage_manager (demo_engine []))) = 600" "l1_read_ttl_seconds (sm_l1_manager (mp_storage_manager (demo_engine []))) = 300"
    unfolding m by code_simp+
qed

lemma demo_allocates:
  "\<exists>a ids. L1MemoryManager_allocate insertion_list plain_torch (store_layout 2 (demo_context 4 2)) 2 (l1_allocator (demo_engine [])) = Inr (a, SUCCESS, ids)"
proof -
  have "(case L1MemoryManager_allocate insertion_list plain_torch (store_layout 2 (demo_context 4 2)) 2 (l1_allocator (demo_engine [])) of
      Inl _ \<Rightarrow> False | Inr (a, err, ids) \<Rightarrow> err = SUCCESS)" by code_simp
  then show ?thesis by (auto split: sum.splits)
qed

lemma demo_engine_simps:
  "mp_chunk_size (demo_engine ops) = 2" "map_of (mp_gpu_contexts (demo_engine ops)) 7 = Some (demo_context 4 2)"
  "map_of (mp_gpu_contexts (demo_engine ops)) 9 = Some (demo_context 8 1)" "mp_streams (demo_engine ops) = []" "mp_devices (demo_engine ops) = Pair"
  by (simp_all add: demo_engine_def)

lemma demo_cells:
  "same_geometry (demo_context 4 2) (demo_context 8 1)" "(1, 0, 1, 0) \<in> chunk_cells plain_torch 2 (demo_context 4 2)"
  "chunk_slots 2 (block_slots (demo_context 4 2) [3, 0]) 1 = [0, 1]" "chunk_slots 2 (block_slots (demo_context 8 1) [5, 1, 0, 7]) 1 = [0, 7]"
  by (simp_all add: same_geometry_def chunk_cells_def kv_parts_def row_words_def transfer_word_def plain_torch_def chunk_slots_def block_slots_def upt_rec)

definition demo_reserved :: "(int \<times> addr) MPCacheEngine" where
  "demo_reserved = demo_engine [(1000, ReserveWrite [chunk_object ''m'' [1]] [False] (store_layout 2 (demo_context 4 2)) New),
     (2000, FinishWrite [chunk_object ''m'' [1]]), (3000, ReserveRead [chunk_object ''m'' [1]]), (3000, ReserveRead [chunk_object ''m'' [1]])]"

theorem retrieve_failure_unreported_witness:
  "\<exists>E e'. MPCacheEngine_retrieve insertion_list plain_torch (demo_cuda (\<lambda>_. True)) 4000 4001 [chunk_key ''m'' None [1]] 7 [3] demo_reserved =
       (E, Inr [True]) \<and> mp_devices E = Pair \<and>
     get_object_state (chunk_object ''m'' [1]) (sm_l1_manager (mp_storage_manager (run_host_func insertion_list 5000 E))) = Some e' \<and>
     lock_count 5000 (os_read_lock e') = 0"
proof -
  let ?sm = "mp_storage_manager demo_reserved" and ?oks = "map (chunk_object ''m'') [[1]]"
  have "(case l1_allocator demo_reserved of LazyAlloc lz w \<Rightarrow> True | _ \<Rightarrow> False)" by code_simp
  then obtain lz w where lw: "l1_allocator demo_reserved = LazyAlloc lz w" by (auto split: L1Allocator.splits)
  have "\<forall>(k, e) \<in> set (l1_objects (sm_l1_manager ?sm)). \<not> os_is_temporary e" by code_simp
  then have nt: "no_temporary (l1_objects (sm_l1_manager ?sm))" using map_of_SomeD by (fastforce simp: no_temporary_def)
  have en: "read_prefetched_enter 4000 ?oks ?sm = (Some [0], ?oks, True)" by code_simp
  have "(case map_of (l1_objects (sm_l1_manager ?sm)) (chunk_object ''m'' [1]) of None \<Rightarrow> False
      | Some e \<Rightarrow> tl_counter (os_read_lock e) = 2 \<and> tl_ttl_ms (os_read_lock e) = 300000 \<and> tl_counter (os_write_lock e) = 0)" by code_simp
  then obtain e where e: "get_object_state (chunk_object ''m'' [1]) (sm_l1_manager ?sm) = Some e"
    "tl_counter (os_read_lock e) = 2" "tl_ttl_ms (os_read_lock e) = 300000" "tl_counter (os_write_lock e) = 0"
    by (auto simp: get_object_state_def split: option.splits)
  have eng: "mp_streams demo_reserved = []" "map_of (mp_gpu_contexts demo_reserved) 7 = Some (demo_context 4 2)" "mp_devices demo_reserved = Pair"
    by (simp_all add: demo_reserved_def demo_engine_def)
  have sl: "get_slot_mapping_tensor (demo_context 4 2) [3] = Inr (block_slots (demo_context 4 2) [3])"
    by (rule get_slot_mapping_valid) (simp add: blocks_valid_def)
  have g: "lock_good (os_read_lock e)" "\<not> TTLLock_is_locked 4001 (os_write_lock e)" "lock_count 5000 (os_read_lock e) \<le> 2"
    using e(2-4) by (simp_all add: lock_good_def TTLLock_is_locked_def lock_count_def)
  from retrieve_failure_unreported [OF lw nt eng(1,2) sl _ _ refl en, of "demo_cuda (\<lambda>_. True)" 4001 5000 insertion_list plain_torch None]
  show ?thesis using e(1) g eng(3) by (fastforce simp: demo_cuda_def)
qed

end
