(* ===== verification/Message_Queue.thy ===== *)
theory Message_Queue
  imports MP_Engine
begin

text \<open>
  The message queue between the serving processes and the cache server: \<^verbatim>\<open>protocol.py\<close>, \<^verbatim>\<open>mq.py\<close>,
  \<^verbatim>\<open>futures.py\<close> and the table of handlers of \<^verbatim>\<open>run_cache_server\<close> in \<^verbatim>\<open>lmcache/v1/multiprocess\<close>.

  Clients and the server are threads around queues and sockets. Each round of a loop is a step;
  the steps of all threads interleave, and the worker threads of the server finish their tasks
  in any order. Sockets deliver messages without loss and in order, as ZeroMQ documents for
  connected peers. The serialisation of \<^verbatim>\<open>msgspec\<close> is a parameter.

  Shown: handlers called with the declared payload classes answer with the declared response
  class; every request is executed exactly once and its future gets its own answer; a request
  whose handler raises is never answered.
\<close>

section \<open>Protocol\<close>

datatype RequestType =
    REGISTER_KV_CACHE
  | UNREGISTER_KV_CACHE
  | STORE
  | RETRIEVE
  | LOOKUP
  | CLEAR
  | GET_CHUNK_SIZE
  | END_SESSION
  | NOOP

datatype HandlerType = SYNC | BLOCKING | NON_BLOCKING

text \<open>The classes that occur in the protocol, and the values they describe.\<close>

datatype py_class =
    CNone
  | CInt
  | CStr
  | CBool
  | CBytes
  | CKey
  | CIPCWrapper
  | CRequestType
  | CList py_class
  | CTuple "py_class list"

datatype py_obj =
    ONone
  | OInt int
  | OStr string
  | OBool bool
  | OBytes bytes
  | OKey IPCCacheEngineKey
  | OIPCWrapper "nat list" torch_dtype
  | ORequestType RequestType
  | OList "py_obj list"
  | OTuple "py_obj list"

fun has_class :: "py_obj \<Rightarrow> py_class \<Rightarrow> bool"
  and has_classes :: "py_obj list \<Rightarrow> py_class list \<Rightarrow> bool"
where
  "has_class ONone c \<longleftrightarrow> c = CNone"
| "has_class (OInt _) c \<longleftrightarrow> c = CInt"
| "has_class (OStr _) c \<longleftrightarrow> c = CStr"
| "has_class (OBool _) c \<longleftrightarrow> c = CBool"
| "has_class (OBytes _) c \<longleftrightarrow> c = CBytes"
| "has_class (OKey _) c \<longleftrightarrow> c = CKey"
| "has_class (OIPCWrapper _ _) c \<longleftrightarrow> c = CIPCWrapper"
| "has_class (ORequestType _) c \<longleftrightarrow> c = CRequestType"
| "has_class (OList xs) c \<longleftrightarrow> (case c of CList d \<Rightarrow> list_all (\<lambda>x. has_class x d) xs | _ \<Rightarrow> False)"
| "has_class (OTuple xs) c \<longleftrightarrow> (case c of CTuple ds \<Rightarrow> has_classes xs ds | _ \<Rightarrow> False)"
| "has_classes [] ds \<longleftrightarrow> ds = []"
| "has_classes (x # xs) ds \<longleftrightarrow> (case ds of [] \<Rightarrow> False | d # ds' \<Rightarrow> has_class x d \<and> has_classes xs ds')"

lemma has_classes_all2: "has_classes xs ds = list_all2 has_class xs ds"
  by (induction xs arbitrary: ds) (auto split: list.split)

record ProtocolDefinition =
  pd_payload_classes :: "py_class list"
  pd_response_class :: py_class
  pd_handler_type :: HandlerType

definition PROTOCOL_DEFINITIONS :: "(RequestType \<times> ProtocolDefinition) list" where
  "PROTOCOL_DEFINITIONS =
     [(REGISTER_KV_CACHE, \<lparr>pd_payload_classes = [CInt, CList CIPCWrapper], pd_response_class = CNone, pd_handler_type = SYNC\<rparr>),
      (UNREGISTER_KV_CACHE, \<lparr>pd_payload_classes = [CInt], pd_response_class = CNone, pd_handler_type = SYNC\<rparr>),
      (STORE, \<lparr>pd_payload_classes = [CList CKey, CInt, CList CInt, CBytes], pd_response_class = CTuple [CBytes, CBool],
               pd_handler_type = BLOCKING\<rparr>),
      (RETRIEVE, \<lparr>pd_payload_classes = [CList CKey, CInt, CList CInt, CBytes], pd_response_class = CTuple [CBytes, CList CBool],
                  pd_handler_type = BLOCKING\<rparr>),
      (LOOKUP, \<lparr>pd_payload_classes = [CList CKey], pd_response_class = CInt, pd_handler_type = BLOCKING\<rparr>),
      (CLEAR, \<lparr>pd_payload_classes = [], pd_response_class = CNone, pd_handler_type = BLOCKING\<rparr>),
      (GET_CHUNK_SIZE, \<lparr>pd_payload_classes = [], pd_response_class = CInt, pd_handler_type = SYNC\<rparr>),
      (END_SESSION, \<lparr>pd_payload_classes = [CStr], pd_response_class = CNone, pd_handler_type = SYNC\<rparr>),
      (NOOP, \<lparr>pd_payload_classes = [], pd_response_class = CStr, pd_handler_type = SYNC\<rparr>)]"

definition get_protocol :: "(ProtocolDefinition \<Rightarrow> 'a) \<Rightarrow> RequestType \<Rightarrow> 'a result" where
  "get_protocol f req_type = (case map_of PROTOCOL_DEFINITIONS req_type of None \<Rightarrow> Inl ValueError | Some pd \<Rightarrow> Inr (f pd))"

definition get_payload_classes :: "RequestType \<Rightarrow> py_class list result" where
  "get_payload_classes = get_protocol pd_payload_classes"

definition get_response_class :: "RequestType \<Rightarrow> py_class result" where
  "get_response_class = get_protocol pd_response_class"

definition get_handler_type :: "RequestType \<Rightarrow> HandlerType result" where
  "get_handler_type = get_protocol pd_handler_type"

section \<open>Serialisation\<close>

text \<open>
  \<^verbatim>\<open>msgspec\<close>, with its default coders and those with the hooks of \<^verbatim>\<open>custom_types.py\<close> for CUDA tensors:
  decoding with a class validates, and decoding what the coder of a class encoded from a value
  of the class gives the value back. The type \<open>'b\<close> stands for the frames.
\<close>

record 'b Msgspec =
  ms_encode :: "py_obj \<Rightarrow> 'b"
  ms_decode :: "py_class \<Rightarrow> 'b \<Rightarrow> py_obj result"
  ms_encode_wrapper :: "py_obj \<Rightarrow> 'b"
  ms_decode_wrapper :: "py_class \<Rightarrow> 'b \<Rightarrow> py_obj result"

definition SPECIAL_ENCODER_DECODERS :: "py_class list" where
  "SPECIAL_ENCODER_DECODERS = [CIPCWrapper, CList CIPCWrapper]"

definition msgspec_encode :: "'b Msgspec \<Rightarrow> py_obj \<Rightarrow> py_class \<Rightarrow> 'b" where
  "msgspec_encode ms obj cls = (if cls \<in> set SPECIAL_ENCODER_DECODERS then ms_encode_wrapper ms obj else ms_encode ms obj)"

definition msgspec_decode :: "'b Msgspec \<Rightarrow> 'b \<Rightarrow> py_class \<Rightarrow> py_obj result" where
  "msgspec_decode ms b_obj cls = (if cls \<in> set SPECIAL_ENCODER_DECODERS then ms_decode_wrapper ms cls b_obj else ms_decode ms cls b_obj)"

definition Msgspec_documented :: "'b Msgspec \<Rightarrow> bool" where
  "Msgspec_documented ms \<longleftrightarrow>
     (\<forall>v c. has_class v c \<longrightarrow> ms_decode ms c (ms_encode ms v) = Inr v \<and> ms_decode_wrapper ms c (ms_encode_wrapper ms v) = Inr v) \<and>
     (\<forall>b c v. ms_decode ms c b = Inr v \<or> ms_decode_wrapper ms c b = Inr v \<longrightarrow> has_class v c)"

text \<open>An instance whose frames are the values.\<close>

definition plain_msgspec :: "py_obj Msgspec" where
  "plain_msgspec =
     \<lparr>ms_encode = (\<lambda>v. v), ms_decode = (\<lambda>c v. if has_class v c then Inr v else Inl TypeError),
      ms_encode_wrapper = (\<lambda>v. v), ms_decode_wrapper = (\<lambda>c v. if has_class v c then Inr v else Inl TypeError)\<rparr>"

lemma plain_msgspec_documented: "Msgspec_documented plain_msgspec"
  by (simp add: Msgspec_documented_def plain_msgspec_def)

lemma msgspec_roundtrip: "Msgspec_documented ms \<Longrightarrow> has_class v c \<Longrightarrow> msgspec_decode ms (msgspec_encode ms v c) c = Inr v"
  by (simp add: Msgspec_documented_def msgspec_decode_def msgspec_encode_def)

definition decode_request_uid :: "'b Msgspec \<Rightarrow> 'b \<Rightarrow> int result" where
  "decode_request_uid ms b = bind_result (msgspec_decode ms b CInt) (\<lambda>v. case v of OInt n \<Rightarrow> Inr n | _ \<Rightarrow> Inl TypeError)"

definition decode_request_type :: "'b Msgspec \<Rightarrow> 'b \<Rightarrow> RequestType result" where
  "decode_request_type ms b = bind_result (msgspec_decode ms b CRequestType) (\<lambda>v. case v of ORequestType r \<Rightarrow> Inr r | _ \<Rightarrow> Inl TypeError)"

definition encode_request_uid :: "'b Msgspec \<Rightarrow> nat \<Rightarrow> 'b" where
  "encode_request_uid ms uid = msgspec_encode ms (OInt (int uid)) CInt"

definition encode_request_type :: "'b Msgspec \<Rightarrow> RequestType \<Rightarrow> 'b" where
  "encode_request_type ms r = msgspec_encode ms (ORequestType r) CRequestType"

definition unwrap_request_payloads :: "'b Msgspec \<Rightarrow> 'b list \<Rightarrow> py_class list \<Rightarrow> py_obj list result" where
  "unwrap_request_payloads ms b_payloads payload_clss =
     (if length b_payloads \<noteq> length payload_clss then Inl ValueError
      else map_result (\<lambda>(b, c). msgspec_decode ms b c) (zip b_payloads payload_clss))"

section \<open>Futures\<close>

record MessagingFuture =
  fu_is_done :: bool
  fu_result :: py_obj

definition MessagingFuture_init :: MessagingFuture where
  "MessagingFuture_init = \<lparr>fu_is_done = False, fu_result = ONone\<rparr>"

definition MessagingFuture_query :: "MessagingFuture \<Rightarrow> bool" where
  "MessagingFuture_query f = fu_is_done f"

text \<open>\<^verbatim>\<open>wait\<close> and \<^verbatim>\<open>result\<close> as they end when the state of the future does not change any more before the timeout.\<close>

definition MessagingFuture_wait :: "MessagingFuture \<Rightarrow> bool" where
  "MessagingFuture_wait f = fu_is_done f"

definition MessagingFuture_get_result :: "MessagingFuture \<Rightarrow> py_obj result" where
  "MessagingFuture_get_result f = (if \<not> MessagingFuture_wait f then Inl TimeoutError else Inr (fu_result f))"

definition set_result :: "py_obj \<Rightarrow> MessagingFuture \<Rightarrow> MessagingFuture" where
  "set_result v f = f\<lparr>fu_result := v, fu_is_done := True\<rparr>"

text \<open>The future that also waits for a CUDA event; \<open>event_query\<close> tells whether an event has happened.\<close>

record CUDAMessagingFuture =
  cf_raw_future :: MessagingFuture
  cf_event :: "bytes option"
  cf_result :: py_obj

definition CUDAMessagingFuture_init :: "MessagingFuture \<Rightarrow> CUDAMessagingFuture" where
  "CUDAMessagingFuture_init raw_future = \<lparr>cf_raw_future = raw_future, cf_event = None, cf_result = ONone\<rparr>"

definition on_raw_future_complete :: "CUDAMessagingFuture \<Rightarrow> CUDAMessagingFuture result" where
  "on_raw_future_complete f =
     bind_result (MessagingFuture_get_result (cf_raw_future f)) (\<lambda>v.
       case v of OTuple [OBytes event_bytes, r] \<Rightarrow> Inr (f\<lparr>cf_result := r, cf_event := Some event_bytes\<rparr>) | _ \<Rightarrow> Inl TypeError)"

definition CUDAMessagingFuture_wait :: "CUDAMessagingFuture \<Rightarrow> (CUDAMessagingFuture \<times> bool) result" where
  "CUDAMessagingFuture_wait f =
     (if cf_event f \<noteq> None then Inr (f, True)
      else if \<not> MessagingFuture_wait (cf_raw_future f) then Inr (f, False)
      else bind_result (on_raw_future_complete f) (\<lambda>f'. if cf_event f' = None then Inl AssertionError else Inr (f', True)))"

definition CUDAMessagingFuture_get_result :: "CUDAMessagingFuture \<Rightarrow> (CUDAMessagingFuture \<times> py_obj) result" where
  "CUDAMessagingFuture_get_result f =
     bind_result (CUDAMessagingFuture_wait f) (\<lambda>(f', flag).
       if \<not> flag then Inl TimeoutError else if cf_result f' = ONone then Inl AssertionError else Inr (f', cf_result f'))"

definition CUDAMessagingFuture_query :: "(bytes \<Rightarrow> bool) \<Rightarrow> CUDAMessagingFuture \<Rightarrow> (CUDAMessagingFuture \<times> bool) result" where
  "CUDAMessagingFuture_query event_query f =
     (case cf_event f of
        Some ev \<Rightarrow> Inr (f, event_query ev)
      | None \<Rightarrow>
          if MessagingFuture_query (cf_raw_future f)
          then bind_result (on_raw_future_complete f) (\<lambda>f'.
                 case cf_event f' of None \<Rightarrow> Inl AssertionError | Some ev \<Rightarrow> Inr (f', event_query ev))
          else Inr (f, False))"

section \<open>The client\<close>

text \<open>
  The futures of a client are numbered by their request. \<open>cl_alive\<close> is false once an exception has
  ended the main loop.
\<close>

record client =
  cl_request_counter :: nat
  cl_input_queue :: "(nat \<times> RequestType \<times> py_obj list) list"
  cl_pending_futures :: "nat list"
  cl_futures :: "(nat \<times> MessagingFuture) list"
  cl_alive :: bool

definition MessageQueueClient_init :: client where
  "MessageQueueClient_init =
     \<lparr>cl_request_counter = 0, cl_input_queue = [], cl_pending_futures = [], cl_futures = [], cl_alive = True\<rparr>"

definition submit_request :: "RequestType \<Rightarrow> py_obj list \<Rightarrow> client \<Rightarrow> client \<times> nat" where
  "submit_request request_type request_payloads cl =
     (let request_uid = cl_request_counter cl
      in (cl\<lparr>cl_request_counter := request_uid + 1,
             cl_input_queue := cl_input_queue cl @ [(request_uid, request_type, request_payloads)],
             cl_futures := cl_futures cl @ [(request_uid, MessagingFuture_init)]\<rparr>, request_uid))"

definition request_frames :: "'b Msgspec \<Rightarrow> py_class list \<Rightarrow> nat \<times> RequestType \<times> py_obj list \<Rightarrow> 'b list" where
  "request_frames ms payload_classes r =
     (case r of (uid, request_type, payloads) \<Rightarrow>
        encode_request_uid ms uid # encode_request_type ms request_type #
        map (\<lambda>(payload, cls). msgspec_encode ms payload cls) (zip payloads payload_classes))"

text \<open>The loop over the input queue, with the messages it sends. An exception ends the thread.\<close>

fun process_outbound_task ::
  "'b Msgspec \<Rightarrow> (nat \<times> RequestType \<times> py_obj list) list \<Rightarrow> client \<Rightarrow> client \<times> 'b list list"
where
  "process_outbound_task ms [] cl = (cl\<lparr>cl_input_queue := []\<rparr>, [])"
| "process_outbound_task ms ((uid, request_type, payloads) # queue) cl =
     (let cl1 = cl\<lparr>cl_pending_futures := List.insert uid (cl_pending_futures cl)\<rparr>
      in case get_payload_classes request_type of
           Inl e \<Rightarrow> (cl1\<lparr>cl_input_queue := queue, cl_alive := False\<rparr>, [])
         | Inr payload_classes \<Rightarrow>
             if length payload_classes \<noteq> length payloads
             then (cl1\<lparr>cl_input_queue := queue, cl_alive := False\<rparr>, [])
             else (case process_outbound_task ms queue cl1 of
                     (cl2, msgs) \<Rightarrow> (cl2, request_frames ms payload_classes (uid, request_type, payloads) # msgs)))"

definition set_future :: "nat \<Rightarrow> py_obj \<Rightarrow> client \<Rightarrow> client" where
  "set_future uid v cl =
     cl\<lparr>cl_pending_futures := removeAll uid (cl_pending_futures cl),
        cl_futures := map (\<lambda>(u, f). (u, if u = uid then set_result v f else f)) (cl_futures cl)\<rparr>"

text \<open>The inbound part of the main loop.\<close>

definition client_receive :: "'b Msgspec \<Rightarrow> 'b list \<Rightarrow> client \<Rightarrow> client" where
  "client_receive ms msg cl =
     (case msg of
        b_request_uid # b_request_type # b_response \<Rightarrow>
          (case bind_result (decode_request_uid ms b_request_uid) (\<lambda>uid.
                bind_result (decode_request_type ms b_request_type) (\<lambda>request_type.
                bind_result (get_response_class request_type) (\<lambda>response_cls. Inr (uid, response_cls)))) of
             Inl e \<Rightarrow> cl\<lparr>cl_alive := False\<rparr>
           | Inr (uid, response_cls) \<Rightarrow>
               if uid < 0 \<or> nat uid \<notin> set (cl_pending_futures cl) then cl
               else (case b_response of
                       [] \<Rightarrow> set_future (nat uid) ONone cl
                     | b # _ \<Rightarrow>
                         (case msgspec_decode ms b response_cls of
                            Inl e \<Rightarrow> cl\<lparr>cl_pending_futures := removeAll (nat uid) (cl_pending_futures cl), cl_alive := False\<rparr>
                          | Inr response \<Rightarrow> set_future (nat uid) response cl)))
      | _ \<Rightarrow> cl\<lparr>cl_alive := False\<rparr>)"

section \<open>The server\<close>

type_synonym 'e mq_handler = "int64 \<times> int64 \<Rightarrow> py_obj list \<Rightarrow> 'e \<Rightarrow> 'e \<times> py_obj result"

record 'e RequestHandler =
  rh_handler_type :: HandlerType
  rh_payload_clss :: "py_class list"
  rh_response_cls :: py_class
  rh_handler :: "'e mq_handler"

type_synonym 'e handlers = "(RequestType \<times> 'e RequestHandler) list"

text \<open>The annotations of a handler, as \<^verbatim>\<open>inspect\<close> and \<^verbatim>\<open>get_type_hints\<close> report them.\<close>

record 'e annotated =
  an_parameters :: "py_class list"
  an_return :: py_class
  an_function :: "'e mq_handler"

definition inspect_handler_signature :: "RequestType \<Rightarrow> 'e annotated \<Rightarrow> bool result" where
  "inspect_handler_signature request_type handler =
     bind_result (get_payload_classes request_type) (\<lambda>payload_clss.
       if length (an_parameters handler) \<noteq> length payload_clss then Inr False
       else if list_ex (\<lambda>(ann, expected_cls). ann \<noteq> expected_cls) (zip (an_parameters handler) payload_clss) then Inr False
       else bind_result (get_response_class request_type) (\<lambda>expected_return_cls. Inr (an_return handler = expected_return_cls)))"

definition add_handler ::
  "RequestType \<Rightarrow> py_class list \<Rightarrow> HandlerType \<Rightarrow> 'e annotated \<Rightarrow> 'e handlers \<Rightarrow> 'e handlers result"
where
  "add_handler request_type payload_clss handler_type handler hs =
     bind_result (inspect_handler_signature request_type handler) (\<lambda>matches.
       if \<not> matches then Inl ValueError
       else if handler_type = NON_BLOCKING then Inl NotImplementedError
       else bind_result (get_response_class request_type) (\<lambda>response_cls.
              Inr (AList.update request_type
                     \<lparr>rh_handler_type = handler_type, rh_payload_clss = payload_clss, rh_response_cls = response_cls,
                      rh_handler = an_function handler\<rparr> hs)))"

definition add_handler_helper :: "'e handlers \<Rightarrow> RequestType \<times> 'e annotated \<Rightarrow> 'e handlers result" where
  "add_handler_helper hs rf =
     (case rf of (request_type, handler_function) \<Rightarrow>
        bind_result (get_payload_classes request_type) (\<lambda>payload_classes.
        bind_result (get_handler_type request_type) (\<lambda>handler_type.
          add_handler request_type payload_classes handler_type handler_function hs)))"

section \<open>The system\<close>

text \<open>
  A message from or to a client carries the identity that the router socket of the server adds.
  A task of the thread pool is a decoded request with the frames to send back first.
\<close>

record 'b task =
  ta_prefix :: "nat \<times> 'b \<times> 'b"
  ta_request_type :: RequestType
  ta_payloads :: "py_obj list"

record ('e, 'b) mq =
  mq_engine :: 'e
  mq_clients :: "nat \<Rightarrow> client"
  mq_to_server :: "(nat \<times> 'b list) list"
  mq_tasks :: "'b task list"
  mq_output_queue :: "(nat \<times> 'b list) list"
  mq_to_client :: "nat \<Rightarrow> 'b list list"
  mq_server_alive :: bool

text \<open>What the handlers did: the identity and request frame, the request and its outcome.\<close>

type_synonym 'b execution = "nat \<times> 'b \<times> RequestType \<times> py_obj list \<times> py_obj result"

definition response_frames :: "'b Msgspec \<Rightarrow> 'e RequestHandler \<Rightarrow> nat \<times> 'b \<times> 'b \<Rightarrow> py_obj \<Rightarrow> nat \<times> 'b list" where
  "response_frames ms entry prefix_frames response =
     (case prefix_frames of (identity, b_uid, b_type) \<Rightarrow>
        (identity, b_uid # b_type # (if response = ONone then [] else [msgspec_encode ms response (rh_response_cls entry)])))"

definition send_to_client :: "nat \<times> 'b list \<Rightarrow> ('e, 'b) mq \<Rightarrow> ('e, 'b) mq" where
  "send_to_client msg st =
     (case msg of (identity, frames) \<Rightarrow>
        st\<lparr>mq_to_client := (mq_to_client st)(identity := mq_to_client st identity @ [frames])\<rparr>)"

text \<open>The handler runs in the main loop, and the response is sent at once. An exception is logged there.\<close>

definition call_sync_handler ::
  "'b Msgspec \<Rightarrow> int64 \<times> int64 \<Rightarrow> RequestType \<Rightarrow> 'e RequestHandler \<Rightarrow> 'b list \<Rightarrow> nat \<times> 'b \<times> 'b \<Rightarrow> ('e, 'b) mq \<Rightarrow>
   ('e, 'b) mq \<times> 'b execution list"
where
  "call_sync_handler ms clock rt entry payloads prefix_frames st =
     (case unwrap_request_payloads ms payloads (rh_payload_clss entry) of
        Inl e \<Rightarrow> (st, [])
      | Inr ps \<Rightarrow>
          (case rh_handler entry clock ps (mq_engine st) of
             (eng, r) \<Rightarrow>
               let st1 = st\<lparr>mq_engine := eng\<rparr>
               in (case r of Inl e \<Rightarrow> st1 | Inr response \<Rightarrow> send_to_client (response_frames ms entry prefix_frames response) st1,
                   [(fst prefix_frames, fst (snd prefix_frames), rt, ps, r)])))"

definition call_blocking_handler ::
  "'b Msgspec \<Rightarrow> RequestType \<Rightarrow> 'e RequestHandler \<Rightarrow> 'b list \<Rightarrow> nat \<times> 'b \<times> 'b \<Rightarrow> ('e, 'b) mq \<Rightarrow> ('e, 'b) mq"
where
  "call_blocking_handler ms rt entry payloads prefix_frames st =
     (case unwrap_request_payloads ms payloads (rh_payload_clss entry) of
        Inl e \<Rightarrow> st
      | Inr ps \<Rightarrow> st\<lparr>mq_tasks := mq_tasks st @ [\<lparr>ta_prefix = prefix_frames, ta_request_type = rt, ta_payloads = ps\<rparr>]\<rparr>)"

definition call_handler ::
  "'b Msgspec \<Rightarrow> int64 \<times> int64 \<Rightarrow> RequestType \<Rightarrow> 'e RequestHandler \<Rightarrow> 'b list \<Rightarrow> nat \<times> 'b \<times> 'b \<Rightarrow> ('e, 'b) mq \<Rightarrow>
   ('e, 'b) mq \<times> 'b execution list"
where
  "call_handler ms clock rt entry payloads prefix_frames st =
     (case rh_handler_type entry of
        SYNC \<Rightarrow> call_sync_handler ms clock rt entry payloads prefix_frames st
      | BLOCKING \<Rightarrow> (call_blocking_handler ms rt entry payloads prefix_frames st, [])
      | NON_BLOCKING \<Rightarrow> (st, []))"

text \<open>
  The inbound part of the main loop for one message. A message with too few frames, or with a
  request type that does not decode, raises outside the \<^verbatim>\<open>try\<close> statement and ends the thread.
\<close>

definition server_receive ::
  "'b Msgspec \<Rightarrow> 'e handlers \<Rightarrow> int64 \<times> int64 \<Rightarrow> nat \<times> 'b list \<Rightarrow> ('e, 'b) mq \<Rightarrow> ('e, 'b) mq \<times> 'b execution list"
where
  "server_receive ms hs clock msg st =
     (case msg of
        (identity, b_request_uid # b_request_type # payloads) \<Rightarrow>
          (case decode_request_type ms b_request_type of
             Inl e \<Rightarrow> (st\<lparr>mq_server_alive := False\<rparr>, [])
           | Inr request_type \<Rightarrow>
               (case map_of hs request_type of
                  None \<Rightarrow> (st, [])
                | Some entry \<Rightarrow> call_handler ms clock request_type entry payloads (identity, b_request_uid, b_request_type) st))
      | _ \<Rightarrow> (st\<lparr>mq_server_alive := False\<rparr>, []))"

text \<open>A worker thread runs a task, and its callback queues the response.\<close>

definition run_task ::
  "'b Msgspec \<Rightarrow> 'e handlers \<Rightarrow> int64 \<times> int64 \<Rightarrow> 'b task \<Rightarrow> ('e, 'b) mq \<Rightarrow> ('e, 'b) mq \<times> 'b execution list"
where
  "run_task ms hs clock task st =
     (case map_of hs (ta_request_type task) of
        None \<Rightarrow> (st, [])
      | Some entry \<Rightarrow>
          (case rh_handler entry clock (ta_payloads task) (mq_engine st) of
             (eng, r) \<Rightarrow>
               let st1 = st\<lparr>mq_engine := eng\<rparr>
               in (case r of
                     Inl e \<Rightarrow> st1
                   | Inr response \<Rightarrow> st1\<lparr>mq_output_queue := mq_output_queue st1 @ [response_frames ms entry (ta_prefix task) response]\<rparr>,
                   [(fst (ta_prefix task), fst (snd (ta_prefix task)), ta_request_type task, ta_payloads task, r)])))"

definition send_responses :: "('e, 'b) mq \<Rightarrow> ('e, 'b) mq" where
  "send_responses st = fold send_to_client (mq_output_queue st) (st\<lparr>mq_output_queue := []\<rparr>)"

definition on_client :: "nat \<Rightarrow> (client \<Rightarrow> client) \<Rightarrow> ('e, 'b) mq \<Rightarrow> ('e, 'b) mq" where
  "on_client c f st = st\<lparr>mq_clients := (mq_clients st)(c := f (mq_clients st c))\<rparr>"

text \<open>
  Reachable states of the system, with the requests that were submitted and the executions so
  far. Clients submit payloads of the classes that the protocol declares.
\<close>

inductive mq_reach ::
  "'b Msgspec \<Rightarrow> 'e handlers \<Rightarrow> 'e \<Rightarrow> ('e, 'b) mq \<Rightarrow> (nat \<times> nat \<times> RequestType \<times> py_obj list) list \<Rightarrow> 'b execution list \<Rightarrow> bool"
  for ms :: "'b Msgspec" and hs :: "'e handlers" and e0 :: 'e
where
  start: "mq_reach ms hs e0
    \<lparr>mq_engine = e0, mq_clients = (\<lambda>_. MessageQueueClient_init), mq_to_server = [], mq_tasks = [], mq_output_queue = [],
     mq_to_client = (\<lambda>_. []), mq_server_alive = True\<rparr> [] []"
| submit: "mq_reach ms hs e0 st subs execs \<Longrightarrow> get_payload_classes rt = Inr cs \<Longrightarrow> has_classes ps cs \<Longrightarrow>
    submit_request rt ps (mq_clients st c) = (cl, uid) \<Longrightarrow>
    mq_reach ms hs e0 (st\<lparr>mq_clients := (mq_clients st)(c := cl)\<rparr>) (subs @ [(c, uid, rt, ps)]) execs"
| outbound: "mq_reach ms hs e0 st subs execs \<Longrightarrow> cl_alive (mq_clients st c) \<Longrightarrow>
    process_outbound_task ms (cl_input_queue (mq_clients st c)) (mq_clients st c) = (cl, msgs) \<Longrightarrow>
    mq_reach ms hs e0 (st\<lparr>mq_clients := (mq_clients st)(c := cl), mq_to_server := mq_to_server st @ map (Pair c) msgs\<rparr>) subs execs"
| inbound: "mq_reach ms hs e0 st subs execs \<Longrightarrow> cl_alive (mq_clients st c) \<Longrightarrow> mq_to_client st c = msg # rest \<Longrightarrow>
    mq_reach ms hs e0 (on_client c (client_receive ms msg) (st\<lparr>mq_to_client := (mq_to_client st)(c := rest)\<rparr>)) subs execs"
| receive: "mq_reach ms hs e0 st subs execs \<Longrightarrow> mq_server_alive st \<Longrightarrow> mq_to_server st = msg # rest \<Longrightarrow>
    server_receive ms hs clock msg (st\<lparr>mq_to_server := rest\<rparr>) = (st', ex) \<Longrightarrow> mq_reach ms hs e0 st' subs (execs @ ex)"
| worker: "mq_reach ms hs e0 st subs execs \<Longrightarrow> mq_tasks st = before @ task # after \<Longrightarrow>
    run_task ms hs clock task (st\<lparr>mq_tasks := before @ after\<rparr>) = (st', ex) \<Longrightarrow> mq_reach ms hs e0 st' subs (execs @ ex)"
| respond: "mq_reach ms hs e0 st subs execs \<Longrightarrow> mq_server_alive st \<Longrightarrow> mq_reach ms hs e0 (send_responses st) subs execs"

section \<open>The cache server\<close>

text \<open>
  The methods of the engine as handlers: the arguments of a call are taken apart, and the result
  becomes a value. \<open>ipc_handle\<close> is the handle of the event that a transfer records. Arguments of
  other classes than the annotations raise \<^verbatim>\<open>TypeError\<close> here.
\<close>

definition arg_list :: "(py_obj \<Rightarrow> 'a result) \<Rightarrow> py_obj \<Rightarrow> 'a list result" where
  "arg_list f v = (case v of OList xs \<Rightarrow> map_result f xs | _ \<Rightarrow> Inl TypeError)"

definition arg_key :: "py_obj \<Rightarrow> IPCCacheEngineKey result" where
  "arg_key v = (case v of OKey k \<Rightarrow> Inr k | _ \<Rightarrow> Inl TypeError)"

definition arg_int :: "py_obj \<Rightarrow> int result" where
  "arg_int v = (case v of OInt n \<Rightarrow> Inr n | _ \<Rightarrow> Inl TypeError)"

definition arg_tensor :: "py_obj \<Rightarrow> (nat list \<times> torch_dtype) result" where
  "arg_tensor v = (case v of OIPCWrapper shape dtype \<Rightarrow> Inr (shape, dtype) | _ \<Rightarrow> Inl TypeError)"

definition call_engine :: "'x result \<Rightarrow> ('x \<Rightarrow> 'e \<Rightarrow> 'e \<times> 'a result) \<Rightarrow> ('a \<Rightarrow> py_obj) \<Rightarrow> 'e \<Rightarrow> 'e \<times> py_obj result" where
  "call_engine args f wrap eng =
     (case args of
        Inl e \<Rightarrow> (eng, Inl e)
      | Inr x \<Rightarrow> (case f x eng of (eng', r) \<Rightarrow> (eng', bind_result r (\<lambda>a. Inr (wrap a)))))"

definition transfer_args :: "py_obj list \<Rightarrow> (IPCCacheEngineKey list \<times> int \<times> int list) result" where
  "transfer_args ps =
     (case ps of
        [keys, inst, blocks, event] \<Rightarrow>
          bind_result (arg_list arg_key keys) (\<lambda>ks. bind_result (arg_int inst) (\<lambda>i. bind_result (arg_list arg_int blocks) (\<lambda>bs. Inr (ks, i, bs))))
      | _ \<Rightarrow> Inl TypeError)"

definition handle_register_kv_cache :: "'d MPCacheEngine mq_handler" where
  "handle_register_kv_cache clock ps =
     call_engine
       (case ps of [inst, kv_caches] \<Rightarrow> bind_result (arg_int inst) (\<lambda>i. bind_result (arg_list arg_tensor kv_caches) (\<lambda>ts. Inr (i, ts)))
        | _ \<Rightarrow> Inl TypeError)
       (\<lambda>(i, ts). register_kv_cache i (map fst ts) (case ts of [] \<Rightarrow> [] | t # _ \<Rightarrow> snd t)) (\<lambda>_. ONone)"

definition handle_unregister_kv_cache :: "'d MPCacheEngine mq_handler" where
  "handle_unregister_kv_cache clock ps =
     call_engine (case ps of [inst] \<Rightarrow> arg_int inst | _ \<Rightarrow> Inl TypeError) (\<lambda>i eng. (unregister_kv_cache i eng, Inr ())) (\<lambda>_. ONone)"

definition handle_store :: "SortedList_ops \<Rightarrow> Torch \<Rightarrow> 'd cuda \<Rightarrow> bytes \<Rightarrow> 'd MPCacheEngine mq_handler" where
  "handle_store S T cuda ipc_handle clock ps =
     call_engine (transfer_args ps) (\<lambda>(ks, i, bs). MPCacheEngine_store S T cuda (fst clock) ks i bs)
       (\<lambda>b. OTuple [OBytes ipc_handle, OBool b])"

definition handle_retrieve :: "SortedList_ops \<Rightarrow> Torch \<Rightarrow> 'd cuda \<Rightarrow> bytes \<Rightarrow> 'd MPCacheEngine mq_handler" where
  "handle_retrieve S T cuda ipc_handle clock ps =
     call_engine (transfer_args ps) (\<lambda>(ks, i, bs). MPCacheEngine_retrieve S T cuda (fst clock) (snd clock) ks i bs)
       (\<lambda>bs. OTuple [OBytes ipc_handle, OList (map OBool bs)])"

definition handle_lookup :: "SortedList_ops \<Rightarrow> 'd MPCacheEngine mq_handler" where
  "handle_lookup S clock ps =
     call_engine (case ps of [keys] \<Rightarrow> arg_list arg_key keys | _ \<Rightarrow> Inl TypeError) (MPCacheEngine_lookup S (fst clock) (snd clock)) OInt"

definition no_args :: "py_obj list \<Rightarrow> unit result" where
  "no_args ps = (if ps = [] then Inr () else Inl TypeError)"

definition handle_clear :: "SortedList_ops \<Rightarrow> 'd MPCacheEngine mq_handler" where
  "handle_clear S clock ps = call_engine (no_args ps) (\<lambda>_. MPCacheEngine_clear S) (\<lambda>_. ONone)"

definition handle_get_chunk_size :: "'d MPCacheEngine mq_handler" where
  "handle_get_chunk_size clock ps = call_engine (no_args ps) (\<lambda>_ eng. (eng, Inr (get_chunk_size eng))) (\<lambda>n. OInt (int n))"

definition handle_end_session :: "'d MPCacheEngine mq_handler" where
  "handle_end_session clock ps =
     call_engine (case ps of [OStr rid] \<Rightarrow> Inr rid | _ \<Rightarrow> Inl TypeError) (\<lambda>rid eng. (end_session rid eng, Inr ())) (\<lambda>_. ONone)"

definition handle_debug :: "'d MPCacheEngine mq_handler" where
  "handle_debug clock ps = call_engine (no_args ps) (\<lambda>_ eng. (eng, Inr (debug eng))) OStr"

text \<open>The calls of \<^verbatim>\<open>add_handler_helper\<close> in \<^verbatim>\<open>run_cache_server\<close>, with the annotations of the methods.\<close>

definition engine_handlers ::
  "SortedList_ops \<Rightarrow> Torch \<Rightarrow> 'd cuda \<Rightarrow> bytes \<Rightarrow> (RequestType \<times> 'd MPCacheEngine annotated) list"
where
  "engine_handlers S T cuda ipc_handle =
     (let transfer = [CList CKey, CInt, CList CInt, CBytes]
      in [(REGISTER_KV_CACHE, \<lparr>an_parameters = [CInt, CList CIPCWrapper], an_return = CNone, an_function = handle_register_kv_cache\<rparr>),
          (UNREGISTER_KV_CACHE, \<lparr>an_parameters = [CInt], an_return = CNone, an_function = handle_unregister_kv_cache\<rparr>),
          (STORE, \<lparr>an_parameters = transfer, an_return = CTuple [CBytes, CBool], an_function = handle_store S T cuda ipc_handle\<rparr>),
          (LOOKUP, \<lparr>an_parameters = [CList CKey], an_return = CInt, an_function = handle_lookup S\<rparr>),
          (RETRIEVE, \<lparr>an_parameters = transfer, an_return = CTuple [CBytes, CList CBool],
                      an_function = handle_retrieve S T cuda ipc_handle\<rparr>),
          (CLEAR, \<lparr>an_parameters = [], an_return = CNone, an_function = handle_clear S\<rparr>),
          (GET_CHUNK_SIZE, \<lparr>an_parameters = [], an_return = CInt, an_function = handle_get_chunk_size\<rparr>),
          (END_SESSION, \<lparr>an_parameters = [CStr], an_return = CNone, an_function = handle_end_session\<rparr>),
          (NOOP, \<lparr>an_parameters = [], an_return = CStr, an_function = handle_debug\<rparr>)])"

definition run_cache_server :: "SortedList_ops \<Rightarrow> Torch \<Rightarrow> 'd cuda \<Rightarrow> bytes \<Rightarrow> 'd MPCacheEngine handlers result" where
  "run_cache_server S T cuda ipc_handle = fold_result (\<lambda>h hs. add_handler_helper hs h) (engine_handlers S T cuda ipc_handle) []"

section \<open>Well-typed handlers\<close>

lemma call_engine_typed:
  assumes "call_engine args f wrap eng = (eng', Inr v)"
  obtains a where "v = wrap a"
  using assms by (auto simp: call_engine_def split: sum.splits prod.splits)

lemmas handler_defs =
  handle_register_kv_cache_def handle_unregister_kv_cache_def handle_store_def handle_retrieve_def handle_lookup_def handle_clear_def
  handle_get_chunk_size_def handle_end_session_def handle_debug_def

lemma handler_types:
  assumes "(rt, h) \<in> set (engine_handlers S T cuda ipc_handle)" and "an_function h clock ps eng = (eng', Inr v)"
  shows "has_class v (an_return h)"
  using assms by (auto simp: engine_handlers_def Let_def handler_defs list_all_iff elim!: call_engine_typed)

text \<open>The classes of a request type.\<close>

definition classes :: "RequestType \<Rightarrow> py_class list" where
  "classes rt = projr (get_payload_classes rt)"

definition response_class :: "RequestType \<Rightarrow> py_class" where
  "response_class rt = projr (get_response_class rt)"

lemma protocol_complete:
  "get_payload_classes rt = Inr (classes rt)" "get_response_class rt = Inr (response_class rt)"
  by (cases rt; simp add: classes_def response_class_def get_payload_classes_def get_response_class_def get_protocol_def PROTOCOL_DEFINITIONS_def)+

section \<open>Messages and what they stand for\<close>

type_synonym request = "nat \<times> nat \<times> RequestType \<times> py_obj list"

definition request_message :: "'b Msgspec \<Rightarrow> request \<Rightarrow> nat \<times> 'b list" where
  "request_message ms r = (case r of (c, uid, rt, ps) \<Rightarrow> (c, request_frames ms (classes rt) (uid, rt, ps)))"

definition request_task :: "'b Msgspec \<Rightarrow> request \<Rightarrow> 'b task" where
  "request_task ms r =
     (case r of (c, uid, rt, ps) \<Rightarrow>
        \<lparr>ta_prefix = (c, encode_request_uid ms uid, encode_request_type ms rt), ta_request_type = rt, ta_payloads = ps\<rparr>)"

definition reply_message :: "'b Msgspec \<Rightarrow> nat \<times> nat \<times> RequestType \<times> py_obj \<Rightarrow> nat \<times> 'b list" where
  "reply_message ms r =
     (case r of (c, uid, rt, v) \<Rightarrow>
        (c, encode_request_uid ms uid # encode_request_type ms rt # (if v = ONone then [] else [msgspec_encode ms v (response_class rt)])))"

definition execution_of :: "'b Msgspec \<Rightarrow> request \<times> py_obj result \<Rightarrow> 'b execution" where
  "execution_of ms x = (case x of ((c, uid, rt, ps), r) \<Rightarrow> (c, encode_request_uid ms uid, rt, ps, r))"

definition typed_request :: "request \<Rightarrow> bool" where
  "typed_request r \<longleftrightarrow> (case r of (c, uid, rt, ps) \<Rightarrow> has_classes ps (classes rt))"

lemma uid_roundtrip: "Msgspec_documented ms \<Longrightarrow> decode_request_uid ms (encode_request_uid ms uid) = Inr (int uid)"
  by (simp add: decode_request_uid_def encode_request_uid_def msgspec_roundtrip)

lemma type_roundtrip: "Msgspec_documented ms \<Longrightarrow> decode_request_type ms (encode_request_type ms rt) = Inr rt"
  by (simp add: decode_request_type_def encode_request_type_def msgspec_roundtrip)

lemma payload_roundtrip:
  assumes "Msgspec_documented ms" and "has_classes ps cs"
  shows "unwrap_request_payloads ms (map (\<lambda>(p, c). msgspec_encode ms p c) (zip ps cs)) cs = Inr ps"
proof -
  have all: "list_all2 has_class ps cs" using assms(2) by (simp add: has_classes_all2)
  then have "map_result (\<lambda>(b, c). msgspec_decode ms b c) (zip (map (\<lambda>(p, c). msgspec_encode ms p c) (zip ps cs)) cs) = Inr ps"
    unfolding map_result_iff by (auto simp: list_all2_conv_all_nth msgspec_roundtrip [OF assms(1)])
  then show ?thesis using all by (simp add: unwrap_request_payloads_def list_all2_lengthD)
qed

lemma outbound_typed:
  assumes "\<forall>r \<in> set q. typed_request (c, r)"
  shows "process_outbound_task ms q cl =
    (cl\<lparr>cl_pending_futures := fold List.insert (map fst q) (cl_pending_futures cl), cl_input_queue := []\<rparr>,
     map (\<lambda>r. snd (request_message ms (c, r))) q)"
  using assms
proof (induction q arbitrary: cl)
  case (Cons r q)
  obtain uid rt ps where r: "r = (uid, rt, ps)" by (metis prod_cases3)
  have "length (classes rt) = length ps" using Cons.prems by (auto simp: r typed_request_def has_classes_all2 list_all2_lengthD)
  then show ?case using Cons by (simp add: r protocol_complete request_message_def Let_def)
qed simp

text \<open>Receiving the reply to a pending request.\<close>

lemma receive_reply:
  assumes "Msgspec_documented ms" and "has_class v (response_class rt)" and "uid \<in> set (cl_pending_futures cl)"
  shows "client_receive ms (snd (reply_message ms (c, uid, rt, v))) cl = set_future uid v cl"
  using assms uid_roundtrip [OF assms(1)] type_roundtrip [OF assms(1)] msgspec_roundtrip [OF assms(1,2)]
  by (simp add: client_receive_def reply_message_def protocol_complete)

definition done_futures :: "client \<Rightarrow> (nat \<times> py_obj) list" where
  "done_futures cl = map (\<lambda>(u, f). (u, fu_result f)) (filter (\<lambda>(u, f). fu_is_done f) (cl_futures cl))"

lemma set_future_done:
  assumes "distinct (map fst (cl_futures cl))" and "uid \<in> set (map fst (cl_futures cl))" and "uid \<notin> set (map fst (done_futures cl))"
  shows "mset (done_futures (set_future uid v cl)) = add_mset (uid, v) (mset (done_futures cl))"
proof -
  let ?upd = "\<lambda>(u, f). (u, if u = uid then set_result v f else f)"
  obtain f where f: "(uid, f) \<in> set (cl_futures cl)" using assms(2) by auto
  then obtain xs ys where fs: "cl_futures cl = xs @ (uid, f) # ys" by (metis split_list)
  have upd: "map ?upd zs = zs" if "uid \<notin> fst ` set zs" for zs using that by (induction zs) auto
  have n: "uid \<notin> fst ` set xs" "uid \<notin> fst ` set ys" using assms(1) by (auto simp: fs)
  have fs': "cl_futures (set_future uid v cl) = xs @ (uid, set_result v f) # ys" by (simp add: set_future_def fs upd n)
  have "\<not> fu_is_done f" using assms(3) by (auto simp: done_futures_def fs)
  then show ?thesis unfolding done_futures_def fs fs' by (simp add: set_result_def)
qed

section \<open>The invariant\<close>

text \<open>What the lists of the system hold for one client.\<close>

definition of_client :: "nat \<Rightarrow> (nat \<times> 'a) list \<Rightarrow> 'a list" where
  "of_client c xs = map snd (filter (\<lambda>x. fst x = c) xs)"

definition answers :: "nat \<Rightarrow> (request \<times> py_obj result) list \<Rightarrow> (nat \<times> py_obj) list" where
  "answers c X = List.map_filter (\<lambda>((c', uid, rt, ps), r). case r of Inl e \<Rightarrow> None | Inr v \<Rightarrow> if c' = c then Some (uid, v) else None) X"

lemma of_client_simps [simp]:
  "of_client c [] = []" "of_client c (xs @ ys) = of_client c xs @ of_client c ys"
  "of_client c ((c', x) # xs) = (if c' = c then x # of_client c xs else of_client c xs)"
  by (simp_all add: of_client_def)

lemma of_client_map_Pair [simp]: "of_client c (map (Pair c') xs) = (if c' = c then xs else [])"
  by (induction xs) auto

lemma answers_simps [simp]:
  "answers c [] = []" "answers c (X @ Y) = answers c X @ answers c Y"
  "answers c [((c', uid, rt, ps), Inl e)] = []" "answers c [((c', uid, rt, ps), Inr v)] = (if c' = c then [(uid, v)] else [])"
  by (simp_all add: answers_def List.map_filter_def)

text \<open>The reply to an executed request: none when the handler raised.\<close>

definition reply_of :: "request \<times> py_obj result \<Rightarrow> (nat \<times> nat \<times> RequestType \<times> py_obj) list" where
  "reply_of x = (case x of ((c, uid, rt, ps), r) \<Rightarrow> (case r of Inl e \<Rightarrow> [] | Inr v \<Rightarrow> [(c, uid, rt, v)]))"

text \<open>
  Messages, tasks and executions stand for requests and replies. For every client, each submitted
  request is in exactly one place: the input queue, on the way to the server, waiting for a
  worker, or executed; each answer is queued, on the way to the client or in its future; and each
  future is waiting to be sent, pending or done.
\<close>

definition requests_ok ::
  "('e, 'b) mq \<Rightarrow> request list \<Rightarrow> request list \<Rightarrow> request list \<Rightarrow> (request \<times> py_obj result) list \<Rightarrow> nat \<Rightarrow> bool"
where
  "requests_ok st subs W K X c \<longleftrightarrow>
     mset (cl_input_queue (mq_clients st c)) + mset (of_client c W) + mset (of_client c K) + mset (of_client c (map fst X)) =
       mset (of_client c subs) \<and>
     map fst (of_client c subs) = [0..<cl_request_counter (mq_clients st c)] \<and>
     map fst (cl_futures (mq_clients st c)) = [0..<cl_request_counter (mq_clients st c)]"

definition replies_ok ::
  "('e, 'b) mq \<Rightarrow> (request \<times> py_obj result) list \<Rightarrow> (nat \<times> nat \<times> RequestType \<times> py_obj) list \<Rightarrow>
   (nat \<times> RequestType \<times> py_obj) list \<Rightarrow> nat \<Rightarrow> bool"
where
  "replies_ok st X R A c \<longleftrightarrow>
     mset (answers c X) = mset (map (\<lambda>(uid, rt, v). (uid, v)) (of_client c R)) + mset (map (\<lambda>(uid, rt, v). (uid, v)) A) +
       mset (done_futures (mq_clients st c)) \<and>
     mset (map fst (cl_input_queue (mq_clients st c))) + mset (cl_pending_futures (mq_clients st c)) +
       mset (map fst (done_futures (mq_clients st c))) = mset [0..<cl_request_counter (mq_clients st c)]"

definition mq_inv ::
  "'b Msgspec \<Rightarrow> ('e, 'b) mq \<Rightarrow> request list \<Rightarrow> 'b execution list \<Rightarrow> request list \<Rightarrow> request list \<Rightarrow>
   (request \<times> py_obj result) list \<Rightarrow> (nat \<times> nat \<times> RequestType \<times> py_obj) list \<Rightarrow> (nat \<Rightarrow> (nat \<times> RequestType \<times> py_obj) list) \<Rightarrow> bool"
where
  "mq_inv ms st subs execs W K X R A \<longleftrightarrow>
     mq_to_server st = map (request_message ms) W \<and> mq_tasks st = map (request_task ms) K \<and> execs = map (execution_of ms) X \<and>
     mq_output_queue st = map (reply_message ms) R \<and> (\<forall>c. mq_to_client st c = map (\<lambda>a. snd (reply_message ms (c, a))) (A c)) \<and>
     mq_server_alive st \<and> (\<forall>c. cl_alive (mq_clients st c)) \<and> (\<forall>r \<in> set subs. typed_request r) \<and>
     (\<forall>(c, uid, rt, v) \<in> set R. has_class v (response_class rt)) \<and> (\<forall>c. \<forall>(uid, rt, v) \<in> set (A c). has_class v (response_class rt)) \<and>
     (\<forall>x \<in> set X. \<forall>(c, uid, rt, v) \<in> set (reply_of x). has_class v (response_class rt)) \<and>
     (\<forall>c. requests_ok st subs W K X c) \<and> (\<forall>c. replies_ok st X R (A c) c)"

lemma mq_invD:
  assumes "mq_inv ms st subs execs W K X R A"
  shows "mq_to_server st = map (request_message ms) W" "mq_tasks st = map (request_task ms) K" "execs = map (execution_of ms) X"
    "mq_output_queue st = map (reply_message ms) R" "mq_to_client st c = map (\<lambda>a. snd (reply_message ms (c, a))) (A c)"
    "mq_server_alive st" "cl_alive (mq_clients st c)" "r \<in> set subs \<Longrightarrow> typed_request r"
    "(c, uid, rt, v) \<in> set R \<Longrightarrow> has_class v (response_class rt)" "(uid, rt, v) \<in> set (A c) \<Longrightarrow> has_class v (response_class rt)"
    "requests_ok st subs W K X c" "replies_ok st X R (A c) c"
    "x \<in> set X \<Longrightarrow> (c, uid, rt, v) \<in> set (reply_of x) \<Longrightarrow> has_class v (response_class rt)"
  using assms unfolding mq_inv_def by (simp_all, fastforce+)

text \<open>Requests in any of the places were submitted.\<close>

lemma of_client_iff: "x \<in> set (of_client c xs) \<longleftrightarrow> (c, x) \<in> set xs"
  by (force simp: of_client_def)

lemma inv_typed:
  assumes "mq_inv ms st subs execs W K X R A"
  shows "q \<in> set (cl_input_queue (mq_clients st c)) \<Longrightarrow> typed_request (c, q)" and "r \<in> set W \<Longrightarrow> typed_request r" and "r \<in> set K \<Longrightarrow> typed_request r"
proof -
  have places: "set (cl_input_queue (mq_clients st c)) \<union> set (of_client c W) \<union> set (of_client c K) \<subseteq> set (of_client c subs)" for c
  proof -
    have "mset (cl_input_queue (mq_clients st c)) + mset (of_client c W) + mset (of_client c K) + mset (of_client c (map fst X)) = mset (of_client c subs)"
      using mq_invD(11) [OF assms, of c] by (simp add: requests_ok_def)
    from arg_cong [OF this, of set_mset] show ?thesis by (simp only: set_mset_union set_mset_mset) blast
  qed
  have sub: "typed_request (c, r)" if "r \<in> set (of_client c subs)" for c r using that mq_invD(8) [OF assms] by (simp add: of_client_iff)
  show "q \<in> set (cl_input_queue (mq_clients st c)) \<Longrightarrow> typed_request (c, q)" using places [of c] sub by blast
  show "r \<in> set W \<Longrightarrow> typed_request r"
    using places [of "fst r"] sub [of "snd r" "fst r"] of_client_iff [of "snd r" "fst r" W] by (simp only: prod.collapse) blast
  show "r \<in> set K \<Longrightarrow> typed_request r"
    using places [of "fst r"] sub [of "snd r" "fst r"] of_client_iff [of "snd r" "fst r" K] by (simp only: prod.collapse) blast
qed

lemma ok_cong:
  assumes "mq_clients st' c = mq_clients st c"
  shows "requests_ok st' subs W K X c = requests_ok st subs W K X c" and "replies_ok st' X R A c = replies_ok st X R A c"
  using assms by (simp_all add: requests_ok_def replies_ok_def)

lemma inv_start:
  "mq_inv ms \<lparr>mq_engine = e0, mq_clients = (\<lambda>_. MessageQueueClient_init), mq_to_server = [], mq_tasks = [], mq_output_queue = [],
     mq_to_client = (\<lambda>_. []), mq_server_alive = True\<rparr> [] [] [] [] [] [] (\<lambda>_. [])"
  by (simp add: mq_inv_def requests_ok_def replies_ok_def MessageQueueClient_init_def done_futures_def)

lemma inv_submit:
  assumes inv: "mq_inv ms st subs execs W K X R A" and cs: "get_payload_classes rt = Inr cs" "has_classes ps cs"
    and sub: "submit_request rt ps (mq_clients st c) = (cl, uid)"
  shows "mq_inv ms (st\<lparr>mq_clients := (mq_clients st)(c := cl)\<rparr>) (subs @ [(c, uid, rt, ps)]) execs W K X R A"
proof -
  define st' where "st' = st\<lparr>mq_clients := (mq_clients st)(c := cl)\<rparr>"
  have uid: "uid = cl_request_counter (mq_clients st c)" using sub by (auto simp: submit_request_def Let_def)
  have cl: "cl_request_counter cl = Suc uid" "cl_input_queue cl = cl_input_queue (mq_clients st c) @ [(uid, rt, ps)]"
    "cl_pending_futures cl = cl_pending_futures (mq_clients st c)" "cl_alive cl = cl_alive (mq_clients st c)"
    "cl_futures cl = cl_futures (mq_clients st c) @ [(uid, MessagingFuture_init)]"
    using sub by (auto simp: submit_request_def Let_def)
  then have dn: "done_futures cl = done_futures (mq_clients st c)" by (simp add: done_futures_def MessagingFuture_init_def)
  have c: "mq_clients st' c = cl" and o: "c' \<noteq> c \<Longrightarrow> mq_clients st' c' = mq_clients st c'" for c' by (simp_all add: st'_def)
  have "requests_ok st' (subs @ [(c, uid, rt, ps)]) W K X c'" for c'
  proof (cases "c' = c")
    case True
    then show ?thesis using mq_invD(11) [OF inv, of c] cl c uid by (simp add: requests_ok_def)
  next
    case False
    then show ?thesis using mq_invD(11) [OF inv, of c'] o by (simp add: requests_ok_def)
  qed
  moreover have "replies_ok st' X R (A c') c'" for c'
  proof (cases "c' = c")
    case True
    then show ?thesis using mq_invD(12) [OF inv, of c] cl c dn uid by (simp add: replies_ok_def)
  next
    case False
    then show ?thesis using mq_invD(12) [OF inv, of c'] o ok_cong(2) by blast
  qed
  moreover have "typed_request (c, uid, rt, ps)" using cs by (simp add: typed_request_def classes_def)
  moreover have "cl_alive (mq_clients st' c')" for c' using mq_invD(7) [OF inv] c o cl(4) by (cases "c' = c") simp_all
  moreover have "mq_to_server st' = mq_to_server st" "mq_tasks st' = mq_tasks st" "mq_output_queue st' = mq_output_queue st"
    "mq_to_client st' = mq_to_client st" "mq_server_alive st' = mq_server_alive st" by (simp_all add: st'_def)
  ultimately show ?thesis unfolding st'_def [symmetric] using inv by (simp add: mq_inv_def)
qed

lemma fold_insert_mset:
  "distinct us \<Longrightarrow> set us \<inter> set ps = {} \<Longrightarrow> mset (fold List.insert us ps) = mset us + mset ps"
  by (induction us arbitrary: ps) (auto simp: List.insert_def)

lemma uids_distinct:
  assumes "replies_ok st X R A c"
  shows "distinct (map fst (cl_input_queue (mq_clients st c)) @ cl_pending_futures (mq_clients st c) @ map fst (done_futures (mq_clients st c)))"
proof -
  have "mset (map fst (cl_input_queue (mq_clients st c)) @ cl_pending_futures (mq_clients st c) @ map fst (done_futures (mq_clients st c))) =
      mset [0..<cl_request_counter (mq_clients st c)]"
    using assms by (simp add: replies_ok_def add.assoc)
  from mset_eq_imp_distinct_iff [OF this] show ?thesis by simp
qed

lemma inv_outbound:
  assumes inv: "mq_inv ms st subs execs W K X R A"
    and out: "process_outbound_task ms (cl_input_queue (mq_clients st c)) (mq_clients st c) = (cl, msgs)"
  shows "mq_inv ms (st\<lparr>mq_clients := (mq_clients st)(c := cl), mq_to_server := mq_to_server st @ map (Pair c) msgs\<rparr>) subs execs
    (W @ map (Pair c) (cl_input_queue (mq_clients st c))) K X R A"
proof -
  let ?cl = "mq_clients st c"
  define st' where "st' = st\<lparr>mq_clients := (mq_clients st)(c := cl), mq_to_server := mq_to_server st @ map (Pair c) msgs\<rparr>"
  have "\<forall>r \<in> set (cl_input_queue ?cl). typed_request (c, r)" using inv_typed(1) [OF inv] by blast
  from outbound_typed [OF this, of ms ?cl] out
  have cl: "cl = ?cl\<lparr>cl_pending_futures := fold List.insert (map fst (cl_input_queue ?cl)) (cl_pending_futures ?cl), cl_input_queue := []\<rparr>"
    and msgs: "msgs = map (\<lambda>r. snd (request_message ms (c, r))) (cl_input_queue ?cl)" by simp_all
  have f: "cl_input_queue cl = []" "cl_request_counter cl = cl_request_counter ?cl" "cl_futures cl = cl_futures ?cl" "cl_alive cl = cl_alive ?cl"
    "done_futures cl = done_futures ?cl" by (simp_all add: cl done_futures_def)
  have pend: "mset (cl_pending_futures cl) = mset (map fst (cl_input_queue ?cl)) + mset (cl_pending_futures ?cl)"
    unfolding cl using fold_insert_mset [of "map fst (cl_input_queue ?cl)" "cl_pending_futures ?cl"] uids_distinct [OF mq_invD(12) [OF inv], of c]
    by simp blast
  have c: "mq_clients st' c = cl" and o: "c' \<noteq> c \<Longrightarrow> mq_clients st' c' = mq_clients st c'" for c' by (simp_all add: st'_def)
  have "requests_ok st' subs (W @ map (Pair c) (cl_input_queue ?cl)) K X c'" for c'
  proof (cases "c' = c")
    case True
    then show ?thesis using mq_invD(11) [OF inv, of c] c f by (simp add: requests_ok_def ac_simps)
  next
    case False
    then show ?thesis using mq_invD(11) [OF inv, of c'] o by (simp add: requests_ok_def)
  qed
  moreover have "replies_ok st' X R (A c') c'" for c'
  proof (cases "c' = c")
    case True
    then show ?thesis using mq_invD(12) [OF inv, of c] c f pend by (simp add: replies_ok_def ac_simps)
  next
    case False
    then show ?thesis using mq_invD(12) [OF inv, of c'] o ok_cong(2) by blast
  qed
  moreover have "cl_alive (mq_clients st' c')" for c' using mq_invD(7) [OF inv] c o f(4) by (cases "c' = c") simp_all
  moreover have "mq_to_server st' = map (request_message ms) (W @ map (Pair c) (cl_input_queue ?cl))"
    using mq_invD(1) [OF inv] by (simp add: st'_def msgs request_message_def case_prod_unfold)
  moreover have "mq_tasks st' = mq_tasks st" "mq_output_queue st' = mq_output_queue st"
    "mq_to_client st' = mq_to_client st" "mq_server_alive st' = mq_server_alive st" by (simp_all add: st'_def)
  ultimately show ?thesis unfolding st'_def [symmetric] using inv by (simp add: mq_inv_def)
qed

lemma answers_submultiset: "mset (map fst (answers c X)) \<subseteq># mset (map fst (of_client c (map fst X)))"
proof (induction X)
  case (Cons x X)
  obtain c' uid rt ps r where x: "x = ((c', uid, rt, ps), r)" by (metis prod.collapse)
  have "answers c (x # X) = answers c [x] @ answers c X" using answers_simps(2) [of c "[x]" X] by simp
  then show ?case using Cons by (cases r) (auto simp: x intro: subset_mset.order_trans)
qed simp

lemma distinct_part: "mset (xs @ ys) = mset zs \<Longrightarrow> distinct zs \<Longrightarrow> distinct xs"
  using mset_eq_imp_distinct_iff [of "xs @ ys" zs] unfolding distinct_append by blast

text \<open>A reply on its way belongs to a pending future.\<close>

lemma reply_pending:
  assumes inv: "mq_inv ms st subs execs W K X R A" and a: "(uid, rt, v) \<in> set (A c)"
  shows "uid \<in> set (cl_pending_futures (mq_clients st c))" and "uid \<notin> set (map fst (done_futures (mq_clients st c)))"
proof -
  let ?cl = "mq_clients st c" and ?p = "\<lambda>(uid, rt, v). (uid, v)"
  note rq = mq_invD(11) [OF inv, of c, unfolded requests_ok_def] and rp = mq_invD(12) [OF inv, of c, unfolded replies_ok_def]
  have ans: "mset (map fst (answers c X)) = mset (map fst (map ?p (of_client c R))) + mset (map fst (map ?p (A c))) + mset (map fst (done_futures ?cl))"
    unfolding mset_map [of fst] arg_cong [OF conjunct1 [OF rp], of "image_mset fst"] image_mset_union ..
  have sub: "mset (map fst (cl_input_queue ?cl)) + mset (map fst (of_client c W)) + mset (map fst (of_client c K)) + mset (map fst (of_client c (map fst X))) =
      mset (map fst (of_client c subs))"
    using arg_cong [OF conjunct1 [OF rq], of "image_mset fst"] by (simp add: image_mset_union)
  have ds: "distinct (map fst (of_client c subs))" using rq by simp
  obtain d where d: "mset (map fst (of_client c (map fst X))) = mset (map fst (answers c X)) + d"
    using answers_submultiset [of c X] unfolding subset_mset.le_iff_add by blast
  obtain ys where "mset ys = mset (map fst (of_client c W)) + mset (map fst (of_client c K)) + d" using ex_mset by blast
  then have "mset ((map fst (answers c X) @ map fst (cl_input_queue ?cl)) @ ys) = mset (map fst (of_client c subs))"
    unfolding sub [symmetric] d mset_append by (simp only: ac_simps)
  from distinct_part [OF this ds] have da: "distinct (map fst (answers c X) @ map fst (cl_input_queue ?cl))" .
  have "mset ((map fst (map ?p (of_client c R)) @ map fst (map ?p (A c)) @ map fst (done_futures ?cl)) @ []) = mset (map fst (answers c X))"
    unfolding ans by (simp only: mset_append append_Nil2 add.assoc)
  from distinct_part [OF this] da
  have "distinct (map fst (map ?p (of_client c R)) @ map fst (map ?p (A c)) @ map fst (done_futures ?cl))" by (simp only: distinct_append)
  moreover have ua: "uid \<in> set (map fst (map ?p (A c)))" using a by force
  ultimately show nd: "uid \<notin> set (map fst (done_futures ?cl))" unfolding distinct_append set_append by blast
  have ux: "uid \<in># mset (map fst (answers c X))" unfolding ans using ua by (simp only: union_iff set_mset_mset simp_thms)
  then have nq: "uid \<notin> set (map fst (cl_input_queue ?cl))" using da unfolding distinct_append set_mset_mset by blast
  from ux have "uid \<in># mset (map fst (of_client c (map fst X)))" by (rule mset_subset_eqD [OF answers_submultiset])
  then have "uid \<in># mset (map fst (of_client c subs))" unfolding sub [symmetric] by (simp only: union_iff simp_thms)
  then have "uid \<in># mset [0..<cl_request_counter ?cl]" unfolding conjunct1 [OF conjunct2 [OF rq], symmetric] .
  then have "uid \<in># mset (map fst (cl_input_queue ?cl)) + mset (cl_pending_futures ?cl) + mset (map fst (done_futures ?cl))"
    unfolding conjunct2 [OF rp] .
  then have "uid \<in> set (map fst (cl_input_queue ?cl)) \<union> set (cl_pending_futures ?cl) \<union> set (map fst (done_futures ?cl))"
    unfolding set_mset_union set_mset_mset .
  then show "uid \<in> set (cl_pending_futures ?cl)" using nd nq by blast
qed

lemma inv_inbound:
  assumes ms: "Msgspec_documented ms" and inv: "mq_inv ms st subs execs W K X R A" and msg: "mq_to_client st c = msg # rest"
  shows "\<exists>A'. mq_inv ms (on_client c (client_receive ms msg) (st\<lparr>mq_to_client := (mq_to_client st)(c := rest)\<rparr>)) subs execs W K X R A'"
proof -
  let ?cl = "mq_clients st c"
  obtain a A1 where A: "A c = a # A1" and m: "msg = snd (reply_message ms (c, a))" "rest = map (\<lambda>a. snd (reply_message ms (c, a))) A1"
    using mq_invD(5) [OF inv, of c] msg by auto
  obtain uid rt v where a: "a = (uid, rt, v)" by (metis prod_cases3)
  have mem: "(uid, rt, v) \<in> set (A c)" by (simp add: A a)
  note pend = reply_pending [OF inv mem]
  have cl: "client_receive ms msg ?cl = set_future uid v ?cl"
    unfolding m a by (rule receive_reply [OF ms mq_invD(10) [OF inv mem] pend(1)])
  define st' where "st' = on_client c (client_receive ms msg) (st\<lparr>mq_to_client := (mq_to_client st)(c := rest)\<rparr>)"
  have c: "mq_clients st' c = set_future uid v ?cl" and o: "c' \<noteq> c \<Longrightarrow> mq_clients st' c' = mq_clients st c'" for c'
    using cl by (simp_all add: st'_def on_client_def)
  have f: "cl_input_queue (set_future uid v ?cl) = cl_input_queue ?cl" "cl_request_counter (set_future uid v ?cl) = cl_request_counter ?cl"
    "cl_alive (set_future uid v ?cl) = cl_alive ?cl" "map fst (cl_futures (set_future uid v ?cl)) = map fst (cl_futures ?cl)"
    "cl_pending_futures (set_future uid v ?cl) = removeAll uid (cl_pending_futures ?cl)"
    by (simp_all add: set_future_def case_prod_unfold)
  note rq = mq_invD(11) [OF inv, of c, unfolded requests_ok_def] and rp = mq_invD(12) [OF inv, of c, unfolded replies_ok_def]
  have fut: "uid \<in> set (map fst (cl_futures ?cl))" "distinct (map fst (cl_futures ?cl))"
  proof -
    have "set_mset (mset (cl_pending_futures ?cl)) \<subseteq> set_mset (mset [0..<cl_request_counter ?cl])" unfolding conjunct2 [OF rp, symmetric] by auto
    then show "uid \<in> set (map fst (cl_futures ?cl))" using pend(1) rq by auto
    show "distinct (map fst (cl_futures ?cl))" using rq by simp
  qed
  have dn: "mset (done_futures (set_future uid v ?cl)) = add_mset (uid, v) (mset (done_futures ?cl))" by (rule set_future_done [OF fut(2,1) pend(2)])
  have "distinct (cl_pending_futures ?cl)" using uids_distinct [OF mq_invD(12) [OF inv], of c] by simp
  then have pm: "mset (cl_pending_futures ?cl) = add_mset uid (mset (removeAll uid (cl_pending_futures ?cl)))"
    using pend(1) by (metis distinct_remove1_removeAll mset_remove1 insert_DiffM in_multiset_in_set)
  have "requests_ok st' subs W K X c'" for c'
    using mq_invD(11) [OF inv, of c'] rq c o f by (cases "c' = c") (auto simp: requests_ok_def)
  moreover have "replies_ok st' X R ((A(c := A1)) c') c'" for c'
  proof (cases "c' = c")
    case True
    then show ?thesis using rp c f dn pm by (simp add: replies_ok_def A a)
  next
    case False
    then show ?thesis using mq_invD(12) [OF inv, of c'] o ok_cong(2) by simp blast
  qed
  moreover have "cl_alive (mq_clients st' c')" for c' using mq_invD(7) [OF inv] c o f(3) by (cases "c' = c") simp_all
  moreover have "mq_to_client st' c' = map (\<lambda>a. snd (reply_message ms (c', a))) ((A(c := A1)) c')" for c'
    using mq_invD(5) [OF inv] m(2) by (simp add: st'_def on_client_def)
  moreover have "\<forall>(uid, rt, v) \<in> set ((A(c := A1)) c'). has_class v (response_class rt)" for c'
  proof -
    have "set ((A(c := A1)) c') \<subseteq> set (A c')" by (auto simp: A)
    then show ?thesis using mq_invD(10) [OF inv] by blast
  qed
  moreover have "mq_tasks st' = mq_tasks st" "mq_output_queue st' = mq_output_queue st"
    "mq_to_server st' = mq_to_server st" "mq_server_alive st' = mq_server_alive st" by (simp_all add: st'_def on_client_def)
  ultimately have "mq_inv ms st' subs execs W K X R (A(c := A1))" using inv unfolding mq_inv_def by (intro conjI allI; simp)
  then show ?thesis unfolding st'_def [symmetric] by blast
qed

lemma fold_send: "fold send_to_client msgs st = st\<lparr>mq_to_client := (\<lambda>c. mq_to_client st c @ of_client c msgs)\<rparr>"
proof (induction msgs arbitrary: st)
  case (Cons m msgs)
  obtain c f where m: "m = (c, f)" by (cases m)
  have "mq_to_client (send_to_client m st) = (\<lambda>c'. mq_to_client st c' @ of_client c' [m])" by (auto simp: send_to_client_def m)
  moreover have "(send_to_client m st)\<lparr>mq_to_client := g\<rparr> = st\<lparr>mq_to_client := g\<rparr>" for g by (simp add: send_to_client_def m)
  ultimately show ?case using Cons.IH by (simp add: m if_distrib [of "\<lambda>x. x @ _"] cong: if_cong)
qed simp

lemma of_client_replies: "of_client c (map (reply_message ms) R) = map (\<lambda>a. snd (reply_message ms (c, a))) (of_client c R)"
proof (induction R)
  case (Cons r R)
  obtain c' a where "r = (c', a)" by (cases r)
  moreover obtain uid rt v where "a = (uid, rt, v)" by (metis prod_cases3)
  ultimately show ?case using Cons by (simp add: reply_message_def)
qed simp

lemma inv_respond:
  assumes inv: "mq_inv ms st subs execs W K X R A"
  shows "mq_inv ms (send_responses st) subs execs W K X [] (\<lambda>c. A c @ of_client c R)"
proof -
  define st' where "st' = send_responses st"
  have st': "st' = st\<lparr>mq_output_queue := [], mq_to_client := (\<lambda>c. mq_to_client st c @ of_client c (mq_output_queue st))\<rparr>"
    by (simp add: st'_def send_responses_def fold_send)
  have c: "mq_clients st' = mq_clients st" by (simp add: st')
  have "requests_ok st' subs W K X c" for c using mq_invD(11) [OF inv] ok_cong(1) c by metis
  moreover have "replies_ok st' X [] (A c @ of_client c R) c" for c
    using mq_invD(12) [OF inv, of c] by (simp add: replies_ok_def c ac_simps)
  moreover have "\<forall>(uid, rt, v) \<in> set (A c @ of_client c R). has_class v (response_class rt)" for c
    using mq_invD(9,10) [OF inv] by (auto simp: of_client_iff)
  moreover have "mq_to_client st' c = map (\<lambda>a. snd (reply_message ms (c, a))) (A c @ of_client c R)" for c
    using mq_invD(4) [OF inv] mq_invD(5) [OF inv, of c] by (simp add: st' of_client_replies)
  moreover have "mq_tasks st' = mq_tasks st" "mq_output_queue st' = []" "mq_to_server st' = mq_to_server st"
    "mq_server_alive st' = mq_server_alive st" by (simp_all add: st')
  ultimately show ?thesis unfolding st'_def [symmetric] using inv by (simp add: mq_inv_def c)
qed

lemma answers_reply: "answers c [x] = map (\<lambda>(uid, rt, v). (uid, v)) (of_client c (reply_of x))"
proof -
  obtain c' uid rt ps r where "x = ((c', uid, rt, ps), r)" by (metis prod.collapse)
  then show ?thesis by (cases r) (simp_all add: reply_of_def)
qed

lemma requests_moved:
  assumes "requests_ok st subs W K X c" and "mq_clients st' = mq_clients st"
    and "mset (of_client c W') + mset (of_client c K') + mset (of_client c (map fst X')) =
      mset (of_client c W) + mset (of_client c K) + mset (of_client c (map fst X))"
  shows "requests_ok st' subs W' K' X' c"
  using assms by (simp add: requests_ok_def add.assoc)

lemma inv_enqueued:
  assumes inv: "mq_inv ms st subs execs (w # W) K X R A"
  shows "mq_inv ms (st\<lparr>mq_to_server := map (request_message ms) W, mq_tasks := mq_tasks st @ [request_task ms w]\<rparr>) subs execs W (K @ [w]) X R A"
proof -
  let ?st = "st\<lparr>mq_to_server := map (request_message ms) W, mq_tasks := mq_tasks st @ [request_task ms w]\<rparr>"
  obtain c1 q where w: "w = (c1, q)" by (cases w)
  have "requests_ok ?st subs W (K @ [w]) X c" for c by (rule requests_moved [OF mq_invD(11) [OF inv]]) (simp_all add: w)
  moreover have "replies_ok ?st X R (A c) c" for c using mq_invD(12) [OF inv, of c] by (simp add: replies_ok_def)
  ultimately show ?thesis using inv unfolding mq_inv_def by (intro conjI allI; simp)
qed

lemma inv_executed_sync:
  assumes inv: "mq_inv ms st subs execs (w # W) K X R A" and rc: "\<forall>(c, uid, rt, v) \<in> set (reply_of (w, r)). has_class v (response_class rt)"
  shows "mq_inv ms (fold send_to_client (map (reply_message ms) (reply_of (w, r))) (st\<lparr>mq_to_server := map (request_message ms) W, mq_engine := eng\<rparr>))
      subs (execs @ [execution_of ms (w, r)]) W K (X @ [(w, r)]) R (\<lambda>c. A c @ of_client c (reply_of (w, r)))"
proof -
  define st' where "st' = fold send_to_client (map (reply_message ms) (reply_of (w, r))) (st\<lparr>mq_to_server := map (request_message ms) W, mq_engine := eng\<rparr>)"
  obtain c1 q where w: "w = (c1, q)" by (cases w)
  have c: "mq_clients st' = mq_clients st" by (simp add: st'_def fold_send)
  have "requests_ok st' subs W K (X @ [(w, r)]) c" for c
    by (rule requests_moved [OF mq_invD(11) [OF inv] c]) (simp add: w)
  moreover have "replies_ok st' (X @ [(w, r)]) R (A c @ of_client c (reply_of (w, r))) c" for c
    using mq_invD(12) [OF inv, of c] by (simp add: replies_ok_def c answers_reply ac_simps)
  moreover have "\<forall>(uid, rt, v) \<in> set (A c @ of_client c (reply_of (w, r))). has_class v (response_class rt)" for c
    using mq_invD(10) [OF inv] rc by (auto simp: of_client_iff)
  moreover have "mq_to_client st' c = map (\<lambda>a. snd (reply_message ms (c, a))) (A c @ of_client c (reply_of (w, r)))" for c
    using mq_invD(5) [OF inv, of c] by (simp add: st'_def fold_send of_client_replies)
  moreover have "mq_tasks st' = mq_tasks st" "mq_output_queue st' = mq_output_queue st"
    "mq_to_server st' = map (request_message ms) W" "mq_server_alive st' = mq_server_alive st" by (simp_all add: st'_def fold_send)
  ultimately show ?thesis unfolding st'_def [symmetric] using inv rc by (simp add: mq_inv_def c)
qed

lemma inv_executed_task:
  assumes inv: "mq_inv ms st subs execs W (K1 @ k # K2) X R A" and rc: "\<forall>(c, uid, rt, v) \<in> set (reply_of (k, r)). has_class v (response_class rt)"
  shows "mq_inv ms (st\<lparr>mq_tasks := map (request_task ms) (K1 @ K2), mq_engine := eng,
        mq_output_queue := mq_output_queue st @ map (reply_message ms) (reply_of (k, r))\<rparr>)
      subs (execs @ [execution_of ms (k, r)]) W (K1 @ K2) (X @ [(k, r)]) (R @ reply_of (k, r)) A"
proof -
  define st' where "st' = st\<lparr>mq_tasks := map (request_task ms) (K1 @ K2), mq_engine := eng,
        mq_output_queue := mq_output_queue st @ map (reply_message ms) (reply_of (k, r))\<rparr>"
  obtain c1 q where k: "k = (c1, q)" by (cases k)
  have c: "mq_clients st' = mq_clients st" by (simp add: st'_def)
  have "requests_ok st' subs W (K1 @ K2) (X @ [(k, r)]) c" for c
    by (rule requests_moved [OF mq_invD(11) [OF inv] c]) (simp add: k)
  moreover have "replies_ok st' (X @ [(k, r)]) (R @ reply_of (k, r)) (A c) c" for c
    using mq_invD(12) [OF inv, of c] by (simp add: replies_ok_def c answers_reply ac_simps)
  moreover have "\<forall>(c, uid, rt, v) \<in> set (R @ reply_of (k, r)). has_class v (response_class rt)"
    using mq_invD(9) [OF inv] rc by auto
  moreover have "mq_tasks st' = map (request_task ms) (K1 @ K2)" "mq_to_client st' = mq_to_client st"
    "mq_output_queue st' = map (reply_message ms) (R @ reply_of (k, r))"
    "mq_to_server st' = mq_to_server st" "mq_server_alive st' = mq_server_alive st" using mq_invD(4) [OF inv] by (simp_all add: st'_def)
  ultimately show ?thesis unfolding st'_def [symmetric] using inv rc by (simp add: mq_inv_def c)
qed

text \<open>Lists over all clients, and their parts.\<close>

lemma of_client_count: "count (mset (of_client c xs)) x = count (mset xs) (c, x)"
proof (induction xs)
  case (Cons y ys)
  then show ?case by (cases y) simp
qed simp

lemma of_client_submultiset: "(\<And>c. mset (of_client c xs) \<subseteq># mset (of_client c ys)) \<Longrightarrow> mset xs \<subseteq># mset ys"
  unfolding subseteq_mset_def of_client_count by (metis prod.collapse)

lemma of_client_multiset: "(\<And>c. mset (of_client c xs) = mset (of_client c ys)) \<Longrightarrow> mset xs = mset ys"
  by (intro subset_mset.antisym of_client_submultiset) simp_all

lemma distinct_requests:
  assumes "\<And>c. map fst (of_client c xs) = [0..<n c]"
  shows "distinct (map (\<lambda>(c, uid, rt, ps). (c, uid)) xs)"
proof -
  have "distinct (map fst (of_client c xs))" for c using assms by simp
  then show ?thesis
  proof (induction xs)
    case (Cons x xs)
    obtain c uid rt ps where x: "x = (c, uid, rt, ps)" by (metis prod_cases4)
    have "distinct (map fst (of_client c' xs))" for c' using Cons.prems [of c'] by (auto simp: x split: if_splits)
    moreover have "uid \<notin> fst ` set (of_client c xs)" using Cons.prems [of c] by (simp add: x)
    ultimately show ?case using Cons.IH by (force simp: x of_client_iff)
  qed simp
qed

lemma answers_iff: "(uid, v) \<in> set (answers c X) \<longleftrightarrow> (\<exists>rt ps. ((c, uid, rt, ps), Inr v) \<in> set X)"
  by (force simp: answers_def List.map_filter_def split: sum.splits if_splits)

lemma raised_unanswered:
  assumes "distinct (map (\<lambda>(c, uid, rt, ps). (c, uid)) (map fst X))" and x: "((c, uid, rt, ps), Inl e) \<in> set X"
  shows "uid \<notin> set (map fst (answers c X))"
proof
  assume "uid \<in> set (map fst (answers c X))"
  then obtain v where "(uid, v) \<in> set (answers c X)" by auto
  then obtain rt' ps' where y: "((c, uid, rt', ps'), Inr v) \<in> set X" unfolding answers_iff by blast
  have "inj_on ((\<lambda>(c, uid, rt, ps). (c, uid)) \<circ> fst) (set X)" using assms(1) by (simp add: distinct_map)
  from inj_onD [OF this _ x y] show False by simp
qed

definition quiescent :: "('e, 'b) mq \<Rightarrow> bool" where
  "quiescent st \<longleftrightarrow> mq_to_server st = [] \<and> mq_tasks st = [] \<and> mq_output_queue st = [] \<and>
     (\<forall>c. mq_to_client st c = [] \<and> cl_input_queue (mq_clients st c) = [])"

text \<open>What the steps leave alone.\<close>

lemma send_to_client_frame [simp]:
  "mq_to_server (send_to_client m st) = mq_to_server st" "mq_clients (send_to_client m st) = mq_clients st"
  "mq_tasks (send_to_client m st) = mq_tasks st" "mq_output_queue (send_to_client m st) = mq_output_queue st"
  by (simp_all add: send_to_client_def split: prod.split)

lemma call_handler_frame:
  "mq_to_server (fst (call_handler ms clock rt entry payloads prefix_frames st)) = mq_to_server st"
  "mq_clients (fst (call_handler ms clock rt entry payloads prefix_frames st)) = mq_clients st"
  by (cases "rh_handler_type entry";
      simp add: call_handler_def call_sync_handler_def call_blocking_handler_def Let_def case_prod_unfold split: sum.split)+

lemma server_receive_frame:
  assumes "server_receive ms hs clock msg st = (st', ex)"
  shows "mq_to_server st' = mq_to_server st" and "mq_clients st' = mq_clients st"
proof -
  have "mq_to_server (fst (server_receive ms hs clock msg st)) = mq_to_server st \<and> mq_clients (fst (server_receive ms hs clock msg st)) = mq_clients st"
    unfolding server_receive_def by (simp add: case_prod_unfold call_handler_frame split: list.split sum.split option.split)
  then show "mq_to_server st' = mq_to_server st" "mq_clients st' = mq_clients st" by (simp_all add: assms)
qed

lemma run_task_frame:
  assumes "run_task ms hs clock task st = (st', ex)"
  shows "mq_to_server st' = mq_to_server st" and "mq_clients st' = mq_clients st" and "mq_tasks st' = mq_tasks st"
proof -
  have "mq_to_server (fst (run_task ms hs clock task st)) = mq_to_server st \<and> mq_clients (fst (run_task ms hs clock task st)) = mq_clients st \<and>
      mq_tasks (fst (run_task ms hs clock task st)) = mq_tasks st"
    unfolding run_task_def by (simp add: Let_def case_prod_unfold split: sum.split option.split)
  then show "mq_to_server st' = mq_to_server st" "mq_clients st' = mq_clients st" "mq_tasks st' = mq_tasks st" by (simp_all add: assms)
qed

lemma client_receive_frame: "cl_input_queue (client_receive ms msg cl) = cl_input_queue cl"
proof -
  have "cl_input_queue (set_future u v cl) = cl_input_queue cl" for u v by (simp add: set_future_def)
  then show ?thesis unfolding client_receive_def by (simp add: case_prod_unfold split: list.split sum.split)
qed

lemma outbound_empties: "process_outbound_task ms q cl = (cl', msgs) \<Longrightarrow> cl_alive cl' \<Longrightarrow> cl_input_queue cl' = []"
proof (induction q arbitrary: cl cl' msgs)
  case (Cons r q)
  obtain uid rt ps where r: "r = (uid, rt, ps)" by (metis prod_cases3)
  show ?case
    using Cons by (auto simp: r Let_def protocol_complete split: if_splits prod.splits)
qed auto

lemma busy_clients:
  assumes inv: "mq_inv ms st subs execs W K X R A" and busy: "cl_input_queue (mq_clients st c) \<noteq> [] \<or> mq_to_client st c \<noteq> []"
  shows "c \<in> fst ` set subs"
proof -
  have rq: "mset (cl_input_queue (mq_clients st c)) \<subseteq># mset (of_client c subs)" "mset (of_client c (map fst X)) \<subseteq># mset (of_client c subs)"
    using mq_invD(11) [OF inv, of c] unfolding requests_ok_def by (auto simp: add.assoc dest!: sym [of _ "mset (of_client c subs)"])
  have "of_client c subs \<noteq> []"
  proof (cases "cl_input_queue (mq_clients st c) = []")
    case True
    then have "A c \<noteq> []" using busy mq_invD(5) [OF inv, of c] by simp
    then have "answers c X \<noteq> []" using mq_invD(12) [OF inv, of c] by (auto simp: replies_ok_def)
    then have "of_client c (map fst X) \<noteq> []" using answers_submultiset [of c X] by auto
    then show ?thesis using rq(2) by auto
  qed (use rq(1) in auto)
  then show ?thesis by (force simp: of_client_def filter_empty_conv)
qed

text \<open>
  The contract between the message queue and its handlers: every request type has a handler that
  runs, with the classes of the protocol, and a handler called with arguments of the payload
  classes answers with a value of the response class.
\<close>

locale handler_table =
  fixes hs :: "'e handlers"
  assumes complete: "get_payload_classes rt = Inr cs \<Longrightarrow> get_response_class rt = Inr rc \<Longrightarrow>
      \<exists>h. map_of hs rt = Some h \<and> rh_payload_clss h = cs \<and> rh_response_cls h = rc \<and> rh_handler_type h \<noteq> NON_BLOCKING"
    and typed: "map_of hs rt = Some h \<Longrightarrow> has_classes ps (rh_payload_clss h) \<Longrightarrow>
      rh_handler h clock ps eng = (eng', Inr v) \<Longrightarrow> has_class v (rh_response_cls h)"
begin

lemma handler_of:
  obtains h where "map_of hs rt = Some h" and "rh_payload_clss h = classes rt" and "rh_response_cls h = response_class rt"
    and "rh_handler_type h = SYNC \<or> rh_handler_type h = BLOCKING"
  using complete [OF protocol_complete, of rt] HandlerType.exhaust by metis

lemma reply_typed:
  assumes "map_of hs rt = Some h" and "rh_payload_clss h = classes rt" and "rh_response_cls h = response_class rt"
    and "typed_request (c, uid, rt, ps)" and "rh_handler h clock ps eng = (eng', r)"
  shows "\<forall>(c, uid, rt, v) \<in> set (reply_of ((c, uid, rt, ps), r)). has_class v (response_class rt)"
  using assms typed [OF assms(1)] by (cases r) (auto simp: reply_of_def typed_request_def)

lemma inv_receive:
  assumes ms: "Msgspec_documented ms" and inv: "mq_inv ms st subs execs W K X R A" and msg: "mq_to_server st = msg # rest"
    and step: "server_receive ms hs clock msg (st\<lparr>mq_to_server := rest\<rparr>) = (st', ex)"
  shows "\<exists>W K X R A. mq_inv ms st' subs (execs @ ex) W K X R A"
proof -
  obtain w W' where W: "W = w # W'" and m: "msg = request_message ms w" "rest = map (request_message ms) W'"
    using mq_invD(1) [OF inv] msg by auto
  obtain c uid rt ps where w: "w = (c, uid, rt, ps)" by (metis prod_cases4)
  have ty: "typed_request w" using inv_typed(2) [OF inv] by (simp add: W)
  obtain h where h: "map_of hs rt = Some h" "rh_payload_clss h = classes rt" "rh_response_cls h = response_class rt"
      "rh_handler_type h = SYNC \<or> rh_handler_type h = BLOCKING" by (rule handler_of)
  have un: "unwrap_request_payloads ms (map (\<lambda>(p, c). msgspec_encode ms p c) (zip ps (classes rt))) (classes rt) = Inr ps"
    using payload_roundtrip [OF ms] ty by (simp add: w typed_request_def)
  note simps = m w server_receive_def request_message_def request_frames_def type_roundtrip [OF ms] h(1-3) call_handler_def un
  note inv' = inv [unfolded W]
  show ?thesis
  proof (cases "rh_handler_type h = SYNC")
    case True
    obtain eng r where r: "rh_handler h clock ps (mq_engine st) = (eng, r)" by fastforce
    have "st' = fold send_to_client (map (reply_message ms) (reply_of (w, r))) (st\<lparr>mq_to_server := map (request_message ms) W', mq_engine := eng\<rparr>)"
      and "ex = [execution_of ms (w, r)]"
      using step r True
      by (auto simp: simps call_sync_handler_def Let_def reply_of_def execution_of_def reply_message_def response_frames_def split: sum.splits)
    then show ?thesis using inv_executed_sync [OF inv' reply_typed [OF h(1-3) ty [unfolded w] r, folded w]] by blast
  next
    case False
    then have eq: "st' = st\<lparr>mq_to_server := map (request_message ms) W', mq_tasks := mq_tasks st @ [request_task ms w]\<rparr>" "ex = []"
      using step h(4) by (auto simp: simps call_blocking_handler_def request_task_def)
    show ?thesis unfolding eq append_Nil2 by (intro exI, rule inv_enqueued [OF inv'])
  qed
qed

lemma inv_worker:
  assumes inv: "mq_inv ms st subs execs W K X R A" and tasks: "mq_tasks st = before @ task # after"
    and step: "run_task ms hs clock task (st\<lparr>mq_tasks := before @ after\<rparr>) = (st', ex)"
  shows "\<exists>W K X R A. mq_inv ms st' subs (execs @ ex) W K X R A"
proof -
  obtain K1 k K2 where K: "K = K1 @ k # K2" and t: "before = map (request_task ms) K1" "task = request_task ms k" "after = map (request_task ms) K2"
    using mq_invD(2) [OF inv, unfolded tasks, symmetric] unfolding map_eq_append_conv map_eq_Cons_conv by blast
  obtain c uid rt ps where k: "k = (c, uid, rt, ps)" by (metis prod_cases4)
  have ty: "typed_request k" using inv_typed(3) [OF inv] by (simp add: K)
  obtain h where h: "map_of hs rt = Some h" "rh_payload_clss h = classes rt" "rh_response_cls h = response_class rt" by (rule handler_of)
  obtain eng r where r: "rh_handler h clock ps (mq_engine st) = (eng, r)" by fastforce
  have "st' = st\<lparr>mq_tasks := map (request_task ms) (K1 @ K2), mq_engine := eng,
        mq_output_queue := mq_output_queue st @ map (reply_message ms) (reply_of (k, r))\<rparr>"
    and "ex = [execution_of ms (k, r)]"
    using step r h
    by (auto simp: t k run_task_def request_task_def Let_def reply_of_def execution_of_def reply_message_def response_frames_def split: sum.splits)
  then show ?thesis using inv_executed_task [OF inv [unfolded K] reply_typed [OF h(1-3) ty [unfolded k] r, folded k]] by blast
qed

lemma reach_inv:
  assumes ms: "Msgspec_documented ms" and "mq_reach ms hs e0 st subs execs"
  shows "\<exists>W K X R A. mq_inv ms st subs execs W K X R A"
  using assms(2)
proof (induction rule: mq_reach.induct)
  case start
  show ?case by (intro exI, rule inv_start)
next
  case (submit st subs execs rt cs ps c cl uid)
  then obtain W K X R A where inv: "mq_inv ms st subs execs W K X R A" by (elim exE)
  show ?case by (intro exI, rule inv_submit [OF inv submit.hyps(2-4)])
next
  case (outbound st subs execs c cl msgs)
  then obtain W K X R A where inv: "mq_inv ms st subs execs W K X R A" by (elim exE)
  show ?case by (intro exI, rule inv_outbound [OF inv outbound.hyps(3)])
next
  case (inbound st subs execs c msg rest)
  then obtain W K X R A where inv: "mq_inv ms st subs execs W K X R A" by (elim exE)
  then show ?case using inv_inbound [OF ms inv inbound.hyps(3)] by blast
next
  case (receive st subs execs msg rest clock st' ex)
  then obtain W K X R A where inv: "mq_inv ms st subs execs W K X R A" by (elim exE)
  show ?case by (rule inv_receive [OF ms inv receive.hyps(3,4)])
next
  case (worker st subs execs before task after clock st' ex)
  then obtain W K X R A where inv: "mq_inv ms st subs execs W K X R A" by (elim exE)
  show ?case by (rule inv_worker [OF inv worker.hyps(2,3)])
next
  case (respond st subs execs)
  then obtain W K X R A where inv: "mq_inv ms st subs execs W K X R A" by (elim exE)
  show ?case by (intro exI, rule inv_respond [OF inv])
qed

text \<open>
  Every request is executed at most once, on the engine, and a future that is done holds what its
  own handler returned.
\<close>

lemma executed_once:
  assumes ms: "Msgspec_documented ms" and reach: "mq_reach ms hs e0 st subs execs"
  shows "\<exists>X. execs = map (execution_of ms) X \<and> mset (map fst X) \<subseteq># mset subs \<and> distinct (map (\<lambda>(c, uid, rt, ps). (c, uid)) subs) \<and>
    (\<forall>c uid v. (uid, v) \<in> set (done_futures (mq_clients st c)) \<longrightarrow>
       (\<exists>rt ps. ((c, uid, rt, ps), Inr v) \<in> set X \<and> has_class v (response_class rt)))"
proof -
  obtain W K X R A where inv: "mq_inv ms st subs execs W K X R A" using reach_inv [OF assms] by (elim exE)
  have "mset (of_client c (map fst X)) \<subseteq># mset (of_client c subs)" for c
    using mq_invD(11) [OF inv, of c] unfolding requests_ok_def by (metis mset_subset_eq_add_right)
  then have "mset (map fst X) \<subseteq># mset subs" by (rule of_client_submultiset)
  moreover have "distinct (map (\<lambda>(c, uid, rt, ps). (c, uid)) subs)"
    using mq_invD(11) [OF inv] by (intro distinct_requests) (simp add: requests_ok_def)
  moreover have "\<exists>rt ps. ((c, uid, rt, ps), Inr v) \<in> set X \<and> has_class v (response_class rt)"
    if "(uid, v) \<in> set (done_futures (mq_clients st c))" for c uid v
  proof -
    have "(uid, v) \<in># mset (answers c X)" using that conjunct1 [OF mq_invD(12) [OF inv, of c, unfolded replies_ok_def]] by (simp only: union_iff set_mset_mset simp_thms)
    then obtain rt ps where x: "((c, uid, rt, ps), Inr v) \<in> set X" unfolding set_mset_mset answers_iff by blast
    then show ?thesis using mq_invD(13) [OF inv x] by (auto simp: reply_of_def)
  qed
  ultimately show ?thesis using mq_invD(3) [OF inv] by blast
qed

text \<open>When nothing is under way, every request was executed, and its future is done unless the handler raised.\<close>

lemma executed_all:
  assumes ms: "Msgspec_documented ms" and reach: "mq_reach ms hs e0 st subs execs" and quiet: "quiescent st"
  shows "\<exists>X. execs = map (execution_of ms) X \<and> mset (map fst X) = mset subs \<and>
    (\<forall>c uid rt ps v. ((c, uid, rt, ps), Inr v) \<in> set X \<longrightarrow> (uid, v) \<in> set (done_futures (mq_clients st c))) \<and>
    (\<forall>c uid rt ps e. ((c, uid, rt, ps), Inl e) \<in> set X \<longrightarrow> uid \<in> set (cl_pending_futures (mq_clients st c)))"
proof -
  obtain W K X R A where inv: "mq_inv ms st subs execs W K X R A" using reach_inv [OF assms(1,2)] by (elim exE)
  have e: "W = []" "K = []" "R = []" "A c = []" "cl_input_queue (mq_clients st c) = []" for c
    using quiet mq_invD(1,2,4) [OF inv] mq_invD(5) [OF inv, of c] by (auto simp: quiescent_def)
  have rq: "mset (of_client c (map fst X)) = mset (of_client c subs)" for c
    using mq_invD(11) [OF inv, of c] by (simp add: requests_ok_def e)
  then have X: "mset (map fst X) = mset subs" by (rule of_client_multiset)
  have an: "mset (answers c X) = mset (done_futures (mq_clients st c))" for c
    using mq_invD(12) [OF inv, of c] by (simp add: replies_ok_def e)
  have "uid \<in> set (cl_pending_futures (mq_clients st c))" if x: "((c, uid, rt, ps), Inl er) \<in> set X" for c uid rt ps er
  proof -
    have ds: "distinct (map (\<lambda>(c, uid, rt, ps). (c, uid)) subs)"
      using mq_invD(11) [OF inv] by (intro distinct_requests) (simp add: requests_ok_def)
    have "mset (map (\<lambda>(c, uid, rt, ps). (c, uid)) (map fst X)) = mset (map (\<lambda>(c, uid, rt, ps). (c, uid)) subs)"
      using arg_cong [OF X, of "image_mset (\<lambda>(c, uid, rt, ps). (c, uid))"] by (simp only: mset_map)
    then have dx: "distinct (map (\<lambda>(c, uid, rt, ps). (c, uid)) (map fst X))" using ds mset_eq_imp_distinct_iff by blast
    have nd: "uid \<notin> set (map fst (done_futures (mq_clients st c)))"
      using raised_unanswered [OF dx x] mset_eq_setD [OF an, of c] by simp
    have "(c, uid, rt, ps) \<in># mset (map fst X)" using x by force
    then have "(uid, rt, ps) \<in> set (of_client c subs)" unfolding X set_mset_mset of_client_iff .
    moreover have "map fst (of_client c subs) = [0..<cl_request_counter (mq_clients st c)]" using mq_invD(11) [OF inv, of c] by (simp add: requests_ok_def)
    ultimately have "uid \<in> set [0..<cl_request_counter (mq_clients st c)]" by (metis fst_conv image_eqI set_map)
    moreover have "mset (cl_pending_futures (mq_clients st c)) + mset (map fst (done_futures (mq_clients st c))) = mset [0..<cl_request_counter (mq_clients st c)]"
      using mq_invD(12) [OF inv, of c] by (simp add: replies_ok_def e)
    ultimately show ?thesis using nd by (metis union_iff set_mset_mset)
  qed
  moreover have "(uid, v) \<in> set (done_futures (mq_clients st c))" if "((c, uid, rt, ps), Inr v) \<in> set X" for c uid rt ps v
  proof -
    have "(uid, v) \<in># mset (answers c X)" using that answers_iff set_mset_mset by fastforce
    then show ?thesis unfolding an by simp
  qed
  ultimately show ?thesis using mq_invD(3) [OF inv] X by blast
qed

text \<open>From every reachable state the system can finish all requests: the schedule runs each part until it is idle.\<close>

lemma reach_alive:
  assumes "Msgspec_documented ms" and "mq_reach ms hs e0 st subs execs"
  shows "mq_server_alive st" and "cl_alive (mq_clients st c)"
proof -
  obtain W K X R A where inv: "mq_inv ms st subs execs W K X R A" using reach_inv [OF assms] by (elim exE)
  show "mq_server_alive st" "cl_alive (mq_clients st c)" by (rule mq_invD [OF inv])+
qed

lemma drain_outbound:
  assumes ms: "Msgspec_documented ms"
  shows "mq_reach ms hs e0 st subs execs \<Longrightarrow>
    \<exists>st'. mq_reach ms hs e0 st' subs execs \<and> (\<forall>c. c \<in> set cs \<or> cl_input_queue (mq_clients st c) = [] \<longrightarrow> cl_input_queue (mq_clients st' c) = [])"
proof (induction cs arbitrary: st)
  case Nil
  then show ?case by (intro exI [of _ st]) simp
next
  case (Cons c cs)
  obtain cl msgs where out: "process_outbound_task ms (cl_input_queue (mq_clients st c)) (mq_clients st c) = (cl, msgs)" by fastforce
  let ?st = "st\<lparr>mq_clients := (mq_clients st)(c := cl), mq_to_server := mq_to_server st @ map (Pair c) msgs\<rparr>"
  have step: "mq_reach ms hs e0 ?st subs execs" by (rule mq_reach.outbound [OF Cons.prems reach_alive(2) [OF ms Cons.prems] out])
  have "cl_alive cl" using reach_alive(2) [OF ms step, of c] by simp
  then have "cl_input_queue cl = []" by (rule outbound_empties [OF out])
  then show ?case using Cons.IH [OF step] by (simp, metis)
qed

lemma drain_server:
  assumes ms: "Msgspec_documented ms"
  shows "mq_reach ms hs e0 st subs execs \<Longrightarrow>
    \<exists>st' execs'. mq_reach ms hs e0 st' subs execs' \<and> mq_to_server st' = [] \<and> mq_clients st' = mq_clients st"
proof (induction "mq_to_server st" arbitrary: st execs)
  case Nil
  then show ?case by (intro exI [of _ st] exI [of _ execs]) simp
next
  case (Cons msg rest)
  obtain st1 ex where step: "server_receive ms hs (0, 0) msg (st\<lparr>mq_to_server := rest\<rparr>) = (st1, ex)" by fastforce
  have reach: "mq_reach ms hs e0 st1 subs (execs @ ex)"
    by (rule mq_reach.receive [OF Cons.prems reach_alive(1) [OF ms Cons.prems] Cons.hyps(2) [symmetric] step])
  show ?case using Cons.hyps(1) [OF _ reach] server_receive_frame [OF step] by simp
qed

lemma drain_tasks:
  "mq_reach ms hs e0 st subs execs \<Longrightarrow>
    \<exists>st' execs'. mq_reach ms hs e0 st' subs execs' \<and> mq_to_server st' = mq_to_server st \<and> mq_clients st' = mq_clients st \<and> mq_tasks st' = []"
proof (induction "mq_tasks st" arbitrary: st execs)
  case Nil
  then show ?case by (intro exI [of _ st] exI [of _ execs]) simp
next
  case (Cons task rest)
  obtain st1 ex where step: "run_task ms hs (0, 0) task (st\<lparr>mq_tasks := [] @ rest\<rparr>) = (st1, ex)" by fastforce
  have reach: "mq_reach ms hs e0 st1 subs (execs @ ex)"
    by (rule mq_reach.worker [OF Cons.prems _ step]) (simp add: Cons.hyps(2) [symmetric])
  show ?case using Cons.hyps(1) [OF _ reach] run_task_frame [OF step] by simp
qed

lemma drain_client:
  assumes ms: "Msgspec_documented ms"
  shows "mq_reach ms hs e0 st subs execs \<Longrightarrow>
    \<exists>st'. mq_reach ms hs e0 st' subs execs \<and> mq_to_server st' = mq_to_server st \<and> mq_tasks st' = mq_tasks st \<and>
      mq_output_queue st' = mq_output_queue st \<and> (\<forall>c'. cl_input_queue (mq_clients st' c') = cl_input_queue (mq_clients st c')) \<and>
      mq_to_client st' = (mq_to_client st)(c := [])"
proof (induction "mq_to_client st c" arbitrary: st)
  case Nil
  then show ?case by (intro exI [of _ st]) auto
next
  case (Cons msg rest)
  let ?st = "on_client c (client_receive ms msg) (st\<lparr>mq_to_client := (mq_to_client st)(c := rest)\<rparr>)"
  have reach: "mq_reach ms hs e0 ?st subs execs"
    by (rule mq_reach.inbound [OF Cons.prems reach_alive(2) [OF ms Cons.prems] Cons.hyps(2) [symmetric]])
  have f: "mq_to_server ?st = mq_to_server st" "mq_tasks ?st = mq_tasks st" "mq_output_queue ?st = mq_output_queue st"
    "\<And>c'. cl_input_queue (mq_clients ?st c') = cl_input_queue (mq_clients st c')" "mq_to_client ?st = (mq_to_client st)(c := rest)"
    by (simp_all add: on_client_def client_receive_frame)
  show ?case using Cons.hyps(1) [OF _ reach] unfolding f by simp
qed

lemma drain_clients:
  assumes ms: "Msgspec_documented ms"
  shows "mq_reach ms hs e0 st subs execs \<Longrightarrow>
    \<exists>st'. mq_reach ms hs e0 st' subs execs \<and> mq_to_server st' = mq_to_server st \<and> mq_tasks st' = mq_tasks st \<and>
      mq_output_queue st' = mq_output_queue st \<and> (\<forall>c'. cl_input_queue (mq_clients st' c') = cl_input_queue (mq_clients st c')) \<and>
      (\<forall>c. c \<in> set cs \<or> mq_to_client st c = [] \<longrightarrow> mq_to_client st' c = [])"
proof (induction cs arbitrary: st)
  case Nil
  then show ?case by (intro exI [of _ st]) simp
next
  case (Cons c cs)
  obtain st1 where st1: "mq_reach ms hs e0 st1 subs execs" "mq_to_server st1 = mq_to_server st" "mq_tasks st1 = mq_tasks st"
      "mq_output_queue st1 = mq_output_queue st" "\<forall>c'. cl_input_queue (mq_clients st1 c') = cl_input_queue (mq_clients st c')"
      "mq_to_client st1 = (mq_to_client st)(c := [])"
    using drain_client [OF ms Cons.prems, of c] by blast
  show ?case using Cons.IH [OF st1(1)] unfolding st1(2-4,6) by (simp add: st1(5), metis)
qed

lemma finishes:
  assumes ms: "Msgspec_documented ms" and reach: "mq_reach ms hs e0 st subs execs"
  shows "\<exists>st' execs'. mq_reach ms hs e0 st' subs execs' \<and> quiescent st'"
proof -
  have busy: "c \<in> set (map fst subs)" if r: "mq_reach ms hs e0 st1 subs ex1" and b: "cl_input_queue (mq_clients st1 c) \<noteq> [] \<or> mq_to_client st1 c \<noteq> []" for st1 ex1 c
  proof -
    obtain W K X R A where inv: "mq_inv ms st1 subs ex1 W K X R A" using reach_inv [OF ms r] by (elim exE)
    show ?thesis using busy_clients [OF inv b] by simp
  qed
  obtain st1 where st1: "mq_reach ms hs e0 st1 subs execs" "\<forall>c. cl_input_queue (mq_clients st1 c) = []"
    using drain_outbound [OF ms reach, of "map fst subs"] busy [OF reach] by blast
  obtain st2 ex2 where st2: "mq_reach ms hs e0 st2 subs ex2" "mq_to_server st2 = []" "mq_clients st2 = mq_clients st1"
    using drain_server [OF ms st1(1)] by blast
  obtain st3 ex3 where st3: "mq_reach ms hs e0 st3 subs ex3" "mq_to_server st3 = []" "mq_clients st3 = mq_clients st1" "mq_tasks st3 = []"
    using drain_tasks [OF st2(1)] unfolding st2 by blast
  have st4: "mq_reach ms hs e0 (send_responses st3) subs ex3" by (rule mq_reach.respond [OF st3(1) reach_alive(1) [OF ms st3(1)]])
  have f: "mq_to_server (send_responses st3) = []" "mq_tasks (send_responses st3) = []" "mq_output_queue (send_responses st3) = []"
    "mq_clients (send_responses st3) = mq_clients st1" by (simp_all add: send_responses_def fold_send st3)
  obtain st5 where st5: "mq_reach ms hs e0 st5 subs ex3" "mq_to_server st5 = []" "mq_tasks st5 = []" "mq_output_queue st5 = []"
      "\<forall>c. cl_input_queue (mq_clients st5 c) = []"
      "\<forall>c. c \<in> set (map fst subs) \<or> mq_to_client (send_responses st3) c = [] \<longrightarrow> mq_to_client st5 c = []"
    using drain_clients [OF ms st4, of "map fst subs"] st1(2) unfolding f by auto
  have "mq_to_client st5 c = []" for c using st5(6) busy [OF st4, of c] by blast
  then have "quiescent st5" using st5 by (simp add: quiescent_def)
  then show ?thesis using st5(1) by blast
qed

end

section \<open>The handlers of the cache server\<close>

definition server_handler :: "RequestType \<times> 'e annotated \<Rightarrow> RequestType \<times> 'e RequestHandler" where
  "server_handler rf =
     (case rf of (rt, h) \<Rightarrow>
        (rt, \<lparr>rh_handler_type = projr (get_handler_type rt), rh_payload_clss = classes rt, rh_response_cls = response_class rt,
              rh_handler = an_function h\<rparr>))"

lemma classes_simps:
  "classes REGISTER_KV_CACHE = [CInt, CList CIPCWrapper]" "classes UNREGISTER_KV_CACHE = [CInt]"
  "classes STORE = [CList CKey, CInt, CList CInt, CBytes]" "classes RETRIEVE = [CList CKey, CInt, CList CInt, CBytes]"
  "classes LOOKUP = [CList CKey]" "classes CLEAR = []" "classes GET_CHUNK_SIZE = []" "classes END_SESSION = [CStr]" "classes NOOP = []"
  by (simp_all add: classes_def get_payload_classes_def get_protocol_def PROTOCOL_DEFINITIONS_def)

lemma response_simps:
  "response_class REGISTER_KV_CACHE = CNone" "response_class UNREGISTER_KV_CACHE = CNone"
  "response_class STORE = CTuple [CBytes, CBool]" "response_class RETRIEVE = CTuple [CBytes, CList CBool]"
  "response_class LOOKUP = CInt" "response_class CLEAR = CNone" "response_class GET_CHUNK_SIZE = CInt" "response_class END_SESSION = CNone"
  "response_class NOOP = CStr"
  by (simp_all add: response_class_def get_response_class_def get_protocol_def PROTOCOL_DEFINITIONS_def)

lemma handler_type_simps:
  "get_handler_type rt = Inr (if rt \<in> {STORE, RETRIEVE, LOOKUP, CLEAR} then BLOCKING else SYNC)"
  by (cases rt) (simp_all add: get_handler_type_def get_protocol_def PROTOCOL_DEFINITIONS_def)

lemma add_handler_accepts:
  assumes "an_parameters h = classes rt" and "an_return h = response_class rt"
  shows "add_handler_helper hs (rt, h) = Inr (AList.update rt (snd (server_handler (rt, h))) hs)"
proof -
  have "\<not> list_ex (\<lambda>(ann, expected_cls). ann \<noteq> expected_cls) (zip cs cs)" for cs :: "py_class list" by (induction cs) auto
  then show ?thesis
    using assms by (simp add: add_handler_helper_def add_handler_def inspect_handler_signature_def protocol_complete handler_type_simps server_handler_def)
qed

lemma run_cache_server_handlers:
  "run_cache_server S T cuda ipc_handle = Inr (map server_handler (engine_handlers S T cuda ipc_handle))"
  by (simp add: run_cache_server_def engine_handlers_def Let_def add_handler_accepts classes_simps response_simps server_handler_def)

lemma cache_server_handler:
  obtains h where "map_of (map server_handler (engine_handlers S T cuda ipc_handle)) rt = Some (snd (server_handler (rt, h)))"
    and "(rt, h) \<in> set (engine_handlers S T cuda ipc_handle)" and "an_return h = response_class rt"
proof -
  have "\<exists>h. map_of (map server_handler (engine_handlers S T cuda ipc_handle)) rt = Some (snd (server_handler (rt, h))) \<and>
      (rt, h) \<in> set (engine_handlers S T cuda ipc_handle) \<and> an_return h = response_class rt"
    by (cases rt) (simp_all add: engine_handlers_def Let_def server_handler_def response_simps)
  then show ?thesis using that by blast
qed

interpretation cache_server: handler_table "map server_handler (engine_handlers S T cuda ipc_handle)" for S T cuda ipc_handle
proof
  fix rt cs rc
  assume c: "get_payload_classes rt = Inr cs" "get_response_class rt = Inr rc"
  obtain h where "map_of (map server_handler (engine_handlers S T cuda ipc_handle)) rt = Some (snd (server_handler (rt, h)))"
    by (rule cache_server_handler)
  then show "\<exists>h. map_of (map server_handler (engine_handlers S T cuda ipc_handle)) rt = Some h \<and> rh_payload_clss h = cs \<and>
      rh_response_cls h = rc \<and> rh_handler_type h \<noteq> NON_BLOCKING"
    using c by (simp add: server_handler_def protocol_complete handler_type_simps)
next
  fix rt h ps clock eng eng' v
  assume h: "map_of (map server_handler (engine_handlers S T cuda ipc_handle)) rt = Some h" and call: "rh_handler h clock ps eng = (eng', Inr v)"
  obtain h' where "map_of (map server_handler (engine_handlers S T cuda ipc_handle)) rt = Some (snd (server_handler (rt, h')))"
    and m: "(rt, h') \<in> set (engine_handlers S T cuda ipc_handle)" "an_return h' = response_class rt" by (rule cache_server_handler)
  then have "h = snd (server_handler (rt, h'))" using h by simp
  then show "has_class v (rh_response_cls h)" using handler_types [OF m(1)] call m(2) by (simp add: server_handler_def)
qed

text \<open>A state in which client 3 has asked for the chunk size.\<close>

lemma demo_reach:
  "mq_reach ms hs e0
    \<lparr>mq_engine = e0, mq_clients = (\<lambda>_. MessageQueueClient_init)(3 := fst (submit_request GET_CHUNK_SIZE [] MessageQueueClient_init)),
     mq_to_server = [], mq_tasks = [], mq_output_queue = [], mq_to_client = (\<lambda>_. []), mq_server_alive = True\<rparr> [(3, 0, GET_CHUNK_SIZE, [])] []"
proof -
  have "submit_request GET_CHUNK_SIZE [] MessageQueueClient_init = (fst (submit_request GET_CHUNK_SIZE [] MessageQueueClient_init), 0)"
    by (simp add: submit_request_def MessageQueueClient_init_def Let_def)
  from mq_reach.submit [OF mq_reach.start protocol_complete(1), where rt = GET_CHUNK_SIZE and c = 3 and ps = "[]"] this
  show ?thesis by (simp add: classes_simps)
qed

section \<open>Properties\<close>



text \<open>
  Property C5. Whatever the interleaving of clients, main loop and workers, no request is
  executed twice or invented: the executions are of distinct submitted requests. A future of a
  client that is done holds the value that the handler of its own request returned, of the class
  that the protocol declares.
\<close>

theorem requests_executed_once:
  assumes "Msgspec_documented ms" and "run_cache_server S T cuda ipc_handle = Inr hs" and "mq_reach ms hs e0 st subs execs"
  shows "\<exists>X. execs = map (execution_of ms) X \<and> mset (map fst X) \<subseteq># mset subs \<and> distinct (map (\<lambda>(c, uid, rt, ps). (c, uid)) subs) \<and>
    (\<forall>c uid v. (uid, v) \<in> set (done_futures (mq_clients st c)) \<longrightarrow>
       (\<exists>rt ps. ((c, uid, rt, ps), Inr v) \<in> set X \<and> has_class v (response_class rt)))"
proof -
  have "hs = map server_handler (engine_handlers S T cuda ipc_handle)" using assms(2) by (simp add: run_cache_server_handlers)
  then show ?thesis using cache_server.executed_once [OF assms(1)] assms(3) by blast
qed

theorem requests_executed_once_witness:
  "\<exists>hs st execs X. run_cache_server insertion_list plain_torch (demo_cuda (\<lambda>_. False)) [] = Inr hs \<and>
    mq_reach plain_msgspec hs (demo_engine []) st [(3, 0, GET_CHUNK_SIZE, [])] execs \<and> quiescent st \<and>
    execs = map (execution_of plain_msgspec) X \<and> mset (map fst X) \<subseteq># {#(3, 0, GET_CHUNK_SIZE, [])#} \<and>
    (\<forall>c uid v. (uid, v) \<in> set (done_futures (mq_clients st c)) \<longrightarrow>
       (\<exists>rt ps. ((c, uid, rt, ps), Inr v) \<in> set X \<and> has_class v (response_class rt)))"
proof -
  let ?hs = "map server_handler (engine_handlers insertion_list plain_torch (demo_cuda (\<lambda>_. False)) [])"
  have hs: "run_cache_server insertion_list plain_torch (demo_cuda (\<lambda>_. False)) [] = Inr ?hs" by (rule run_cache_server_handlers)
  obtain st execs where st: "mq_reach plain_msgspec ?hs (demo_engine []) st [(3, 0, GET_CHUNK_SIZE, [])] execs" "quiescent st"
    using cache_server.finishes [OF plain_msgspec_documented demo_reach] by blast
  have "mset [(3, 0, GET_CHUNK_SIZE, [])] = {#(3, 0, GET_CHUNK_SIZE, [])#}" by simp
  then show ?thesis using requests_executed_once [OF plain_msgspec_documented hs st(1)] hs st by metis
qed



end
