(* ===== verification/MP_Adapter.thy ===== *)
theory MP_Adapter
  imports Message_Queue
begin

text \<open>
  The vLLM side of the multi-process mode: \<^verbatim>\<open>lmcache/integration/vllm/vllm_multi_process_adapter.py\<close>.
  The scheduler adapter turns lookups into requests to the cache server; the worker adapter does
  so for stores and retrieves and tells vLLM which requests have finished, so that their blocks
  can be reused.

  A future is named by the number of its request in the client, since client and adapter share
  it. Where the code blocks on a future, \<open>await\<close> stands for what the client thread does
  meanwhile. \<open>event_query\<close> tells which CUDA events have happened.

  Shown: the chunk hashes of a request are those of the last blocks of its chunks; with at most one
  store per request, a request is reported exactly when vLLM and the cache server are both done with
  it, and never twice; with a second store or a batched one it is reported while the server still
  copies its blocks.
\<close>

section \<open>Requests\<close>

text \<open>\<^verbatim>\<open>itertools.islice\<close> with an open end: \<open>skip\<close> elements are passed over before the next one is taken.\<close>

fun islice :: "'a list \<Rightarrow> nat \<Rightarrow> nat \<Rightarrow> 'a list" where
  "islice [] skip step = []"
| "islice (x # xs) 0 step = x # islice xs (step - 1) step"
| "islice (x # xs) (Suc skip) step = islice xs skip step"

definition striding_block_hashes :: "bytes list \<Rightarrow> int \<Rightarrow> bytes list result" where
  "striding_block_hashes block_hashes blocks_in_chunk =
     (if blocks_in_chunk < 1 then Inl ValueError else Inr (islice block_hashes (nat blocks_in_chunk - 1) (nat blocks_in_chunk)))"

definition wrap_kv_caches :: "(string \<times> nat list \<times> torch_dtype) list \<Rightarrow> py_obj list" where
  "wrap_kv_caches kv_caches = map (\<lambda>(_, shape, dtype). OIPCWrapper shape dtype) kv_caches"

definition send_lmcache_request :: "RequestType \<Rightarrow> py_obj list \<Rightarrow> client \<Rightarrow> client \<times> nat" where
  "send_lmcache_request request_type payloads mq_client = submit_request request_type payloads mq_client"

definition future_of :: "client \<Rightarrow> nat \<Rightarrow> MessagingFuture" where
  "future_of cl uid = (case map_of (cl_futures cl) uid of None \<Rightarrow> MessagingFuture_init | Some f \<Rightarrow> f)"

type_synonym await = "nat \<Rightarrow> client \<Rightarrow> client"

definition send_and_wait :: "await \<Rightarrow> RequestType \<Rightarrow> py_obj list \<Rightarrow> (client, py_obj) action" where
  "send_and_wait await request_type payloads mq_client =
     (case send_lmcache_request request_type payloads mq_client of
        (cl, uid) \<Rightarrow> let cl' = await uid cl in (cl', MessagingFuture_get_result (future_of cl' uid)))"

definition get_lmcache_chunk_size :: "await \<Rightarrow> (client, int) action" where
  "get_lmcache_chunk_size await mq_client =
     (case send_and_wait await GET_CHUNK_SIZE [] mq_client of (cl, r) \<Rightarrow> (cl, bind_result r arg_int))"

record LoadStoreOp =
  op_block_ids :: "int list"
  op_token_ids :: "int list option"
  op_block_hashes :: "bytes list option"
  op_start :: nat
  op_end :: nat

definition LoadStoreOp_len :: "LoadStoreOp \<Rightarrow> nat" where
  "LoadStoreOp_len op = length (op_block_ids op)"

definition token_key :: "string \<Rightarrow> int \<Rightarrow> int option \<Rightarrow> int list \<Rightarrow> nat \<Rightarrow> nat \<Rightarrow> string option \<Rightarrow> IPCCacheEngineKey" where
  "token_key model_name world_size worker_id token_ids start ending request_id =
     \<lparr>ik_model_name = model_name, ik_world_size = world_size, ik_worker_id = worker_id, ik_token_ids = Some token_ids,
      ik_start = start, ik_end = ending, ik_chunk_hash = None, ik_request_id = request_id\<rparr>"

text \<open>The number of blocks in a chunk, which both adapters compute from the chunk size of the server.\<close>

definition blocks_per_chunk :: "int \<Rightarrow> int \<Rightarrow> int result" where
  "blocks_per_chunk chunk_size vllm_block_size =
     (if vllm_block_size = 0 then Inl ZeroDivisionError
      else if chunk_size mod vllm_block_size \<noteq> 0 then Inl AssertionError
      else Inr (chunk_size div vllm_block_size))"

section \<open>The scheduler adapter\<close>

record LMCacheMPSchedulerAdapter =
  sa_mq_client :: client
  sa_lookup_futures :: "(string \<times> nat) list"
  sa_model_name :: string
  sa_world_size :: int
  sa_worker_id :: int
  sa_chunk_size :: int
  sa_blocks_in_chunk :: int

definition LMCacheMPSchedulerAdapter_init :: "await \<Rightarrow> string \<Rightarrow> int \<Rightarrow> int \<Rightarrow> int \<Rightarrow> LMCacheMPSchedulerAdapter result" where
  "LMCacheMPSchedulerAdapter_init await model_name world_size kv_rank vllm_block_size =
     (case get_lmcache_chunk_size await MessageQueueClient_init of
        (cl, r) \<Rightarrow>
          bind_result r (\<lambda>chunk_size. bind_result (blocks_per_chunk chunk_size vllm_block_size) (\<lambda>blocks_in_chunk.
            Inr \<lparr>sa_mq_client = cl, sa_lookup_futures = [], sa_model_name = model_name, sa_world_size = world_size, sa_worker_id = kv_rank,
                 sa_chunk_size = chunk_size, sa_blocks_in_chunk = blocks_in_chunk\<rparr>)))"

definition SchedulerAdapter_create_key :: "LMCacheMPSchedulerAdapter \<Rightarrow> int list \<Rightarrow> nat \<Rightarrow> nat \<Rightarrow> string \<Rightarrow> IPCCacheEngineKey" where
  "SchedulerAdapter_create_key sa token_ids start ending request_id =
     token_key (sa_model_name sa) (sa_world_size sa) (Some (sa_worker_id sa)) token_ids start ending (Some request_id)"

definition SchedulerAdapter_create_hash_key :: "LMCacheMPSchedulerAdapter \<Rightarrow> bytes \<Rightarrow> string \<Rightarrow> IPCCacheEngineKey" where
  "SchedulerAdapter_create_hash_key sa chunk_hash request_id = hash_key (sa_model_name sa) (sa_world_size sa) None chunk_hash (Some request_id)"

definition submit_lookup :: "string \<Rightarrow> IPCCacheEngineKey list \<Rightarrow> LMCacheMPSchedulerAdapter \<Rightarrow> LMCacheMPSchedulerAdapter" where
  "submit_lookup request_id keys sa =
     (case send_lmcache_request LOOKUP [OList (map OKey keys)] (sa_mq_client sa) of
        (cl, uid) \<Rightarrow> sa\<lparr>sa_mq_client := cl, sa_lookup_futures := AList.update request_id uid (sa_lookup_futures sa)\<rparr>)"

definition maybe_submit_lookup_request ::
  "string \<Rightarrow> bytes list option \<Rightarrow> int list option \<Rightarrow> LMCacheMPSchedulerAdapter \<Rightarrow> LMCacheMPSchedulerAdapter result"
where
  "maybe_submit_lookup_request request_id block_hashes token_ids sa =
     (if request_id \<in> fst ` set (sa_lookup_futures sa) then Inr sa
      else (case (block_hashes, token_ids) of
              (Some bs, None) \<Rightarrow>
                bind_result (striding_block_hashes bs (sa_blocks_in_chunk sa)) (\<lambda>chunk_hashes.
                  Inr (submit_lookup request_id (map (\<lambda>ch. SchedulerAdapter_create_hash_key sa ch request_id) chunk_hashes) sa))
            | (None, Some ts) \<Rightarrow>
                if sa_chunk_size sa = 0 then Inl ZeroDivisionError
                else (let aligned_end = int (length ts) div sa_chunk_size sa * sa_chunk_size sa
                      in if aligned_end = 0 then Inr sa
                         else Inr (submit_lookup request_id
                                [no_worker_id_version (SchedulerAdapter_create_key sa ts 0 (nat aligned_end) request_id)] sa))
            | _ \<Rightarrow> Inl AssertionError))"

definition check_lookup_result :: "string \<Rightarrow> LMCacheMPSchedulerAdapter \<Rightarrow> int option result" where
  "check_lookup_result request_id sa =
     (case map_of (sa_lookup_futures sa) request_id of
        None \<Rightarrow> Inl AssertionError
      | Some uid \<Rightarrow>
          let future = future_of (sa_mq_client sa) uid
          in if \<not> MessagingFuture_query future then Inr None
             else bind_result (MessagingFuture_get_result future) (\<lambda>v. bind_result (arg_int v) (\<lambda>num_chunks. Inr (Some (num_chunks * sa_chunk_size sa)))))"

definition cleanup_lookup_result :: "string \<Rightarrow> LMCacheMPSchedulerAdapter \<Rightarrow> LMCacheMPSchedulerAdapter" where
  "cleanup_lookup_result request_id sa = sa\<lparr>sa_lookup_futures := AList.delete request_id (sa_lookup_futures sa)\<rparr>"

definition SchedulerAdapter_end_session :: "string \<Rightarrow> LMCacheMPSchedulerAdapter \<Rightarrow> LMCacheMPSchedulerAdapter" where
  "SchedulerAdapter_end_session request_id sa = sa\<lparr>sa_mq_client := fst (send_lmcache_request END_SESSION [OStr request_id] (sa_mq_client sa))\<rparr>"

section \<open>The worker adapter\<close>

text \<open>The future of a store or retrieve, with the other requests that were sent with it.\<close>

type_synonym cuda_futures = "(string \<times> (nat \<times> CUDAMessagingFuture) \<times> string list) list"

record LMCacheMPWorkerAdapter =
  wa_mq_client :: client
  wa_instance_id :: int
  wa_kv_caches :: "(string \<times> nat list \<times> torch_dtype) list"
  wa_store_futures :: cuda_futures
  wa_retrieve_futures :: cuda_futures
  wa_finished_stores :: "string set"
  wa_previously_finished :: "string set"
  wa_model_name :: string
  wa_world_size :: int
  wa_worker_id :: int
  wa_blocks_in_chunk :: int

definition LMCacheMPWorkerAdapter_init :: "await \<Rightarrow> int \<Rightarrow> string \<Rightarrow> int \<Rightarrow> int \<Rightarrow> int \<Rightarrow> LMCacheMPWorkerAdapter result" where
  "LMCacheMPWorkerAdapter_init await pid model_name world_size kv_rank vllm_block_size =
     (case get_lmcache_chunk_size await MessageQueueClient_init of
        (cl, r) \<Rightarrow>
          bind_result r (\<lambda>chunk_size. bind_result (blocks_per_chunk chunk_size vllm_block_size) (\<lambda>blocks_in_chunk.
            Inr \<lparr>wa_mq_client = cl, wa_instance_id = pid, wa_kv_caches = [], wa_store_futures = [], wa_retrieve_futures = [],
                 wa_finished_stores = {}, wa_previously_finished = {}, wa_model_name = model_name, wa_world_size = world_size,
                 wa_worker_id = kv_rank, wa_blocks_in_chunk = blocks_in_chunk\<rparr>)))"

definition register_kv_caches :: "await \<Rightarrow> (string \<times> nat list \<times> torch_dtype) list \<Rightarrow> (LMCacheMPWorkerAdapter, unit) action" where
  "register_kv_caches await kv_caches wa =
     (case send_and_wait await REGISTER_KV_CACHE [OInt (wa_instance_id wa), OList (wrap_kv_caches kv_caches)] (wa_mq_client wa) of
        (cl, r) \<Rightarrow> (wa\<lparr>wa_kv_caches := kv_caches, wa_mq_client := cl\<rparr>, bind_result r (\<lambda>_. Inr ())))"

definition WorkerAdapter_create_key :: "LMCacheMPWorkerAdapter \<Rightarrow> int list \<Rightarrow> nat \<Rightarrow> nat \<Rightarrow> string \<Rightarrow> IPCCacheEngineKey" where
  "WorkerAdapter_create_key wa token_ids start ending request_id =
     token_key (wa_model_name wa) (wa_world_size wa) (Some (wa_worker_id wa)) token_ids start ending (Some request_id)"

definition WorkerAdapter_create_hash_key :: "LMCacheMPWorkerAdapter \<Rightarrow> bytes \<Rightarrow> string \<Rightarrow> IPCCacheEngineKey" where
  "WorkerAdapter_create_hash_key wa chunk_hash request_id =
     hash_key (wa_model_name wa) (wa_world_size wa) (Some (wa_worker_id wa)) chunk_hash (Some request_id)"

definition op_keys :: "LMCacheMPWorkerAdapter \<Rightarrow> string \<Rightarrow> LoadStoreOp \<Rightarrow> IPCCacheEngineKey list result" where
  "op_keys wa request_id op =
     (case op_block_hashes op of
        Some bs \<Rightarrow>
          bind_result (striding_block_hashes bs (wa_blocks_in_chunk wa)) (\<lambda>chunk_hashes.
            Inr (map (\<lambda>ch. WorkerAdapter_create_hash_key wa ch request_id) chunk_hashes))
      | None \<Rightarrow>
          (case op_token_ids op of
             None \<Rightarrow> Inl AssertionError
           | Some ts \<Rightarrow> Inr [WorkerAdapter_create_key wa ts (op_start op) (op_end op) request_id]))"

definition transfer_payloads :: "LMCacheMPWorkerAdapter \<Rightarrow> IPCCacheEngineKey list \<Rightarrow> int list \<Rightarrow> bytes \<Rightarrow> py_obj list" where
  "transfer_payloads wa keys block_ids ipc_handle =
     [OList (map OKey keys), OInt (wa_instance_id wa), OList (map OInt block_ids), OBytes ipc_handle]"

definition submit_store_request :: "string \<Rightarrow> LoadStoreOp \<Rightarrow> bytes \<Rightarrow> (LMCacheMPWorkerAdapter, unit) action" where
  "submit_store_request request_id op event wa =
     (case op_keys wa request_id op of
        Inl e \<Rightarrow> (wa, Inl e)
      | Inr keys \<Rightarrow>
          (case send_lmcache_request STORE (transfer_payloads wa keys (op_block_ids op) event) (wa_mq_client wa) of
             (cl, uid) \<Rightarrow>
               (wa\<lparr>wa_mq_client := cl,
                   wa_store_futures := AList.update request_id ((uid, CUDAMessagingFuture_init (future_of cl uid)), []) (wa_store_futures wa)\<rparr>, Inr ())))"

definition submit_retrieve_request :: "string \<Rightarrow> LoadStoreOp \<Rightarrow> bytes \<Rightarrow> (LMCacheMPWorkerAdapter, unit) action" where
  "submit_retrieve_request request_id op event wa =
     (case op_keys wa request_id op of
        Inl e \<Rightarrow> (wa, Inl e)
      | Inr keys \<Rightarrow>
          (case send_lmcache_request RETRIEVE (transfer_payloads wa keys (op_block_ids op) event) (wa_mq_client wa) of
             (cl, uid) \<Rightarrow>
               (wa\<lparr>wa_mq_client := cl,
                   wa_retrieve_futures := AList.update request_id ((uid, CUDAMessagingFuture_init (future_of cl uid)), []) (wa_retrieve_futures wa)\<rparr>, Inr ())))"

text \<open>The batched forms: one request for all operations, recorded under the first request id.\<close>

definition batch_keys :: "LMCacheMPWorkerAdapter \<Rightarrow> string list \<Rightarrow> LoadStoreOp list \<Rightarrow> (IPCCacheEngineKey list \<times> int list) result" where
  "batch_keys wa request_ids ops =
     bind_result (map_result (\<lambda>(request_id, op). op_keys wa request_id op) (zip request_ids ops)) (\<lambda>keys.
       Inr (concat keys, concat (map (\<lambda>(request_id, op). op_block_ids op) (zip request_ids ops))))"

definition batched_submit_store_requests :: "string list \<Rightarrow> LoadStoreOp list \<Rightarrow> bytes \<Rightarrow> (LMCacheMPWorkerAdapter, unit) action" where
  "batched_submit_store_requests request_ids ops event wa =
     (case batch_keys wa request_ids ops of
        Inl e \<Rightarrow> (wa, Inl e)
      | Inr (all_keys, block_ids) \<Rightarrow>
          (case send_lmcache_request STORE (transfer_payloads wa all_keys block_ids event) (wa_mq_client wa) of
             (cl, uid) \<Rightarrow>
               (case request_ids of
                  [] \<Rightarrow> (wa\<lparr>wa_mq_client := cl\<rparr>, Inl IndexError)
                | request_id # others \<Rightarrow>
                    (wa\<lparr>wa_mq_client := cl,
                        wa_store_futures := AList.update request_id ((uid, CUDAMessagingFuture_init (future_of cl uid)), others) (wa_store_futures wa)\<rparr>, Inr ()))))"

definition batched_submit_retrieve_requests :: "string list \<Rightarrow> LoadStoreOp list \<Rightarrow> bytes \<Rightarrow> (LMCacheMPWorkerAdapter, unit) action" where
  "batched_submit_retrieve_requests request_ids ops event wa =
     (case batch_keys wa request_ids ops of
        Inl e \<Rightarrow> (wa, Inl e)
      | Inr (all_keys, block_ids) \<Rightarrow>
          (case send_lmcache_request RETRIEVE (transfer_payloads wa all_keys block_ids event) (wa_mq_client wa) of
             (cl, uid) \<Rightarrow>
               (case request_ids of
                  [] \<Rightarrow> (wa\<lparr>wa_mq_client := cl\<rparr>, Inl IndexError)
                | request_id # others \<Rightarrow>
                    (wa\<lparr>wa_mq_client := cl,
                        wa_retrieve_futures := AList.update request_id ((uid, CUDAMessagingFuture_init (future_of cl uid)), others) (wa_retrieve_futures wa)\<rparr>, Inr ()))))"

text \<open>
  The loops of \<^verbatim>\<open>get_finished\<close>: every future is queried, and of those that are done the result is read.
  The result of a retrieve must be iterable. A future that raises ends the loop.
\<close>

fun poll_futures :: "(bytes \<Rightarrow> bool) \<Rightarrow> (py_obj \<Rightarrow> bool) \<Rightarrow> client \<Rightarrow> (cuda_futures, string set) action" where
  "poll_futures event_query iterable cl [] = ([], Inr {})"
| "poll_futures event_query iterable cl ((request_id, (uid, f), other_reqs) # futures) =
     (case CUDAMessagingFuture_query event_query (f\<lparr>cf_raw_future := future_of cl uid\<rparr>) of
        Inl e \<Rightarrow> ((request_id, (uid, f), other_reqs) # futures, Inl e)
      | Inr (f1, happened) \<Rightarrow>
          if \<not> happened
          then (case poll_futures event_query iterable cl futures of (futures', r) \<Rightarrow> ((request_id, (uid, f1), other_reqs) # futures', r))
          else (case CUDAMessagingFuture_get_result f1 of
                  Inl e \<Rightarrow> ((request_id, (uid, f1), other_reqs) # futures, Inl e)
                | Inr (f2, v) \<Rightarrow>
                    if \<not> iterable v then ((request_id, (uid, f2), other_reqs) # futures, Inl TypeError)
                    else (case poll_futures event_query iterable cl futures of
                            (futures', r) \<Rightarrow>
                              ((request_id, (uid, f2), other_reqs) # futures',
                               bind_result r (\<lambda>finished. Inr (insert request_id (set other_reqs) \<union> finished))))))"

definition update_and_get_finished_store :: "LMCacheMPWorkerAdapter \<Rightarrow> LMCacheMPWorkerAdapter \<times> string set" where
  "update_and_get_finished_store wa =
     (let safe_finished_s = wa_finished_stores wa \<inter> wa_previously_finished wa
      in (wa\<lparr>wa_finished_stores := wa_finished_stores wa - wa_previously_finished wa,
             wa_previously_finished := wa_previously_finished wa - safe_finished_s\<rparr>, safe_finished_s))"

definition get_finished :: "(bytes \<Rightarrow> bool) \<Rightarrow> string set \<Rightarrow> (LMCacheMPWorkerAdapter, string set \<times> string set) action" where
  "get_finished event_query finished_req_ids_from_engine wa =
     (case poll_futures event_query (\<lambda>_. True) (wa_mq_client wa) (wa_store_futures wa) of
        (stores, Inl e) \<Rightarrow> (wa\<lparr>wa_store_futures := stores\<rparr>, Inl e)
      | (stores, Inr finished_stores) \<Rightarrow>
          (case poll_futures event_query (\<lambda>v. case v of OList _ \<Rightarrow> True | _ \<Rightarrow> False) (wa_mq_client wa) (wa_retrieve_futures wa) of
             (retrieves, Inl e) \<Rightarrow> (wa\<lparr>wa_store_futures := stores, wa_retrieve_futures := retrieves\<rparr>, Inl e)
           | (retrieves, Inr finished_retrieves) \<Rightarrow>
               let wa1 = wa\<lparr>wa_store_futures := filter (\<lambda>(r, _). r \<notin> finished_stores) stores,
                            wa_retrieve_futures := filter (\<lambda>(r, _). r \<notin> finished_retrieves) retrieves,
                            wa_finished_stores := wa_finished_stores wa \<union> finished_stores\<rparr>;
                   known = (\<lambda>r. r \<in> wa_finished_stores wa1 \<or> r \<in> fst ` set (wa_store_futures wa1));
                   wa2 = wa1\<lparr>wa_previously_finished := wa_previously_finished wa1 \<union> {r \<in> finished_req_ids_from_engine. known r}\<rparr>;
                   ret_stores = {r \<in> finished_req_ids_from_engine. \<not> known r}
               in (case update_and_get_finished_store wa2 of
                     (wa3, safe) \<Rightarrow> (wa3, Inr (ret_stores \<union> safe, finished_retrieves)))))"

definition num_blocks_per_chunk :: "LMCacheMPWorkerAdapter \<Rightarrow> int" where
  "num_blocks_per_chunk wa = wa_blocks_in_chunk wa"

definition WorkerAdapter_shutdown :: "await \<Rightarrow> (LMCacheMPWorkerAdapter, unit) action" where
  "WorkerAdapter_shutdown await wa =
     (case send_and_wait await UNREGISTER_KV_CACHE [OInt (wa_instance_id wa)] (wa_mq_client wa) of
        (cl, r) \<Rightarrow> (wa\<lparr>wa_mq_client := cl\<rparr>, bind_result r (\<lambda>_. Inr ())))"

section \<open>Chunk hashes\<close>

lemma islice_nth: "0 < step \<Longrightarrow> islice xs skip step = map (\<lambda>i. xs ! (skip + i * step)) [0..<(length xs + step - 1 - skip) div step]"
proof (induction xs skip step rule: islice.induct)
  case (2 x xs step)
  have "[0..<(length (x # xs) + step - 1 - 0) div step] = 0 # map Suc [0..<(length xs + step - 1 - (step - 1)) div step]"
    using 2 by (simp add: map_Suc_upt upt_conv_Cons div_add_self1)
  moreover have "(x # xs) ! (0 + Suc i * step) = xs ! (step - 1 + i * step)" for i using 2 by (simp add: nth_Cons')
  ultimately show ?case using 2 by simp
next
  case (3 x xs skip step)
  then show ?case by simp
qed simp

text \<open>The hashes of a request are those of the last blocks of its full chunks.\<close>

lemma striding_exact:
  assumes "0 < k"
  shows "striding_block_hashes bs (int k) = Inr (map (\<lambda>i. bs ! (i * k + (k - 1))) [0..<length bs div k])"
  using assms islice_nth [OF assms, of bs "k - 1"] by (simp add: striding_block_hashes_def add.commute)

section \<open>Reported requests\<close>

definition future_keys :: "cuda_futures \<Rightarrow> (string \<times> nat \<times> string list) list" where
  "future_keys fs = map (\<lambda>(r, (u, f), os). (r, u, os)) fs"

definition future_done :: "(bytes \<Rightarrow> bool) \<Rightarrow> client \<Rightarrow> nat \<times> CUDAMessagingFuture \<Rightarrow> bool" where
  "future_done event_query cl uf =
     (case uf of (uid, f) \<Rightarrow>
        (case CUDAMessagingFuture_query event_query (f\<lparr>cf_raw_future := future_of cl uid\<rparr>) of Inl e \<Rightarrow> False | Inr (f1, happened) \<Rightarrow> happened))"

text \<open>The requests whose store has finished: the server has answered and the CUDA event has happened.\<close>

definition stores_done :: "(bytes \<Rightarrow> bool) \<Rightarrow> LMCacheMPWorkerAdapter \<Rightarrow> string set" where
  "stores_done event_query wa = {r. \<exists>uf os. (r, uf, os) \<in> set (wa_store_futures wa) \<and> future_done event_query (wa_mq_client wa) uf}"

lemma poll_keys: "poll_futures eq it cl fs = (fs', r) \<Longrightarrow> future_keys fs' = future_keys fs"
  by (induction eq it cl fs arbitrary: fs' r rule: poll_futures.induct)
    (auto simp: future_keys_def split: sum.splits prod.splits if_splits)

lemma poll_keys_only: "poll_futures eq it cl fs = (fs', r) \<Longrightarrow> map fst fs' = map fst fs"
proof -
  assume "poll_futures eq it cl fs = (fs', r)"
  then have k: "future_keys fs' = future_keys fs" by (rule poll_keys)
  have f: "map fst fs = map fst (future_keys fs)" for fs by (auto simp: future_keys_def)
  show ?thesis unfolding f k ..
qed

lemma poll_singles:
  assumes "poll_futures eq it cl fs = (fs', res)" and "\<And>r uf os. (r, uf, os) \<in> set fs \<Longrightarrow> os = []" and "(r, uf, os) \<in> set fs'"
  shows "os = []"
proof -
  have "(\<lambda>(r, (u, f), os). (r, u, os)) (r, uf, os) \<in> set (future_keys fs')" unfolding future_keys_def set_map using assms(3) by (rule imageI)
  then show ?thesis unfolding poll_keys [OF assms(1)] using assms(2) by (cases uf) (auto simp: future_keys_def)
qed

lemma poll_finished:
  "poll_futures eq it cl fs = (fs', Inr fin) \<Longrightarrow>
   fin = (\<Union>(r, uf, os) \<in> set (filter (\<lambda>(r, uf, os). future_done eq cl uf) fs). insert r (set os))"
proof (induction eq it cl fs arbitrary: fs' fin rule: poll_futures.induct)
  case (2 eq it cl r uid f os fs)
  show ?case
  proof (cases "future_done eq cl (uid, f)")
    case True
    then obtain fs1 fin1 where 1: "poll_futures eq it cl fs = (fs1, Inr fin1)" and fin: "fin = insert r (set os) \<union> fin1"
      using 2(3) by (auto simp: future_done_def bind_result_def split: sum.splits prod.splits if_splits)
    have "fin1 = (\<Union>(r, uf, os) \<in> set (filter (\<lambda>(r, uf, os). future_done eq cl uf) fs). insert r (set os))"
      using 2(2) 2(3) 1 True by (auto simp: future_done_def bind_result_def split: sum.splits prod.splits if_splits)
    then show ?thesis using True by (simp add: fin)
  next
    case False
    then obtain fs1 where 1: "poll_futures eq it cl fs = (fs1, Inr fin)"
      using 2(3) by (auto simp: future_done_def split: sum.splits prod.splits if_splits)
    have "fin = (\<Union>(r, uf, os) \<in> set (filter (\<lambda>(r, uf, os). future_done eq cl uf) fs). insert r (set os))"
      using 2(1) 2(3) 1 False by (auto simp: future_done_def split: sum.splits prod.splits if_splits)
    then show ?thesis using False by simp
  qed
qed simp

text \<open>
  Histories of the adapter in which a request has at most one store, which is not sent in a batch
  and not after vLLM has reported the request. The client thread may change the client at any
  time. \<open>S\<close> are the requests with a store, \<open>D\<close> those whose store was seen done, \<open>E\<close> those that
  vLLM has reported, and \<open>R\<close> those that the adapter has reported.
\<close>

inductive adapter_run ::
  "LMCacheMPWorkerAdapter \<Rightarrow> string set \<Rightarrow> string set \<Rightarrow> string set \<Rightarrow> string set \<Rightarrow> bool"
where
  start: "wa_store_futures wa = [] \<Longrightarrow> wa_finished_stores wa = {} \<Longrightarrow> wa_previously_finished wa = {} \<Longrightarrow> adapter_run wa {} {} {} {}"
| store: "adapter_run wa S D E R \<Longrightarrow> r \<notin> S \<union> E \<Longrightarrow> submit_store_request r op ev wa = (wa', Inr ()) \<Longrightarrow> adapter_run wa' (insert r S) D E R"
| retrieve: "adapter_run wa S D E R \<Longrightarrow> submit_retrieve_request r op ev wa = (wa', Inr ()) \<Longrightarrow> adapter_run wa' S D E R"
| retrieves: "adapter_run wa S D E R \<Longrightarrow> batched_submit_retrieve_requests rs ops ev wa = (wa', Inr ()) \<Longrightarrow> adapter_run wa' S D E R"
| thread: "adapter_run wa S D E R \<Longrightarrow> adapter_run (wa\<lparr>wa_mq_client := cl\<rparr>) S D E R"
| poll: "adapter_run wa S D E R \<Longrightarrow> get_finished event_query engine wa = (wa', Inr (rs, rr)) \<Longrightarrow>
    adapter_run wa' S (D \<union> stores_done event_query wa) (E \<union> engine) (R \<union> rs)"
| poll_raises: "adapter_run wa S D E R \<Longrightarrow> get_finished event_query engine wa = (wa', Inl e) \<Longrightarrow> adapter_run wa' S D E R"

definition adapter_inv :: "LMCacheMPWorkerAdapter \<Rightarrow> string set \<Rightarrow> string set \<Rightarrow> string set \<Rightarrow> string set \<Rightarrow> bool" where
  "adapter_inv wa S D E R \<longleftrightarrow>
     fst ` set (wa_store_futures wa) = S - D \<and> distinct (map fst (wa_store_futures wa)) \<and> (\<forall>(r, uf, os) \<in> set (wa_store_futures wa). os = []) \<and>
     wa_finished_stores wa = D - R \<and> wa_previously_finished wa = E \<inter> S - R \<and> D \<subseteq> S \<and> R \<subseteq> E \<and> S \<inter> R \<subseteq> D"

text \<open>A poll in terms of the sets.\<close>

lemma get_finished_step:
  assumes poll: "get_finished event_query engine wa = (wa', Inr (rs, rr))"
    and st: "poll_futures event_query (\<lambda>_. True) (wa_mq_client wa) (wa_store_futures wa) = (stores, Inr fin)"
    and stores': "stores' = filter (\<lambda>(r, _). r \<notin> fin) stores" and known: "known = wa_finished_stores wa \<union> fin \<union> fst ` set stores'"
  shows "wa_store_futures wa' = stores'" and "wa_finished_stores wa' = (wa_finished_stores wa \<union> fin) - (wa_previously_finished wa \<union> (engine \<inter> known))"
    and "wa_previously_finished wa' = (wa_previously_finished wa \<union> (engine \<inter> known)) - (wa_finished_stores wa \<union> fin)"
    and "rs = (engine - known) \<union> ((wa_finished_stores wa \<union> fin) \<inter> (wa_previously_finished wa \<union> (engine \<inter> known)))"
proof -
  obtain retrieves fr where rt: "poll_futures event_query (\<lambda>v. case v of OList _ \<Rightarrow> True | _ \<Rightarrow> False) (wa_mq_client wa) (wa_retrieve_futures wa) = (retrieves, Inr fr)"
    using poll unfolding get_finished_def st by (auto split: prod.splits sum.splits)
  have eq: "wa' = wa\<lparr>wa_store_futures := stores', wa_retrieve_futures := filter (\<lambda>(r, _). r \<notin> fr) retrieves,
        wa_finished_stores := (wa_finished_stores wa \<union> fin) - (wa_previously_finished wa \<union> {r \<in> engine. r \<in> known}),
        wa_previously_finished := (wa_previously_finished wa \<union> {r \<in> engine. r \<in> known}) - ((wa_finished_stores wa \<union> fin) \<inter> (wa_previously_finished wa \<union> {r \<in> engine. r \<in> known}))\<rparr>"
    "rs = {r \<in> engine. r \<notin> known} \<union> ((wa_finished_stores wa \<union> fin) \<inter> (wa_previously_finished wa \<union> {r \<in> engine. r \<in> known}))"
    using poll unfolding get_finished_def st rt known stores' by (clarsimp simp: Let_def update_and_get_finished_store_def)+
  show "wa_store_futures wa' = stores'" "wa_finished_stores wa' = (wa_finished_stores wa \<union> fin) - (wa_previously_finished wa \<union> (engine \<inter> known))"
    "wa_previously_finished wa' = (wa_previously_finished wa \<union> (engine \<inter> known)) - (wa_finished_stores wa \<union> fin)" unfolding eq(1) by auto
  show "rs = (engine - known) \<union> ((wa_finished_stores wa \<union> fin) \<inter> (wa_previously_finished wa \<union> (engine \<inter> known)))" unfolding eq(2) by auto
qed

text \<open>A poll in terms of the sets.\<close>

lemma poll_exact:
  assumes inv: "adapter_inv wa S D E R" and poll: "get_finished event_query engine wa = (wa', Inr (rs, rr))"
  shows "rs = (engine - S) \<union> (engine \<inter> R) \<union> ((D \<union> stores_done event_query wa) \<inter> (E \<union> engine) - R)"
    and "adapter_inv wa' S (D \<union> stores_done event_query wa) (E \<union> engine) (R \<union> rs)"
proof -
  let ?fs = "wa_store_futures wa" and ?N = "stores_done event_query wa"
  obtain stores fin where st: "poll_futures event_query (\<lambda>_. True) (wa_mq_client wa) ?fs = (stores, Inr fin)"
    using poll by (auto simp: get_finished_def split: prod.splits sum.splits)
  have os: "(r, uf, os) \<in> set ?fs \<Longrightarrow> os = []" for r uf os using inv by (auto simp: adapter_inv_def)
  have fin: "fin = ?N" unfolding poll_finished [OF st] stores_done_def using os by fastforce
  note keys = poll_keys_only [OF st] poll_singles [OF st os]
  define stores' where "stores' = filter (\<lambda>(r, _). r \<notin> ?N) stores"
  have S: "fst ` set ?fs = S - D" "wa_finished_stores wa = D - R" "wa_previously_finished wa = E \<inter> S - R" "D \<subseteq> S" "R \<subseteq> E" "S \<inter> R \<subseteq> D"
    using inv by (simp_all add: adapter_inv_def)
  have NS: "?N \<subseteq> S - D"
  proof
    fix r assume "r \<in> ?N"
    then obtain uf os where "(r, uf, os) \<in> set ?fs" unfolding stores_done_def by blast
    then have "fst (r, uf, os) \<in> fst ` set ?fs" by (rule imageI)
    then show "r \<in> S - D" unfolding S(1) by simp
  qed
  have fs': "fst ` set stores' = S - (D \<union> ?N)"
  proof -
    have "fst ` set stores' = fst ` set stores - ?N" by (force simp: stores'_def)
    also have "fst ` set stores = S - D" unfolding S(1) [symmetric] set_map [symmetric] keys(1) ..
    finally show ?thesis by blast
  qed
  define known where "known = wa_finished_stores wa \<union> ?N \<union> fst ` set stores'"
  have known: "known = S - R" unfolding known_def S(2) fs' using NS S(4,6) by blast
  note step = get_finished_step [OF poll st, unfolded fin, OF stores'_def known_def, unfolded known S(2,3)]
  show rs: "rs = (engine - S) \<union> (engine \<inter> R) \<union> ((D \<union> ?N) \<inter> (E \<union> engine) - R)"
    unfolding step(4) using NS S(4-6) by blast
  have "distinct (map fst stores')" using inv keys(1) unfolding stores'_def adapter_inv_def by (metis distinct_map_filter)
  moreover have "\<forall>(r, uf, os) \<in> set stores'. os = []" using keys(2) by (auto simp: stores'_def)
  moreover have "(D - R) \<union> ?N - (E \<inter> S - R \<union> (engine \<inter> (S - R))) = D \<union> ?N - (R \<union> rs)"
    "(E \<inter> S - R \<union> (engine \<inter> (S - R))) - ((D - R) \<union> ?N) = (E \<union> engine) \<inter> S - (R \<union> rs)"
    "D \<union> ?N \<subseteq> S" "R \<union> rs \<subseteq> E \<union> engine" "S \<inter> (R \<union> rs) \<subseteq> D \<union> ?N"
    unfolding rs using NS S(4-6) by blast+
  ultimately show "adapter_inv wa' S (D \<union> ?N) (E \<union> engine) (R \<union> rs)"
    unfolding adapter_inv_def step(1-3) fs' by blast
qed

lemma adapter_inv_other:
  "adapter_inv (wa\<lparr>wa_mq_client := cl, wa_retrieve_futures := rf\<rparr>) S D E R = adapter_inv wa S D E R"
  "adapter_inv (wa\<lparr>wa_mq_client := cl\<rparr>) S D E R = adapter_inv wa S D E R"
  by (simp_all add: adapter_inv_def)

lemma run_inv: "adapter_run wa S D E R \<Longrightarrow> adapter_inv wa S D E R"
proof (induction rule: adapter_run.induct)
  case (store wa S D E R r op ev wa')
  then obtain cl uf where wa': "wa' = wa\<lparr>wa_mq_client := cl, wa_store_futures := AList.update r (uf, []) (wa_store_futures wa)\<rparr>"
    by (auto simp: submit_store_request_def split: sum.splits prod.splits)
  have "r \<notin> fst ` set (wa_store_futures wa)" using store by (auto simp: adapter_inv_def)
  then have "AList.update r (uf, []) (wa_store_futures wa) = wa_store_futures wa @ [(r, uf, [])]" by (rule update_new)
  then show ?case using store(2,4) unfolding wa' adapter_inv_def by (auto simp: image_iff)
next
  case (retrieve wa S D E R r op ev wa')
  then obtain cl rf where "wa' = wa\<lparr>wa_mq_client := cl, wa_retrieve_futures := rf\<rparr>"
    by (auto simp: submit_retrieve_request_def split: sum.splits prod.splits)
  then show ?case using retrieve(3) adapter_inv_other by simp
next
  case (retrieves wa S D E R rs ops ev wa')
  then obtain cl rf where "wa' = wa\<lparr>wa_mq_client := cl, wa_retrieve_futures := rf\<rparr>"
    by (auto simp: batched_submit_retrieve_requests_def split: sum.splits prod.splits list.splits)
  then show ?case using retrieves(3) adapter_inv_other by simp
next
  case (poll wa S D E R event_query engine wa' rs rr)
  then show ?case using poll_exact(2) by blast
next
  case (poll_raises wa S D E R event_query engine wa' e)
  obtain stores r where st: "poll_futures event_query (\<lambda>_. True) (wa_mq_client wa) (wa_store_futures wa) = (stores, r)" by fastforce
  obtain retrieves where wa': "wa' = wa\<lparr>wa_store_futures := stores, wa_retrieve_futures := retrieves\<rparr>"
  proof -
    have "\<exists>retrieves. wa' = wa\<lparr>wa_store_futures := stores, wa_retrieve_futures := retrieves\<rparr>"
      using poll_raises(2) unfolding get_finished_def st
      by (intro exI [of _ "wa_retrieve_futures wa'"]) (auto simp: Let_def split: sum.splits prod.splits)
    then show ?thesis using that by blast
  qed
  have os: "(r, uf, os) \<in> set (wa_store_futures wa) \<Longrightarrow> os = []" for r uf os using poll_raises(3) by (auto simp: adapter_inv_def)
  note keys = poll_keys_only [OF st]
  have "fst ` set stores = fst ` set (wa_store_futures wa)" unfolding set_map [symmetric] keys ..
  moreover have "distinct (map fst stores)" unfolding keys using poll_raises(3) by (simp add: adapter_inv_def)
  moreover have "\<forall>(r, uf, os) \<in> set stores. os = []" using poll_singles [OF st] os by blast
  ultimately show ?case using poll_raises(3) unfolding wa' adapter_inv_def by simp
qed (simp_all add: adapter_inv_other, simp add: adapter_inv_def)

section \<open>Stores that are still running\<close>

definition store_running :: "(bytes \<Rightarrow> bool) \<Rightarrow> LMCacheMPWorkerAdapter \<Rightarrow> string \<Rightarrow> bool" where
  "store_running event_query wa r \<longleftrightarrow>
     (\<exists>r' uf os. (r', uf, os) \<in> set (wa_store_futures wa) \<and> r \<in> insert r' (set os) \<and> \<not> future_done event_query (wa_mq_client wa) uf)"

lemma submitted_pending:
  assumes "map fst (cl_futures cl) = [0..<cl_request_counter cl]" and "send_lmcache_request rt ps cl = (cl', uid)"
  shows "\<not> future_done event_query cl' (uid, CUDAMessagingFuture_init (future_of cl' uid))"
proof -
  have "uid = cl_request_counter cl" "cl_futures cl' = cl_futures cl @ [(uid, MessagingFuture_init)]"
    using assms(2) by (auto simp: send_lmcache_request_def submit_request_def Let_def)
  moreover have "map_of (cl_futures cl) (cl_request_counter cl) = None"
    using arg_cong [OF assms(1), of set] by (simp add: map_of_eq_None_iff)
  ultimately have "future_of cl' uid = MessagingFuture_init" by (simp add: future_of_def map_add_def)
  then show ?thesis by (simp add: future_done_def CUDAMessagingFuture_query_def CUDAMessagingFuture_init_def MessagingFuture_query_def MessagingFuture_init_def)
qed

lemma reported_known:
  assumes "get_finished event_query engine wa = (wa', Inr (rs, rr))" and "r \<in> engine"
    and "r \<in> wa_finished_stores wa \<or> r \<notin> fst ` set (wa_store_futures wa)"
  shows "r \<in> rs"
proof -
  obtain stores fin where st: "poll_futures event_query (\<lambda>_. True) (wa_mq_client wa) (wa_store_futures wa) = (stores, Inr fin)"
    using assms(1) by (auto simp: get_finished_def split: prod.splits sum.splits)
  define stores' where "stores' = filter (\<lambda>(r, _). r \<notin> fin) stores"
  have "fst ` set stores' \<subseteq> fst ` set stores" unfolding stores'_def by auto
  also have "fst ` set stores = fst ` set (wa_store_futures wa)" unfolding set_map [symmetric] poll_keys_only [OF st] ..
  finally show ?thesis using assms(2,3) unfolding get_finished_step(4) [OF assms(1) st stores'_def refl] by blast
qed

section \<open>What the server gets\<close>

lemma map_result_inverse: "(\<And>x. f (g x) = Inr x) \<Longrightarrow> map_result f (map g xs) = Inr xs"
  by (induction xs) simp_all

lemma transfer_args_payloads: "transfer_args (transfer_payloads wa keys blocks ev) = Inr (keys, wa_instance_id wa, blocks)"
  by (simp add: transfer_args_def transfer_payloads_def arg_list_def arg_key_def arg_int_def map_result_inverse)

text \<open>The adapters of one worker of a model, in hash mode.\<close>

definition worker_of :: "string \<Rightarrow> int \<Rightarrow> LMCacheMPWorkerAdapter \<Rightarrow> bool" where
  "worker_of model inst wa \<longleftrightarrow> wa_model_name wa = model \<and> wa_instance_id wa = inst \<and> wa_world_size wa = 1 \<and> wa_worker_id wa = 0"

definition hash_op :: "LMCacheMPWorkerAdapter \<Rightarrow> bytes list \<Rightarrow> int list \<Rightarrow> LoadStoreOp \<Rightarrow> bool" where
  "hash_op wa hs blocks op \<longleftrightarrow> op_block_ids op = blocks \<and> (\<exists>bs. op_block_hashes op = Some bs \<and> striding_block_hashes bs (wa_blocks_in_chunk wa) = Inr hs)"

lemma worker_op_keys:
  assumes "worker_of model inst wa" and "hash_op wa hs blocks op"
  shows "op_keys wa rid op = Inr (map (chunk_key model (Some rid)) hs)"
  using assms by (auto simp: op_keys_def worker_of_def hash_op_def WorkerAdapter_create_hash_key_def chunk_key_def)

lemma store_submitted:
  assumes "worker_of model inst wa" and "hash_op wa hs blocks op"
  shows "\<exists>wa1 uid ps. submit_store_request rid op ev wa = (wa1, Inr ()) \<and> last (cl_input_queue (wa_mq_client wa1)) = (uid, STORE, ps) \<and>
    transfer_args ps = Inr (map (chunk_key model (Some rid)) hs, inst, blocks)"
  using assms transfer_args_payloads
  by (auto simp: submit_store_request_def worker_op_keys [OF assms] send_lmcache_request_def submit_request_def Let_def worker_of_def hash_op_def)

lemma retrieve_submitted:
  assumes "worker_of model inst wa" and "hash_op wa hs blocks op"
  shows "\<exists>wa1 uid ps. submit_retrieve_request rid op ev wa = (wa1, Inr ()) \<and> last (cl_input_queue (wa_mq_client wa1)) = (uid, RETRIEVE, ps) \<and>
    transfer_args ps = Inr (map (chunk_key model (Some rid)) hs, inst, blocks)"
  using assms transfer_args_payloads
  by (auto simp: submit_retrieve_request_def worker_op_keys [OF assms] send_lmcache_request_def submit_request_def Let_def worker_of_def hash_op_def)

definition scheduler_of :: "string \<Rightarrow> bytes list \<Rightarrow> bytes list \<Rightarrow> LMCacheMPSchedulerAdapter \<Rightarrow> bool" where
  "scheduler_of model bs hs sa \<longleftrightarrow> sa_model_name sa = model \<and> sa_world_size sa = 1 \<and> striding_block_hashes bs (sa_blocks_in_chunk sa) = Inr hs \<and>
     map fst (cl_futures (sa_mq_client sa)) = [0..<cl_request_counter (sa_mq_client sa)]"

lemma lookup_submitted:
  assumes "scheduler_of model bs hs sa" and "rid \<notin> fst ` set (sa_lookup_futures sa)"
  shows "\<exists>sa1 uid ps. maybe_submit_lookup_request rid (Some bs) None sa = Inr sa1 \<and> last (cl_input_queue (sa_mq_client sa1)) = (uid, LOOKUP, [ps]) \<and>
    arg_list arg_key ps = Inr (map (\<lambda>h. no_worker_id_version (chunk_key model (Some rid) h)) hs) \<and>
    check_lookup_result rid sa1 = Inr None \<and>
    check_lookup_result rid (sa1\<lparr>sa_mq_client := set_future uid (OInt n) (sa_mq_client sa1)\<rparr>) = Inr (Some (n * sa_chunk_size sa))"
proof -
  let ?cl = "sa_mq_client sa" and ?keys = "map (\<lambda>h. no_worker_id_version (chunk_key model (Some rid) h)) hs"
  define sa1 where "sa1 = submit_lookup rid ?keys sa"
  have keys: "map (\<lambda>ch. SchedulerAdapter_create_hash_key sa ch rid) hs = ?keys"
    using assms(1) by (simp add: SchedulerAdapter_create_hash_key_def scheduler_of_def chunk_key_def hash_key_def no_worker_id_version_def)
  have "maybe_submit_lookup_request rid (Some bs) None sa = Inr sa1"
    using assms unfolding maybe_submit_lookup_request_def sa1_def keys [symmetric] by (simp add: scheduler_of_def)
  moreover have f: "cl_futures (sa_mq_client sa1) = cl_futures ?cl @ [(cl_request_counter ?cl, MessagingFuture_init)]"
    "sa_lookup_futures sa1 = AList.update rid (cl_request_counter ?cl) (sa_lookup_futures sa)" "sa_chunk_size sa1 = sa_chunk_size sa"
    "last (cl_input_queue (sa_mq_client sa1)) = (cl_request_counter ?cl, LOOKUP, [OList (map OKey ?keys)])"
    by (simp_all add: sa1_def submit_lookup_def send_lmcache_request_def submit_request_def Let_def)
  moreover have new: "map_of (cl_futures ?cl) (cl_request_counter ?cl) = None"
    using arg_cong [OF conjunct2 [OF conjunct2 [OF conjunct2 [OF assms(1) [unfolded scheduler_of_def]]]], of set] by (simp add: map_of_eq_None_iff)
  moreover have "map_of (map (\<lambda>(u, f). (u, if u = cl_request_counter ?cl then set_result (OInt n) f else f)) (cl_futures ?cl)) (cl_request_counter ?cl) = None"
    using new by (simp add: map_of_eq_None_iff image_image case_prod_unfold)
  ultimately show ?thesis
    by (intro exI [of _ sa1] exI [of _ "cl_request_counter ?cl"] exI [of _ "OList (map OKey ?keys)"])
      (simp add: check_lookup_result_def update_conv' future_of_def map_add_def set_future_def set_result_def MessagingFuture_init_def MessagingFuture_query_def
        MessagingFuture_get_result_def MessagingFuture_wait_def arg_int_def arg_list_def arg_key_def map_result_inverse del: map_map)
qed

section \<open>Properties\<close>

text \<open>
  Property C1. From serving process to serving process through the cache server. A worker submits a store
  in hash mode; the STORE handler, run on the queued payloads, answers success. The scheduler of
  another process submits a lookup with its own block hashes; the LOOKUP handler, run after the
  host function of the store, answers the number of chunks, and the adapter then reports
  that many chunks of tokens, and nothing before. A worker of that process submits a
  retrieve; the RETRIEVE handler answers success for every chunk. Every word of every layer of its
  blocks then is the word that the first worker had in its blocks. Block sizes may differ.
\<close>

theorem serving_store_lookup_retrieve:
  assumes ok: "l1_ok S T (sm_l1_manager (mp_storage_manager eng))"
    and lazy: "l1_allocator eng = LazyAlloc lz w" "lz_final_size lz < 2 ^ 63"
    and nt: "no_temporary (l1_objects (sm_l1_manager (mp_storage_manager eng)))" and st: "mp_streams eng = []" and cs: "cs = mp_chunk_size eng"
    and gc: "map_of (mp_gpu_contexts eng) inst = Some gc" "map_of (mp_gpu_contexts eng) inst' = Some gc'" "same_geometry gc gc'"
    and rq: "cache_request T cs gc blocks (length hs)" "cache_request T cs gc' blocks' (length hs)" "distinct blocks'"
    and hs: "distinct hs" "hs \<noteq> []" "\<forall>h \<in> set hs. get_object_state (chunk_object model h) (sm_l1_manager (mp_storage_manager eng)) = None"
    and cuda: "\<forall>idx. \<not> cuda_raises cuda idx"
    and al: "L1MemoryManager_allocate S T (store_layout cs gc) (int (length hs)) (l1_allocator eng) = Inr (a, SUCCESS, ids)"
    and ttl: "wttl = l1_write_ttl_seconds (sm_l1_manager (mp_storage_manager eng))" "wttl \<noteq> 0"
      "rttl = l1_read_ttl_seconds (sm_l1_manager (mp_storage_manager eng))" "rttl \<noteq> 0"
    and t: "time_ok t0" "sint t0 \<le> sint t1" "sint t1 < sint t0 + 1000 * uint wttl"
      "time_ok t2" "sint t2 \<le> sint t3" "sint t3 < sint t2 + 1000 * uint rttl"
    and worker: "worker_of model inst wa" "hash_op wa hs blocks op"
    and other: "worker_of model inst' wa'" "hash_op wa' hs blocks' op'"
    and scheduler: "scheduler_of model bs hs sa" "rid' \<notin> fst ` set (sa_lookup_futures sa)"
  shows "\<exists>wa1 u1 ps1 E1 sa1 u2 ps2 E3 wa2 u3 ps3 E4.
     submit_store_request rid op ev wa = (wa1, Inr ()) \<and> last (cl_input_queue (wa_mq_client wa1)) = (u1, STORE, ps1) \<and>
     handle_store S T cuda ipc (t0, t0') ps1 eng = (E1, Inr (OTuple [OBytes ipc, OBool True])) \<and>
     maybe_submit_lookup_request rid' (Some bs) None sa = Inr sa1 \<and> last (cl_input_queue (sa_mq_client sa1)) = (u2, LOOKUP, ps2) \<and>
     handle_lookup S (t2, t2') ps2 (run_host_func S t1 E1) = (E3, Inr (OInt (int (length hs)))) \<and> check_lookup_result rid' sa1 = Inr None \<and>
     check_lookup_result rid' (sa1\<lparr>sa_mq_client := set_future u2 (OInt (int (length hs))) (sa_mq_client sa1)\<rparr>) =
       Inr (Some (int (length hs) * sa_chunk_size sa)) \<and>
     submit_retrieve_request rid' op' ev' wa' = (wa2, Inr ()) \<and> last (cl_input_queue (wa_mq_client wa2)) = (u3, RETRIEVE, ps3) \<and>
     handle_retrieve S T cuda ipc (t3, t4) ps3 E3 = (E4, Inr (OTuple [OBytes ipc, OList (replicate (length hs) (OBool True))])) \<and>
     (\<forall>idx < length hs. \<forall>c \<in> chunk_cells T cs gc.
        mp_devices E4 inst' (cell_addr T cs gc' (chunk_slots cs (block_slots gc' blocks') idx) c) =
        mp_devices eng inst (cell_addr T cs gc (chunk_slots cs (block_slots gc blocks) idx) c))"
proof -
  note core = store_lookup_retrieve [OF ok lazy nt st cs gc rq hs cuda al ttl t t(5,6), of "Some rid" t2' "Some rid'" t4]
  obtain E1 E3 E4 where
      E1: "MPCacheEngine_store S T cuda t0 (map (chunk_key model (Some rid)) hs) inst blocks eng = (E1, Inr True)"
    and E3: "MPCacheEngine_lookup S t2 t2' (map (\<lambda>h. no_worker_id_version (chunk_key model (Some rid') h)) hs) (run_host_func S t1 E1) = (E3, Inr (int (length hs)))"
    and E4: "MPCacheEngine_retrieve S T cuda t3 t4 (map (chunk_key model (Some rid')) hs) inst' blocks' E3 = (E4, Inr (replicate (length hs) True))"
    and words: "\<forall>idx < length hs. \<forall>c \<in> chunk_cells T cs gc.
        mp_devices E4 inst' (cell_addr T cs gc' (chunk_slots cs (block_slots gc' blocks') idx) c) =
        mp_devices eng inst (cell_addr T cs gc (chunk_slots cs (block_slots gc blocks) idx) c)"
    using core by blast
  obtain wa1 u1 ps1 where w1: "submit_store_request rid op ev wa = (wa1, Inr ())" "last (cl_input_queue (wa_mq_client wa1)) = (u1, STORE, ps1)"
      "transfer_args ps1 = Inr (map (chunk_key model (Some rid)) hs, inst, blocks)"
    using store_submitted [OF worker] by blast
  obtain wa2 u3 ps3 where w2: "submit_retrieve_request rid' op' ev' wa' = (wa2, Inr ())" "last (cl_input_queue (wa_mq_client wa2)) = (u3, RETRIEVE, ps3)"
      "transfer_args ps3 = Inr (map (chunk_key model (Some rid')) hs, inst', blocks')"
    using retrieve_submitted [OF other] by blast
  obtain sa1 u2 ps2 where s1: "maybe_submit_lookup_request rid' (Some bs) None sa = Inr sa1" "last (cl_input_queue (sa_mq_client sa1)) = (u2, LOOKUP, [ps2])"
      "arg_list arg_key ps2 = Inr (map (\<lambda>h. no_worker_id_version (chunk_key model (Some rid') h)) hs)" "check_lookup_result rid' sa1 = Inr None"
      "check_lookup_result rid' (sa1\<lparr>sa_mq_client := set_future u2 (OInt (int (length hs))) (sa_mq_client sa1)\<rparr>) = Inr (Some (int (length hs) * sa_chunk_size sa))"
    using lookup_submitted [OF scheduler] by blast
  have "handle_store S T cuda ipc (t0, t0') ps1 eng = (E1, Inr (OTuple [OBytes ipc, OBool True]))"
    by (simp add: handle_store_def call_engine_def w1(3) E1)
  moreover have "handle_lookup S (t2, t2') [ps2] (run_host_func S t1 E1) = (E3, Inr (OInt (int (length hs))))"
    by (simp add: handle_lookup_def call_engine_def s1(3) E3)
  moreover have "handle_retrieve S T cuda ipc (t3, t4) ps3 E3 = (E4, Inr (OTuple [OBytes ipc, OList (replicate (length hs) (OBool True))]))"
    by (simp add: handle_retrieve_def call_engine_def w2(3) E4)
  ultimately show ?thesis using w1(1,2) s1(1,2,4,5) w2(1,2) words by blast
qed


text \<open>
  Property C34. A request whose first store has finished and that sends a second one is reported
  as soon as vLLM reports it, although the second store is running and the server still copies the
  blocks of the request.
\<close>

theorem second_store_reported_early:
  assumes "map fst (cl_futures (wa_mq_client wa)) = [0..<cl_request_counter (wa_mq_client wa)]"
    and "r \<in> wa_finished_stores wa" and "submit_store_request r op ev wa = (wa1, Inr ())"
    and "get_finished event_query engine wa1 = (wa2, Inr (rs, rr))" and "r \<in> engine"
  shows "r \<in> rs \<and> store_running event_query wa1 r"
proof -
  obtain keys cl uid where k: "op_keys wa r op = Inr keys"
    and cl: "send_lmcache_request STORE (transfer_payloads wa keys (op_block_ids op) ev) (wa_mq_client wa) = (cl, uid)"
    and wa1: "wa1 = wa\<lparr>wa_mq_client := cl, wa_store_futures := AList.update r ((uid, CUDAMessagingFuture_init (future_of cl uid)), []) (wa_store_futures wa)\<rparr>"
    using assms(3) by (auto simp: submit_store_request_def split: sum.splits prod.splits)
  have "r \<in> rs" by (rule reported_known [OF assms(4,5)]) (simp add: wa1 assms(2))
  moreover have "map_of (wa_store_futures wa1) r = Some ((uid, CUDAMessagingFuture_init (future_of cl uid)), [])" by (simp add: wa1 update_conv')
  then have "(r, (uid, CUDAMessagingFuture_init (future_of cl uid)), []) \<in> set (wa_store_futures wa1)" by (rule map_of_SomeD)
  moreover have "\<not> future_done event_query (wa_mq_client wa1) (uid, CUDAMessagingFuture_init (future_of cl uid))"
    unfolding wa1 using submitted_pending [OF assms(1) cl] by simp
  ultimately show ?thesis unfolding store_running_def by blast
qed

text \<open>
  A request that is not the first of a batched store is reported as soon as vLLM
  reports it, although the store is running.
\<close>

lemma batched_store_reported_early:
  assumes "map fst (cl_futures (wa_mq_client wa)) = [0..<cl_request_counter (wa_mq_client wa)]"
    and "batched_submit_store_requests (r0 # others) ops ev wa = (wa1, Inr ())" and "r \<in> set others" and "r \<noteq> r0"
    and "r \<notin> fst ` set (wa_store_futures wa)"
    and "get_finished event_query engine wa1 = (wa2, Inr (rs, rr))" and "r \<in> engine"
  shows "r \<in> rs \<and> store_running event_query wa1 r"
proof -
  obtain keys bs cl uid where k: "batch_keys wa (r0 # others) ops = Inr (keys, bs)"
    and cl: "send_lmcache_request STORE (transfer_payloads wa keys bs ev) (wa_mq_client wa) = (cl, uid)"
    and wa1: "wa1 = wa\<lparr>wa_mq_client := cl, wa_store_futures := AList.update r0 ((uid, CUDAMessagingFuture_init (future_of cl uid)), others) (wa_store_futures wa)\<rparr>"
    using assms(2) by (auto simp: batched_submit_store_requests_def split: sum.splits prod.splits)
  have "r \<in> rs" by (rule reported_known [OF assms(6,7)]) (use assms(4,5) in \<open>simp add: wa1 dom_update\<close>)
  moreover have "map_of (wa_store_futures wa1) r0 = Some ((uid, CUDAMessagingFuture_init (future_of cl uid)), others)" by (simp add: wa1 update_conv')
  then have "(r0, (uid, CUDAMessagingFuture_init (future_of cl uid)), others) \<in> set (wa_store_futures wa1)" by (rule map_of_SomeD)
  moreover have "\<not> future_done event_query (wa_mq_client wa1) (uid, CUDAMessagingFuture_init (future_of cl uid))"
    unfolding wa1 using submitted_pending [OF assms(1) cl] by simp
  ultimately show ?thesis unfolding store_running_def using assms(3) by blast
qed

section \<open>Witnesses\<close>

definition demo_worker :: "int \<Rightarrow> int \<Rightarrow> LMCacheMPWorkerAdapter" where
  "demo_worker inst blocks_in_chunk =
     \<lparr>wa_mq_client = MessageQueueClient_init, wa_instance_id = inst, wa_kv_caches = [], wa_store_futures = [], wa_retrieve_futures = [],
      wa_finished_stores = {}, wa_previously_finished = {}, wa_model_name = ''m'', wa_world_size = 1, wa_worker_id = 0,
      wa_blocks_in_chunk = blocks_in_chunk\<rparr>"

definition demo_scheduler :: LMCacheMPSchedulerAdapter where
  "demo_scheduler =
     \<lparr>sa_mq_client = MessageQueueClient_init, sa_lookup_futures = [], sa_model_name = ''m'', sa_world_size = 1, sa_worker_id = 0,
      sa_chunk_size = 2, sa_blocks_in_chunk = 2\<rparr>"

definition demo_op :: "int list \<Rightarrow> bytes list \<Rightarrow> LoadStoreOp" where
  "demo_op blocks hashes = \<lparr>op_block_ids = blocks, op_token_ids = None, op_block_hashes = Some hashes, op_start = 0, op_end = 0\<rparr>"

text \<open>A worker that has sent a store for request \<open>r\<close>, and the same after the answer of the server.\<close>

definition demo_sent :: LMCacheMPWorkerAdapter where
  "demo_sent = fst (submit_store_request ''r'' (demo_op [3] [[1]]) [9] (demo_worker 7 1))"

definition demo_answered :: LMCacheMPWorkerAdapter where
  "demo_answered = demo_sent\<lparr>wa_mq_client := set_future 0 (OTuple [OBytes [5], OBool True]) (wa_mq_client demo_sent)\<rparr>"

lemmas demo_adapter_defs = demo_answered_def demo_sent_def demo_worker_def demo_op_def submit_store_request_def batched_submit_store_requests_def
  batch_keys_def op_keys_def striding_block_hashes_def send_lmcache_request_def submit_request_def MessageQueueClient_init_def Let_def
  set_future_def set_result_def future_of_def get_finished_def CUDAMessagingFuture_query_def CUDAMessagingFuture_get_result_def
  CUDAMessagingFuture_wait_def on_raw_future_complete_def CUDAMessagingFuture_init_def MessagingFuture_query_def MessagingFuture_get_result_def
  MessagingFuture_wait_def MessagingFuture_init_def update_and_get_finished_store_def future_done_def stores_done_def


theorem second_store_reported_early_witness:
  "\<exists>wa wa1 wa2 rs rr. get_finished (\<lambda>_. True) {} demo_answered = (wa, Inr ({}, {})) \<and>
     submit_store_request ''r'' (demo_op [4] [[2]]) [9] wa = (wa1, Inr ()) \<and>
     get_finished (\<lambda>_. True) {''r''} wa1 = (wa2, Inr (rs, rr)) \<and> ''r'' \<in> rs \<and> store_running (\<lambda>_. True) wa1 ''r''"
proof -
  obtain wa where wa: "get_finished (\<lambda>_. True) {} demo_answered = (wa, Inr ({}, {}))"
    "map fst (cl_futures (wa_mq_client wa)) = [0..<cl_request_counter (wa_mq_client wa)]" "''r'' \<in> wa_finished_stores wa"
    and eq: "wa = fst (get_finished (\<lambda>_. True) {} demo_answered)"
    by (simp add: demo_adapter_defs)
  obtain wa1 where wa1: "submit_store_request ''r'' (demo_op [4] [[2]]) [9] wa = (wa1, Inr ())" and eq1: "wa1 = fst (submit_store_request ''r'' (demo_op [4] [[2]]) [9] wa)"
    unfolding eq by (simp add: demo_adapter_defs)
  obtain wa2 rs rr where wa2: "get_finished (\<lambda>_. True) {''r''} wa1 = (wa2, Inr (rs, rr))"
    unfolding eq1 eq by (simp add: demo_adapter_defs)
  show ?thesis using second_store_reported_early [OF wa(2,3) wa1 wa2] wa(1) wa1 wa2 by blast
qed

theorem serving_store_lookup_retrieve_witness:
  "\<exists>wa1 u1 ps1 E1 sa1 u2 ps2 E3 wa2 u3 ps3 E4.
     submit_store_request ''a'' (demo_op [3, 0] [[1], [2]]) [9] (demo_worker 7 1) = (wa1, Inr ()) \<and>
     last (cl_input_queue (wa_mq_client wa1)) = (u1, STORE, ps1) \<and>
     handle_store insertion_list plain_torch (demo_cuda (\<lambda>_. False)) [8] (1000, 1001) ps1 (demo_engine []) = (E1, Inr (OTuple [OBytes [8], OBool True])) \<and>
     maybe_submit_lookup_request ''b'' (Some [[0], [1], [0], [2]]) None demo_scheduler = Inr sa1 \<and>
     last (cl_input_queue (sa_mq_client sa1)) = (u2, LOOKUP, ps2) \<and>
     handle_lookup insertion_list (3000, 3001) ps2 (run_host_func insertion_list 2000 E1) = (E3, Inr (OInt 2)) \<and>
     submit_retrieve_request ''b'' (demo_op [5, 1, 0, 7] [[0], [1], [0], [2]]) [9] (demo_worker 9 2) = (wa2, Inr ()) \<and>
     last (cl_input_queue (wa_mq_client wa2)) = (u3, RETRIEVE, ps3) \<and>
     handle_retrieve insertion_list plain_torch (demo_cuda (\<lambda>_. False)) [8] (4000, 4001) ps3 E3 = (E4, Inr (OTuple [OBytes [8], OList [OBool True, OBool True]])) \<and>
     mp_devices E4 9 (cell_addr plain_torch 2 (demo_context 8 1) [0, 7] (1, 0, 1, 0)) = (7, cell_addr plain_torch 2 (demo_context 4 2) [0, 1] (1, 0, 1, 0))"
proof -
  let ?e = "demo_engine []" and ?gc = "demo_context 4 2" and ?gc' = "demo_context 8 1" and ?hs = "[[1], [2]] :: bytes list"
  obtain lz w where lw: "l1_allocator ?e = LazyAlloc lz w" "lz_final_size lz < 2 ^ 63" using demo_engine_lazy by blast
  obtain a ids where al: "L1MemoryManager_allocate insertion_list plain_torch (store_layout 2 ?gc) (int (length ?hs)) (l1_allocator ?e) = Inr (a, SUCCESS, ids)"
    using demo_allocates by auto
  have l2: "length ?hs = 2" by simp
  have rq: "cache_request plain_torch 2 ?gc [3, 0] (length ?hs)" "cache_request plain_torch 2 ?gc' [5, 1, 0, 7] (length ?hs)"
    unfolding l2 by (rule demo_request)+
  have nt: "no_temporary (l1_objects (sm_l1_manager (mp_storage_manager ?e)))"
    "\<forall>h \<in> set ?hs. get_object_state (chunk_object ''m'' h) (sm_l1_manager (mp_storage_manager ?e)) = None"
    by (simp_all add: demo_engine_ok no_temporary_def get_object_state_def)
  have ops: "worker_of ''m'' 7 (demo_worker 7 1)" "worker_of ''m'' 9 (demo_worker 9 2)" "hash_op (demo_worker 7 1) ?hs [3, 0] (demo_op [3, 0] ?hs)"
    "hash_op (demo_worker 9 2) ?hs [5, 1, 0, 7] (demo_op [5, 1, 0, 7] [[0], [1], [0], [2]])" "scheduler_of ''m'' [[0], [1], [0], [2]] ?hs demo_scheduler"
    by (simp_all add: worker_of_def hash_op_def scheduler_of_def demo_worker_def demo_op_def demo_scheduler_def striding_block_hashes_def
        numeral_2_eq_2 MessageQueueClient_init_def)
  note main = serving_store_lookup_retrieve [OF demo_engine_ok(1) lw nt(1) demo_engine_simps(4) demo_engine_simps(1) [symmetric] demo_engine_simps(2,3) demo_cells(1) rq
      _ _ _ nt(2) _ al demo_engine_ok(3) [symmetric] _ demo_engine_ok(4) [symmetric] _ _ _ _ _ _ _ ops(1,3,2,4,5),
      of "demo_cuda (\<lambda>_. False)" 1000 2000 3000 4000 "''b''" "''a''" "[9]" "[8]" 1001 3001 "[9]" 4001]
  have sides: "distinct [5, 1, 0, 7 :: int]" "distinct ?hs" "?hs \<noteq> []" "\<forall>idx. \<not> cuda_raises (demo_cuda (\<lambda>_. False)) idx" "(600 :: 32 word) \<noteq> 0" "(300 :: 32 word) \<noteq> 0"
    "''b'' \<notin> fst ` set (sa_lookup_futures demo_scheduler)"
    by (simp_all add: demo_cuda_def demo_scheduler_def)
  have words: "mp_devices E 9 (cell_addr plain_torch 2 ?gc' [0, 7] (1, 0, 1, 0)) = (7, cell_addr plain_torch 2 ?gc [0, 1] (1, 0, 1, 0))"
    if "\<forall>idx < length ?hs. \<forall>c \<in> chunk_cells plain_torch 2 ?gc. mp_devices E 9 (cell_addr plain_torch 2 ?gc' (chunk_slots 2 (block_slots ?gc' [5, 1, 0, 7]) idx) c) =
        mp_devices ?e 7 (cell_addr plain_torch 2 ?gc (chunk_slots 2 (block_slots ?gc [3, 0]) idx) c)" for E
    using that [rule_format, OF _ demo_cells(2), of 1, unfolded demo_cells(3,4) demo_engine_simps] by simp
  have n: "int (length ?hs) = 2" "replicate (length ?hs) (OBool True) = [OBool True, OBool True]" by simp_all
  have t: "time_ok 1000" "sint (1000 :: int64) \<le> sint (2000 :: int64)" "sint (2000 :: int64) < sint (1000 :: int64) + 1000 * uint (600 :: 32 word)"
    "time_ok 3000" "sint (3000 :: int64) \<le> sint (4000 :: int64)" "sint (4000 :: int64) < sint (3000 :: int64) + 1000 * uint (300 :: 32 word)"
    by (simp_all add: time_ok_def)
  show ?thesis using main [OF sides(1-6) t sides(7)] unfolding n using words by blast
qed

end
