(* ===== verification/Py_Strings.thy ===== *)
theory Py_Strings
  imports LM_Prelude
begin

text \<open>
  The string functions of Python that the printed cache keys and slot mappings use: \<^verbatim>\<open>split\<close>, \<^verbatim>\<open>join\<close>,
  \<^verbatim>\<open>strip\<close>, \<^verbatim>\<open>isdigit\<close>, integers in decimal and hexadecimal, and \<^verbatim>\<open>int\<close> on strings. Characters
  are those of the first 256 code points.

  Shown: \<^verbatim>\<open>int\<close> reads back what formatting wrote, and \<^verbatim>\<open>split\<close> undoes \<^verbatim>\<open>join\<close>.
\<close>

section \<open>Splitting and joining\<close>

fun split_on :: "char \<Rightarrow> string \<Rightarrow> string list" where
  "split_on c [] = [[]]"
| "split_on c (x # xs) =
     (if x = c then [] # split_on c xs
      else (case split_on c xs of [] \<Rightarrow> [[x]] | p # ps \<Rightarrow> (x # p) # ps))"

text \<open>\<^verbatim>\<open>s.split(c, 1)\<close>: at the first occurrence only.\<close>

fun split_once :: "char \<Rightarrow> string \<Rightarrow> string list" where
  "split_once c [] = [[]]"
| "split_once c (x # xs) =
     (if x = c then [[], xs]
      else (case split_once c xs of [] \<Rightarrow> [[x]] | p # ps \<Rightarrow> (x # p) # ps))"

fun join_with :: "char \<Rightarrow> string list \<Rightarrow> string" where
  "join_with c [] = []"
| "join_with c [s] = s"
| "join_with c (s # t # ts) = s @ c # join_with c (t # ts)"

lemma split_on_nonempty [simp]: "split_on c s \<noteq> []"
  by (cases s) (auto split: list.split)

lemma split_on_plain: "c \<notin> set s \<Longrightarrow> split_on c s = [s]"
  by (induction s) auto

lemma split_on_append: "c \<notin> set s \<Longrightarrow> split_on c (s @ c # t) = s # split_on c t"
  by (induction s) (auto split: list.split)

lemma split_join: "ss \<noteq> [] \<Longrightarrow> \<forall>s \<in> set ss. c \<notin> set s \<Longrightarrow> split_on c (join_with c ss) = ss"
  by (induction c ss rule: join_with.induct) (simp_all add: split_on_plain split_on_append)

lemma split_once_append: "c \<notin> set s \<Longrightarrow> split_once c (s @ c # t) = [s, t]"
  by (induction s) auto

lemma split_once_plain: "c \<notin> set s \<Longrightarrow> split_once c s = [s]"
  by (induction s) auto

section \<open>Stripping\<close>

definition is_space :: "char \<Rightarrow> bool" where
  "is_space c \<longleftrightarrow> (let n = of_char c :: nat in n \<in> {9, 10, 11, 12, 13, 28, 29, 30, 31, 32, 133, 160})"

definition lstrip :: "string \<Rightarrow> string" where
  "lstrip s = dropWhile is_space s"

definition rstrip :: "string \<Rightarrow> string" where
  "rstrip s = rev (dropWhile is_space (rev s))"

definition strip :: "string \<Rightarrow> string" where
  "strip s = rstrip (lstrip s)"

text \<open>A string that \<^verbatim>\<open>strip\<close> leaves alone.\<close>

definition stripped :: "string \<Rightarrow> bool" where
  "stripped s \<longleftrightarrow> s \<noteq> [] \<and> \<not> is_space (hd s) \<and> \<not> is_space (last s)"

lemma strip_padded:
  assumes "stripped s" and "\<forall>c \<in> set pad. is_space c"
  shows "strip (s @ pad) = s"
proof -
  have "lstrip (s @ pad) = s @ pad" using assms(1) by (cases s) (simp_all add: lstrip_def stripped_def)
  moreover have "rstrip (s @ pad) = s"
  proof -
    have "dropWhile is_space (rev pad @ rev s) = dropWhile is_space (rev s)" using assms(2) by (intro dropWhile_append2) simp
    moreover have "dropWhile is_space (rev s) = rev s"
      using assms(1) by (simp add: stripped_def dropWhile_eq_self_iff hd_rev)
    ultimately show ?thesis by (simp add: rstrip_def)
  qed
  ultimately show ?thesis by (simp add: strip_def)
qed

lemma strip_stripped: "stripped s \<Longrightarrow> strip s = s"
  using strip_padded [of s "[]"] by simp

section \<open>Integers\<close>

definition digit_char :: "nat \<Rightarrow> char" where
  "digit_char d = ''0123456789abcdef'' ! d"

definition digit_value :: "char \<Rightarrow> nat option" where
  "digit_value c =
     (let n = of_char c :: nat
      in if 48 \<le> n \<and> n \<le> 57 then Some (n - 48)
         else if 97 \<le> n \<and> n \<le> 122 then Some (n - 87)
         else if 65 \<le> n \<and> n \<le> 90 then Some (n - 55)
         else None)"

function show_nat :: "nat \<Rightarrow> nat \<Rightarrow> string" where
  "show_nat base n = (if base < 2 \<or> n < base then [digit_char n] else show_nat base (n div base) @ [digit_char (n mod base)])"
  by auto
termination by (relation "measure snd") auto

declare show_nat.simps [simp del]

definition show_int :: "nat \<Rightarrow> int \<Rightarrow> string" where
  "show_int base i = (if i < 0 then CHR ''-'' # show_nat base (nat (- i)) else show_nat base (nat i))"

text \<open>
  The digits of \<^verbatim>\<open>int(s, base)\<close>: at least one, in the base, with single underscores between them. The
  flag says whether the last character was a digit.
\<close>

fun read_digits :: "nat \<Rightarrow> nat \<Rightarrow> bool \<Rightarrow> string \<Rightarrow> nat option" where
  "read_digits base acc after_digit [] = (if after_digit then Some acc else None)"
| "read_digits base acc after_digit (c # cs) =
     (if c = CHR ''_'' then (if after_digit then read_digits base acc False cs else None)
      else (case digit_value c of
              None \<Rightarrow> None
            | Some d \<Rightarrow> if d < base then read_digits base (acc * base + d) True cs else None))"

definition read_nat :: "nat \<Rightarrow> string \<Rightarrow> nat option" where
  "read_nat base s =
     (let t = (if base = 16 \<and> (take 2 s = ''0x'' \<or> take 2 s = ''0X'')
               then (if take 1 (drop 2 s) = ''_'' then drop 3 s else drop 2 s) else s)
      in read_digits base 0 False t)"

definition read_int :: "nat \<Rightarrow> string \<Rightarrow> int result" where
  "read_int base s =
     (let t = strip s;
          (sign, u) = (if take 1 t = ''-'' then (-1, drop 1 t) else if take 1 t = ''+'' then (1, drop 1 t) else (1, t))
      in case read_nat base u of None \<Rightarrow> Inl ValueError | Some n \<Rightarrow> Inr (sign * int n))"

definition isdigit :: "string \<Rightarrow> bool" where
  "isdigit s \<longleftrightarrow> s \<noteq> [] \<and> (\<forall>c \<in> set s. let n = of_char c :: nat in (48 \<le> n \<and> n \<le> 57) \<or> n \<in> {178, 179, 185})"

subsection \<open>Reading back\<close>

lemma digit_char_cases: "d < 16 \<Longrightarrow> digit_char d \<in> set ''0123456789abcdef''"
  unfolding digit_char_def by (rule nth_mem) simp

lemma digit_value_char: "d < 16 \<Longrightarrow> digit_value (digit_char d) = Some d"
proof -
  have "\<forall>d \<in> set [0..<16]. digit_value (digit_char d) = Some d" by code_simp
  then show "d < 16 \<Longrightarrow> digit_value (digit_char d) = Some d" by simp
qed

lemma hex_digits: "\<forall>c \<in> set ''0123456789abcdef''. c \<noteq> CHR ''_'' \<and> c \<noteq> CHR ''-'' \<and> c \<noteq> CHR ''+'' \<and> c \<noteq> CHR ''x'' \<and> c \<noteq> CHR ''X'' \<and>
    c \<noteq> CHR ''@'' \<and> c \<noteq> CHR ''%'' \<and> \<not> is_space c"
  by (simp add: is_space_def)

lemma show_nat_chars: "base \<le> 16 \<Longrightarrow> n < base \<or> 2 \<le> base \<Longrightarrow> set (show_nat base n) \<subseteq> set ''0123456789abcdef'' \<and> show_nat base n \<noteq> []"
proof (induction base n rule: show_nat.induct)
  case (1 base n)
  show ?case
  proof (cases "base < 2 \<or> n < base")
    case True
    then show ?thesis using 1 digit_char_cases [of n] by (subst (1 2) show_nat.simps) auto
  next
    case False
    then have "n mod base < 16" using 1(2) by (meson mod_less_divisor not_less order.strict_trans2 order_less_le_trans zero_less_numeral less_le_trans)
    then show ?thesis using False 1 digit_char_cases [of "n mod base"] by (subst (1 2) show_nat.simps) auto
  qed
qed

lemma read_digits_append:
  "\<forall>c \<in> set s. c \<noteq> CHR ''_'' \<Longrightarrow> s \<noteq> [] \<Longrightarrow> read_digits base acc b s = Some n \<Longrightarrow> read_digits base acc b (s @ t) = read_digits base n True t"
proof (induction s arbitrary: acc b)
  case (Cons c cs)
  then show ?case by (cases cs) (auto split: option.splits if_splits)
qed simp

lemma read_digits_show:
  assumes "2 \<le> base" and "base \<le> 16"
  shows "read_digits base 0 b (show_nat base n) = Some n"
proof (induction n arbitrary: b rule: less_induct)
  case (less n)
  note c = show_nat_chars [of base, OF assms(2)]
  have u: "d < base \<Longrightarrow> digit_char d \<noteq> CHR ''_''" for d using digit_char_cases [of d] assms(2) hex_digits by fastforce
  show ?case
  proof (cases "n < base")
    case True
    then show ?thesis using assms digit_value_char [of n] u [of n] by (subst show_nat.simps) simp
  next
    case False
    then have s: "show_nat base n = show_nat base (n div base) @ [digit_char (n mod base)]" using assms by (subst show_nat.simps) simp
    have d: "n mod base < base" "n div base < n" using assms False by simp_all
    have "\<forall>c \<in> set (show_nat base (n div base)). c \<noteq> CHR ''_''" using c [of "n div base"] assms(1) hex_digits by blast
    moreover have "show_nat base (n div base) \<noteq> []" using c [of "n div base"] assms(1) by blast
    ultimately have "read_digits base 0 b (show_nat base n) = read_digits base (n div base) True [digit_char (n mod base)]"
      unfolding s using read_digits_append [OF _ _ less.IH [OF d(2)]] by blast
    then show ?thesis using d assms(2) u [OF d(1)] digit_value_char [of "n mod base"] by simp
  qed
qed

lemma read_show_int:
  assumes "2 \<le> base" and "base \<le> 16"
  shows "read_int base (show_int base i) = Inr i"
proof -
  let ?n = "nat (if i < 0 then - i else i)"
  have c: "set (show_nat base ?n) \<subseteq> set ''0123456789abcdef''" "show_nat base ?n \<noteq> []" using show_nat_chars [of base ?n] assms by blast+
  then have h: "\<forall>c \<in> set (show_nat base ?n). c \<noteq> CHR ''_'' \<and> c \<noteq> CHR ''-'' \<and> c \<noteq> CHR ''+'' \<and> c \<noteq> CHR ''x'' \<and> c \<noteq> CHR ''X'' \<and> \<not> is_space c"
    using hex_digits by blast
  have "stripped (show_int base i)"
  proof -
    have "\<not> is_space (last (show_nat base ?n))" "\<not> is_space (hd (show_nat base ?n))" using h c(2) by auto
    moreover have "\<not> is_space (CHR ''-'')" by (simp add: is_space_def)
    ultimately show ?thesis using c(2) by (auto simp: stripped_def show_int_def split: if_splits)
  qed
  then have st: "strip (show_int base i) = show_int base i" by (rule strip_stripped)
  obtain x xs where x: "show_nat base ?n = x # xs" using c(2) by (cases "show_nat base ?n") auto
  have pre: "take 2 (show_nat base ?n) \<noteq> ''0x'' \<and> take 2 (show_nat base ?n) \<noteq> ''0X''"
    using h by (cases xs) (auto simp: x)
  then have r: "read_nat base (show_nat base ?n) = Some ?n" using read_digits_show [OF assms] by (simp add: read_nat_def Let_def)
  have sgn: "x \<noteq> CHR ''-''" "x \<noteq> CHR ''+''" using h by (simp_all add: x)
  show ?thesis
  proof (cases "i < 0")
    case True
    then show ?thesis using r by (simp add: read_int_def st Let_def) (simp add: show_int_def)
  next
    case False
    then show ?thesis using r sgn x by (simp add: read_int_def st Let_def) (simp add: show_int_def)
  qed
qed

lemma show_int_chars:
  assumes "2 \<le> base" and "base \<le> 16"
  shows "CHR ''@'' \<notin> set (show_int base i)" and "CHR ''%'' \<notin> set (show_int base i)" and "show_int base i \<noteq> []"
    and "\<not> is_space (last (show_int base i))"
proof -
  have c: "set (show_nat base n) \<subseteq> set ''0123456789abcdef''" "show_nat base n \<noteq> []" for n using show_nat_chars [of base n] assms by blast+
  have h: "c \<in> set (show_nat base n) \<Longrightarrow> c \<noteq> CHR ''@'' \<and> c \<noteq> CHR ''%'' \<and> \<not> is_space c" for c n using c(1) hex_digits by blast
  show "CHR ''@'' \<notin> set (show_int base i)" "CHR ''%'' \<notin> set (show_int base i)" using h by (auto simp: show_int_def)
  show "show_int base i \<noteq> []" using c(2) by (simp add: show_int_def)
  show "\<not> is_space (last (show_int base i))" using h c(2) last_in_set by (auto simp: show_int_def)
qed

end
