(* ===== verification/Cache_Key.thy ===== *)
theory Cache_Key
  imports Py_Strings Object_Key
begin

text \<open>
  The cache keys of \<^verbatim>\<open>lmcache/utils.py\<close>, \<^verbatim>\<open>CacheEngineKey\<close> and \<^verbatim>\<open>LayerCacheEngineKey\<close>, with their printed and
  dictionary forms, and the compressed slot mappings of the same file. A key of the class
  \<^verbatim>\<open>LayerCacheEngineKey\<close> has a layer id. Values of request configurations are strings.
  \<open>has\<close> says which data types the installed PyTorch has, as \<^verbatim>\<open>hasattr(torch, ...)\<close> reports.

  Shown: printed keys and dictionaries are read back as equal keys; a printed layer key is
  refused by \<^verbatim>\<open>parse_cache_key\<close>; decompression undoes compression of a slot mapping.
\<close>

section \<open>Keys\<close>

datatype chunk_hash = IntHash int | BytesHash bytes

record CacheEngineKey =
  ck_model_name :: string
  ck_world_size :: int
  ck_worker_id :: int
  ck_chunk_hash :: chunk_hash
  ck_dtype :: torch_dtype
  ck_request_configs :: "(string, string) pydict option"
  ck_tags :: "(string \<times> string) list option"
  ck_dtype_str :: string
  ck_layer_id :: "int option"

text \<open>\<^verbatim>\<open>torch.half\<close>, \<^verbatim>\<open>torch.float\<close> and \<^verbatim>\<open>torch.double\<close> are other names of three of the data types.\<close>

definition TORCH_DTYPE_TO_STR_DTYPE :: "(torch_dtype \<Rightarrow> bool) \<Rightarrow> (torch_dtype, string) pydict" where
  "TORCH_DTYPE_TO_STR_DTYPE has =
     [(''float16'', ''half''), (''bfloat16'', ''bfloat16''), (''float32'', ''float''), (''float64'', ''double''), (''int8'', ''int8''),
      (''uint8'', ''uint8''), (''int16'', ''int16''), (''int32'', ''int32''), (''int64'', ''int64''), (''bool'', ''bool'')] @
     filter (\<lambda>(d, _). has d)
       [(''float8_e4m3fn'', ''fp8_e4m3''), (''float8_e4m3fnuz'', ''fp8_e4m3''), (''float8_e5m2'', ''fp8_e5m2''), (''float8_e5m2fnuz'', ''fp8_e5m2'')]"

definition STR_DTYPE_TO_TORCH_DTYPE :: "(torch_dtype \<Rightarrow> bool) \<Rightarrow> (string, torch_dtype) pydict" where
  "STR_DTYPE_TO_TORCH_DTYPE has = fold (\<lambda>(k, v). AList.update v k) (TORCH_DTYPE_TO_STR_DTYPE has) []"

definition TAG_PREFIX :: string where
  "TAG_PREFIX = ''lmcache.tag.''"

definition tags_of :: "(string, string) pydict option \<Rightarrow> (string \<times> string) list option" where
  "tags_of request_configs =
     (case request_configs of
        None \<Rightarrow> None
      | Some d \<Rightarrow>
          let tag_list = map (\<lambda>(k, v). (drop (length TAG_PREFIX) k, v)) (filter (\<lambda>(k, v). take (length TAG_PREFIX) k = TAG_PREFIX) d)
          in if tag_list = [] then None else Some tag_list)"

definition CacheEngineKey_init ::
  "(torch_dtype \<Rightarrow> bool) \<Rightarrow> string \<Rightarrow> int \<Rightarrow> int \<Rightarrow> chunk_hash \<Rightarrow> torch_dtype \<Rightarrow> (string, string) pydict option \<Rightarrow> int option \<Rightarrow> CacheEngineKey result"
where
  "CacheEngineKey_init has model_name world_size worker_id chunk_hash dtype request_configs layer_id =
     (case map_of (TORCH_DTYPE_TO_STR_DTYPE has) dtype of
        None \<Rightarrow> Inl ValueError
      | Some s \<Rightarrow>
          Inr \<lparr>ck_model_name = model_name, ck_world_size = world_size, ck_worker_id = worker_id, ck_chunk_hash = chunk_hash, ck_dtype = dtype,
               ck_request_configs = request_configs, ck_tags = tags_of request_configs, ck_dtype_str = s, ck_layer_id = layer_id\<rparr>)"

text \<open>The tuple that \<^verbatim>\<open>__hash__\<close> gives to \<^verbatim>\<open>hash\<close>.\<close>

definition hash_fields :: "CacheEngineKey \<Rightarrow> string \<times> int \<times> int \<times> chunk_hash \<times> string \<times> (string \<times> string) list option \<times> int option" where
  "hash_fields k = (ck_model_name k, ck_world_size k, ck_worker_id k, ck_chunk_hash k, ck_dtype_str k, ck_tags k, ck_layer_id k)"

definition key_eq :: "CacheEngineKey \<Rightarrow> CacheEngineKey \<Rightarrow> bool" where
  "key_eq k k' \<longleftrightarrow>
     (ck_layer_id k = None \<longleftrightarrow> ck_layer_id k' = None) \<and> ck_model_name k = ck_model_name k' \<and> ck_world_size k = ck_world_size k' \<and>
     ck_worker_id k = ck_worker_id k' \<and> ck_chunk_hash k = ck_chunk_hash k' \<and> ck_dtype k = ck_dtype k' \<and> ck_tags k = ck_tags k' \<and>
     ck_layer_id k = ck_layer_id k'"

definition chunk_hash_hex :: "CacheEngineKey \<Rightarrow> string" where
  "chunk_hash_hex k =
     (case ck_chunk_hash k of
        BytesHash bs \<Rightarrow> concat (map (\<lambda>b. [digit_char (unat b div 16), digit_char (unat b mod 16)]) bs)
      | IntHash h \<Rightarrow> show_int 16 h)"

definition tag_strings :: "CacheEngineKey \<Rightarrow> string list" where
  "tag_strings k = (case ck_tags k of None \<Rightarrow> [] | Some ts \<Rightarrow> map (\<lambda>(t, v). t @ CHR ''%'' # v) ts)"

definition to_string :: "CacheEngineKey \<Rightarrow> string" where
  "to_string k =
     join_with (CHR ''@'')
       ([ck_model_name k, show_int 10 (ck_world_size k), show_int 10 (ck_worker_id k), chunk_hash_hex k, ck_dtype_str k] @
        (case ck_layer_id k of None \<Rightarrow> [] | Some l \<Rightarrow> [show_int 10 l]) @ tag_strings k)"

definition layer_key :: "(torch_dtype \<Rightarrow> bool) \<Rightarrow> CacheEngineKey \<Rightarrow> int \<Rightarrow> CacheEngineKey result" where
  "layer_key has k layer_id =
     CacheEngineKey_init has (ck_model_name k) (ck_world_size k) (ck_worker_id k) (ck_chunk_hash k) (ck_dtype k) (ck_request_configs k) (Some layer_id)"

definition split_layers :: "(torch_dtype \<Rightarrow> bool) \<Rightarrow> CacheEngineKey \<Rightarrow> nat \<Rightarrow> CacheEngineKey list result" where
  "split_layers has k num_layers = map_result (\<lambda>l. layer_key has k (int l)) [0..<num_layers]"

definition get_first_layer :: "(torch_dtype \<Rightarrow> bool) \<Rightarrow> CacheEngineKey \<Rightarrow> CacheEngineKey result" where
  "get_first_layer has k = layer_key has k 0"

definition with_new_worker_id :: "(torch_dtype \<Rightarrow> bool) \<Rightarrow> CacheEngineKey \<Rightarrow> int \<Rightarrow> CacheEngineKey result" where
  "with_new_worker_id has k new_worker_id =
     CacheEngineKey_init has (ck_model_name k) (ck_world_size k) new_worker_id (ck_chunk_hash k) (ck_dtype k) (ck_request_configs k) None"

text \<open>The pairs of a list of printed configurations, as a dictionary.\<close>

fun read_configs :: "string \<Rightarrow> string list \<Rightarrow> (string, string) pydict \<Rightarrow> (string, string) pydict result" where
  "read_configs key_prefix [] d = Inr d"
| "read_configs key_prefix (kv # kvs) d =
     (case split_once (CHR ''%'') kv of
        [k, v] \<Rightarrow> read_configs key_prefix kvs (AList.update (key_prefix @ k) v d)
      | _ \<Rightarrow> Inl ValueError)"

definition dict_item :: "('k, 'v) pydict \<Rightarrow> 'k \<Rightarrow> 'v result" where
  "dict_item d k = (case map_of d k of None \<Rightarrow> Inl KeyError | Some v \<Rightarrow> Inr v)"

definition CacheEngineKey_from_string :: "(torch_dtype \<Rightarrow> bool) \<Rightarrow> string \<Rightarrow> CacheEngineKey result" where
  "CacheEngineKey_from_string has s =
     (let parts = split_on (CHR ''@'') s
      in if length parts < 5 then Inl ValueError
         else bind_result (if length parts \<ge> 6 then bind_result (read_configs TAG_PREFIX (drop 5 parts) []) (\<lambda>d. Inr (Some d)) else Inr None) (\<lambda>request_configs.
              bind_result (read_int 10 (parts ! 1)) (\<lambda>world_size.
              bind_result (read_int 10 (parts ! 2)) (\<lambda>worker_id.
              bind_result (read_int 16 (parts ! 3)) (\<lambda>chunk_hash.
              bind_result (dict_item (STR_DTYPE_TO_TORCH_DTYPE has) (parts ! 4)) (\<lambda>dtype.
                CacheEngineKey_init has (parts ! 0) world_size worker_id (IntHash chunk_hash) dtype request_configs None))))))"

definition LayerCacheEngineKey_from_string :: "(torch_dtype \<Rightarrow> bool) \<Rightarrow> string \<Rightarrow> CacheEngineKey result" where
  "LayerCacheEngineKey_from_string has s =
     (let parts = split_on (CHR ''@'') s
      in if length parts < 6 then Inl ValueError
         else bind_result (if length parts \<ge> 7 then bind_result (read_configs TAG_PREFIX (drop 6 parts) []) (\<lambda>d. Inr (Some d)) else Inr None) (\<lambda>request_configs.
              bind_result (read_int 10 (parts ! 1)) (\<lambda>world_size.
              bind_result (read_int 10 (parts ! 2)) (\<lambda>worker_id.
              bind_result (read_int 16 (parts ! 3)) (\<lambda>chunk_hash.
              bind_result (dict_item (STR_DTYPE_TO_TORCH_DTYPE has) (parts ! 4)) (\<lambda>dtype.
              bind_result (read_int 10 (parts ! 5)) (\<lambda>layer_id.
                CacheEngineKey_init has (parts ! 0) world_size worker_id (IntHash chunk_hash) dtype request_configs (Some layer_id))))))))"

definition parse_cache_key :: "(torch_dtype \<Rightarrow> bool) \<Rightarrow> string \<Rightarrow> CacheEngineKey result" where
  "parse_cache_key has key_str =
     (let parts = split_on (CHR ''@'') (strip key_str)
      in if length parts \<ge> 5 \<and> isdigit (parts ! 4) then LayerCacheEngineKey_from_string has key_str
         else CacheEngineKey_from_string has key_str)"

text \<open>
  The dictionary form, for keys of the class \<^verbatim>\<open>CacheEngineKey\<close>. Python does not check the types of the
  fields; a field of a type that \<^verbatim>\<open>to_dict\<close> never writes there is an error of the model.
\<close>

datatype key_field = FStr string | FInt int | FBytes bytes | FList "string list"

definition to_dict :: "CacheEngineKey \<Rightarrow> (string, key_field) pydict" where
  "to_dict k =
     [(''__type__'', FStr ''CacheEngineKey''), (''model_name'', FStr (ck_model_name k)), (''world_size'', FInt (ck_world_size k)),
      (''worker_id'', FInt (ck_worker_id k)),
      (''chunk_hash'', case ck_chunk_hash k of IntHash h \<Rightarrow> FInt h | BytesHash b \<Rightarrow> FBytes b), (''dtype'', FStr (ck_dtype_str k))] @
     (case ck_request_configs k of
        None \<Rightarrow> []
      | Some d \<Rightarrow> if d = [] then [] else [(''request_configs'', FList (map (\<lambda>(c, v). c @ CHR ''%'' # v) d))])"

definition field_str :: "key_field \<Rightarrow> string result" where
  "field_str f = (case f of FStr s \<Rightarrow> Inr s | _ \<Rightarrow> Inl TypeError)"

definition field_int :: "key_field \<Rightarrow> int result" where
  "field_int f = (case f of FInt i \<Rightarrow> Inr i | _ \<Rightarrow> Inl TypeError)"

definition field_hash :: "key_field \<Rightarrow> chunk_hash result" where
  "field_hash f = (case f of FInt i \<Rightarrow> Inr (IntHash i) | FBytes b \<Rightarrow> Inr (BytesHash b) | _ \<Rightarrow> Inl TypeError)"

definition from_dict :: "(torch_dtype \<Rightarrow> bool) \<Rightarrow> (string, key_field) pydict \<Rightarrow> CacheEngineKey result" where
  "from_dict has d =
     bind_result (case map_of d ''request_configs'' of
                    Some (FList (kv # kvs)) \<Rightarrow> bind_result (read_configs [] (kv # kvs) []) (\<lambda>c. Inr (Some c))
                  | _ \<Rightarrow> Inr None) (\<lambda>request_configs.
     bind_result (bind_result (dict_item d ''model_name'') field_str) (\<lambda>model_name.
     bind_result (bind_result (dict_item d ''world_size'') field_int) (\<lambda>world_size.
     bind_result (bind_result (dict_item d ''worker_id'') field_int) (\<lambda>worker_id.
     bind_result (bind_result (dict_item d ''chunk_hash'') field_hash) (\<lambda>chunk_hash.
     bind_result (bind_result (bind_result (dict_item d ''dtype'') field_str) (dict_item (STR_DTYPE_TO_TORCH_DTYPE has))) (\<lambda>dtype.
       CacheEngineKey_init has model_name world_size worker_id chunk_hash dtype request_configs None))))))"

section \<open>Slot mappings\<close>

definition cdiv :: "int \<Rightarrow> int \<Rightarrow> int result" where
  "cdiv a b = (if b = 0 then Inl ZeroDivisionError else Inr (- (a div - b)))"

definition round_down :: "int \<Rightarrow> int \<Rightarrow> int result" where
  "round_down x y = (if y = 0 then Inl ZeroDivisionError else Inr (x div y * y))"

datatype slot_item = Slot int | SlotRange int int

definition append_range_or_elements :: "int \<Rightarrow> int \<Rightarrow> slot_item list" where
  "append_range_or_elements start ending = (if ending - start + 1 \<ge> 3 then [SlotRange start ending] else map Slot [start..ending])"

fun compress_loop :: "int \<Rightarrow> int \<Rightarrow> int list \<Rightarrow> slot_item list" where
  "compress_loop range_start range_end [] = append_range_or_elements range_start range_end"
| "compress_loop range_start range_end (slot # slots) =
     (if slot = range_end + 1 then compress_loop range_start slot slots
      else append_range_or_elements range_start range_end @ compress_loop slot slot slots)"

definition compress_slot_mapping :: "int list \<Rightarrow> slot_item list" where
  "compress_slot_mapping slots = (case slots of [] \<Rightarrow> [] | s # ss \<Rightarrow> compress_loop s s ss)"

definition decompress_slot_mapping :: "slot_item list \<Rightarrow> int list" where
  "decompress_slot_mapping compressed = concat (map (\<lambda>item. case item of SlotRange s e \<Rightarrow> [s..e] | Slot s \<Rightarrow> [s]) compressed)"

text \<open>The scanner of \<^verbatim>\<open>parse_mixed_slot_mapping\<close>: commas inside brackets do not separate.\<close>

fun scan_parts :: "string \<Rightarrow> bool \<Rightarrow> string \<Rightarrow> string list result" where
  "scan_parts buffer in_brackets [] =
     (if in_brackets then Inl ValueError else Inr (if buffer = [] then [] else [buffer]))"
| "scan_parts buffer in_brackets (c # cs) =
     (if c = CHR ''['' then (if in_brackets then Inl ValueError else scan_parts (buffer @ [c]) True cs)
      else if c = CHR '']'' then
        (if \<not> in_brackets then Inl ValueError else bind_result (scan_parts [] False cs) (\<lambda>ps. Inr ((buffer @ [c]) # ps)))
      else if c = CHR '','' \<and> \<not> in_brackets then
        (if buffer \<noteq> [] then bind_result (scan_parts [] in_brackets cs) (\<lambda>ps. Inr (buffer # ps)) else scan_parts buffer in_brackets cs)
      else scan_parts (buffer @ [c]) in_brackets cs)"

definition decimal :: "string \<Rightarrow> bool" where
  "decimal s \<longleftrightarrow> s \<noteq> [] \<and> (\<forall>c \<in> set s. let n = of_char c :: nat in 48 \<le> n \<and> n \<le> 57)"

text \<open>The regular expression for a range, \<^verbatim>\<open>^\[(\d+),(\d+)\]$\<close>, with its two groups.\<close>

definition match_range :: "string \<Rightarrow> (string \<times> string) option" where
  "match_range part =
     (if take 1 part = ''['' \<and> 1 < length part \<and> last part = CHR '']''
      then (case split_on (CHR '','') (butlast (drop 1 part)) of
              [a, b] \<Rightarrow> if decimal a \<and> decimal b then Some (a, b) else None
            | _ \<Rightarrow> None)
      else None)"

definition parse_part :: "string \<Rightarrow> slot_item list result" where
  "parse_part part =
     (let p = strip part
      in if p = [] then Inr []
         else (case match_range p of
                 Some (a, b) \<Rightarrow>
                   bind_result (read_int 10 a) (\<lambda>start. bind_result (read_int 10 b) (\<lambda>ending.
                     if start > ending then Inl ValueError else Inr [SlotRange start ending]))
               | None \<Rightarrow> bind_result (read_int 10 p) (\<lambda>num. Inr [Slot num])))"

text \<open>The result is \<^verbatim>\<open>None\<close> where the code answers with an error dictionary.\<close>

definition parse_mixed_slot_mapping :: "string \<Rightarrow> int list option" where
  "parse_mixed_slot_mapping slot_mapping_str =
     (case bind_result (scan_parts [] False (filter (\<lambda>c. \<not> is_space c) slot_mapping_str)) (\<lambda>parts.
             bind_result (map_result parse_part parts) (\<lambda>items. Inr (decompress_slot_mapping (concat items)))) of
        Inl e \<Rightarrow> None
      | Inr slots \<Rightarrow> Some slots)"

section \<open>Compression of slot mappings\<close>

lemma decompress_append [simp]: "decompress_slot_mapping (a @ b) = decompress_slot_mapping a @ decompress_slot_mapping b"
  by (simp add: decompress_slot_mapping_def)

lemma decompress_range: "decompress_slot_mapping (append_range_or_elements s e) = [s..e]"
  by (simp add: decompress_slot_mapping_def append_range_or_elements_def comp_def)

lemma decompress_loop: "s \<le> e \<Longrightarrow> decompress_slot_mapping (compress_loop s e xs) = [s..e] @ xs"
proof (induction s e xs rule: compress_loop.induct)
  case (2 s e x xs)
  have "[s..e + 1] = [s..e] @ [e + 1]" using 2(3) upto_rec2 [of s "e + 1"] by simp
  then show ?case using 2 by (auto simp: decompress_range)
qed (simp add: decompress_range)

lemma decompress_compress: "decompress_slot_mapping (compress_slot_mapping slots) = slots"
  by (cases slots) (simp_all add: compress_slot_mapping_def decompress_loop decompress_slot_mapping_def [of "[]"])

text \<open>Every range of a compressed mapping stands for three slots or more.\<close>

definition long_range :: "slot_item \<Rightarrow> bool" where
  "long_range i = (case i of Slot s \<Rightarrow> True | SlotRange s e \<Rightarrow> s + 2 \<le> e)"

lemma compress_long_ranges: "i \<in> set (compress_slot_mapping slots) \<Longrightarrow> long_range i"
proof -
  have part: "i \<in> set (append_range_or_elements s e) \<Longrightarrow> long_range i" for s e
    by (auto simp: append_range_or_elements_def long_range_def split: if_splits)
  have "i \<in> set (compress_loop s e xs) \<Longrightarrow> long_range i" for s e xs
    by (induction s e xs rule: compress_loop.induct) (auto split: if_splits dest: part)
  then show "i \<in> set (compress_slot_mapping slots) \<Longrightarrow> long_range i"
    by (auto simp: compress_slot_mapping_def split: list.splits)
qed

section \<open>Printed keys\<close>

text \<open>Keys as the constructors make them.\<close>

definition made :: "(torch_dtype \<Rightarrow> bool) \<Rightarrow> CacheEngineKey \<Rightarrow> bool" where
  "made has k \<longleftrightarrow>
     CacheEngineKey_init has (ck_model_name k) (ck_world_size k) (ck_worker_id k) (ck_chunk_hash k) (ck_dtype k) (ck_request_configs k) (ck_layer_id k) = Inr k"

lemma made_iff: "made has k \<longleftrightarrow> map_of (TORCH_DTYPE_TO_STR_DTYPE has) (ck_dtype k) = Some (ck_dtype_str k) \<and> ck_tags k = tags_of (ck_request_configs k)"
  by (cases k) (auto simp: made_def CacheEngineKey_init_def split: option.split)

lemma init_made: "CacheEngineKey_init has m ws w h dt rc l = Inr k \<Longrightarrow> made has k"
  by (auto simp: made_iff CacheEngineKey_init_def split: option.splits)

lemma key_eq_hash: "made has k \<Longrightarrow> made has k' \<Longrightarrow> key_eq k k' \<Longrightarrow> hash_fields k = hash_fields k'"
  by (auto simp: made_iff key_eq_def hash_fields_def)

lemma key_eq_equivalence: "key_eq k k" "key_eq k k' \<Longrightarrow> key_eq k' k" "key_eq k k' \<Longrightarrow> key_eq k' k'' \<Longrightarrow> key_eq k k''"
  by (simp_all add: key_eq_def)

text \<open>A dictionary that is written and read entry by entry is the same dictionary.\<close>

lemma read_configs_written:
  assumes "distinct (map fst (d @ map (\<lambda>(k, v). (p @ k, v)) kvs))" and "\<forall>(k, v) \<in> set kvs. CHR ''%'' \<notin> set k"
  shows "read_configs p (map (\<lambda>(k, v). k @ CHR ''%'' # v) kvs) d = Inr (d @ map (\<lambda>(k, v). (p @ k, v)) kvs)"
  using assms
proof (induction kvs arbitrary: d)
  case (Cons kv kvs)
  obtain k v where kv: "kv = (k, v)" by (cases kv)
  have new: "AList.update (p @ k) v d = d @ [(p @ k, v)]"
    using Cons.prems(1) unfolding kv by (induction d) auto
  have "read_configs p (map (\<lambda>(k, v). k @ CHR ''%'' # v) (kv # kvs)) d =
      read_configs p (map (\<lambda>(k, v). k @ CHR ''%'' # v) kvs) (d @ [(p @ k, v)])"
    using Cons.prems(2) new by (simp add: kv split_once_append)
  also have "\<dots> = Inr ((d @ [(p @ k, v)]) @ map (\<lambda>(k, v). (p @ k, v)) kvs)"
    using Cons.prems kv by (intro Cons.IH) auto
  finally show ?case by (simp add: kv)
qed simp

lemma tags_of_written: "tags_of (Some (map (\<lambda>(k, v). (TAG_PREFIX @ k, v)) ts)) = (if ts = [] then None else Some ts)"
proof -
  have "filter (\<lambda>(k, v). take (length TAG_PREFIX) k = TAG_PREFIX) (map (\<lambda>(k, v). (TAG_PREFIX @ k, v)) ts) = map (\<lambda>(k, v). (TAG_PREFIX @ k, v)) ts"
    by (induction ts) auto
  then show ?thesis by (auto simp: tags_of_def Let_def case_prod_unfold comp_def)
qed

lemma tags_distinct:
  assumes "tags_of (Some d) = Some ts" and "distinct (dict_keys d)"
  shows "distinct (map fst ts)"
proof -
  let ?n = "length TAG_PREFIX"
  let ?f = "filter (\<lambda>(k, v). take ?n k = TAG_PREFIX) d"
  have "map fst ts = map (drop ?n) (map fst ?f)"
    using assms(1) by (auto simp: tags_of_def Let_def comp_def case_prod_unfold split: if_splits)
  moreover have "inj_on (drop ?n) (set (map fst ?f))"
    by (rule inj_onI) (auto, metis append_take_drop_id)
  ultimately show ?thesis using distinct_map_filter [OF assms(2), of "\<lambda>(k, v). take ?n k = TAG_PREFIX"] by (simp only: distinct_map)
qed

text \<open>The keys whose printed form is unambiguous.\<close>

definition printable_key :: "(torch_dtype \<Rightarrow> bool) \<Rightarrow> CacheEngineKey \<Rightarrow> bool" where
  "printable_key has k \<longleftrightarrow>
     CHR ''@'' \<notin> set (ck_model_name k) \<and>
     (\<exists>h. ck_chunk_hash k = IntHash h) \<and>
     map_of (STR_DTYPE_TO_TORCH_DTYPE has) (ck_dtype_str k) = Some (ck_dtype k) \<and>
     (\<forall>d. ck_request_configs k = Some d \<longrightarrow> distinct (dict_keys d)) \<and>
     (\<forall>ts. ck_tags k = Some ts \<longrightarrow> (\<forall>(t, v) \<in> set ts. CHR ''%'' \<notin> set t \<and> CHR ''@'' \<notin> set t \<and> CHR ''@'' \<notin> set v))"

lemma dtype_strings:
  "(d, s) \<in> set (TORCH_DTYPE_TO_STR_DTYPE has) \<Longrightarrow> CHR ''@'' \<notin> set s \<and> \<not> isdigit s"
  unfolding TORCH_DTYPE_TO_STR_DTYPE_def set_append set_filter by (elim UnE) (auto simp: isdigit_def)

lemma made_dtype: "made has k \<Longrightarrow> CHR ''@'' \<notin> set (ck_dtype_str k) \<and> \<not> isdigit (ck_dtype_str k)"
  unfolding made_iff using dtype_strings by (blast dest: map_of_SomeD)

lemma key_parts:
  assumes "made has k" and "printable_key has k" and "ck_chunk_hash k = IntHash h"
  shows "split_on (CHR ''@'') (to_string k) =
    [ck_model_name k, show_int 10 (ck_world_size k), show_int 10 (ck_worker_id k), show_int 16 h, ck_dtype_str k] @
    (case ck_layer_id k of None \<Rightarrow> [] | Some l \<Rightarrow> [show_int 10 l]) @ tag_strings k"
proof -
  have "\<forall>s \<in> set (tag_strings k). CHR ''@'' \<notin> set s"
    using assms(2) by (cases "ck_tags k") (auto simp: tag_strings_def printable_key_def)
  moreover have "\<forall>s \<in> set (case ck_layer_id k of None \<Rightarrow> [] | Some l \<Rightarrow> [show_int 10 l]). CHR ''@'' \<notin> set s"
    using show_int_chars(1) [of 10] by (cases "ck_layer_id k") auto
  moreover have "CHR ''@'' \<notin> set (ck_model_name k)" using assms(2) by (simp add: printable_key_def)
  ultimately show ?thesis
    unfolding to_string_def chunk_hash_hex_def assms(3) chunk_hash.case
    using made_dtype [OF assms(1)] show_int_chars(1) [of 10] show_int_chars(1) [of 16]
    by (intro split_join) auto
qed

lemma read_tags:
  assumes "made has k" and "printable_key has k" and "ck_tags k = Some ts"
  shows "\<exists>d. read_configs TAG_PREFIX (tag_strings k) [] = Inr d \<and> tags_of (Some d) = Some ts"
proof -
  obtain rc where rc: "ck_request_configs k = Some rc" "tags_of (Some rc) = Some ts"
    using assms(1,3) by (cases "ck_request_configs k") (auto simp: made_iff tags_of_def)
  have "distinct (map fst ts)" using tags_distinct [OF rc(2)] assms(2) rc(1) by (simp add: printable_key_def)
  then have "distinct (map fst ([] @ map (\<lambda>(k, v). (TAG_PREFIX @ k, v)) ts))"
    by (induction ts) force+
  moreover have "\<forall>(k, v) \<in> set ts. CHR ''%'' \<notin> set k" using assms(2,3) by (auto simp: printable_key_def)
  ultimately have "read_configs TAG_PREFIX (tag_strings k) [] = Inr (map (\<lambda>(k, v). (TAG_PREFIX @ k, v)) ts)"
    using read_configs_written [of "[]" TAG_PREFIX ts] assms(3) by (simp add: tag_strings_def)
  moreover have "ts \<noteq> []" using rc(2) by (auto simp: tags_of_def Let_def split: if_splits)
  ultimately show ?thesis using tags_of_written [of ts] by simp
qed

lemma read_tags_parts:
  assumes "made has k" and "printable_key has k"
  shows "\<exists>rc. (if tag_strings k \<noteq> [] then bind_result (read_configs TAG_PREFIX (tag_strings k) []) (\<lambda>d. Inr (Some d)) else Inr None) = Inr rc \<and>
    tags_of rc = ck_tags k"
proof (cases "ck_tags k")
  case None
  then show ?thesis by (intro exI [of _ None]) (simp add: tag_strings_def tags_of_def)
next
  case (Some ts)
  then have "tag_strings k \<noteq> []"
    using assms(1) by (auto simp: made_iff tag_strings_def tags_of_def Let_def split: option.splits if_splits)
  then show ?thesis using read_tags [OF assms Some] Some by (auto simp: bind_result_def)
qed

lemma key_read_back:
  assumes "made has k" and "printable_key has k"
  shows "\<exists>k'. (case ck_layer_id k of None \<Rightarrow> CacheEngineKey_from_string has (to_string k) | Some l \<Rightarrow> LayerCacheEngineKey_from_string has (to_string k)) = Inr k' \<and>
    made has k' \<and> key_eq k k'"
proof -
  obtain h where h: "ck_chunk_hash k = IntHash h" using assms(2) by (auto simp: printable_key_def)
  obtain rc where rc: "(if tag_strings k \<noteq> [] then bind_result (read_configs TAG_PREFIX (tag_strings k) []) (\<lambda>d. Inr (Some d)) else Inr None) = Inr rc"
      "tags_of rc = ck_tags k"
    using read_tags_parts [OF assms] by blast
  let ?k = "k\<lparr>ck_request_configs := rc\<rparr>"
  have d: "map_of (STR_DTYPE_TO_TORCH_DTYPE has) (ck_dtype_str k) = Some (ck_dtype k)" using assms(2) by (simp add: printable_key_def)
  have init: "CacheEngineKey_init has (ck_model_name k) (ck_world_size k) (ck_worker_id k) (IntHash h) (ck_dtype k) rc (ck_layer_id k) = Inr ?k"
    using assms(1) h rc(2) by (cases k) (simp add: made_iff CacheEngineKey_init_def)
  have "(case ck_layer_id k of None \<Rightarrow> CacheEngineKey_from_string has (to_string k) | Some l \<Rightarrow> LayerCacheEngineKey_from_string has (to_string k)) = Inr ?k"
  proof (cases "ck_layer_id k")
    case None
    have "Suc 0 \<le> length (tag_strings k) \<longleftrightarrow> tag_strings k \<noteq> []" by (cases "tag_strings k") auto
    then show ?thesis
      using None rc(1) init d
      by (auto simp: CacheEngineKey_from_string_def key_parts [OF assms h] read_show_int bind_result_def dict_item_def Let_def split: if_splits sum.splits)
  next
    case (Some l)
    have "Suc 0 \<le> length (tag_strings k) \<longleftrightarrow> tag_strings k \<noteq> []" by (cases "tag_strings k") auto
    then show ?thesis
      using Some rc(1) init d
      by (auto simp: LayerCacheEngineKey_from_string_def key_parts [OF assms h] read_show_int bind_result_def dict_item_def Let_def split: if_splits sum.splits)
  qed
  moreover have "key_eq k ?k" by (simp add: key_eq_def)
  ultimately show ?thesis using init_made [OF init] by blast
qed

text \<open>A key of the third layer, with a tag.\<close>

definition sample_key :: CacheEngineKey where
  "sample_key =
     \<lparr>ck_model_name = ''m'', ck_world_size = 1, ck_worker_id = 0, ck_chunk_hash = IntHash (-26), ck_dtype = ''float16'',
      ck_request_configs = Some [(TAG_PREFIX @ ''u'', ''a%b''), (''temperature'', ''0'')], ck_tags = Some [(''u'', ''a%b'')], ck_dtype_str = ''half'',
      ck_layer_id = Some 2\<rparr>"

lemma sample_key_ok: "made (\<lambda>_. True) sample_key" "printable_key (\<lambda>_. True) sample_key"
proof -
  show "made (\<lambda>_. True) sample_key"
    by (simp add: made_iff sample_key_def TORCH_DTYPE_TO_STR_DTYPE_def tags_of_def TAG_PREFIX_def)
  show "printable_key (\<lambda>_. True) sample_key"
    by (simp add: printable_key_def sample_key_def STR_DTYPE_TO_TORCH_DTYPE_def TORCH_DTYPE_TO_STR_DTYPE_def TAG_PREFIX_def)
qed

lemma sample_key_stripped: "stripped (to_string sample_key)"
  by code_simp

text \<open>
  Property C25. \<^verbatim>\<open>from_string\<close> of the key's class reads what \<^verbatim>\<open>to_string\<close> printed as an equal key, for every
  key of either class with an integer hash, whose model name and tags have no separators and whose data
  type is the one its name stands for.
\<close>

theorem cache_key_roundtrip:
  assumes "made has k" and "printable_key has k"
  shows "\<exists>k'. (case ck_layer_id k of None \<Rightarrow> CacheEngineKey_from_string has (to_string k) | Some l \<Rightarrow> LayerCacheEngineKey_from_string has (to_string k)) = Inr k' \<and>
    made has k' \<and> key_eq k k'"
  using assms by (rule key_read_back)

theorem cache_key_roundtrip_witness:
  "\<exists>k'. LayerCacheEngineKey_from_string (\<lambda>_. True) (to_string sample_key) = Inr k' \<and> made (\<lambda>_. True) k' \<and> key_eq sample_key k'"
  using cache_key_roundtrip [OF sample_key_ok] by (simp add: sample_key_def)

text \<open>
  \<^verbatim>\<open>parse_cache_key\<close> raises \<^verbatim>\<open>ValueError\<close> on every printed layer key: it looks for the layer id at
  the place of the data type, and the reader of whole keys takes the layer id for a tag.
\<close>

lemma layer_key_refused:
  assumes "made has k" and "printable_key has k" and "ck_layer_id k = Some l" and "stripped (to_string k)"
  shows "parse_cache_key has (to_string k) = Inl ValueError"
proof -
  obtain h where h: "ck_chunk_hash k = IntHash h" using assms(2) by (auto simp: printable_key_def)
  have "split_once (CHR ''%'') (show_int 10 l) = [show_int 10 l]" using show_int_chars(2) [of 10 l] by (simp add: split_once_plain)
  then show ?thesis
    using made_dtype [OF assms(1)]
    by (simp add: parse_cache_key_def strip_stripped [OF assms(4)] CacheEngineKey_from_string_def key_parts [OF assms(1,2) h] assms(3) bind_result_def Let_def)
qed

text \<open>Whole keys are read by \<^verbatim>\<open>parse_cache_key\<close> as \<^verbatim>\<open>from_string\<close> reads them.\<close>

lemma parse_whole_key:
  assumes "made has k" and "printable_key has k" and "ck_layer_id k = None" and "stripped (to_string k)"
  shows "parse_cache_key has (to_string k) = CacheEngineKey_from_string has (to_string k)"
proof -
  obtain h where h: "ck_chunk_hash k = IntHash h" using assms(2) by (auto simp: printable_key_def)
  show ?thesis
    using made_dtype [OF assms(1)] by (simp add: parse_cache_key_def strip_stripped [OF assms(4)] key_parts [OF assms(1,2) h] assms(3) Let_def)
qed

section \<open>Dictionaries\<close>

text \<open>\<^verbatim>\<open>from_dict\<close> reads what \<^verbatim>\<open>to_dict\<close> wrote, with the request configurations, also for hashes that are bytes.\<close>

lemma dict_roundtrip:
  assumes "made has k" and "ck_layer_id k = None"
    and "map_of (STR_DTYPE_TO_TORCH_DTYPE has) (ck_dtype_str k) = Some (ck_dtype k)"
    and "\<forall>d. ck_request_configs k = Some d \<longrightarrow> distinct (dict_keys d) \<and> (\<forall>(c, v) \<in> set d. CHR ''%'' \<notin> set c)"
  shows "from_dict has (to_dict k) = Inr (k\<lparr>ck_request_configs := (if ck_request_configs k = Some [] then None else ck_request_configs k)\<rparr>)"
proof -
  have hash: "field_hash (case ck_chunk_hash k of IntHash h \<Rightarrow> FInt h | BytesHash b \<Rightarrow> FBytes b) = Inr (ck_chunk_hash k)"
    by (simp add: field_hash_def split: chunk_hash.split)
  have init: "tags_of rc = ck_tags k \<Longrightarrow>
      CacheEngineKey_init has (ck_model_name k) (ck_world_size k) (ck_worker_id k) (ck_chunk_hash k) (ck_dtype k) rc None = Inr (k\<lparr>ck_request_configs := rc\<rparr>)" for rc
    using assms(1,2) by (cases k) (simp add: made_iff CacheEngineKey_init_def)
  consider "ck_request_configs k = None" | "ck_request_configs k = Some []" | c cs where "ck_request_configs k = Some (c # cs)"
    by (metis (no_types) option.exhaust list.exhaust)
  then show ?thesis
  proof cases
    case 1
    then show ?thesis using assms(1,3) hash init [of None]
      by (simp add: from_dict_def to_dict_def bind_result_def dict_item_def field_str_def field_int_def made_iff)
  next
    case 2
    then show ?thesis using assms(1,3) hash init [of None]
      by (simp add: from_dict_def to_dict_def bind_result_def dict_item_def field_str_def field_int_def made_iff tags_of_def)
  next
    case (3 c cs)
    have read: "read_configs [] (map (\<lambda>(c, v). c @ CHR ''%'' # v) (c # cs)) [] = Inr (c # cs)"
      using read_configs_written [of "[]" "[]" "c # cs"] assms(4) 3 by (simp add: case_prod_unfold)
    show ?thesis using assms(1,3) 3 hash read init [of "Some (c # cs)"]
      by (simp add: from_dict_def to_dict_def bind_result_def dict_item_def field_str_def field_int_def made_iff)
  qed
qed

section \<open>Layers\<close>

lemma split_layers_made:
  assumes "made has k"
  shows "split_layers has k n = Inr (map (\<lambda>l. k\<lparr>ck_layer_id := Some (int l)\<rparr>) [0..<n])"
proof -
  have "layer_key has k l = Inr (k\<lparr>ck_layer_id := Some l\<rparr>)" for l
    using assms by (cases k) (simp add: layer_key_def made_iff CacheEngineKey_init_def)
  then show ?thesis unfolding split_layers_def by (simp add: map_result_iff list_all2_conv_all_nth)
qed

lemma split_layers_distinct:
  assumes "made has k" and "split_layers has k n = Inr ks" and "i < n" and "j < n" and "key_eq (ks ! i) (ks ! j)"
  shows "i = j"
proof -
  have "ks = map (\<lambda>l. k\<lparr>ck_layer_id := Some (int l)\<rparr>) [0..<n]" using assms(2) split_layers_made [OF assms(1), of n] by simp
  then show ?thesis using assms(3-) by (simp add: key_eq_def)
qed

end
