(* ===== verification/Remote_Protocol.thy ===== *)
theory Remote_Protocol
  imports Cache_Key
begin

text \<open>
  The wire format of the remote cache server, \<^verbatim>\<open>lmcache/v1/protocol.py\<close>: the metadata in front of a remote
  chunk, the request header of a client and the reply header of the server. \<^verbatim>\<open>struct\<close> packs an
  integer into four bytes, the least significant first, as on the machines that LMCache supports.
  Strings have characters below code point 256, and a byte sequence that encodes other characters is
  treated as undecodable.

  Shown: every header is read back as it was written, within the ranges of its fields, and a layer
  key never survives the trip.
\<close>

section \<open>Bytes\<close>

definition pack_i :: "int \<Rightarrow> bytes result" where
  "pack_i x = (if - (2 ^ 31) \<le> x \<and> x < 2 ^ 31 then Inr (rev (be_bytes 4 x)) else Inl StructError)"

definition unpack_i :: "bytes \<Rightarrow> int" where
  "unpack_i bs = (let n = from_bytes (rev bs) in if n < 2 ^ 31 then n else n - 2 ^ 32)"

text \<open>\<^verbatim>\<open>struct.pack("i" * n, ...)\<close> and the first integers of a byte sequence.\<close>

definition pack_ints :: "int list \<Rightarrow> bytes result" where
  "pack_ints xs = bind_result (map_result pack_i xs) (\<lambda>bss. Inr (concat bss))"

definition unpack_ints :: "nat \<Rightarrow> bytes \<Rightarrow> int list" where
  "unpack_ints n bs = map (\<lambda>i. unpack_i (take 4 (drop (4 * i) bs))) [0..<n]"

fun utf8_encode :: "string \<Rightarrow> bytes" where
  "utf8_encode [] = []"
| "utf8_encode (c # cs) =
     (let n = of_char c :: nat
      in (if n < 128 then [of_nat n] else [of_nat (192 + n div 64), of_nat (128 + n mod 64)]) @ utf8_encode cs)"

fun utf8_decode :: "bytes \<Rightarrow> string result" where
  "utf8_decode [] = Inr []"
| "utf8_decode (b # bs) =
     (if unat b < 128 then bind_result (utf8_decode bs) (\<lambda>s. Inr (char_of (unat b) # s))
      else (case bs of
              [] \<Rightarrow> Inl UnicodeDecodeError
            | b' # bs' \<Rightarrow>
                if unat b \<in> {194, 195} \<and> 128 \<le> unat b' \<and> unat b' < 192
                then bind_result (utf8_decode bs') (\<lambda>s. Inr (char_of ((unat b - 192) * 64 + (unat b' - 128)) # s))
                else Inl UnicodeDecodeError))"

text \<open>\<^verbatim>\<open>b.ljust(n)\<close>, and the format \<^verbatim>\<open>"150s"\<close> that truncates a longer string and pads a shorter one with zeros.\<close>

definition ljust :: "nat \<Rightarrow> bytes \<Rightarrow> bytes" where
  "ljust n bs = bs @ replicate (n - length bs) 32"

definition pack_s :: "nat \<Rightarrow> bytes \<Rightarrow> bytes" where
  "pack_s n bs = take n bs @ replicate (n - length bs) 0"

section \<open>Tables\<close>

definition MAX_KEY_LENGTH :: nat where
  "MAX_KEY_LENGTH = 150"

datatype ClientCommand = PUT | GET | EXIST | LIST | HEALTH

fun command_value :: "ClientCommand \<Rightarrow> int" where
  "command_value PUT = 1"
| "command_value GET = 2"
| "command_value EXIST = 3"
| "command_value LIST = 4"
| "command_value HEALTH = 5"

definition command_of_value :: "int \<Rightarrow> ClientCommand result" where
  "command_of_value v =
     (case find (\<lambda>c. command_value c = v) [PUT, GET, EXIST, LIST, HEALTH] of None \<Rightarrow> Inl ValueError | Some c \<Rightarrow> Inr c)"

datatype ServerReturnCode = SUCCESS | FAIL

fun code_value :: "ServerReturnCode \<Rightarrow> int" where
  "code_value SUCCESS = 200"
| "code_value FAIL = 400"

definition code_of_value :: "int \<Rightarrow> ServerReturnCode result" where
  "code_of_value v = (case find (\<lambda>c. code_value c = v) [SUCCESS, FAIL] of None \<Rightarrow> Inl ValueError | Some c \<Rightarrow> Inr c)"

text \<open>\<^verbatim>\<open>torch.half\<close> is \<^verbatim>\<open>torch.float16\<close>: the later entry of the literal overwrites the earlier one.\<close>

definition DTYPE_TO_INT :: "(torch_dtype option, int) pydict" where
  "DTYPE_TO_INT =
     [(None, 0), (Some ''float16'', 2), (Some ''bfloat16'', 3), (Some ''float32'', 4), (Some ''float64'', 5), (Some ''uint8'', 6),
      (Some ''float8_e4m3fn'', 7), (Some ''float8_e5m2'', 8)]"

definition INT_TO_DTYPE :: "(int, torch_dtype option) pydict" where
  "INT_TO_DTYPE =
     [(0, None), (1, Some ''float16''), (2, Some ''float16''), (3, Some ''bfloat16''), (4, Some ''float32''), (5, Some ''float64''),
      (6, Some ''uint8''), (7, Some ''float8_e4m3fn''), (8, Some ''float8_e5m2'')]"

definition LOCATION_TO_INT :: "(string option, int) pydict" where
  "LOCATION_TO_INT = [(None, 0), (Some ''LocalCPUBackend'', 1), (Some ''LocalDiskBackend'', 2)]"

definition INT_TO_LOCATION :: "(int, string option) pydict" where
  "INT_TO_LOCATION = [(0, None), (1, Some ''LocalCPUBackend''), (2, Some ''LocalDiskBackend'')]"

section \<open>Metadata of a remote chunk\<close>

text \<open>The global \<^verbatim>\<open>REMOTE_METADATA_FMT\<close> is the number of its integers.\<close>

definition init_remote_metadata_info :: "nat \<Rightarrow> nat option" where
  "init_remote_metadata_info num_groups = Some (2 + 5 * num_groups)"

definition get_remote_metadata_bytes :: "nat option \<Rightarrow> nat result" where
  "get_remote_metadata_bytes fmt = (case fmt of None \<Rightarrow> Inl AssertionError | Some n \<Rightarrow> Inr (4 * n))"

record RemoteMetadata =
  rm_length :: int
  rm_shapes :: "torch_size list"
  rm_dtypes :: "torch_dtype option list"
  rm_fmt :: MemoryFormat

text \<open>The loop over \<^verbatim>\<open>zip(shapes, dtypes, strict=True)\<close>.\<close>

fun group_params :: "torch_size list \<Rightarrow> torch_dtype option list \<Rightarrow> int list result" where
  "group_params [] [] = Inr []"
| "group_params (shape # shapes) (dtype # dtypes) =
     (if length shape \<noteq> 4 then Inl AssertionError
      else bind_result (dict_item DTYPE_TO_INT dtype) (\<lambda>d. bind_result (group_params shapes dtypes) (\<lambda>ps. Inr (d # shape @ ps))))"
| "group_params _ _ = Inl ValueError"

definition prepare_params :: "RemoteMetadata \<Rightarrow> int list result" where
  "prepare_params m = bind_result (group_params (rm_shapes m) (rm_dtypes m)) (\<lambda>ps. Inr (rm_length m # format_value (rm_fmt m) # ps))"

definition RemoteMetadata_serialize :: "nat option \<Rightarrow> RemoteMetadata \<Rightarrow> bytes result" where
  "RemoteMetadata_serialize fmt m =
     (case fmt of
        None \<Rightarrow> Inl AssertionError
      | Some n \<Rightarrow> bind_result (prepare_params m) (\<lambda>ps. if length ps = n then pack_ints ps else Inl StructError))"

definition RemoteMetadata_serialize_into :: "nat option \<Rightarrow> RemoteMetadata \<Rightarrow> bytes \<Rightarrow> bytes result" where
  "RemoteMetadata_serialize_into fmt m buffer =
     bind_result (RemoteMetadata_serialize fmt m) (\<lambda>bs.
       if length buffer < length bs then Inl StructError else Inr (bs @ drop (length bs) buffer))"

text \<open>The groups of five integers; the format always has whole groups.\<close>

fun read_groups :: "int list \<Rightarrow> (torch_size list \<times> torch_dtype option list) result" where
  "read_groups [] = Inr ([], [])"
| "read_groups (d # rest) =
     bind_result (dict_item INT_TO_DTYPE d) (\<lambda>dtype.
     bind_result (read_groups (drop 4 rest)) (\<lambda>(shapes, dtypes). Inr (take 4 rest # shapes, dtype # dtypes)))"

definition RemoteMetadata_deserialize :: "nat option \<Rightarrow> bytes \<Rightarrow> RemoteMetadata result" where
  "RemoteMetadata_deserialize fmt s =
     (case fmt of
        None \<Rightarrow> Inl AssertionError
      | Some n \<Rightarrow>
          if length s < 4 * n then Inl StructError
          else (case unpack_ints n s of
                  len # f # groups \<Rightarrow>
                    bind_result (format_of_value f) (\<lambda>memory_fmt.
                    bind_result (read_groups groups) (\<lambda>(shapes, dtypes).
                      Inr \<lparr>rm_length = len, rm_shapes = shapes, rm_dtypes = dtypes, rm_fmt = memory_fmt\<rparr>))
                | _ \<Rightarrow> Inl IndexError))"

section \<open>Requests and replies\<close>

record ClientMetaMessage =
  cm_command :: ClientCommand
  cm_key :: CacheEngineKey
  cm_length :: int
  cm_fmt :: MemoryFormat
  cm_dtype :: "torch_dtype option"
  cm_shape :: torch_size
  cm_location :: "string option"

definition ClientMetaMessage_serialize :: "ClientMetaMessage \<Rightarrow> bytes result" where
  "ClientMetaMessage_serialize m =
     (let key_str = to_string (cm_key m)
      in if length key_str > MAX_KEY_LENGTH then Inl AssertionError
         else if length (cm_shape m) \<noteq> 4 then Inl AssertionError
         else bind_result (dict_item DTYPE_TO_INT (cm_dtype m)) (\<lambda>dtype.
              bind_result (dict_item LOCATION_TO_INT (cm_location m)) (\<lambda>location.
              bind_result (pack_ints ([command_value (cm_command m), cm_length m, format_value (cm_fmt m), dtype, location] @ cm_shape m)) (\<lambda>ints.
                Inr (ints @ pack_s MAX_KEY_LENGTH (ljust MAX_KEY_LENGTH (utf8_encode key_str)))))))"

definition ClientMetaMessage_packlength :: nat where
  "ClientMetaMessage_packlength = 4 * 9 + MAX_KEY_LENGTH"

definition ClientMetaMessage_deserialize :: "(torch_dtype \<Rightarrow> bool) \<Rightarrow> bytes \<Rightarrow> ClientMetaMessage result" where
  "ClientMetaMessage_deserialize has s =
     (if length s \<noteq> 4 * 9 + MAX_KEY_LENGTH then Inl StructError
      else (case unpack_ints 9 s of
              [command, len, fmt, dtype, location, shape0, shape1, shape2, shape3] \<Rightarrow>
                bind_result (command_of_value command) (\<lambda>c.
                bind_result (utf8_decode (drop 36 s)) (\<lambda>key_str.
                bind_result (parse_cache_key has (strip key_str)) (\<lambda>key.
                bind_result (format_of_value fmt) (\<lambda>f.
                bind_result (dict_item INT_TO_DTYPE dtype) (\<lambda>d.
                bind_result (dict_item INT_TO_LOCATION location) (\<lambda>l.
                  Inr \<lparr>cm_command = c, cm_key = key, cm_length = len, cm_fmt = f, cm_dtype = d,
                       cm_shape = [shape0, shape1, shape2, shape3], cm_location = l\<rparr>))))))
            | _ \<Rightarrow> Inl StructError))"

record ServerMetaMessage =
  sm_code :: ServerReturnCode
  sm_length :: int
  sm_fmt :: MemoryFormat
  sm_dtype :: "torch_dtype option"
  sm_shape :: torch_size
  sm_location :: "string option"

definition ServerMetaMessage_serialize :: "ServerMetaMessage \<Rightarrow> bytes result" where
  "ServerMetaMessage_serialize m =
     (if length (sm_shape m) \<noteq> 4 then Inl AssertionError
      else bind_result (dict_item DTYPE_TO_INT (sm_dtype m)) (\<lambda>dtype.
           bind_result (dict_item LOCATION_TO_INT (sm_location m)) (\<lambda>location.
             pack_ints ([code_value (sm_code m), sm_length m, format_value (sm_fmt m), dtype] @ sm_shape m @ [location]))))"

definition ServerMetaMessage_packlength :: nat where
  "ServerMetaMessage_packlength = 4 * 9"

definition ServerMetaMessage_deserialize :: "bytes \<Rightarrow> ServerMetaMessage result" where
  "ServerMetaMessage_deserialize s =
     (if length s \<noteq> 4 * 9 then Inl StructError
      else (case unpack_ints 9 s of
              [code, len, fmt, dtype, shape0, shape1, shape2, shape3, location] \<Rightarrow>
                bind_result (code_of_value code) (\<lambda>c.
                bind_result (format_of_value fmt) (\<lambda>f.
                bind_result (dict_item INT_TO_DTYPE dtype) (\<lambda>d.
                bind_result (dict_item INT_TO_LOCATION location) (\<lambda>l.
                  Inr \<lparr>sm_code = c, sm_length = len, sm_fmt = f, sm_dtype = d, sm_shape = [shape0, shape1, shape2, shape3], sm_location = l\<rparr>))))
            | _ \<Rightarrow> Inl StructError))"

section \<open>Reading back\<close>

definition in_range :: "int \<Rightarrow> bool" where
  "in_range x \<longleftrightarrow> - (2 ^ 31) \<le> x \<and> x < 2 ^ 31"

lemma pack_i_iff: "pack_i x = Inr bs \<longleftrightarrow> in_range x \<and> bs = rev (be_bytes 4 x)"
  by (auto simp: pack_i_def in_range_def)

lemma unpack_pack: "in_range x \<Longrightarrow> unpack_i (rev (be_bytes 4 x)) = x"
proof -
  assume x: "in_range x"
  have "from_bytes (be_bytes 4 x) = x mod 2 ^ 32" by (simp add: from_be_bytes)
  moreover have "x mod 2 ^ 32 = (if 0 \<le> x then x else x + 2 ^ 32)"
  proof (cases "0 \<le> x")
    case False
    then have "x mod 2 ^ 32 = (x + 2 ^ 32) mod 2 ^ 32" by simp
    also have "\<dots> = x + 2 ^ 32" using False x by (intro mod_pos_pos_trivial) (auto simp: in_range_def)
    finally show ?thesis using False by simp
  qed (use x in \<open>simp add: in_range_def\<close>)
  ultimately show ?thesis using x by (simp add: unpack_i_def Let_def in_range_def)
qed

lemma pack_ints_iff: "pack_ints xs = Inr bs \<longleftrightarrow> (\<forall>x \<in> set xs. in_range x) \<and> bs = concat (map (\<lambda>x. rev (be_bytes 4 x)) xs)"
proof -
  have "map_result pack_i xs = Inr bss \<longleftrightarrow> (\<forall>x \<in> set xs. in_range x) \<and> bss = map (\<lambda>x. rev (be_bytes 4 x)) xs" for bss
    unfolding map_result_iff list_all2_conv_all_nth pack_i_iff by (auto simp: all_set_conv_all_nth intro: nth_equalityI)
  moreover have "pack_ints xs = Inr bs \<longleftrightarrow> (\<exists>bss. map_result pack_i xs = Inr bss \<and> bs = concat bss)"
    by (auto simp: pack_ints_def bind_result_def split: sum.split)
  ultimately show ?thesis by auto
qed

lemma unpack_ints_Suc: "unpack_ints (Suc n) bs = unpack_i (take 4 bs) # unpack_ints n (drop 4 bs)"
  by (simp add: unpack_ints_def upt_conv_Cons map_Suc_upt [symmetric] comp_def add.commute del: upt_Suc)

lemma unpack_pack_ints:
  "\<forall>x \<in> set xs. in_range x \<Longrightarrow> unpack_ints (length xs) (concat (map (\<lambda>x. rev (be_bytes 4 x)) xs) @ rest) = xs"
  by (induction xs) (simp_all add: unpack_ints_Suc unpack_pack, simp add: unpack_ints_def)

lemma length_packed [simp]: "length (concat (map (\<lambda>x. rev (be_bytes 4 x)) xs)) = 4 * length xs"
  by (induction xs) simp_all

lemma decode_encode: "utf8_decode (utf8_encode s @ replicate n 32) = Inr (s @ replicate n (CHR '' ''))"
proof (induction s)
  case Nil
  have "char_of (32 :: nat) = CHR '' ''" by code_simp
  then show ?case by (induction n) (simp_all add: bind_result_def)
next
  case (Cons c s)
  let ?n = "of_char c :: nat"
  have n: "?n < 256" by (cases c) (simp add: of_char_def, (auto simp: of_bool_def)?)
  show ?case
  proof (cases "?n < 128")
    case True
    then show ?thesis using Cons n by (simp add: Let_def unat_of_nat bind_result_def)
  next
    case False
    then have d: "?n div 64 = 2 \<or> ?n div 64 = 3" using n by linarith
    have "unat (of_nat (192 + ?n div 64) :: 8 word) = 192 + ?n div 64" using d by (auto simp: unat_of_nat)
    moreover have "unat (of_nat (128 + ?n mod 64) :: 8 word) = 128 + ?n mod 64"
      using mod_less_divisor [of 64 ?n] by (subst unat_of_nat) simp
    moreover have "?n div 64 * 64 + ?n mod 64 = ?n" by simp
    ultimately show ?thesis using Cons False d by (auto simp: Let_def bind_result_def)
  qed
qed

text \<open>The tables are inverse to one another.\<close>

lemma dtype_table: "dict_item DTYPE_TO_INT d = Inr n \<Longrightarrow> dict_item INT_TO_DTYPE n = Inr d \<and> in_range n"
  by (auto simp: dict_item_def DTYPE_TO_INT_def INT_TO_DTYPE_def in_range_def split: if_splits)

lemma location_table: "dict_item LOCATION_TO_INT l = Inr n \<Longrightarrow> dict_item INT_TO_LOCATION n = Inr l \<and> in_range n"
  by (auto simp: dict_item_def LOCATION_TO_INT_def INT_TO_LOCATION_def in_range_def split: if_splits)

lemma command_table: "command_of_value (command_value c) = Inr c" "in_range (command_value c)"
  by (cases c, simp_all add: command_of_value_def in_range_def)+

lemma code_table: "code_of_value (code_value c) = Inr c" "in_range (code_value c)"
  by (cases c, simp_all add: code_of_value_def in_range_def)+

lemma format_table: "format_of_value (format_value f) = Inr f" "in_range (format_value f)"
  by (cases f, simp_all add: format_of_value_def all_formats_def in_range_def)+

lemmas wire_tables = command_table code_table format_table

subsection \<open>Headers\<close>

lemma four: "length xs = 4 \<Longrightarrow> \<exists>a b c d. xs = [a, b, c, d]"
  by (auto simp: length_Suc_conv numeral_eq_Suc)

lemma server_message_roundtrip:
  assumes "length (sm_shape m) = 4" and "dict_item DTYPE_TO_INT (sm_dtype m) = Inr d" and "dict_item LOCATION_TO_INT (sm_location m) = Inr l"
    and "in_range (sm_length m)" and "\<forall>x \<in> set (sm_shape m). in_range x"
  shows "\<exists>bs. ServerMetaMessage_serialize m = Inr bs \<and> length bs = ServerMetaMessage_packlength \<and> ServerMetaMessage_deserialize bs = Inr m"
proof -
  let ?xs = "[code_value (sm_code m), sm_length m, format_value (sm_fmt m), d] @ sm_shape m @ [l]"
  define bs where "bs = concat (map (\<lambda>x. rev (be_bytes 4 x)) ?xs)"
  have r: "\<forall>x \<in> set ?xs. in_range x" using assms dtype_table [OF assms(2)] location_table [OF assms(3)] by (auto simp: wire_tables)
  have ser: "ServerMetaMessage_serialize m = Inr bs"
    using r assms(1) pack_ints_iff [of ?xs bs] by (simp add: ServerMetaMessage_serialize_def assms(2,3) bind_result_def bs_def)
  have len: "length bs = 36" unfolding bs_def length_packed using assms(1) by simp
  have "unpack_ints 9 bs = ?xs" using unpack_pack_ints [OF r, of "[]"] assms(1) by (simp only: bs_def append_Nil2) simp
  moreover obtain s0 s1 s2 s3 where sh: "sm_shape m = [s0, s1, s2, s3]" using four [OF assms(1)] by blast
  ultimately have "unpack_ints 9 bs = [code_value (sm_code m), sm_length m, format_value (sm_fmt m), d, s0, s1, s2, s3, l]" by simp
  then have "ServerMetaMessage_deserialize bs = Inr m"
    using len dtype_table [OF assms(2)] location_table [OF assms(3)]
    by (simp add: ServerMetaMessage_deserialize_def bind_result_def wire_tables flip: sh)
  then show ?thesis using ser len by (simp add: ServerMetaMessage_packlength_def)
qed

text \<open>What a request header can carry besides its key.\<close>

definition sendable :: "ClientMetaMessage \<Rightarrow> bool" where
  "sendable m \<longleftrightarrow>
     length (cm_shape m) = 4 \<and> (\<forall>x \<in> set (cm_shape m). in_range x) \<and> in_range (cm_length m) \<and>
     cm_dtype m \<in> fst ` set DTYPE_TO_INT \<and> cm_location m \<in> fst ` set LOCATION_TO_INT"

lemma dict_item_key: "k \<in> fst ` set d \<Longrightarrow> \<exists>v. dict_item d k = Inr v"
  by (metis dict_item_def map_of_eq_None_iff option.case_eq_if not_None_eq)

lemma client_message_bytes:
  assumes "sendable m" and "length (utf8_encode (to_string (cm_key m))) \<le> MAX_KEY_LENGTH" and "length (to_string (cm_key m)) \<le> MAX_KEY_LENGTH"
    and "stripped (to_string (cm_key m))"
  shows "\<exists>bs. ClientMetaMessage_serialize m = Inr bs \<and> length bs = ClientMetaMessage_packlength \<and>
    ClientMetaMessage_deserialize has bs = bind_result (parse_cache_key has (to_string (cm_key m))) (\<lambda>k. Inr (m\<lparr>cm_key := k\<rparr>))"
proof -
  obtain d l where d: "dict_item DTYPE_TO_INT (cm_dtype m) = Inr d" and l: "dict_item LOCATION_TO_INT (cm_location m) = Inr l"
    using assms(1) dict_item_key unfolding sendable_def by metis
  have four': "length (cm_shape m) = 4" using assms(1) by (simp add: sendable_def)
  let ?xs = "[command_value (cm_command m), cm_length m, format_value (cm_fmt m), d, l] @ cm_shape m"
  let ?s = "to_string (cm_key m)" and ?e = "utf8_encode (to_string (cm_key m))"
  define ints where "ints = concat (map (\<lambda>x. rev (be_bytes 4 x)) ?xs)"
  define key where "key = ?e @ replicate (MAX_KEY_LENGTH - length ?e) 32"
  have r: "\<forall>x \<in> set ?xs. in_range x" using assms(1) dtype_table [OF d] location_table [OF l] by (auto simp: wire_tables sendable_def)
  have key: "pack_s MAX_KEY_LENGTH (ljust MAX_KEY_LENGTH ?e) = key" "length key = MAX_KEY_LENGTH"
    using assms(2) by (simp_all add: pack_s_def ljust_def key_def)
  have ser: "ClientMetaMessage_serialize m = Inr (ints @ key)"
    using r assms(3) four' pack_ints_iff [of ?xs ints] by (simp add: ClientMetaMessage_serialize_def d l bind_result_def ints_def key(1) Let_def)
  have len: "length ints = 36" unfolding ints_def length_packed using four' by simp
  have "unpack_ints 9 (ints @ key) = ?xs" using unpack_pack_ints [OF r, of key] four' by (simp only: ints_def) simp
  moreover obtain s0 s1 s2 s3 where sh: "cm_shape m = [s0, s1, s2, s3]" using four [OF four'] by blast
  ultimately have un: "unpack_ints 9 (ints @ key) = [command_value (cm_command m), cm_length m, format_value (cm_fmt m), d, l, s0, s1, s2, s3]" by simp
  have "strip (?s @ replicate (MAX_KEY_LENGTH - length ?e) (CHR '' '')) = ?s"
    using assms(4) by (intro strip_padded) (auto simp: is_space_def)
  then have dec: "utf8_decode (drop 36 (ints @ key)) = Inr (?s @ replicate (MAX_KEY_LENGTH - length ?e) (CHR '' ''))"
      "strip (?s @ replicate (MAX_KEY_LENGTH - length ?e) (CHR '' '')) = ?s"
    using len by (simp_all add: key_def decode_encode)
  have same: "\<lparr>cm_command = cm_command m, cm_key = k, cm_length = cm_length m, cm_fmt = cm_fmt m, cm_dtype = cm_dtype m,
      cm_shape = [s0, s1, s2, s3], cm_location = cm_location m\<rparr> = m\<lparr>cm_key := k\<rparr>" for k using sh by (cases m) simp
  have "length (ints @ key) = 4 * 9 + MAX_KEY_LENGTH" using len key(2) by simp
  then have "ClientMetaMessage_deserialize has (ints @ key) = bind_result (parse_cache_key has ?s) (\<lambda>k. Inr (m\<lparr>cm_key := k\<rparr>))"
    unfolding ClientMetaMessage_deserialize_def un dec(1) using dtype_table [OF d] location_table [OF l]
    by (simp add: dec(2) wire_tables bind_result_def same split: sum.split)
  then show ?thesis using ser len key(2) by (simp add: ClientMetaMessage_packlength_def)
qed

text \<open>Keys that a request can carry.\<close>

definition wire_key :: "(torch_dtype \<Rightarrow> bool) \<Rightarrow> CacheEngineKey \<Rightarrow> bool" where
  "wire_key has k \<longleftrightarrow>
     made has k \<and> printable_key has k \<and> stripped (to_string k) \<and>
     length (to_string k) \<le> MAX_KEY_LENGTH \<and> length (utf8_encode (to_string k)) \<le> MAX_KEY_LENGTH"

lemma layer_request_refused:
  assumes "sendable m" and "wire_key has (cm_key m)" and "ck_layer_id (cm_key m) = Some l"
  shows "\<exists>bs. ClientMetaMessage_serialize m = Inr bs \<and> ClientMetaMessage_deserialize has bs = Inl ValueError"
proof -
  have "parse_cache_key has (to_string (cm_key m)) = Inl ValueError"
    using assms(2,3) layer_key_refused unfolding wire_key_def by blast
  then show ?thesis
    using client_message_bytes [OF assms(1), of has] assms(2) by (auto simp: wire_key_def bind_result_def)
qed

lemma whole_request_read:
  assumes "sendable m" and "wire_key has (cm_key m)" and "ck_layer_id (cm_key m) = None"
  shows "\<exists>bs k. ClientMetaMessage_serialize m = Inr bs \<and> length bs = ClientMetaMessage_packlength \<and>
    ClientMetaMessage_deserialize has bs = Inr (m\<lparr>cm_key := k\<rparr>) \<and> key_eq (cm_key m) k \<and> made has k"
proof -
  obtain k where "parse_cache_key has (to_string (cm_key m)) = Inr k" "key_eq (cm_key m) k" "made has k"
    using assms(2,3) key_read_back [of has "cm_key m"] parse_whole_key [of has "cm_key m"] unfolding wire_key_def by auto
  then show ?thesis using client_message_bytes [OF assms(1), of has] assms(2) by (auto simp: wire_key_def bind_result_def)
qed

subsection \<open>Metadata of a chunk\<close>

lemma group_params_read:
  "group_params shapes dtypes = Inr ps \<Longrightarrow> read_groups ps = Inr (shapes, dtypes) \<and> length ps = 5 * length shapes"
proof (induction shapes dtypes arbitrary: ps rule: group_params.induct)
  case (2 shape shapes dtype dtypes)
  then obtain d qs where "length shape = 4" "dict_item DTYPE_TO_INT dtype = Inr d" "group_params shapes dtypes = Inr qs" "ps = d # shape @ qs"
    by (auto simp: bind_result_def split: if_splits sum.splits)
  then show ?case using 2(1) [of qs] dtype_table [of dtype d] by (simp add: bind_result_def)
qed simp_all

lemma remote_metadata_roundtrip:
  assumes "RemoteMetadata_serialize (init_remote_metadata_info n) m = Inr bs"
  shows "RemoteMetadata_deserialize (init_remote_metadata_info n) (bs @ payload) = Inr m \<and> get_remote_metadata_bytes (init_remote_metadata_info n) = Inr (length bs)"
proof -
  obtain ps where ps: "group_params (rm_shapes m) (rm_dtypes m) = Inr ps" and len: "length ps = 5 * n"
      and pack: "pack_ints (rm_length m # format_value (rm_fmt m) # ps) = Inr bs"
    using assms by (auto simp: RemoteMetadata_serialize_def init_remote_metadata_info_def prepare_params_def bind_result_def split: sum.splits if_splits)
  let ?xs = "rm_length m # format_value (rm_fmt m) # ps"
  have r: "\<forall>x \<in> set ?xs. in_range x" and bs: "bs = concat (map (\<lambda>x. rev (be_bytes 4 x)) ?xs)" using pack unfolding pack_ints_iff by blast+
  have "length bs = 4 * (2 + 5 * n)" unfolding bs length_packed using len by simp
  moreover have "unpack_ints (2 + 5 * n) (bs @ payload) = ?xs" using unpack_pack_ints [OF r, of payload] len by (simp only: bs) simp
  ultimately show ?thesis
    using group_params_read [OF ps]
    by (simp add: RemoteMetadata_deserialize_def init_remote_metadata_info_def get_remote_metadata_bytes_def bind_result_def wire_tables)
qed

end
