(* ===== verification/Remote_Server.thy ===== *)
theory Remote_Server
  imports Remote_Protocol
begin

text \<open>
  The remote cache server of \<^verbatim>\<open>lmcache/v1/server/\<close> and its client \<^verbatim>\<open>LMCServerConnector\<close> of
  \<^verbatim>\<open>lmcache/v1/storage_backend/connector/\<close>, over byte streams.

  A socket's unread input is the list of the non-empty pieces in which the network will deliver
  it; \<^verbatim>\<open>recv\<close> returns at most one piece. Where the input of a server thread ends, the client has
  closed the connection. A server thread shares nothing with the others but the store, which
  it enters once for each request under the lock of the store, so one iteration of its loop is
  one step. \<open>net\<close> says how the network cuts what \<^verbatim>\<open>sendall\<close> sends. The allocator of the client is an
  argument, \<open>allocate\<close>, that gives the buffer of the new object. Log lines are left out.

  Shown: \<^verbatim>\<open>receive_all\<close> does not depend on how the stream is cut; the store answers with the last object put
  under an equal key; what one client puts another gets; and three ways in which a
  connection or a key is spoilt.
\<close>

section \<open>Sockets\<close>

type_synonym packets = "bytes list"

fun sock_recv :: "nat \<Rightarrow> packets \<Rightarrow> bytes \<times> packets" where
  "sock_recv n [] = ([], [])"
| "sock_recv n (p # ps) = (if length p \<le> n then (p, ps) else (take n p, drop n p # ps))"

function receive_loop :: "nat \<Rightarrow> bytes \<Rightarrow> packets \<Rightarrow> bytes option \<times> packets" where
  "receive_loop n data ps =
     (if length data < n
      then (let (packet, ps') = sock_recv (n - length data) ps
            in if packet = [] then (None, ps') else receive_loop n (data @ packet) ps')
      else (Some data, ps))"
  by auto
termination
  by (relation "measure (\<lambda>(n, data, ps). n - length data)") (auto intro!: diff_less_mono2)

declare receive_loop.simps [simp del]

definition LMCacheServer_receive_all :: "packets \<Rightarrow> int \<Rightarrow> bytes option \<times> packets" where
  "LMCacheServer_receive_all client_socket n = receive_loop (nat n) [] client_socket"

section \<open>The store\<close>

record LMSMemoryObj =
  lms_data :: "bytes option"
  lms_length :: int
  lms_fmt :: MemoryFormat
  lms_dtype :: "torch_dtype option"
  lms_shape :: torch_size

text \<open>An \<^verbatim>\<open>OrderedDict\<close> over keys, which compares them with \<^verbatim>\<open>__eq__\<close> and keeps the key of the first insertion.\<close>

type_synonym LMSLocalBackend = "(CacheEngineKey \<times> LMSMemoryObj) list"

fun lms_get :: "LMSLocalBackend \<Rightarrow> CacheEngineKey \<Rightarrow> LMSMemoryObj option" where
  "lms_get [] key = None"
| "lms_get ((k, v) # d) key = (if key_eq key k then Some v else lms_get d key)"

definition lms_contains :: "LMSLocalBackend \<Rightarrow> CacheEngineKey \<Rightarrow> bool" where
  "lms_contains d key \<longleftrightarrow> (\<exists>k \<in> fst ` set d. key_eq key k)"

fun lms_set :: "CacheEngineKey \<Rightarrow> LMSMemoryObj \<Rightarrow> LMSLocalBackend \<Rightarrow> LMSLocalBackend" where
  "lms_set key v [] = [(key, v)]"
| "lms_set key v ((k, u) # d) = (if key_eq key k then (k, v) # d else (k, u) # lms_set key v d)"

fun lms_remove :: "CacheEngineKey \<Rightarrow> LMSLocalBackend \<Rightarrow> LMSLocalBackend result" where
  "lms_remove key [] = Inl KeyError"
| "lms_remove key ((k, v) # d) = (if key_eq key k then Inr d else bind_result (lms_remove key d) (\<lambda>d'. Inr ((k, v) # d')))"

definition lms_list_keys :: "LMSLocalBackend \<Rightarrow> CacheEngineKey list" where
  "lms_list_keys d = map fst d"

definition lms_put :: "ClientMetaMessage \<Rightarrow> bytes option \<Rightarrow> LMSLocalBackend \<Rightarrow> LMSLocalBackend" where
  "lms_put client_meta kv_chunk_bytes d =
     lms_set (cm_key client_meta)
       \<lparr>lms_data = kv_chunk_bytes, lms_length = cm_length client_meta, lms_fmt = cm_fmt client_meta, lms_dtype = cm_dtype client_meta,
        lms_shape = cm_shape client_meta\<rparr> d"

definition CreateStorageBackend :: "string \<Rightarrow> LMSLocalBackend result" where
  "CreateStorageBackend device = (if device = ''cpu'' then Inr [] else Inl ValueError)"

section \<open>The server\<close>

definition short_reply :: "ServerReturnCode \<Rightarrow> ServerMetaMessage" where
  "short_reply c = \<lparr>sm_code = c, sm_length = 0, sm_fmt = KV_2LTD, sm_dtype = Some ''float16'', sm_shape = [0, 0, 0, 0], sm_location = None\<rparr>"

definition get_reply :: "LMSMemoryObj \<Rightarrow> ServerMetaMessage" where
  "get_reply v =
     \<lparr>sm_code = SUCCESS, sm_length = lms_length v, sm_fmt = lms_fmt v, sm_dtype = lms_dtype v, sm_shape = lms_shape v, sm_location = None\<rparr>"

text \<open>The \<^verbatim>\<open>match\<close> of the loop: the outcome, the store, the rest of the input and the messages sent.\<close>

definition send_reply :: "ServerMetaMessage \<Rightarrow> unit result \<times> bytes list" where
  "send_reply m = (case ServerMetaMessage_serialize m of Inl e \<Rightarrow> (Inl e, []) | Inr bs \<Rightarrow> (Inr (), [bs]))"

definition serve_get :: "LMSLocalBackend \<Rightarrow> CacheEngineKey \<Rightarrow> unit result \<times> bytes list" where
  "serve_get d key =
     (case lms_get d key of
        Some v \<Rightarrow>
          (case send_reply (get_reply v) of
             (Inl e, out) \<Rightarrow> (Inl e, out)
           | (Inr _, out) \<Rightarrow> (case lms_data v of None \<Rightarrow> (Inl TypeError, out) | Some bs \<Rightarrow> (Inr (), out @ [bs])))
      | None \<Rightarrow> send_reply (short_reply FAIL))"

definition serve_command ::
  "LMSLocalBackend \<Rightarrow> ClientMetaMessage \<Rightarrow> packets \<Rightarrow> unit result \<times> LMSLocalBackend \<times> packets \<times> bytes list"
where
  "serve_command d meta ps =
     (case cm_command meta of
        PUT \<Rightarrow> (let (s, ps') = LMCacheServer_receive_all ps (cm_length meta) in (Inr (), lms_put meta s d, ps', []))
      | GET \<Rightarrow> (let (r, out) = serve_get d (cm_key meta) in (r, d, ps, out))
      | EXIST \<Rightarrow> (let (r, out) = send_reply (short_reply (if lms_contains d (cm_key meta) then SUCCESS else FAIL)) in (r, d, ps, out))
      | HEALTH \<Rightarrow> (let (r, out) = send_reply (short_reply SUCCESS) in (r, d, ps, out))
      | LIST \<Rightarrow> (Inr (), d, ps, []))"

text \<open>One iteration of \<^verbatim>\<open>handle_client\<close>; \<open>Inr False\<close> is the \<^verbatim>\<open>break\<close>.\<close>

definition handle_request ::
  "(torch_dtype \<Rightarrow> bool) \<Rightarrow> LMSLocalBackend \<Rightarrow> packets \<Rightarrow> bool result \<times> LMSLocalBackend \<times> packets \<times> bytes list"
where
  "handle_request has d ps =
     (case LMCacheServer_receive_all ps (int ClientMetaMessage_packlength) of
        (None, ps') \<Rightarrow> (Inr False, d, ps', [])
      | (Some header, ps') \<Rightarrow>
          (case ClientMetaMessage_deserialize has header of
             Inl e \<Rightarrow> (Inl e, d, ps', [])
           | Inr meta \<Rightarrow> (case serve_command d meta ps' of (r, d', ps'', out) \<Rightarrow> (bind_result r (\<lambda>_. Inr True), d', ps'', out))))"

section \<open>The client\<close>

text \<open>
  A connection: what the server has not read, what the client has not read, and whether the server
  still has the socket open.
\<close>

record lm_conn =
  lc_to_server :: packets
  lc_to_client :: packets
  lc_open :: bool

text \<open>A whole request is there, so that the server reads it without waiting.\<close>

definition request_ready :: "(torch_dtype \<Rightarrow> bool) \<Rightarrow> packets \<Rightarrow> bool" where
  "request_ready has ps \<longleftrightarrow>
     ClientMetaMessage_packlength \<le> length (concat ps) \<and>
     (case ClientMetaMessage_deserialize has (take ClientMetaMessage_packlength (concat ps)) of
        Inl e \<Rightarrow> True
      | Inr meta \<Rightarrow> cm_command meta \<noteq> PUT \<or> ClientMetaMessage_packlength + nat (cm_length meta) \<le> length (concat ps))"

lemma recv_appends: "sock_recv n ps = (p, ps') \<Longrightarrow> concat ps = p @ concat ps'"
  by (cases ps) (auto split: if_splits)

lemma receive_loop_appends: "receive_loop n data ps = (Some d, ps') \<Longrightarrow> data @ concat ps = d @ concat ps' \<and> n \<le> length d"
proof (induction n data ps rule: receive_loop.induct)
  case (1 n data ps)
  show ?case
  proof (cases "length data < n")
    case True
    obtain p qs where r: "sock_recv (n - length data) ps = (p, qs)" by (cases "sock_recv (n - length data) ps")
    have "p \<noteq> []" using 1(2) True r by (subst (asm) receive_loop.simps) (auto split: if_splits)
    moreover have "receive_loop n (data @ p) qs = (Some d, ps')"
      using 1(2) True r \<open>p \<noteq> []\<close> by (subst (asm) receive_loop.simps) simp
    ultimately show ?thesis using 1(1) [OF True r [symmetric] refl] recv_appends [OF r] by simp
  next
    case False
    then show ?thesis using 1(2) by (subst (asm) receive_loop.simps) simp
  qed
qed

lemma receive_loop_shrinks: "length (concat (snd (receive_loop n data ps))) \<le> length (concat ps)"
proof (induction n data ps rule: receive_loop.induct)
  case (1 n data ps)
  obtain p qs where r: "sock_recv (n - length data) ps = (p, qs)" by (cases "sock_recv (n - length data) ps")
  have "length (concat ps) = length p + length (concat qs)" using recv_appends [OF r] by (metis length_append)
  then show ?case using 1 r by (subst receive_loop.simps) (fastforce simp: Let_def)
qed

lemma handle_request_consumes:
  assumes "handle_request has d ps = (Inr True, d', ps', out)"
  shows "length (concat ps') < length (concat ps)"
proof -
  obtain header qs meta where q: "LMCacheServer_receive_all ps (int ClientMetaMessage_packlength) = (Some header, qs)"
      and s: "serve_command d meta qs = (Inr (), d', ps', out)"
    using assms by (auto simp: handle_request_def bind_result_def split: prod.splits option.splits sum.splits)
  have "length (concat ps) = length header + length (concat qs)" "0 < length header"
    using receive_loop_appends [OF q [unfolded LMCacheServer_receive_all_def]]
    by (metis append_Nil length_append, auto simp: ClientMetaMessage_packlength_def)
  moreover have "length (concat ps') \<le> length (concat qs)"
    using s receive_loop_shrinks [of _ "[]" qs]
    by (auto simp: serve_command_def LMCacheServer_receive_all_def Let_def split: ClientCommand.splits prod.splits)
      (metis snd_conv)
  ultimately show ?thesis by linarith
qed

text \<open>\<^verbatim>\<open>handle_client\<close> on everything that a client ever sends.\<close>

function handle_client ::
  "(torch_dtype \<Rightarrow> bool) \<Rightarrow> LMSLocalBackend \<Rightarrow> packets \<Rightarrow> bool result \<times> LMSLocalBackend \<times> bytes list"
where
  "handle_client has d ps =
     (case handle_request has d ps of
        (Inr True, d', ps', out) \<Rightarrow> (case handle_client has d' ps' of (r, d'', out') \<Rightarrow> (r, d'', out @ out'))
      | (r, d', ps', out) \<Rightarrow> (r, d', out))"
  by pat_completeness auto
termination
  by (relation "measure (\<lambda>(has, d, ps). length (concat ps))") (auto dest: handle_request_consumes [OF sym])

declare handle_client.simps [simp del]

text \<open>
  The server answers every whole request that has arrived. Bytes sent to a closed connection are
  never read.
\<close>

function serve ::
  "(torch_dtype \<Rightarrow> bool) \<Rightarrow> (bytes \<Rightarrow> packets) \<Rightarrow> LMSLocalBackend \<Rightarrow> lm_conn \<Rightarrow> LMSLocalBackend \<times> lm_conn"
where
  "serve has net d c =
     (if lc_open c \<and> request_ready has (lc_to_server c)
      then (case handle_request has d (lc_to_server c) of
              (r, d', ps', out) \<Rightarrow>
                serve has net d' (c\<lparr>lc_to_server := ps', lc_to_client := lc_to_client c @ concat (map net out), lc_open := (r = Inr True)\<rparr>))
      else (d, c))"
  by pat_completeness auto
termination
  by (relation "measure (\<lambda>(has, net, d, c). if lc_open c then Suc (length (concat (lc_to_server c))) else 0)")
    (auto dest: handle_request_consumes [OF sym])

declare serve.simps [simp del]

definition conn_send :: "(bytes \<Rightarrow> packets) \<Rightarrow> bytes \<Rightarrow> lm_conn \<Rightarrow> lm_conn" where
  "conn_send net bs c = c\<lparr>lc_to_server := lc_to_server c @ net bs\<rparr>"

record remote_obj =
  ro_bytes :: bytes
  ro_shape :: torch_size
  ro_dtype :: "torch_dtype option"
  ro_fmt :: MemoryFormat

definition query :: "ClientCommand \<Rightarrow> CacheEngineKey \<Rightarrow> ClientMetaMessage" where
  "query c key =
     \<lparr>cm_command = c, cm_key = key, cm_length = 0, cm_fmt = KV_2LTD, cm_dtype = Some ''float16'', cm_shape = [0, 0, 0, 0], cm_location = None\<rparr>"

text \<open>
  A query: \<^verbatim>\<open>sendall\<close> of the header and one \<^verbatim>\<open>recv\<close> of the length of a reply. The outer \<open>None\<close> is a \<^verbatim>\<open>recv\<close> that never
  returns; on a connection that the server closed it returns no bytes.
\<close>

definition send_query ::
  "(torch_dtype \<Rightarrow> bool) \<Rightarrow> (bytes \<Rightarrow> packets) \<Rightarrow> LMSLocalBackend \<Rightarrow> lm_conn \<Rightarrow> ClientMetaMessage \<Rightarrow> (ServerMetaMessage result \<times> LMSLocalBackend \<times> lm_conn) option"
where
  "send_query has net d c m =
     (case ClientMetaMessage_serialize m of
        Inl e \<Rightarrow> Some (Inl e, d, c)
      | Inr bs \<Rightarrow>
          (let (d', c') = serve has net d (conn_send net bs c);
               (data, ps) = sock_recv ServerMetaMessage_packlength (lc_to_client c')
           in if data = [] \<and> lc_open c' then None else Some (ServerMetaMessage_deserialize data, d', c'\<lparr>lc_to_client := ps\<rparr>)))"

definition connector_exists ::
  "(torch_dtype \<Rightarrow> bool) \<Rightarrow> (bytes \<Rightarrow> packets) \<Rightarrow> LMSLocalBackend \<Rightarrow> lm_conn \<Rightarrow> CacheEngineKey \<Rightarrow> (bool result \<times> LMSLocalBackend \<times> lm_conn) option"
where
  "connector_exists has net d c key =
     (case send_query has net d c (query EXIST key) of
        None \<Rightarrow> None
      | Some (r, d', c') \<Rightarrow> Some (bind_result r (\<lambda>m. Inr (sm_code m = SUCCESS)), d', c'))"

definition connector_exists_sync ::
  "(torch_dtype \<Rightarrow> bool) \<Rightarrow> (bytes \<Rightarrow> packets) \<Rightarrow> LMSLocalBackend \<Rightarrow> lm_conn \<Rightarrow> CacheEngineKey \<Rightarrow> (bool \<times> LMSLocalBackend \<times> lm_conn) option"
where
  "connector_exists_sync has net d c key =
     (case connector_exists has net d c key of
        None \<Rightarrow> None
      | Some (r, d', c') \<Rightarrow> Some (case r of Inl e \<Rightarrow> False | Inr b \<Rightarrow> b, d', c'))"

definition put_message :: "CacheEngineKey \<Rightarrow> remote_obj \<Rightarrow> ClientMetaMessage" where
  "put_message key obj =
     \<lparr>cm_command = PUT, cm_key = key, cm_length = int (length (ro_bytes obj)), cm_fmt = ro_fmt obj, cm_dtype = ro_dtype obj, cm_shape = ro_shape obj,
      cm_location = None\<rparr>"

definition connector_put ::
  "(torch_dtype \<Rightarrow> bool) \<Rightarrow> (bytes \<Rightarrow> packets) \<Rightarrow> LMSLocalBackend \<Rightarrow> lm_conn \<Rightarrow> CacheEngineKey \<Rightarrow> remote_obj \<Rightarrow> unit result \<times> LMSLocalBackend \<times> lm_conn"
where
  "connector_put has net d c key obj =
     (case ClientMetaMessage_serialize (put_message key obj) of
        Inl e \<Rightarrow> (Inl e, d, c)
      | Inr bs \<Rightarrow> (Inr (), serve has net d (conn_send net (ro_bytes obj) (conn_send net bs c))))"

text \<open>The client's \<^verbatim>\<open>receive_all\<close>: its loop is the server's, into the buffer of a new memory object.\<close>

definition connector_receive_all ::
  "(torch_size \<Rightarrow> torch_dtype option \<Rightarrow> MemoryFormat \<Rightarrow> bytes option) \<Rightarrow> lm_conn \<Rightarrow> ServerMetaMessage \<Rightarrow> (remote_obj option result \<times> lm_conn) option"
where
  "connector_receive_all allocate c meta =
     (case allocate (sm_shape meta) (sm_dtype meta) (sm_fmt meta) of
        None \<Rightarrow> Some (Inr None, c)
      | Some buffer \<Rightarrow>
          (let n = nat (sm_length meta)
           in if length buffer < n then Some (Inl ValueError, c)
              else (case receive_loop n [] (lc_to_client c) of
                      (None, ps) \<Rightarrow> if lc_open c then None else Some (Inr None, c\<lparr>lc_to_client := ps\<rparr>)
                    | (Some data, ps) \<Rightarrow>
                        Some (Inr (Some \<lparr>ro_bytes = data @ drop n buffer, ro_shape = sm_shape meta, ro_dtype = sm_dtype meta, ro_fmt = sm_fmt meta\<rparr>),
                              c\<lparr>lc_to_client := ps\<rparr>))))"

definition connector_get ::
  "(torch_dtype \<Rightarrow> bool) \<Rightarrow> (bytes \<Rightarrow> packets) \<Rightarrow> (torch_size \<Rightarrow> torch_dtype option \<Rightarrow> MemoryFormat \<Rightarrow> bytes option) \<Rightarrow> LMSLocalBackend \<Rightarrow> lm_conn \<Rightarrow>
   CacheEngineKey \<Rightarrow> (remote_obj option result \<times> LMSLocalBackend \<times> lm_conn) option"
where
  "connector_get has net allocate d c key =
     (case send_query has net d c (query GET key) of
        None \<Rightarrow> None
      | Some (Inl e, d', c') \<Rightarrow> Some (Inl e, d', c')
      | Some (Inr meta, d', c') \<Rightarrow>
          if sm_code meta \<noteq> SUCCESS then Some (Inr None, d', c')
          else (case connector_receive_all allocate c' meta of None \<Rightarrow> None | Some (r, c'') \<Rightarrow> Some (r, d', c'')))"

text \<open>
  The batched operations that \<^verbatim>\<open>RemoteConnector\<close> derives. \<^verbatim>\<open>gather\<close> runs the calls in order, since none of
  them gives up control while the lock is free.
\<close>

fun exists_all ::
  "(torch_dtype \<Rightarrow> bool) \<Rightarrow> (bytes \<Rightarrow> packets) \<Rightarrow> LMSLocalBackend \<Rightarrow> lm_conn \<Rightarrow> CacheEngineKey list \<Rightarrow> (bool result list \<times> LMSLocalBackend \<times> lm_conn) option"
where
  "exists_all has net d c [] = Some ([], d, c)"
| "exists_all has net d c (key # keys) =
     (case connector_exists has net d c key of
        None \<Rightarrow> None
      | Some (r, d', c') \<Rightarrow>
          (case exists_all has net d' c' keys of None \<Rightarrow> None | Some (rs, d'', c'') \<Rightarrow> Some (r # rs, d'', c'')))"

definition batched_async_contains ::
  "(torch_dtype \<Rightarrow> bool) \<Rightarrow> (bytes \<Rightarrow> packets) \<Rightarrow> LMSLocalBackend \<Rightarrow> lm_conn \<Rightarrow> CacheEngineKey list \<Rightarrow> (nat result \<times> LMSLocalBackend \<times> lm_conn) option"
where
  "batched_async_contains has net d c keys =
     (case exists_all has net d c keys of
        None \<Rightarrow> None
      | Some (rs, d', c') \<Rightarrow> Some (bind_result (map_result id rs) (\<lambda>results. Inr (length (takeWhile id results))), d', c'))"

text \<open>The objects before the first failure, and those after it, whose references are dropped.\<close>

fun consecutive_prefix :: "'a option result list \<Rightarrow> 'a list \<times> 'a list" where
  "consecutive_prefix [] = ([], [])"
| "consecutive_prefix (r # rs) =
     (case r of
        Inr (Some x) \<Rightarrow> (case consecutive_prefix rs of (kept, released) \<Rightarrow> (x # kept, released))
      | _ \<Rightarrow> ([], concat (map (\<lambda>r. case r of Inr (Some x) \<Rightarrow> [x] | _ \<Rightarrow> []) rs)))"

text \<open>\<^verbatim>\<open>reshape_partial_chunk\<close>, for a chunk of which only the first bytes were read.\<close>

definition reshape_partial_chunk :: "nat \<Rightarrow> nat \<Rightarrow> remote_obj \<Rightarrow> nat \<Rightarrow> remote_obj result" where
  "reshape_partial_chunk full_chunk_size single_token_size obj bytes_read =
     (if bytes_read = 0 then Inl ValueError
      else if single_token_size = 0 then Inl ZeroDivisionError
      else if bytes_read mod single_token_size \<noteq> 0 \<or> bytes_read > full_chunk_size then Inl ValueError
      else if bytes_read = full_chunk_size then Inr obj
      else if length (ro_shape obj) \<le> 2 then Inl IndexError
      else Inr (obj\<lparr>ro_bytes := take bytes_read (ro_bytes obj), ro_shape := (ro_shape obj)[2 := int (bytes_read div single_token_size)]\<rparr>))"

section \<open>Streams\<close>

lemma sock_recv_pieces: "[] \<notin> set ps \<Longrightarrow> 0 < n \<Longrightarrow> sock_recv n ps = (p, ps') \<Longrightarrow> [] \<notin> set ps' \<and> (p = [] \<longleftrightarrow> ps = []) \<and> length p \<le> n"
  by (cases ps) (auto split: if_splits)

lemma receive_loop_spec:
  assumes "[] \<notin> set ps" and "length data \<le> n"
  shows "if n - length data \<le> length (concat ps)
    then \<exists>ps'. receive_loop n data ps = (Some (data @ take (n - length data) (concat ps)), ps') \<and> concat ps' = drop (n - length data) (concat ps) \<and> [] \<notin> set ps'
    else receive_loop n data ps = (None, [])"
  using assms
proof (induction n data ps rule: receive_loop.induct)
  case (1 n data ps)
  show ?case
  proof (cases "length data < n")
    case True
    obtain p qs where r: "sock_recv (n - length data) ps = (p, qs)" by (cases "sock_recv (n - length data) ps")
    have q: "[] \<notin> set qs" "p = [] \<longleftrightarrow> ps = []" "length p \<le> n - length data" using sock_recv_pieces [OF 1(2) _ r] True by auto
    have c: "concat ps = p @ concat qs" by (rule recv_appends [OF r])
    show ?thesis
    proof (cases "ps = []")
      case ps: True
      then show ?thesis using True by (subst receive_loop.simps, subst receive_loop.simps) simp
    next
      case False
      have l: "length (data @ p) \<le> n" using q True by simp
      have "receive_loop n data ps = receive_loop n (data @ p) qs" using False q True r by (subst receive_loop.simps) simp
      then show ?thesis using 1(1) [OF True r [symmetric] refl _ q(1) l] False q c by (auto simp: le_diff_conv)
    qed
  next
    case False
    then show ?thesis using 1(2,3) by (simp add: receive_loop.simps)
  qed
qed

lemma receive_all_enough:
  assumes "[] \<notin> set ps" and "concat ps = a @ b" and "nat n = length a"
  shows "\<exists>ps'. LMCacheServer_receive_all ps n = (Some a, ps') \<and> concat ps' = b \<and> [] \<notin> set ps'"
  using receive_loop_spec [OF assms(1), of "[]" "nat n"] assms(2,3) by (auto simp: LMCacheServer_receive_all_def)

lemma receive_all_short:
  assumes "[] \<notin> set ps" and "length (concat ps) < nat n"
  shows "LMCacheServer_receive_all ps n = (None, [])"
  using receive_loop_spec [OF assms(1), of "[]" "nat n"] assms(2) by (auto simp: LMCacheServer_receive_all_def)

section \<open>Laws of the store\<close>

definition compared :: "CacheEngineKey \<Rightarrow> string \<times> int \<times> int \<times> chunk_hash \<times> torch_dtype \<times> (string \<times> string) list option \<times> int option" where
  "compared k = (ck_model_name k, ck_world_size k, ck_worker_id k, ck_chunk_hash k, ck_dtype k, ck_tags k, ck_layer_id k)"

lemma key_eq_iff: "key_eq k k' \<longleftrightarrow> compared k = compared k'"
  by (auto simp: key_eq_def compared_def)

lemma lms_get_cong: "key_eq k k' \<Longrightarrow> lms_get d k = lms_get d k'"
  by (induction d) (auto simp: key_eq_iff)

lemma lms_get_set: "lms_get (lms_set key v d) key' = (if key_eq key' key then Some v else lms_get d key')"
proof (induction d)
  case (Cons kv d)
  then show ?case by (cases kv) (auto simp: key_eq_iff)
qed simp

lemma lms_contains_get: "lms_contains d key \<longleftrightarrow> lms_get d key \<noteq> None"
  by (induction d) (auto simp: lms_contains_def)

text \<open>No two keys of the store are equal.\<close>

fun lms_ok :: "LMSLocalBackend \<Rightarrow> bool" where
  "lms_ok [] = True"
| "lms_ok ((k, v) # d) = (\<not> lms_contains d k \<and> lms_ok d)"

lemma lms_set_ok: "lms_ok d \<Longrightarrow> lms_ok (lms_set key v d)"
proof (induction d)
  case (Cons kv d)
  then show ?case by (cases kv) (auto simp: lms_contains_get lms_get_set key_eq_iff)
qed (simp add: lms_contains_def)

lemma lms_get_remove: "lms_ok d \<Longrightarrow> lms_remove key d = Inr d' \<Longrightarrow> lms_ok d' \<and> lms_get d' key' = (if key_eq key' key then None else lms_get d key')"
proof (induction d arbitrary: d' key')
  case (Cons kv d)
  obtain k v where kv: "kv = (k, v)" by (cases kv)
  show ?case
  proof (cases "key_eq key k")
    case True
    then have "d' = d" using Cons.prems kv by simp
    moreover have "lms_get d k' = None" if "key_eq k' key" for k'
      using Cons.prems(1) kv lms_get_cong [of k' k d] that True by (auto simp: lms_contains_get key_eq_iff)
    ultimately show ?thesis using Cons.prems kv True by (auto simp: key_eq_iff)
  next
    case False
    then obtain e where e: "lms_remove key d = Inr e" "d' = (k, v) # e"
      using Cons.prems(2) kv by (auto simp: bind_result_def split: sum.splits)
    have IH: "lms_ok e \<and> lms_get e k' = (if key_eq k' key then None else lms_get d k')" for k'
      using Cons.IH [OF _ e(1)] Cons.prems(1) kv by simp
    show ?thesis using IH [of k] IH [of key'] Cons.prems(1) False kv e(2) by (auto simp: lms_contains_get key_eq_iff split: if_splits)
  qed
qed simp

section \<open>One request\<close>

definition delivers :: "(bytes \<Rightarrow> packets) \<Rightarrow> bool" where
  "delivers net \<longleftrightarrow> (\<forall>b. concat (net b) = b \<and> [] \<notin> set (net b))"

definition whole_headers :: "(bytes \<Rightarrow> packets) \<Rightarrow> bool" where
  "whole_headers net \<longleftrightarrow> (\<forall>b. length b = ServerMetaMessage_packlength \<longrightarrow> net b = [b])"

definition idle :: "lm_conn \<Rightarrow> bool" where
  "idle c \<longleftrightarrow> lc_to_server c = [] \<and> lc_to_client c = [] \<and> lc_open c"

lemma no_pieces: "concat ps = [] \<Longrightarrow> [] \<notin> set ps \<Longrightarrow> ps = []"
  by (cases ps) auto

lemma not_ready [simp]: "\<not> request_ready has []"
  by (simp add: request_ready_def ClientMetaMessage_packlength_def)

lemma handle_whole:
  assumes "[] \<notin> set ps" and "concat ps = bs @ rest" and "length bs = ClientMetaMessage_packlength" and "ClientMetaMessage_deserialize has bs = Inr m"
  shows "\<exists>ps'. concat ps' = rest \<and> [] \<notin> set ps' \<and>
    handle_request has d ps = (case serve_command d m ps' of (r, d', ps'', out) \<Rightarrow> (bind_result r (\<lambda>_. Inr True), d', ps'', out))"
proof -
  obtain ps' where "LMCacheServer_receive_all ps (int ClientMetaMessage_packlength) = (Some bs, ps')" "concat ps' = rest" "[] \<notin> set ps'"
    using receive_all_enough [OF assms(1,2), of "int ClientMetaMessage_packlength"] assms(3) by auto
  then show ?thesis using assms(4) by (intro exI [of _ ps']) (simp add: handle_request_def)
qed

definition answer :: "LMSLocalBackend \<Rightarrow> ClientCommand \<Rightarrow> CacheEngineKey \<Rightarrow> unit result \<times> bytes list" where
  "answer d cmd key = (if cmd = GET then serve_get d key else send_reply (short_reply (if lms_contains d key then SUCCESS else FAIL)))"

lemma answer_cong: "key_eq k k' \<Longrightarrow> answer d cmd k = answer d cmd k'"
  using lms_get_cong [of k k' d] by (simp add: answer_def serve_get_def lms_contains_get)

lemma sendable_query [simp]: "sendable (query cmd key)"
  by (simp add: sendable_def query_def in_range_def DTYPE_TO_INT_def LOCATION_TO_INT_def)

lemma query_served:
  assumes "delivers net" and "wire_key has key" and "ck_layer_id key = None" and "cmd \<in> {GET, EXIST}"
    and "lc_to_server c = []" and "lc_open c" and "answer d cmd key = (r, out)"
  shows "\<exists>bs. ClientMetaMessage_serialize (query cmd key) = Inr bs \<and>
    serve has net d (conn_send net bs c) = (d, c\<lparr>lc_to_client := lc_to_client c @ concat (map net out), lc_open := (r = Inr ())\<rparr>)"
proof -
  obtain bs k where bs: "ClientMetaMessage_serialize (query cmd key) = Inr bs" "length bs = ClientMetaMessage_packlength"
      and k: "ClientMetaMessage_deserialize has bs = Inr (query cmd k)" "key_eq key k"
    using whole_request_read [OF sendable_query, of has cmd key] assms(2,3) by (auto simp: query_def)
  have net: "[] \<notin> set (net bs)" "concat (net bs) = bs @ []" using assms(1) by (simp_all add: delivers_def)
  have sc: "serve_command d (query cmd k) [] = (r, d, [], out)"
    using assms(4,7) answer_cong [OF k(2), of d cmd] by (auto simp: serve_command_def query_def answer_def split: prod.split)
  obtain ps' where "concat ps' = []" "[] \<notin> set ps'"
      "handle_request has d (net bs) = (case serve_command d (query cmd k) ps' of (r, d', ps'', out) \<Rightarrow> (bind_result r (\<lambda>_. Inr True), d', ps'', out))"
    using handle_whole [OF net bs(2) k(1), of d] by blast
  then have h: "handle_request has d (net bs) = (bind_result r (\<lambda>_. Inr True), d, [], out)" using sc no_pieces by fastforce
  have "request_ready has (net bs)" using net bs(2) k(1) assms(4) by (auto simp: request_ready_def query_def)
  then have "serve has net d (conn_send net bs c) = serve has net d (c\<lparr>lc_to_client := lc_to_client c @ concat (map net out), lc_open := (r = Inr ())\<rparr>)"
    using h assms(5,6) by (subst serve.simps) (cases c; cases r; simp add: conn_send_def bind_result_def)
  also have "\<dots> = (d, c\<lparr>lc_to_client := lc_to_client c @ concat (map net out), lc_open := (r = Inr ())\<rparr>)"
    using assms(5) by (subst serve.simps) simp
  finally show ?thesis using bs(1) by blast
qed

lemma short_reply_bytes:
  "\<exists>bs. send_reply (short_reply code) = (Inr (), [bs]) \<and> length bs = ServerMetaMessage_packlength \<and> ServerMetaMessage_deserialize bs = Inr (short_reply code)"
proof -
  have "dict_item DTYPE_TO_INT (sm_dtype (short_reply code)) = Inr 2" "dict_item LOCATION_TO_INT (sm_location (short_reply code)) = Inr 0"
    by (simp_all add: short_reply_def dict_item_def DTYPE_TO_INT_def LOCATION_TO_INT_def)
  from server_message_roundtrip [OF _ this] show ?thesis by (auto simp: short_reply_def in_range_def send_reply_def)
qed

text \<open>An object that a client has put, as the server stores it.\<close>

definition stored_obj :: "remote_obj \<Rightarrow> LMSMemoryObj" where
  "stored_obj obj =
     \<lparr>lms_data = Some (ro_bytes obj), lms_length = int (length (ro_bytes obj)), lms_fmt = ro_fmt obj, lms_dtype = ro_dtype obj, lms_shape = ro_shape obj\<rparr>"

definition obj_reply :: "remote_obj \<Rightarrow> ServerMetaMessage" where
  "obj_reply obj = get_reply (stored_obj obj)"

lemma get_reply_bytes:
  assumes "sendable (put_message key obj)"
  shows "\<exists>bs. send_reply (obj_reply obj) = (Inr (), [bs]) \<and> length bs = ServerMetaMessage_packlength \<and> ServerMetaMessage_deserialize bs = Inr (obj_reply obj)"
proof -
  obtain t where "dict_item DTYPE_TO_INT (ro_dtype obj) = Inr t"
    using assms dict_item_key [of "ro_dtype obj" DTYPE_TO_INT] by (auto simp: sendable_def put_message_def)
  moreover have "dict_item LOCATION_TO_INT None = Inr 0" by (simp add: dict_item_def LOCATION_TO_INT_def)
  ultimately show ?thesis
    using server_message_roundtrip [of "obj_reply obj" t 0] assms
    by (auto simp: obj_reply_def get_reply_def stored_obj_def sendable_def put_message_def send_reply_def)
qed

section \<open>Operations of the client\<close>

text \<open>The put that one iteration carries out, if any.\<close>

definition request_put :: "(torch_dtype \<Rightarrow> bool) \<Rightarrow> packets \<Rightarrow> (ClientMetaMessage \<times> bytes option) list" where
  "request_put has ps =
     (case LMCacheServer_receive_all ps (int ClientMetaMessage_packlength) of
        (None, ps') \<Rightarrow> []
      | (Some header, ps') \<Rightarrow>
          (case ClientMetaMessage_deserialize has header of
             Inl e \<Rightarrow> []
           | Inr m \<Rightarrow> if cm_command m = PUT then [(m, fst (LMCacheServer_receive_all ps' (cm_length m)))] else []))"

lemma put_handled:
  assumes "delivers net" and "wire_key has key" and "ck_layer_id key = None" and "sendable (put_message key obj)"
  shows "\<exists>bs k. ClientMetaMessage_serialize (put_message key obj) = Inr bs \<and> key_eq key k \<and> request_ready has (net bs @ net (ro_bytes obj)) \<and>
    handle_request has d (net bs @ net (ro_bytes obj)) = (Inr True, lms_set k (stored_obj obj) d, [], []) \<and>
    request_put has (net bs @ net (ro_bytes obj)) = [(put_message k obj, Some (ro_bytes obj))]"
proof -
  obtain bs k where bs: "ClientMetaMessage_serialize (put_message key obj) = Inr bs" "length bs = ClientMetaMessage_packlength"
      and k: "ClientMetaMessage_deserialize has bs = Inr (put_message k obj)" "key_eq key k"
    using whole_request_read [OF assms(4), of has] assms(2,3) by (auto simp: put_message_def)
  let ?ps = "net bs @ net (ro_bytes obj)"
  have net: "[] \<notin> set ?ps" "concat ?ps = bs @ ro_bytes obj" using assms(1) by (simp_all add: delivers_def)
  obtain ps' where ps': "LMCacheServer_receive_all ?ps (int ClientMetaMessage_packlength) = (Some bs, ps')" "concat ps' = ro_bytes obj" "[] \<notin> set ps'"
    using receive_all_enough [OF net, of "int ClientMetaMessage_packlength"] bs(2) by auto
  obtain qs where q: "LMCacheServer_receive_all ps' (int (length (ro_bytes obj))) = (Some (ro_bytes obj), qs)" and "concat qs = []" "[] \<notin> set qs"
    using receive_all_enough [OF ps'(3), of "ro_bytes obj" "[]" "int (length (ro_bytes obj))"] ps'(2) by auto
  then have "qs = []" by (intro no_pieces)
  then have "handle_request has d ?ps = (Inr True, lms_set k (stored_obj obj) d, [], [])"
    using ps'(1) k(1) q by (simp add: handle_request_def serve_command_def lms_put_def stored_obj_def bind_result_def put_message_def)
  moreover have "request_put has ?ps = [(put_message k obj, Some (ro_bytes obj))]"
    using ps'(1) k(1) q by (simp add: request_put_def put_message_def)
  moreover have "request_ready has ?ps" using net(2) bs(2) k(1) by (auto simp: request_ready_def put_message_def)
  ultimately show ?thesis using bs(1) k(2) by blast
qed

lemma put_served:
  assumes "delivers net" and "wire_key has key" and "ck_layer_id key = None" and "sendable (put_message key obj)"
    and "lc_to_server c = []" and "lc_open c"
  shows "\<exists>k. key_eq key k \<and> connector_put has net d c key obj = (Inr (), lms_set k (stored_obj obj) d, c)"
proof -
  obtain bs k where bs: "ClientMetaMessage_serialize (put_message key obj) = Inr bs" "key_eq key k" "request_ready has (net bs @ net (ro_bytes obj))"
      and h: "handle_request has d (net bs @ net (ro_bytes obj)) = (Inr True, lms_set k (stored_obj obj) d, [], [])"
    using put_handled [OF assms(1-4), of d] by blast
  have "serve has net d (c\<lparr>lc_to_server := net bs @ net (ro_bytes obj)\<rparr>) = serve has net (lms_set k (stored_obj obj) d) (c\<lparr>lc_to_server := []\<rparr>)"
    using h bs(3) assms(6) by (subst serve.simps) (cases c; simp)
  also have "\<dots> = (lms_set k (stored_obj obj) d, c)" using assms(5) by (subst serve.simps) simp
  finally have "connector_put has net d c key obj = (Inr (), lms_set k (stored_obj obj) d, c)"
    using bs(1) assms(5) by (simp add: connector_put_def conn_send_def)
  then show ?thesis using bs(2) by blast
qed

lemma exists_served:
  assumes "delivers net" and "whole_headers net" and "wire_key has key" and "ck_layer_id key = None" and "idle c"
  shows "connector_exists has net d c key = Some (Inr (lms_get d key \<noteq> None), d, c)"
proof -
  let ?code = "if lms_contains d key then SUCCESS else FAIL"
  obtain out where out: "send_reply (short_reply ?code) = (Inr (), [out])" "length out = ServerMetaMessage_packlength"
      "ServerMetaMessage_deserialize out = Inr (short_reply ?code)"
    using short_reply_bytes by blast
  have "answer d EXIST key = (Inr (), [out])" using out(1) by (simp add: answer_def)
  then obtain bs where "ClientMetaMessage_serialize (query EXIST key) = Inr bs"
      "serve has net d (conn_send net bs c) = (d, c\<lparr>lc_to_client := [out]\<rparr>)"
    using query_served [OF assms(1,3,4), of EXIST c d "Inr ()" "[out]"] assms(2,5) out(2) by (auto simp: idle_def whole_headers_def)
  then have "send_query has net d c (query EXIST key) = Some (Inr (short_reply ?code), d, c)"
    using out assms(5) by (auto simp: send_query_def idle_def ServerMetaMessage_packlength_def)
  then show ?thesis by (simp add: connector_exists_def short_reply_def lms_contains_get bind_result_def)
qed

lemma get_miss_served:
  assumes "delivers net" and "whole_headers net" and "wire_key has key" and "ck_layer_id key = None" and "idle c" and "lms_get d key = None"
  shows "connector_get has net allocate d c key = Some (Inr None, d, c)"
proof -
  obtain out where out: "send_reply (short_reply FAIL) = (Inr (), [out])" "length out = ServerMetaMessage_packlength"
      "ServerMetaMessage_deserialize out = Inr (short_reply FAIL)"
    using short_reply_bytes by blast
  have "answer d GET key = (Inr (), [out])" using out(1) assms(6) by (simp add: answer_def serve_get_def)
  then obtain bs where "ClientMetaMessage_serialize (query GET key) = Inr bs"
      "serve has net d (conn_send net bs c) = (d, c\<lparr>lc_to_client := [out]\<rparr>)"
    using query_served [OF assms(1,3,4), of GET c d "Inr ()" "[out]"] assms(2,5) out(2) by (auto simp: idle_def whole_headers_def)
  then have "send_query has net d c (query GET key) = Some (Inr (short_reply FAIL), d, c)"
    using out assms(5) by (auto simp: send_query_def idle_def ServerMetaMessage_packlength_def)
  then show ?thesis by (simp add: connector_get_def short_reply_def)
qed

text \<open>The first half of a hit: the header has been read, the object waits in the stream.\<close>

lemma get_hit_query:
  assumes "delivers net" and "whole_headers net" and "wire_key has key" and "ck_layer_id key = None" and "idle c"
    and "lms_get d key = Some (stored_obj obj)" and "sendable (put_message key obj)"
  shows "send_query has net d c (query GET key) = Some (Inr (obj_reply obj), d, c\<lparr>lc_to_client := net (ro_bytes obj)\<rparr>)"
proof -
  obtain out where out: "send_reply (obj_reply obj) = (Inr (), [out])" "length out = ServerMetaMessage_packlength"
      "ServerMetaMessage_deserialize out = Inr (obj_reply obj)"
    using get_reply_bytes [OF assms(7)] by blast
  have "answer d GET key = (Inr (), [out, ro_bytes obj])"
    using out(1) assms(6) by (simp add: answer_def serve_get_def obj_reply_def) (simp add: stored_obj_def)
  then obtain bs where "ClientMetaMessage_serialize (query GET key) = Inr bs"
      "serve has net d (conn_send net bs c) = (d, c\<lparr>lc_to_client := out # net (ro_bytes obj)\<rparr>)"
    using query_served [OF assms(1,3,4), of GET c d "Inr ()" "[out, ro_bytes obj]"] assms(2,5) out(2) by (auto simp: idle_def whole_headers_def)
  then show ?thesis using out assms(5) by (auto simp: send_query_def idle_def ServerMetaMessage_packlength_def)
qed

lemma get_hit_served:
  assumes "delivers net" and "whole_headers net" and "wire_key has key" and "ck_layer_id key = None" and "idle c"
    and "lms_get d key = Some (stored_obj obj)" and "sendable (put_message key obj)"
    and "allocate (ro_shape obj) (ro_dtype obj) (ro_fmt obj) = Some buffer" and "length buffer = length (ro_bytes obj)"
  shows "connector_get has net allocate d c key = Some (Inr (Some obj), d, c)"
proof -
  have net: "[] \<notin> set (net (ro_bytes obj))" "concat (net (ro_bytes obj)) = ro_bytes obj" using assms(1) by (simp_all add: delivers_def)
  obtain ps where "receive_loop (length (ro_bytes obj)) [] (net (ro_bytes obj)) = (Some (ro_bytes obj), ps)" "ps = []"
    using receive_loop_spec [OF net(1), of "[]" "length (ro_bytes obj)"] net(2) no_pieces by auto
  then have "connector_receive_all allocate (c\<lparr>lc_to_client := net (ro_bytes obj)\<rparr>) (obj_reply obj) = Some (Inr (Some obj), c)"
    using assms(5,8,9) by (simp add: connector_receive_all_def obj_reply_def get_reply_def stored_obj_def idle_def)
  then show ?thesis
    using get_hit_query [OF assms(1-7)] by (simp add: connector_get_def) (simp add: obj_reply_def get_reply_def)
qed


text \<open>A network that delivers every message whole, an idle connection, a key and an object of two bytes.\<close>

definition whole_net :: "bytes \<Rightarrow> packets" where
  "whole_net b = (if b = [] then [] else [b])"

definition idle_conn :: lm_conn where
  "idle_conn = \<lparr>lc_to_server = [], lc_to_client = [], lc_open = True\<rparr>"

definition whole_key :: CacheEngineKey where
  "whole_key = sample_key\<lparr>ck_layer_id := None\<rparr>"

definition sample_obj :: remote_obj where
  "sample_obj = \<lparr>ro_bytes = [7, 8], ro_shape = [1, 1, 1, 1], ro_dtype = Some ''float16'', ro_fmt = KV_2LTD\<rparr>"

lemma sample_wire:
  "delivers whole_net" "whole_headers whole_net" "idle idle_conn" "wire_key (\<lambda>_. True) whole_key" "ck_layer_id whole_key = None"
  "wire_key (\<lambda>_. True) sample_key" "ck_layer_id sample_key = Some 2" "sendable (put_message key sample_obj)"
proof -
  show "delivers whole_net" "whole_headers whole_net" "idle idle_conn" "ck_layer_id whole_key = None" "ck_layer_id sample_key = Some 2"
    by (auto simp: delivers_def whole_headers_def whole_net_def idle_def idle_conn_def whole_key_def sample_key_def ServerMetaMessage_packlength_def)
  show "sendable (put_message key sample_obj)"
    by (simp add: sendable_def put_message_def sample_obj_def in_range_def DTYPE_TO_INT_def LOCATION_TO_INT_def)
  have "made (\<lambda>_. True) whole_key" "printable_key (\<lambda>_. True) whole_key"
    using sample_key_ok by (simp_all add: whole_key_def made_iff printable_key_def)
  moreover have "stripped (to_string whole_key)" "length (to_string whole_key) \<le> MAX_KEY_LENGTH" "length (utf8_encode (to_string whole_key)) \<le> MAX_KEY_LENGTH"
    by code_simp+
  ultimately show "wire_key (\<lambda>_. True) whole_key" by (simp add: wire_key_def)
  have "stripped (to_string sample_key)" "length (to_string sample_key) \<le> MAX_KEY_LENGTH" "length (utf8_encode (to_string sample_key)) \<le> MAX_KEY_LENGTH"
    by code_simp+
  then show "wire_key (\<lambda>_. True) sample_key" using sample_key_ok by (simp add: wire_key_def)
qed


text \<open>The batched lookup counts the leading keys that the server has.\<close>

lemma batched_contains_prefix:
  assumes "delivers net" and "whole_headers net" and "idle c" and "\<forall>key \<in> set keys. wire_key has key \<and> ck_layer_id key = None"
  shows "batched_async_contains has net d c keys = Some (Inr (length (takeWhile (\<lambda>key. lms_get d key \<noteq> None) keys)), d, c)"
proof -
  have "exists_all has net d c keys = Some (map (\<lambda>key. Inr (lms_get d key \<noteq> None)) keys, d, c)"
    using assms(4) by (induction keys) (simp_all add: exists_served [OF assms(1,2) _ _ assms(3)])
  moreover have "map_result id (map (\<lambda>key. Inr (lms_get d key \<noteq> None)) keys) = Inr (map (\<lambda>key. lms_get d key \<noteq> None) keys)"
    unfolding map_result_iff by (simp add: list_all2_conv_all_nth)
  moreover have "length (takeWhile id (map (\<lambda>key. lms_get d key \<noteq> None) keys)) = length (takeWhile (\<lambda>key. lms_get d key \<noteq> None) keys)"
    by (simp add: takeWhile_map comp_def)
  ultimately show ?thesis by (simp add: batched_async_contains_def bind_result_def)
qed

text \<open>The batched load returns or releases every object it loaded, once.\<close>

lemma consecutive_prefix_all:
  "consecutive_prefix rs = (kept, released) \<Longrightarrow>
     kept @ released = concat (map (\<lambda>r. case r of Inr (Some x) \<Rightarrow> [x] | _ \<Rightarrow> []) rs) \<and>
     map (\<lambda>x. Inr (Some x)) kept = takeWhile (\<lambda>r. \<exists>x. r = Inr (Some x)) rs"
  by (induction rs arbitrary: kept) (auto split: sum.splits option.splits prod.splits)

section \<open>Several clients\<close>

lemma handle_request_store:
  "handle_request has d ps = (r, d', ps', out) \<Longrightarrow> d' = fold (\<lambda>(m, s). lms_put m s) (request_put has ps) d"
  by (auto simp: handle_request_def request_put_def serve_command_def Let_def case_prod_unfold split: option.splits sum.splits prod.splits ClientCommand.splits if_splits)

text \<open>
  Any interleaving of the threads of the server, each with the input of its client; a thread ends
  with the loop or an exception. The log lists the puts in the order in which they reach the store.
\<close>

inductive server_run :: "(torch_dtype \<Rightarrow> bool) \<Rightarrow> LMSLocalBackend \<Rightarrow> (packets \<times> bool) list \<Rightarrow> (ClientMetaMessage \<times> bytes option) list \<Rightarrow> bool"
  for has where
  started: "server_run has [] conns []"
| connected: "server_run has d conns log \<Longrightarrow> server_run has d (conns @ [(ps, True)]) log"
| iteration: "server_run has d conns log \<Longrightarrow> i < length conns \<Longrightarrow> conns ! i = (ps, True) \<Longrightarrow> handle_request has d ps = (r, d', ps', out) \<Longrightarrow>
    server_run has d' (conns[i := (ps', r = Inr True)]) (log @ request_put has ps)"

definition last_put :: "(ClientMetaMessage \<times> bytes option) list \<Rightarrow> CacheEngineKey \<Rightarrow> LMSMemoryObj option" where
  "last_put log key =
     map_option (\<lambda>(m, s). \<lparr>lms_data = s, lms_length = cm_length m, lms_fmt = cm_fmt m, lms_dtype = cm_dtype m, lms_shape = cm_shape m\<rparr>)
       (find (\<lambda>(m, s). key_eq key (cm_key m)) (rev log))"

text \<open>
  Property C24. With any number of clients, in any interleaving of their requests, the store holds under each
  key what the last put under an equal key brought, and no two of its keys are equal.
\<close>

theorem server_store_last_put:
  assumes "server_run has d conns log"
  shows "lms_ok d \<and> lms_get d key = last_put log key"
proof -
  have put: "lms_get (lms_put m s d) key = last_put (log @ [(m, s)]) key" if "lms_get d key = last_put log key" for m s d log
    using that by (auto simp: lms_put_def lms_get_set last_put_def)
  have ok: "lms_ok d \<Longrightarrow> lms_ok (lms_put m s d)" for m s d by (simp add: lms_put_def lms_set_ok)
  have at_most_one: "request_put has ps = [] \<or> (\<exists>m s. request_put has ps = [(m, s)])" for ps
    by (auto simp: request_put_def split: option.splits sum.splits prod.splits)
  show ?thesis using assms
  proof induction
    case (iteration d conns log i ps r d' ps' out)
    then show ?case using handle_request_store [OF iteration(4)] at_most_one [of ps] put [of d log] ok [of d] by auto
  qed (simp_all add: last_put_def)
qed

lemma sample_run: "\<exists>d conns m. server_run (\<lambda>_. True) d conns [(m, Some [7, 8])] \<and> key_eq whole_key (cm_key m)"
proof -
  obtain bs k where "key_eq whole_key k"
      "handle_request (\<lambda>_. True) [] (whole_net bs @ whole_net (ro_bytes sample_obj)) = (Inr True, lms_set k (stored_obj sample_obj) [], [], [])"
      "request_put (\<lambda>_. True) (whole_net bs @ whole_net (ro_bytes sample_obj)) = [(put_message k sample_obj, Some (ro_bytes sample_obj))]"
    using put_handled [OF sample_wire(1,4,5,8), of "[]"] by blast
  then have "server_run (\<lambda>_. True) (lms_set k (stored_obj sample_obj) []) [([], True)] [(put_message k sample_obj, Some (ro_bytes sample_obj))]"
    using iteration [OF started [of "\<lambda>_. True" "[(whole_net bs @ whole_net (ro_bytes sample_obj), True)]"], of 0] by fastforce
  moreover have "ro_bytes sample_obj = [7, 8]" "cm_key (put_message k sample_obj) = k" by (simp_all add: sample_obj_def put_message_def)
  ultimately show ?thesis using \<open>key_eq whole_key k\<close> by metis
qed

theorem server_store_last_put_witness:
  "\<exists>d conns m. server_run (\<lambda>_. True) d conns [(m, Some [7, 8])] \<and> key_eq whole_key (cm_key m) \<and>
    lms_ok d \<and> lms_get d whole_key = last_put [(m, Some [7, 8])] whole_key"
proof -
  obtain d conns m where run: "server_run (\<lambda>_. True) d conns [(m, Some [7, 8])]" and "key_eq whole_key (cm_key m)" using sample_run by blast
  then show ?thesis using server_store_last_put [OF run, of whole_key] by blast
qed

section \<open>Spoilt keys and connections\<close>

text \<open>
  A client that disconnects within the payload of a \<^verbatim>\<open>put\<close> leaves an entry without data: \<^verbatim>\<open>exists\<close>
  then answers true for the key, but every \<^verbatim>\<open>get\<close> of it finds nothing and makes the server close
  the connection of the client that asks.
\<close>

lemma truncated_put_spoils_key:
  assumes "delivers net" and "whole_headers net" and "wire_key has key" and "ck_layer_id key = None" and "sendable (put_message key obj)"
    and "ClientMetaMessage_serialize (put_message key obj) = Inr bs" and "[] \<notin> set ps" and "concat ps = bs @ part" and "length part < length (ro_bytes obj)"
    and "idle c" and "allocate (ro_shape obj) (ro_dtype obj) (ro_fmt obj) = Some buffer" and "length buffer = length (ro_bytes obj)"
  shows "\<exists>d'. handle_client has d ps = (Inr False, d', []) \<and>
    connector_exists has net d' c key = Some (Inr True, d', c) \<and>
    connector_get has net allocate d' c key = Some (Inr None, d', c\<lparr>lc_open := False\<rparr>)"
proof -
  let ?v = "(stored_obj obj)\<lparr>lms_data := None\<rparr>"
  obtain k where bs: "length bs = ClientMetaMessage_packlength" and k: "ClientMetaMessage_deserialize has bs = Inr (put_message k obj)" "key_eq key k"
    using whole_request_read [OF assms(5), of has] assms(3,4,6) by (auto simp: put_message_def)
  obtain ps' where ps': "concat ps' = part" "[] \<notin> set ps'"
      "handle_request has d ps = (case serve_command d (put_message k obj) ps' of (r, d', ps'', out) \<Rightarrow> (bind_result r (\<lambda>_. Inr True), d', ps'', out))"
    using handle_whole [OF assms(7,8) bs k(1), of d] by blast
  let ?d = "lms_set k ?v d"
  have "LMCacheServer_receive_all ps' (int (length (ro_bytes obj))) = (None, [])" using receive_all_short [OF ps'(2)] ps'(1) assms(9) by simp
  then have "handle_request has d ps = (Inr True, ?d, [], [])"
    using ps'(3) by (simp add: serve_command_def put_message_def lms_put_def stored_obj_def bind_result_def)
  moreover have "handle_request has ?d [] = (Inr False, ?d, [], [])"
    using receive_all_short [of "[]" "int ClientMetaMessage_packlength"] by (simp add: handle_request_def ClientMetaMessage_packlength_def)
  ultimately have client: "handle_client has d ps = (Inr False, ?d, [])"
    by (subst handle_client.simps, simp, subst handle_client.simps, simp)
  have got: "lms_get ?d key = Some ?v" using k(2) by (simp add: lms_get_set)
  obtain out where out: "send_reply (obj_reply obj) = (Inr (), [out])" "length out = ServerMetaMessage_packlength"
      "ServerMetaMessage_deserialize out = Inr (obj_reply obj)"
    using get_reply_bytes [OF assms(5)] by blast
  have "get_reply ?v = obj_reply obj" by (simp add: get_reply_def obj_reply_def stored_obj_def)
  then have "answer ?d GET key = (Inl TypeError, [out])"
    using out(1) got by (simp add: answer_def serve_get_def)
  then obtain q where "ClientMetaMessage_serialize (query GET key) = Inr q"
      "serve has net ?d (conn_send net q c) = (?d, c\<lparr>lc_to_client := [out], lc_open := False\<rparr>)"
    using query_served [OF assms(1,3,4), of GET c ?d "Inl TypeError" "[out]"] assms(2,10) out(2) by (auto simp: idle_def whole_headers_def)
  then have "send_query has net ?d c (query GET key) = Some (Inr (obj_reply obj), ?d, c\<lparr>lc_to_client := [], lc_open := False\<rparr>)"
    using out by (auto simp: send_query_def ServerMetaMessage_packlength_def)
  moreover have "receive_loop (length (ro_bytes obj)) [] [] = (None, [])" using receive_loop_spec [of "[]" "[]" "length (ro_bytes obj)"] assms(9) by (auto split: if_splits)
  ultimately have "connector_get has net allocate ?d c key = Some (Inr None, ?d, c\<lparr>lc_open := False\<rparr>)"
    using assms(10-12) by (simp add: connector_get_def connector_receive_all_def) (simp add: obj_reply_def get_reply_def stored_obj_def idle_def)
  then show ?thesis using client exists_served [OF assms(1-4,10), of ?d] got by (intro exI [of _ ?d]) simp
qed

text \<open>
  Property C36. When the client cannot allocate a buffer for an object that \<^verbatim>\<open>get\<close> found, the payload stays in the
  stream, and the next \<^verbatim>\<open>exists\<close> on the connection takes the first bytes of the payload for its
  answer, whatever the server knows of the key.
\<close>

theorem unread_payload_answers:
  assumes "delivers net" and "whole_headers net" and "idle c"
    and "wire_key has key" and "ck_layer_id key = None" and "lms_get d key = Some (stored_obj obj)" and "sendable (put_message key obj)"
    and "allocate (ro_shape obj) (ro_dtype obj) (ro_fmt obj) = None"
    and "net (ro_bytes obj) = [ro_bytes obj]" and "ServerMetaMessage_packlength \<le> length (ro_bytes obj)"
    and "wire_key has key'" and "ck_layer_id key' = None"
  shows "\<exists>c' c''. connector_get has net allocate d c key = Some (Inr None, d, c') \<and>
    connector_exists has net d c' key' =
      Some (bind_result (ServerMetaMessage_deserialize (take ServerMetaMessage_packlength (ro_bytes obj))) (\<lambda>m. Inr (sm_code m = SUCCESS)), d, c'')"
proof -
  let ?c = "c\<lparr>lc_to_client := [ro_bytes obj]\<rparr>"
  have get: "connector_get has net allocate d c key = Some (Inr None, d, ?c)"
    using get_hit_query [OF assms(1,2,4,5,3,6,7)] assms(8,9) by (simp add: connector_get_def connector_receive_all_def) (simp add: obj_reply_def get_reply_def stored_obj_def)
  obtain r out where a: "answer d EXIST key' = (r, out)" by (cases "answer d EXIST key'")
  obtain q where q: "ClientMetaMessage_serialize (query EXIST key') = Inr q"
      "serve has net d (conn_send net q ?c) = (d, ?c\<lparr>lc_to_client := lc_to_client ?c @ concat (map net out), lc_open := (r = Inr ())\<rparr>)"
    using query_served [OF assms(1,11,12) _ _ _ a, of ?c] assms(3) by (auto simp: idle_def)
  obtain ps where "sock_recv ServerMetaMessage_packlength ([ro_bytes obj] @ concat (map net out)) = (take ServerMetaMessage_packlength (ro_bytes obj), ps)"
    using assms(10) by (cases "length (ro_bytes obj) = ServerMetaMessage_packlength") auto
  moreover have "take ServerMetaMessage_packlength (ro_bytes obj) \<noteq> []" using assms(10) by (auto simp: ServerMetaMessage_packlength_def)
  ultimately have "send_query has net d ?c (query EXIST key') =
      Some (ServerMetaMessage_deserialize (take ServerMetaMessage_packlength (ro_bytes obj)), d, ?c\<lparr>lc_to_client := ps, lc_open := (r = Inr ())\<rparr>)"
    using q by (simp add: send_query_def)
  then show ?thesis using get by (intro exI [of _ ?c] exI) (simp add: connector_exists_def)
qed

definition long_obj :: remote_obj where
  "long_obj = sample_obj\<lparr>ro_bytes := replicate 36 0\<rparr>"

theorem unread_payload_answers_witness:
  "\<exists>c' c''. connector_get (\<lambda>_. True) whole_net (\<lambda>_ _ _. None) [(whole_key, stored_obj long_obj)] idle_conn whole_key = Some (Inr None, [(whole_key, stored_obj long_obj)], c') \<and>
    connector_exists (\<lambda>_. True) whole_net [(whole_key, stored_obj long_obj)] c' whole_key = Some (Inl ValueError, [(whole_key, stored_obj long_obj)], c'')"
proof -
  have "sendable (put_message whole_key long_obj)"
    by (simp add: sendable_def put_message_def sample_obj_def long_obj_def in_range_def DTYPE_TO_INT_def LOCATION_TO_INT_def)
  moreover have "lms_get [(whole_key, stored_obj long_obj)] whole_key = Some (stored_obj long_obj)" by (simp add: key_eq_equivalence)
  moreover have "whole_net (ro_bytes long_obj) = [ro_bytes long_obj]" "ServerMetaMessage_packlength \<le> length (ro_bytes long_obj)"
    by (simp_all add: whole_net_def long_obj_def ServerMetaMessage_packlength_def)
  moreover have "bind_result (ServerMetaMessage_deserialize (take ServerMetaMessage_packlength (ro_bytes long_obj))) (\<lambda>m. Inr (sm_code m = SUCCESS)) = Inl ValueError"
    by code_simp
  ultimately show ?thesis
    using unread_payload_answers [OF sample_wire(1,2,3,4,5) _ _ _ _ _ sample_wire(4,5), of "[(whole_key, stored_obj long_obj)]" long_obj "\<lambda>_ _ _. None"] by simp
qed

text \<open>
  Property C35. A \<^verbatim>\<open>put\<close> under a layer key returns normally but stores nothing: the server cannot parse the key
  and closes the connection.
\<close>

theorem layer_put_lost:
  assumes "delivers net" and "wire_key has key" and "ck_layer_id key = Some l" and "sendable (put_message key obj)" and "idle c"
  shows "\<exists>c'. connector_put has net d c key obj = (Inr (), d, c') \<and> \<not> lc_open c'"
proof -
  obtain bs where bs: "ClientMetaMessage_serialize (put_message key obj) = Inr bs" "ClientMetaMessage_deserialize has bs = Inl ValueError"
      "length bs = ClientMetaMessage_packlength"
    using layer_request_refused [OF assms(4), of has l] client_message_bytes [OF assms(4)] assms(2,3) by (auto simp: put_message_def wire_key_def)
  let ?ps = "net bs @ net (ro_bytes obj)"
  have net: "[] \<notin> set ?ps" "concat ?ps = bs @ ro_bytes obj" using assms(1) by (simp_all add: delivers_def)
  obtain ps' where "handle_request has d ?ps = (Inl ValueError, d, ps', [])"
    using receive_all_enough [OF net, of "int ClientMetaMessage_packlength"] bs(2,3) by (auto simp: handle_request_def)
  moreover have "request_ready has ?ps" using net(2) bs(2,3) by (simp add: request_ready_def)
  ultimately have "serve has net d (c\<lparr>lc_to_server := ?ps\<rparr>) = serve has net d (c\<lparr>lc_to_server := ps', lc_open := False\<rparr>)"
    using assms(5) by (subst serve.simps) (cases c; simp add: idle_def)
  also have "\<dots> = (d, c\<lparr>lc_to_server := ps', lc_open := False\<rparr>)" by (subst serve.simps) simp
  finally show ?thesis using bs(1) assms(5) by (simp add: connector_put_def conn_send_def idle_def)
qed

theorem layer_put_lost_witness:
  "\<exists>c'. connector_put (\<lambda>_. True) whole_net [] idle_conn sample_key sample_obj = (Inr (), [], c') \<and> \<not> lc_open c'"
  by (rule layer_put_lost [OF sample_wire(1,6,7,8,3)])

end
