(* ===== verification/Token_Database.thy ===== *)
theory Token_Database
  imports Cache_Key
begin

text \<open>
  The token databases of \<^verbatim>\<open>lmcache/v1/token_database.py\<close>, which turn the tokens of a request into cache keys, and
  the metadata record of \<^verbatim>\<open>lmcache/v1/metadata.py\<close> that they read.

  \<^verbatim>\<open>process_tokens\<close> is a generator. Its model is the list of what it yields together with the exception
  that ends it, if any: a caller has already worked on the items when the exception comes. The hash
  function comes from vLLM or is the builtin \<^verbatim>\<open>hash\<close>; \<open>extra_keys\<close> is never given, so it is a function of the
  hash of the prefix and the tokens of the chunk. \<^verbatim>\<open>Tensor.unfold\<close> is the parameter \<open>U\<close>.

  Shown: the chunks tile the tokens and the keys of the first chunks depend on their tokens only;
  equal keys mean equal prefixes unless the hash collides; segments are the text between the
  separators, at their places, when the separators do not overlap; a text that is shorter than the
  separator is an error.
\<close>

section \<open>Metadata\<close>

record KVLayerGroup =
  lg_num_layers :: int
  lg_hidden_dim_size :: int
  lg_dtype :: torch_dtype

record LMCacheMetadata =
  lm_model_name :: string
  lm_world_size :: int
  lm_worker_id :: int
  lm_kv_dtype :: torch_dtype
  lm_kv_shape :: "int \<times> int \<times> int \<times> int \<times> int"
  lm_use_mla :: bool
  lm_role :: "string option"
  lm_chunk_size :: int
  lm_kv_layer_groups :: "KVLayerGroup list"

definition first_rank :: int where
  "first_rank = 0"

definition is_first_rank :: "LMCacheMetadata \<Rightarrow> bool" where
  "is_first_rank m \<longleftrightarrow> lm_worker_id m = first_rank"

definition get_dtypes :: "LMCacheMetadata \<Rightarrow> torch_dtype list" where
  "get_dtypes m = (if lm_kv_layer_groups m \<noteq> [] then map lg_dtype (lm_kv_layer_groups m) else [lm_kv_dtype m])"

definition get_shapes :: "LMCacheMetadata \<Rightarrow> int option \<Rightarrow> torch_size list" where
  "get_shapes m num_tokens =
     (let n = (case num_tokens of None \<Rightarrow> lm_chunk_size m | Some n \<Rightarrow> n)
      in if lm_kv_layer_groups m \<noteq> []
         then (let kv_size = (if lm_use_mla m then 1 else 2)
               in map (\<lambda>g. [kv_size, lg_num_layers g, n, lg_hidden_dim_size g]) (lm_kv_layer_groups m))
         else (case lm_kv_shape m of (layers, kv, _, heads, head_size) \<Rightarrow> [[kv, layers, n, heads * head_size]]))"

definition get_num_groups :: "LMCacheMetadata \<Rightarrow> nat" where
  "get_num_groups m = (if lm_kv_layer_groups m \<noteq> [] then length (lm_kv_layer_groups m) else 1)"

section \<open>The hash function\<close>

type_synonym token = int
type_synonym hash_func = "chunk_hash option \<Rightarrow> token list \<Rightarrow> chunk_hash"

text \<open>
  What importing from vLLM gives: \<open>by_name m\<close> is \<^verbatim>\<open>get_hash_fn_by_name\<close> of the module \<open>m\<close> when it has one, which
  knows some names, and \<open>attr m f\<close> the function \<open>f\<close> of the module.
\<close>

record vllm_hashing =
  vh_by_name :: "string \<Rightarrow> (string \<Rightarrow> hash_func option) option"
  vh_attr :: "string \<Rightarrow> string \<Rightarrow> hash_func option"
  vh_none_hash :: "hash_func \<Rightarrow> chunk_hash option"
  vh_builtin :: hash_func

definition hash_names :: "string \<Rightarrow> string list" where
  "hash_names hash_algorithm =
     (if hash_algorithm \<in> {''sha256_cbor'', ''sha256_cbor_64bit''} then [''sha256_cbor'', ''sha256_cbor_64bit''] else [hash_algorithm])"

fun first_some :: "('a \<Rightarrow> 'b option) \<Rightarrow> 'a list \<Rightarrow> 'b option" where
  "first_some f [] = None"
| "first_some f (x # xs) = (case f x of None \<Rightarrow> first_some f xs | Some y \<Rightarrow> Some y)"

definition try_get_hash :: "(string \<Rightarrow> hash_func option) \<Rightarrow> string \<Rightarrow> hash_func result" where
  "try_get_hash get_hash_fn_by_name hash_algorithm =
     (case first_some get_hash_fn_by_name (hash_names hash_algorithm) of None \<Rightarrow> Inl ValueError | Some f \<Rightarrow> Inr f)"

definition hash_modules :: "string list" where
  "hash_modules = [''vllm.utils.hashing'', ''vllm.utils'']"

definition get_vllm_hash_func :: "vllm_hashing \<Rightarrow> string \<Rightarrow> hash_func" where
  "get_vllm_hash_func V hash_algorithm =
     (case first_some (\<lambda>m. case vh_by_name V m of
                             None \<Rightarrow> None
                           | Some g \<Rightarrow> (case try_get_hash g hash_algorithm of Inl _ \<Rightarrow> None | Inr f \<Rightarrow> Some f)) hash_modules of
        Some f \<Rightarrow> f
      | None \<Rightarrow>
          (case first_some (\<lambda>(m, name). vh_attr V m name) (List.product hash_modules (hash_names hash_algorithm)) of
             Some f \<Rightarrow> f
           | None \<Rightarrow> vh_builtin V))"

section \<open>Token databases\<close>

text \<open>The attributes of \<^verbatim>\<open>TokenDatabase\<close>, with the global \<^verbatim>\<open>NONE_HASH\<close> that its constructor sets.\<close>

record TokenDatabase =
  td_hash_func :: hash_func
  td_none_hash :: chunk_hash
  td_metadata :: "LMCacheMetadata option"
  td_save_only_first_rank :: bool

text \<open>\<open>config\<close> gives the hash algorithm and the configured value of \<^verbatim>\<open>save_only_first_rank\<close>, if set.\<close>

definition TokenDatabase_init :: "vllm_hashing \<Rightarrow> (string \<times> bool option) option \<Rightarrow> LMCacheMetadata option \<Rightarrow> TokenDatabase" where
  "TokenDatabase_init V config metadata =
     (let f = get_vllm_hash_func V (case config of None \<Rightarrow> ''builtin'' | Some (algorithm, _) \<Rightarrow> algorithm)
      in \<lparr>td_hash_func = f,
          td_none_hash = (case vh_none_hash V f of None \<Rightarrow> IntHash 0 | Some h \<Rightarrow> h),
          td_metadata = metadata,
          td_save_only_first_rank =
            (case (config, metadata) of
               (Some (_, extra), Some m) \<Rightarrow> (case extra of None \<Rightarrow> lm_use_mla m | Some v \<Rightarrow> v) \<and> lm_use_mla m
             | _ \<Rightarrow> False)\<rparr>)"

definition make_key_by_hash :: "(torch_dtype \<Rightarrow> bool) \<Rightarrow> TokenDatabase \<Rightarrow> (string, string) pydict option \<Rightarrow> chunk_hash \<Rightarrow> CacheEngineKey result" where
  "make_key_by_hash has td request_configs chunk_hash =
     (case td_metadata td of
        None \<Rightarrow> Inl AssertionError
      | Some m \<Rightarrow>
          CacheEngineKey_init has (lm_model_name m) (if td_save_only_first_rank td then 1 else lm_world_size m) (lm_worker_id m) chunk_hash
            (lm_kv_dtype m) request_configs None)"

text \<open>A generator: what it yields, and the exception that ends it.\<close>

type_synonym 'a generator = "'a list \<times> py_error option"

text \<open>
  The keys of the yielded hashes. The construction of a key depends on the hash only through the
  hash itself, so it fails at the first item or never.
\<close>

fun make_keys :: "(chunk_hash \<Rightarrow> 'k result) \<Rightarrow> (nat \<times> nat \<times> chunk_hash) generator \<Rightarrow> (nat \<times> nat \<times> 'k) generator" where
  "make_keys mk ([], e) = ([], e)"
| "make_keys mk ((s, t, h) # items, e) =
     (case mk h of
        Inl err \<Rightarrow> ([], Some err)
      | Inr k \<Rightarrow> (case make_keys mk (items, e) of (ks, e') \<Rightarrow> ((s, t, k) # ks, e')))"

definition num_falses :: "bool list option \<Rightarrow> nat" where
  "num_falses msk = (case msk of None \<Rightarrow> 0 | Some bs \<Rightarrow> length (filter Not bs))"

text \<open>The branch that is given the hashes and the lengths of the chunks.\<close>

fun hashes_at :: "nat \<Rightarrow> (chunk_hash \<times> nat) list \<Rightarrow> (nat \<times> nat \<times> chunk_hash) list" where
  "hashes_at start [] = []"
| "hashes_at start ((h, offset) # items) = (start, start + offset, h) # hashes_at (start + offset) items"

definition process_hashes :: "chunk_hash list \<Rightarrow> nat list option \<Rightarrow> (nat \<times> nat \<times> chunk_hash) generator" where
  "process_hashes hashes offsets =
     (case offsets of None \<Rightarrow> ([], Some AssertionError) | Some os \<Rightarrow> (hashes_at 0 (zip hashes os), None))"

section \<open>Chunks\<close>

record ChunkedTokenDatabase = TokenDatabase +
  ct_chunk_size :: nat
  ct_save_unfull_chunk :: bool

definition ChunkedTokenDatabase_init :: "TokenDatabase \<Rightarrow> (nat \<times> bool) option \<Rightarrow> ChunkedTokenDatabase" where
  "ChunkedTokenDatabase_init td config =
     TokenDatabase.extend td
       (case config of
          None \<Rightarrow> \<lparr>ct_chunk_size = 256, ct_save_unfull_chunk = True\<rparr>
        | Some (chunk_size, save_unfull_chunk) \<Rightarrow> \<lparr>ct_chunk_size = chunk_size, ct_save_unfull_chunk = save_unfull_chunk\<rparr>)"

definition chunk_tokens :: "nat \<Rightarrow> bool \<Rightarrow> token list \<Rightarrow> token list list" where
  "chunk_tokens chunk_size save_unfull_chunk tokens =
     (let e = (if save_unfull_chunk then length tokens else length tokens - length tokens mod chunk_size)
      in map (\<lambda>i. take chunk_size (drop (i * chunk_size) tokens)) [0..<(e + chunk_size - 1) div chunk_size])"

fun prefix_hash :: "hash_func \<Rightarrow> chunk_hash \<Rightarrow> token list list \<Rightarrow> chunk_hash list" where
  "prefix_hash f h [] = []"
| "prefix_hash f h (c # cs) = (let h' = f (Some h) c in h' # prefix_hash f h' cs)"

definition chunk_items :: "ChunkedTokenDatabase \<Rightarrow> nat \<Rightarrow> token list \<Rightarrow> (nat \<times> nat \<times> chunk_hash) list" where
  "chunk_items ct falses tokens =
     filter (\<lambda>(s, t, h). \<not> s < falses)
       (map (\<lambda>(i, h). (i * ct_chunk_size ct, min (i * ct_chunk_size ct + ct_chunk_size ct) (length tokens), h))
          (enumerate 0 (prefix_hash (td_hash_func ct) (td_none_hash ct) (chunk_tokens (ct_chunk_size ct) (ct_save_unfull_chunk ct) tokens))))"

definition Chunked_process_hashes ::
  "ChunkedTokenDatabase \<Rightarrow> token list option \<Rightarrow> chunk_hash list option \<Rightarrow> nat list option \<Rightarrow> bool list option \<Rightarrow> (nat \<times> nat \<times> chunk_hash) generator"
where
  "Chunked_process_hashes ct tokens hashes offsets msk =
     (if ct_chunk_size ct = 0 then ([], Some ZeroDivisionError)
      else if num_falses msk mod ct_chunk_size ct \<noteq> 0 then ([], Some ValueError)
      else (case tokens of
              Some ts \<Rightarrow> (chunk_items ct (num_falses msk) ts, None)
            | None \<Rightarrow> (case hashes of Some hs \<Rightarrow> process_hashes hs offsets | None \<Rightarrow> ([], Some ValueError))))"

definition Chunked_process_tokens ::
  "(torch_dtype \<Rightarrow> bool) \<Rightarrow> ChunkedTokenDatabase \<Rightarrow> token list option \<Rightarrow> chunk_hash list option \<Rightarrow> nat list option \<Rightarrow> bool list option \<Rightarrow>
   (string, string) pydict option \<Rightarrow> (nat \<times> nat \<times> CacheEngineKey) generator"
where
  "Chunked_process_tokens has ct tokens hashes offsets msk request_configs =
     make_keys (make_key_by_hash has (TokenDatabase.truncate ct) request_configs) (Chunked_process_hashes ct tokens hashes offsets msk)"

section \<open>Segments\<close>

type_synonym torch_unfold = "token list \<Rightarrow> nat \<Rightarrow> token list list result"

definition unfold_documented :: "torch_unfold \<Rightarrow> bool" where
  "unfold_documented U \<longleftrightarrow>
     (\<forall>ts n. U ts n = (if n \<le> length ts then Inr (map (\<lambda>i. take n (drop i ts)) [0..<length ts - n + 1]) else Inl RuntimeError))"

text \<open>\<^verbatim>\<open>tokens[start:idx]\<close> is empty when \<open>idx\<close> is before \<open>start\<close>.\<close>

fun split_at :: "token list \<Rightarrow> nat \<Rightarrow> nat \<Rightarrow> nat list \<Rightarrow> token list list" where
  "split_at tokens sep_len start [] = [drop start tokens]"
| "split_at tokens sep_len start (i # is) = drop start (take i tokens) # split_at tokens sep_len (i + sep_len) is"

text \<open>There is no \<^verbatim>\<open>return\<close> after the first \<^verbatim>\<open>yield\<close>.\<close>

definition fast_split_by_subtensor :: "torch_unfold \<Rightarrow> token list \<Rightarrow> token list \<Rightarrow> token list generator" where
  "fast_split_by_subtensor U sep_tokens tokens =
     (let first = (if sep_tokens = [] \<or> length tokens < length sep_tokens then [tokens] else [])
      in case U tokens (length sep_tokens) of
           Inl e \<Rightarrow> (first, Some e)
         | Inr windows \<Rightarrow>
             let matches = map fst (filter (\<lambda>(i, w). w = sep_tokens) (enumerate 0 windows))
             in (first @ split_at tokens (length sep_tokens) 0 matches, None))"

fun segment_items :: "(token list \<Rightarrow> chunk_hash) \<Rightarrow> nat \<Rightarrow> nat \<Rightarrow> nat \<Rightarrow> nat \<Rightarrow> token list list \<Rightarrow> (nat \<times> nat \<times> chunk_hash) list" where
  "segment_items f sep_len falses idx start [] = []"
| "segment_items f sep_len falses idx start (c # cs) =
     (let s = (if idx > 0 then start + sep_len else start);
          e = s + length c
      in (if s \<ge> falses then [(s, e, f c)] else []) @ segment_items f sep_len falses (idx + 1) e cs)"

definition Segment_process_hashes ::
  "torch_unfold \<Rightarrow> TokenDatabase \<Rightarrow> token list \<Rightarrow> token list option \<Rightarrow> chunk_hash list option \<Rightarrow> nat list option \<Rightarrow> bool list option \<Rightarrow>
   (nat \<times> nat \<times> chunk_hash) generator"
where
  "Segment_process_hashes U td sep_tokens tokens hashes offsets msk =
     (case tokens of
        Some ts \<Rightarrow>
          if \<not> num_falses msk < length ts then ([], Some AssertionError)
          else (case fast_split_by_subtensor U sep_tokens ts of
                  (segs, e) \<Rightarrow> (segment_items (td_hash_func td None) (length sep_tokens) (num_falses msk) 0 0 segs, e))
      | None \<Rightarrow> (case hashes of Some hs \<Rightarrow> process_hashes hs offsets | None \<Rightarrow> ([], Some ValueError)))"

definition Segment_process_tokens ::
  "(torch_dtype \<Rightarrow> bool) \<Rightarrow> torch_unfold \<Rightarrow> TokenDatabase \<Rightarrow> token list \<Rightarrow> token list option \<Rightarrow> chunk_hash list option \<Rightarrow> nat list option \<Rightarrow>
   bool list option \<Rightarrow> (string, string) pydict option \<Rightarrow> (nat \<times> nat \<times> CacheEngineKey) generator"
where
  "Segment_process_tokens has U td sep_tokens tokens hashes offsets msk request_configs =
     make_keys (make_key_by_hash has td request_configs) (Segment_process_hashes U td sep_tokens tokens hashes offsets msk)"

section \<open>What the chunks are\<close>

lemma chunk_tokens_nth:
  "i < length (chunk_tokens n unfull ts) \<Longrightarrow> chunk_tokens n unfull ts ! i = take n (drop (i * n) ts)"
  by (simp add: chunk_tokens_def Let_def)

lemma length_chunk_tokens:
  assumes "0 < n"
  shows "length (chunk_tokens n unfull ts) = (if unfull then (length ts + n - 1) div n else length ts div n)"
proof (cases unfull)
  case False
  have "(length ts - length ts mod n + n - 1) div n = (length ts div n * n + (n - 1)) div n"
    using assms by (simp add: minus_mod_eq_div_mult)
  also have "\<dots> = length ts div n" using assms div_mult_self3 [of n "length ts div n" "n - 1"] by (simp del: div_mult_self3)
  finally show ?thesis using False by (simp add: chunk_tokens_def Let_def)
qed (simp add: chunk_tokens_def Let_def)

text \<open>The first chunks depend on the tokens in them only.\<close>

lemma chunk_tokens_agree:
  assumes "0 < n" and "take (m * n) ts = take (m * n) ts'" and "m * n \<le> length ts" and "m * n \<le> length ts'"
  shows "take m (chunk_tokens n unfull ts) = take m (chunk_tokens n unfull ts')"
proof (rule nth_equalityI)
  have le: "m \<le> length (chunk_tokens n unfull us)" if "m * n \<le> length us" for us
  proof -
    have "m \<le> length us div n" using that assms(1) by (simp add: less_eq_div_iff_mult_less_eq)
    moreover have "length us div n \<le> (length us + n - 1) div n" using assms(1) by (intro div_le_mono) simp
    ultimately show ?thesis using length_chunk_tokens [OF assms(1), of unfull us] by auto
  qed
  show len: "length (take m (chunk_tokens n unfull ts)) = length (take m (chunk_tokens n unfull ts'))"
    using le [OF assms(3)] le [OF assms(4)] by simp
  fix i assume i: "i < length (take m (chunk_tokens n unfull ts))"
  then have "i < m" by simp
  then have b: "i * n + n \<le> m * n" by (metis Suc_leI add.commute mult_Suc mult_le_mono1)
  have cut: "take n (drop (i * n) us) = take n (drop (i * n) (take (m * n) us))" for us :: "token list"
    using b by (simp add: drop_take)
  have "take m (chunk_tokens n unfull us) ! i = take n (drop (i * n) us)" if "i < length (take m (chunk_tokens n unfull us))" for us
    using that chunk_tokens_nth [of i n unfull us] by simp
  then show "take m (chunk_tokens n unfull ts) ! i = take m (chunk_tokens n unfull ts') ! i"
    using i len cut [of ts] cut [of ts'] assms(2) by metis
qed

lemma concat_chunks: "concat (map (\<lambda>i. take n (drop (i * n) ts)) [0..<m]) = take (m * n) (ts :: token list)"
proof (induction m)
  case (Suc m)
  have "take (Suc m * n) ts = take (m * n) ts @ take n (drop (m * n) ts)" by (metis add.commute mult_Suc take_add)
  then show ?case using Suc by simp
qed simp

lemma chunks_tile:
  assumes "0 < n"
  shows "concat (chunk_tokens n True ts) = ts"
proof -
  have "length ts + n - 1 < n + (length ts + n - 1) div n * n" using dividend_less_div_times [OF assms, of "length ts + n - 1"] by simp
  then have "length ts \<le> (length ts + n - 1) div n * n" using assms by linarith
  then show ?thesis by (simp add: chunk_tokens_def Let_def concat_chunks)
qed

section \<open>What the hashes are\<close>

definition hash_of :: "hash_func \<Rightarrow> chunk_hash \<Rightarrow> token list list \<Rightarrow> chunk_hash" where
  "hash_of f h cs = foldl (\<lambda>h c. f (Some h) c) h cs"

lemma length_prefix_hash [simp]: "length (prefix_hash f h cs) = length cs"
  by (induction cs arbitrary: h) (simp_all add: Let_def)

lemma prefix_hash_nth: "i < length cs \<Longrightarrow> prefix_hash f h cs ! i = hash_of f h (take (Suc i) cs)"
proof (induction cs arbitrary: h i)
  case (Cons c cs)
  then show ?case by (cases i) (simp_all add: Let_def hash_of_def)
qed simp

definition collides :: "hash_func \<Rightarrow> bool" where
  "collides f \<longleftrightarrow> (\<exists>p c p' c'. (p, c) \<noteq> (p', c') \<and> f (Some p) c = f (Some p') c')"

lemma hash_of_identifies:
  assumes "\<not> collides f" and "\<forall>p c. f (Some p) c \<noteq> h" and "hash_of f h cs = hash_of f h ds"
  shows "cs = ds"
  using assms(3)
proof (induction cs arbitrary: ds rule: rev_induct)
  case Nil
  show ?case
  proof (cases ds rule: rev_cases)
    case (snoc ds' d)
    then show ?thesis using Nil assms(2) by (simp add: hash_of_def) metis
  qed simp
next
  case (snoc c cs)
  show ?case
  proof (cases ds rule: rev_cases)
    case Nil
    then show ?thesis using snoc(2) assms(2) by (simp add: hash_of_def)
  next
    case (snoc ds' d)
    then have "f (Some (hash_of f h cs)) c = f (Some (hash_of f h ds')) d" using snoc.prems by (simp add: hash_of_def)
    then have "hash_of f h cs = hash_of f h ds' \<and> c = d" using assms(1) unfolding collides_def by blast
    then show ?thesis using snoc.IH [of ds'] snoc by simp
  qed
qed

section \<open>The items of a text\<close>

definition num_chunks :: "ChunkedTokenDatabase \<Rightarrow> token list \<Rightarrow> nat" where
  "num_chunks ct ts = length (chunk_tokens (ct_chunk_size ct) (ct_save_unfull_chunk ct) ts)"

definition chunk_hash_at :: "ChunkedTokenDatabase \<Rightarrow> token list \<Rightarrow> nat \<Rightarrow> chunk_hash" where
  "chunk_hash_at ct ts i = hash_of (td_hash_func ct) (td_none_hash ct) (take (Suc i) (chunk_tokens (ct_chunk_size ct) (ct_save_unfull_chunk ct) ts))"

definition chunk_end :: "ChunkedTokenDatabase \<Rightarrow> token list \<Rightarrow> nat \<Rightarrow> nat" where
  "chunk_end ct ts i = min (Suc i * ct_chunk_size ct) (length ts)"

lemma chunk_items_at:
  assumes "0 < ct_chunk_size ct"
  shows "chunk_items ct (m * ct_chunk_size ct) ts =
    map (\<lambda>i. (i * ct_chunk_size ct, chunk_end ct ts i, chunk_hash_at ct ts i)) [m..<num_chunks ct ts]"
proof -
  let ?n = "ct_chunk_size ct" and ?hs = "prefix_hash (td_hash_func ct) (td_none_hash ct) (chunk_tokens (ct_chunk_size ct) (ct_save_unfull_chunk ct) ts)"
  have "map (\<lambda>(i, h). (i * ?n, min (i * ?n + ?n) (length ts), h)) (enumerate 0 ?hs) =
      map (\<lambda>i. (i * ?n, chunk_end ct ts i, chunk_hash_at ct ts i)) [0..<num_chunks ct ts]"
    by (rule nth_equalityI) (simp_all add: num_chunks_def nth_enumerate_eq chunk_end_def chunk_hash_at_def prefix_hash_nth add.commute)
  moreover have "filter (\<lambda>i. \<not> i < m) [0..<k] = [m..<k]" for k
    by (induction k) auto
  ultimately show ?thesis using assms by (simp add: chunk_items_def filter_map comp_def)
qed

lemma make_keys_total:
  assumes "\<And>h. mk h = Inr (g h)"
  shows "make_keys mk (items, e) = (map (\<lambda>(s, t, h). (s, t, g h)) items, e)"
  by (induction items) (auto simp: assms)

text \<open>The key of a hash, when the metadata and the data type are known.\<close>

definition key_of :: "TokenDatabase \<Rightarrow> (string, string) pydict option \<Rightarrow> string \<Rightarrow> chunk_hash \<Rightarrow> CacheEngineKey" where
  "key_of td rc dts h =
     (let m = the (td_metadata td)
      in \<lparr>ck_model_name = lm_model_name m, ck_world_size = (if td_save_only_first_rank td then 1 else lm_world_size m), ck_worker_id = lm_worker_id m,
          ck_chunk_hash = h, ck_dtype = lm_kv_dtype m, ck_request_configs = rc, ck_tags = tags_of rc, ck_dtype_str = dts, ck_layer_id = None\<rparr>)"

definition keys_ok :: "(torch_dtype \<Rightarrow> bool) \<Rightarrow> TokenDatabase \<Rightarrow> string \<Rightarrow> bool" where
  "keys_ok has td dts \<longleftrightarrow> (\<exists>m. td_metadata td = Some m \<and> map_of (TORCH_DTYPE_TO_STR_DTYPE has) (lm_kv_dtype m) = Some dts)"

lemma make_key_total: "keys_ok has td d \<Longrightarrow> make_key_by_hash has td rc h = Inr (key_of td rc d h)"
  by (auto simp: keys_ok_def make_key_by_hash_def CacheEngineKey_init_def key_of_def Let_def)

lemma key_of_inj: "key_eq (key_of td rc d h) (key_of td rc d h') \<longleftrightarrow> h = h'"
  by (auto simp: key_of_def key_eq_def Let_def)

text \<open>The whole generator, for a mask that hides the first \<open>m\<close> chunks.\<close>

lemma process_tokens_items:
  assumes "0 < ct_chunk_size ct" and "keys_ok has (TokenDatabase.truncate ct) d" and "num_falses msk = m * ct_chunk_size ct"
  shows "Chunked_process_tokens has ct (Some ts) hashes offsets msk rc =
    (map (\<lambda>i. (i * ct_chunk_size ct, chunk_end ct ts i, key_of (TokenDatabase.truncate ct) rc d (chunk_hash_at ct ts i))) [m..<num_chunks ct ts], None)"
  using assms
  by (simp add: Chunked_process_tokens_def Chunked_process_hashes_def chunk_items_at make_keys_total [OF make_key_total [OF assms(2)]] comp_def)

lemma chunk_hash_agree:
  assumes "0 < ct_chunk_size ct" and "take (Suc i * ct_chunk_size ct) ts = take (Suc i * ct_chunk_size ct) ts'"
    and "Suc i * ct_chunk_size ct \<le> length ts" and "Suc i * ct_chunk_size ct \<le> length ts'"
  shows "chunk_hash_at ct ts i = chunk_hash_at ct ts' i"
  unfolding chunk_hash_at_def using chunk_tokens_agree [OF assms] by simp

text \<open>Chunks with the same hash end the same text, unless the hash function collides.\<close>

lemma same_hash_same_text:
  assumes "\<not> collides (td_hash_func ct)" and "\<forall>p c. td_hash_func ct (Some p) c \<noteq> td_none_hash ct" and "0 < ct_chunk_size ct"
    and "i < num_chunks ct ts" and "j < num_chunks ct ts'" and "chunk_hash_at ct ts i = chunk_hash_at ct ts' j"
  shows "i = j \<and> take (chunk_end ct ts i) ts = take (chunk_end ct ts' j) ts'"
proof -
  let ?n = "ct_chunk_size ct" and ?u = "ct_save_unfull_chunk ct"
  have eq: "take (Suc i) (chunk_tokens ?n ?u ts) = take (Suc j) (chunk_tokens ?n ?u ts')"
    using hash_of_identifies [OF assms(1,2)] assms(6) unfolding chunk_hash_at_def by blast
  from arg_cong [OF this, of length] have ij: "i = j" using assms(4,5) by (simp add: num_chunks_def)
  have cat: "concat (take (Suc k) (chunk_tokens ?n ?u us)) = take (Suc k * ?n) us" if "k < num_chunks ct us" for k us
  proof -
    have "take (Suc k) (chunk_tokens ?n ?u us) = map (\<lambda>i. take ?n (drop (i * ?n) us)) [0..<Suc k]"
      using that by (intro nth_equalityI) (simp_all add: num_chunks_def chunk_tokens_nth del: upt_Suc)
    then show ?thesis using concat_chunks [of ?n us "Suc k"] by simp
  qed
  have "take (chunk_end ct us k) us = take (Suc k * ?n) us" for k us by (simp add: chunk_end_def min_def)
  then show ?thesis using arg_cong [OF eq, of concat] cat [OF assms(4)] cat [OF assms(5)] ij by simp
qed

section \<open>Segments\<close>

text \<open>Matches that start after each other, from \<open>start\<close> on.\<close>

fun apart :: "nat \<Rightarrow> nat \<Rightarrow> nat \<Rightarrow> nat list \<Rightarrow> bool" where
  "apart n sep_len start [] \<longleftrightarrow> start \<le> n"
| "apart n sep_len start (i # is) \<longleftrightarrow> start \<le> i \<and> i + sep_len \<le> n \<and> apart n sep_len (i + sep_len) is"

lemma segments_at:
  assumes "apart (length ts) sep_len start is" and "start = (if 0 < idx then pos + sep_len else pos)"
    and "(s, e, h) \<in> set (segment_items f sep_len falses idx pos (split_at ts sep_len start is))"
  shows "s \<le> e \<and> e \<le> length ts \<and> h = f (drop s (take e ts))"
  using assms
proof (induction "is" arbitrary: idx pos start)
  case (Cons i "is")
  let ?e = "start + length (drop start (take i ts))"
  have i: "start \<le> i" "i \<le> length ts" "?e = i" using Cons.prems(1) by simp_all
  show ?case
  proof (cases "(s, e, h) \<in> set (segment_items f sep_len falses (idx + 1) i (split_at ts sep_len (i + sep_len) is))")
    case True
    then show ?thesis using Cons.IH [of "i + sep_len" "idx + 1" i] Cons.prems(1) by simp
  next
    case False
    then have "(s, e, h) = (start, i, f (drop start (take i ts)))" using Cons.prems(2,3) i by (auto simp: Let_def split: if_splits)
    then show ?thesis using i by simp
  qed
qed (auto simp: Let_def split: if_splits)

text \<open>Overlapping separators move the positions past the end of the text.\<close>

lemma overlapping_separators:
  "split_at [7, 7, 7] 2 0 [0, 1] = [[], [], []] \<and>
   map (\<lambda>(s, e, h). (s, e)) (segment_items (\<lambda>_. IntHash 0) 2 0 0 0 (split_at [7, 7, 7] 2 0 [0, 1])) = [(0, 0), (2, 2), (4, 4)]"
  by (simp add: Let_def)

text \<open>A text shorter than the separator is yielded, and then an exception follows.\<close>

lemma short_text_raises:
  assumes "unfold_documented U" and "0 < length ts" and "length ts < length sep" and "num_falses msk < length ts"
  shows "snd (Segment_process_hashes U td sep (Some ts) hashes offsets msk) = Some RuntimeError"
  using assms by (simp add: Segment_process_hashes_def fast_split_by_subtensor_def unfold_documented_def)

end
