(* ===== verification/Py_Actions.thy ===== *)
theory Py_Actions
  imports LM_Prelude
begin

text \<open>
  Methods that change a state, may raise and may not return: an action takes a state to \<open>None\<close> when it
  never returns, and otherwise to the new state with a value or an exception. An exception keeps the
  changes made before it. Loops over lists are the recursive combinations.
\<close>

type_synonym ('s, 'a) act = "'s \<Rightarrow> ('s \<times> 'a result) option"

definition return_act :: "'a \<Rightarrow> ('s, 'a) act" where
  "return_act a = (\<lambda>s. Some (s, Inr a))"

definition raise_act :: "py_error \<Rightarrow> ('s, 'a) act" where
  "raise_act e = (\<lambda>s. Some (s, Inl e))"

definition bind_act :: "('s, 'a) act \<Rightarrow> ('a \<Rightarrow> ('s, 'b) act) \<Rightarrow> ('s, 'b) act" where
  "bind_act m f = (\<lambda>s. case m s of None \<Rightarrow> None | Some (s', Inl e) \<Rightarrow> Some (s', Inl e) | Some (s', Inr a) \<Rightarrow> f a s')"

definition get_act :: "('s \<Rightarrow> 'a) \<Rightarrow> ('s, 'a) act" where
  "get_act f = (\<lambda>s. Some (s, Inr (f s)))"

definition upd_act :: "('s \<Rightarrow> 's) \<Rightarrow> ('s, unit) act" where
  "upd_act f = (\<lambda>s. Some (f s, Inr ()))"

definition assert_act :: "bool \<Rightarrow> ('s, unit) act" where
  "assert_act b = (if b then return_act () else raise_act AssertionError)"

text \<open>A method that always returns and never raises.\<close>

definition total_act :: "('s \<Rightarrow> 's \<times> 'a) \<Rightarrow> ('s, 'a) act" where
  "total_act f = (\<lambda>s. case f s of (s', a) \<Rightarrow> Some (s', Inr a))"

fun for_act :: "('a \<Rightarrow> ('s, unit) act) \<Rightarrow> 'a list \<Rightarrow> ('s, unit) act" where
  "for_act f [] = return_act ()"
| "for_act f (x # xs) = bind_act (f x) (\<lambda>_. for_act f xs)"

fun map_act :: "('a \<Rightarrow> ('s, 'b) act) \<Rightarrow> 'a list \<Rightarrow> ('s, 'b list) act" where
  "map_act f [] = return_act []"
| "map_act f (x # xs) = bind_act (f x) (\<lambda>y. bind_act (map_act f xs) (\<lambda>ys. return_act (y # ys)))"

fun sum_act :: "('a \<Rightarrow> ('s, int) act) \<Rightarrow> 'a list \<Rightarrow> ('s, int) act" where
  "sum_act f [] = return_act 0"
| "sum_act f (x # xs) = bind_act (f x) (\<lambda>m. bind_act (sum_act f xs) (\<lambda>n. return_act (m + n)))"

text \<open>A loop that counts its rounds until one answers no.\<close>

fun count_act :: "('a \<Rightarrow> ('s, bool) act) \<Rightarrow> 'a list \<Rightarrow> ('s, nat) act" where
  "count_act f [] = return_act 0"
| "count_act f (x # xs) = bind_act (f x) (\<lambda>b. if b then bind_act (count_act f xs) (\<lambda>n. return_act (n + 1)) else return_act 0)"

named_theorems act_simps \<open>how actions run\<close>

lemma act_run [act_simps]:
  "return_act a s = Some (s, Inr a)"
  "raise_act e s = Some (s, Inl e)"
  "get_act f s = Some (s, Inr (f s))"
  "upd_act g s = Some (g s, Inr ())"
  "assert_act b s = (if b then Some (s, Inr ()) else Some (s, Inl AssertionError))"
  by (simp_all add: return_act_def raise_act_def get_act_def upd_act_def assert_act_def)

lemma bind_run [act_simps]:
  "m s = Some (s', Inr a) \<Longrightarrow> bind_act m f s = f a s'"
  "m s = Some (s', Inl e) \<Longrightarrow> bind_act m f s = Some (s', Inl e)"
  "m s = None \<Longrightarrow> bind_act m f s = None"
  by (simp_all add: bind_act_def)

lemma total_run [act_simps]: "total_act f s = Some (fst (f s), Inr (snd (f s)))"
  by (simp add: total_act_def split: prod.split)

lemma bind_SomeE:
  assumes "bind_act m f s = Some (t, r)"
  obtains (ok) s' a where "m s = Some (s', Inr a)" and "f a s' = Some (t, r)"
  | (err) e where "m s = Some (t, Inl e)" and "r = Inl e"
  using assms by (auto simp: bind_act_def split: option.splits sum.splits)

end
