(* ===== verification/Cache_Policy.thy ===== *)
theory Cache_Policy
  imports LM_Prelude
begin

text \<open>
  The cache policies of \<^verbatim>\<open>lmcache/v1/storage_backend/cache_policy/\<close>: LRU, LFU, FIFO and MRU. The cache is
  an insertion-ordered dictionary that the policies reorder or only read; \<open>can_evict\<close> is the property of that
  name of a cached value. \<open>items\<close> stands for the iteration over a \<^verbatim>\<open>SortedDict\<close> of the
  package \<^verbatim>\<open>sortedcontainers\<close>. The LRU policy also records when it first saw a chunk hash; time is
  an argument, and the statistics it feeds are left out.

  Shown: the four policies meet one contract, stated as the locale \<open>cache_policy\<close>, and each
  evicts the entry that its name says.
\<close>

section \<open>Shared code\<close>

text \<open>The loop of \<^verbatim>\<open>get_evict_candidates\<close> of LRU, FIFO and MRU over the entries in order.\<close>

fun scan_candidates :: "('v \<Rightarrow> bool) \<Rightarrow> nat \<Rightarrow> ('k \<times> 'v) list \<Rightarrow> 'k list \<Rightarrow> 'k list" where
  "scan_candidates can_evict num_candidates [] evict_keys = evict_keys"
| "scan_candidates can_evict num_candidates ((key, cache) # rest) evict_keys =
     (if \<not> can_evict cache then scan_candidates can_evict num_candidates rest evict_keys
      else if length (evict_keys @ [key]) = num_candidates then evict_keys @ [key]
      else scan_candidates can_evict num_candidates rest (evict_keys @ [key]))"

section \<open>LRU\<close>

definition max_num_chunk_hash :: nat where
  "max_num_chunk_hash = 12500000"

definition update_chunk_hash_dict :: "int \<Rightarrow> 'h \<Rightarrow> ('h, int) pydict \<Rightarrow> ('h, int) pydict" where
  "update_chunk_hash_dict now key_hash d =
     (case map_of d key_hash of
        Some t \<Rightarrow> if t \<noteq> 0 then d else AList.update key_hash now (if length d \<ge> max_num_chunk_hash then [] else d)
      | None \<Rightarrow> AList.update key_hash now (if length d \<ge> max_num_chunk_hash then [] else d))"

definition LRU_update_on_hit ::
  "int \<Rightarrow> ('k \<Rightarrow> 'h) \<Rightarrow> 'k \<Rightarrow> ('h, int) pydict \<Rightarrow> ('k, 'v) pydict \<Rightarrow> (('h, int) pydict \<times> ('k, 'v) pydict) result"
where
  "LRU_update_on_hit now hash_of key d cache_dict =
     bind_result (move_to_end key cache_dict) (\<lambda>c. Inr (update_chunk_hash_dict now (hash_of key) d, c))"

definition LRU_update_on_put :: "int \<Rightarrow> ('k \<Rightarrow> 'h) \<Rightarrow> 'k \<Rightarrow> ('h, int) pydict \<Rightarrow> ('h, int) pydict" where
  "LRU_update_on_put now hash_of key d = update_chunk_hash_dict now (hash_of key) d"

definition LRU_update_on_force_evict :: "'k \<Rightarrow> ('h, int) pydict \<Rightarrow> ('h, int) pydict" where
  "LRU_update_on_force_evict key d = d"

definition LRU_get_evict_candidates ::
  "('v \<Rightarrow> bool) \<Rightarrow> nat \<Rightarrow> ('h, int) pydict \<Rightarrow> ('k, 'v) pydict \<Rightarrow> (('h, int) pydict \<times> 'k list) result"
where
  "LRU_get_evict_candidates can_evict num_candidates d cache_dict = Inr (d, scan_candidates can_evict num_candidates cache_dict [])"

section \<open>LFU\<close>

record 'k LFUCachePolicy =
  lfu_freq_to_keys :: "(nat, 'k list) pydict"
  lfu_key_to_freq :: "('k, nat) pydict"

definition LFUCachePolicy_init :: "'k LFUCachePolicy" where
  "LFUCachePolicy_init = \<lparr>lfu_freq_to_keys = [], lfu_key_to_freq = []\<rparr>"

text \<open>
  \<^verbatim>\<open>freq_to_keys[freq].pop(key)\<close>, and the removal of the bucket once it is empty; \<^verbatim>\<open>freq_to_keys[freq][key] = None\<close>
  with the creation of a missing bucket. A bucket is the list of its keys in order.
\<close>

definition pop_from_bucket :: "nat \<Rightarrow> 'k \<Rightarrow> (nat, 'k list) pydict \<Rightarrow> (nat, 'k list) pydict result" where
  "pop_from_bucket freq key b =
     (case map_of b freq of
        None \<Rightarrow> Inl KeyError
      | Some keys \<Rightarrow>
          if key \<notin> set keys then Inl KeyError
          else if remove1 key keys = [] then Inr (AList.delete freq b)
          else Inr (AList.update freq (remove1 key keys) b))"

definition add_to_bucket :: "nat \<Rightarrow> 'k \<Rightarrow> (nat, 'k list) pydict \<Rightarrow> (nat, 'k list) pydict" where
  "add_to_bucket freq key b =
     (case map_of b freq of
        None \<Rightarrow> AList.update freq [key] b
      | Some keys \<Rightarrow> AList.update freq (if key \<in> set keys then keys else keys @ [key]) b)"

definition LFU_update_on_hit :: "'k \<Rightarrow> 'k LFUCachePolicy \<Rightarrow> ('k, 'v) pydict \<Rightarrow> ('k LFUCachePolicy \<times> ('k, 'v) pydict) result" where
  "LFU_update_on_hit key p cache_dict =
     (case map_of (lfu_key_to_freq p) key of
        None \<Rightarrow> Inl KeyError
      | Some curr_freq \<Rightarrow>
          bind_result (pop_from_bucket curr_freq key (lfu_freq_to_keys p)) (\<lambda>b.
            Inr (\<lparr>lfu_freq_to_keys = add_to_bucket (curr_freq + 1) key b,
                  lfu_key_to_freq = AList.update key (curr_freq + 1) (lfu_key_to_freq p)\<rparr>, cache_dict)))"

definition LFU_update_on_put :: "'k \<Rightarrow> 'k LFUCachePolicy \<Rightarrow> 'k LFUCachePolicy" where
  "LFU_update_on_put key p =
     \<lparr>lfu_freq_to_keys = add_to_bucket 1 key (lfu_freq_to_keys p), lfu_key_to_freq = AList.update key 1 (lfu_key_to_freq p)\<rparr>"

definition LFU_update_on_force_evict :: "'k \<Rightarrow> 'k LFUCachePolicy \<Rightarrow> 'k LFUCachePolicy result" where
  "LFU_update_on_force_evict key p =
     (case map_of (lfu_key_to_freq p) key of
        None \<Rightarrow> Inr p
      | Some freq \<Rightarrow>
          if freq = 0 then Inr (p\<lparr>lfu_key_to_freq := AList.delete key (lfu_key_to_freq p)\<rparr>)
          else bind_result (pop_from_bucket freq key (lfu_freq_to_keys p)) (\<lambda>b.
                 Inr \<lparr>lfu_freq_to_keys = b, lfu_key_to_freq = AList.delete key (lfu_key_to_freq p)\<rparr>))"

text \<open>The two nested loops over the buckets, as one over all keys with their frequencies.\<close>

fun lfu_scan ::
  "('v \<Rightarrow> bool) \<Rightarrow> nat \<Rightarrow> ('k, 'v) pydict \<Rightarrow> (nat \<times> 'k) list \<Rightarrow> (nat \<times> 'k) list \<Rightarrow> ('k, nat) pydict \<Rightarrow> ((nat \<times> 'k) list \<times> ('k, nat) pydict) result"
where
  "lfu_scan can_evict num_candidates cache_dict [] evict k2f = Inr (evict, k2f)"
| "lfu_scan can_evict num_candidates cache_dict ((freq, key) # rest) evict k2f =
     (case map_of cache_dict key of
        None \<Rightarrow> Inl KeyError
      | Some v \<Rightarrow>
          if \<not> can_evict v then lfu_scan can_evict num_candidates cache_dict rest evict k2f
          else (case map_of k2f key of
                  None \<Rightarrow> Inl KeyError
                | Some _ \<Rightarrow>
                    let evict' = evict @ [(freq, key)]; k2f' = AList.delete key k2f
                    in if length evict' = num_candidates then Inr (evict', k2f')
                       else lfu_scan can_evict num_candidates cache_dict rest evict' k2f'))"

fun pop_all :: "(nat \<times> 'k) list \<Rightarrow> (nat, 'k list) pydict \<Rightarrow> (nat, 'k list) pydict result" where
  "pop_all [] b = Inr b"
| "pop_all ((freq, key) # rest) b = bind_result (pop_from_bucket freq key b) (pop_all rest)"

definition bucket_keys :: "(nat \<times> 'k list) list \<Rightarrow> (nat \<times> 'k) list" where
  "bucket_keys bs = concat (map (\<lambda>(freq, keys). map (Pair freq) keys) bs)"

definition LFU_get_evict_candidates ::
  "((nat, 'k list) pydict \<Rightarrow> (nat \<times> 'k list) list) \<Rightarrow> ('v \<Rightarrow> bool) \<Rightarrow> nat \<Rightarrow> 'k LFUCachePolicy \<Rightarrow> ('k, 'v) pydict \<Rightarrow>
   ('k LFUCachePolicy \<times> 'k list) result"
where
  "LFU_get_evict_candidates items can_evict num_candidates p cache_dict =
     bind_result (lfu_scan can_evict num_candidates cache_dict (bucket_keys (items (lfu_freq_to_keys p))) [] (lfu_key_to_freq p)) (\<lambda>(evict, k2f).
     bind_result (pop_all evict (lfu_freq_to_keys p)) (\<lambda>b.
       Inr (\<lparr>lfu_freq_to_keys = b, lfu_key_to_freq = k2f\<rparr>, map snd evict)))"

section \<open>The policies as one type\<close>

datatype ('k, 'h) CachePolicy = LRUCachePolicy "('h, int) pydict" | LFUCachePolicy "'k LFUCachePolicy" | FIFOCachePolicy | MRUCachePolicy

definition upper :: "string \<Rightarrow> string" where
  "upper s = map (\<lambda>c. let n = of_char c :: nat in if 97 \<le> n \<and> n \<le> 122 then char_of (n - 32) else c) s"

definition get_cache_policy :: "string \<Rightarrow> ('k, 'h) CachePolicy result" where
  "get_cache_policy policy_name =
     (if policy_name = [] then Inl ValueError
      else (case map_of [(''LRU'', LRUCachePolicy []), (''LFU'', LFUCachePolicy LFUCachePolicy_init), (''FIFO'', FIFOCachePolicy), (''MRU'', MRUCachePolicy)]
                   (upper policy_name) of
              None \<Rightarrow> Inl ValueError
            | Some p \<Rightarrow> Inr p))"

text \<open>What the policies depend on: the clock, the hash of a key and the iteration of \<^verbatim>\<open>SortedDict\<close>.\<close>

record ('k, 'h) policy_env =
  pe_now :: int
  pe_hash :: "'k \<Rightarrow> 'h"
  pe_items :: "(nat, 'k list) pydict \<Rightarrow> (nat \<times> 'k list) list"

definition update_on_hit ::
  "('k, 'h) policy_env \<Rightarrow> 'k \<Rightarrow> ('k, 'h) CachePolicy \<Rightarrow> ('k, 'v) pydict \<Rightarrow> (('k, 'h) CachePolicy \<times> ('k, 'v) pydict) result"
where
  "update_on_hit E key p cache_dict =
     (case p of
        LRUCachePolicy d \<Rightarrow> bind_result (LRU_update_on_hit (pe_now E) (pe_hash E) key d cache_dict) (\<lambda>(d', c). Inr (LRUCachePolicy d', c))
      | LFUCachePolicy l \<Rightarrow> bind_result (LFU_update_on_hit key l cache_dict) (\<lambda>(l', c). Inr (LFUCachePolicy l', c))
      | FIFOCachePolicy \<Rightarrow> Inr (p, cache_dict)
      | MRUCachePolicy \<Rightarrow> bind_result (move_to_end key cache_dict) (\<lambda>c. Inr (p, c)))"

definition update_on_put :: "('k, 'h) policy_env \<Rightarrow> 'k \<Rightarrow> ('k, 'h) CachePolicy \<Rightarrow> ('k, 'h) CachePolicy" where
  "update_on_put E key p =
     (case p of
        LRUCachePolicy d \<Rightarrow> LRUCachePolicy (LRU_update_on_put (pe_now E) (pe_hash E) key d)
      | LFUCachePolicy l \<Rightarrow> LFUCachePolicy (LFU_update_on_put key l)
      | FIFOCachePolicy \<Rightarrow> p
      | MRUCachePolicy \<Rightarrow> p)"

definition update_on_force_evict :: "'k \<Rightarrow> ('k, 'h) CachePolicy \<Rightarrow> ('k, 'h) CachePolicy result" where
  "update_on_force_evict key p =
     (case p of
        LRUCachePolicy d \<Rightarrow> Inr (LRUCachePolicy (LRU_update_on_force_evict key d))
      | LFUCachePolicy l \<Rightarrow> bind_result (LFU_update_on_force_evict key l) (\<lambda>l'. Inr (LFUCachePolicy l'))
      | FIFOCachePolicy \<Rightarrow> Inr p
      | MRUCachePolicy \<Rightarrow> Inr p)"

definition get_evict_candidates ::
  "('k, 'h) policy_env \<Rightarrow> ('v \<Rightarrow> bool) \<Rightarrow> nat \<Rightarrow> ('k, 'h) CachePolicy \<Rightarrow> ('k, 'v) pydict \<Rightarrow> (('k, 'h) CachePolicy \<times> 'k list) result"
where
  "get_evict_candidates E can_evict num_candidates p cache_dict =
     (case p of
        LRUCachePolicy d \<Rightarrow> bind_result (LRU_get_evict_candidates can_evict num_candidates d cache_dict) (\<lambda>(d', ks). Inr (LRUCachePolicy d', ks))
      | LFUCachePolicy l \<Rightarrow> bind_result (LFU_get_evict_candidates (pe_items E) can_evict num_candidates l cache_dict) (\<lambda>(l', ks). Inr (LFUCachePolicy l', ks))
      | FIFOCachePolicy \<Rightarrow> Inr (p, scan_candidates can_evict num_candidates cache_dict [])
      | MRUCachePolicy \<Rightarrow> Inr (p, scan_candidates can_evict num_candidates (rev cache_dict) []))"

section \<open>The contract\<close>

text \<open>
  What a user of a policy relies on. \<open>ok p K\<close> says that the state of the policy fits a cache with
  the keys \<open>K\<close>. The keys that \<open>candidates\<close> returns are forgotten by the policy at once.
\<close>

definition evictable :: "('v \<Rightarrow> bool) \<Rightarrow> ('k, 'v) pydict \<Rightarrow> 'k set" where
  "evictable e c = {k. \<exists>v. map_of c k = Some v \<and> e v}"

locale cache_policy =
  fixes ok :: "'p \<Rightarrow> 'k set \<Rightarrow> bool"
    and hit :: "'k \<Rightarrow> 'p \<Rightarrow> ('k, 'v) pydict \<Rightarrow> ('p \<times> ('k, 'v) pydict) result"
    and put :: "'k \<Rightarrow> 'p \<Rightarrow> 'p"
    and force_evict :: "'k \<Rightarrow> 'p \<Rightarrow> 'p result"
    and candidates :: "('v \<Rightarrow> bool) \<Rightarrow> nat \<Rightarrow> 'p \<Rightarrow> ('k, 'v) pydict \<Rightarrow> ('p \<times> 'k list) result"
  assumes hit_law: "\<lbrakk>ok p (fst ` set c); dict_ok c; k \<in> fst ` set c\<rbrakk> \<Longrightarrow>
      \<exists>p' c'. hit k p c = Inr (p', c') \<and> ok p' (fst ` set c) \<and> dict_ok c' \<and> map_of c' = map_of c"
    and put_law: "\<lbrakk>ok p K; k \<notin> K\<rbrakk> \<Longrightarrow> ok (put k p) (insert k K)"
    and force_law: "ok p K \<Longrightarrow> \<exists>p'. force_evict k p = Inr p' \<and> ok p' (K - {k})"
    and candidates_law: "\<lbrakk>ok p (fst ` set c); dict_ok c; 0 < n\<rbrakk> \<Longrightarrow>
      \<exists>p' ks. candidates e n p c = Inr (p', ks) \<and> ok p' (fst ` set c - set ks) \<and> distinct ks \<and> set ks \<subseteq> evictable e c \<and>
        length ks \<le> n \<and> (length ks < n \<longrightarrow> set ks = evictable e c)"
begin

text \<open>One candidate: there is one exactly when some entry can be evicted.\<close>

lemma one_candidate:
  assumes "ok p (fst ` set c)" and "dict_ok c"
  obtains (none) p' where "candidates e 1 p c = Inr (p', [])" and "ok p' (fst ` set c)" and "evictable e c = {}"
  | (one) p' k where "candidates e 1 p c = Inr (p', [k])" and "ok p' (fst ` set c - {k})" and "k \<in> evictable e c"
proof -
  obtain p' ks where c: "candidates e 1 p c = Inr (p', ks)" "ok p' (fst ` set c - set ks)" "set ks \<subseteq> evictable e c" "length ks \<le> 1"
      "length ks < 1 \<longrightarrow> set ks = evictable e c"
    using candidates_law [OF assms, of 1 e] by auto
  show thesis
  proof (cases ks)
    case Nil
    then show thesis using c none by auto
  next
    case (Cons k ks')
    then show thesis using c one by auto
  qed
qed

end

section \<open>Scanning\<close>

lemma scan_candidates_take:
  "length acc < n \<Longrightarrow> scan_candidates e n xs acc = acc @ take (n - length acc) (map fst (filter (e \<circ> snd) xs))"
proof (induction e n xs acc rule: scan_candidates.induct)
  case (2 e n key cache rest acc)
  show ?case
  proof (cases "e cache \<and> length acc + 1 < n")
    case True
    then have "n - length acc = Suc (n - Suc (length acc))" by linarith
    then show ?thesis using 2 True by simp
  next
    case False
    then consider "\<not> e cache" | "e cache" "n = Suc (length acc)" using 2(3) by linarith
    then show ?thesis by cases (use 2 in simp_all)
  qed
qed simp

lemma scan_candidates_law:
  fixes e :: "'v \<Rightarrow> bool"
  assumes "dict_ok c" and "0 < n" and "mset xs = mset c"
  defines "ks \<equiv> scan_candidates e n xs []"
  shows "distinct ks \<and> set ks \<subseteq> evictable e c \<and> length ks \<le> n \<and> (length ks < n \<longrightarrow> set ks = evictable e c)"
proof -
  let ?ys = "map fst (filter (e \<circ> snd) xs)"
  have ks: "ks = take n ?ys" using scan_candidates_take [of "[]" n e xs] assms(2) by (simp add: ks_def)
  have s: "set xs = set c" "distinct (map fst xs)"
    using assms(1,3) mset_eq_setD [of xs c] mset_eq_imp_distinct_iff [of "map fst xs" "map fst c"] by simp_all
  then have "set ?ys = evictable e c"
    using map_of_eq_Some_iff [OF assms(1)] by (force simp: evictable_def)
  moreover have "distinct ?ys" using s(2) by (simp add: distinct_map_filter)
  ultimately show ?thesis
    unfolding ks using set_take_subset [of n ?ys] by (cases "length ?ys \<le> n") (auto simp: min_def)
qed

section \<open>LRU, FIFO and MRU\<close>

definition lru_ok :: "('h, int) pydict \<Rightarrow> 'k set \<Rightarrow> bool" where
  "lru_ok d K \<longleftrightarrow> dict_ok d \<and> length d \<le> max_num_chunk_hash"

lemma length_update_le: "length (AList.update k v d) \<le> Suc (length d)"
  by (induction d) auto

lemma update_chunk_hash_ok: "lru_ok d K \<Longrightarrow> lru_ok (update_chunk_hash_dict now h d) K'"
proof -
  have "length (AList.update h now e) \<le> max_num_chunk_hash" if "length e < max_num_chunk_hash" for e
    using length_update_le [of h now e] that by linarith
  moreover have "0 < max_num_chunk_hash" by (simp add: max_num_chunk_hash_def)
  ultimately show "lru_ok d K \<Longrightarrow> lru_ok (update_chunk_hash_dict now h d) K'"
    by (auto simp: lru_ok_def update_chunk_hash_dict_def not_le simp del: AList.update.simps split: option.splits)
qed

lemma move_to_end_law:
  assumes "dict_ok c" and "k \<in> fst ` set c"
  shows "\<exists>c'. move_to_end k c = Inr c' \<and> dict_ok c' \<and> map_of c' = map_of c"
proof -
  obtain c' where c': "move_to_end k c = Inr c'" using assms(2) by (cases "map_of c k") (auto simp: move_to_end_def map_of_eq_None_iff)
  then show ?thesis using move_to_end_ok [OF assms(1) c'] by blast
qed

interpretation lru: cache_policy lru_ok "LRU_update_on_hit now h" "LRU_update_on_put now h" "\<lambda>k d. Inr (LRU_update_on_force_evict k d)" LRU_get_evict_candidates
  for now :: int and h :: "'k \<Rightarrow> 'h"
proof
  fix p :: "('h, int) pydict" and c :: "('k, 'v) pydict" and k
  assume "lru_ok p (fst ` set c)" "dict_ok c" "k \<in> fst ` set c"
  then show "\<exists>p' c'. LRU_update_on_hit now h k p c = Inr (p', c') \<and> lru_ok p' (fst ` set c) \<and> dict_ok c' \<and> map_of c' = map_of c"
    using move_to_end_law [of c k] update_chunk_hash_ok by (auto simp: LRU_update_on_hit_def bind_result_def)
next
  fix p :: "('h, int) pydict" and K :: "'k set" and k
  show "lru_ok p K \<Longrightarrow> k \<notin> K \<Longrightarrow> lru_ok (LRU_update_on_put now h k p) (insert k K)"
    by (simp add: LRU_update_on_put_def update_chunk_hash_ok)
  show "lru_ok p K \<Longrightarrow> \<exists>p'. Inr (LRU_update_on_force_evict k p) = Inr p' \<and> lru_ok p' (K - {k})"
    by (simp add: LRU_update_on_force_evict_def lru_ok_def)
next
  fix p :: "('h, int) pydict" and c :: "('k, 'v) pydict" and n :: nat and e :: "'v \<Rightarrow> bool"
  assume "lru_ok p (fst ` set c)" "dict_ok c" "0 < n"
  then show "\<exists>p' ks. LRU_get_evict_candidates e n p c = Inr (p', ks) \<and> lru_ok p' (fst ` set c - set ks) \<and> distinct ks \<and>
      set ks \<subseteq> evictable e c \<and> length ks \<le> n \<and> (length ks < n \<longrightarrow> set ks = evictable e c)"
    using scan_candidates_law [of c n c e] by (simp add: LRU_get_evict_candidates_def lru_ok_def)
qed

section \<open>LFU\<close>

text \<open>What the package \<^verbatim>\<open>sortedcontainers\<close> documents: a \<^verbatim>\<open>SortedDict\<close> iterates over its items in the order of its keys.\<close>

definition items_documented :: "((nat, 'b) pydict \<Rightarrow> (nat \<times> 'b) list) \<Rightarrow> bool" where
  "items_documented items \<longleftrightarrow> (\<forall>d. dict_ok d \<longrightarrow> sorted (map fst (items d)) \<and> mset (items d) = mset d)"

lemma sorted_items_documented: "items_documented (sort_key fst)"
  by (simp add: items_documented_def)

text \<open>The buckets hold each key once, in the bucket of its frequency.\<close>

definition buckets_rel :: "(nat \<Rightarrow> 'k list option) \<Rightarrow> ('k \<Rightarrow> nat option) \<Rightarrow> bool" where
  "buckets_rel B M \<longleftrightarrow>
     (\<forall>f ks. B f = Some ks \<longrightarrow> ks \<noteq> [] \<and> distinct ks \<and> 0 < f) \<and> (\<forall>k f. M k = Some f \<longleftrightarrow> (\<exists>ks. B f = Some ks \<and> k \<in> set ks))"

definition buckets_ok :: "(nat, 'k list) pydict \<Rightarrow> ('k \<Rightarrow> nat option) \<Rightarrow> bool" where
  "buckets_ok b M \<longleftrightarrow> dict_ok b \<and> buckets_rel (map_of b) M"

lemma buckets_rel_pop:
  assumes "buckets_rel B M" and "B f = Some ks" and "k \<in> set ks"
  shows "buckets_rel (B(f := if remove1 k ks = [] then None else Some (remove1 k ks))) (M(k := None))"
proof -
  have d: "distinct ks" using assms(1,2) by (auto simp: buckets_rel_def)
  have uniq: "B g = Some ks' \<Longrightarrow> k \<in> set ks' \<Longrightarrow> g = f" for g ks' using assms unfolding buckets_rel_def by (metis option.inject)
  have s: "set (remove1 k ks) = set ks - {k}" using d by simp
  let ?B = "B(f := if remove1 k ks = [] then None else Some (remove1 k ks))"
  show ?thesis unfolding buckets_rel_def
  proof (intro conjI allI)
    fix g ks'
    show "?B g = Some ks' \<longrightarrow> ks' \<noteq> [] \<and> distinct ks' \<and> 0 < g"
      using assms(1,2) d unfolding buckets_rel_def by (cases "g = f") auto
  next
    fix j g
    have M: "M j = Some g \<longleftrightarrow> (\<exists>ks'. B g = Some ks' \<and> j \<in> set ks')" using assms(1) unfolding buckets_rel_def by blast
    show "(M(k := None)) j = Some g \<longleftrightarrow> (\<exists>ks'. ?B g = Some ks' \<and> j \<in> set ks')"
    proof (cases "j = k")
      case True
      then show ?thesis using uniq [of g] s by (cases "g = f") auto
    next
      case False
      show ?thesis
      proof (cases "g = f")
        case True
        then have "M j = Some g \<longleftrightarrow> j \<in> set (remove1 k ks)" using M s assms(2) \<open>j \<noteq> k\<close> by simp
        then show ?thesis using True \<open>j \<noteq> k\<close> by (cases "remove1 k ks = []") simp_all
      next
        case False
        then show ?thesis using M \<open>j \<noteq> k\<close> by simp
      qed
    qed
  qed
qed

lemma pop_from_bucket_ok:
  assumes "buckets_ok b M" and "M k = Some f"
  shows "\<exists>b'. pop_from_bucket f k b = Inr b' \<and> buckets_ok b' (M(k := None))"
proof -
  have rel: "buckets_rel (map_of b) M" and ok: "dict_ok b" using assms(1) unfolding buckets_ok_def by blast+
  then obtain ks where ks: "map_of b f = Some ks" "k \<in> set ks" using assms(2) unfolding buckets_rel_def by blast
  note r = buckets_rel_pop [OF rel ks]
  show ?thesis
  proof (cases "remove1 k ks = []")
    case True
    have "map_of (AList.delete f b) = (map_of b)(f := None)" by (rule AList.delete_conv')
    then have "buckets_ok (AList.delete f b) (M(k := None))" using r True ok unfolding buckets_ok_def by simp
    then show ?thesis using ks True unfolding pop_from_bucket_def by simp
  next
    case False
    have "map_of (AList.update f (remove1 k ks) b) = (map_of b)(f \<mapsto> remove1 k ks)" by (rule AList.update_conv')
    then have "buckets_ok (AList.update f (remove1 k ks) b) (M(k := None))" using r False ok unfolding buckets_ok_def by simp
    then show ?thesis using ks False unfolding pop_from_bucket_def by simp
  qed
qed

lemma buckets_rel_add:
  assumes "buckets_rel B M" and "M k = None" and "0 < f"
  shows "buckets_rel (B(f \<mapsto> (case B f of None \<Rightarrow> [k] | Some ks \<Rightarrow> ks @ [k]))) (M(k \<mapsto> f))"
proof -
  have "k \<notin> set ks" if "B g = Some ks" for g ks using assms(1,2) that unfolding buckets_rel_def by (metis option.distinct(1))
  then show ?thesis using assms unfolding buckets_rel_def by (cases "B f") auto
qed

lemma add_to_bucket_ok:
  assumes "buckets_ok b M" and "M k = None" and "0 < f"
  shows "buckets_ok (add_to_bucket f k b) (M(k \<mapsto> f))"
proof -
  have rel: "buckets_rel (map_of b) M" and ok: "dict_ok b" using assms(1) unfolding buckets_ok_def by blast+
  have "k \<notin> set ks" if "map_of b f = Some ks" for ks using rel assms(2) that unfolding buckets_rel_def by (metis option.distinct(1))
  then have "add_to_bucket f k b = AList.update f (case map_of b f of None \<Rightarrow> [k] | Some ks \<Rightarrow> ks @ [k]) b"
    unfolding add_to_bucket_def by (cases "map_of b f") simp_all
  then show ?thesis using buckets_rel_add [OF rel assms(2,3)] ok unfolding buckets_ok_def by (simp add: AList.update_conv')
qed

lemma pop_all_ok:
  assumes "buckets_ok b M" and "\<forall>(f, k) \<in> set X. M k = Some f" and "distinct (map snd X)"
  shows "\<exists>b'. pop_all X b = Inr b' \<and> buckets_ok b' (M |` (- snd ` set X))"
  using assms
proof (induction X arbitrary: b M)
  case (Cons x X)
  obtain f k where x: "x = (f, k)" by (cases x)
  define M' where "M' = M(k := None)"
  obtain b' where b': "pop_from_bucket f k b = Inr b'" "buckets_ok b' M'"
    using pop_from_bucket_ok [OF Cons.prems(1), of k f] Cons.prems(2) x by (auto simp: M'_def)
  have "\<forall>(g, j) \<in> set X. M' j = Some g" using Cons.prems x by (force simp: M'_def)
  then obtain b'' where "pop_all X b' = Inr b''" "buckets_ok b'' (M' |` (- snd ` set X))"
    using Cons.IH [OF b'(2)] Cons.prems(3) x by auto
  moreover have "M' |` (- snd ` set X) = M |` (- snd ` set (x # X))"
    by (auto simp: x restrict_map_def M'_def)
  ultimately show ?case using b'(1) x by (simp add: bind_result_def)
qed (simp add: restrict_map_def)

lemma lfu_scan_spec:
  fixes e :: "'v \<Rightarrow> bool"
  assumes "length ev < n" and "distinct (map snd rest)" and "\<forall>k \<in> snd ` set rest. (\<exists>f. map_of k2f k = Some f) \<and> (\<exists>v. map_of c k = Some v)" and "dict_ok k2f"
  defines "X \<equiv> take (n - length ev) (filter (\<lambda>(f, k). e (the (map_of c k))) rest)"
  shows "\<exists>k2f'. lfu_scan e n c rest ev k2f = Inr (ev @ X, k2f') \<and> dict_ok k2f' \<and> map_of k2f' = map_of k2f |` (- snd ` set X)"
  using assms(1-4) unfolding X_def
proof (induction e n c rest ev k2f rule: lfu_scan.induct)
  case (2 e n c f k rest ev k2f)
  have "k \<in> snd ` set ((f, k) # rest)" by simp
  then obtain v g where v: "map_of c k = Some v" "map_of k2f k = Some g" using 2(5) by blast
  show ?case
  proof (cases "e v")
    case False
    then show ?thesis using 2(1) [OF v(1)] 2(3-6) v by simp
  next
    case True
    show ?thesis
    proof (cases "length (ev @ [(f, k)]) = n")
      case l: True
      then have "n - length ev = 1" by simp
      then show ?thesis using v True l 2(6) by (simp add: AList.delete_conv' restrict_map_def fun_eq_iff)
    next
      case False
      then have l: "length (ev @ [(f, k)]) < n" "n - length ev = Suc (n - length (ev @ [(f, k)]))" using 2(3) by auto
      let ?Y = "take (n - length (ev @ [(f, k)])) (filter (\<lambda>(f, k). e (the (map_of c k))) rest)"
      have "\<forall>j \<in> snd ` set rest. (\<exists>f. map_of (AList.delete k k2f) j = Some f) \<and> (\<exists>v. map_of c j = Some v)"
      proof
        fix j
        assume j: "j \<in> snd ` set rest"
        then have "map_of (AList.delete k k2f) j = map_of k2f j" using 2(4) by (auto simp: AList.delete_conv')
        moreover have "j \<in> snd ` set ((f, k) # rest)" using j by simp
        ultimately show "(\<exists>f. map_of (AList.delete k k2f) j = Some f) \<and> (\<exists>v. map_of c j = Some v)" using 2(5) by metis
      qed
      then have "\<exists>k2f'. lfu_scan e n c rest (ev @ [(f, k)]) (AList.delete k k2f) = Inr ((ev @ [(f, k)]) @ ?Y, k2f') \<and> dict_ok k2f' \<and>
          map_of k2f' = map_of (AList.delete k k2f) |` (- snd ` set ?Y)"
        using 2(2) [OF v(1) _ v(2) refl refl] True False l(1) 2(4) dict_ok_delete [OF 2(6), of k] by simp
      then obtain k2f' where "lfu_scan e n c rest (ev @ [(f, k)]) (AList.delete k k2f) = Inr ((ev @ [(f, k)]) @ ?Y, k2f')" "dict_ok k2f'"
          "map_of k2f' = map_of (AList.delete k k2f) |` (- snd ` set ?Y)"
        by (elim exE conjE)
      moreover have "map_of (AList.delete k k2f) |` (- snd ` set ?Y) = map_of k2f |` (- insert k (snd ` set ?Y))"
        by (auto simp: AList.delete_conv' restrict_map_def)
      ultimately show ?thesis using v True False l(2) by simp
    qed
  qed
qed (simp add: restrict_map_def)

text \<open>The keys of the buckets in the order of the scan.\<close>

lemma set_bucket_keys: "(f, k) \<in> set (bucket_keys bs) \<longleftrightarrow> (\<exists>ks. (f, ks) \<in> set bs \<and> k \<in> set ks)"
  by (auto simp: bucket_keys_def)

lemma sorted_bucket_keys: "sorted (map fst bs) \<Longrightarrow> sorted (map fst (bucket_keys bs))"
  by (induction bs) (auto simp: bucket_keys_def sorted_append comp_def map_replicate_const)

lemma distinct_bucket_keys:
  assumes "distinct (map fst bs)" and "\<forall>(f, ks) \<in> set bs. distinct ks"
    and "\<forall>f ks g ks' k. (f, ks) \<in> set bs \<longrightarrow> (g, ks') \<in> set bs \<longrightarrow> k \<in> set ks \<longrightarrow> k \<in> set ks' \<longrightarrow> f = g"
  shows "distinct (map snd (bucket_keys bs))"
  using assms
proof (induction bs)
  case (Cons b bs)
  obtain f ks where b: "b = (f, ks)" by (cases b)
  have "distinct (map snd (bucket_keys bs))" using Cons.IH Cons.prems by (auto; blast)
  moreover have "k \<notin> set ks" if gk: "(g, k) \<in> set (bucket_keys bs)" for g k
  proof
    assume "k \<in> set ks"
    moreover obtain ks' where "(g, ks') \<in> set bs" "k \<in> set ks'" using gk unfolding set_bucket_keys by blast
    ultimately have "f = g" using Cons.prems(3) b by (meson list.set_intros)
    then show False using \<open>(g, ks') \<in> set bs\<close> Cons.prems(1) b by force
  qed
  moreover have "map snd (bucket_keys (b # bs)) = ks @ map snd (bucket_keys bs)" by (simp add: bucket_keys_def b comp_def)
  moreover have "distinct ks" using Cons.prems(2) b by simp
  ultimately show ?case by auto
qed (simp add: bucket_keys_def)

definition lfu_ok :: "'k LFUCachePolicy \<Rightarrow> 'k set \<Rightarrow> bool" where
  "lfu_ok p K \<longleftrightarrow> dict_ok (lfu_key_to_freq p) \<and> fst ` set (lfu_key_to_freq p) = K \<and> buckets_ok (lfu_freq_to_keys p) (map_of (lfu_key_to_freq p))"

lemma lfu_scan_order:
  assumes "lfu_ok p K" and "items_documented items"
  defines "bk \<equiv> bucket_keys (items (lfu_freq_to_keys p))"
  shows "distinct (map snd bk)" and "sorted (map fst bk)" and "(f, k) \<in> set bk \<longleftrightarrow> map_of (lfu_key_to_freq p) k = Some f"
    and "snd ` set bk = K"
proof -
  let ?b = "lfu_freq_to_keys p" and ?M = "map_of (lfu_key_to_freq p)"
  have b: "dict_ok ?b" and rel: "buckets_rel (map_of ?b) ?M" using assms(1) by (simp_all add: lfu_ok_def buckets_ok_def)
  have i: "sorted (map fst (items ?b))" "mset (items ?b) = mset ?b" using assms(2) b by (simp_all add: items_documented_def)
  have s: "set (items ?b) = set ?b" using i(2) by (rule mset_eq_setD)
  have mem: "(g, ks) \<in> set (items ?b) \<longleftrightarrow> map_of ?b g = Some ks" for g ks using s map_of_eq_Some_iff [OF b] by simp
  show iff: "(f, k) \<in> set bk \<longleftrightarrow> ?M k = Some f" for f k
    unfolding bk_def set_bucket_keys mem using rel unfolding buckets_rel_def by blast
  show "sorted (map fst bk)" unfolding bk_def using i(1) by (rule sorted_bucket_keys)
  have "distinct (map fst (items ?b))" using b i(2) by (metis mset_map mset_eq_imp_distinct_iff)
  moreover have "\<forall>(g, ks) \<in> set (items ?b). distinct ks" using mem rel unfolding buckets_rel_def by blast
  moreover have "\<forall>g ks g' ks' k. (g, ks) \<in> set (items ?b) \<longrightarrow> (g', ks') \<in> set (items ?b) \<longrightarrow> k \<in> set ks \<longrightarrow> k \<in> set ks' \<longrightarrow> g = g'"
    unfolding mem using rel unfolding buckets_rel_def by (metis option.inject)
  ultimately show "distinct (map snd bk)" unfolding bk_def by (rule distinct_bucket_keys)
  have inK: "k \<in> K \<longleftrightarrow> (\<exists>f. ?M k = Some f)" for k
    using assms(1) dict_has_iff [of "lfu_key_to_freq p" k] unfolding lfu_ok_def by blast
  show "snd ` set bk = K"
  proof (intro set_eqI)
    fix k
    have "k \<in> snd ` set bk \<longleftrightarrow> (\<exists>f. (f, k) \<in> set bk)" by force
    then show "k \<in> snd ` set bk \<longleftrightarrow> k \<in> K" unfolding iff inK .
  qed
qed

text \<open>The candidates are the first evictable keys in the order of the scan.\<close>

lemma lfu_candidates:
  fixes e :: "'v \<Rightarrow> bool"
  assumes "lfu_ok p (fst ` set c)" and "items_documented items" and "0 < n"
  defines "X \<equiv> take n (filter (\<lambda>(f, k). e (the (map_of c k))) (bucket_keys (items (lfu_freq_to_keys p))))"
  shows "\<exists>p'. LFU_get_evict_candidates items e n p c = Inr (p', map snd X) \<and> lfu_ok p' (fst ` set c - snd ` set X)"
proof -
  let ?bk = "bucket_keys (items (lfu_freq_to_keys p))" and ?M = "map_of (lfu_key_to_freq p)"
  note ord = lfu_scan_order [OF assms(1,2)]
  have both: "\<forall>k \<in> snd ` set ?bk. (\<exists>f. ?M k = Some f) \<and> (\<exists>v. map_of c k = Some v)"
  proof
    fix k
    assume "k \<in> snd ` set ?bk"
    then have "k \<in> fst ` set c" using ord(4) by simp
    moreover from this have "k \<in> fst ` set (lfu_key_to_freq p)" using assms(1) by (simp add: lfu_ok_def)
    ultimately show "(\<exists>f. ?M k = Some f) \<and> (\<exists>v. map_of c k = Some v)" unfolding dict_has_iff by blast
  qed
  have ok: "dict_ok (lfu_key_to_freq p)" "buckets_ok (lfu_freq_to_keys p) ?M" using assms(1) by (simp_all add: lfu_ok_def)
  obtain k2f where k2f: "lfu_scan e n c ?bk [] (lfu_key_to_freq p) = Inr (X, k2f)" "dict_ok k2f" "map_of k2f = ?M |` (- snd ` set X)"
    using lfu_scan_spec [of "[]" n ?bk "lfu_key_to_freq p" c e] assms(3) ord(1) both ok(1) unfolding X_def by auto
  have sub: "set X \<subseteq> set ?bk" unfolding X_def using set_take_subset by fastforce
  have "\<forall>(f, k) \<in> set X. ?M k = Some f" using sub ord(3) by blast
  moreover have "distinct (map snd X)" unfolding X_def using ord(1) by (simp add: distinct_map_filter take_map [symmetric])
  ultimately obtain b' where b': "pop_all X (lfu_freq_to_keys p) = Inr b'" "buckets_ok b' (?M |` (- snd ` set X))"
    using pop_all_ok [OF ok(2)] by blast
  have "fst ` set k2f = dom (map_of k2f)" by (simp add: dom_map_of_conv_image_fst)
  also have "\<dots> = fst ` set c - snd ` set X"
    unfolding k2f(3) using assms(1) by (auto simp: lfu_ok_def dom_map_of_conv_image_fst [symmetric])
  finally have "lfu_ok \<lparr>lfu_freq_to_keys = b', lfu_key_to_freq = k2f\<rparr> (fst ` set c - snd ` set X)"
    using k2f(2,3) b'(2) by (simp add: lfu_ok_def)
  moreover have "LFU_get_evict_candidates items e n p c = Inr (\<lparr>lfu_freq_to_keys = b', lfu_key_to_freq = k2f\<rparr>, map snd X)"
    using k2f(1) b'(1) by (simp add: LFU_get_evict_candidates_def bind_result_def)
  ultimately show ?thesis by blast
qed

lemma lfu_known: "lfu_ok p K \<Longrightarrow> k \<in> K \<longleftrightarrow> (\<exists>f. map_of (lfu_key_to_freq p) k = Some f)"
  using dict_has_iff [of "lfu_key_to_freq p" k] unfolding lfu_ok_def by blast

lemma lfu_positive: "lfu_ok p K \<Longrightarrow> map_of (lfu_key_to_freq p) k = Some f \<Longrightarrow> 0 < f"
  unfolding lfu_ok_def buckets_ok_def buckets_rel_def by blast

lemma lfu_hit:
  assumes "lfu_ok p K" and "map_of (lfu_key_to_freq p) k = Some f"
  shows "\<exists>p'. LFU_update_on_hit k p c = Inr (p', c) \<and> lfu_ok p' K \<and> map_of (lfu_key_to_freq p') = (map_of (lfu_key_to_freq p))(k \<mapsto> f + 1)"
proof -
  let ?M = "map_of (lfu_key_to_freq p)" and ?k2f = "AList.update k (f + 1) (lfu_key_to_freq p)"
  have ok: "dict_ok (lfu_key_to_freq p)" "buckets_ok (lfu_freq_to_keys p) ?M" using assms(1) by (simp_all add: lfu_ok_def)
  obtain b where b: "pop_from_bucket f k (lfu_freq_to_keys p) = Inr b" "buckets_ok b (?M(k := None))"
    using pop_from_bucket_ok [OF ok(2) assms(2)] by blast
  have "buckets_ok (add_to_bucket (f + 1) k b) (?M(k \<mapsto> f + 1))" using add_to_bucket_ok [OF b(2), of k "f + 1"] by simp
  moreover have "map_of ?k2f = ?M(k \<mapsto> f + 1)" by (rule AList.update_conv')
  moreover have "fst ` set ?k2f = K"
    using assms map_of_Some_key [OF assms(2)] by (auto simp: dom_update lfu_ok_def)
  ultimately have "lfu_ok \<lparr>lfu_freq_to_keys = add_to_bucket (f + 1) k b, lfu_key_to_freq = ?k2f\<rparr> K"
    using ok(1) by (simp add: lfu_ok_def)
  then show ?thesis using b(1) assms(2) by (simp add: LFU_update_on_hit_def bind_result_def AList.update_conv')
qed

lemma lfu_put: "lfu_ok p K \<Longrightarrow> k \<notin> K \<Longrightarrow> lfu_ok (LFU_update_on_put k p) (insert k K)"
proof -
  assume a: "lfu_ok p K" "k \<notin> K"
  then have "map_of (lfu_key_to_freq p) k = None" by (simp add: lfu_ok_def map_of_eq_None_iff)
  then have "buckets_ok (add_to_bucket 1 k (lfu_freq_to_keys p)) ((map_of (lfu_key_to_freq p))(k \<mapsto> 1))"
    using a(1) by (intro add_to_bucket_ok) (simp_all add: lfu_ok_def)
  then show ?thesis using a by (simp add: lfu_ok_def LFU_update_on_put_def AList.update_conv' dom_update)
qed

lemma lfu_force:
  assumes "lfu_ok p K"
  shows "\<exists>p'. LFU_update_on_force_evict k p = Inr p' \<and> lfu_ok p' (K - {k})"
proof (cases "map_of (lfu_key_to_freq p) k")
  case None
  then have "k \<notin> K" using lfu_known [OF assms, of k] by simp
  then show ?thesis using None assms by (simp add: LFU_update_on_force_evict_def)
next
  case (Some f)
  obtain b where b: "pop_from_bucket f k (lfu_freq_to_keys p) = Inr b" "buckets_ok b ((map_of (lfu_key_to_freq p))(k := None))"
    using pop_from_bucket_ok [of "lfu_freq_to_keys p" "map_of (lfu_key_to_freq p)" k f] Some assms by (auto simp: lfu_ok_def)
  have "lfu_ok \<lparr>lfu_freq_to_keys = b, lfu_key_to_freq = AList.delete k (lfu_key_to_freq p)\<rparr> (K - {k})"
    using assms b(2) by (simp add: lfu_ok_def AList.delete_conv')
  then show ?thesis using Some b(1) lfu_positive [OF assms Some] by (simp add: LFU_update_on_force_evict_def bind_result_def)
qed

lemma lfu_candidates_law:
  assumes "lfu_ok p (fst ` set c)" and "items_documented items" and "0 < n"
  shows "\<exists>p' ks. LFU_get_evict_candidates items e n p c = Inr (p', ks) \<and> lfu_ok p' (fst ` set c - set ks) \<and> distinct ks \<and>
      set ks \<subseteq> evictable e c \<and> length ks \<le> n \<and> (length ks < n \<longrightarrow> set ks = evictable e c)"
proof -
  let ?Y = "filter (\<lambda>(f, k). e (the (map_of c k))) (bucket_keys (items (lfu_freq_to_keys p)))"
  note ord = lfu_scan_order [OF assms(1,2)]
  obtain p' where p': "LFU_get_evict_candidates items e n p c = Inr (p', map snd (take n ?Y))" "lfu_ok p' (fst ` set c - snd ` set (take n ?Y))"
    using lfu_candidates [OF assms, of e] by blast
  have "snd ` set ?Y = {k \<in> fst ` set c. e (the (map_of c k))}" unfolding ord(4) [symmetric] by force
  also have "\<dots> = evictable e c"
  proof (intro set_eqI)
    fix k
    show "k \<in> {k \<in> fst ` set c. e (the (map_of c k))} \<longleftrightarrow> k \<in> evictable e c"
      using dict_has_iff [of c k] by (cases "map_of c k") (auto simp: evictable_def)
  qed
  finally have Y: "set (map snd ?Y) = evictable e c" by simp
  have "distinct (map snd ?Y)" using ord(1) by (simp add: distinct_map_filter)
  then have "distinct (map snd (take n ?Y))" by (simp add: take_map [symmetric])
  moreover have "set (map snd (take n ?Y)) \<subseteq> evictable e c" unfolding Y [symmetric] using set_take_subset [of n ?Y] by auto
  moreover have "length (map snd (take n ?Y)) < n \<longrightarrow> set (map snd (take n ?Y)) = evictable e c"
    unfolding Y [symmetric] by (cases "length ?Y \<le> n") simp_all
  ultimately show ?thesis using p' by (intro exI [of _ p'] exI [of _ "map snd (take n ?Y)"]) simp
qed

interpretation lfu: cache_policy "\<lambda>p K. items_documented items \<and> lfu_ok p K" LFU_update_on_hit LFU_update_on_put LFU_update_on_force_evict "LFU_get_evict_candidates items"
  for items :: "(nat, 'k list) pydict \<Rightarrow> (nat \<times> 'k list) list"
proof
  fix p :: "'k LFUCachePolicy" and c :: "('k, 'v) pydict" and k
  assume "items_documented items \<and> lfu_ok p (fst ` set c)" "dict_ok c" "k \<in> fst ` set c"
  then show "\<exists>p' c'. LFU_update_on_hit k p c = Inr (p', c') \<and> (items_documented items \<and> lfu_ok p' (fst ` set c)) \<and> dict_ok c' \<and> map_of c' = map_of c"
    using lfu_hit [of p "fst ` set c" k _ c] lfu_known [of p "fst ` set c" k] by metis
next
  fix p :: "'k LFUCachePolicy" and K k
  show "items_documented items \<and> lfu_ok p K \<Longrightarrow> k \<notin> K \<Longrightarrow> items_documented items \<and> lfu_ok (LFU_update_on_put k p) (insert k K)"
    by (simp add: lfu_put)
  show "items_documented items \<and> lfu_ok p K \<Longrightarrow> \<exists>p'. LFU_update_on_force_evict k p = Inr p' \<and> items_documented items \<and> lfu_ok p' (K - {k})"
    using lfu_force [of p K k] by blast
next
  fix p :: "'k LFUCachePolicy" and c :: "('k, 'v) pydict" and n :: nat and e :: "'v \<Rightarrow> bool"
  assume "items_documented items \<and> lfu_ok p (fst ` set c)" "dict_ok c" "0 < n"
  then show "\<exists>p' ks. LFU_get_evict_candidates items e n p c = Inr (p', ks) \<and> (items_documented items \<and> lfu_ok p' (fst ` set c - set ks)) \<and> distinct ks \<and>
      set ks \<subseteq> evictable e c \<and> length ks \<le> n \<and> (length ks < n \<longrightarrow> set ks = evictable e c)"
    using lfu_candidates_law [of p c items n e] by blast
qed

section \<open>The policy of a backend\<close>

definition state_ok :: "('k, 'h) CachePolicy \<Rightarrow> 'k set \<Rightarrow> bool" where
  "state_ok p K \<longleftrightarrow> (case p of LRUCachePolicy d \<Rightarrow> lru_ok d K | LFUCachePolicy l \<Rightarrow> lfu_ok l K | _ \<Rightarrow> True)"

definition policy_ok :: "('k, 'h) policy_env \<Rightarrow> ('k, 'h) CachePolicy \<Rightarrow> 'k set \<Rightarrow> bool" where
  "policy_ok E p K \<longleftrightarrow> items_documented (pe_items E) \<and> state_ok p K"

interpretation pol: cache_policy "policy_ok E" "update_on_hit E" "update_on_put E" update_on_force_evict "get_evict_candidates E"
  for E :: "('k, 'h) policy_env"
proof
  fix p :: "('k, 'h) CachePolicy" and c :: "('k, 'v) pydict" and k
  assume a: "policy_ok E p (fst ` set c)" "dict_ok c" "k \<in> fst ` set c"
  show "\<exists>p' c'. update_on_hit E k p c = Inr (p', c') \<and> policy_ok E p' (fst ` set c) \<and> dict_ok c' \<and> map_of c' = map_of c"
    using a lru.hit_law [of _ c k "pe_now E" "pe_hash E"] lfu.hit_law [of "pe_items E" _ c k] move_to_end_law [OF a(2,3)]
    by (cases p) (fastforce simp: update_on_hit_def policy_ok_def state_ok_def bind_result_def)+
next
  fix p :: "('k, 'h) CachePolicy" and K k
  show "policy_ok E p K \<Longrightarrow> k \<notin> K \<Longrightarrow> policy_ok E (update_on_put E k p) (insert k K)"
    using lru.put_law [of _ K k "pe_now E" "pe_hash E"] lfu_put [of _ K k] by (cases p) (auto simp: update_on_put_def policy_ok_def state_ok_def)
  show "policy_ok E p K \<Longrightarrow> \<exists>p'. update_on_force_evict k p = Inr p' \<and> policy_ok E p' (K - {k})"
    using lfu_force [of _ K k] by (cases p) (fastforce simp: update_on_force_evict_def policy_ok_def state_ok_def bind_result_def LRU_update_on_force_evict_def lru_ok_def)+
next
  fix p :: "('k, 'h) CachePolicy" and c :: "('k, 'v) pydict" and n :: nat and e :: "'v \<Rightarrow> bool"
  assume a: "policy_ok E p (fst ` set c)" "dict_ok c" "0 < n"
  show "\<exists>p' ks. get_evict_candidates E e n p c = Inr (p', ks) \<and> policy_ok E p' (fst ` set c - set ks) \<and> distinct ks \<and>
      set ks \<subseteq> evictable e c \<and> length ks \<le> n \<and> (length ks < n \<longrightarrow> set ks = evictable e c)"
  proof (cases p)
    case (LRUCachePolicy d)
    then show ?thesis using a lru.candidates_law [of d c n e] by (auto simp: get_evict_candidates_def policy_ok_def state_ok_def bind_result_def)
  next
    case (LFUCachePolicy l)
    then show ?thesis using a lfu_candidates_law [of l c "pe_items E" n e] by (auto simp: get_evict_candidates_def policy_ok_def state_ok_def bind_result_def)
  qed (use a scan_candidates_law [of c n c e] scan_candidates_law [of c n "rev c" e] in \<open>simp_all add: get_evict_candidates_def policy_ok_def state_ok_def\<close>)
qed

section \<open>Histories\<close>

text \<open>
  A policy in use: entries are put, used, and removed by the caller or because the policy chose them. The log
  has the latest event first. An entry is put only where there is none.
\<close>

datatype 'k use = Put 'k | Hit 'k | Gone 'k

inductive policy_run :: "('k, 'h) CachePolicy \<Rightarrow> ('k, 'v) pydict \<Rightarrow> 'k use list \<Rightarrow> bool" where
  created: "get_cache_policy name = Inr p \<Longrightarrow> policy_run p [] []"
| stored: "policy_run p c us \<Longrightarrow> k \<notin> fst ` set c \<Longrightarrow> items_documented (pe_items E) \<Longrightarrow> policy_run (update_on_put E k p) (c @ [(k, v)]) (Put k # us)"
| used: "policy_run p c us \<Longrightarrow> items_documented (pe_items E) \<Longrightarrow> update_on_hit E k p c = Inr (p', c') \<Longrightarrow> k \<in> fst ` set c \<Longrightarrow> policy_run p' c' (Hit k # us)"
| removed: "policy_run p c us \<Longrightarrow> update_on_force_evict k p = Inr p' \<Longrightarrow> policy_run p' (AList.delete k c) (Gone k # us)"
| evicted: "policy_run p c us \<Longrightarrow> items_documented (pe_items E) \<Longrightarrow> get_evict_candidates E e 1 p c = Inr (p', [k]) \<Longrightarrow>
    policy_run p' (AList.delete k c) (Gone k # us)"

text \<open>When a key was last put and last used, and how often it was used since it was put.\<close>

fun put_at :: "'k use list \<Rightarrow> 'k \<Rightarrow> nat" where
  "put_at [] k = 0"
| "put_at (Put j # us) k = (if j = k then length us else put_at us k)"
| "put_at (_ # us) k = put_at us k"

fun used_at :: "'k use list \<Rightarrow> 'k \<Rightarrow> nat" where
  "used_at [] k = 0"
| "used_at (Put j # us) k = (if j = k then length us else used_at us k)"
| "used_at (Hit j # us) k = (if j = k then length us else used_at us k)"
| "used_at (Gone j # us) k = used_at us k"

fun uses :: "'k use list \<Rightarrow> 'k \<Rightarrow> nat" where
  "uses [] k = 0"
| "uses (Put j # us) k = (if j = k then 1 else uses us k)"
| "uses (Hit j # us) k = (if j = k then uses us k + 1 else uses us k)"
| "uses (Gone j # us) k = uses us k"

text \<open>The order or the counts that the policy keeps.\<close>

definition by_time :: "('k \<Rightarrow> nat) \<Rightarrow> ('k, 'v) pydict \<Rightarrow> bool" where
  "by_time t c \<longleftrightarrow> sorted_wrt (\<lambda>j k. t j < t k) (dict_keys c)"

definition order_ok :: "('k, 'h) CachePolicy \<Rightarrow> ('k, 'v) pydict \<Rightarrow> 'k use list \<Rightarrow> bool" where
  "order_ok p c us \<longleftrightarrow>
     (case p of
        FIFOCachePolicy \<Rightarrow> by_time (put_at us) c
      | LFUCachePolicy l \<Rightarrow> (\<forall>k \<in> fst ` set c. map_of (lfu_key_to_freq l) k = Some (uses us k))
      | _ \<Rightarrow> by_time (used_at us) c)"

definition log_ok :: "'k set \<Rightarrow> 'k use list \<Rightarrow> bool" where
  "log_ok K us \<longleftrightarrow> (\<forall>k \<in> K. put_at us k < length us \<and> used_at us k < length us)"

lemma dict_keys_delete: "dict_keys (AList.delete k c) = filter (\<lambda>j. j \<noteq> k) (dict_keys c)"
  by (induction c) auto

lemma dict_keys_move:
  assumes "move_to_end k c = Inr c'"
  shows "dict_keys c' = filter (\<lambda>j. j \<noteq> k) (dict_keys c) @ [k]"
  using assms by (auto simp: move_to_end_def dict_keys_delete split: option.splits)

lemma sorted_wrt_weaken: "sorted_wrt P xs \<Longrightarrow> (\<And>x y. x \<in> set xs \<Longrightarrow> y \<in> set xs \<Longrightarrow> P x y \<Longrightarrow> Q x y) \<Longrightarrow> sorted_wrt Q xs"
  by (induction xs) auto

lemma lfu_scan_keeps:
  "lfu_scan e n c rest ev k2f = Inr (ev', k2f') \<Longrightarrow> \<exists>X. ev' = ev @ X \<and> (\<forall>j. j \<notin> snd ` set X \<longrightarrow> map_of k2f' j = map_of k2f j)"
proof (induction e n c rest ev k2f rule: lfu_scan.induct)
  case (2 e n c f k rest ev k2f)
  obtain v where v: "map_of c k = Some v" using 2(3) by (auto split: option.splits)
  show ?case
  proof (cases "e v")
    case False
    then show ?thesis using 2(1) [OF v] 2(3) v by simp
  next
    case True
    obtain g where g: "map_of k2f k = Some g" using 2(3) v True by (auto split: option.splits)
    have d: "map_of (AList.delete k k2f) j = map_of k2f j" if "j \<noteq> k" for j using that by (simp add: AList.delete_conv')
    show ?thesis
    proof (cases "length (ev @ [(f, k)]) = n")
      case l: True
      then have "ev' = ev @ [(f, k)]" "k2f' = AList.delete k k2f" using 2(3) v True g by simp_all
      then show ?thesis using d by auto
    next
      case False
      then have "lfu_scan e n c rest (ev @ [(f, k)]) (AList.delete k k2f) = Inr (ev', k2f')" using 2(3) v True g by simp
      then obtain X where X: "ev' = (ev @ [(f, k)]) @ X" "\<forall>j. j \<notin> snd ` set X \<longrightarrow> map_of k2f' j = map_of (AList.delete k k2f) j"
        using 2(2) [OF v _ g refl refl] True False by blast
      then show ?thesis using d by (intro exI [of _ "(f, k) # X"]) simp
    qed
  qed
qed simp

lemma lfu_evict_keeps:
  assumes "LFU_get_evict_candidates items e n p c = Inr (p', ks)" and "j \<notin> set ks"
  shows "map_of (lfu_key_to_freq p') j = map_of (lfu_key_to_freq p) j"
proof -
  obtain ev k2f where ev: "lfu_scan e n c (bucket_keys (items (lfu_freq_to_keys p))) [] (lfu_key_to_freq p) = Inr (ev, k2f)"
      and "lfu_key_to_freq p' = k2f" "ks = map snd ev"
    using assms(1) by (auto simp: LFU_get_evict_candidates_def bind_result_def split: sum.splits)
  then show ?thesis using lfu_scan_keeps [OF ev] assms(2) by auto
qed

lemma lfu_force_keeps:
  assumes "LFU_update_on_force_evict k p = Inr p'" and "j \<noteq> k"
  shows "map_of (lfu_key_to_freq p') j = map_of (lfu_key_to_freq p) j"
  using assms by (auto simp: LFU_update_on_force_evict_def bind_result_def AList.delete_conv' split: option.splits sum.splits if_splits)

definition run_ok :: "('k, 'h) CachePolicy \<Rightarrow> ('k, 'v) pydict \<Rightarrow> 'k use list \<Rightarrow> bool" where
  "run_ok p c us \<longleftrightarrow> dict_ok c \<and> state_ok p (fst ` set c) \<and> log_ok (fst ` set c) us \<and> order_ok p c us"

lemma log_ok_stored: "log_ok K us \<Longrightarrow> log_ok (insert k K) (Put k # us)"
  by (auto simp: log_ok_def less_SucI)

lemma log_ok_used: "log_ok K us \<Longrightarrow> log_ok K (Hit k # us)"
  by (auto simp: log_ok_def less_SucI)

lemma log_ok_gone: "log_ok K us \<Longrightarrow> log_ok (K - {k}) (Gone k # us)"
  by (auto simp: log_ok_def less_SucI)

lemma by_time_snoc:
  assumes "by_time t c" and "\<And>j. j \<in> fst ` set c \<Longrightarrow> t' j = t j" and "\<And>j. j \<in> fst ` set c \<Longrightarrow> t j < t' k"
  shows "by_time t' (c @ [(k, v)])"
proof -
  have "sorted_wrt (\<lambda>j k. t' j < t' k) (dict_keys c)"
    using assms(1,2) unfolding by_time_def by (elim sorted_wrt_weaken) simp
  then show ?thesis using assms(2,3) by (simp add: by_time_def sorted_wrt_append)
qed

lemma by_time_delete: "by_time t c \<Longrightarrow> by_time t (AList.delete k c)"
  by (simp add: by_time_def dict_keys_delete sorted_wrt_filter)

lemma by_time_moved:
  assumes "by_time t c" and "\<And>j. j \<noteq> k \<Longrightarrow> t' j = t j" and "\<And>j. j \<in> fst ` set c \<Longrightarrow> t j < t' k" and "move_to_end k c = Inr c'"
  shows "by_time t' c'"
proof -
  obtain v where c': "c' = AList.delete k c @ [(k, v)]" using assms(4) by (auto simp: move_to_end_def split: option.splits)
  show ?thesis unfolding c' using assms(2,3) by (intro by_time_snoc [OF by_time_delete [OF assms(1)]]) auto
qed

lemma order_stored:
  assumes "order_ok p c us" and "log_ok (fst ` set c) us" and "k \<notin> fst ` set c"
  shows "order_ok (update_on_put E k p) (c @ [(k, v)]) (Put k # us)"
proof -
  have ne: "j \<noteq> k" if "j \<in> fst ` set c" for j using that assms(3) by blast
  have t: "put_at us j < length us" "used_at us j < length us" if "j \<in> fst ` set c" for j
    using assms(2) that unfolding log_ok_def by blast+
  have a: "put_at (Put k # us) j = put_at us j" "used_at (Put k # us) j = used_at us j" if "j \<in> fst ` set c" for j
    using ne [OF that] by simp_all
  have b: "put_at (Put k # us) k = length us" "used_at (Put k # us) k = length us" by simp_all
  have "by_time (put_at us) c \<Longrightarrow> by_time (put_at (Put k # us)) (c @ [(k, v)])"
    "by_time (used_at us) c \<Longrightarrow> by_time (used_at (Put k # us)) (c @ [(k, v)])"
    using a b t by (metis by_time_snoc)+
  moreover have "\<forall>j \<in> fst ` set c. map_of (lfu_key_to_freq l) j = Some (uses us j) \<Longrightarrow>
      \<forall>j \<in> fst ` set (c @ [(k, v)]). map_of (lfu_key_to_freq (LFU_update_on_put k l)) j = Some (uses (Put k # us) j)" for l
    using ne by (auto simp: LFU_update_on_put_def AList.update_conv')
  ultimately show ?thesis using assms(1) unfolding order_ok_def update_on_put_def by (cases p) simp_all
qed

lemma order_moved:
  assumes "by_time (used_at us) c" and "log_ok (fst ` set c) us" and "move_to_end k c = Inr c'"
  shows "by_time (used_at (Hit k # us)) c'"
  using assms(2) by (intro by_time_moved [OF assms(1) _ _ assms(3)]) (auto simp: log_ok_def)

lemma order_used:
  assumes "order_ok p c us" and "log_ok (fst ` set c) us" and "update_on_hit E k p c = Inr (p', c')" and "policy_ok E p (fst ` set c)"
  shows "order_ok p' c' (Hit k # us)"
proof (cases p)
  case (LRUCachePolicy d)
  then obtain d' where "p' = LRUCachePolicy d'" "move_to_end k c = Inr c'"
    using assms(3) by (auto simp: update_on_hit_def LRU_update_on_hit_def bind_result_def split: sum.splits)
  then show ?thesis using order_moved assms(1,2) LRUCachePolicy unfolding order_ok_def by auto
next
  case MRUCachePolicy
  then have "p' = MRUCachePolicy" "move_to_end k c = Inr c'"
    using assms(3) by (auto simp: update_on_hit_def bind_result_def split: sum.splits)
  then show ?thesis using order_moved assms(1,2) MRUCachePolicy unfolding order_ok_def by auto
next
  case FIFOCachePolicy
  moreover have "put_at (Hit k # us) = put_at us" by (simp add: fun_eq_iff)
  ultimately show ?thesis using assms(1,3) by (simp add: update_on_hit_def order_ok_def)
next
  case (LFUCachePolicy l)
  then obtain l' where l': "p' = LFUCachePolicy l'" "LFU_update_on_hit k l c = Inr (l', c')"
    using assms(3) by (auto simp: update_on_hit_def bind_result_def split: sum.splits)
  have ok: "lfu_ok l (fst ` set c)" using assms(4) LFUCachePolicy by (simp add: policy_ok_def state_ok_def)
  obtain f where f: "map_of (lfu_key_to_freq l) k = Some f" using l'(2) by (auto simp: LFU_update_on_hit_def split: option.splits)
  then have "c' = c" "map_of (lfu_key_to_freq l') = (map_of (lfu_key_to_freq l))(k \<mapsto> f + 1)" using lfu_hit [OF ok f, of c] l'(2) by auto
  moreover have "k \<in> fst ` set c" using lfu_known [OF ok, of k] f by blast
  ultimately show ?thesis using assms(1) LFUCachePolicy l'(1) f by (auto simp: order_ok_def)
qed

text \<open>Removing an entry keeps the order of the others.\<close>

definition same_kind :: "'k \<Rightarrow> ('k, 'h) CachePolicy \<Rightarrow> ('k, 'h) CachePolicy \<Rightarrow> bool" where
  "same_kind k p p' \<longleftrightarrow>
     (case (p, p') of
        (LRUCachePolicy d, LRUCachePolicy d') \<Rightarrow> True
      | (LFUCachePolicy l, LFUCachePolicy l') \<Rightarrow> \<forall>j. j \<noteq> k \<longrightarrow> map_of (lfu_key_to_freq l') j = map_of (lfu_key_to_freq l) j
      | _ \<Rightarrow> p' = p)"

lemma put_at_gone: "put_at (Gone k # us) = put_at us" and used_at_gone: "used_at (Gone k # us) = used_at us"
  by (simp_all add: fun_eq_iff)

lemma order_gone: "order_ok p c us \<Longrightarrow> same_kind k p p' \<Longrightarrow> order_ok p' (AList.delete k c) (Gone k # us)"
  by (cases p; cases p') (auto simp: order_ok_def same_kind_def by_time_delete put_at_gone used_at_gone)

lemma force_evict_kind: "update_on_force_evict k p = Inr p' \<Longrightarrow> same_kind k p p'"
  using lfu_force_keeps [of k]
  by (cases p) (auto simp: update_on_force_evict_def same_kind_def bind_result_def split: sum.splits)

lemma candidates_kind: "get_evict_candidates E e 1 p c = Inr (p', [k]) \<Longrightarrow> same_kind k p p'"
  using lfu_evict_keeps [of "pe_items E" e 1 _ c _ "[k]"]
  by (cases p) (auto simp: get_evict_candidates_def LRU_get_evict_candidates_def same_kind_def bind_result_def split: sum.splits)

lemma created_ok: "get_cache_policy name = Inr p \<Longrightarrow> run_ok p [] []"
  by (auto simp: get_cache_policy_def run_ok_def state_ok_def by_time_def lru_ok_def lfu_ok_def LFUCachePolicy_init_def buckets_ok_def buckets_rel_def log_ok_def order_ok_def
      split: if_splits option.splits)

lemma policy_run_ok: "policy_run p c us \<Longrightarrow> run_ok p c us"
proof (induction rule: policy_run.induct)
  case (created name p)
  then show ?case by (rule created_ok)
next
  case (stored p c us k E v)
  have "state_ok (update_on_put E k p) (insert k (fst ` set c))"
    using stored pol.put_law [of E p "fst ` set c" k] by (simp add: run_ok_def policy_ok_def)
  then show ?case
    using stored order_stored [of p c us k E v] log_ok_stored [of "fst ` set c" us k] by (simp add: run_ok_def)
next
  case (used p c us E k p' c')
  have p: "policy_ok E p (fst ` set c)" "dict_ok c" using used by (simp_all add: run_ok_def policy_ok_def)
  have new: "policy_ok E p' (fst ` set c)" "dict_ok c'" "map_of c' = map_of c" using pol.hit_law [OF p used(4)] used(3) by auto
  have keys: "fst ` set c' = fst ` set c" by (metis new(3) dom_map_of_conv_image_fst)
  have "order_ok p' c' (Hit k # us)" using used p order_used [OF _ _ used(3) p(1)] by (simp add: run_ok_def)
  then show ?case using used new keys log_ok_used [of "fst ` set c" us k] by (simp add: run_ok_def policy_ok_def)
next
  case (removed p c us k p')
  obtain E :: "('a, 'b) policy_env" where E: "items_documented (pe_items E)"
    using sorted_items_documented by (metis policy_env.select_convs(3))
  have "state_ok p' (fst ` set c - {k})"
    using removed E pol.force_law [of E p "fst ` set c" k] by (auto simp: run_ok_def policy_ok_def)
  then show ?case
    using removed order_gone [OF _ force_evict_kind [OF removed(2)], of c us] log_ok_gone [of "fst ` set c" us k] by (simp add: run_ok_def)
next
  case (evicted p c us E e p' k)
  have p: "policy_ok E p (fst ` set c)" "dict_ok c" using evicted by (simp_all add: run_ok_def policy_ok_def)
  have "policy_ok E p' (fst ` set c - {k})" using pol.candidates_law [OF p, of 1 e] evicted(3) by auto
  then show ?case
    using evicted order_gone [OF _ candidates_kind [OF evicted(3)], of c us] log_ok_gone [of "fst ` set c" us k] by (simp add: run_ok_def policy_ok_def)
qed

lemma first_by_time:
  assumes "by_time t c" and "dict_ok c" and "map fst (filter (e \<circ> snd) c) = k # ks" and "j \<in> evictable e c"
  shows "t k \<le> t j"
proof -
  have "sorted_wrt (\<lambda>j k. t j < t k) (map fst (filter (e \<circ> snd) c))"
    using assms(1) unfolding by_time_def by (simp add: sorted_wrt_map sorted_wrt_filter)
  moreover have "j \<in> set (k # ks)"
    using assms(2,4) map_of_eq_Some_iff [OF assms(2)] unfolding assms(3) [symmetric] evictable_def by force
  ultimately show ?thesis unfolding assms(3) by auto
qed

lemma last_by_time:
  assumes "by_time t c" and "dict_ok c" and "map fst (filter (e \<circ> snd) (rev c)) = k # ks" and "j \<in> evictable e c"
  shows "t j \<le> t k"
proof -
  have "sorted_wrt (\<lambda>j k. t j < t k) (map fst (filter (e \<circ> snd) c))"
    using assms(1) unfolding by_time_def by (simp add: sorted_wrt_map sorted_wrt_filter)
  then have "sorted_wrt (\<lambda>j k. t k < t j) (map fst (filter (e \<circ> snd) (rev c)))"
    by (simp add: rev_filter [symmetric] rev_map [symmetric] sorted_wrt_rev)
  moreover have "j \<in> set (k # ks)"
    using assms(2,4) map_of_eq_Some_iff [OF assms(2)] unfolding assms(3) [symmetric] evictable_def by force
  ultimately show ?thesis unfolding assms(3) by auto
qed

lemma least_frequent:
  assumes "lfu_ok l (fst ` set c)" and "items_documented items" and "LFU_get_evict_candidates items e 1 l c = Inr (l', [k])" and "j \<in> evictable e c"
  shows "\<exists>f g. map_of (lfu_key_to_freq l) k = Some f \<and> map_of (lfu_key_to_freq l) j = Some g \<and> f \<le> g"
proof -
  let ?bk = "bucket_keys (items (lfu_freq_to_keys l))"
  let ?Y = "filter (\<lambda>(f, k). e (the (map_of c k))) ?bk"
  note ord = lfu_scan_order [OF assms(1,2)]
  have "map snd (take 1 ?Y) = [k]" using lfu_candidates [OF assms(1,2), of 1 e] assms(3) by auto
  then obtain f Y where Y: "?Y = (f, k) # Y" by (cases ?Y) auto
  obtain v where v: "map_of c j = Some v" "e v" using assms(4) by (auto simp: evictable_def)
  have "j \<in> fst ` set c" using v(1) by (rule map_of_Some_key)
  then obtain g where g: "map_of (lfu_key_to_freq l) j = Some g" using lfu_known [OF assms(1)] by blast
  then have "(g, j) \<in> set ?Y" using ord(3) v by simp
  moreover have "sorted (map fst ?Y)" using ord(2) by (simp add: sorted_filter)
  ultimately have "f \<le> g" unfolding Y by auto
  moreover have "(f, k) \<in> set ?bk" using Y by (metis list.set_intros(1) filter_is_subset subsetD)
  ultimately show ?thesis using ord(3) g by blast
qed

text \<open>
  Property C14. After any history of use, the entry that a policy gives up is one that can be evicted, and among those
  it is the least recently used one (LRU), the most recently used one (MRU), the one put first
  (FIFO) or one used least often since it was put (LFU).
\<close>

theorem policy_victim:
  assumes "policy_run p c us" and "items_documented (pe_items E)" and "get_evict_candidates E e 1 p c = Inr (p', [k])"
  shows "k \<in> evictable e c \<and>
    (\<forall>j \<in> evictable e c.
       (case p of
          LRUCachePolicy d \<Rightarrow> used_at us k \<le> used_at us j
        | MRUCachePolicy \<Rightarrow> used_at us j \<le> used_at us k
        | FIFOCachePolicy \<Rightarrow> put_at us k \<le> put_at us j
        | LFUCachePolicy l \<Rightarrow> uses us k \<le> uses us j))"
proof -
  have ok: "dict_ok c" "state_ok p (fst ` set c)" "order_ok p c us" using policy_run_ok [OF assms(1)] by (simp_all add: run_ok_def)
  have k: "k \<in> evictable e c" using pol.candidates_law [of E p c 1 e] ok(1,2) assms(2,3) by (auto simp: policy_ok_def)
  have scan: "map fst (filter (e \<circ> snd) xs) = k # tl (map fst (filter (e \<circ> snd) xs))" if "scan_candidates e 1 xs [] = [k]" for xs
    using that scan_candidates_take [of "[]" 1 e xs] by (cases "map fst (filter (e \<circ> snd) xs)") auto
  have "case p of LRUCachePolicy d \<Rightarrow> used_at us k \<le> used_at us j | MRUCachePolicy \<Rightarrow> used_at us j \<le> used_at us k
      | FIFOCachePolicy \<Rightarrow> put_at us k \<le> put_at us j | LFUCachePolicy l \<Rightarrow> uses us k \<le> uses us j" if j: "j \<in> evictable e c" for j
  proof (cases p)
    case (LRUCachePolicy d)
    have sc: "scan_candidates e 1 c [] = [k]" "by_time (used_at us) c"
      using assms(3) ok(3) unfolding LRUCachePolicy by (auto simp: order_ok_def get_evict_candidates_def LRU_get_evict_candidates_def bind_result_def)
    show ?thesis using first_by_time [OF sc(2) ok(1) scan [OF sc(1)] j] LRUCachePolicy by simp
  next
    case MRUCachePolicy
    have sc: "scan_candidates e 1 (rev c) [] = [k]" "by_time (used_at us) c"
      using assms(3) ok(3) unfolding MRUCachePolicy by (auto simp: order_ok_def get_evict_candidates_def)
    show ?thesis using last_by_time [OF sc(2) ok(1) scan [OF sc(1)] j] MRUCachePolicy by simp
  next
    case FIFOCachePolicy
    have sc: "scan_candidates e 1 c [] = [k]" "by_time (put_at us) c"
      using assms(3) ok(3) unfolding FIFOCachePolicy by (auto simp: order_ok_def get_evict_candidates_def)
    show ?thesis using first_by_time [OF sc(2) ok(1) scan [OF sc(1)] j] FIFOCachePolicy by simp
  next
    case (LFUCachePolicy l)
    then obtain l' where "LFU_get_evict_candidates (pe_items E) e 1 l c = Inr (l', [k])"
      using assms(3) by (auto simp: get_evict_candidates_def bind_result_def split: sum.splits)
    then obtain f g where "map_of (lfu_key_to_freq l) k = Some f" "map_of (lfu_key_to_freq l) j = Some g" "f \<le> g"
      using least_frequent [of l c "pe_items E" e l' k j] ok(2) LFUCachePolicy assms(2) j by (auto simp: state_ok_def)
    moreover have "k \<in> fst ` set c" "j \<in> fst ` set c" using k j map_of_Some_key unfolding evictable_def by fastforce+
    moreover have "\<forall>i \<in> fst ` set c. map_of (lfu_key_to_freq l) i = Some (uses us i)" using ok(3) unfolding LFUCachePolicy order_ok_def by simp
    ultimately have "uses us k \<le> uses us j" by (metis option.inject)
    then show ?thesis using LFUCachePolicy by simp
  qed
  then show ?thesis using k by blast
qed

definition sample_env :: "(nat, nat) policy_env" where
  "sample_env = \<lparr>pe_now = 5, pe_hash = id, pe_items = sort_key fst\<rparr>"

text \<open>Two entries under LFU, of which the first was used again.\<close>

definition sample_lfu :: "nat LFUCachePolicy" where
  "sample_lfu = \<lparr>lfu_freq_to_keys = [(1, [2]), (2, [1])], lfu_key_to_freq = [(1, 2), (2, 1)]\<rparr>"

lemma sample_lfu_run: "policy_run (LFUCachePolicy sample_lfu :: (nat, nat) CachePolicy) [(1, True), (2, True)] [Hit 1, Put 2, Put 1]"
proof -
  have E: "items_documented (pe_items sample_env)" by (simp add: sample_env_def sorted_items_documented)
  have "get_cache_policy ''lfu'' = (Inr (LFUCachePolicy LFUCachePolicy_init) :: (nat, nat) CachePolicy result)" by code_simp
  note c = created [OF this]
  note s1 = stored [OF c _ E, of 1 True]
  note s2 = stored [OF s1 _ E, of 2 True]
  have "update_on_hit sample_env 1 (update_on_put sample_env 2 (update_on_put sample_env 1 (LFUCachePolicy LFUCachePolicy_init))) (([] @ [(1, True)]) @ [(2, True)]) =
      Inr (LFUCachePolicy sample_lfu, [(1, True), (2, True)])"
    by code_simp
  from used [OF s2 E this] show ?thesis by simp
qed

theorem policy_victim_witness:
  "policy_run (LFUCachePolicy sample_lfu :: (nat, nat) CachePolicy) [(1, True), (2, True)] [Hit 1, Put 2, Put 1] \<and>
   (2 :: nat) \<in> evictable id [(1, True), (2, True)] \<and> uses [Hit 1, Put 2, Put 1] 2 \<le> uses [Hit (1 :: nat), Put 2, Put 1] 1"
proof -
  have "get_evict_candidates sample_env id 1 (LFUCachePolicy sample_lfu) [(1, True), (2, True)] = Inr (LFUCachePolicy \<lparr>lfu_freq_to_keys = [(2, [1])], lfu_key_to_freq = [(1, 2)]\<rparr>, [2])"
    by code_simp
  moreover have "items_documented (pe_items sample_env)" by (simp add: sample_env_def sorted_items_documented)
  moreover have "(1 :: nat) \<in> evictable id [(1, True), (2, True)]" by (auto simp: evictable_def)
  ultimately show ?thesis using policy_victim [OF sample_lfu_run] sample_lfu_run by fastforce
qed

end
