(* ===== verification/Local_CPU.thy ===== *)
theory Local_CPU
  imports Cache_Policy Tensor_Allocator
begin

text \<open>
  The CPU cache of the storage layer, \<^verbatim>\<open>lmcache/v1/storage_backend/local_cpu_backend.py\<close>: a cache of memory objects
  under one of the policies, over an allocator. Every operation holds \<^verbatim>\<open>cpu_lock\<close> while it touches the
  cache, so it is one step on the state.

  The allocator is the object given to the constructor, a record of the methods of
  \<^verbatim>\<open>MemoryAllocatorInterface\<close>. \<^verbatim>\<open>MixedMemoryAllocator\<close>, the default, hands the formats of key-value tensors to its
  \<^verbatim>\<open>TensorMemoryAllocator\<close>, which is the instance here. Keys are the keys up to \<^verbatim>\<open>__eq__\<close>; \<open>E\<close> is the
  environment of the policy. Messages to the controller are recorded in the order of \<^verbatim>\<open>add_kv_op\<close>.
  A busy loop sleeps between its rounds; \<open>wait n\<close> is what the other threads do during sleep \<open>n\<close>.
  Statistics and log lines are left out.

  Shown: in every history, cached objects and objects that clients hold are live memory and the policy
  knows exactly the cached keys; an allocation without a busy loop returns, evicting only entries
  that nobody uses; and two ways in which the backend breaks its own rules.
\<close>

section \<open>The backend\<close>

record 'a MemoryAllocator =
  al_allocate :: "'a mem_world \<Rightarrow> torch_size one_or_list \<Rightarrow> torch_dtype one_or_list \<Rightarrow> MemoryFormat \<Rightarrow> ('a mem_world \<times> mem_id option) result"
  al_batched_allocate :: "'a mem_world \<Rightarrow> torch_size one_or_list \<Rightarrow> torch_dtype one_or_list \<Rightarrow> int \<Rightarrow> MemoryFormat \<Rightarrow> ('a mem_world \<times> mem_id list option) result"
  al_free :: "'a free_method"
  al_batched_free :: "'a mem_world \<Rightarrow> mem_id list \<Rightarrow> 'a mem_world"

definition tensor_allocator :: "SortedList_ops \<Rightarrow> Torch \<Rightarrow> TensorMemoryAllocator MemoryAllocator" where
  "tensor_allocator S T =
     \<lparr>al_allocate = TensorMemoryAllocator_allocate S T, al_batched_allocate = TensorMemoryAllocator_batched_allocate S T,
      al_free = TensorMemoryAllocator_free S, al_batched_free = TensorMemoryAllocator_batched_free S\<rparr>"

datatype OpType = ADMIT | EVICT

record ('k, 'h, 'a) LocalCPUBackend =
  lcb_policy :: "('k, 'h) CachePolicy"
  lcb_hot_cache :: "('k, mem_id) pydict"
  lcb_use_hot :: bool
  lcb_mem :: "'a mem_world"
  lcb_layerwise :: bool
  lcb_enable_blending :: bool
  lcb_keys_in_request :: "'k list"
  lcb_sender :: "(OpType \<times> 'h) list option"

definition LocalCPUBackend_init :: "string \<Rightarrow> bool \<Rightarrow> bool \<Rightarrow> bool \<Rightarrow> bool \<Rightarrow> 'a mem_world \<Rightarrow> ('k, 'h, 'a) LocalCPUBackend result" where
  "LocalCPUBackend_init policy_name local_cpu use_layerwise enable_blending has_worker w =
     bind_result (get_cache_policy policy_name) (\<lambda>p.
       Inr \<lparr>lcb_policy = p, lcb_hot_cache = [], lcb_use_hot = local_cpu, lcb_mem = w, lcb_layerwise = use_layerwise,
            lcb_enable_blending = enable_blending, lcb_keys_in_request = [], lcb_sender = (if has_worker then Some [] else None)\<rparr>)"

definition add_kv_op :: "OpType \<Rightarrow> 'h \<Rightarrow> ('k, 'h, 'a) LocalCPUBackend \<Rightarrow> ('k, 'h, 'a) LocalCPUBackend" where
  "add_kv_op op h b = b\<lparr>lcb_sender := map_option (\<lambda>ms. ms @ [(op, h)]) (lcb_sender b)\<rparr>"

section \<open>Lookups\<close>

definition lcb_contains :: "int \<Rightarrow> 'k \<Rightarrow> bool \<Rightarrow> ('k, 'h, 'a) LocalCPUBackend \<Rightarrow> ('k, 'h, 'a) LocalCPUBackend \<times> bool" where
  "lcb_contains now key pin b =
     (case map_of (lcb_hot_cache b) key of
        None \<Rightarrow> (b, False)
      | Some i \<Rightarrow>
          if pin then (b\<lparr>lcb_mem := fst (TensorMemoryObj_pin now (lcb_mem b) i), lcb_keys_in_request := lcb_keys_in_request b @ [key]\<rparr>, True)
          else (b, True))"

text \<open>The loop of \<^verbatim>\<open>touch_cache\<close>: an exception leaves what was done so far.\<close>

fun touch_loop ::
  "('k, 'h) policy_env \<Rightarrow> 'k list \<Rightarrow> ('k, 'h) CachePolicy \<Rightarrow> ('k, mem_id) pydict \<Rightarrow> ('k, 'h) CachePolicy \<times> ('k, mem_id) pydict \<times> unit result"
where
  "touch_loop E [] p c = (p, c, Inr ())"
| "touch_loop E (key # keys) p c =
     (case update_on_hit E key p c of Inl e \<Rightarrow> (p, c, Inl e) | Inr (p', c') \<Rightarrow> touch_loop E keys p' c')"

definition touch_cache :: "('k, 'h) policy_env \<Rightarrow> ('k, 'h, 'a) LocalCPUBackend \<Rightarrow> ('k, 'h, 'a) LocalCPUBackend \<times> unit result" where
  "touch_cache E b =
     (case touch_loop E (rev (lcb_keys_in_request b)) (lcb_policy b) (lcb_hot_cache b) of
        (p, c, Inl e) \<Rightarrow> (b\<lparr>lcb_policy := p, lcb_hot_cache := c\<rparr>, Inl e)
      | (p, c, Inr _) \<Rightarrow> (b\<lparr>lcb_policy := p, lcb_hot_cache := c, lcb_keys_in_request := []\<rparr>, Inr ()))"

fun lcb_async_contains_loop ::
  "int \<Rightarrow> bool \<Rightarrow> 'k list \<Rightarrow> nat \<Rightarrow> ('k, 'h, 'a) LocalCPUBackend \<Rightarrow> ('k, 'h, 'a) LocalCPUBackend \<times> nat"
where
  "lcb_async_contains_loop now pin [] n b = (b, n)"
| "lcb_async_contains_loop now pin (key # keys) n b =
     (case lcb_contains now key pin b of (b', found) \<Rightarrow> if found then lcb_async_contains_loop now pin keys (n + 1) b' else (b', n))"

definition lcb_batched_async_contains :: "int \<Rightarrow> 'k list \<Rightarrow> bool \<Rightarrow> ('k, 'h, 'a) LocalCPUBackend \<Rightarrow> ('k, 'h, 'a) LocalCPUBackend \<times> nat" where
  "lcb_batched_async_contains now keys pin b = lcb_async_contains_loop now pin keys 0 b"

definition lcb_get_blocking :: "'k \<Rightarrow> ('k, 'h, 'a) LocalCPUBackend \<Rightarrow> ('k, 'h, 'a) LocalCPUBackend \<times> mem_id option" where
  "lcb_get_blocking key b =
     (case map_of (lcb_hot_cache b) key of
        None \<Rightarrow> (b, None)
      | Some i \<Rightarrow> (b\<lparr>lcb_mem := ref_count_up (lcb_mem b) i\<rparr>, Some i))"

fun lcb_batched_get_non_blocking :: "'k list \<Rightarrow> ('k, 'h, 'a) LocalCPUBackend \<Rightarrow> ('k, 'h, 'a) LocalCPUBackend \<times> mem_id list result" where
  "lcb_batched_get_non_blocking [] b = (b, Inr [])"
| "lcb_batched_get_non_blocking (key # keys) b =
     (case map_of (lcb_hot_cache b) key of
        None \<Rightarrow> (b, Inl KeyError)
      | Some i \<Rightarrow>
          (case lcb_batched_get_non_blocking keys (b\<lparr>lcb_mem := ref_count_up (lcb_mem b) i\<rparr>) of
             (b', r) \<Rightarrow> (b', bind_result r (\<lambda>is. Inr (i # is)))))"

definition lcb_pin :: "int \<Rightarrow> 'k \<Rightarrow> ('k, 'h, 'a) LocalCPUBackend \<Rightarrow> ('k, 'h, 'a) LocalCPUBackend \<times> bool" where
  "lcb_pin now key b =
     (case map_of (lcb_hot_cache b) key of
        None \<Rightarrow> (b, False)
      | Some i \<Rightarrow> (b\<lparr>lcb_mem := fst (TensorMemoryObj_pin now (lcb_mem b) i)\<rparr>, True))"

definition lcb_unpin :: "'a MemoryAllocator \<Rightarrow> 'k \<Rightarrow> ('k, 'h, 'a) LocalCPUBackend \<Rightarrow> ('k, 'h, 'a) LocalCPUBackend \<times> bool" where
  "lcb_unpin A key b =
     (case map_of (lcb_hot_cache b) key of
        None \<Rightarrow> (b, False)
      | Some i \<Rightarrow> (b\<lparr>lcb_mem := fst (TensorMemoryObj_unpin (al_free A) (lcb_mem b) i)\<rparr>, True))"

section \<open>Insertion and removal\<close>

text \<open>The flag says whether the object was stored, and so whether the completion callback runs.\<close>

definition submit_put_task ::
  "('k, 'h) policy_env \<Rightarrow> 'k \<Rightarrow> mem_id \<Rightarrow> ('k, 'h, 'a) LocalCPUBackend \<Rightarrow> ('k, 'h, 'a) LocalCPUBackend \<times> bool"
where
  "submit_put_task E key memory_obj b =
     (case map_of (lcb_hot_cache b) key of
        Some _ \<Rightarrow> (b, False)
      | None \<Rightarrow>
          (add_kv_op ADMIT (pe_hash E key)
             (b\<lparr>lcb_mem := ref_count_up (lcb_mem b) memory_obj, lcb_hot_cache := AList.update key memory_obj (lcb_hot_cache b),
                lcb_policy := update_on_put E key (lcb_policy b)\<rparr>), True))"

definition batched_submit_put_task ::
  "('k, 'h) policy_env \<Rightarrow> 'k list \<Rightarrow> mem_id list \<Rightarrow> ('k, 'h, 'a) LocalCPUBackend \<Rightarrow> ('k, 'h, 'a) LocalCPUBackend"
where
  "batched_submit_put_task E keys memory_objs b =
     (if \<not> lcb_use_hot b then b else fold (\<lambda>(key, i) b. fst (submit_put_task E key i b)) (zip keys memory_objs) b)"

definition lcb_remove ::
  "('k, 'h) policy_env \<Rightarrow> 'a MemoryAllocator \<Rightarrow> bool \<Rightarrow> 'k \<Rightarrow> ('k, 'h, 'a) LocalCPUBackend \<Rightarrow> ('k, 'h, 'a) LocalCPUBackend \<times> bool result"
where
  "lcb_remove E A force key b =
     (case map_of (lcb_hot_cache b) key of
        None \<Rightarrow> (b, Inr False)
      | Some i \<Rightarrow>
          (let b1 = b\<lparr>lcb_hot_cache := AList.delete key (lcb_hot_cache b), lcb_mem := ref_count_down (al_free A) (lcb_mem b) i\<rparr>
           in if force
              then (case update_on_force_evict key (lcb_policy b1) of
                      Inl e \<Rightarrow> (b1, Inl e)
                    | Inr p \<Rightarrow> (add_kv_op EVICT (pe_hash E key) (b1\<lparr>lcb_policy := p\<rparr>), Inr True))
              else (add_kv_op EVICT (pe_hash E key) b1, Inr True)))"

fun lcb_batched_remove ::
  "('k, 'h) policy_env \<Rightarrow> 'a MemoryAllocator \<Rightarrow> bool \<Rightarrow> 'k list \<Rightarrow> ('k, 'h, 'a) LocalCPUBackend \<Rightarrow> ('k, 'h, 'a) LocalCPUBackend \<times> nat result"
where
  "lcb_batched_remove E A force [] b = (b, Inr 0)"
| "lcb_batched_remove E A force (key # keys) b =
     (case lcb_remove E A force key b of
        (b', Inl e) \<Rightarrow> (b', Inl e)
      | (b', Inr removed) \<Rightarrow>
          (case lcb_batched_remove E A force keys b' of (b'', r) \<Rightarrow> (b'', bind_result r (\<lambda>n. Inr (of_bool removed + n)))))"

definition lcb_get_keys :: "('k, 'h, 'a) LocalCPUBackend \<Rightarrow> 'k list" where
  "lcb_get_keys b = dict_keys (lcb_hot_cache b)"

definition lcb_can_evict :: "('k, 'h, 'a) LocalCPUBackend \<Rightarrow> mem_id \<Rightarrow> bool" where
  "lcb_can_evict b i = can_evict (mw_heap (lcb_mem b) ! i)"

definition lcb_clear :: "('k, 'h) policy_env \<Rightarrow> 'a MemoryAllocator \<Rightarrow> ('k, 'h, 'a) LocalCPUBackend \<Rightarrow> ('k, 'h, 'a) LocalCPUBackend \<times> int result" where
  "lcb_clear E A b =
     (if \<not> lcb_use_hot b then (b, Inr 0)
      else let entries = filter (\<lambda>(key, i). lcb_can_evict b i) (lcb_hot_cache b)
           in case fold_result (\<lambda>(key, i) n. bind_result (TensorMemoryObj_get_num_tokens (mw_heap (lcb_mem b) ! i)) (\<lambda>t. Inr (n + t))) entries 0 of
                Inl e \<Rightarrow> (b, Inl e)
              | Inr num_cleared_tokens \<Rightarrow>
                  (case lcb_batched_remove E A True (map fst entries) b of (b', r) \<Rightarrow> (b', bind_result r (\<lambda>_. Inr num_cleared_tokens))))"

section \<open>Allocation\<close>

definition lcb_format :: "('k, 'h, 'a) LocalCPUBackend \<Rightarrow> MemoryFormat option \<Rightarrow> MemoryFormat" where
  "lcb_format b fmt =
     (case fmt of
        Some f \<Rightarrow> f
      | None \<Rightarrow> if lcb_layerwise b then (if lcb_enable_blending b then KV_2TD else KV_T2D) else KV_2LTD)"

text \<open>The locked part of a round of \<^verbatim>\<open>allocate\<close>; the flag says whether something was evicted.\<close>

definition evict_one :: "('k, 'h) policy_env \<Rightarrow> 'a MemoryAllocator \<Rightarrow> ('k, 'h, 'a) LocalCPUBackend \<Rightarrow> ('k, 'h, 'a) LocalCPUBackend \<times> bool result" where
  "evict_one E A b =
     (if \<not> lcb_use_hot b then (b, Inr False)
      else (case get_evict_candidates E (lcb_can_evict b) 1 (lcb_policy b) (lcb_hot_cache b) of
              Inl e \<Rightarrow> (b, Inl e)
            | Inr (p, evict_keys) \<Rightarrow>
                if evict_keys = [] then (b\<lparr>lcb_policy := p\<rparr>, Inr False)
                else (case lcb_batched_remove E A False evict_keys (b\<lparr>lcb_policy := p\<rparr>) of (b', r) \<Rightarrow> (b', bind_result r (\<lambda>_. Inr True)))))"

definition try_allocate ::
  "'a MemoryAllocator \<Rightarrow> torch_size one_or_list \<Rightarrow> torch_dtype one_or_list \<Rightarrow> MemoryFormat \<Rightarrow> ('k, 'h, 'a) LocalCPUBackend \<Rightarrow>
   ('k, 'h, 'a) LocalCPUBackend \<times> mem_id option result"
where
  "try_allocate A shapes dtypes fmt b =
     (case al_allocate A (lcb_mem b) shapes dtypes fmt of Inl e \<Rightarrow> (b, Inl e) | Inr (w, r) \<Rightarrow> (b\<lparr>lcb_mem := w\<rparr>, Inr r))"

partial_function (option) allocate_loop ::
  "('k, 'h) policy_env \<Rightarrow> 'a MemoryAllocator \<Rightarrow> (nat \<Rightarrow> ('k, 'h, 'a) LocalCPUBackend \<Rightarrow> ('k, 'h, 'a) LocalCPUBackend) \<Rightarrow>
   torch_size one_or_list \<Rightarrow> torch_dtype one_or_list \<Rightarrow> MemoryFormat \<Rightarrow> bool \<Rightarrow> nat \<Rightarrow> ('k, 'h, 'a) LocalCPUBackend \<Rightarrow>
   (('k, 'h, 'a) LocalCPUBackend \<times> mem_id option result) option"
where
  "allocate_loop E A wait shapes dtypes fmt busy_loop n b =
     (case evict_one E A b of
        (b1, Inl e) \<Rightarrow> Some (b1, Inl e)
      | (b1, Inr evicted) \<Rightarrow>
          if \<not> evicted \<and> \<not> busy_loop then Some (b1, Inr None)
          else (case try_allocate A shapes dtypes fmt (if evicted then b1 else wait n b1) of
                  (b2, Inl e) \<Rightarrow> Some (b2, Inl e)
                | (b2, Inr (Some i)) \<Rightarrow> Some (b2, Inr (Some i))
                | (b2, Inr None) \<Rightarrow> allocate_loop E A wait shapes dtypes fmt busy_loop (n + 1) b2))"

definition lcb_allocate ::
  "('k, 'h) policy_env \<Rightarrow> 'a MemoryAllocator \<Rightarrow> (nat \<Rightarrow> ('k, 'h, 'a) LocalCPUBackend \<Rightarrow> ('k, 'h, 'a) LocalCPUBackend) \<Rightarrow>
   torch_size one_or_list \<Rightarrow> torch_dtype one_or_list \<Rightarrow> MemoryFormat option \<Rightarrow> bool \<Rightarrow> bool \<Rightarrow> ('k, 'h, 'a) LocalCPUBackend \<Rightarrow>
   (('k, 'h, 'a) LocalCPUBackend \<times> mem_id option result) option"
where
  "lcb_allocate E A wait shapes dtypes fmt eviction busy_loop b =
     (let f = lcb_format b fmt
      in case try_allocate A shapes dtypes f b of
           (b1, Inl e) \<Rightarrow> Some (b1, Inl e)
         | (b1, Inr r) \<Rightarrow> if r \<noteq> None \<or> \<not> eviction then Some (b1, Inr r) else allocate_loop E A wait shapes dtypes f busy_loop 0 b1)"

text \<open>
  The eviction of \<^verbatim>\<open>batched_allocate\<close>, which takes all layers of the chosen key; \<open>split_layers\<close> gives the keys of the layers.
  The code asserts here that the allocator is the mixed one, so \<open>A\<close> stands for its part for key-value tensors.
\<close>

fun pop_layers :: "'k list \<Rightarrow> ('k, 'h, 'a) LocalCPUBackend \<Rightarrow> ('k, 'h, 'a) LocalCPUBackend \<times> mem_id list result" where
  "pop_layers [] b = (b, Inr [])"
| "pop_layers (key # keys) b =
     (case map_of (lcb_hot_cache b) key of
        None \<Rightarrow> (b, Inl KeyError)
      | Some i \<Rightarrow>
          (case update_on_force_evict key (lcb_policy b) of
             Inl e \<Rightarrow> (b, Inl e)
           | Inr p \<Rightarrow>
               (case pop_layers keys (b\<lparr>lcb_policy := p, lcb_hot_cache := AList.delete key (lcb_hot_cache b)\<rparr>) of
                  (b', r) \<Rightarrow> (b', bind_result r (\<lambda>is. Inr (i # is))))))"

definition evict_layers ::
  "('k, 'h) policy_env \<Rightarrow> 'a MemoryAllocator \<Rightarrow> ('k \<Rightarrow> nat \<Rightarrow> 'k list) \<Rightarrow> nat \<Rightarrow> ('k, 'h, 'a) LocalCPUBackend \<Rightarrow> ('k, 'h, 'a) LocalCPUBackend \<times> bool result"
where
  "evict_layers E A split_layers batch_size b =
     (if \<not> lcb_use_hot b then (b, Inr False)
      else (case get_evict_candidates E (lcb_can_evict b) 1 (lcb_policy b) (lcb_hot_cache b) of
              Inl e \<Rightarrow> (b, Inl e)
            | Inr (p, []) \<Rightarrow> (b\<lparr>lcb_policy := p\<rparr>, Inr False)
            | Inr (p, evict_key # _) \<Rightarrow>
                (case pop_layers (split_layers evict_key batch_size) (b\<lparr>lcb_policy := p\<rparr>) of
                   (b1, Inl e) \<Rightarrow> (b1, Inl e)
                 | (b1, Inr old_mem_objs) \<Rightarrow> (b1\<lparr>lcb_mem := al_batched_free A (lcb_mem b1) old_mem_objs\<rparr>, Inr True))))"

definition try_batched_allocate ::
  "'a MemoryAllocator \<Rightarrow> torch_size one_or_list \<Rightarrow> torch_dtype one_or_list \<Rightarrow> nat \<Rightarrow> MemoryFormat \<Rightarrow> ('k, 'h, 'a) LocalCPUBackend \<Rightarrow>
   ('k, 'h, 'a) LocalCPUBackend \<times> mem_id list option result"
where
  "try_batched_allocate A shapes dtypes batch_size fmt b =
     (case al_batched_allocate A (lcb_mem b) shapes dtypes (int batch_size) fmt of Inl e \<Rightarrow> (b, Inl e) | Inr (w, r) \<Rightarrow> (b\<lparr>lcb_mem := w\<rparr>, Inr r))"

text \<open>Inside the loop an empty list of objects counts as a failure.\<close>

partial_function (option) batched_allocate_loop ::
  "('k, 'h) policy_env \<Rightarrow> 'a MemoryAllocator \<Rightarrow> ('k \<Rightarrow> nat \<Rightarrow> 'k list) \<Rightarrow> (nat \<Rightarrow> ('k, 'h, 'a) LocalCPUBackend \<Rightarrow> ('k, 'h, 'a) LocalCPUBackend) \<Rightarrow>
   torch_size one_or_list \<Rightarrow> torch_dtype one_or_list \<Rightarrow> nat \<Rightarrow> MemoryFormat \<Rightarrow> bool \<Rightarrow> nat \<Rightarrow> ('k, 'h, 'a) LocalCPUBackend \<Rightarrow>
   (('k, 'h, 'a) LocalCPUBackend \<times> mem_id list option result) option"
where
  "batched_allocate_loop E A split_layers wait shapes dtypes batch_size fmt busy_loop n b =
     (case evict_layers E A split_layers batch_size b of
        (b1, Inl e) \<Rightarrow> Some (b1, Inl e)
      | (b1, Inr evicted) \<Rightarrow>
          if \<not> evicted \<and> \<not> busy_loop then Some (b1, Inr None)
          else (case try_batched_allocate A shapes dtypes batch_size fmt (if evicted then b1 else wait n b1) of
                  (b2, Inl e) \<Rightarrow> Some (b2, Inl e)
                | (b2, Inr (Some (i # is))) \<Rightarrow> Some (b2, Inr (Some (i # is)))
                | (b2, Inr _) \<Rightarrow> batched_allocate_loop E A split_layers wait shapes dtypes batch_size fmt busy_loop (n + 1) b2))"

definition lcb_batched_allocate ::
  "('k, 'h) policy_env \<Rightarrow> 'a MemoryAllocator \<Rightarrow> ('k \<Rightarrow> nat \<Rightarrow> 'k list) \<Rightarrow> (nat \<Rightarrow> ('k, 'h, 'a) LocalCPUBackend \<Rightarrow> ('k, 'h, 'a) LocalCPUBackend) \<Rightarrow>
   torch_size one_or_list \<Rightarrow> torch_dtype one_or_list \<Rightarrow> nat \<Rightarrow> MemoryFormat option \<Rightarrow> bool \<Rightarrow> bool \<Rightarrow> ('k, 'h, 'a) LocalCPUBackend \<Rightarrow>
   (('k, 'h, 'a) LocalCPUBackend \<times> mem_id list option result) option"
where
  "lcb_batched_allocate E A split_layers wait shapes dtypes batch_size fmt eviction busy_loop b =
     (let f = lcb_format b fmt
      in case try_batched_allocate A shapes dtypes batch_size f b of
           (b1, Inl e) \<Rightarrow> Some (b1, Inl e)
         | (b1, Inr r) \<Rightarrow>
             if r \<noteq> None \<or> \<not> eviction then Some (b1, Inr r)
             else batched_allocate_loop E A split_layers wait shapes dtypes batch_size f busy_loop 0 b1)"

section \<open>The chunk budget\<close>

definition get_full_chunk_size :: "bool \<Rightarrow> int \<Rightarrow> int list \<Rightarrow> int \<Rightarrow> int result" where
  "get_full_chunk_size layerwise chunk_tokens kv_shape dtype_size =
     bind_result (py_nth kv_shape 0) (\<lambda>num_layers.
     bind_result (py_nth kv_shape 1) (\<lambda>kv_size.
     bind_result (py_nth kv_shape 3) (\<lambda>num_heads.
     bind_result (py_nth kv_shape 4) (\<lambda>head_size.
       let hidden_dim = num_heads * head_size
       in Inr (if layerwise then chunk_tokens * kv_size * hidden_dim * dtype_size
               else kv_size * num_layers * chunk_tokens * hidden_dim * dtype_size)))))"

definition calculate_chunk_budget :: "int \<Rightarrow> int \<Rightarrow> int \<Rightarrow> int result" where
  "calculate_chunk_budget total_memory chunk_bytes alignment =
     (if alignment = 0 then Inl ZeroDivisionError
      else let aligned_chunk_bytes = (chunk_bytes + alignment - 1) div alignment * alignment
           in if aligned_chunk_bytes = 0 then Inl ZeroDivisionError else Inr (total_memory div aligned_chunk_bytes))"

section \<open>References\<close>

text \<open>
  The counts of the objects agree with the references \<open>u\<close> that the backend and its clients hold, and
  an object with references is live.
\<close>

definition refs_ok :: "'a mem_world \<Rightarrow> (mem_id \<Rightarrow> nat) \<Rightarrow> bool" where
  "refs_ok w u \<longleftrightarrow>
     (\<forall>i < length (mw_heap w). ref_count_of w i = int (u i) \<and> 0 \<le> pin_count_of w i \<and> tm_has_parent (mw_heap w ! i) \<and>
        (0 < u i \<longrightarrow> tm_valid (mw_heap w ! i))) \<and>
     (\<forall>i. 0 < u i \<longrightarrow> i < length (mw_heap w))"

lemma refs_ok_up:
  assumes "refs_ok w u" and "0 < u i"
  shows "refs_ok (ref_count_up w i) (u(i := u i + 1))"
proof -
  have i: "i < length (mw_heap w)" using assms by (simp add: refs_ok_def)
  have "mw_heap (ref_count_up w i) ! j = mw_heap w ! j" if "j \<noteq> i" for j using that by (simp add: ref_count_up_def)
  moreover have "tm_meta (mw_heap (ref_count_up w i) ! i) = (tm_meta (mw_heap w ! i))\<lparr>md_ref_count := ref_count_of w i + 1\<rparr>"
    using i by (simp add: ref_count_up_def)
  moreover have "tm_valid (mw_heap (ref_count_up w i) ! j) = tm_valid (mw_heap w ! j)" "tm_has_parent (mw_heap (ref_count_up w i) ! j) = tm_has_parent (mw_heap w ! j)"
      "length (mw_heap (ref_count_up w i)) = length (mw_heap w)" for j
    by (simp_all add: ref_count_up_def)
  ultimately show ?thesis using assms unfolding refs_ok_def by (auto simp: fun_upd_def)
qed

lemma refs_ok_pin: "refs_ok w u \<Longrightarrow> i < length (mw_heap w) \<Longrightarrow> refs_ok (fst (TensorMemoryObj_pin now w i)) u"
proof -
  assume a: "refs_ok w u" "i < length (mw_heap w)"
  let ?w = "fst (TensorMemoryObj_pin now w i)"
  have h: "mw_heap ?w = mw_heap (upd_meta (\<lambda>m. m\<lparr>md_pin_count := md_pin_count m + 1\<rparr>) w i)" by (simp add: TensorMemoryObj_pin_def on_pin_def)
  have "ref_count_of ?w j = ref_count_of w j" "0 \<le> pin_count_of w j \<Longrightarrow> 0 \<le> pin_count_of ?w j" if "j < length (mw_heap w)" for j
    unfolding h using a(2) by (cases "j = i"; simp)+
  then show ?thesis using a(1) unfolding refs_ok_def h by simp
qed

locale backend_memory = object_owner "al_free A" for A :: "'a MemoryAllocator" +
  fixes ok :: "'a mem_world \<Rightarrow> bool" and sized :: "torch_size one_or_list \<Rightarrow> torch_dtype one_or_list \<Rightarrow> bool"
  assumes ok_up: "ok w \<Longrightarrow> ok (ref_count_up w i)"
    and ok_down: "ok w \<Longrightarrow> i < length (mw_heap w) \<Longrightarrow> ok (ref_count_down (al_free A) w i)"
    and ok_pin: "ok w \<Longrightarrow> ok (fst (TensorMemoryObj_pin now w i))"
    and ok_unpin: "ok w \<Longrightarrow> i < length (mw_heap w) \<Longrightarrow> ok (fst (TensorMemoryObj_unpin (al_free A) w i))"
    and alloc_new: "\<lbrakk>ok w; sized shapes dtypes; al_allocate A w shapes dtypes fmt = Inr (w', Some i)\<rbrakk> \<Longrightarrow>
      ok w' \<and> i = length (mw_heap w) \<and>
      (\<exists>ob. mw_heap w' = mw_heap w @ [ob] \<and> tm_valid ob \<and> tm_has_parent ob \<and> md_ref_count (tm_meta ob) = 1 \<and> md_pin_count (tm_meta ob) = 0)"
    and alloc_full: "sized shapes dtypes \<Longrightarrow> al_allocate A w shapes dtypes fmt = Inr (w', None) \<Longrightarrow> w' = w"
    and alloc_returns: "sized shapes dtypes \<Longrightarrow> \<exists>w' r. al_allocate A w shapes dtypes fmt = Inr (w', r)"
begin

lemma refs_ok_down:
  assumes "refs_ok w u" and "0 < u i"
  shows "refs_ok (ref_count_down (al_free A) w i) (u(i := u i - 1))"
proof -
  let ?w = "ref_count_down (al_free A) w i"
  have i: "i < length (mw_heap w)" using assms by (simp add: refs_ok_def)
  note c = ref_count_down_counts [OF i]
  have at: "counts ?w ! j = (counts w)[i := (max 0 (ref_count_of w i - 1), pin_count_of w i, tm_has_parent (mw_heap w ! i))] ! j" for j using c(1) by simp
  have j: "ref_count_of ?w j = int ((u(i := u i - 1)) j) \<and> 0 \<le> pin_count_of ?w j \<and> tm_has_parent (mw_heap ?w ! j)" if "j < length (mw_heap w)" for j
    using at [of j] that assms i c(3) by (cases "j = i") (auto simp: refs_ok_def)
  have "tm_valid (mw_heap ?w ! j)" if "j < length (mw_heap w)" "0 < (u(i := u i - 1)) j" for j
  proof (rule ccontr)
    assume n: "\<not> tm_valid (mw_heap ?w ! j)"
    have "0 < u j" using that(2) assms(2) by (simp split: if_splits)
    then have "tm_valid (mw_heap w ! j)" using assms(1) that(1) by (simp add: refs_ok_def)
    then have "j = i" "ref_count_of w i \<le> 1" using ref_count_down_frees [OF i that(1) _ n] by simp_all
    then show False using that(2) assms i by (simp add: refs_ok_def)
  qed
  moreover have "j < length (mw_heap w)" if "0 < (u(i := u i - 1)) j" for j using that assms by (simp add: refs_ok_def split: if_splits)
  ultimately show ?thesis unfolding refs_ok_def c(3) using j by blast
qed

lemma unpin_keeps_valid:
  assumes "i < length (mw_heap w)" and "j < length (mw_heap w)" and "tm_valid (mw_heap w ! j)" and "j = i \<Longrightarrow> 0 < ref_count_of w i"
  shows "tm_valid (mw_heap (fst (TensorMemoryObj_unpin (al_free A) w i)) ! j)"
proof -
  let ?w1 = "upd_meta (\<lambda>m. m\<lparr>md_pin_count := md_pin_count m - 1\<rparr>) w i"
  define w2 where "w2 = (if pin_count_of ?w1 i = 0 then on_unpin ?w1 i else ?w1)"
  define w3 where "w3 = (if pin_count_of w2 i \<le> 0 \<and> ref_count_of w2 i \<le> 0
                then (if tm_has_parent (mw_heap w2 ! i) then al_free A w2 i else w2) else w2)"
  have res: "fst (TensorMemoryObj_unpin (al_free A) w i) = (if pin_count_of w3 i < 0 then upd_meta (\<lambda>m. m\<lparr>md_pin_count := 0\<rparr>) w3 i else w3)"
    by (simp add: TensorMemoryObj_unpin_def Let_def w2_def w3_def)
  have h2: "mw_heap w2 = mw_heap ?w1" by (simp add: w2_def)
  then have "tm_valid (mw_heap w2 ! j)" "i < length (mw_heap w2)" "j < length (mw_heap w2)" "ref_count_of w2 i = ref_count_of w i" using assms(1-3) by simp_all
  then have "tm_valid (mw_heap w3 ! j)" using assms(4) free_simps(4) [of i w2 j] by (cases "j = i") (auto simp: w3_def)
  then show ?thesis unfolding res by simp
qed

lemma refs_ok_unpin:
  assumes "refs_ok w u" and "i < length (mw_heap w)"
  shows "refs_ok (fst (TensorMemoryObj_unpin (al_free A) w i)) u"
proof -
  let ?w = "fst (TensorMemoryObj_unpin (al_free A) w i)"
  note c = unpin_counts [OF assms(2)]
  have parent: "tm_has_parent (mw_heap ?w ! j)" if "j < length (mw_heap w)" for j
  proof -
    have "counts ?w ! j = (counts w)[i := (ref_count_of w i, max 0 (pin_count_of w i - 1), tm_has_parent (mw_heap w ! i))] ! j" using c(1) by simp
    then show ?thesis using that assms c(3) by (cases "j = i") (auto simp: refs_ok_def)
  qed
  have "ref_count_of ?w j = int (u j)" "0 \<le> pin_count_of ?w j" if "j < length (mw_heap w)" for j
    using unpin_at [OF assms(2) that] assms that by (simp_all add: refs_ok_def)
  moreover have "tm_valid (mw_heap ?w ! j)" if "j < length (mw_heap w)" "0 < u j" for j
    using unpin_keeps_valid [OF assms(2) that(1)] assms that by (cases "j = i") (auto simp: refs_ok_def)
  ultimately show ?thesis using parent assms(1) unfolding refs_ok_def c(3) by blast
qed

lemma refs_ok_alloc:
  assumes "refs_ok w u" and "ok w" and "sized shapes dtypes" and "al_allocate A w shapes dtypes fmt = Inr (w', Some i)"
  shows "ok w' \<and> u i = 0 \<and> refs_ok w' (u(i := 1))"
proof -
  obtain ob where o: "ok w'" "i = length (mw_heap w)" "mw_heap w' = mw_heap w @ [ob]" "tm_valid ob" "tm_has_parent ob"
      "md_ref_count (tm_meta ob) = 1" "md_pin_count (tm_meta ob) = 0"
    using alloc_new [OF assms(2-4)] by blast
  have "u i = 0" using assms(1) o(2) unfolding refs_ok_def by (metis less_irrefl not_gr0)
  moreover have "refs_ok w' (u(i := 1))"
    using assms(1) o(2-7) unfolding refs_ok_def by (auto simp: nth_append less_Suc_eq)
  ultimately show ?thesis using o(1) by simp
qed

end

section \<open>The invariant\<close>

definition cached :: "('k, mem_id) pydict \<Rightarrow> mem_id \<Rightarrow> nat" where
  "cached c i = count (mset (dict_values c)) i"

text \<open>\<open>held\<close> counts the references that the clients of the backend hold.\<close>

definition lcb_inv :: "('a mem_world \<Rightarrow> bool) \<Rightarrow> (mem_id \<Rightarrow> nat) \<Rightarrow> ('k, 'h, 'a) LocalCPUBackend \<Rightarrow> bool" where
  "lcb_inv ok held b \<longleftrightarrow>
     dict_ok (lcb_hot_cache b) \<and> state_ok (lcb_policy b) (fst ` set (lcb_hot_cache b)) \<and> ok (lcb_mem b) \<and>
     refs_ok (lcb_mem b) (\<lambda>i. cached (lcb_hot_cache b) i + held i)"

lemma mset_delete_entry: "dict_ok c \<Longrightarrow> map_of c k = Some i \<Longrightarrow> mset c = add_mset (k, i) (mset (AList.delete k c))"
proof (induction c)
  case (Cons x c)
  then show ?case by (cases x) (auto simp: delete_idem split: if_splits)
qed simp

lemma cached_delete:
  assumes "dict_ok c" and "map_of c k = Some i"
  shows "cached c j = cached (AList.delete k c) j + (if j = i then 1 else 0)"
  using arg_cong [OF mset_delete_entry [OF assms], of "image_mset snd"] by (simp add: cached_def)

lemma cached_snoc: "k \<notin> fst ` set c \<Longrightarrow> AList.update k i c = c @ [(k, i)]"
  by (induction c) auto

lemma cached_append: "cached (c @ [(k, i)]) j = cached c j + (if j = i then 1 else 0)"
  by (simp add: cached_def)

lemma cached_positive: "map_of c k = Some i \<Longrightarrow> 0 < cached c i"
  by (force simp: cached_def count_greater_zero_iff dest: map_of_SomeD)

lemma cached_same:
  assumes "dict_ok c" and "dict_ok c'" and "map_of c' = map_of c"
  shows "cached c' = cached c"
proof -
  have "set c' = set c" using assms by (metis map_of_eq_Some_iff subset_antisym subrelI)
  then have "mset c' = mset c" using assms(1,2) by (metis distinct_map set_eq_iff_mset_eq_distinct)
  then show ?thesis by (simp add: cached_def fun_eq_iff)
qed

lemma inv_message [simp]: "lcb_inv ok held (add_kv_op op h b) = lcb_inv ok held b"
  by (simp add: lcb_inv_def add_kv_op_def)

lemma inv_entry:
  assumes "lcb_inv ok held b" and "map_of (lcb_hot_cache b) key = Some i"
  shows "i < length (mw_heap (lcb_mem b))" and "tm_valid (mw_heap (lcb_mem b) ! i)" and "0 < cached (lcb_hot_cache b) i"
    and "ref_count_of (lcb_mem b) i = int (cached (lcb_hot_cache b) i + held i)"
  using assms cached_positive [OF assms(2)] by (auto simp: lcb_inv_def refs_ok_def)

text \<open>A hit on a key that is not cached is an error, but for FIFO, which ignores it.\<close>

lemma hit_absent:
  assumes "state_ok p (fst ` set c)" and "key \<notin> fst ` set c"
  shows "update_on_hit E key p c = (case p of FIFOCachePolicy \<Rightarrow> Inr (p, c) | _ \<Rightarrow> Inl KeyError)"
proof (cases p)
  case (LFUCachePolicy l)
  then have "map_of (lfu_key_to_freq l) key = None" using assms by (simp add: state_ok_def lfu_ok_def map_of_eq_None_iff)
  then show ?thesis using LFUCachePolicy by (simp add: update_on_hit_def LFU_update_on_hit_def bind_result_def)
qed (use assms in \<open>simp_all add: update_on_hit_def LRU_update_on_hit_def move_to_end_def bind_result_def map_of_eq_None_iff split: option.split\<close>)

context backend_memory
begin

lemma contains_inv:
  assumes "lcb_inv ok held b"
  shows "lcb_inv ok held (fst (lcb_contains now key pin b))"
proof (cases "map_of (lcb_hot_cache b) key")
  case (Some i)
  then show ?thesis
    using assms inv_entry(1) [OF assms Some] ok_pin refs_ok_pin [of "lcb_mem b" "\<lambda>j. cached (lcb_hot_cache b) j + held j" i now] by (simp add: lcb_contains_def lcb_inv_def)
qed (use assms in \<open>simp add: lcb_contains_def\<close>)

lemma pin_inv:
  assumes "lcb_inv ok held b"
  shows "lcb_inv ok held (fst (lcb_pin now key b))"
proof (cases "map_of (lcb_hot_cache b) key")
  case (Some i)
  then show ?thesis
    using assms inv_entry(1) [OF assms Some] ok_pin refs_ok_pin [of "lcb_mem b" "\<lambda>j. cached (lcb_hot_cache b) j + held j" i now] by (simp add: lcb_pin_def lcb_inv_def)
qed (use assms in \<open>simp add: lcb_pin_def\<close>)

lemma unpin_inv:
  assumes "lcb_inv ok held b"
  shows "lcb_inv ok held (fst (lcb_unpin A key b))"
proof (cases "map_of (lcb_hot_cache b) key")
  case (Some i)
  then show ?thesis
    using assms inv_entry(1) [OF assms Some] ok_unpin refs_ok_unpin [of "lcb_mem b" "\<lambda>j. cached (lcb_hot_cache b) j + held j" i] by (simp add: lcb_unpin_def lcb_inv_def)
qed (use assms in \<open>simp add: lcb_unpin_def\<close>)

lemma get_inv:
  assumes "lcb_inv ok held b" and "lcb_get_blocking key b = (b', Some i)"
  shows "lcb_inv ok (held(i := held i + 1)) b'"
proof -
  have k: "map_of (lcb_hot_cache b) key = Some i" and b': "b' = b\<lparr>lcb_mem := ref_count_up (lcb_mem b) i\<rparr>"
    using assms(2) by (auto simp: lcb_get_blocking_def split: option.splits)
  let ?u = "\<lambda>j. cached (lcb_hot_cache b) j + held j"
  have "refs_ok (ref_count_up (lcb_mem b) i) (?u(i := ?u i + 1))"
    using assms(1) inv_entry(3) [OF assms(1) k] by (intro refs_ok_up) (simp_all add: lcb_inv_def)
  moreover have "?u(i := ?u i + 1) = (\<lambda>j. cached (lcb_hot_cache b) j + (held(i := held i + 1)) j)" by auto
  ultimately show ?thesis using assms(1) ok_up by (simp add: lcb_inv_def b')
qed

lemma put_inv:
  assumes "lcb_inv ok held b" and "0 < held i" and "items_documented (pe_items E)"
  shows "lcb_inv ok held (fst (submit_put_task E key i b))"
proof (cases "map_of (lcb_hot_cache b) key")
  case None
  then have new: "key \<notin> fst ` set (lcb_hot_cache b)" by (simp add: map_of_eq_None_iff)
  let ?u = "\<lambda>j. cached (lcb_hot_cache b) j + held j"
  have "refs_ok (ref_count_up (lcb_mem b) i) (?u(i := ?u i + 1))"
    using assms(1,2) by (intro refs_ok_up) (simp_all add: lcb_inv_def)
  moreover have "?u(i := ?u i + 1) = (\<lambda>j. cached (lcb_hot_cache b @ [(key, i)]) j + held j)" by (auto simp: cached_append)
  moreover have "state_ok (update_on_put E key (lcb_policy b)) (insert key (fst ` set (lcb_hot_cache b)))"
    using pol.put_law [of E "lcb_policy b" _ key] new assms by (simp add: policy_ok_def lcb_inv_def)
  ultimately show ?thesis
    using assms(1) None new ok_up by (simp add: submit_put_task_def add_kv_op_def lcb_inv_def cached_snoc)
qed (use assms in \<open>simp add: submit_put_task_def\<close>)

lemma touch_loop_inv:
  assumes "touch_loop E keys p c = (p', c', r)" and "dict_ok c" and "state_ok p (fst ` set c)" and "items_documented (pe_items E)" and "set keys \<subseteq> fst ` set c"
  shows "dict_ok c' \<and> state_ok p' (fst ` set c') \<and> map_of c' = map_of c \<and> r = Inr ()"
  using assms
proof (induction E keys p c rule: touch_loop.induct)
  case (2 E key keys p c)
  obtain p1 c1 where h: "update_on_hit E key p c = Inr (p1, c1)" "policy_ok E p1 (fst ` set c)" "dict_ok c1" "map_of c1 = map_of c"
    using pol.hit_law [of E p c key] 2(3-6) by (auto simp: policy_ok_def)
  have "fst ` set c1 = fst ` set c" using h(4) by (metis dom_map_of_conv_image_fst)
  then show ?case using 2(1) [OF h(1) refl] 2(2,5,6) h by (simp add: policy_ok_def)
qed simp

text \<open>\<^verbatim>\<open>touch_cache\<close> works as long as the keys of the request are still cached.\<close>

lemma touch_cached:
  assumes "lcb_inv ok held b" and "items_documented (pe_items E)" and "set (lcb_keys_in_request b) \<subseteq> fst ` set (lcb_hot_cache b)"
  shows "snd (touch_cache E b) = Inr () \<and> lcb_keys_in_request (fst (touch_cache E b)) = []"
proof -
  obtain p c r where t: "touch_loop E (rev (lcb_keys_in_request b)) (lcb_policy b) (lcb_hot_cache b) = (p, c, r)" by (metis prod_cases3)
  then show ?thesis using touch_loop_inv [OF t] assms by (simp add: touch_cache_def lcb_inv_def)
qed

lemma touch_loop_keeps:
  assumes "touch_loop E keys p c = (p', c', r)" and "dict_ok c" and "state_ok p (fst ` set c)" and "items_documented (pe_items E)"
  shows "dict_ok c' \<and> state_ok p' (fst ` set c') \<and> map_of c' = map_of c"
  using assms
proof (induction E keys p c rule: touch_loop.induct)
  case (2 E key keys p c)
  show ?case
  proof (cases "update_on_hit E key p c")
    case (Inl e)
    then show ?thesis using 2(2-4) by simp
  next
    case (Inr pc)
    obtain p1 c1 where pc: "pc = (p1, c1)" by (cases pc)
    show ?thesis
    proof (cases "key \<in> fst ` set c")
      case True
      then have h: "policy_ok E p1 (fst ` set c)" "dict_ok c1" "map_of c1 = map_of c"
        using pol.hit_law [of E p c key] 2(3-5) Inr pc by (auto simp: policy_ok_def)
      have "fst ` set c1 = fst ` set c" using h(3) by (metis dom_map_of_conv_image_fst)
      then show ?thesis using 2(1) [OF Inr pc [symmetric]] 2(2,5) h Inr pc by (simp add: policy_ok_def)
    next
      case False
      then have "p1 = p \<and> c1 = c" using Inr pc hit_absent [OF 2(4) False, of E] by (auto split: CachePolicy.splits)
      then show ?thesis using 2 Inr pc by simp
    qed
  qed
qed simp

lemma touch_inv:
  assumes "lcb_inv ok held b" and "items_documented (pe_items E)"
  shows "lcb_inv ok held (fst (touch_cache E b))"
proof -
  obtain p c r where t: "touch_loop E (rev (lcb_keys_in_request b)) (lcb_policy b) (lcb_hot_cache b) = (p, c, r)" by (metis prod_cases3)
  have b: "dict_ok (lcb_hot_cache b)" "state_ok (lcb_policy b) (fst ` set (lcb_hot_cache b))" using assms(1) by (simp_all add: lcb_inv_def)
  note k = touch_loop_keeps [OF t b assms(2)]
  have "cached c = cached (lcb_hot_cache b)" using k b by (intro cached_same) simp_all
  then show ?thesis using assms(1) k t by (cases r) (simp_all add: touch_cache_def lcb_inv_def)
qed

lemma remove_core:
  assumes "lcb_inv ok held b" and "map_of (lcb_hot_cache b) key = Some i" and "state_ok p (fst ` set (lcb_hot_cache b) - {key})"
  shows "lcb_inv ok held (b\<lparr>lcb_policy := p, lcb_hot_cache := AList.delete key (lcb_hot_cache b), lcb_mem := ref_count_down (al_free A) (lcb_mem b) i\<rparr>)"
proof -
  let ?u = "\<lambda>j. cached (lcb_hot_cache b) j + held j"
  have d: "dict_ok (lcb_hot_cache b)" using assms(1) by (simp add: lcb_inv_def)
  have "refs_ok (ref_count_down (al_free A) (lcb_mem b) i) (?u(i := ?u i - 1))"
    using assms(1) inv_entry(3) [OF assms(1,2)] by (intro refs_ok_down) (simp_all add: lcb_inv_def)
  moreover have "?u(i := ?u i - 1) = (\<lambda>j. cached (AList.delete key (lcb_hot_cache b)) j + held j)"
    using cached_delete [OF d assms(2)] by auto
  ultimately show ?thesis using assms ok_down inv_entry(1) [OF assms(1,2)] by (simp add: lcb_inv_def)
qed

lemma remove_inv:
  assumes "lcb_inv ok held b"
  shows "lcb_inv ok held (fst (lcb_remove E A True key b)) \<and> (\<exists>r. snd (lcb_remove E A True key b) = Inr r)"
proof (cases "map_of (lcb_hot_cache b) key")
  case (Some i)
  obtain E' :: "('b, 'c) policy_env" where E': "items_documented (pe_items E')"
    using sorted_items_documented by (metis policy_env.select_convs(3))
  obtain p where p: "update_on_force_evict key (lcb_policy b) = Inr p" "state_ok p (fst ` set (lcb_hot_cache b) - {key})"
    using pol.force_law [of E' "lcb_policy b" "fst ` set (lcb_hot_cache b)" key] assms E' by (auto simp: policy_ok_def lcb_inv_def)
  then show ?thesis using remove_core [OF assms Some p(2)] Some by (auto simp: lcb_remove_def Let_def lcb_inv_def add_kv_op_def)
qed (use assms in \<open>auto simp: lcb_remove_def\<close>)

text \<open>
  A round of eviction either removes one entry that can be evicted, or finds that there is none.
\<close>

lemma evict_one_cases:
  assumes "lcb_inv ok held b" and "items_documented (pe_items E)" and "lcb_use_hot b"
  obtains (none) p where "evict_one E A b = (b\<lparr>lcb_policy := p\<rparr>, Inr False)" and "lcb_inv ok held (b\<lparr>lcb_policy := p\<rparr>)"
      and "\<forall>(key, i) \<in> set (lcb_hot_cache b). \<not> lcb_can_evict b i"
  | (one) p key i where "map_of (lcb_hot_cache b) key = Some i" and "lcb_can_evict b i"
      and "evict_one E A b = (add_kv_op EVICT (pe_hash E key) (b\<lparr>lcb_policy := p, lcb_hot_cache := AList.delete key (lcb_hot_cache b),
             lcb_mem := ref_count_down (al_free A) (lcb_mem b) i\<rparr>), Inr True)"
      and "lcb_inv ok held (fst (evict_one E A b))"
proof -
  let ?c = "lcb_hot_cache b" and ?e = "lcb_can_evict b"
  have ok': "policy_ok E (lcb_policy b) (fst ` set ?c)" "dict_ok ?c" using assms(1,2) by (simp_all add: policy_ok_def lcb_inv_def)
  show thesis
  proof (cases rule: pol.one_candidate [OF ok', of ?e])
    case (1 p')
    note none = 1
    have "\<not> ?e i" if "(key, i) \<in> set ?c" for key i
    proof
      assume "?e i"
      then have "key \<in> evictable ?e ?c" using that map_of_eq_Some_iff [OF ok'(2), of key i] by (auto simp: evictable_def)
      then show False using none(3) by simp
    qed
    moreover have "lcb_inv ok held (b\<lparr>lcb_policy := p'\<rparr>)" using assms(1) none(2) by (simp add: lcb_inv_def policy_ok_def)
    moreover have "evict_one E A b = (b\<lparr>lcb_policy := p'\<rparr>, Inr False)" using none(1) assms(3) by (simp add: evict_one_def)
    ultimately show thesis by (intro that(1)) blast+
  next
    case (2 p' key)
    note one = 2
    then obtain i where i: "map_of ?c key = Some i" "?e i" by (auto simp: evictable_def)
    have ev: "evict_one E A b = (add_kv_op EVICT (pe_hash E key) (b\<lparr>lcb_policy := p', lcb_hot_cache := AList.delete key ?c,
        lcb_mem := ref_count_down (al_free A) (lcb_mem b) i\<rparr>), Inr True)"
      using one(1) i(1) assms(3) by (simp add: evict_one_def lcb_remove_def bind_result_def Let_def)
    have "lcb_inv ok held (fst (evict_one E A b))"
      unfolding ev using remove_core [OF assms(1) i(1), of p'] one(2) by (simp add: policy_ok_def)
    then show thesis using that(2) [OF i ev] by blast
  qed
qed

lemma evict_one_inv:
  assumes "lcb_inv ok held b" and "items_documented (pe_items E)"
  shows "lcb_inv ok held (fst (evict_one E A b))"
proof (cases "lcb_use_hot b")
  case True
  from assms True show ?thesis by (cases rule: evict_one_cases) simp_all
qed (use assms in \<open>simp add: evict_one_def\<close>)

lemma try_allocate_inv:
  assumes "lcb_inv ok held b" and "sized shapes dtypes" and "try_allocate A shapes dtypes fmt b = (b', Inr (Some i))"
  shows "cached (lcb_hot_cache b') i + held i = 0 \<and> lcb_inv ok (held(i := 1)) b'"
proof -
  obtain w where w: "al_allocate A (lcb_mem b) shapes dtypes fmt = Inr (w, Some i)" and b': "b' = b\<lparr>lcb_mem := w\<rparr>"
    using assms(3) by (auto simp: try_allocate_def split: sum.splits)
  let ?u = "\<lambda>j. cached (lcb_hot_cache b) j + held j"
  have "ok w \<and> ?u i = 0 \<and> refs_ok w (?u(i := 1))" using assms(1,2) refs_ok_alloc [of "lcb_mem b" ?u, OF _ _ _ w] by (simp add: lcb_inv_def)
  moreover from this have "?u(i := 1) = (\<lambda>j. cached (lcb_hot_cache b) j + (held(i := 1)) j)" by auto
  ultimately show ?thesis using assms(1) by (simp add: lcb_inv_def b')
qed

lemma drop_inv:
  assumes "lcb_inv ok held b" and "0 < held i"
  shows "lcb_inv ok (held(i := held i - 1)) (b\<lparr>lcb_mem := ref_count_down (al_free A) (lcb_mem b) i\<rparr>)"
proof -
  let ?u = "\<lambda>j. cached (lcb_hot_cache b) j + held j"
  have i: "i < length (mw_heap (lcb_mem b))" using assms by (simp add: lcb_inv_def refs_ok_def)
  have "refs_ok (ref_count_down (al_free A) (lcb_mem b) i) (?u(i := ?u i - 1))"
    using assms by (intro refs_ok_down) (simp_all add: lcb_inv_def)
  moreover have "?u(i := ?u i - 1) = (\<lambda>j. cached (lcb_hot_cache b) j + (held(i := held i - 1)) j)" using assms(2) by auto
  ultimately show ?thesis using assms(1) ok_down i by (simp add: lcb_inv_def)
qed

lemma obj_unpin_inv:
  assumes "lcb_inv ok held b" and "i < length (mw_heap (lcb_mem b))"
  shows "lcb_inv ok held (b\<lparr>lcb_mem := fst (TensorMemoryObj_unpin (al_free A) (lcb_mem b) i)\<rparr>)"
  using assms ok_unpin refs_ok_unpin [of "lcb_mem b" "\<lambda>j. cached (lcb_hot_cache b) j + held j" i] by (simp add: lcb_inv_def)

end

section \<open>Histories\<close>

text \<open>
  The operations of the backend and of its clients, in any order: the rounds of \<^verbatim>\<open>allocate\<close> of several
  threads may interleave. A client puts objects that it holds, drops references that it has, and
  unpins objects that it knows.
\<close>

inductive lcb_run ::
  "'a MemoryAllocator \<Rightarrow> (torch_size one_or_list \<Rightarrow> torch_dtype one_or_list \<Rightarrow> bool) \<Rightarrow> 'a mem_world \<Rightarrow> ('k, 'h, 'a) LocalCPUBackend \<Rightarrow> (mem_id \<Rightarrow> nat) \<Rightarrow> bool"
  for A sized w where
  lcb_created: "LocalCPUBackend_init name use_hot layerwise blending has_worker w = Inr b \<Longrightarrow> lcb_run A sized w b (\<lambda>_. 0)"
| lcb_looked_up: "lcb_run A sized w b held \<Longrightarrow> lcb_run A sized w (fst (lcb_contains now key pin b)) held"
| lcb_touched: "lcb_run A sized w b held \<Longrightarrow> items_documented (pe_items E) \<Longrightarrow> lcb_run A sized w (fst (touch_cache E b)) held"
| lcb_put: "lcb_run A sized w b held \<Longrightarrow> items_documented (pe_items E) \<Longrightarrow> 0 < held i \<Longrightarrow> lcb_run A sized w (fst (submit_put_task E key i b)) held"
| lcb_got: "lcb_run A sized w b held \<Longrightarrow> lcb_get_blocking key b = (b', Some i) \<Longrightarrow> lcb_run A sized w b' (held(i := held i + 1))"
| lcb_pinned: "lcb_run A sized w b held \<Longrightarrow> lcb_run A sized w (fst (lcb_pin now key b)) held"
| lcb_unpinned: "lcb_run A sized w b held \<Longrightarrow> lcb_run A sized w (fst (lcb_unpin A key b)) held"
| lcb_removed: "lcb_run A sized w b held \<Longrightarrow> lcb_run A sized w (fst (lcb_remove E A True key b)) held"
| lcb_evicted: "lcb_run A sized w b held \<Longrightarrow> items_documented (pe_items E) \<Longrightarrow> lcb_run A sized w (fst (evict_one E A b)) held"
| lcb_allocated: "lcb_run A sized w b held \<Longrightarrow> sized shapes dtypes \<Longrightarrow> try_allocate A shapes dtypes fmt b = (b', Inr (Some i)) \<Longrightarrow> lcb_run A sized w b' (held(i := 1))"
| lcb_dropped: "lcb_run A sized w b held \<Longrightarrow> 0 < held i \<Longrightarrow> lcb_run A sized w (b\<lparr>lcb_mem := ref_count_down (al_free A) (lcb_mem b) i\<rparr>) (held(i := held i - 1))"
| lcb_obj_unpinned: "lcb_run A sized w b held \<Longrightarrow> i < length (mw_heap (lcb_mem b)) \<Longrightarrow>
    lcb_run A sized w (b\<lparr>lcb_mem := fst (TensorMemoryObj_unpin (al_free A) (lcb_mem b) i)\<rparr>) held"

context backend_memory
begin

lemma created_inv:
  assumes "LocalCPUBackend_init name use_hot layerwise blending has_worker w = Inr b" and "mw_heap w = []" and "ok w"
  shows "lcb_inv ok (\<lambda>_. 0) b"
proof -
  obtain p where "get_cache_policy name = Inr p" and b: "lcb_policy b = p" "lcb_hot_cache b = []" "lcb_mem b = w"
    using assms(1) by (auto simp: LocalCPUBackend_init_def bind_result_def split: sum.splits)
  then have "state_ok p (fst ` set [])" using created_ok [of name p] unfolding run_ok_def by blast
  then show ?thesis using assms(2,3) b by (simp add: lcb_inv_def refs_ok_def cached_def)
qed

lemma lcb_run_inv:
  assumes "lcb_run A sized w b held" and "ok w" and "mw_heap w = []"
  shows "lcb_inv ok held b"
  using assms(1)
proof induction
  case (lcb_created name use_hot layerwise blending has_worker b)
  then show ?case using assms(3,2) by (rule created_inv)
next
  case (lcb_allocated b held shapes dtypes fmt b' i)
  then show ?case using try_allocate_inv by blast
next
  case (lcb_got b held key b' i)
  show ?case using lcb_got(3,2) by (rule get_inv)
next
  case (lcb_dropped b held i)
  show ?case using lcb_dropped(3,2) by (rule drop_inv)
qed (simp_all add: contains_inv touch_inv put_inv pin_inv unpin_inv remove_inv evict_one_inv obj_unpin_inv)

end

text \<open>What an allocation leaves of the cache: the entries that are in use, and nothing new.\<close>

definition keeps_used :: "('k, 'h, 'a) LocalCPUBackend \<Rightarrow> ('k, 'h, 'a) LocalCPUBackend \<Rightarrow> bool" where
  "keeps_used b b' \<longleftrightarrow>
     set (lcb_hot_cache b') \<subseteq> set (lcb_hot_cache b) \<and>
     (\<forall>(key, i) \<in> set (lcb_hot_cache b). \<not> lcb_can_evict b i \<longrightarrow> (key, i) \<in> set (lcb_hot_cache b'))"

context backend_memory
begin

lemma evict_one_keeps:
  assumes "map_of (lcb_hot_cache b) key = Some i" and "lcb_can_evict b i" and "i < length (mw_heap (lcb_mem b))"
    and "lcb_hot_cache b' = AList.delete key (lcb_hot_cache b)" and "lcb_mem b' = ref_count_down (al_free A) (lcb_mem b) i"
    and "\<forall>j \<in> snd ` set (lcb_hot_cache b). j < length (mw_heap (lcb_mem b))" and "dict_ok (lcb_hot_cache b)"
  shows "keeps_used b b' \<and> (\<forall>(k, j) \<in> set (lcb_hot_cache b). \<not> lcb_can_evict b j \<longrightarrow> \<not> lcb_can_evict b' j)"
proof -
  have c: "counts (lcb_mem b') ! j = counts (lcb_mem b) ! j" if "j \<noteq> i" for j
    using ref_count_down_counts(1) [OF assms(3)] that by (simp add: assms(5))
  have len: "length (mw_heap (lcb_mem b')) = length (mw_heap (lcb_mem b))" using ref_count_down_counts(3) [OF assms(3)] by (simp add: assms(5))
  have "\<not> lcb_can_evict b' j" if "(k, j) \<in> set (lcb_hot_cache b)" "\<not> lcb_can_evict b j" for k j
  proof -
    have "j \<noteq> i" "j < length (mw_heap (lcb_mem b))" using that assms(2,6) by force+
    then show ?thesis using c [of j] len that(2) by (simp add: lcb_can_evict_def can_evict_def is_pinned_def)
  qed
  moreover have "(k, j) \<in> set (lcb_hot_cache b')" if "(k, j) \<in> set (lcb_hot_cache b)" "\<not> lcb_can_evict b j" for k j
  proof -
    have "map_of (lcb_hot_cache b) k = Some j" using map_of_is_SomeI [OF _ that(1)] assms(7) by simp
    then have "k \<noteq> key" using assms(1,2) that(2) by (metis option.inject)
    then show ?thesis using that(1) by (simp add: assms(4) set_delete)
  qed
  ultimately show ?thesis unfolding keeps_used_def by (auto simp: assms(4) set_delete)
qed

lemma inv_entries: "lcb_inv ok held b \<Longrightarrow> \<forall>j \<in> snd ` set (lcb_hot_cache b). j < length (mw_heap (lcb_mem b))"
  using inv_entry(1) [of ok held b] by (force simp: lcb_inv_def)

text \<open>Without a busy loop the loop ends: every further round has evicted an entry.\<close>

lemma allocate_loop_returns:
  assumes "lcb_inv ok held b" and "items_documented (pe_items E)" and "sized shapes dtypes"
  shows "\<exists>b' r. allocate_loop E A wait shapes dtypes fmt False n b = Some (b', Inr r) \<and> keeps_used b b' \<and>
    (case r of
       Some i \<Rightarrow> cached (lcb_hot_cache b') i + held i = 0 \<and> lcb_inv ok (held(i := 1)) b'
     | None \<Rightarrow> lcb_inv ok held b' \<and> (lcb_use_hot b \<longrightarrow> (\<forall>(key, i) \<in> set (lcb_hot_cache b'). \<not> lcb_can_evict b' i)))"
  using assms(1)
proof (induction "length (lcb_hot_cache b)" arbitrary: b n rule: less_induct)
  case less
  show ?case
  proof (cases "lcb_use_hot b")
    case False
    then have "allocate_loop E A wait shapes dtypes fmt False n b = Some (b, Inr None)" by (simp add: allocate_loop.simps evict_one_def)
    then show ?thesis using less(2) False by (auto simp: keeps_used_def)
  next
    case True
    from less(2) assms(2) True show ?thesis
    proof (cases rule: evict_one_cases)
      case (none p)
      then have "allocate_loop E A wait shapes dtypes fmt False n b = Some (b\<lparr>lcb_policy := p\<rparr>, Inr None)" by (simp add: allocate_loop.simps)
      then show ?thesis using none(2,3) by (auto simp: keeps_used_def lcb_can_evict_def)
    next
      case (one p key i)
      define b1 where "b1 = fst (evict_one E A b)"
      have ev: "evict_one E A b = (b1, Inr True)" using one(3) by (simp add: b1_def)
      have b1: "lcb_hot_cache b1 = AList.delete key (lcb_hot_cache b)" "lcb_mem b1 = ref_count_down (al_free A) (lcb_mem b) i" "lcb_use_hot b1 = lcb_use_hot b"
        using one(3) by (simp_all add: b1_def add_kv_op_def)
      have inv1: "lcb_inv ok held b1" using one(4) by (simp add: b1_def)
      note k = evict_one_keeps [OF one(1,2) inv_entry(1) [OF less(2) one(1)] b1(1,2) inv_entries [OF less(2)]]
      have d: "dict_ok (lcb_hot_cache b)" using less(2) by (simp add: lcb_inv_def)
      obtain w' r where al: "al_allocate A (lcb_mem b1) shapes dtypes fmt = Inr (w', r)" using alloc_returns [OF assms(3)] by blast
      show ?thesis
      proof (cases r)
        case (Some j)
        then have t: "try_allocate A shapes dtypes fmt b1 = (b1\<lparr>lcb_mem := w'\<rparr>, Inr (Some j))" using al by (simp add: try_allocate_def)
        then have "allocate_loop E A wait shapes dtypes fmt False n b = Some (b1\<lparr>lcb_mem := w'\<rparr>, Inr (Some j))"
          using ev by (simp add: allocate_loop.simps)
        moreover have "keeps_used b (b1\<lparr>lcb_mem := w'\<rparr>)" using k d by (simp add: keeps_used_def)
        ultimately show ?thesis using try_allocate_inv [OF inv1 assms(3) t] by auto
      next
        case None
        then have "w' = lcb_mem b1" using alloc_full [OF assms(3)] al by blast
        then have t: "try_allocate A shapes dtypes fmt b1 = (b1, Inr None)" using al None by (simp add: try_allocate_def)
        then have l: "allocate_loop E A wait shapes dtypes fmt False n b = allocate_loop E A wait shapes dtypes fmt False (n + 1) b1"
          using ev by (subst allocate_loop.simps) simp
        have "length (lcb_hot_cache b1) < length (lcb_hot_cache b)"
          using mset_delete_entry [OF d one(1)] b1(1) by (metis size_add_mset size_mset lessI)
        note IH = less(1) [OF this inv1, of "n + 1"]
        have "keeps_used b b'" if "keeps_used b1 b'" for b'
          using k d that unfolding keeps_used_def by (auto dest: subsetD) blast+
        then show ?thesis using IH unfolding l b1(3) by blast
      qed
    qed
  qed
qed

end

definition sized_by :: "Torch \<Rightarrow> torch_size one_or_list \<Rightarrow> torch_dtype one_or_list \<Rightarrow> bool" where
  "sized_by T shapes dtypes \<longleftrightarrow> (\<exists>n > 0. get_size_bytes T (as_many shapes) (as_many dtypes) = Inr n)"

interpretation ta_mem: backend_memory "tensor_allocator S T" "\<lambda>w. SortedList_documented S \<and> Torch_documented T \<and> ta_ok w" "sized_by T"
  for S T
proof (unfold_locales, goal_cases)
  case (1 i w)
  then show ?case by (simp add: tensor_allocator_def ta.free_law)
next
  case (6 w shapes dtypes fmt w' i)
  then obtain n where n: "get_size_bytes T (as_many shapes) (as_many dtypes) = Inr n" "0 < n" by (auto simp: sized_by_def)
  have r: "TensorMemoryAllocator_allocate S T w shapes dtypes fmt = Inr (w', Some i)" using 6 by (simp add: tensor_allocator_def)
  have ok: "ta_ok w'" using ta_allocate_ok(1) [OF _ _ _ r n] 6 by simp
  show ?case using r n(1)
  proof (cases rule: ta_allocate_cases)
    case (fresh am' a m ob shape dtype)
    then show ?thesis using 6(1) ok by (auto simp: fresh_metadata_def)
  qed simp
next
  case (7 shapes dtypes w fmt w')
  then obtain n where n: "get_size_bytes T (as_many shapes) (as_many dtypes) = Inr n" by (auto simp: sized_by_def)
  have r: "TensorMemoryAllocator_allocate S T w shapes dtypes fmt = Inr (w', None)" using 7 by (simp add: tensor_allocator_def)
  show ?case by (rule ta_allocate_cases [OF r n]) simp_all
next
  case (8 shapes dtypes w fmt)
  then obtain n where n: "get_size_bytes T (as_many shapes) (as_many dtypes) = Inr n" "0 < n" by (auto simp: sized_by_def)
  then have len: "length (as_many shapes) = length (as_many dtypes)" "as_many shapes \<noteq> []"
    by (auto simp: get_size_bytes_def split: if_splits)
  then have "py_nth (as_many shapes) 0 = Inr (as_many shapes ! 0)" "py_nth (as_many dtypes) 0 = Inr (as_many dtypes ! 0)"
    by (auto simp: py_nth_def)
  then show ?case
    using n len by (auto simp: tensor_allocator_def TensorMemoryAllocator_allocate_def adapt_shapes_and_dtypes_def bind_result_def
        TensorMemoryObj_init_def fresh_metadata_def Let_def split: sum.split prod.split)
qed (simp_all add: tensor_allocator_def ta_ref_count_up_ok ta_ref_count_down_ok ta_pin_ok ta_unpin_ok)

lemma ta_ok_objects_disjoint:
  assumes "ta_ok w" and "i < length (mw_heap w)" and "j < length (mw_heap w)" and "i \<noteq> j" and "tm_valid (mw_heap w ! i)" and "tm_valid (mw_heap w ! j)"
  shows "rng (tm_raw_data (mw_heap w ! i)) \<inter> rng (tm_raw_data (mw_heap w ! j)) = {}"
  using assms ta_ok_disjoint [OF assms(1), of i j] ta_ok_disjoint [OF assms(1), of j i] by (cases "i < j") (auto simp: Int_commute)

text \<open>The tensor allocator over a fresh buffer satisfies what a history needs.\<close>

lemma ta_run_inv:
  assumes "SortedList_documented S" and "Torch_documented T" and "0 < snd buffer" and "align = 2 ^ k"
    and "lcb_run (tensor_allocator S T) (sized_by T) (ta_initial S buffer align) b held"
  shows "lcb_inv (\<lambda>w. SortedList_documented S \<and> Torch_documented T \<and> ta_ok w) held b"
  by (rule ta_mem.lcb_run_inv [OF assms(5)]) (use assms ta_initial_ok(1) [OF assms(1,3,4)] in \<open>simp_all add: ta_initial_def\<close>)

section \<open>Touching keys that are gone\<close>

lemma touch_loop_absent:
  assumes "touch_loop E keys p c = (p', c', r)" and "dict_ok c" and "state_ok p (fst ` set c)" and "items_documented (pe_items E)"
    and "p \<noteq> FIFOCachePolicy" and "key \<in> set keys" and "key \<notin> fst ` set c"
  shows "r = Inl KeyError \<and> p' \<noteq> FIFOCachePolicy"
  using assms
proof (induction E keys p c rule: touch_loop.induct)
  case (2 E k keys p c)
  show ?case
  proof (cases "k \<in> fst ` set c")
    case True
    then obtain p1 c1 where h: "update_on_hit E k p c = Inr (p1, c1)" "policy_ok E p1 (fst ` set c)" "dict_ok c1" "map_of c1 = map_of c"
      using pol.hit_law [of E p c k] 2(3-5) by (auto simp: policy_ok_def)
    have "p1 \<noteq> FIFOCachePolicy" using h(1) 2(6) by (auto simp: update_on_hit_def bind_result_def split: CachePolicy.splits sum.splits)
    moreover have "fst ` set c1 = fst ` set c" using h(4) by (metis dom_map_of_conv_image_fst)
    ultimately show ?thesis using 2(1) [OF h(1) refl] 2(2,5,7,8) h True by (auto simp: policy_ok_def)
  next
    case False
    then have "update_on_hit E k p c = Inl KeyError" using hit_absent [OF 2(4) False, of E] 2(6) by (auto split: CachePolicy.splits)
    then show ?thesis using 2(2,6) by simp
  qed
qed simp

definition stuck_on :: "'k \<Rightarrow> ('k, 'h, 'a) LocalCPUBackend \<Rightarrow> bool" where
  "stuck_on key b \<longleftrightarrow> lcb_policy b \<noteq> FIFOCachePolicy \<and> key \<in> set (lcb_keys_in_request b) \<and> key \<notin> fst ` set (lcb_hot_cache b)"

lemma touch_absent:
  assumes "lcb_inv ok held b" and "items_documented (pe_items E)" and "stuck_on key b"
  shows "snd (touch_cache E b) = Inl KeyError \<and> stuck_on key (fst (touch_cache E b))"
proof -
  obtain p c r where t: "touch_loop E (rev (lcb_keys_in_request b)) (lcb_policy b) (lcb_hot_cache b) = (p, c, r)" by (metis prod_cases3)
  have b: "dict_ok (lcb_hot_cache b)" "state_ok (lcb_policy b) (fst ` set (lcb_hot_cache b))" using assms(1) by (simp_all add: lcb_inv_def)
  have "r = Inl KeyError \<and> p \<noteq> FIFOCachePolicy" by (rule touch_loop_absent [OF t b assms(2), of key]) (use assms(3) in \<open>simp_all add: stuck_on_def\<close>)
  moreover have "map_of c = map_of (lcb_hot_cache b)" using ta_mem.touch_loop_keeps [OF t b assms(2)] by simp
  then have "fst ` set c = fst ` set (lcb_hot_cache b)" by (metis dom_map_of_conv_image_fst)
  ultimately show ?thesis using t assms(3) by (simp add: touch_cache_def stuck_on_def)
qed

section \<open>Evicting all layers of a chunk\<close>

lemma pop_layers_all:
  assumes "state_ok (lcb_policy b) K" and "items_documented (pe_items (E :: ('k, 'h) policy_env))" and "distinct keys"
    and "\<forall>k \<in> set keys. map_of (lcb_hot_cache b) k = Some (g k)"
  shows "\<exists>p c. pop_layers keys (b :: ('k, 'h, 'a) LocalCPUBackend) = (b\<lparr>lcb_policy := p, lcb_hot_cache := c\<rparr>, Inr (map g keys)) \<and>
    map_of c = (map_of (lcb_hot_cache b)) |` (- set keys)"
  using assms
proof (induction keys arbitrary: b K)
  case Nil
  show ?case by (intro exI [of _ "lcb_policy b"] exI [of _ "lcb_hot_cache b"]) (simp add: restrict_map_def)
next
  case (Cons key keys)
  obtain p where p: "update_on_force_evict key (lcb_policy b) = Inr p" "state_ok p (K - {key})"
    using pol.force_law [of E "lcb_policy b" K key] Cons(2,3) by (auto simp: policy_ok_def)
  let ?b = "b\<lparr>lcb_policy := p, lcb_hot_cache := AList.delete key (lcb_hot_cache b)\<rparr>"
  have m: "map_of (AList.delete key (lcb_hot_cache b)) = (map_of (lcb_hot_cache b))(key := None)" by (rule delete_conv')
  have "\<exists>p c. pop_layers keys ?b = (?b\<lparr>lcb_policy := p, lcb_hot_cache := c\<rparr>, Inr (map g keys)) \<and> map_of c = (map_of (lcb_hot_cache ?b)) |` (- set keys)"
    by (rule Cons(1) [of _ "K - {key}"]) (use Cons(3-5) p(2) m in auto)
  then obtain p' c where c: "pop_layers keys ?b = (b\<lparr>lcb_policy := p', lcb_hot_cache := c\<rparr>, Inr (map g keys))"
      "map_of c = ((map_of (lcb_hot_cache b))(key := None)) |` (- set keys)"
    using m by auto
  have "map_of c = (map_of (lcb_hot_cache b)) |` (- set (key # keys))" unfolding c(2) by (rule ext) (simp add: restrict_map_def)
  moreover have "pop_layers (key # keys) b = (b\<lparr>lcb_policy := p', lcb_hot_cache := c\<rparr>, Inr (map g (key # keys)))"
    using Cons(5) p(1) c(1) by (simp add: bind_result_def)
  ultimately show ?case by blast
qed

lemma evict_layers_frees:
  assumes "lcb_inv (\<lambda>w. SortedList_documented S \<and> Torch_documented T \<and> ta_ok w) held b" and "items_documented (pe_items E)" and "lcb_use_hot b"
    and "get_evict_candidates E (lcb_can_evict b) 1 (lcb_policy b) (lcb_hot_cache b) = Inr (p, [key])"
    and "distinct (layers key n)" and "\<forall>k \<in> set (layers key n). map_of (lcb_hot_cache b) k = Some (g k)"
  shows "\<exists>b'. evict_layers E (tensor_allocator S T) layers n b = (b', Inr True) \<and> lcb_sender b' = lcb_sender b \<and>
    map_of (lcb_hot_cache b') = (map_of (lcb_hot_cache b)) |` (- set (layers key n)) \<and>
    (\<forall>i < length (mw_heap (lcb_mem b)). tm_meta (mw_heap (lcb_mem b') ! i) = tm_meta (mw_heap (lcb_mem b) ! i)) \<and>
    (\<forall>k \<in> set (layers key n). \<not> tm_valid (mw_heap (lcb_mem b') ! g k))"
proof -
  let ?ids = "map g (layers key n)" and ?w = "lcb_mem b"
  have ok: "SortedList_documented S" "ta_ok ?w" using assms(1) by (simp_all add: lcb_inv_def)
  have ids: "\<forall>i \<in> set ?ids. i < length (mw_heap ?w)" using inv_entry(1) [OF assms(1)] assms(6) by auto
  have sub: "state_ok p (fst ` set (lcb_hot_cache b) - {key})"
    using pol.candidates_law [of E "lcb_policy b" "lcb_hot_cache b" 1 "lcb_can_evict b"] assms(1,2,4) by (auto simp: policy_ok_def lcb_inv_def)
  obtain p' c where pop: "pop_layers (layers key n) (b\<lparr>lcb_policy := p\<rparr>) = (b\<lparr>lcb_policy := p', lcb_hot_cache := c\<rparr>, Inr ?ids)"
      "map_of c = (map_of (lcb_hot_cache b)) |` (- set (layers key n))"
    using pop_layers_all [of "b\<lparr>lcb_policy := p\<rparr>" "fst ` set (lcb_hot_cache b) - {key}" E "layers key n" g] sub assms(2,5,6) by auto
  let ?b' = "b\<lparr>lcb_policy := p', lcb_hot_cache := c, lcb_mem := TensorMemoryAllocator_batched_free S ?w ?ids\<rparr>"
  have "evict_layers E (tensor_allocator S T) layers n b = (?b', Inr True)"
    using assms(3,4) pop(1) by (simp add: evict_layers_def tensor_allocator_def)
  moreover have h: "mw_heap (lcb_mem ?b') = fold invalidate_at ?ids (mw_heap ?w)" using ta_batched_free_ok(2) [OF ok ids] by simp
  have "mw_heap (lcb_mem ?b') ! i = (if i \<in> set ?ids then invalidate (mw_heap ?w ! i) else mw_heap ?w ! i)" if "i < length (mw_heap ?w)" for i
    unfolding h using that by (rule invalidate_fold_nth)
  then have "\<forall>i < length (mw_heap ?w). tm_meta (mw_heap (lcb_mem ?b') ! i) = tm_meta (mw_heap ?w ! i)"
      "\<forall>k \<in> set (layers key n). \<not> tm_valid (mw_heap (lcb_mem ?b') ! g k)"
    using ids by (simp_all add: invalidate_def)
  ultimately show ?thesis using pop(2) by (intro exI [of _ ?b']) simp
qed

section \<open>The chunk budget fits\<close>

lemma chunk_budget_fits:
  assumes "calculate_chunk_budget total_memory chunk_bytes align = Inr n" and "0 < align" and "0 < chunk_bytes"
  shows "n * ((chunk_bytes + align - 1) div align * align) \<le> total_memory \<and> total_memory < (n + 1) * ((chunk_bytes + align - 1) div align * align)"
proof -
  let ?a = "(chunk_bytes + align - 1) div align * align"
  have "0 < (chunk_bytes + align - 1) div align" using assms(2,3) by (simp add: pos_imp_zdiv_pos_iff)
  then have a: "0 < ?a" using assms(2) by simp
  have n: "n = total_memory div ?a" using assms(1,2) a by (simp add: calculate_chunk_budget_def Let_def split: if_splits)
  have "total_memory = total_memory div ?a * ?a + total_memory mod ?a" by (rule div_mult_mod_eq [symmetric])
  moreover have "0 \<le> total_memory mod ?a" "total_memory mod ?a < ?a" using a by simp_all
  ultimately show ?thesis unfolding n by (simp add: distrib_right)
qed

lemma cached_length: "cached c i = length (filter (\<lambda>v. v = i) (dict_values c))"
  by (induction c) (auto simp: cached_def)

section \<open>Properties\<close>

text \<open>A backend with one cached object, still held by the client that stored it.\<close>

abbreviation sample_alloc :: "TensorMemoryAllocator MemoryAllocator" where
  "sample_alloc \<equiv> tensor_allocator insertion_list plain_torch"

definition sample_new :: "(nat, nat, TensorMemoryAllocator) LocalCPUBackend" where
  "sample_new = projr (LocalCPUBackend_init ''mru'' True False False True (ta_initial insertion_list (0, 256) (2 ^ 6)))"

definition sample_stored :: "(nat, nat, TensorMemoryAllocator) LocalCPUBackend" where
  "sample_stored = fst (submit_put_task sample_env 1 0 (fst (try_allocate sample_alloc (One [8]) (One ''float16'') KV_2LTD sample_new)))"

abbreviation sample_run :: "(nat, nat, TensorMemoryAllocator) LocalCPUBackend \<Rightarrow> (mem_id \<Rightarrow> nat) \<Rightarrow> bool" where
  "sample_run \<equiv> lcb_run sample_alloc (sized_by plain_torch) (ta_initial insertion_list (0, 256) (2 ^ 6))"

lemma sample_sized: "0 < n \<Longrightarrow> sized_by plain_torch (One [n]) (One ''float16'')"
  by (simp add: sized_by_def get_size_bytes_def plain_torch_def)

lemma sample_env_items: "items_documented (pe_items sample_env)"
  by (simp add: sample_env_def sorted_items_documented)

lemma sample_stored_run: "sample_run sample_stored ((\<lambda>_. 0)(0 := 1))"
proof -
  have "\<not> isl (LocalCPUBackend_init ''mru'' True False False True (ta_initial insertion_list (0, 256) (2 ^ 6)) :: (nat, nat, TensorMemoryAllocator) LocalCPUBackend result)"
    by code_simp
  then have "sample_run sample_new (\<lambda>_. 0)" by (intro lcb_created) (simp add: sample_new_def)
  moreover have "snd (try_allocate sample_alloc (One [8]) (One ''float16'') KV_2LTD sample_new) = Inr (Some 0)" by code_simp
  ultimately have "sample_run (fst (try_allocate sample_alloc (One [8]) (One ''float16'') KV_2LTD sample_new)) ((\<lambda>_. 0)(0 := 1))"
    by (intro lcb_allocated [where shapes = "One [8]" and dtypes = "One ''float16''" and fmt = KV_2LTD]) (simp_all add: sample_sized prod_eq_iff)
  then show ?thesis unfolding sample_stored_def by (rule lcb_put) (simp_all add: sample_env_items)
qed



text \<open>
  Property C13. An allocation that does not wait always returns, for every policy. It evicts only
  entries that no one uses, the others stay cached. The object it returns is live, new and has one
  reference. When it returns nothing although eviction was allowed, no entry that could be evicted is
  left.
\<close>

theorem allocate_evicts_unused:
  assumes "SortedList_documented S" and "Torch_documented T" and "0 < snd buffer" and "align = 2 ^ k"
    and "lcb_run (tensor_allocator S T) (sized_by T) (ta_initial S buffer align) b held"
    and "items_documented (pe_items E)" and "sized_by T shapes dtypes"
  shows "\<exists>b' r. lcb_allocate E (tensor_allocator S T) wait shapes dtypes fmt eviction False b = Some (b', Inr r) \<and> keeps_used b b' \<and>
    (case r of
       Some i \<Rightarrow> i \<notin> set (dict_values (lcb_hot_cache b')) \<and> held i = 0 \<and> i < length (mw_heap (lcb_mem b')) \<and>
         tm_valid (mw_heap (lcb_mem b') ! i) \<and> ref_count_of (lcb_mem b') i = 1
     | None \<Rightarrow> eviction \<and> lcb_use_hot b \<longrightarrow> (\<forall>(key, i) \<in> set (lcb_hot_cache b'). \<not> lcb_can_evict b' i))"
proof -
  note inv = ta_run_inv [OF assms(1-5)]
  let ?A = "tensor_allocator S T" and ?f = "lcb_format b fmt"
  let ?ok = "\<lambda>w. SortedList_documented S \<and> Torch_documented T \<and> ta_ok w"
  have new: "i \<notin> set (dict_values (lcb_hot_cache b')) \<and> held i = 0 \<and> i < length (mw_heap (lcb_mem b')) \<and>
      tm_valid (mw_heap (lcb_mem b') ! i) \<and> ref_count_of (lcb_mem b') i = 1"
    if "cached (lcb_hot_cache b') i + held i = 0" "lcb_inv ?ok (held(i := 1)) b'" for b' :: "('a, 'b, TensorMemoryAllocator) LocalCPUBackend" and i
  proof -
    have r: "refs_ok (lcb_mem b') (\<lambda>j. cached (lcb_hot_cache b') j + (held(i := 1)) j)" using that(2) by (simp add: lcb_inv_def)
    then have "i < length (mw_heap (lcb_mem b'))" unfolding refs_ok_def by (metis add_gr_0 fun_upd_same zero_less_one)
    moreover have "i \<notin> set (dict_values (lcb_hot_cache b'))" using that(1) unfolding cached_def by (metis add_is_0 count_eq_zero_iff set_mset_mset)
    ultimately show ?thesis using r that(1) by (simp add: refs_ok_def)
  qed
  obtain w' r where al: "al_allocate ?A (lcb_mem b) shapes dtypes ?f = Inr (w', r)" using ta_mem.alloc_returns [OF assms(7)] by blast
  show ?thesis
  proof (cases r)
    case (Some i)
    then have t: "try_allocate ?A shapes dtypes ?f b = (b\<lparr>lcb_mem := w'\<rparr>, Inr (Some i))" using al by (simp add: try_allocate_def)
    then have "lcb_allocate E ?A wait shapes dtypes fmt eviction False b = Some (b\<lparr>lcb_mem := w'\<rparr>, Inr (Some i))" by (simp add: lcb_allocate_def Let_def)
    moreover have "keeps_used b (b\<lparr>lcb_mem := w'\<rparr>)" by (auto simp: keeps_used_def)
    ultimately show ?thesis using new [of "b\<lparr>lcb_mem := w'\<rparr>" i] ta_mem.try_allocate_inv [OF inv assms(7) t] by auto
  next
    case None
    then have "w' = lcb_mem b" using ta_mem.alloc_full [OF assms(7)] al by blast
    then have t: "try_allocate ?A shapes dtypes ?f b = (b, Inr None)" using al None by (simp add: try_allocate_def)
    show ?thesis
    proof (cases eviction)
      case False
      then show ?thesis using t by (auto simp: lcb_allocate_def Let_def keeps_used_def)
    next
      case True
      obtain b' r where l: "allocate_loop E ?A wait shapes dtypes ?f False 0 b = Some (b', Inr r)" "keeps_used b b'"
          "case r of Some i \<Rightarrow> cached (lcb_hot_cache b') i + held i = 0 \<and> lcb_inv ?ok (held(i := 1)) b'
           | None \<Rightarrow> lcb_inv ?ok held b' \<and> (lcb_use_hot b \<longrightarrow> (\<forall>(key, i) \<in> set (lcb_hot_cache b'). \<not> lcb_can_evict b' i))"
        using ta_mem.allocate_loop_returns [OF inv assms(6,7), of wait ?f 0] by blast
      have "lcb_allocate E ?A wait shapes dtypes fmt eviction False b = Some (b', Inr r)" using t True l(1) by (simp add: lcb_allocate_def Let_def)
      then show ?thesis using l(2,3) new [of b'] by (cases r) auto
    qed
  qed
qed

text \<open>The whole buffer is asked for, so the cached object has to go.\<close>

definition sample_unused :: "(nat, nat, TensorMemoryAllocator) LocalCPUBackend" where
  "sample_unused = sample_stored\<lparr>lcb_mem := ref_count_down (al_free sample_alloc) (lcb_mem sample_stored) 0\<rparr>"

lemma sample_unused_run: "sample_run sample_unused ((\<lambda>_. 0)(0 := 0))"
  using lcb_dropped [OF sample_stored_run, of 0] by (simp add: sample_unused_def)

theorem allocate_evicts_unused_witness:
  "lcb_hot_cache sample_unused = [(1, 0)] \<and> lcb_can_evict sample_unused 0 \<and>
   (\<exists>b' r. lcb_allocate sample_env sample_alloc (\<lambda>_ b. b) (One [128]) (One ''float16'') None True False sample_unused = Some (b', Inr r) \<and>
      keeps_used sample_unused b')"
proof -
  have "lcb_hot_cache sample_unused = [(1, 0)]" "lcb_can_evict sample_unused 0" by code_simp+
  then show ?thesis
    using allocate_evicts_unused [OF insertion_list_documented plain_torch_documented _ refl sample_unused_run sample_env_items sample_sized [of 128],
        of "\<lambda>_ b. b" None True]
    by auto
qed

text \<open>
  Property C37. When a key of the current request leaves the cache before \<^verbatim>\<open>touch_cache\<close> runs, every
  call of \<^verbatim>\<open>touch_cache\<close> from then on raises \<^verbatim>\<open>KeyError\<close>, under every policy but FIFO: the list of the keys
  of the request is only emptied after the loop, so the key stays in it.
\<close>

theorem touch_cache_stuck:
  assumes "SortedList_documented S" and "Torch_documented T" and "0 < snd buffer" and "align = 2 ^ k"
    and "lcb_run (tensor_allocator S T) (sized_by T) (ta_initial S buffer align) b held" and "items_documented (pe_items E)"
    and "lcb_policy b \<noteq> FIFOCachePolicy" and "key \<in> set (lcb_keys_in_request b)" and "key \<notin> set (lcb_get_keys b)"
  shows "snd (touch_cache E (((\<lambda>b. fst (touch_cache E b)) ^^ n) b)) = Inl KeyError"
proof -
  have "lcb_run (tensor_allocator S T) (sized_by T) (ta_initial S buffer align) (((\<lambda>b. fst (touch_cache E b)) ^^ n) b) held \<and>
      stuck_on key (((\<lambda>b. fst (touch_cache E b)) ^^ n) b)"
  proof (induction n)
    case 0
    then show ?case using assms(5,7-9) by (simp add: stuck_on_def lcb_get_keys_def)
  next
    case (Suc n)
    let ?b = "((\<lambda>b. fst (touch_cache E b)) ^^ n) b"
    note r = Suc [THEN conjunct1] and s = Suc [THEN conjunct2]
    have "lcb_run (tensor_allocator S T) (sized_by T) (ta_initial S buffer align) (fst (touch_cache E ?b)) held"
      using r assms(6) by (rule lcb_touched)
    moreover have "stuck_on key (fst (touch_cache E ?b))" by (rule touch_absent [OF ta_run_inv [OF assms(1-4) r] assms(6) s, THEN conjunct2])
    ultimately show ?case by simp
  qed
  note r = this [THEN conjunct1] and s = this [THEN conjunct2]
  show ?thesis by (rule touch_absent [OF ta_run_inv [OF assms(1-4) r] assms(6) s, THEN conjunct1])
qed

text \<open>A pinned lookup, then the removal of the key.\<close>

definition sample_gone :: "(nat, nat, TensorMemoryAllocator) LocalCPUBackend" where
  "sample_gone = fst (lcb_remove sample_env sample_alloc True 1 (fst (lcb_contains 7 1 True sample_stored)))"

lemma sample_gone_run: "sample_run sample_gone ((\<lambda>_. 0)(0 := 1))"
  unfolding sample_gone_def by (intro lcb_removed lcb_looked_up sample_stored_run)

theorem touch_cache_stuck_witness: "snd (touch_cache sample_env (((\<lambda>b. fst (touch_cache sample_env b)) ^^ 2) sample_gone)) = Inl KeyError"
proof (rule touch_cache_stuck [OF insertion_list_documented plain_torch_documented _ refl sample_gone_run sample_env_items])
  have "(case lcb_policy sample_gone of FIFOCachePolicy \<Rightarrow> False | _ \<Rightarrow> True)" by code_simp
  then show "lcb_policy sample_gone \<noteq> FIFOCachePolicy" by auto
  have "lcb_keys_in_request sample_gone = [1]" "lcb_get_keys sample_gone = []" by code_simp+
  then show "1 \<in> set (lcb_keys_in_request sample_gone)" "1 \<notin> set (lcb_get_keys sample_gone)" by simp_all
qed simp

text \<open>
  Property C38. The eviction of \<^verbatim>\<open>batched_allocate\<close> looks at one layer of a chunk only. The objects of
  all other layers are freed with it although clients hold references or pins on them: such an
  object becomes invalid while its counts still say that it is in use, and the controller is not
  told of any of these evictions.
\<close>

theorem batched_eviction_frees_held:
  assumes "SortedList_documented S" and "Torch_documented T" and "0 < snd buffer" and "align = 2 ^ k"
    and "lcb_run (tensor_allocator S T) (sized_by T) (ta_initial S buffer align) b held"
    and "items_documented (pe_items E)" and "lcb_use_hot b"
    and "get_evict_candidates E (lcb_can_evict b) 1 (lcb_policy b) (lcb_hot_cache b) = Inr (p, [key])"
    and "distinct (layers key n)" and "set (layers key n) \<subseteq> set (lcb_get_keys b)"
    and "other \<in> set (layers key n)" and "map_of (lcb_hot_cache b) other = Some i" and "0 < held i"
  shows "\<exists>b'. evict_layers E (tensor_allocator S T) layers n b = (b', Inr True) \<and> lcb_sender b' = lcb_sender b \<and>
    tm_valid (mw_heap (lcb_mem b) ! i) \<and> \<not> tm_valid (mw_heap (lcb_mem b') ! i) \<and>
    ref_count_of (lcb_mem b') i = ref_count_of (lcb_mem b) i \<and> 1 < ref_count_of (lcb_mem b') i"
proof -
  note inv = ta_run_inv [OF assms(1-5)]
  note entry = inv_entry [OF inv assms(12)]
  have c: "1 < ref_count_of (lcb_mem b) i" using entry(3,4) assms(13) by linarith
  have all: "\<forall>k \<in> set (layers key n). map_of (lcb_hot_cache b) k = Some (the (map_of (lcb_hot_cache b) k))"
  proof
    fix k assume "k \<in> set (layers key n)"
    then have "map_of (lcb_hot_cache b) k \<noteq> None" using assms(10) unfolding lcb_get_keys_def map_of_eq_None_iff by auto
    then show "map_of (lcb_hot_cache b) k = Some (the (map_of (lcb_hot_cache b) k))" by simp
  qed
  from evict_layers_frees [where layers = layers and n = n and g = "\<lambda>k. the (map_of (lcb_hot_cache b) k)", OF inv assms(6-9) all] obtain b' where
    b': "evict_layers E (tensor_allocator S T) layers n b = (b', Inr True)" "lcb_sender b' = lcb_sender b"
      "tm_meta (mw_heap (lcb_mem b') ! i) = tm_meta (mw_heap (lcb_mem b) ! i)"
      "\<forall>k \<in> set (layers key n). \<not> tm_valid (mw_heap (lcb_mem b') ! the (map_of (lcb_hot_cache b) k))"
    using entry(1) by blast
  have "\<not> tm_valid (mw_heap (lcb_mem b') ! i)" using b'(4) assms(11,12) by (metis option.sel)
  then show ?thesis using b'(1-3) c entry(2) by (intro exI [of _ b']) simp
qed

text \<open>Two layers of a chunk, of which the second is held.\<close>

definition sample_layers :: "(nat, nat, TensorMemoryAllocator) LocalCPUBackend" where
  "sample_layers = fst (submit_put_task sample_env 2 1 (fst (try_allocate sample_alloc (One [8]) (One ''float16'') KV_T2D sample_unused)))"

lemma sample_layers_run: "sample_run sample_layers ((\<lambda>_. 0)(0 := 0, 1 := 1))"
proof -
  have "snd (try_allocate sample_alloc (One [8]) (One ''float16'') KV_T2D sample_unused) = Inr (Some 1)" by code_simp
  then have "sample_run (fst (try_allocate sample_alloc (One [8]) (One ''float16'') KV_T2D sample_unused)) ((\<lambda>_. 0)(0 := 0, 1 := 1))"
    by (intro lcb_allocated [OF sample_unused_run, where shapes = "One [8]" and dtypes = "One ''float16''" and fmt = KV_T2D]) (simp_all add: sample_sized prod_eq_iff)
  then show ?thesis unfolding sample_layers_def by (rule lcb_put) (simp_all add: sample_env_items)
qed

theorem batched_eviction_frees_held_witness:
  "\<exists>b'. evict_layers sample_env sample_alloc (\<lambda>k n. [1, 2]) 2 sample_layers = (b', Inr True) \<and>
     \<not> tm_valid (mw_heap (lcb_mem b') ! 1) \<and> 1 < ref_count_of (lcb_mem b') 1"
proof -
  have c: "lcb_use_hot sample_layers" "lcb_get_keys sample_layers = [1, 2]" "map_of (lcb_hot_cache sample_layers) 2 = Some 1" by code_simp+
  have "(case get_evict_candidates sample_env (lcb_can_evict sample_layers) 1 (lcb_policy sample_layers) (lcb_hot_cache sample_layers) of
      Inr (p, ks) \<Rightarrow> ks = [1] | Inl e \<Rightarrow> False)" by code_simp
  then obtain p where e: "get_evict_candidates sample_env (lcb_can_evict sample_layers) 1 (lcb_policy sample_layers) (lcb_hot_cache sample_layers) = Inr (p, [1])"
    by (auto split: sum.splits)
  show ?thesis
    using batched_eviction_frees_held [where layers = "\<lambda>k n. [1, 2]" and n = 2 and other = 2 and i = 1,
        OF insertion_list_documented plain_torch_documented _ refl sample_layers_run sample_env_items c(1) e] c(2,3)
    by auto
qed

end
