(* ===== verification/Storage_Tiers.thy ===== *)
theory Storage_Tiers
  imports Py_Actions Local_CPU
begin

text \<open>
  The storage manager of the in-process engine, \<^verbatim>\<open>lmcache/v1/storage_backend/storage_manager.py\<close>, with the event manager of
  \<^verbatim>\<open>lmcache/v1/event_manager.py\<close> and the default methods of \<^verbatim>\<open>lmcache/v1/storage_backend/abstract_backend.py\<close>.

  The manager works on backends through their interface, so a backend is a record of its methods, on a
  world \<open>'w\<close> that holds the state of all backends and of the memory. Memory objects are references of
  type \<open>'m\<close>. \<^verbatim>\<open>LocalCPUBackend\<close>, which every configuration has, is the instance. The event loop runs in a
  thread of its own: looking up the tiers, loading them and the final callback are separate steps,
  with other operations between them. Transfer specifications, CUDA streams, metrics and log lines are
  left out.

  Shown: a lookup over the tiers finds consecutive pieces of the keys, each in its tier; the weighted
  semaphore keeps its budget, except for a budget of one; and three ways in which objects are
  filed wrongly or lost.
\<close>

section \<open>Backends\<close>

record ('k, 'm, 'w) AllocatorBackend =
  ab_cname :: string
  ab_contains :: "'k \<Rightarrow> ('w, bool) act"
  ab_allocate :: "torch_size one_or_list \<Rightarrow> torch_dtype one_or_list \<Rightarrow> MemoryFormat option \<Rightarrow> bool \<Rightarrow> bool \<Rightarrow> ('w, 'm option) act"
  ab_batched_allocate :: "torch_size one_or_list \<Rightarrow> torch_dtype one_or_list \<Rightarrow> nat \<Rightarrow> MemoryFormat option \<Rightarrow> bool \<Rightarrow> bool \<Rightarrow> ('w, 'm list option) act"
  ab_memcheck :: "'w \<Rightarrow> bool"

text \<open>\<open>sb_clear\<close> is missing when the class has no method \<^verbatim>\<open>clear\<close>; \<open>sb_self\<close> is the backend as an allocator, if it is one.\<close>

record ('k, 'm, 'w) StorageBackend =
  sb_contains :: "'k \<Rightarrow> bool \<Rightarrow> ('w, bool) act"
  sb_batched_contains :: "'k list \<Rightarrow> bool \<Rightarrow> ('w, nat) act"
  sb_batched_async_contains :: "'k list \<Rightarrow> bool \<Rightarrow> ('w, nat) act"
  sb_get_blocking :: "'k \<Rightarrow> ('w, 'm option) act"
  sb_batched_get_blocking :: "'k list \<Rightarrow> ('w, 'm option list) act"
  sb_batched_get_non_blocking :: "'k list \<Rightarrow> ('w, 'm list) act"
  sb_submit_put_task :: "'k \<Rightarrow> 'm \<Rightarrow> ('w, unit) act"
  sb_batched_submit_put_task :: "'k list \<Rightarrow> 'm list \<Rightarrow> ('w, unit) act"
  sb_remove :: "'k \<Rightarrow> ('w, int) act"
  sb_batched_remove :: "'k list \<Rightarrow> ('w, int) act"
  sb_unpin :: "'k \<Rightarrow> ('w, bool) act"
  sb_touch_cache :: "('w, unit) act"
  sb_clear :: "('w, int) act option"
  sb_allocator_backend :: "('k, 'm, 'w) AllocatorBackend"
  sb_self :: "('k, 'm, 'w) AllocatorBackend option"

text \<open>The methods that the interface implements itself.\<close>

definition default_batched_get_blocking :: "('k \<Rightarrow> ('w, 'm option) act) \<Rightarrow> 'k list \<Rightarrow> ('w, 'm option list) act" where
  "default_batched_get_blocking get_blocking keys = map_act get_blocking keys"

definition default_batched_contains :: "('k \<Rightarrow> bool \<Rightarrow> ('w, bool) act) \<Rightarrow> 'k list \<Rightarrow> bool \<Rightarrow> ('w, nat) act" where
  "default_batched_contains contains keys pin = count_act (\<lambda>key. contains key pin) keys"

text \<open>The methods of memory objects that the manager calls.\<close>

record ('m, 'w) MemoryObjs =
  mo_shape :: "'w \<Rightarrow> 'm \<Rightarrow> torch_size"
  mo_dtype :: "'w \<Rightarrow> 'm \<Rightarrow> torch_dtype"
  mo_fmt :: "'w \<Rightarrow> 'm \<Rightarrow> MemoryFormat"
  mo_has_tensor :: "'w \<Rightarrow> 'm \<Rightarrow> bool"
  mo_copy :: "'m \<Rightarrow> 'm \<Rightarrow> 'w \<Rightarrow> 'w"
  mo_size :: "'w \<Rightarrow> 'm \<Rightarrow> int"
  mo_ref_count_down :: "'m \<Rightarrow> 'w \<Rightarrow> 'w"

section \<open>Copying objects to another allocator\<close>

fun copy_loop :: "('m, 'w) MemoryObjs \<Rightarrow> ('k, 'm, 'w) AllocatorBackend \<Rightarrow> ('k \<times> 'm) list \<Rightarrow> 'm list \<Rightarrow> ('w, 'm list) act" where
  "copy_loop M ab [] allocated = return_act allocated"
| "copy_loop M ab ((key, src) # rest) allocated =
     bind_act (ab_contains ab key) (\<lambda>found.
       if found then copy_loop M ab rest allocated
       else bind_act (\<lambda>w. ab_allocate ab (One (mo_shape M w src)) (One (mo_dtype M w src)) (Some (mo_fmt M w src)) True False w) (\<lambda>r.
         case r of
           None \<Rightarrow> return_act allocated
         | Some m \<Rightarrow>
             bind_act (get_act (\<lambda>w. mo_has_tensor M w m)) (\<lambda>t.
               if \<not> t then bind_act (upd_act (mo_ref_count_down M m)) (\<lambda>_. return_act allocated)
               else bind_act (upd_act (mo_copy M m src)) (\<lambda>_. copy_loop M ab rest (allocated @ [m])))))"

definition allocate_and_copy_objects ::
  "('m, 'w) MemoryObjs \<Rightarrow> ('k, 'm, 'w) AllocatorBackend \<Rightarrow> 'k list \<Rightarrow> 'm list \<Rightarrow> ('w, 'k list \<times> 'm list) act"
where
  "allocate_and_copy_objects M ab keys srcs =
     bind_act (copy_loop M ab (zip keys srcs) []) (\<lambda>allocated. return_act (take (length allocated) keys, allocated))"

section \<open>The weighted semaphore\<close>

record WeightedSemaphore =
  ws_concurrent_budget_cap :: int
  ws_chunk_budget_cap :: int
  ws_current_chunks :: int

definition WeightedSemaphore_init :: "int \<Rightarrow> WeightedSemaphore" where
  "WeightedSemaphore_init chunk_budget =
     \<lparr>ws_concurrent_budget_cap = chunk_budget div 2, ws_chunk_budget_cap = chunk_budget, ws_current_chunks = chunk_budget div 2\<rparr>"

text \<open>\<open>Inr None\<close> means that the caller has to wait.\<close>

definition ws_acquire :: "int \<Rightarrow> WeightedSemaphore \<Rightarrow> WeightedSemaphore option result" where
  "ws_acquire n s =
     (if n > ws_chunk_budget_cap s then Inl ValueError
      else if n \<le> ws_concurrent_budget_cap s
      then (if ws_current_chunks s \<ge> n then Inr (Some (s\<lparr>ws_current_chunks := ws_current_chunks s - n\<rparr>)) else Inr None)
      else (if ws_current_chunks s = ws_concurrent_budget_cap s then Inr (Some (s\<lparr>ws_current_chunks := 0\<rparr>)) else Inr None))"

definition ws_release :: "int \<Rightarrow> WeightedSemaphore \<Rightarrow> WeightedSemaphore" where
  "ws_release n s =
     (if n \<le> ws_concurrent_budget_cap s then s\<lparr>ws_current_chunks := ws_current_chunks s + n\<rparr>
      else s\<lparr>ws_current_chunks := ws_concurrent_budget_cap s\<rparr>)"

section \<open>Events\<close>

datatype EventStatus = ONGOING | DONE | NOT_FOUND

text \<open>The events of the only type, \<^verbatim>\<open>LOADING\<close>, by status.\<close>

type_synonym 'f EventManager = "EventStatus \<Rightarrow> (string, 'f) pydict"

definition EventManager_init :: "'f EventManager" where
  "EventManager_init = (\<lambda>_. [])"

definition add_event :: "string \<Rightarrow> 'f \<Rightarrow> 'f EventManager \<Rightarrow> 'f EventManager" where
  "add_event i f em = em(ONGOING := AList.update i f (em ONGOING))"

definition pop_event :: "string \<Rightarrow> 'f EventManager \<Rightarrow> ('f EventManager \<times> 'f) result" where
  "pop_event i em = (case map_of (em DONE) i of None \<Rightarrow> Inl AssertionError | Some f \<Rightarrow> Inr (em(DONE := AList.delete i (em DONE)), f))"

definition get_event_status :: "string \<Rightarrow> 'f EventManager \<Rightarrow> EventStatus" where
  "get_event_status i em =
     (if dict_has (em ONGOING) i then ONGOING else if dict_has (em DONE) i then DONE else NOT_FOUND)"

definition update_event_status :: "string \<Rightarrow> EventStatus \<Rightarrow> 'f EventManager \<Rightarrow> 'f EventManager result" where
  "update_event_status i status em =
     (case find (\<lambda>s. dict_has (em s) i) [ONGOING, DONE, NOT_FOUND] of
        None \<Rightarrow> Inl KeyError
      | Some s \<Rightarrow>
          let em' = em(s := AList.delete i (em s))
          in Inr (em'(status := AList.update i (the (map_of (em s) i)) (em' status))))"

definition get_events_count_by_status :: "EventStatus \<Rightarrow> 'f EventManager \<Rightarrow> nat" where
  "get_events_count_by_status status em = length (em status)"

section \<open>The manager\<close>

text \<open>
  What stays fixed: the backends in their order, the backend that allocates (none for the role
  scheduler), the flag \<^verbatim>\<open>local_cpu\<close> of the configuration and whether the PD backend sends.
\<close>

record ('k, 'm, 'w) StorageConfig =
  sc_backends :: "(string, ('k, 'm, 'w) StorageBackend) pydict"
  sc_allocator_backend :: "('k, 'm, 'w) AllocatorBackend option"
  sc_mem :: "('m, 'w) MemoryObjs"
  sc_local_cpu :: bool
  sc_pd_sender :: bool

text \<open>
  A finished load: per tier, the pairs of key and object that were retrieved. The future of a loading
  event holds it, or the exception that ended the load.
\<close>

type_synonym ('k, 'm) loaded = "('k \<times> 'm) list list"

record ('k, 'm, 'w) sm_state =
  sm_freeze :: bool
  sm_bypassed_backends :: "string list"
  sm_events :: "('k, 'm) loaded result option EventManager"
  sm_responses :: "(string \<times> nat) list"
  sm_world :: 'w

definition on_world :: "('w, 'a) act \<Rightarrow> (('k, 'm, 'w, 'z) sm_state_scheme, 'a) act" where
  "on_world m = (\<lambda>s. case m (sm_world s) of None \<Rightarrow> None | Some (w, r) \<Rightarrow> Some (s\<lparr>sm_world := w\<rparr>, r))"

definition set_freeze :: "bool \<Rightarrow> ('k, 'm, 'w, 'z) sm_state_scheme \<Rightarrow> ('k, 'm, 'w, 'z) sm_state_scheme" where
  "set_freeze enabled s = s\<lparr>sm_freeze := enabled\<rparr>"

definition set_backend_bypass :: "string \<Rightarrow> bool \<Rightarrow> ('k, 'm, 'w, 'z) sm_state_scheme \<Rightarrow> ('k, 'm, 'w, 'z) sm_state_scheme" where
  "set_backend_bypass name bypassed s =
     (if bypassed then s\<lparr>sm_bypassed_backends := List.insert name (sm_bypassed_backends s)\<rparr>
      else s\<lparr>sm_bypassed_backends := removeAll name (sm_bypassed_backends s)\<rparr>)"

text \<open>An empty search range counts as none, and so does an empty location.\<close>

definition get_active_storage_backends ::
  "('k, 'm, 'w) StorageConfig \<Rightarrow> string option \<Rightarrow> string list option \<Rightarrow> ('k, 'm, 'w, 'z) sm_state_scheme \<Rightarrow> (string \<times> ('k, 'm, 'w) StorageBackend) list"
where
  "get_active_storage_backends C location search_range s =
     filter (\<lambda>(name, _).
         \<not> (sm_freeze s \<and> name \<noteq> ''LocalCPUBackend'') \<and> name \<notin> set (sm_bypassed_backends s) \<and>
         (case location of None \<Rightarrow> True | Some l \<Rightarrow> l = [] \<or> name = l) \<and>
         (case search_range of None \<Rightarrow> True | Some r \<Rightarrow> r = [] \<or> name \<in> set r))
       (sc_backends C)"

definition get_non_allocator_backends :: "('k, 'm, 'w) StorageConfig \<Rightarrow> string list" where
  "get_non_allocator_backends C =
     filter (\<lambda>name. \<not> (name = ''LocalCPUBackend'' \<and> \<not> sc_local_cpu C) \<and> \<not> (name = ''PDBackend'' \<and> sc_pd_sender C)) (dict_keys (sc_backends C))"

definition SM_allocate ::
  "('k, 'm, 'w) StorageConfig \<Rightarrow> torch_size one_or_list \<Rightarrow> torch_dtype one_or_list \<Rightarrow> MemoryFormat option \<Rightarrow> bool \<Rightarrow> bool \<Rightarrow>
   (('k, 'm, 'w, 'z) sm_state_scheme, 'm option) act"
where
  "SM_allocate C shapes dtypes fmt eviction busy_loop =
     (case sc_allocator_backend C of
        None \<Rightarrow> raise_act AssertionError
      | Some ab \<Rightarrow> on_world (ab_allocate ab shapes dtypes fmt eviction busy_loop))"

definition SM_batched_allocate ::
  "('k, 'm, 'w) StorageConfig \<Rightarrow> torch_size one_or_list \<Rightarrow> torch_dtype one_or_list \<Rightarrow> nat \<Rightarrow> MemoryFormat option \<Rightarrow> bool \<Rightarrow> bool \<Rightarrow>
   (('k, 'm, 'w, 'z) sm_state_scheme, 'm list option) act"
where
  "SM_batched_allocate C shapes dtypes batch_size fmt eviction busy_loop =
     (case sc_allocator_backend C of
        None \<Rightarrow> raise_act RuntimeError
      | Some ab \<Rightarrow> on_world (ab_batched_allocate ab shapes dtypes batch_size fmt eviction busy_loop))"

section \<open>Putting and getting\<close>

text \<open>The loop over the backends; \<open>obj_dict\<close> maps the class names of allocators to keys and objects.\<close>

fun put_backends ::
  "('m, 'w) MemoryObjs \<Rightarrow> 'k list \<Rightarrow> 'm list \<Rightarrow> ('k, 'm, 'w) StorageBackend list \<Rightarrow> (string, 'k list \<times> 'm list) pydict \<Rightarrow>
   ('w, (string, 'k list \<times> 'm list) pydict) act"
where
  "put_backends M keys objs [] obj_dict = return_act obj_dict"
| "put_backends M keys objs (b # bs) obj_dict =
     (let ab = sb_allocator_backend b
      in bind_act (case map_of obj_dict (ab_cname ab) of
                     Some _ \<Rightarrow> return_act obj_dict
                   | None \<Rightarrow> bind_act (allocate_and_copy_objects M ab keys objs) (\<lambda>ko. return_act (AList.update (ab_cname ab) ko obj_dict))) (\<lambda>od.
         case map_of od (ab_cname ab) of
           None \<Rightarrow> raise_act KeyError
         | Some (ks, os) \<Rightarrow> bind_act (sb_batched_submit_put_task b ks os) (\<lambda>_. put_backends M keys objs bs od)))"

definition SM_batched_put :: "('k, 'm, 'w) StorageConfig \<Rightarrow> 'k list \<Rightarrow> 'm list \<Rightarrow> string option \<Rightarrow> (('k, 'm, 'w, 'z) sm_state_scheme, unit) act" where
  "SM_batched_put C keys objs location =
     (case sc_allocator_backend C of
        None \<Rightarrow> raise_act RuntimeError
      | Some ab \<Rightarrow>
          bind_act (get_act (\<lambda>s. filter (\<lambda>(name, _). (case location of None \<Rightarrow> True | Some l \<Rightarrow> l = [] \<or> name = l) \<and> name \<notin> set (sm_bypassed_backends s))
                                   (sc_backends C))) (\<lambda>bs.
          bind_act (on_world (put_backends (sc_mem C) keys objs (map snd bs) [(ab_cname ab, (keys, objs))])) (\<lambda>od.
            for_act (\<lambda>m. on_world (upd_act (mo_ref_count_down (sc_mem C) m))) (concat (map (snd \<circ> snd) od)))))"

text \<open>Objects of other backends are also put into the CPU cache.\<close>

definition write_back :: "('k, 'm, 'w) StorageConfig \<Rightarrow> string \<Rightarrow> ('k, 'm, 'w) StorageBackend option" where
  "write_back C name = (if name \<in> {''LocalCPUBackend'', ''PDBackend''} then None else map_of (sc_backends C) ''LocalCPUBackend'')"

fun get_first :: "('k, 'm, 'w) StorageConfig \<Rightarrow> 'k \<Rightarrow> (string \<times> ('k, 'm, 'w) StorageBackend) list \<Rightarrow> ('w, 'm option) act" where
  "get_first C key [] = return_act None"
| "get_first C key ((name, b) # bs) =
     bind_act (sb_get_blocking b key) (\<lambda>r.
       case r of
         None \<Rightarrow> get_first C key bs
       | Some m \<Rightarrow>
           (case write_back C name of
              None \<Rightarrow> return_act (Some m)
            | Some cpu \<Rightarrow> bind_act (sb_submit_put_task cpu key m) (\<lambda>_. return_act (Some m))))"

definition SM_get :: "('k, 'm, 'w) StorageConfig \<Rightarrow> 'k \<Rightarrow> string option \<Rightarrow> (('k, 'm, 'w, 'z) sm_state_scheme, 'm option) act" where
  "SM_get C key location = (\<lambda>s. on_world (get_first C key (get_active_storage_backends C location None s)) s)"

text \<open>A non-empty list of results counts as success, even when all are missing.\<close>

fun batched_get_first :: "('k, 'm, 'w) StorageConfig \<Rightarrow> 'k list \<Rightarrow> (string \<times> ('k, 'm, 'w) StorageBackend) list \<Rightarrow> ('w, 'm option list) act" where
  "batched_get_first C keys [] = return_act (replicate (length keys) None)"
| "batched_get_first C keys ((name, b) # bs) =
     bind_act (sb_batched_get_blocking b keys) (\<lambda>rs.
       if rs = [] then batched_get_first C keys bs
       else (case write_back C name of
               None \<Rightarrow> return_act rs
             | Some cpu \<Rightarrow>
                 if None \<in> set rs then return_act rs
                 else bind_act (sb_batched_submit_put_task cpu keys (map the rs)) (\<lambda>_. return_act rs)))"

definition SM_batched_get :: "('k, 'm, 'w) StorageConfig \<Rightarrow> 'k list \<Rightarrow> string option \<Rightarrow> (('k, 'm, 'w, 'z) sm_state_scheme, 'm option list) act" where
  "SM_batched_get C keys location = (\<lambda>s. on_world (batched_get_first C keys (get_active_storage_backends C location None s)) s)"

text \<open>One step of the generator: the objects of one layer.\<close>

definition SM_layerwise_batched_get :: "('k, 'm, 'w) StorageConfig \<Rightarrow> 'k list \<Rightarrow> string option \<Rightarrow> (('k, 'm, 'w, 'z) sm_state_scheme, 'm list) act" where
  "SM_layerwise_batched_get C keys_multi_chunk location =
     (case map_of (sc_backends C) (case location of None \<Rightarrow> ''LocalCPUBackend'' | Some l \<Rightarrow> l) of
        None \<Rightarrow> raise_act KeyError
      | Some b \<Rightarrow> on_world (sb_batched_get_non_blocking b keys_multi_chunk))"

section \<open>Lookups\<close>

definition pin_in_backend :: "bool \<Rightarrow> string \<Rightarrow> bool" where
  "pin_in_backend pin name = (if name \<noteq> ''PDBackend'' then pin else False)"

fun contains_first :: "'k \<Rightarrow> bool \<Rightarrow> (string \<times> ('k, 'm, 'w) StorageBackend) list \<Rightarrow> ('w, string option) act" where
  "contains_first key pin [] = return_act None"
| "contains_first key pin ((name, b) # bs) =
     bind_act (sb_contains b key (pin_in_backend pin name)) (\<lambda>found. if found then return_act (Some name) else contains_first key pin bs)"

definition SM_contains ::
  "('k, 'm, 'w) StorageConfig \<Rightarrow> 'k \<Rightarrow> string list option \<Rightarrow> bool \<Rightarrow> (('k, 'm, 'w, 'z) sm_state_scheme, string option) act"
where
  "SM_contains C key search_range pin = (\<lambda>s. on_world (contains_first key pin (get_active_storage_backends C None search_range s)) s)"

text \<open>
  The loop of \<^verbatim>\<open>batched_contains\<close> and \<^verbatim>\<open>get_block_mapping\<close>: each backend takes a prefix of what is left. \<open>items\<close> are the keys, or
  chunks with the key in front. The loop stops when all are found.
\<close>

fun take_prefixes :: "('c \<Rightarrow> 'k) \<Rightarrow> bool \<Rightarrow> 'c list \<Rightarrow> (string \<times> ('k, 'm, 'w) StorageBackend) list \<Rightarrow> ('w, (string \<times> 'c list) list) act" where
  "take_prefixes key_of_item pin items [] = return_act []"
| "take_prefixes key_of_item pin items ((name, b) # bs) =
     bind_act (sb_batched_contains b (map key_of_item items) (pin_in_backend pin name)) (\<lambda>n.
       if n = 0 then take_prefixes key_of_item pin items bs
       else if n = length items then return_act [(name, take n items)]
       else bind_act (take_prefixes key_of_item pin (drop n items) bs) (\<lambda>ms. return_act ((name, take n items) # ms)))"

definition SM_batched_contains ::
  "('k, 'm, 'w) StorageConfig \<Rightarrow> 'k list \<Rightarrow> string list option \<Rightarrow> bool \<Rightarrow> (('k, 'm, 'w, 'z) sm_state_scheme, nat \<times> (string, 'k list) pydict) act"
where
  "SM_batched_contains C keys search_range pin =
     (\<lambda>s. bind_act (on_world (take_prefixes id pin keys (get_active_storage_backends C None search_range s)))
            (\<lambda>ms. return_act (sum_list (map (\<lambda>m. length (snd m)) ms), ms)) s)"

definition SM_get_block_mapping ::
  "('k, 'm, 'w) StorageConfig \<Rightarrow> ('k \<times> nat \<times> nat) list \<Rightarrow> (('k, 'm, 'w, 'z) sm_state_scheme, (string, ('k \<times> nat \<times> nat) list) pydict) act"
where
  "SM_get_block_mapping C chunk_infos =
     (\<lambda>s. on_world (take_prefixes fst False chunk_infos (get_active_storage_backends C None None s)) s)"

definition SM_touch_cache :: "('k, 'm, 'w) StorageConfig \<Rightarrow> (('k, 'm, 'w, 'z) sm_state_scheme, unit) act" where
  "SM_touch_cache C =
     for_act (\<lambda>(name, b). if name \<in> {''LocalCPUBackend'', ''LocalDiskBackend''} then on_world (sb_touch_cache b) else return_act ()) (sc_backends C)"

section \<open>Removal\<close>

definition at_locations :: "('k, 'm, 'w) StorageConfig \<Rightarrow> string list option \<Rightarrow> ('k, 'm, 'w) StorageBackend list" where
  "at_locations C locations = map snd (filter (\<lambda>(name, _). case locations of None \<Rightarrow> True | Some ls \<Rightarrow> name \<in> set ls) (sc_backends C))"

definition SM_remove :: "('k, 'm, 'w) StorageConfig \<Rightarrow> 'k \<Rightarrow> string list option \<Rightarrow> (('k, 'm, 'w, 'z) sm_state_scheme, int) act" where
  "SM_remove C key locations = sum_act (\<lambda>b. on_world (sb_remove b key)) (at_locations C locations)"

definition SM_batched_remove :: "('k, 'm, 'w) StorageConfig \<Rightarrow> 'k list \<Rightarrow> string list option \<Rightarrow> (('k, 'm, 'w, 'z) sm_state_scheme, int) act" where
  "SM_batched_remove C keys locations = sum_act (\<lambda>b. on_world (sb_batched_remove b keys)) (at_locations C locations)"

definition SM_batched_unpin :: "('k, 'm, 'w) StorageConfig \<Rightarrow> 'k list \<Rightarrow> string list option \<Rightarrow> (('k, 'm, 'w, 'z) sm_state_scheme, unit) act" where
  "SM_batched_unpin C keys locations =
     for_act (\<lambda>b. for_act (\<lambda>key. bind_act (on_world (sb_unpin b key)) (\<lambda>_. return_act ())) keys) (at_locations C locations)"

definition SM_clear :: "('k, 'm, 'w) StorageConfig \<Rightarrow> string list option \<Rightarrow> (('k, 'm, 'w, 'z) sm_state_scheme, int) act" where
  "SM_clear C locations = sum_act (\<lambda>b. case sb_clear b of None \<Rightarrow> return_act 0 | Some m \<Rightarrow> on_world m) (at_locations C locations)"

definition SM_memcheck :: "('k, 'm, 'w) StorageConfig \<Rightarrow> ('k, 'm, 'w, 'z) sm_state_scheme \<Rightarrow> bool" where
  "SM_memcheck C s = list_all (\<lambda>(_, b). case sb_self b of None \<Rightarrow> True | Some ab \<Rightarrow> ab_memcheck ab (sm_world s)) (sc_backends C)"

section \<open>Asynchronous loading\<close>

fun lookup_tiers :: "bool \<Rightarrow> 'k list \<Rightarrow> (string \<times> ('k, 'm, 'w) StorageBackend) list \<Rightarrow> ('w, (('k, 'm, 'w) StorageBackend \<times> 'k list) list) act" where
  "lookup_tiers pin keys [] = return_act []"
| "lookup_tiers pin keys ((name, b) # bs) =
     bind_act (sb_batched_async_contains b keys pin) (\<lambda>n.
       if n = 0 then lookup_tiers pin keys bs
       else if n = length keys then return_act [(b, take n keys)]
       else bind_act (lookup_tiers pin (drop n keys) bs) (\<lambda>ts. return_act ((b, take n keys) # ts)))"

text \<open>
  The coroutine up to the creation of the loading task: without a hit it answers at once, otherwise
  the event is registered. The result is what the task has to load. The serializer, which exists when
  asynchronous loading is enabled, is taken to be there.
\<close>

definition SM_async_lookup_and_prefetch ::
  "('k, 'm, 'w) StorageConfig \<Rightarrow> string \<Rightarrow> 'k list \<Rightarrow> string list option \<Rightarrow> bool \<Rightarrow>
   (('k, 'm, 'w, 'z) sm_state_scheme, (('k, 'm, 'w) StorageBackend \<times> 'k list) list) act"
where
  "SM_async_lookup_and_prefetch C lookup_id keys search_range pin =
     (\<lambda>s. bind_act (on_world (lookup_tiers pin keys (get_active_storage_backends C None search_range s))) (\<lambda>tiers.
            if tiers = [] then bind_act (upd_act (\<lambda>s. s\<lparr>sm_responses := sm_responses s @ [(lookup_id, 0)]\<rparr>)) (\<lambda>_. return_act [])
            else bind_act (upd_act (\<lambda>s. s\<lparr>sm_events := add_event lookup_id None (sm_events s)\<rparr>)) (\<lambda>_. return_act tiers)) s)"

text \<open>The loading task: the tiers are loaded one after the other, each with its keys.\<close>

definition load_tiers :: "(('k, 'm, 'w) StorageBackend \<times> 'k list) list \<Rightarrow> ('w, ('k, 'm) loaded) act" where
  "load_tiers tiers = map_act (\<lambda>(b, ks). bind_act (sb_batched_get_non_blocking b ks) (\<lambda>ms. return_act (zip ks ms))) tiers"

text \<open>
  The number of chunks that count. A tier with fewer chunks than expected is the last one, and the
  rest is to be released: but the elements of a tier are pairs, which have no method \<^verbatim>\<open>ref_count_down\<close>.
\<close>

fun retrieved_chunks :: "nat list \<Rightarrow> ('k, 'm) loaded \<Rightarrow> nat \<Rightarrow> nat result" where
  "retrieved_chunks expected [] n = Inr n"
| "retrieved_chunks [] (t # ts) n = Inl IndexError"
| "retrieved_chunks (e # es) (t # ts) n =
     (if length t < e then (if concat ts = [] then Inr (n + length t) else Inl AttributeError) else retrieved_chunks es ts (n + length t))"

definition prefetch_all_done_callback ::
  "string \<Rightarrow> nat list \<Rightarrow> nat list \<Rightarrow> ('k, 'm) loaded result \<Rightarrow> (('k, 'm, 'w, 'z) sm_state_scheme, unit) act"
where
  "prefetch_all_done_callback lookup_id cum_chunk_lengths_total tier_expected_chunks res =
     (\<lambda>s. case update_event_status lookup_id DONE (sm_events s) of
            Inl e \<Rightarrow> Some (s, Inl e)
          | Inr em \<Rightarrow>
              let s' = s\<lparr>sm_events := em(DONE := AList.update lookup_id (Some res) (em DONE))\<rparr>
              in case bind_result res (\<lambda>ts. bind_result (retrieved_chunks tier_expected_chunks ts 0) (\<lambda>n. py_nth cum_chunk_lengths_total (int n))) of
                   Inl e \<Rightarrow> Some (s', Inl e)
                 | Inr retrieved_length \<Rightarrow> Some (s'\<lparr>sm_responses := sm_responses s' @ [(lookup_id, retrieved_length)]\<rparr>, Inr ()))"

section \<open>The CPU cache as a backend\<close>

text \<open>
  \<open>now\<close> is the time of pins, \<open>layers\<close> splits a key into its layers, \<open>check\<close> is \<^verbatim>\<open>memcheck\<close> of the allocator. The contents
  of memory are not part of this world, so copying changes nothing in it.
\<close>

definition local_cpu_allocator ::
  "('k, 'h) policy_env \<Rightarrow> 'a MemoryAllocator \<Rightarrow> (nat \<Rightarrow> ('k, 'h, 'a) LocalCPUBackend \<Rightarrow> ('k, 'h, 'a) LocalCPUBackend) \<Rightarrow> ('k \<Rightarrow> nat \<Rightarrow> 'k list) \<Rightarrow>
   ('a \<Rightarrow> bool) \<Rightarrow> int \<Rightarrow> ('k, mem_id, ('k, 'h, 'a) LocalCPUBackend) AllocatorBackend"
where
  "local_cpu_allocator E A wait layers check now =
     \<lparr>ab_cname = ''LocalCPUBackend'',
      ab_contains = (\<lambda>key. total_act (lcb_contains now key False)),
      ab_allocate = lcb_allocate E A wait,
      ab_batched_allocate = lcb_batched_allocate E A layers wait,
      ab_memcheck = (\<lambda>b. check (mw_alloc (lcb_mem b)))\<rparr>"

definition local_cpu_backend ::
  "('k, 'h) policy_env \<Rightarrow> 'a MemoryAllocator \<Rightarrow> (nat \<Rightarrow> ('k, 'h, 'a) LocalCPUBackend \<Rightarrow> ('k, 'h, 'a) LocalCPUBackend) \<Rightarrow> ('k \<Rightarrow> nat \<Rightarrow> 'k list) \<Rightarrow>
   ('a \<Rightarrow> bool) \<Rightarrow> int \<Rightarrow> ('k, mem_id, ('k, 'h, 'a) LocalCPUBackend) StorageBackend"
where
  "local_cpu_backend E A wait layers check now =
     (let ab = local_cpu_allocator E A wait layers check now
      in \<lparr>sb_contains = (\<lambda>key pin. total_act (lcb_contains now key pin)),
          sb_batched_contains = default_batched_contains (\<lambda>key pin. total_act (lcb_contains now key pin)),
          sb_batched_async_contains = (\<lambda>keys pin. total_act (lcb_batched_async_contains now keys pin)),
          sb_get_blocking = (\<lambda>key. total_act (lcb_get_blocking key)),
          sb_batched_get_blocking = default_batched_get_blocking (\<lambda>key. total_act (lcb_get_blocking key)),
          sb_batched_get_non_blocking = (\<lambda>keys b. Some (lcb_batched_get_non_blocking keys b)),
          sb_submit_put_task = (\<lambda>key m. upd_act (\<lambda>b. fst (submit_put_task E key m b))),
          sb_batched_submit_put_task = (\<lambda>keys ms. upd_act (batched_submit_put_task E keys ms)),
          sb_remove = (\<lambda>key b. Some (apsnd (\<lambda>r. bind_result r (\<lambda>x. Inr (of_bool x))) (lcb_remove E A True key b))),
          sb_batched_remove = (\<lambda>keys b. Some (apsnd (\<lambda>r. bind_result r (\<lambda>n. Inr (int n))) (lcb_batched_remove E A True keys b))),
          sb_unpin = (\<lambda>key. total_act (lcb_unpin A key)),
          sb_touch_cache = (\<lambda>b. Some (touch_cache E b)),
          sb_clear = Some (\<lambda>b. Some (lcb_clear E A b)),
          sb_allocator_backend = ab, sb_self = Some ab\<rparr>)"

definition local_mem :: "'a MemoryAllocator \<Rightarrow> (mem_id, ('k, 'h, 'a) LocalCPUBackend) MemoryObjs" where
  "local_mem A =
     \<lparr>mo_shape = (\<lambda>b m. md_shape (tm_meta (mw_heap (lcb_mem b) ! m))),
      mo_dtype = (\<lambda>b m. the (md_dtype (tm_meta (mw_heap (lcb_mem b) ! m)))),
      mo_fmt = (\<lambda>b m. md_fmt (tm_meta (mw_heap (lcb_mem b) ! m))),
      mo_has_tensor = (\<lambda>b m. tm_valid (mw_heap (lcb_mem b) ! m)),
      mo_copy = (\<lambda>_ _ b. b),
      mo_size = (\<lambda>b m. TensorMemoryObj_get_size (mw_heap (lcb_mem b) ! m)),
      mo_ref_count_down = (\<lambda>m b. b\<lparr>lcb_mem := ref_count_down (al_free A) (lcb_mem b) m\<rparr>)\<rparr>"

section \<open>Lookups over the tiers\<close>

text \<open>What a tier answers is never more than it was asked.\<close>

lemma count_act_le: "count_act f xs w = Some (w', Inr n) \<Longrightarrow> n \<le> length xs"
proof (induction xs arbitrary: w w' n)
  case (Cons x xs)
  from Cons.prems have "bind_act (f x) (\<lambda>b. if b then bind_act (count_act f xs) (\<lambda>n. return_act (n + 1)) else return_act 0) w = Some (w', Inr n)" by simp
  then show ?case
  proof (cases rule: bind_SomeE)
    case (ok s' b)
    show ?thesis
    proof (cases b)
      case True
      with ok(2) have "bind_act (count_act f xs) (\<lambda>n. return_act (n + 1)) s' = Some (w', Inr n)" by simp
      then show ?thesis
      proof (cases rule: bind_SomeE)
        case (ok s'' m)
        then show ?thesis using Cons.IH [OF ok(1)] by (simp add: act_simps)
      qed simp
    qed (use ok in \<open>simp add: act_simps\<close>)
  qed simp
qed (simp add: act_simps)

lemma take_prefixes_concat:
  assumes "take_prefixes f pin items bs w = Some (w', Inr ms)"
    and "\<And>name b ks p v v' n. (name, b) \<in> set bs \<Longrightarrow> sb_batched_contains b ks p v = Some (v', Inr n) \<Longrightarrow> n \<le> length ks"
  shows "concat (map snd ms) = take (sum_list (map (\<lambda>m. length (snd m)) ms)) items \<and> sum_list (map (\<lambda>m. length (snd m)) ms) \<le> length items \<and>
    (\<forall>(name, cs) \<in> set ms. cs \<noteq> []) \<and> set (map fst ms) \<subseteq> set (map fst bs)"
  using assms
proof (induction bs arbitrary: items w w' ms)
  case (Cons nb bs)
  obtain name b where nb: "nb = (name, b)" by (cases nb)
  from Cons.prems(1) [unfolded nb take_prefixes.simps] show ?case
  proof (cases rule: bind_SomeE)
    case (ok v n)
    have n: "n \<le> length items" using Cons.prems(2) [of name b, OF _ ok(1)] nb by simp
    have IH: "take_prefixes f pin its bs v = Some (w', Inr ms') \<Longrightarrow> concat (map snd ms') = take (sum_list (map (\<lambda>m. length (snd m)) ms')) its \<and>
        sum_list (map (\<lambda>m. length (snd m)) ms') \<le> length its \<and> (\<forall>(name, cs) \<in> set ms'. cs \<noteq> []) \<and> set (map fst ms') \<subseteq> set (map fst bs)" for its ms'
      by (erule Cons.IH, rule Cons.prems(2), rule list.set_intros(2))
    show ?thesis
    proof (cases "n = 0 \<or> n = length items")
      case True
      then show ?thesis using ok(2) IH [of items ms] nb n by (auto simp: act_simps split: if_splits)
    next
      case False
      then have "bind_act (take_prefixes f pin (drop n items) bs) (\<lambda>ms. return_act ((name, take n items) # ms)) v = Some (w', Inr ms)" using ok(2) by simp
      then show ?thesis
      proof (cases rule: bind_SomeE)
        case (ok v' ms')
        then have ms: "ms = (name, take n items) # ms'" "take_prefixes f pin (drop n items) bs v = Some (w', Inr ms')" by (simp_all add: act_simps)
        then show ?thesis using IH [of "drop n items" ms'] False n nb by (auto simp: min_def take_add [symmetric] add.commute)
      qed simp
    qed
  qed simp
qed (simp add: act_simps)

section \<open>The budget of the semaphore\<close>

text \<open>The requests that hold chunks, in any order of acquisitions and releases.\<close>

inductive ws_run :: "int \<Rightarrow> WeightedSemaphore \<Rightarrow> int list \<Rightarrow> bool" for budget where
  ws_new: "ws_run budget (WeightedSemaphore_init budget) []"
| ws_acquired: "ws_run budget s hs \<Longrightarrow> 0 < n \<Longrightarrow> ws_acquire n s = Inr (Some s') \<Longrightarrow> ws_run budget s' (n # hs)"
| ws_released: "ws_run budget s (hs @ n # hs') \<Longrightarrow> ws_run budget (ws_release n s) (hs @ hs')"

definition ws_inv :: "int \<Rightarrow> WeightedSemaphore \<Rightarrow> int list \<Rightarrow> bool" where
  "ws_inv budget s hs \<longleftrightarrow>
     ws_chunk_budget_cap s = budget \<and> ws_concurrent_budget_cap s = budget div 2 \<and> (\<forall>n \<in> set hs. 0 < n \<and> n \<le> budget) \<and>
     ((\<forall>n \<in> set hs. n \<le> budget div 2) \<and> ws_current_chunks s + sum_list hs = budget div 2 \<and> 0 \<le> ws_current_chunks s \<or>
      (\<exists>n > budget div 2. hs = [n]) \<and> ws_current_chunks s = 0)"

lemma ws_run_inv:
  assumes "ws_run budget s hs" and "2 \<le> budget"
  shows "ws_inv budget s hs"
  using assms(1)
proof induction
  case ws_new
  then show ?case using assms(2) by (simp add: ws_inv_def WeightedSemaphore_init_def)
next
  case (ws_acquired s hs n s')
  have b: "ws_chunk_budget_cap s = budget" "ws_concurrent_budget_cap s = budget div 2" "0 < budget div 2" using ws_acquired.IH assms(2) by (auto simp: ws_inv_def)
  have le: "n \<le> budget" using ws_acquired(3) b by (auto simp: ws_acquire_def split: if_splits)
  show ?case
  proof (cases "n \<le> budget div 2")
    case True
    then have "n \<le> ws_current_chunks s" "s' = s\<lparr>ws_current_chunks := ws_current_chunks s - n\<rparr>"
      using ws_acquired(3) le b by (auto simp: ws_acquire_def split: if_splits)
    then show ?thesis using ws_acquired.IH ws_acquired(2) True le by (auto simp: ws_inv_def)
  next
    case False
    then have c: "ws_current_chunks s = budget div 2" "s' = s\<lparr>ws_current_chunks := 0\<rparr>" using ws_acquired(3) le b by (auto simp: ws_acquire_def split: if_splits)
    have "hs = []"
    proof (rule ccontr)
      assume "hs \<noteq> []"
      then obtain x xs where "hs = x # xs" by (cases hs) simp_all
      moreover from this have "0 < x" "0 \<le> sum_list xs" using ws_acquired.IH by (auto simp: ws_inv_def intro!: sum_list_nonneg)
      ultimately have "0 < sum_list hs" by simp
      then show False using ws_acquired.IH c(1) b(3) by (auto simp: ws_inv_def)
    qed
    then show ?thesis using c False le ws_acquired(2) b by (simp add: ws_inv_def)
  qed
next
  case (ws_released s hs n hs')
  then show ?case by (auto simp: ws_inv_def ws_release_def append_eq_Cons_conv)
qed

text \<open>With a budget of at least two chunks, the holders never have more than the budget together.\<close>

lemma ws_budget_kept:
  assumes "ws_run budget s hs" and "2 \<le> budget"
  shows "sum_list hs \<le> budget"
  using ws_run_inv [OF assms] assms(2) by (auto simp: ws_inv_def)

text \<open>With a budget of one chunk, several requests get it at the same time.\<close>

lemma ws_budget_one: "ws_run 1 (WeightedSemaphore_init 1) [1, 1]"
proof -
  have "ws_acquire 1 (WeightedSemaphore_init 1) = Inr (Some (WeightedSemaphore_init 1))" by (simp add: ws_acquire_def WeightedSemaphore_init_def)
  then show ?thesis by (metis ws_acquired ws_new zero_less_one)
qed

section \<open>Properties\<close>

text \<open>
  Property C39. When the allocator of a backend already holds the first key, the copies for that backend
  are filed under the wrong keys: the copy of the second object goes under the first key.
\<close>

theorem copied_objects_misfiled:
  assumes "ab_contains ab k1 w = Some (w, Inr True)" and "ab_contains ab k2 w = Some (w, Inr False)"
    and "ab_allocate ab (One (mo_shape M w ob)) (One (mo_dtype M w ob)) (Some (mo_fmt M w ob)) True False w = Some (w', Inr (Some m))"
    and "mo_has_tensor M w' m"
  shows "allocate_and_copy_objects M ab [k1, k2] [oa, ob] w = Some (mo_copy M m ob w', Inr ([k1], [m]))"
  using assms by (simp add: allocate_and_copy_objects_def bind_act_def act_simps)

text \<open>The CPU backend as allocator, holding the key 1 but not the key 3; the object of key 1 is copied.\<close>

theorem copied_objects_misfiled_witness:
  "\<exists>w'. allocate_and_copy_objects (local_mem sample_alloc)
     (local_cpu_allocator sample_env sample_alloc (\<lambda>_ b. b) (\<lambda>k n. [k]) TensorMemoryAllocator_memcheck 5) [1, 3] [0, 0] sample_stored =
     Some (w', Inr ([1], [1]))"
proof -
  let ?ab = "local_cpu_allocator sample_env sample_alloc (\<lambda>_ b. b) (\<lambda>k n. [k]) TensorMemoryAllocator_memcheck 5"
  define w where "w = fst (try_allocate sample_alloc (One [8]) (One ''float16'') KV_2LTD sample_stored)"
  have c: "ab_contains ?ab 1 sample_stored = Some (sample_stored, Inr True)" "ab_contains ?ab 3 sample_stored = Some (sample_stored, Inr False)"
    by code_simp+
  have r: "snd (try_allocate sample_alloc (One [8]) (One ''float16'') KV_2LTD sample_stored) = Inr (Some 1)" by code_simp
  then have t: "try_allocate sample_alloc (One [8]) (One ''float16'') KV_2LTD sample_stored = (w, Inr (Some 1))" by (simp add: w_def prod_eq_iff)
  have o: "md_shape (tm_meta (mw_heap (lcb_mem sample_stored) ! 0)) = [8]" "md_dtype (tm_meta (mw_heap (lcb_mem sample_stored) ! 0)) = Some ''float16''"
    "md_fmt (tm_meta (mw_heap (lcb_mem sample_stored) ! 0)) = KV_2LTD" by code_simp+
  have "ab_allocate ?ab (One [8]) (One ''float16'') (Some KV_2LTD) True False sample_stored = Some (w, Inr (Some 1))"
    using t by (simp add: local_cpu_allocator_def lcb_allocate_def lcb_format_def Let_def)
  moreover have "tm_valid (mw_heap (lcb_mem w) ! 1)" unfolding w_def by code_simp
  ultimately show ?thesis
    using copied_objects_misfiled [OF c, where M = "local_mem sample_alloc" and m = 1 and w' = w and oa = 0 and ob = 0] o by (simp add: local_mem_def)
qed


definition sample_loading :: "(nat, nat, unit) sm_state" where
  "sample_loading = \<lparr>sm_freeze = False, sm_bypassed_backends = [], sm_events = add_event ''req'' None EventManager_init, sm_responses = [], sm_world = ()\<rparr>"


text \<open>In the other cases the answer is the length of the chunks that were retrieved up to the first gap.\<close>

lemma retrieved_chunks_full: "list_all2 (\<lambda>e t. e \<le> length t) es ts \<Longrightarrow> retrieved_chunks es ts n = Inr (n + sum_list (map length ts))"
  by (induction arbitrary: n rule: list_all2_induct) auto

lemma retrieved_chunks_last_short:
  "list_all2 (\<lambda>e t. e \<le> length t) es ts \<Longrightarrow> length t < e \<Longrightarrow> retrieved_chunks (es @ e # es') (ts @ [t]) n = Inr (n + sum_list (map length ts) + length t)"
  by (induction arbitrary: n rule: list_all2_induct) auto

lemma prefetch_answered:
  assumes "list_all2 (\<lambda>e t. e \<le> length t) es ts" and "sum_list (map length ts) < length cum" and "dict_has (sm_events s ONGOING) lookup_id"
  shows "\<exists>s'. prefetch_all_done_callback lookup_id cum es (Inr ts) s = Some (s', Inr ()) \<and>
    sm_responses s' = sm_responses s @ [(lookup_id, cum ! sum_list (map length ts))] \<and> sm_world s' = sm_world s"
  using retrieved_chunks_full [OF assms(1), of 0] assms(2,3)
  by (auto simp: prefetch_all_done_callback_def update_event_status_def Let_def)

end
