(* ===== verification/Spec2Isabelle.thy ===== *)
theory Spec2Isabelle
  imports MP_Adapter Remote_Server Token_Database Storage_Tiers
begin

text \<open>
  \<^bold>\<open>Verification of LMCache\<close>

  LMCache keeps the KV cache of a language-model server outside the GPU: in pinned host memory, on a
  remote cache server, on disk. It runs in two modes. In the \<^emph>\<open>multi-process mode\<close> the serving processes of
  vLLM talk to one cache server over a message queue; the server owns the memory, copies chunks from
  and to the GPU buffers that the workers have shared, and evicts. In the \<^emph>\<open>in-process mode\<close> the cache is part of
  the serving process: a token database turns tokens into keys, a storage manager looks them up in a
  list of backends, of which the CPU cache is always one, and a remote server can be another.
  File names below are relative to \<^verbatim>\<open>src/\<close>.

  \<^bold>\<open>Conventions.\<close> \<open>LM_Prelude\<close> has the exceptions of Python as values (\<open>py_error\<close>), results that may be exceptions, and dictionaries
  with their order as association lists. A method that changes an object takes its record and returns
  the new one; \<open>Py_Actions\<close> has the combinators for methods that also may raise or may not return. Integers of
  Python are \<open>int\<close>, those of C++ and CUDA are words or are wrapped explicitly. Code outside the repository is a
  parameter with its documented behaviour as a named hypothesis: \<open>SortedList_documented\<close> (sortedcontainers), \<open>Torch_documented\<close> (sizes of dtypes),
  \<open>Msgspec_documented\<close> (decoding what was encoded), \<open>items_documented\<close> (SortedDict), \<open>unfold_documented\<close> (Tensor.unfold).

  \<^bold>\<open>Memory\<close> (\<^verbatim>\<open>lmcache/v1/memory_management.py\<close>, \<^verbatim>\<open>lazy_memory_allocator.py\<close>, \<^verbatim>\<open>pin_monitor.py\<close>).
  \<^item> \<open>Address_Space\<close>: the contract of an allocator of addresses, as a locale, and what a holder of ranges may conclude from it.
  \<^item> \<open>Address_Manager\<close>: the class \<^verbatim>\<open>AddressManager\<close>. Free and live ranges partition the space in every history; allocation is lowest fit; the
    interpretation \<open>am\<close> shows that it keeps the contract.
  \<^item> \<open>Memory_Obj\<close>: formats, metadata with its serialisation, reference counts, pins and their time-out; the locale \<open>object_owner\<close> is what the
    reference counting asks of the allocator that owns an object.
  \<^item> \<open>Tensor_Allocator\<close>, \<open>Paged_Allocator\<close>: the two allocators, both interpretations of \<open>object_owner\<close>. Valid objects are disjoint, the
    memory check passes, batched calls equal single ones.
  \<^item> \<open>Lazy_Allocator\<close>: the allocator whose memory a background thread pins piece by piece; every byte in use is pinned, and the
    expansion ends.
  \<^item> \<open>Mixed_Allocator\<close>: the classes that delegate to these allocators, over the locale \<open>memory_allocator\<close>.

  \<^bold>\<open>The cache server of the multi-process mode\<close> (\<^verbatim>\<open>lmcache/v1/distributed/\<close>, \<^verbatim>\<open>lmcache/v1/multiprocess/\<close>, \<^verbatim>\<open>csrc/\<close>).
  \<^item> \<open>TTL_Lock\<close>: \<^verbatim>\<open>csrc/storage_manager/ttl_lock.cpp\<close> with its compare-and-swap loops under all interleavings.
  \<^item> \<open>Token_Hasher\<close>, \<open>Object_Key\<close>: \<^verbatim>\<open>token_hasher.py\<close>, \<^verbatim>\<open>session.py\<close>, \<^verbatim>\<open>api.py\<close>, \<^verbatim>\<open>custom_types.py\<close>: rolling hashes of chunks, sessions, keys.
  \<^item> \<open>LRU_Eviction\<close>, \<open>L1_Manager\<close>, \<open>Dist_Storage\<close>: the eviction policy, the cache with its read and write leases, and the storage manager with the
    rounds of the eviction thread. A reader keeps its object for its lease, a writer is alone, and no memory leaks.
  \<^item> \<open>KV_Transfer\<close>: the kernels of \<^verbatim>\<open>csrc/mem_kernels.cu\<close> with 32-bit offsets and launch grids, and the split host copy.
  \<^item> \<open>MP_Engine\<close>: \<^verbatim>\<open>MPCacheEngine\<close> of \<^verbatim>\<open>server.py\<close> and \<^verbatim>\<open>gpu_connector/gpu_ops.py\<close>.
  \<^item> \<open>Message_Queue\<close>: \<^verbatim>\<open>protocol.py\<close>, \<^verbatim>\<open>mq.py\<close>, \<^verbatim>\<open>futures.py\<close> and the handlers of the server, as a step relation of clients, main loop and worker threads.
    The locale \<open>handler_table\<close> is what the queue asks of handlers.
  \<^item> \<open>MP_Adapter\<close>: \<^verbatim>\<open>lmcache/integration/vllm/vllm_multi_process_adapter.py\<close>. The theorem on store, lookup and retrieve goes from one adapter through
    all parts above to another adapter.

  \<^bold>\<open>The in-process mode\<close> (\<^verbatim>\<open>lmcache/utils.py\<close>, \<^verbatim>\<open>lmcache/v1/\<close>, \<^verbatim>\<open>lmcache/v1/storage_backend/\<close>).
  \<^item> \<open>Py_Strings\<close>, \<open>Cache_Key\<close>: the printed and parsed cache keys and slot mappings of \<^verbatim>\<open>utils.py\<close>.
  \<^item> \<open>Remote_Protocol\<close>, \<open>Remote_Server\<close>: \<^verbatim>\<open>protocol.py\<close>, \<^verbatim>\<open>server/\<close> and \<^verbatim>\<open>connector/lm_connector.py\<close> over byte streams that arrive in any pieces.
  \<^item> \<open>Cache_Policy\<close>: the policies of \<^verbatim>\<open>cache_policy/\<close>, as interpretations of the locale \<open>cache_policy\<close>.
  \<^item> \<open>Local_CPU\<close>: \<^verbatim>\<open>local_cpu_backend.py\<close> over any policy and any allocator with the contract \<open>backend_memory\<close>: cached and held objects are
    live with exact reference counts in every history.
  \<^item> \<open>Token_Database\<close>: \<^verbatim>\<open>token_database.py\<close> and \<^verbatim>\<open>metadata.py\<close>.
  \<^item> \<open>Storage_Tiers\<close>: \<^verbatim>\<open>storage_manager.py\<close>, \<^verbatim>\<open>event_manager.py\<close> and \<^verbatim>\<open>abstract_backend.py\<close> over the interface of the backends.

  \<^bold>\<open>Loops and bounds.\<close> Loops over data are structural recursions. The others are named here. The allocation loops of the
  CPU cache and the split host copy are partial functions where \<open>None\<close> is not returning; it is proved that the
  copy returns, and that the allocation of an object returns unless it is asked to wait. The expansion of the lazy
  allocator has fuel, and as many rounds as the final size has chunks of \<open>PIN_CHUNK_SIZE\<close> are enough. The loop that removes the
  pins of a timed-out object has fuel, and its pin count is enough. Leases of locks are 64-bit times.

  \<^bold>\<open>Errors in the code.\<close> Some theorems state what the code does where it differs from what it means to do: a lock that expires
  under two callers, a failed retrieve that is reported as a success, a second store that is reported
  early, layers of a key that the remote server confuses, a payload that is not read, the touching
  of recent keys that stays stuck once one of them was removed, an eviction in batches that frees objects in use, copies filed
  under the wrong key, a prefetch that is never answered.

  \<^bold>\<open>Not modelled.\<close> Floating point code (CacheGen, KV blending, rotary embedding); disk, RDMA and network backends
  other than the cache server, which are input and output on libraries outside the repository; the
  engine class of the in-process mode and its connectors to vLLM and SGLang; the lookup clients, the
  cache controller and the HTTP servers; configuration files, metrics, logging and usage reports;
  starting and stopping of threads. Timing is not modelled beyond the clocks that the code reads, and the
  memory model is sequentially consistent.
\<close>

end
